(* ===== verification/Iam.thy ===== *)
theory Iam
  imports Prelude
begin

text \<open>
  Package \<open>internal/iam\<close> (roles and action names) and \<open>internal/authz\<close> (the evaluator that decides
  whether a principal may perform an action).  The evaluator's grant store is the interface
  \<open>GrantStore\<close>; what it promises is the locale \<open>grant_store\<close>, and the decision theorem is
  proved for every store that keeps the promise.
\<close>

section \<open>\<open>iam.go\<close>\<close>

type_synonym Role = string
type_synonym Action = string

definition RoleAdmin :: Role where "RoleAdmin = ''admin''"
definition RoleMember :: Role where "RoleMember = ''member''"

definition ParseRole :: "string \<Rightarrow> Role result" where
  "ParseRole value = (if value = RoleAdmin \<or> value = RoleMember then Inr value else Inl ErrMalformed)"

definition ActionCreateBucket :: Action where "ActionCreateBucket = ''s3:CreateBucket''"
definition ActionDeleteBucket :: Action where "ActionDeleteBucket = ''s3:DeleteBucket''"
definition ActionListBucket :: Action where "ActionListBucket = ''s3:ListBucket''"
definition ActionGetObject :: Action where "ActionGetObject = ''s3:GetObject''"
definition ActionPutObject :: Action where "ActionPutObject = ''s3:PutObject''"
definition ActionDeleteObject :: Action where "ActionDeleteObject = ''s3:DeleteObject''"
definition ActionListMultipartUploadParts :: Action where
  "ActionListMultipartUploadParts = ''s3:ListMultipartUploadParts''"
definition ActionAbortMultipartUpload :: Action where
  "ActionAbortMultipartUpload = ''s3:AbortMultipartUpload''"

lemmas action_defs = ActionCreateBucket_def ActionDeleteBucket_def ActionListBucket_def
  ActionGetObject_def ActionPutObject_def ActionDeleteObject_def
  ActionListMultipartUploadParts_def ActionAbortMultipartUpload_def

definition grantableActions :: "Action list" where
  "grantableActions = [ActionListBucket, ActionGetObject, ActionPutObject, ActionDeleteObject,
     ActionListMultipartUploadParts, ActionAbortMultipartUpload]"

definition IsGrantable :: "Action \<Rightarrow> bool" where
  "IsGrantable a \<longleftrightarrow> list_ex (\<lambda>grantable. a = grantable) grantableActions"

definition ParseGrantableAction :: "string \<Rightarrow> Action result" where
  "ParseGrantableAction value = (if \<not> IsGrantable value then Inl ErrInvalidGrantAction else Inr value)"

section \<open>\<open>evaluator.go\<close>\<close>

record Principal =
  p_UserID :: string
  p_DisplayName :: string
  p_AccessKeyID :: string
  p_Role :: Role
  p_DevMode :: bool
  p_SignedHeaders :: string
  p_SignedPayloadHash :: string

record DecisionRequest =
  d_Principal :: Principal
  d_Action :: Action
  d_Bucket :: string
  d_ObjectKey :: string
  d_ListPrefix :: string
  d_BucketOwnerID :: string

record authz_Grant =
  a_BucketName :: string
  a_GranteeUserID :: string
  a_Action :: Action
  a_KeyPrefix :: string
  a_Active :: bool

definition grantMatches :: "authz_Grant \<Rightarrow> DecisionRequest \<Rightarrow> bool" where
  "grantMatches grant req =
     (if d_Action req = ActionListBucket then HasPrefix (d_ListPrefix req) (a_KeyPrefix grant)
      else HasPrefix (d_ObjectKey req) (a_KeyPrefix grant))"

fun any_grant :: "authz_Grant list \<Rightarrow> DecisionRequest \<Rightarrow> bool" where
  "any_grant [] req = False"
| "any_grant (grant # grants) req =
     (if \<not> a_Active grant then any_grant grants req
      else if a_Action grant \<noteq> d_Action req then any_grant grants req
      else if grantMatches grant req then True else any_grant grants req)"

type_synonym 's grant_lister = "string \<Rightarrow> string \<Rightarrow> 's \<Rightarrow> authz_Grant list result \<times> 's"

definition Allow :: "'s grant_lister option \<Rightarrow> DecisionRequest \<Rightarrow> 's \<Rightarrow> bool result \<times> 's" where
  "Allow store req s =
     (let user = p_UserID (d_Principal req) in
      if TrimSpace user = [] then (Inr False, s)
      else if d_Action req = [] then (Inr False, s)
      else if p_Role (d_Principal req) = RoleAdmin then (Inr True, s)
      else if d_Action req = ActionCreateBucket then (Inr True, s)
      else if TrimSpace (d_Bucket req) = [] then (Inr False, s)
      else if d_BucketOwnerID req \<noteq> [] \<and> d_BucketOwnerID req = user then (Inr True, s)
      else if d_Action req = ActionDeleteBucket then (Inr False, s)
      else case store of
        None \<Rightarrow> (Inr False, s)
      | Some list_active \<Rightarrow>
          (case list_active user (d_Bucket req) s of
             (Inl err, s1) \<Rightarrow> (Inl err, s1)
           | (Inr grants, s1) \<Rightarrow> (Inr (any_grant grants req), s1)))"

text \<open>\<open>authz.FuncStore\<close>: a nil function has no grants.\<close>

definition FuncStore :: "'s grant_lister option \<Rightarrow> 's grant_lister" where
  "FuncStore f granteeUserID bucketName s =
     (case f of None \<Rightarrow> (Inr [], s) | Some g \<Rightarrow> g granteeUserID bucketName s)"

section \<open>The decision rule\<close>

text \<open>
  What the evaluator decides, without the order of its tests: a principal with an identity is
  allowed if it is an administrator, creates a bucket, owns the bucket, or holds an active grant
  for the action whose prefix covers the key (or the list prefix); bucket deletion is never granted.
\<close>

definition covers :: "authz_Grant \<Rightarrow> DecisionRequest \<Rightarrow> bool" where
  "covers g req \<longleftrightarrow> a_Active g \<and> a_GranteeUserID g = p_UserID (d_Principal req)
     \<and> a_BucketName g = d_Bucket req \<and> a_Action g = d_Action req
     \<and> prefix (a_KeyPrefix g) (if d_Action req = ActionListBucket then d_ListPrefix req else d_ObjectKey req)"

definition permitted :: "authz_Grant set \<Rightarrow> DecisionRequest \<Rightarrow> bool" where
  "permitted G req \<longleftrightarrow>
     TrimSpace (p_UserID (d_Principal req)) \<noteq> [] \<and> d_Action req \<noteq> [] \<and>
     (p_Role (d_Principal req) = RoleAdmin \<or> d_Action req = ActionCreateBucket
      \<or> TrimSpace (d_Bucket req) \<noteq> []
        \<and> (d_BucketOwnerID req = p_UserID (d_Principal req)
           \<or> d_Action req \<noteq> ActionDeleteBucket \<and> (\<exists>g\<in>G. covers g req)))"

lemma any_grant_iff:
  "any_grant grants req \<longleftrightarrow>
   (\<exists>g\<in>set grants. a_Active g \<and> a_Action g = d_Action req \<and> grantMatches g req)"
  by (induction grants) auto

lemma grantMatches_iff:
  "grantMatches g req \<longleftrightarrow>
   prefix (a_KeyPrefix g) (if d_Action req = ActionListBucket then d_ListPrefix req else d_ObjectKey req)"
  by (simp add: grantMatches_def HasPrefix_def)

locale grant_store =
  fixes list_active :: "'s grant_lister"
    and grants_of :: "'s \<Rightarrow> authz_Grant set"
  assumes list_active_set: "list_active u b s = (Inr gs, s') \<Longrightarrow>
      {g \<in> set gs. a_Active g} = {g \<in> grants_of s. a_Active g \<and> a_GranteeUserID g = u \<and> a_BucketName g = b}"
    and list_active_keeps: "list_active u b s = (r, s') \<Longrightarrow> grants_of s' = grants_of s"
begin

lemma any_grant_covers:
  assumes "list_active (p_UserID (d_Principal req)) (d_Bucket req) s = (Inr gs, s')"
  shows "any_grant gs req \<longleftrightarrow> (\<exists>g\<in>grants_of s. covers g req)"
proof -
  have "any_grant gs req \<longleftrightarrow>
      (\<exists>g\<in>{g \<in> set gs. a_Active g}. a_Action g = d_Action req \<and> grantMatches g req)"
    by (auto simp: any_grant_iff)
  then show ?thesis
    unfolding list_active_set [OF assms] by (auto simp: covers_def grantMatches_iff)
qed

lemma decision:
  assumes "Allow (Some list_active) req s = (r, s')"
  shows "r = Inr b \<Longrightarrow> b \<longleftrightarrow> permitted (grants_of s) req"
    and "grants_of s' = grants_of s"
proof -
  obtain l s1 where l: "list_active (p_UserID (d_Principal req)) (d_Bucket req) s = (l, s1)" by fastforce
  show "grants_of s' = grants_of s"
    using assms l list_active_keeps [OF l]
    by (auto simp: Allow_def Let_def split: if_splits sum.splits)
  show "b \<longleftrightarrow> permitted (grants_of s) req" if "r = Inr b"
  proof (cases l)
    case (Inl err)
    with assms l that show ?thesis
      by (auto simp: Allow_def Let_def permitted_def split: if_splits)
  next
    case (Inr gs)
    note c = any_grant_covers [OF l [unfolded Inr]]
    from assms l that Inr c show ?thesis
      by (auto simp: Allow_def Let_def permitted_def split: if_splits)
  qed
qed

end

end
