(* ===== verification/Db.thy ===== *)
theory Db
  imports Iam
begin

text \<open>
  The SQLite database behind \<open>internal/metadata\<close>: rows as the records of the package, tables as
  lists of rows in insertion order, statements that may fail, and transactions
  (\<open>transaction.go\<close>).  The oracle \<open>db_fails\<close> decides which statement fails with a driver error or
  because the request was cancelled; a failing statement changes nothing, and a transaction that
  does not commit leaves the tables as they were.  The constraints are those of
  \<open>migrations/migration.go\<close>.  Timestamps are stored and read back as instants, user metadata as
  the list of its entries.
\<close>

section \<open>Rows\<close>

record User =
  u_ID :: string
  u_DisplayName :: string
  u_AccessKeyID :: string
  u_SecretHash :: string
  u_SigV4AccessKeyID :: string
  u_SigV4SecretKey :: string
  u_Role :: Role
  u_IsActive :: bool
  u_CreatedAt :: time
  u_UpdatedAt :: time

record Bucket =
  b_Name :: string
  b_OwnerID :: string
  b_CreatedAt :: time

record checksums =
  ChecksumCRC32 :: string
  ChecksumCRC32C :: string
  ChecksumCRC64NVME :: string
  ChecksumSHA1 :: string
  ChecksumSHA256 :: string

definition no_checksums :: checksums where
  "no_checksums = \<lparr>ChecksumCRC32 = [], ChecksumCRC32C = [], ChecksumCRC64NVME = [],
     ChecksumSHA1 = [], ChecksumSHA256 = []\<rparr>"

record Object =
  o_ID :: string
  o_BucketName :: string
  o_Key :: string
  o_Size :: int
  o_ETag :: string
  o_ContentType :: string
  o_StoragePath :: string
  o_CreatedAt :: time
  o_UpdatedAt :: time
  o_IsMultipart :: bool
  o_PartsCount :: int
  o_Checksums :: checksums
  o_UserMetadata :: "(string \<times> string) list"

type_synonym MultipartUploadStatus = string

definition StatusActive :: MultipartUploadStatus where "StatusActive = ''active''"
definition StatusCompleting :: MultipartUploadStatus where "StatusCompleting = ''completing''"
definition StatusAborted :: MultipartUploadStatus where "StatusAborted = ''aborted''"

lemmas status_defs = StatusActive_def StatusCompleting_def StatusAborted_def

record MultipartUpload =
  mu_ID :: string
  mu_BucketName :: string
  mu_Key :: string
  mu_ContentType :: string
  mu_ChecksumAlgorithm :: string
  mu_Status :: MultipartUploadStatus
  mu_CreatedAt :: time
  mu_StatusUpdatedAt :: time
  mu_UserMetadata :: "(string \<times> string) list"

record MultipartPart =
  mp_UploadID :: string
  mp_PartNumber :: int
  mp_Size :: int
  mp_ETag :: string
  mp_StoragePath :: string
  mp_CreatedAt :: time
  mp_Checksums :: checksums

record Grant =
  gr_ID :: string
  gr_BucketName :: string
  gr_GranteeUserID :: string
  gr_Action :: Action
  gr_KeyPrefix :: string
  gr_IsActive :: bool
  gr_CreatedBy :: string
  gr_Note :: string
  gr_CreatedAt :: time
  gr_UpdatedAt :: time

record ShareLink =
  sl_Code :: string
  sl_BucketName :: string
  sl_ObjectKey :: string
  sl_ResponseContentDisposition :: string
  sl_CreatedBy :: string
  sl_ExpiresAt :: "time option"
  sl_CreatedAt :: time

record ObjectActivity =
  oa_ID :: string
  oa_Action :: string
  oa_BucketName :: string
  oa_ObjectKey :: string
  oa_Size :: int
  oa_ETag :: string
  oa_ActorUserID :: string
  oa_CreatedAt :: time

record tables =
  users :: "User list"
  buckets :: "Bucket list"
  objects :: "Object list"
  uploads :: "MultipartUpload list"
  parts :: "MultipartPart list"
  grants :: "Grant list"
  share_links :: "ShareLink list"
  activity :: "ObjectActivity list"

definition empty_tables :: tables where
  "empty_tables = \<lparr>users = [], buckets = [], objects = [], uploads = [], parts = [], grants = [],
     share_links = [], activity = []\<rparr>"

section \<open>Statements and transactions\<close>

record db =
  tabs :: tables
  db_tick :: nat

record db_env =
  db_fails :: "nat \<Rightarrow> bool"
  clock :: "nat \<Rightarrow> time"

text \<open>\<open>time.Now()\<close> as the next statement sees it.\<close>

definition Now :: "db_env \<Rightarrow> db \<Rightarrow> time" where
  "Now env s = clock env (db_tick s)"

definition db_step :: "db \<Rightarrow> db" where
  "db_step s = s\<lparr>db_tick := Suc (db_tick s)\<rparr>"

definition sql :: "db_env \<Rightarrow> (tables \<Rightarrow> 'a result \<times> tables) \<Rightarrow> db \<Rightarrow> 'a result \<times> db" where
  "sql env stmt s =
     (if db_fails env (db_tick s) then (Inl ErrDriver, db_step s)
      else case stmt (tabs s) of
        (Inl e, t) \<Rightarrow> (Inl e, db_step s)
      | (Inr x, t) \<Rightarrow> (Inr x, (db_step s)\<lparr>tabs := t\<rparr>))"

definition query :: "db_env \<Rightarrow> (tables \<Rightarrow> 'a result) \<Rightarrow> db \<Rightarrow> 'a result \<times> db" where
  "query env f s = sql env (\<lambda>t. (f t, t)) s"

definition andThen ::
  "('s \<Rightarrow> ('e + 'a) \<times> 's) \<Rightarrow> ('a \<Rightarrow> 's \<Rightarrow> ('e + 'b) \<times> 's) \<Rightarrow> 's \<Rightarrow> ('e + 'b) \<times> 's" where
  "andThen m f s = (case m s of (Inl e, s1) \<Rightarrow> (Inl e, s1) | (Inr x, s1) \<Rightarrow> f x s1)"

definition ret :: "'a \<Rightarrow> 's \<Rightarrow> ('e + 'a) \<times> 's" where
  "ret x s = (Inr x, s)"

definition fail :: "'e \<Rightarrow> 's \<Rightarrow> ('e + 'a) \<times> 's" where
  "fail e s = (Inl e, s)"

text \<open>
  \<open>beginImmediate\<close>, the body, then \<open>commit\<close> (which first tests the request context) or the rollback
  of \<open>close\<close>.  The write lock is held throughout, so the body sees no other writer.
\<close>

definition beginImmediate :: "db_env \<Rightarrow> db \<Rightarrow> unit result \<times> db" where
  "beginImmediate env = sql env (\<lambda>t. (Inr (), t))"

definition commit :: "db_env \<Rightarrow> db \<Rightarrow> unit result \<times> db" where
  "commit env s =
     (if db_fails env (db_tick s) then (Inl ErrContext, db_step s)
      else sql env (\<lambda>t. (Inr (), t)) (db_step s))"

definition tx_close :: "tables \<Rightarrow> 'a result \<times> db \<Rightarrow> 'a result \<times> db" where
  "tx_close before r =
     (case r of (Inl e, s) \<Rightarrow> (Inl e, s\<lparr>tabs := before\<rparr>) | (Inr x, s) \<Rightarrow> (Inr x, s))"

definition in_tx :: "db_env \<Rightarrow> (db \<Rightarrow> 'a result \<times> db) \<Rightarrow> db \<Rightarrow> 'a result \<times> db" where
  "in_tx env body = andThen (beginImmediate env) (\<lambda>u s.
     tx_close (tabs s) (andThen body (\<lambda>x. andThen (commit env) (\<lambda>u. ret x)) s))"

section \<open>Laws of statements and transactions\<close>

lemma tabs_db_step [simp]: "tabs (db_step s) = tabs s"
  by (simp add: db_step_def)

lemma sql_Inl: "sql env stmt s = (Inl e, s') \<Longrightarrow> tabs s' = tabs s"
  by (auto simp: sql_def split: if_splits prod.splits sum.splits)

lemma sql_Inr: "sql env stmt s = (Inr x, s') \<Longrightarrow> stmt (tabs s) = (Inr x, tabs s')"
  by (auto simp: sql_def split: if_splits prod.splits sum.splits)

lemma query_tabs: "query env f s = (r, s') \<Longrightarrow> tabs s' = tabs s"
  by (auto simp: query_def sql_def split: if_splits sum.splits)

lemma query_Inr: "query env f s = (Inr x, s') \<Longrightarrow> f (tabs s) = Inr x \<and> tabs s' = tabs s"
  by (auto simp: query_def sql_def split: if_splits sum.splits)

lemma query_Inl: "query env f s = (Inl e, s') \<Longrightarrow> e = ErrDriver \<or> f (tabs s) = Inl e"
  by (auto simp: query_def sql_def split: if_splits sum.splits)

lemma andThen_Inr:
  "andThen m f s = (Inr y, s') \<longleftrightarrow> (\<exists>x s1. m s = (Inr x, s1) \<and> f x s1 = (Inr y, s'))"
  by (auto simp: andThen_def split: prod.splits sum.splits)

lemma andThen_Inl:
  "andThen m f s = (Inl e, s') \<longleftrightarrow>
   m s = (Inl e, s') \<or> (\<exists>x s1. m s = (Inr x, s1) \<and> f x s1 = (Inl e, s'))"
  by (auto simp: andThen_def split: prod.splits sum.splits)

lemma ret_simps [simp]: "ret x s = (r, s') \<longleftrightarrow> r = Inr x \<and> s' = s" "fail e s = (r, s') \<longleftrightarrow> r = Inl e \<and> s' = s"
  by (auto simp: ret_def fail_def)

lemma commit_tabs: "commit env s = (r, s') \<Longrightarrow> tabs s' = tabs s"
  by (auto simp: commit_def sql_def split: if_splits)

lemma beginImmediate_tabs: "beginImmediate env s = (r, s') \<Longrightarrow> tabs s' = tabs s"
  by (auto simp: beginImmediate_def sql_def split: if_splits)

lemma tx_close_Inl: "tx_close before r = (Inl e, s') \<Longrightarrow> tabs s' = before"
  by (auto simp: tx_close_def split: prod.splits sum.splits)

lemma in_tx_Inl:
  assumes "in_tx env body s = (Inl e, s')"
  shows "tabs s' = tabs s"
proof -
  consider "beginImmediate env s = (Inl e, s')"
    | u s1 where "beginImmediate env s = (Inr u, s1)"
        "tx_close (tabs s1) (andThen body (\<lambda>x. andThen (commit env) (\<lambda>u. ret x)) s1) = (Inl e, s')"
    using assms by (auto simp: in_tx_def andThen_Inl)
  then show ?thesis
    by cases (metis beginImmediate_tabs, metis beginImmediate_tabs tx_close_Inl)
qed

lemma in_tx_Inr:
  assumes "in_tx env body s = (Inr x, s')"
  obtains s1 s2 where "tabs s1 = tabs s" and "body s1 = (Inr x, s2)" and "tabs s' = tabs s2"
proof -
  from assms obtain u s1 where b: "beginImmediate env s = (Inr u, s1)"
    and t: "tx_close (tabs s1) (andThen body (\<lambda>x. andThen (commit env) (\<lambda>u. ret x)) s1) = (Inr x, s')"
    by (auto simp: in_tx_def andThen_Inr)
  from t have "andThen body (\<lambda>x. andThen (commit env) (\<lambda>u. ret x)) s1 = (Inr x, s')"
    by (auto simp: tx_close_def split: prod.splits sum.splits)
  then obtain s2 v s3 where "body s1 = (Inr x, s2)" "commit env s2 = (Inr v, s3)" "s' = s3"
    by (auto simp: andThen_Inr)
  with that b show ?thesis using beginImmediate_tabs commit_tabs by metis
qed

section \<open>The schema's constraints\<close>

definition user_exists :: "tables \<Rightarrow> string \<Rightarrow> bool" where
  "user_exists t i \<longleftrightarrow> i \<in> u_ID ` set (users t)"

definition bucket_exists :: "tables \<Rightarrow> string \<Rightarrow> bool" where
  "bucket_exists t n \<longleftrightarrow> n \<in> b_Name ` set (buckets t)"

definition upload_exists :: "tables \<Rightarrow> string \<Rightarrow> bool" where
  "upload_exists t i \<longleftrightarrow> i \<in> mu_ID ` set (uploads t)"

definition obj_key :: "Object \<Rightarrow> string \<times> string" where
  "obj_key o' = (o_BucketName o', o_Key o')"

definition part_key :: "MultipartPart \<Rightarrow> string \<times> int" where
  "part_key p = (mp_UploadID p, mp_PartNumber p)"

definition grant_key :: "Grant \<Rightarrow> string \<times> string \<times> string \<times> string" where
  "grant_key g = (gr_BucketName g, gr_GranteeUserID g, gr_Action g, gr_KeyPrefix g)"

definition validMultipartUploadStatus :: "MultipartUploadStatus \<Rightarrow> bool" where
  "validMultipartUploadStatus s \<longleftrightarrow> s = StatusActive \<or> s = StatusCompleting \<or> s = StatusAborted"

definition users_ok :: "tables \<Rightarrow> bool" where
  "users_ok t \<longleftrightarrow> distinct (map u_ID (users t)) \<and> distinct (map u_AccessKeyID (users t))
     \<and> distinct (filter (\<lambda>k. k \<noteq> []) (map u_SigV4AccessKeyID (users t)))
     \<and> (\<forall>u\<in>set (users t). u_Role u = RoleAdmin \<or> u_Role u = RoleMember)"

definition buckets_ok :: "tables \<Rightarrow> bool" where
  "buckets_ok t \<longleftrightarrow> distinct (map b_Name (buckets t)) \<and> (\<forall>b\<in>set (buckets t). user_exists t (b_OwnerID b))"

definition objects_ok :: "tables \<Rightarrow> bool" where
  "objects_ok t \<longleftrightarrow> distinct (map o_ID (objects t)) \<and> distinct (map obj_key (objects t))
     \<and> (\<forall>x\<in>set (objects t). bucket_exists t (o_BucketName x))"

definition uploads_ok :: "tables \<Rightarrow> bool" where
  "uploads_ok t \<longleftrightarrow> distinct (map mu_ID (uploads t))
     \<and> (\<forall>u\<in>set (uploads t). bucket_exists t (mu_BucketName u) \<and> validMultipartUploadStatus (mu_Status u))"

definition parts_ok :: "tables \<Rightarrow> bool" where
  "parts_ok t \<longleftrightarrow> distinct (map part_key (parts t)) \<and> (\<forall>p\<in>set (parts t). upload_exists t (mp_UploadID p))"

definition grants_ok :: "tables \<Rightarrow> bool" where
  "grants_ok t \<longleftrightarrow> distinct (map gr_ID (grants t)) \<and> distinct (map grant_key (filter gr_IsActive (grants t)))
     \<and> (\<forall>g\<in>set (grants t). bucket_exists t (gr_BucketName g) \<and> user_exists t (gr_GranteeUserID g)
          \<and> (gr_CreatedBy g = [] \<or> user_exists t (gr_CreatedBy g)) \<and> IsGrantable (gr_Action g))"

definition shares_ok :: "tables \<Rightarrow> bool" where
  "shares_ok t \<longleftrightarrow> distinct (map sl_Code (share_links t))
     \<and> (\<forall>l\<in>set (share_links t). bucket_exists t (sl_BucketName l) \<and> user_exists t (sl_CreatedBy l))"

definition db_wf :: "tables \<Rightarrow> bool" where
  "db_wf t \<longleftrightarrow> users_ok t \<and> buckets_ok t \<and> objects_ok t \<and> uploads_ok t \<and> parts_ok t
     \<and> grants_ok t \<and> shares_ok t \<and> distinct (map oa_ID (activity t))"

lemmas wf_defs = db_wf_def users_ok_def buckets_ok_def objects_ok_def uploads_ok_def parts_ok_def
  grants_ok_def shares_ok_def user_exists_def bucket_exists_def upload_exists_def

text \<open>
  The contract every writing operation of the repositories keeps: an error leaves the tables as
  they were, and a successful run keeps a given invariant of the tables.
\<close>

locale atomic_op =
  fixes inv :: "tables \<Rightarrow> bool"
    and oper :: "db \<Rightarrow> 'a result \<times> db"
  assumes error_keeps: "oper s = (Inl e, s') \<Longrightarrow> tabs s' = tabs s"
    and ok_inv: "oper s = (Inr x, s') \<Longrightarrow> inv (tabs s) \<Longrightarrow> inv (tabs s')"
begin

lemma keeps_inv:
  assumes "oper s = (r, s')" and "inv (tabs s)"
  shows "inv (tabs s')"
  using assms error_keeps ok_inv by (cases r) auto

end


section \<open>Proving the contract\<close>

lemma atomic_sql:
  assumes "\<And>t x t'. stmt t = (Inr x, t') \<Longrightarrow> I t \<Longrightarrow> I t'"
  shows "atomic_op I (sql env stmt)"
  by unfold_locales (auto dest: sql_Inl sql_Inr intro: assms)

lemma atomic_tx:
  assumes "\<And>s x s'. body s = (Inr x, s') \<Longrightarrow> I (tabs s) \<Longrightarrow> I (tabs s')"
  shows "atomic_op I (in_tx env body)"
proof unfold_locales
  show "in_tx env body s = (Inl e, s') \<Longrightarrow> tabs s' = tabs s" for s e s' by (rule in_tx_Inl)
  show "I (tabs s')" if "in_tx env body s = (Inr x, s')" "I (tabs s)" for s x s'
    using in_tx_Inr [OF that(1)] assms that(2) by metis
qed

text \<open>Which constraints a change of one table can break.\<close>

lemma wf_users:
  assumes "db_wf t" and "users_ok (t\<lparr>users := us\<rparr>)" and "u_ID ` set (users t) \<subseteq> u_ID ` set us"
  shows "db_wf (t\<lparr>users := us\<rparr>)"
proof -
  have "user_exists t i \<Longrightarrow> user_exists (t\<lparr>users := us\<rparr>) i" for i
    using assms(3) by (auto simp: user_exists_def)
  with assms(1,2) show ?thesis
    unfolding db_wf_def buckets_ok_def objects_ok_def uploads_ok_def parts_ok_def grants_ok_def shares_ok_def
      bucket_exists_def upload_exists_def by simp blast
qed

lemma wf_buckets:
  assumes "db_wf t" and "buckets_ok (t\<lparr>buckets := bs\<rparr>)" and "b_Name ` set (buckets t) \<subseteq> b_Name ` set bs"
  shows "db_wf (t\<lparr>buckets := bs\<rparr>)"
proof -
  have "bucket_exists t i \<Longrightarrow> bucket_exists (t\<lparr>buckets := bs\<rparr>) i" for i
    using assms(3) by (auto simp: bucket_exists_def)
  with assms(1,2) show ?thesis
    unfolding db_wf_def users_ok_def objects_ok_def uploads_ok_def parts_ok_def grants_ok_def shares_ok_def
      user_exists_def upload_exists_def by simp
qed

lemma wf_objects: "db_wf t \<Longrightarrow> objects_ok (t\<lparr>objects := xs\<rparr>) \<Longrightarrow> db_wf (t\<lparr>objects := xs\<rparr>)"
  by (simp add: wf_defs)

lemma wf_grants: "db_wf t \<Longrightarrow> grants_ok (t\<lparr>grants := xs\<rparr>) \<Longrightarrow> db_wf (t\<lparr>grants := xs\<rparr>)"
  by (simp add: wf_defs)

lemma wf_shares: "db_wf t \<Longrightarrow> shares_ok (t\<lparr>share_links := xs\<rparr>) \<Longrightarrow> db_wf (t\<lparr>share_links := xs\<rparr>)"
  by (simp add: wf_defs)

lemma wf_parts: "db_wf t \<Longrightarrow> parts_ok (t\<lparr>parts := xs\<rparr>) \<Longrightarrow> db_wf (t\<lparr>parts := xs\<rparr>)"
  by (simp add: wf_defs)

lemma wf_activity: "db_wf t \<Longrightarrow> distinct (map oa_ID xs) \<Longrightarrow> db_wf (t\<lparr>activity := xs\<rparr>)"
  by (simp add: wf_defs)

lemma wf_uploads:
  assumes "db_wf t" and "uploads_ok (t\<lparr>uploads := us\<rparr>)" and "mu_ID ` set (uploads t) \<subseteq> mu_ID ` set us"
  shows "db_wf (t\<lparr>uploads := us\<rparr>)"
  using assms unfolding db_wf_def parts_ok_def upload_exists_def
  by (simp add: users_ok_def buckets_ok_def objects_ok_def grants_ok_def shares_ok_def
      user_exists_def bucket_exists_def) blast


section \<open>A sample database\<close>

definition sample_user :: "string \<Rightarrow> Role \<Rightarrow> User" where
  "sample_user i r = \<lparr>u_ID = i, u_DisplayName = i, u_AccessKeyID = CHR ''K'' # i, u_SecretHash = ''h'',
     u_SigV4AccessKeyID = CHR ''V'' # i, u_SigV4SecretKey = ''enc'', u_Role = r, u_IsActive = True,
     u_CreatedAt = 1, u_UpdatedAt = 1\<rparr>"

definition sample_object :: "string \<Rightarrow> string \<Rightarrow> string \<Rightarrow> Object" where
  "sample_object b k p = \<lparr>o_ID = p, o_BucketName = b, o_Key = k, o_Size = 3, o_ETag = ''e1'',
     o_ContentType = ''text/plain'', o_StoragePath = p, o_CreatedAt = 1, o_UpdatedAt = 1,
     o_IsMultipart = False, o_PartsCount = 0, o_Checksums = no_checksums, o_UserMetadata = []\<rparr>"

definition sample_upload :: "string \<Rightarrow> MultipartUpload" where
  "sample_upload i = \<lparr>mu_ID = i, mu_BucketName = ''b'', mu_Key = ''k'', mu_ContentType = ''text/plain'',
     mu_ChecksumAlgorithm = [], mu_Status = StatusActive, mu_CreatedAt = 1, mu_StatusUpdatedAt = 1,
     mu_UserMetadata = []\<rparr>"

definition sample_part :: "string \<Rightarrow> int \<Rightarrow> MultipartPart" where
  "sample_part i n = \<lparr>mp_UploadID = i, mp_PartNumber = n, mp_Size = 3, mp_ETag = ''e'',
     mp_StoragePath = ''p'', mp_CreatedAt = 1, mp_Checksums = no_checksums\<rparr>"

definition sample_grant :: "string \<Rightarrow> Action \<Rightarrow> string \<Rightarrow> Grant" where
  "sample_grant i a p = \<lparr>gr_ID = i, gr_BucketName = ''b'', gr_GranteeUserID = ''r'', gr_Action = a,
     gr_KeyPrefix = p, gr_IsActive = True, gr_CreatedBy = ''m'', gr_Note = [], gr_CreatedAt = 1, gr_UpdatedAt = 1\<rparr>"

definition sample_tables :: tables where
  "sample_tables = \<lparr>
     users = [sample_user ''a'' RoleAdmin, sample_user ''m'' RoleMember, sample_user ''r'' RoleMember],
     buckets = [\<lparr>b_Name = ''b'', b_OwnerID = ''m'', b_CreatedAt = 1\<rparr>, \<lparr>b_Name = ''c'', b_OwnerID = ''a'', b_CreatedAt = 2\<rparr>],
     objects = [sample_object ''b'' ''k'' ''p1'', sample_object ''b'' ''a/x'' ''p2'', sample_object ''c'' ''k'' ''p3''],
     uploads = [sample_upload ''u1''], parts = [sample_part ''u1'' 1],
     grants = [sample_grant ''g1'' ActionGetObject ''a/''], share_links = [], activity = []\<rparr>"

definition sample_db :: db where
  "sample_db = \<lparr>tabs = sample_tables, db_tick = 0\<rparr>"

definition sample_denv :: db_env where
  "sample_denv = \<lparr>db_fails = (\<lambda>n. False), clock = (\<lambda>n. int n + 10)\<rparr>"

lemma sample_db_wf: "db_wf (tabs sample_db)"
  by code_simp

end
