(* ===== verification/Catalog.thy ===== *)
theory Catalog
  imports Db
begin

text \<open>
  The repositories of \<open>internal/metadata\<close> for objects (\<open>objects.go\<close>, \<open>object_replace.go\<close>) and
  multipart uploads (\<open>multipart.go\<close>).  Text comparisons of the queries (\<open>key > ?\<close>, \<open>substr\<close>,
  \<open>instr\<close>) act on bytes here; on valid UTF-8 text without NUL this is what SQLite computes.
\<close>

section \<open>Objects\<close>

definition with_times :: "time \<Rightarrow> Object \<Rightarrow> Object" where
  "with_times now x =
     (let created = (if o_CreatedAt x = 0 then now else o_CreatedAt x) in
      x\<lparr>o_CreatedAt := created,
        o_UpdatedAt := (if o_UpdatedAt x = 0 then created else o_UpdatedAt x)\<rparr>)"

definition upsert_object :: "Object \<Rightarrow> tables \<Rightarrow> unit result \<times> tables" where
  "upsert_object x t =
     (if \<exists>y\<in>set (objects t). obj_key y \<noteq> obj_key x \<and> o_ID y = o_ID x then (Inl ErrUniqueConstraint, t)
      else if \<not> bucket_exists t (o_BucketName x) then (Inl ErrForeignKey, t)
      else if obj_key x \<in> obj_key ` set (objects t)
      then (Inr (), t\<lparr>objects := map (\<lambda>y. if obj_key y = obj_key x then x else y) (objects t)\<rparr>)
      else (Inr (), t\<lparr>objects := objects t @ [x]\<rparr>))"

definition upsertObject :: "db_env \<Rightarrow> Object \<Rightarrow> db \<Rightarrow> unit result \<times> db" where
  "upsertObject env x s = sql env (upsert_object (with_times (Now env s) x)) s"

definition object_Create :: "db_env \<Rightarrow> Object \<Rightarrow> db \<Rightarrow> unit result \<times> db" where
  "object_Create env x = upsertObject env x"

definition find_object :: "string \<Rightarrow> string \<Rightarrow> tables \<Rightarrow> Object option" where
  "find_object b k t = find (\<lambda>x. o_BucketName x = b \<and> o_Key x = k) (objects t)"

definition GetByKey :: "db_env \<Rightarrow> string \<Rightarrow> string \<Rightarrow> db \<Rightarrow> Object result \<times> db" where
  "GetByKey env b k = query env (\<lambda>t.
     case find_object b k t of None \<Rightarrow> Inl ErrObjectNotFound | Some x \<Rightarrow> Inr x)"

definition list_rows :: "string \<Rightarrow> string \<Rightarrow> string \<Rightarrow> tables \<Rightarrow> Object list" where
  "list_rows b p startAfter t = sort_key o_Key
     (filter (\<lambda>x. o_BucketName x = b \<and> startAfter < o_Key x \<and> prefix p (o_Key x)) (objects t))"

definition object_List ::
  "db_env \<Rightarrow> string \<Rightarrow> string \<Rightarrow> string \<Rightarrow> int \<Rightarrow> db \<Rightarrow> (Object list \<times> bool) result \<times> db" where
  "object_List env b p startAfter maxKeys =
     (if maxKeys \<le> 0 then ret ([], False)
      else andThen (query env (\<lambda>t. Inr (take (nat (maxKeys + 1)) (list_rows b p startAfter t)))) (\<lambda>rows.
             if int (length rows) > maxKeys then ret (take (nat maxKeys) rows, True)
             else ret (rows, False)))"

text \<open>
  \<open>objectops.ListAllObjects\<close>: reading pages until one is not truncated.  The loop over an arbitrary
  \<open>List\<close> need not end, so its value is \<^const>\<open>None\<close> when it does not return.
\<close>

partial_function (option) read_all ::
  "(string \<Rightarrow> 's \<Rightarrow> ('r list \<times> bool) result \<times> 's) \<Rightarrow> ('r \<Rightarrow> string) \<Rightarrow> 'r list \<Rightarrow> string \<Rightarrow> 's
   \<Rightarrow> ('r list result \<times> 's) option" where
  "read_all page key_of allObjects startAfter s =
     (case page startAfter s of
        (Inl e, s1) \<Rightarrow> Some (Inl e, s1)
      | (Inr (objs, isTruncated), s1) \<Rightarrow>
          if \<not> isTruncated \<or> objs = [] then Some (Inr (allObjects @ objs), s1)
          else read_all page key_of (allObjects @ objs) (key_of (last objs)) s1)"

declare read_all.simps [code]

definition pageLimit :: int where "pageLimit = 1000"

definition ListAllObjects :: "db_env \<Rightarrow> string \<Rightarrow> db \<Rightarrow> (Object list result \<times> db) option" where
  "ListAllObjects env b s = read_all (\<lambda>a. object_List env b [] a pageLimit) o_Key [] [] s"

text \<open>\<open>instr\<close>: the position of the first occurrence, counted from zero.\<close>

fun index_of :: "string \<Rightarrow> string \<Rightarrow> nat option" where
  "index_of d [] = (if d = [] then Some 0 else None)"
| "index_of d (c # cs) = (if prefix d (c # cs) then Some 0 else map_option Suc (index_of d cs))"

record DelimitedListEntry =
  VirtualKey :: string
  CursorKey :: string
  IsPrefix :: bool
  e_Object :: "Object option"

definition virtual_key :: "string \<Rightarrow> string \<Rightarrow> string \<Rightarrow> string \<times> bool" where
  "virtual_key p delimiter key =
     (case (if delimiter = [] then None else index_of delimiter (drop (length p) key)) of
        None \<Rightarrow> (key, False)
      | Some i \<Rightarrow> (take (length p + i + length delimiter) key, True))"

text \<open>The columns the delimited query selects of a direct object.\<close>

definition listed_object :: "Object \<Rightarrow> Object" where
  "listed_object x = x\<lparr>o_IsMultipart := False, o_PartsCount := 0, o_Checksums := no_checksums, o_UserMetadata := []\<rparr>"

definition ListDelimited ::
  "db_env \<Rightarrow> string \<Rightarrow> string \<Rightarrow> string \<Rightarrow> string \<Rightarrow> int \<Rightarrow> db \<Rightarrow> DelimitedListEntry list result \<times> db" where
  "ListDelimited env b p startAfter delimiter maxKeys =
     (if maxKeys \<le> 0 then ret []
      else query env (\<lambda>t.
        let raw = filter (\<lambda>x. o_BucketName x = b \<and> startAfter < o_Key x \<and> prefix p (o_Key x)) (objects t);
            keys = map o_Key raw;
            grouped = sort (remdups (map (\<lambda>k. fst (virtual_key p delimiter k)) keys));
            group = (\<lambda>v. filter (\<lambda>k. fst (virtual_key p delimiter k) = v) keys);
            entry = (\<lambda>v. let is_cp = list_ex (\<lambda>k. snd (virtual_key p delimiter k)) (group v) in
                       \<lparr>VirtualKey = v, CursorKey = Max (set (group v)), IsPrefix = is_cp,
                        e_Object = (if is_cp then None else map_option listed_object (find_object b v t))\<rparr>)
        in Inr (take (nat (maxKeys + 1)) (map entry (filter (\<lambda>v. startAfter < v) grouped)))))"

definition object_Delete :: "db_env \<Rightarrow> string \<Rightarrow> string \<Rightarrow> db \<Rightarrow> unit result \<times> db" where
  "object_Delete env b k = sql env (\<lambda>t.
     if find_object b k t = None then (Inl ErrObjectNotFound, t)
     else (Inr (), t\<lparr>objects := filter (\<lambda>x. \<not> (o_BucketName x = b \<and> o_Key x = k)) (objects t)\<rparr>))"

definition DeleteAllInBucket :: "db_env \<Rightarrow> string \<Rightarrow> db \<Rightarrow> unit result \<times> db" where
  "DeleteAllInBucket env b = sql env (\<lambda>t.
     (Inr (), t\<lparr>objects := filter (\<lambda>x. o_BucketName x \<noteq> b) (objects t)\<rparr>))"

section \<open>Preconditions\<close>

definition unquoteETag :: "string \<Rightarrow> string" where
  "unquoteETag etag =
     (if 2 \<le> length etag \<and> hd etag = CHR 0x22 \<and> last etag = CHR 0x22
      then butlast (tl etag) else etag)"

definition etagsEqual :: "string \<Rightarrow> string \<Rightarrow> bool" where
  "etagsEqual a b \<longleftrightarrow> EqualFold (unquoteETag a) (unquoteETag b)"

record objectVersion =
  exists :: bool
  storagePath :: string
  etag :: string

definition loadObjectVersion :: "db_env \<Rightarrow> string \<Rightarrow> string \<Rightarrow> db \<Rightarrow> objectVersion result \<times> db" where
  "loadObjectVersion env b k = query env (\<lambda>t.
     case find_object b k t of
       None \<Rightarrow> Inr \<lparr>exists = False, storagePath = [], etag = []\<rparr>
     | Some x \<Rightarrow> Inr \<lparr>exists = True, storagePath = o_StoragePath x, etag = o_ETag x\<rparr>)"

definition checkWritePreconditions :: "objectVersion \<Rightarrow> string \<Rightarrow> string \<Rightarrow> go_error option" where
  "checkWritePreconditions existing ifMatch ifNoneMatch =
     (if \<not> exists existing then
        (if ifMatch \<noteq> [] then Some ErrObjectNotFound else None)
      else if ifMatch \<noteq> [] \<and> ifMatch \<noteq> ''*'' \<and> \<not> etagsEqual ifMatch (etag existing)
      then Some ErrPreconditionFailed
      else if ifNoneMatch = ''*'' \<or> (ifNoneMatch \<noteq> [] \<and> etagsEqual ifNoneMatch (etag existing))
      then Some ErrPreconditionFailed
      else None)"

definition replace_body :: "db_env \<Rightarrow> Object \<Rightarrow> string \<Rightarrow> string \<Rightarrow> db \<Rightarrow> string result \<times> db" where
  "replace_body env x ifMatch ifNoneMatch =
     andThen (loadObjectVersion env (o_BucketName x) (o_Key x)) (\<lambda>existing.
       case checkWritePreconditions existing ifMatch ifNoneMatch of
         Some e \<Rightarrow> fail e
       | None \<Rightarrow> andThen (upsertObject env x) (\<lambda>u. ret (storagePath existing)))"

definition Replace :: "db_env \<Rightarrow> Object \<Rightarrow> string \<Rightarrow> string \<Rightarrow> db \<Rightarrow> string result \<times> db" where
  "Replace env x ifMatch ifNoneMatch = in_tx env (replace_body env x ifMatch ifNoneMatch)"

section \<open>Multipart uploads\<close>

definition upload_defaults :: "time \<Rightarrow> MultipartUpload \<Rightarrow> MultipartUpload" where
  "upload_defaults now u =
     (let created = (if mu_CreatedAt u = 0 then now else mu_CreatedAt u) in
      u\<lparr>mu_ContentType := (if mu_ContentType u = [] then ''application/octet-stream'' else mu_ContentType u),
        mu_Status := (if mu_Status u = [] then StatusActive else mu_Status u),
        mu_CreatedAt := created,
        mu_StatusUpdatedAt := (if mu_StatusUpdatedAt u = 0 then created else mu_StatusUpdatedAt u)\<rparr>)"

definition insert_upload :: "MultipartUpload \<Rightarrow> tables \<Rightarrow> unit result \<times> tables" where
  "insert_upload u t =
     (if upload_exists t (mu_ID u) then (Inl ErrUniqueConstraint, t)
      else if \<not> bucket_exists t (mu_BucketName u) then (Inl ErrForeignKey, t)
      else (Inr (), t\<lparr>uploads := uploads t @ [u]\<rparr>))"

definition upload_Create :: "db_env \<Rightarrow> MultipartUpload \<Rightarrow> db \<Rightarrow> unit result \<times> db" where
  "upload_Create env u s =
     (let v = upload_defaults (Now env s) u in
      if \<not> validMultipartUploadStatus (mu_Status v) then (Inl ErrInvalidUploadStatus, s)
      else sql env (insert_upload v) s)"

definition find_upload :: "string \<Rightarrow> tables \<Rightarrow> MultipartUpload option" where
  "find_upload i t = find (\<lambda>u. mu_ID u = i) (uploads t)"

definition upload_GetByID :: "db_env \<Rightarrow> string \<Rightarrow> db \<Rightarrow> MultipartUpload result \<times> db" where
  "upload_GetByID env i = query env (\<lambda>t.
     case find_upload i t of None \<Rightarrow> Inl ErrMultipartUploadNotFound | Some u \<Rightarrow> Inr u)"

text \<open>Deleting an upload cascades to its parts.\<close>

definition delete_upload :: "string \<Rightarrow> tables \<Rightarrow> tables" where
  "delete_upload i t = t\<lparr>uploads := filter (\<lambda>u. mu_ID u \<noteq> i) (uploads t),
                          parts := filter (\<lambda>p. mp_UploadID p \<noteq> i) (parts t)\<rparr>"

definition upload_Delete :: "db_env \<Rightarrow> string \<Rightarrow> db \<Rightarrow> unit result \<times> db" where
  "upload_Delete env i = sql env (\<lambda>t.
     if \<not> upload_exists t i then (Inl ErrMultipartUploadNotFound, t) else (Inr (), delete_upload i t))"

definition ListStale :: "db_env \<Rightarrow> time \<Rightarrow> db \<Rightarrow> MultipartUpload list result \<times> db" where
  "ListStale env cutoff = query env (\<lambda>t. Inr (sort_key mu_CreatedAt
     (filter (\<lambda>u. (mu_Status u = StatusActive \<and> mu_CreatedAt u < cutoff)
                  \<or> (mu_Status u \<noteq> StatusActive \<and> mu_StatusUpdatedAt u < cutoff)) (uploads t))))"

definition ListAllUploadIDs :: "db_env \<Rightarrow> db \<Rightarrow> string list result \<times> db" where
  "ListAllUploadIDs env = query env (\<lambda>t. Inr (map mu_ID (uploads t)))"

definition upload_status :: "db_env \<Rightarrow> string \<Rightarrow> db \<Rightarrow> MultipartUploadStatus result \<times> db" where
  "upload_status env i = query env (\<lambda>t.
     case find_upload i t of None \<Rightarrow> Inl ErrMultipartUploadNotFound | Some u \<Rightarrow> Inr (mu_Status u))"

definition set_status :: "string \<Rightarrow> MultipartUploadStatus \<Rightarrow> time \<Rightarrow> tables \<Rightarrow> tables" where
  "set_status i st now t = t\<lparr>uploads := map (\<lambda>u. if mu_ID u = i
     then u\<lparr>mu_Status := st, mu_StatusUpdatedAt := now\<rparr> else u) (uploads t)\<rparr>"

definition claim_body :: "db_env \<Rightarrow> string \<Rightarrow> MultipartUploadStatus \<Rightarrow> db \<Rightarrow> unit result \<times> db" where
  "claim_body env i st = andThen (upload_status env i) (\<lambda>current.
     if current \<noteq> StatusActive then fail ErrUploadAlreadyClaimed
     else (\<lambda>s. sql env (\<lambda>t. (Inr (), set_status i st (Now env s) t)) s))"

definition ClaimUpload :: "db_env \<Rightarrow> string \<Rightarrow> MultipartUploadStatus \<Rightarrow> db \<Rightarrow> unit result \<times> db" where
  "ClaimUpload env i st =
     (if \<not> validMultipartUploadStatus st \<or> st = StatusActive then fail ErrInvalidUploadStatus
      else in_tx env (claim_body env i st))"

definition SetUploadStatus :: "db_env \<Rightarrow> string \<Rightarrow> MultipartUploadStatus \<Rightarrow> db \<Rightarrow> unit result \<times> db" where
  "SetUploadStatus env i st s =
     (if \<not> validMultipartUploadStatus st then (Inl ErrInvalidUploadStatus, s)
      else sql env (\<lambda>t.
        if \<not> upload_exists t i then (Inl ErrMultipartUploadNotFound, t)
        else (Inr (), set_status i st (Now env s) t)) s)"

definition find_part :: "string \<Rightarrow> int \<Rightarrow> tables \<Rightarrow> MultipartPart option" where
  "find_part i n t = find (\<lambda>p. mp_UploadID p = i \<and> mp_PartNumber p = n) (parts t)"

definition upsert_part :: "MultipartPart \<Rightarrow> tables \<Rightarrow> unit result \<times> tables" where
  "upsert_part p t =
     (if \<not> upload_exists t (mp_UploadID p) then (Inl ErrForeignKey, t)
      else if part_key p \<in> part_key ` set (parts t)
      then (Inr (), t\<lparr>parts := map (\<lambda>q. if part_key q = part_key p then p else q) (parts t)\<rparr>)
      else (Inr (), t\<lparr>parts := parts t @ [p]\<rparr>))"

definition addpart_body :: "db_env \<Rightarrow> MultipartPart \<Rightarrow> db \<Rightarrow> string result \<times> db" where
  "addpart_body env p = andThen (upload_status env (mp_UploadID p)) (\<lambda>status.
     if status \<noteq> StatusActive then fail ErrUploadAlreadyClaimed
     else andThen (query env (\<lambda>t. Inr (case find_part (mp_UploadID p) (mp_PartNumber p) t of
                     None \<Rightarrow> [] | Some q \<Rightarrow> mp_StoragePath q))) (\<lambda>oldStoragePath.
       andThen (\<lambda>s. sql env (upsert_part
                     (if mp_CreatedAt p = 0 then p\<lparr>mp_CreatedAt := Now env s\<rparr> else p)) s)
         (\<lambda>u. ret oldStoragePath)))"

definition AddPart :: "db_env \<Rightarrow> MultipartPart \<Rightarrow> db \<Rightarrow> string result \<times> db" where
  "AddPart env p = in_tx env (addpart_body env p)"

definition ListParts :: "db_env \<Rightarrow> string \<Rightarrow> db \<Rightarrow> MultipartPart list result \<times> db" where
  "ListParts env i = query env (\<lambda>t.
     Inr (sort_key mp_PartNumber (filter (\<lambda>p. mp_UploadID p = i) (parts t))))"

definition requireCompletingUpload :: "db_env \<Rightarrow> string \<Rightarrow> db \<Rightarrow> unit result \<times> db" where
  "requireCompletingUpload env i = andThen (upload_status env i) (\<lambda>status.
     if status \<noteq> StatusCompleting then fail ErrUploadAlreadyClaimed else ret ())"

definition complete_body :: "db_env \<Rightarrow> Object \<Rightarrow> string \<Rightarrow> string \<Rightarrow> string \<Rightarrow> db \<Rightarrow> string result \<times> db" where
  "complete_body env x uploadID ifMatch ifNoneMatch =
     andThen (requireCompletingUpload env uploadID) (\<lambda>u.
     andThen (loadObjectVersion env (o_BucketName x) (o_Key x)) (\<lambda>existing.
       case checkWritePreconditions existing ifMatch ifNoneMatch of
         Some e \<Rightarrow> fail e
       | None \<Rightarrow> andThen (upsertObject env x) (\<lambda>u.
           andThen (sql env (\<lambda>t. (Inr (), delete_upload uploadID t))) (\<lambda>u.
             ret (storagePath existing)))))"

definition CompleteUpload :: "db_env \<Rightarrow> Object \<Rightarrow> string \<Rightarrow> string \<Rightarrow> string \<Rightarrow> db \<Rightarrow> string result \<times> db" where
  "CompleteUpload env x uploadID ifMatch ifNoneMatch =
     in_tx env (complete_body env x uploadID ifMatch ifNoneMatch)"

record UploadPage =
  pg_uploads :: "MultipartUpload list"
  pg_isTruncated :: bool
  pg_nextKeyMarker :: string
  pg_nextUploadIDMarker :: string

definition upload_ListByBucket ::
  "db_env \<Rightarrow> string \<Rightarrow> string \<Rightarrow> string \<Rightarrow> string \<Rightarrow> int \<Rightarrow> db \<Rightarrow> UploadPage result \<times> db" where
  "upload_ListByBucket env b p keyMarker uploadIDMarker maxUploads0 =
     (let maxUploads = (if maxUploads0 \<le> 0 \<or> maxUploads0 > 1000 then 1000 else maxUploads0) in
      andThen (query env (\<lambda>t. Inr (take (nat (maxUploads + 1))
        (sort_key mu_Key (sort_key mu_ID (filter (\<lambda>u. mu_BucketName u = b \<and> mu_Status u = StatusActive
            \<and> (p = [] \<or> prefix p (mu_Key u))
            \<and> (keyMarker = [] \<or> keyMarker < mu_Key u
               \<or> (mu_Key u = keyMarker \<and> uploadIDMarker \<noteq> [] \<and> uploadIDMarker < mu_ID u))) (uploads t)))))))
      (\<lambda>rows.
        if int (length rows) > maxUploads then
          let us = take (nat maxUploads) rows; l = last us in
          ret \<lparr>pg_uploads = us, pg_isTruncated = True, pg_nextKeyMarker = mu_Key l, pg_nextUploadIDMarker = mu_ID l\<rparr>
        else ret \<lparr>pg_uploads = rows, pg_isTruncated = False, pg_nextKeyMarker = [], pg_nextUploadIDMarker = []\<rparr>))"

end
