(* ===== verification/CatalogProofs.thy ===== *)
theory CatalogProofs
  imports Catalog
begin

text \<open>
  The object and upload repositories: atomicity and the schema, the object table as a map
  (\<open>find_object\<close>), write preconditions, exclusive claims of uploads, completion, and paging.
\<close>

section \<open>Objects as a map\<close>

lemma find_object_iff:
  assumes "objects_ok t"
  shows "find_object b k t = Some x \<longleftrightarrow> x \<in> set (objects t) \<and> obj_key x = (b, k)"
proof
  assume "find_object b k t = Some x"
  then show "x \<in> set (objects t) \<and> obj_key x = (b, k)"
    unfolding find_object_def by (auto simp: obj_key_def dest: find_SomeD)
next
  assume x: "x \<in> set (objects t) \<and> obj_key x = (b, k)"
  have "y = x" if "y \<in> set (objects t)" "o_BucketName y = b \<and> o_Key y = k" for y
  proof -
    have "obj_key y = obj_key x" using that x by (simp add: obj_key_def)
    moreover have "inj_on obj_key (set (objects t))" using assms by (simp add: objects_ok_def distinct_map)
    ultimately show ?thesis using that(1) x unfolding inj_on_def by blast
  qed
  with x show "find_object b k t = Some x"
    unfolding find_object_def by (intro find_unique) (auto simp: obj_key_def)
qed

lemma find_object_None: "find_object b k t = None \<longleftrightarrow> (b, k) \<notin> obj_key ` set (objects t)"
  unfolding find_object_def find_None_iff by (auto simp: obj_key_def)

lemma upsert_object_ok:
  assumes "upsert_object x t = (Inr u, t')" and "objects_ok t"
  shows "objects_ok t'" and "find_object b k t' = (if (b, k) = obj_key x then Some x else find_object b k t)"
    and "\<exists>xs. t' = t\<lparr>objects := xs\<rparr>"
proof -
  define h where "h = (\<lambda>y. if obj_key y = obj_key x then x else y)"
  have ids: "\<forall>y\<in>set (objects t). obj_key y \<noteq> obj_key x \<longrightarrow> o_ID y \<noteq> o_ID x"
    and be: "bucket_exists t (o_BucketName x)"
    and cases: "(obj_key x \<in> obj_key ` set (objects t) \<and> t' = t\<lparr>objects := map h (objects t)\<rparr>)
      \<or> (obj_key x \<notin> obj_key ` set (objects t) \<and> t' = t\<lparr>objects := objects t @ [x]\<rparr>)"
    using assms(1) by (auto simp: upsert_object_def h_def split: if_splits)
  then show "\<exists>xs. t' = t\<lparr>objects := xs\<rparr>" by blast
  have inj: "inj_on obj_key (set (objects t))" "inj_on o_ID (set (objects t))" "distinct (objects t)"
    using assms(2) by (simp_all add: objects_ok_def distinct_map)
  have hk: "obj_key (h y) = obj_key y" for y by (simp add: h_def)
  have bt: "bucket_exists t' i = bucket_exists t i" for i using cases by (auto simp: bucket_exists_def)
  show ok': "objects_ok t'"
    using cases
  proof (elim disjE conjE)
    assume "t' = t\<lparr>objects := map h (objects t)\<rparr>"
    then have os: "objects t' = map h (objects t)" by simp
    have "inj_on (\<lambda>y. o_ID (h y)) (set (objects t))"
    proof (rule inj_onI)
      fix y z
      assume yz: "y \<in> set (objects t)" "z \<in> set (objects t)" "o_ID (h y) = o_ID (h z)"
      show "y = z"
      proof (cases "obj_key y = obj_key x"; cases "obj_key z = obj_key x")
        assume "obj_key y = obj_key x" "obj_key z = obj_key x"
        then show ?thesis using inj(1) yz by (simp add: inj_on_def)
      next
        assume "obj_key y \<noteq> obj_key x" "obj_key z \<noteq> obj_key x"
        then show ?thesis using inj(2) yz by (simp add: h_def inj_on_def)
      qed (use yz ids in \<open>simp_all add: h_def\<close>, metis+)
    qed
    then have "distinct (map o_ID (map h (objects t)))" using inj(3) by (simp add: distinct_map inj_on_def comp_def)
    moreover have "distinct (map obj_key (map h (objects t)))"
      using assms(2) by (simp add: objects_ok_def hk comp_def)
    moreover have "\<forall>y\<in>set (map h (objects t)). bucket_exists t (o_BucketName y)"
      using assms(2) be by (auto simp: objects_ok_def h_def)
    ultimately show ?thesis using assms(2) unfolding objects_ok_def os bt by simp
  next
    assume k: "obj_key x \<notin> obj_key ` set (objects t)" and "t' = t\<lparr>objects := objects t @ [x]\<rparr>"
    then have os: "objects t' = objects t @ [x]" by simp
    have "o_ID x \<notin> o_ID ` set (objects t)"
    proof
      assume "o_ID x \<in> o_ID ` set (objects t)"
      then obtain y where y: "y \<in> set (objects t)" "o_ID y = o_ID x" by auto
      then have "obj_key y \<in> obj_key ` set (objects t)" by blast
      with k have "obj_key y \<noteq> obj_key x" by metis
      with ids y show False by blast
    qed
    then show ?thesis using assms(2) k be unfolding objects_ok_def os bt by auto
  qed
  have absent: "obj_key x \<notin> obj_key ` set (objects t) \<Longrightarrow> y \<in> set (objects t) \<Longrightarrow> obj_key y \<noteq> obj_key x" for y
    by (metis imageI)
  have mem: "y \<in> set (objects t') \<longleftrightarrow> y = x \<or> (y \<in> set (objects t) \<and> obj_key y \<noteq> obj_key x)" for y
    using cases absent [of y] by (elim disjE conjE) (auto simp: h_def split: if_splits)
  show "find_object b k t' = (if (b, k) = obj_key x then Some x else find_object b k t)"
  proof (cases "(b, k) = obj_key x")
    case True
    then show ?thesis using mem [of x] by (simp add: find_object_iff [OF ok'])
  next
    case False
    then have "find_object b k t' = Some y \<longleftrightarrow> find_object b k t = Some y" for y
      unfolding find_object_iff [OF ok'] find_object_iff [OF assms(2)] mem by auto
    then show ?thesis using False by (metis option.exhaust)
  qed
qed


lemma upsert_object_wf: "upsert_object x t = (Inr u, t') \<Longrightarrow> db_wf t \<Longrightarrow> db_wf t'"
  using upsert_object_ok(1,3) [of x t u t'] wf_objects by (auto simp: db_wf_def)

lemma upsertObject_Inr: "upsertObject env x s = (Inr u, s') \<Longrightarrow>
   \<exists>y. obj_key y = obj_key x \<and> o_StoragePath y = o_StoragePath x \<and> o_ETag y = o_ETag x \<and> o_Size y = o_Size x
     \<and> o_ID y = o_ID x \<and> y = with_times (Now env s) x \<and> upsert_object y (tabs s) = (Inr u, tabs s')"
  unfolding upsertObject_def
  by (drule sql_Inr) (auto simp: with_times_def Let_def obj_key_def)

lemma upsertObject_keeps: "upsertObject env x s = (Inl e, s') \<Longrightarrow> tabs s' = tabs s"
  unfolding upsertObject_def by (rule sql_Inl)

interpretation object_Create: atomic_op db_wf "object_Create env x" for env x
  unfolding object_Create_def
  by unfold_locales (auto dest!: upsertObject_Inr dest: upsertObject_keeps upsert_object_wf)

lemma objects_filter_ok: "db_wf t \<Longrightarrow> db_wf (t\<lparr>objects := filter P (objects t)\<rparr>)"
  by (rule wf_objects) (auto simp: db_wf_def objects_ok_def bucket_exists_def distinct_map_filter)

interpretation object_Delete: atomic_op db_wf "object_Delete env b k" for env b k
  unfolding object_Delete_def by (rule atomic_sql) (auto split: if_splits intro: objects_filter_ok)

interpretation DeleteAllInBucket: atomic_op db_wf "DeleteAllInBucket env b" for env b
  unfolding DeleteAllInBucket_def by (rule atomic_sql) (auto intro: objects_filter_ok)

text \<open>A successful body of \<open>Replace\<close>: the version found, its preconditions, and the row stored.\<close>

lemma replace_body_Inr:
  assumes "replace_body env x ifMatch ifNoneMatch s = (Inr old, s')"
  obtains v y where "checkWritePreconditions v ifMatch ifNoneMatch = None" and "old = storagePath v"
    and "v = (case find_object (o_BucketName x) (o_Key x) (tabs s) of
                None \<Rightarrow> \<lparr>exists = False, storagePath = [], etag = []\<rparr>
              | Some z \<Rightarrow> \<lparr>exists = True, storagePath = o_StoragePath z, etag = o_ETag z\<rparr>)"
    and "obj_key y = obj_key x" and "o_StoragePath y = o_StoragePath x" and "o_ETag y = o_ETag x"
    and "o_Size y = o_Size x" and "o_ID y = o_ID x" and "upsert_object y (tabs s) = (Inr (), tabs s')"
proof -
  from assms obtain v s1 where l: "loadObjectVersion env (o_BucketName x) (o_Key x) s = (Inr v, s1)"
    and rest: "(case checkWritePreconditions v ifMatch ifNoneMatch of
         Some e \<Rightarrow> fail e | None \<Rightarrow> andThen (upsertObject env x) (\<lambda>u. ret (storagePath v))) s1 = (Inr old, s')"
    by (auto simp: replace_body_def andThen_Inr)
  have v: "v = (case find_object (o_BucketName x) (o_Key x) (tabs s) of
                None \<Rightarrow> \<lparr>exists = False, storagePath = [], etag = []\<rparr>
              | Some z \<Rightarrow> \<lparr>exists = True, storagePath = o_StoragePath z, etag = o_ETag z\<rparr>)" and s1: "tabs s1 = tabs s"
    using l unfolding loadObjectVersion_def by (auto dest!: query_Inr split: option.splits)
  from rest have p: "checkWritePreconditions v ifMatch ifNoneMatch = None" by (auto split: option.splits)
  with rest obtain u s2 where up: "upsertObject env x s1 = (Inr u, s2)" "old = storagePath v" "s' = s2"
    by (auto simp: andThen_Inr)
  from upsertObject_Inr [OF up(1)] that p v s1 up(2,3) show ?thesis by auto
qed

interpretation Replace: atomic_op db_wf "Replace env x ifMatch ifNoneMatch" for env x ifMatch ifNoneMatch
  unfolding Replace_def by (rule atomic_tx) (auto elim!: replace_body_Inr dest: upsert_object_wf)

section \<open>Uploads\<close>

lemma find_upload_iff:
  assumes "uploads_ok t"
  shows "find_upload i t = Some u \<longleftrightarrow> u \<in> set (uploads t) \<and> mu_ID u = i"
proof
  assume "u \<in> set (uploads t) \<and> mu_ID u = i"
  moreover have "inj_on mu_ID (set (uploads t))" using assms by (simp add: uploads_ok_def distinct_map)
  ultimately show "find_upload i t = Some u"
    unfolding find_upload_def by (intro find_unique) (auto dest: inj_onD)
qed (auto simp: find_upload_def dest: find_SomeD)

lemma find_upload_exists: "find_upload i t = None \<longleftrightarrow> \<not> upload_exists t i"
  unfolding find_upload_def find_None_iff upload_exists_def by auto

lemma set_status_find:
  "find_upload j (set_status i st now t) =
   map_option (\<lambda>u. if mu_ID u = i then u\<lparr>mu_Status := st, mu_StatusUpdatedAt := now\<rparr> else u) (find_upload j t)"
proof -
  have "find (\<lambda>u. mu_ID u = j) (map h xs) = map_option h (find (\<lambda>u. mu_ID u = j) xs)"
    if "\<And>u. mu_ID (h u) = mu_ID u" for h and xs :: "MultipartUpload list"
    using that by (induction xs) simp_all
  note f = this
  have u: "uploads (set_status i st now t) = map (\<lambda>u. if mu_ID u = i
      then u\<lparr>mu_Status := st, mu_StatusUpdatedAt := now\<rparr> else u) (uploads t)"
    by (simp add: set_status_def)
  show ?thesis unfolding find_upload_def u by (rule f) simp
qed

lemma set_status_wf:
  assumes "db_wf t" and "validMultipartUploadStatus st"
  shows "db_wf (set_status i st now t)"
proof -
  define h :: "MultipartUpload \<Rightarrow> MultipartUpload" where "h = (\<lambda>u. if mu_ID u = i then u\<lparr>mu_Status := st, mu_StatusUpdatedAt := now\<rparr> else u)"
  have hk: "mu_ID (h u) = mu_ID u" "mu_BucketName (h u) = mu_BucketName u" for u by (simp_all add: h_def)
  have t: "set_status i st now t = t\<lparr>uploads := map h (uploads t)\<rparr>" by (simp add: set_status_def h_def)
  have ids: "map mu_ID (map h (uploads t)) = map mu_ID (uploads t)" by (simp add: hk)
  have ok: "uploads_ok t" using assms(1) by (simp add: db_wf_def)
  have "\<forall>u\<in>set (map h (uploads t)). bucket_exists t (mu_BucketName u) \<and> validMultipartUploadStatus (mu_Status u)"
    using ok assms(2) by (auto simp: uploads_ok_def h_def)
  moreover have "distinct (map mu_ID (map h (uploads t)))" using ok unfolding ids uploads_ok_def by blast
  ultimately have "uploads_ok (t\<lparr>uploads := map h (uploads t)\<rparr>)"
    unfolding uploads_ok_def by (simp add: bucket_exists_def)
  then show ?thesis unfolding t by (rule wf_uploads [OF assms(1)]) (simp add: image_image hk)
qed

lemma delete_upload_wf:
  assumes "db_wf t"
  shows "db_wf (delete_upload i t)"
proof -
  have ue: "upload_exists (delete_upload i t) j \<longleftrightarrow> upload_exists t j \<and> j \<noteq> i" for j
    by (auto simp: upload_exists_def delete_upload_def)
  have "uploads_ok (delete_upload i t)"
    using assms by (simp add: db_wf_def uploads_ok_def delete_upload_def bucket_exists_def distinct_map_filter)
  moreover have "parts_ok (delete_upload i t)"
    using assms unfolding db_wf_def parts_ok_def ue by (simp add: delete_upload_def distinct_map_filter)
  ultimately show ?thesis
    using assms unfolding db_wf_def users_ok_def buckets_ok_def objects_ok_def grants_ok_def shares_ok_def
      user_exists_def bucket_exists_def by (simp add: delete_upload_def)
qed

lemma upsert_part_wf:
  assumes "upsert_part p t = (Inr u, t')" and "db_wf t"
  shows "db_wf t'"
proof -
  define h where "h = (\<lambda>q. if part_key q = part_key p then p else q)"
  have ue: "upload_exists t (mp_UploadID p)"
    and cases: "t' = t\<lparr>parts := map h (parts t)\<rparr>
      \<or> (part_key p \<notin> part_key ` set (parts t) \<and> t' = t\<lparr>parts := parts t @ [p]\<rparr>)"
    using assms(1) by (auto simp: upsert_part_def h_def split: if_splits)
  have ok: "parts_ok t" using assms(2) by (simp add: db_wf_def)
  have keys: "map part_key (map h (parts t)) = map part_key (parts t)" by (simp add: h_def)
  have m: "\<forall>q\<in>set (map h (parts t)). upload_exists t (mp_UploadID q)"
    using ok ue by (auto simp: parts_ok_def h_def)
  have d: "distinct (map part_key (map h (parts t)))" using ok unfolding keys parts_ok_def by blast
  from cases show ?thesis
  proof (elim disjE conjE)
    assume t': "t' = t\<lparr>parts := map h (parts t)\<rparr>"
    show ?thesis unfolding t'
      by (rule wf_parts [OF assms(2)]) (use m d in \<open>simp add: parts_ok_def upload_exists_def\<close>)
  next
    assume k: "part_key p \<notin> part_key ` set (parts t)" and t': "t' = t\<lparr>parts := parts t @ [p]\<rparr>"
    show ?thesis unfolding t'
      by (rule wf_parts [OF assms(2)]) (use ok k ue in \<open>auto simp: parts_ok_def upload_exists_def\<close>)
  qed
qed

lemma upload_status_Inr: "upload_status env i s = (Inr st, s') \<Longrightarrow>
   tabs s' = tabs s \<and> (\<exists>u. find_upload i (tabs s) = Some u \<and> mu_Status u = st)"
  unfolding upload_status_def by (drule query_Inr) (auto split: option.splits)

lemma claim_body_Inr:
  assumes "claim_body env i st s = (Inr x, s')"
  shows "\<exists>now u. tabs s' = set_status i st now (tabs s) \<and> find_upload i (tabs s) = Some u \<and> mu_Status u = StatusActive"
proof -
  from assms obtain c s1 where c: "upload_status env i s = (Inr c, s1)" "c = StatusActive"
      "sql env (\<lambda>t. (Inr (), set_status i st (Now env s1) t)) s1 = (Inr x, s')"
    by (auto simp: claim_body_def andThen_Inr split: if_splits)
  have "tabs s' = set_status i st (Now env s1) (tabs s)"
    using sql_Inr [OF c(3)] upload_status_Inr [OF c(1)] by simp
  with upload_status_Inr [OF c(1)] c(2) show ?thesis by blast
qed

lemma addpart_body_Inr:
  assumes "addpart_body env p s = (Inr old, s')"
  obtains u q where "find_upload (mp_UploadID p) (tabs s) = Some u" and "mu_Status u = StatusActive"
    and "old = (case find_part (mp_UploadID p) (mp_PartNumber p) (tabs s) of None \<Rightarrow> [] | Some q \<Rightarrow> mp_StoragePath q)"
    and "part_key q = part_key p" and "mp_StoragePath q = mp_StoragePath p" and "mp_ETag q = mp_ETag p"
    and "mp_Size q = mp_Size p" and "upsert_part q (tabs s) = (Inr (), tabs s')"
proof -
  from assms obtain c s1 o1 s2 where c: "upload_status env (mp_UploadID p) s = (Inr c, s1)" "c = StatusActive"
    and o1: "query env (\<lambda>t. Inr (case find_part (mp_UploadID p) (mp_PartNumber p) t of
                     None \<Rightarrow> [] | Some q \<Rightarrow> mp_StoragePath q)) s1 = (Inr o1, s2)"
    and up: "sql env (upsert_part (if mp_CreatedAt p = 0 then p\<lparr>mp_CreatedAt := Now env s2\<rparr> else p)) s2 = (Inr (), s')"
      "old = o1"
    by (auto simp: addpart_body_def andThen_Inr split: if_splits)
  note s1 = upload_status_Inr [OF c(1)]
  from query_Inr [OF o1] s1 have s2: "tabs s2 = tabs s"
    "o1 = (case find_part (mp_UploadID p) (mp_PartNumber p) (tabs s) of None \<Rightarrow> [] | Some q \<Rightarrow> mp_StoragePath q)" by auto
  let ?q = "if mp_CreatedAt p = 0 then p\<lparr>mp_CreatedAt := Now env s2\<rparr> else p"
  have "part_key ?q = part_key p" "mp_StoragePath ?q = mp_StoragePath p" "mp_ETag ?q = mp_ETag p" "mp_Size ?q = mp_Size p"
    by (simp_all add: part_key_def)
  moreover have "upsert_part ?q (tabs s) = (Inr (), tabs s')" using sql_Inr [OF up(1)] s2 by simp
  ultimately show ?thesis using that s1 s2 c(2) up(2) by blast
qed

lemma complete_body_Inr:
  assumes "complete_body env x i ifMatch ifNoneMatch s = (Inr old, s')"
  obtains u s1 t2 where "find_upload i (tabs s) = Some u" and "mu_Status u = StatusCompleting"
    and "tabs s1 = tabs s" and "\<exists>s2. replace_body env x ifMatch ifNoneMatch s1 = (Inr old, s2) \<and> tabs s2 = t2"
    and "tabs s' = delete_upload i t2"
proof -
  from assms obtain a s1 where req: "requireCompletingUpload env i s = (Inr a, s1)"
    and rest: "andThen (loadObjectVersion env (o_BucketName x) (o_Key x)) (\<lambda>existing.
       case checkWritePreconditions existing ifMatch ifNoneMatch of
         Some e \<Rightarrow> fail e
       | None \<Rightarrow> andThen (upsertObject env x) (\<lambda>u.
           andThen (sql env (\<lambda>t. (Inr (), delete_upload i t))) (\<lambda>u.
             ret (storagePath existing)))) s1 = (Inr old, s')"
    by (auto simp: complete_body_def andThen_Inr)
  from req obtain st where "upload_status env i s = (Inr st, s1)" "st = StatusCompleting"
    by (auto simp: requireCompletingUpload_def andThen_Inr split: if_splits)
  from upload_status_Inr [OF this(1)] this(2)
  have u: "\<exists>u. find_upload i (tabs s) = Some u \<and> mu_Status u = StatusCompleting" "tabs s1 = tabs s" by auto
  from rest obtain v s2 b s3 c s4 where l: "loadObjectVersion env (o_BucketName x) (o_Key x) s1 = (Inr v, s2)"
    and p: "checkWritePreconditions v ifMatch ifNoneMatch = None" and up: "upsertObject env x s2 = (Inr b, s3)"
    and del: "sql env (\<lambda>t. (Inr (), delete_upload i t)) s3 = (Inr c, s4)" and fin: "old = storagePath v" "s' = s4"
    by (auto simp: andThen_Inr split: option.splits)
  have "replace_body env x ifMatch ifNoneMatch s1 = (Inr old, s3)"
    using l p up fin by (auto simp: replace_body_def andThen_Inr)
  moreover have "tabs s' = delete_upload i (tabs s3)" using sql_Inr [OF del] fin by simp
  ultimately show ?thesis using that u by blast
qed

interpretation upload_Create: atomic_op db_wf "upload_Create env u" for env u
proof unfold_locales
  show "upload_Create env u s = (Inl e, s') \<Longrightarrow> tabs s' = tabs s" for s e s'
    by (auto simp: upload_Create_def Let_def dest: sql_Inl split: if_splits)
  show "db_wf (tabs s')" if r: "upload_Create env u s = (Inr x, s')" and wf: "db_wf (tabs s)" for s x s'
  proof -
    define v where "v = upload_defaults (Now env s) u"
    have valid: "validMultipartUploadStatus (mu_Status v)" and "sql env (insert_upload v) s = (Inr x, s')"
      using r by (auto simp: upload_Create_def Let_def v_def split: if_splits)
    from sql_Inr [OF this(2)] valid
    have v: "tabs s' = (tabs s)\<lparr>uploads := uploads (tabs s) @ [v]\<rparr>" "\<not> upload_exists (tabs s) (mu_ID v)"
      "bucket_exists (tabs s) (mu_BucketName v)" "validMultipartUploadStatus (mu_Status v)"
      by (auto simp: insert_upload_def split: if_splits)
    have "uploads_ok (tabs s)" using wf by (simp add: db_wf_def)
    with v have "uploads_ok ((tabs s)\<lparr>uploads := uploads (tabs s) @ [v]\<rparr>)"
      by (auto simp: uploads_ok_def upload_exists_def bucket_exists_def)
    then show ?thesis unfolding v(1) by (rule wf_uploads [OF wf]) auto
  qed
qed

interpretation upload_Delete: atomic_op db_wf "upload_Delete env i" for env i
  unfolding upload_Delete_def by (rule atomic_sql) (auto split: if_splits intro: delete_upload_wf)

interpretation ClaimUpload: atomic_op db_wf "ClaimUpload env i st" for env i st
proof (cases "\<not> validMultipartUploadStatus st \<or> st = StatusActive")
  case True
  then show "atomic_op db_wf (ClaimUpload env i st)" unfolding ClaimUpload_def by unfold_locales auto
next
  case False
  then have "atomic_op db_wf (in_tx env (claim_body env i st))"
    by (intro atomic_tx) (auto dest!: claim_body_Inr intro: set_status_wf)
  with False show "atomic_op db_wf (ClaimUpload env i st)" unfolding ClaimUpload_def by simp
qed

interpretation SetUploadStatus: atomic_op db_wf "SetUploadStatus env i st" for env i st
proof unfold_locales
  show "SetUploadStatus env i st s = (Inl e, s') \<Longrightarrow> tabs s' = tabs s" for s e s'
    by (auto simp: SetUploadStatus_def dest: sql_Inl split: if_splits)
  show "db_wf (tabs s')" if "SetUploadStatus env i st s = (Inr x, s')" and "db_wf (tabs s)" for s x s'
    using that set_status_wf [OF that(2), of st i "Now env s"]
    by (auto simp: SetUploadStatus_def dest!: sql_Inr split: if_splits)
qed

interpretation AddPart: atomic_op db_wf "AddPart env p" for env p
  unfolding AddPart_def by (rule atomic_tx) (auto elim!: addpart_body_Inr dest: upsert_part_wf)

interpretation CompleteUpload: atomic_op db_wf "CompleteUpload env x i ifMatch ifNoneMatch"
  for env x i ifMatch ifNoneMatch
  unfolding CompleteUpload_def
  by (rule atomic_tx) (auto elim!: complete_body_Inr replace_body_Inr dest!: upsert_object_wf intro: delete_upload_wf)


section \<open>Paging\<close>

text \<open>
  What a paged listing promises: \<open>page after s\<close> returns a leading piece of the rows after \<open>after\<close>,
  in strictly increasing key order, flags it as truncated exactly when rows are left out, and is
  never empty then.  Reading on from the last key of each page yields every row once.
\<close>

lemma sorted_split:
  fixes key_of :: "'r \<Rightarrow> string"
  assumes "sorted_wrt (<) (map key_of xs)" and "0 < n" and "n \<le> length xs"
  shows "filter (\<lambda>r. key_of (last (take n xs)) < key_of r) xs = drop n xs"
proof -
  let ?k = "key_of (last (take n xs))"
  have xs: "xs = take n xs @ drop n xs" by simp
  have ne: "take n xs \<noteq> []" using assms(2,3) by (cases xs) auto
  have s: "sorted_wrt (<) (map key_of (take n xs) @ map key_of (drop n xs))"
    using assms(1) by (simp flip: map_append)
  have "\<forall>r\<in>set (drop n xs). ?k < key_of r"
    using s ne by (auto simp: sorted_wrt_append)
  moreover have "\<forall>r\<in>set (take n xs). \<not> ?k < key_of r"
  proof
    fix r
    assume r: "r \<in> set (take n xs)"
    have t: "take n xs = butlast (take n xs) @ [last (take n xs)]" using ne by simp
    have "sorted_wrt (<) (map key_of (butlast (take n xs)) @ [?k])"
      using s t by (metis list.simps(8,9) map_append sorted_wrt_append)
    then have "\<forall>x\<in>set (butlast (take n xs)). key_of x < ?k" by (auto simp: sorted_wrt_append)
    moreover have "r \<in> set (butlast (take n xs)) \<or> r = last (take n xs)" using r t by (metis Un_iff empty_iff insert_iff list.set(1,2) set_append)
    ultimately show "\<not> ?k < key_of r" by auto
  qed
  ultimately have "filter (\<lambda>r. ?k < key_of r) (take n xs) = []" "filter (\<lambda>r. ?k < key_of r) (drop n xs) = drop n xs"
    by (simp_all add: filter_empty_conv filter_id_conv)
  then show ?thesis by (metis append_Nil append_take_drop_id filter_append)
qed

locale paged =
  fixes page :: "string \<Rightarrow> 's \<Rightarrow> ('r list \<times> bool) result \<times> 's"
    and rows :: "'s \<Rightarrow> 'r list"
    and key_of :: "'r \<Rightarrow> string"
    and ok :: "'s \<Rightarrow> bool"
  assumes rows_sorted: "ok s \<Longrightarrow> sorted_wrt (<) (map key_of (rows s))"
    and page_rows: "page a s = (Inr (xs, tr), s') \<Longrightarrow> ok s \<Longrightarrow>
      \<exists>n. xs = take n (filter (\<lambda>r. a < key_of r) (rows s))
          \<and> (if tr then 0 < n \<and> n < length (filter (\<lambda>r. a < key_of r) (rows s))
             else length (filter (\<lambda>r. a < key_of r) (rows s)) \<le> n)"
    and page_keeps: "page a s = (r, s') \<Longrightarrow> rows s' = rows s \<and> ok s' = ok s"
begin

lemma page_progress:
  assumes "page a s = (Inr (xs, True), s')" and "ok s"
  shows "xs \<noteq> []"
    and "filter (\<lambda>r. a < key_of r) (rows s) = xs @ filter (\<lambda>r. key_of (last xs) < key_of r) (rows s')"
    and "length (filter (\<lambda>r. key_of (last xs) < key_of r) (rows s')) < length (filter (\<lambda>r. a < key_of r) (rows s))"
proof -
  let ?F = "filter (\<lambda>r. a < key_of r) (rows s)"
  obtain n where n: "xs = take n ?F" "0 < n" "n < length ?F" using page_rows [OF assms] by auto
  have keep: "rows s' = rows s" using page_keeps [OF assms(1)] by simp
  show ne: "xs \<noteq> []" using n by (cases ?F) auto
  have "sorted_wrt (<) (map key_of ?F)"
    using rows_sorted [OF assms(2)] by (simp add: sorted_wrt_map sorted_wrt_filter)
  from sorted_split [OF this n(2)] n have d: "filter (\<lambda>r. key_of (last xs) < key_of r) ?F = drop n ?F" by simp
  have "last xs \<in> set ?F" using ne n(1) by (metis in_set_takeD last_in_set)
  then have "a < key_of (last xs)" by simp
  then have "filter (\<lambda>r. key_of (last xs) < key_of r) ?F = filter (\<lambda>r. key_of (last xs) < key_of r) (rows s)"
    unfolding filter_filter by (intro filter_cong) (auto dest: less_trans)
  with d keep have e: "filter (\<lambda>r. key_of (last xs) < key_of r) (rows s') = drop n ?F" by simp
  show "?F = xs @ filter (\<lambda>r. key_of (last xs) < key_of r) (rows s')" using e n(1) by simp
  show "length (filter (\<lambda>r. key_of (last xs) < key_of r) (rows s')) < length ?F" unfolding e using n by simp
qed

lemma page_last:
  assumes "page a s = (Inr (xs, False), s')" and "ok s"
  shows "xs = filter (\<lambda>r. a < key_of r) (rows s)"
  using page_rows [OF assms] by auto

lemma read_all_complete:
  assumes "ok s"
  shows "\<exists>r s'. read_all page key_of acc a s = Some (r, s') \<and> rows s' = rows s
    \<and> (\<forall>xs. r = Inr xs \<longrightarrow> xs = acc @ filter (\<lambda>r. a < key_of r) (rows s))"
  using assms
proof (induction "length (filter (\<lambda>r. a < key_of r) (rows s))" arbitrary: acc a s rule: less_induct)
  case less
  obtain res s1 where p: "page a s = (res, s1)" by fastforce
  have keep: "rows s1 = rows s" "ok s1" using page_keeps [OF p] less.prems by simp_all
  show ?case
  proof (cases res)
    case (Inl e)
    with p keep show ?thesis by (subst read_all.simps) simp
  next
    case (Inr y)
    obtain xs tr where y: "y = (xs, tr)" by fastforce
    show ?thesis
    proof (cases tr)
      case True
      have p': "page a s = (Inr (xs, True), s1)" using p Inr y True by simp
      note pp = page_progress [OF p' less.prems]
      from less.hyps [of "key_of (last xs)" s1 "acc @ xs"] pp(3) keep
      obtain r s' where r: "read_all page key_of (acc @ xs) (key_of (last xs)) s1 = Some (r, s')" "rows s' = rows s1"
          "\<forall>zs. r = Inr zs \<longrightarrow> zs = (acc @ xs) @ filter (\<lambda>r. key_of (last xs) < key_of r) (rows s1)"
        by blast
      then have "read_all page key_of acc a s = Some (r, s')"
        using p' pp(1) by (subst read_all.simps) simp
      with r keep pp(2) show ?thesis by (metis append.assoc)
    next
      case False
      then have p': "page a s = (Inr (xs, False), s1)" using p Inr y by simp
      show ?thesis
        using p' page_last [OF p' less.prems] keep by (subst read_all.simps) simp
    qed
  qed
qed

end

definition bucket_rows :: "string \<Rightarrow> string \<Rightarrow> tables \<Rightarrow> Object list" where
  "bucket_rows b p t = sort_key o_Key (filter (\<lambda>x. o_BucketName x = b \<and> prefix p (o_Key x)) (objects t))"

lemma filter_sort_key: "filter P (sort_key f xs) = sort_key f (filter P xs)"
  by (simp add: filter_sort)

lemma list_rows_eq: "list_rows b p a t = filter (\<lambda>x. a < o_Key x) (bucket_rows b p t)"
  unfolding list_rows_def bucket_rows_def filter_sort_key filter_filter
  by (rule arg_cong [where f = "sort_key o_Key"], rule filter_cong) auto

lemma bucket_rows_sorted:
  assumes "objects_ok t"
  shows "sorted_wrt (<) (map o_Key (bucket_rows b p t))"
proof -
  let ?xs = "filter (\<lambda>x. o_BucketName x = b \<and> prefix p (o_Key x)) (objects t)"
  have "inj_on o_Key (set ?xs)"
  proof (rule inj_onI)
    fix x y
    assume "x \<in> set ?xs" "y \<in> set ?xs" "o_Key x = o_Key y"
    then have "x \<in> set (objects t)" "y \<in> set (objects t)" "obj_key x = obj_key y" by (auto simp: obj_key_def)
    with assms show "x = y" by (auto simp: objects_ok_def distinct_map inj_on_def)
  qed
  moreover have "distinct ?xs" using assms by (simp add: objects_ok_def distinct_map)
  ultimately have "distinct (map o_Key (bucket_rows b p t))"
    by (simp add: bucket_rows_def distinct_map)
  moreover have "sorted (map o_Key (bucket_rows b p t))" by (simp add: bucket_rows_def)
  ultimately show ?thesis by (simp add: strict_sorted_iff)
qed

lemma object_List_Inr:
  assumes "object_List env b p a n s = (Inr (xs, tr), s')" and "0 < n"
  shows "xs = take (nat n) (filter (\<lambda>x. a < o_Key x) (bucket_rows b p (tabs s)))"
    and "tr \<longleftrightarrow> nat n < length (filter (\<lambda>x. a < o_Key x) (bucket_rows b p (tabs s)))"
proof -
  let ?F = "filter (\<lambda>x. a < o_Key x) (bucket_rows b p (tabs s))"
  from assms obtain rows s1 where q: "query env (\<lambda>t. Inr (take (nat (n + 1)) (list_rows b p a t))) s = (Inr rows, s1)"
    and r: "(if int (length rows) > n then ret (take (nat n) rows, True) else ret (rows, False)) s1 = (Inr (xs, tr) :: (Object list \<times> bool) result, s')"
    by (auto simp: object_List_def andThen_Inr)
  have rows: "rows = take (Suc (nat n)) ?F"
    using query_Inr [OF q] assms(2) by (simp add: list_rows_eq nat_add_distrib)
  have m: "int (length rows) > n \<longleftrightarrow> nat n < length ?F" using assms(2) by (simp add: rows) linarith
  show "tr \<longleftrightarrow> nat n < length ?F" using r m by (auto split: if_splits)
  show "xs = take (nat n) ?F"
    using r m by (auto simp: rows min_def split: if_splits)
qed

lemma object_List_keeps: "object_List env b p a n s = (r, s') \<Longrightarrow> tabs s' = tabs s"
  by (auto simp: object_List_def andThen_def dest!: query_tabs split: if_splits prod.splits sum.splits)


interpretation objects: paged "\<lambda>a. object_List env b p a n" "\<lambda>s. bucket_rows b p (tabs s)" o_Key
  "\<lambda>s. 0 < n \<and> objects_ok (tabs s)" for env b p n
proof unfold_locales
  show "sorted_wrt (<) (map o_Key (bucket_rows b p (tabs s)))" if "0 < n \<and> objects_ok (tabs s)" for s :: db
    using that by (intro bucket_rows_sorted) simp
  show "\<exists>m. xs = take m (filter (\<lambda>r. a < o_Key r) (bucket_rows b p (tabs s)))
      \<and> (if tr then 0 < m \<and> m < length (filter (\<lambda>r. a < o_Key r) (bucket_rows b p (tabs s)))
         else length (filter (\<lambda>r. a < o_Key r) (bucket_rows b p (tabs s))) \<le> m)"
    if "object_List env b p a n s = (Inr (xs, tr), s')" "0 < n \<and> objects_ok (tabs s)" for a s xs tr s'
    using object_List_Inr [OF that(1)] that(2) by (intro exI [of _ "nat n"]) auto
qed (simp_all add: object_List_keeps)

section \<open>Properties\<close>

text \<open>
  C15: \<open>ListAllObjects\<close> always returns, and unless a query fails its result is every
  object of the bucket exactly once in key order, whatever the number of pages.
\<close>

theorem list_all_complete:
  assumes "db_wf (tabs s)"
  shows "\<exists>r s'. ListAllObjects env b s = Some (r, s') \<and>
    (\<forall>xs. r = Inr xs \<longrightarrow> xs = sort_key o_Key (filter (\<lambda>x. o_BucketName x = b \<and> o_Key x \<noteq> []) (objects (tabs s))))"
proof -
  have ok: "0 < pageLimit \<and> objects_ok (tabs s)" using assms by (simp add: pageLimit_def db_wf_def)
  have nil: "[] < k \<longleftrightarrow> k \<noteq> []" for k :: string by (cases k) auto
  have e: "filter (\<lambda>r. [] < o_Key r) (bucket_rows b [] (tabs s)) =
      sort_key o_Key (filter (\<lambda>x. o_BucketName x = b \<and> o_Key x \<noteq> []) (objects (tabs s)))"
    unfolding bucket_rows_def filter_sort_key filter_filter
    by (rule arg_cong [where f = "sort_key o_Key"], rule filter_cong) (auto simp: nil)
  from objects.read_all_complete [OF ok, of env b "[]" "[]" "[]"] obtain r s' where
    "ListAllObjects env b s = Some (r, s')"
    "\<forall>xs. r = Inr xs \<longrightarrow> xs = [] @ filter (\<lambda>r. [] < o_Key r) (bucket_rows b [] (tabs s))"
    unfolding ListAllObjects_def by blast
  then show ?thesis unfolding e append_Nil by blast
qed

lemma list_all_complete_witness:
  "\<exists>r s'. ListAllObjects sample_denv ''b'' sample_db = Some (r, s') \<and>
     (\<forall>xs. r = Inr xs \<longrightarrow> map o_Key xs = [''a/x'', ''k''])"
proof -
  have "map o_Key (sort_key o_Key (filter (\<lambda>x. o_BucketName x = ''b'' \<and> o_Key x \<noteq> []) (objects (tabs sample_db)))) = [''a/x'', ''k'']"
    by code_simp
  with list_all_complete [OF sample_db_wf, of sample_denv "''b''"] show ?thesis by auto
qed


text \<open>
  The row an upsert is to leave under its key: every column as the caller gave it, the two
  times replaced by the clock where they are zero; the rows under all other keys stay.
\<close>

definition stores_row :: "time \<Rightarrow> Object \<Rightarrow> tables \<Rightarrow> tables \<Rightarrow> bool" where
  "stores_row now x t t' \<longleftrightarrow>
     (let created = (if o_CreatedAt x = 0 then now else o_CreatedAt x);
          row = x\<lparr>o_CreatedAt := created, o_UpdatedAt := (if o_UpdatedAt x = 0 then created else o_UpdatedAt x)\<rparr> in
      \<forall>b k. find_object b k t' = (if b = o_BucketName x \<and> k = o_Key x then Some row else find_object b k t))"

text \<open>What the two conditional headers ask of the version that is replaced, if there is one.\<close>

definition conditions_met :: "string \<Rightarrow> string \<Rightarrow> Object option \<Rightarrow> bool" where
  "conditions_met ifMatch ifNoneMatch before \<longleftrightarrow>
     (ifMatch \<noteq> [] \<longrightarrow> (\<exists>z. before = Some z \<and> (ifMatch = ''*'' \<or> etagsEqual ifMatch (o_ETag z))))
     \<and> (ifNoneMatch \<noteq> [] \<longrightarrow> (\<forall>z. before = Some z \<longrightarrow> ifNoneMatch \<noteq> ''*'' \<and> \<not> etagsEqual ifNoneMatch (o_ETag z)))"

lemma stores_row_upsert:
  assumes "upsert_object (with_times now x) t = (Inr u, t')" and "objects_ok t"
  shows "stores_row now x t t'"
  using upsert_object_ok(2) [OF assms] by (simp add: stores_row_def with_times_def obj_key_def Let_def)

lemma replace_body_update:
  assumes "replace_body env x ifMatch ifNoneMatch s = (Inr old, s')" and ok: "objects_ok (tabs s)"
  defines "before \<equiv> find_object (o_BucketName x) (o_Key x) (tabs s)"
  shows "\<exists>now\<in>range (Now env). stores_row now x (tabs s) (tabs s')" and "\<exists>xs. tabs s' = (tabs s)\<lparr>objects := xs\<rparr>"
    and "old = (case before of None \<Rightarrow> [] | Some z \<Rightarrow> o_StoragePath z)"
    and "conditions_met ifMatch ifNoneMatch before"
proof -
  from assms(1) obtain v s1 s2 u where l: "loadObjectVersion env (o_BucketName x) (o_Key x) s = (Inr v, s1)"
    and p: "checkWritePreconditions v ifMatch ifNoneMatch = None"
    and up: "upsertObject env x s1 = (Inr u, s2)" and old: "old = storagePath v" and s': "s' = s2"
    by (auto simp: replace_body_def andThen_Inr split: option.splits)
  have v: "v = (case before of None \<Rightarrow> \<lparr>exists = False, storagePath = [], etag = []\<rparr>
              | Some z \<Rightarrow> \<lparr>exists = True, storagePath = o_StoragePath z, etag = o_ETag z\<rparr>)" and s1: "tabs s1 = tabs s"
    using l unfolding loadObjectVersion_def before_def by (auto dest!: query_Inr split: option.splits)
  have u: "upsert_object (with_times (Now env s1) x) (tabs s) = (Inr u, tabs s')"
    using upsertObject_Inr [OF up] by (auto simp: s1 s')
  show "\<exists>now\<in>range (Now env). stores_row now x (tabs s) (tabs s')" using stores_row_upsert [OF u ok] by blast
  show "\<exists>xs. tabs s' = (tabs s)\<lparr>objects := xs\<rparr>" by (rule upsert_object_ok(3) [OF u ok])
  show "old = (case before of None \<Rightarrow> [] | Some z \<Rightarrow> o_StoragePath z)" using old v by (simp split: option.splits)
  show "conditions_met ifMatch ifNoneMatch before"
    using p v by (auto simp: checkWritePreconditions_def conditions_met_def split: option.splits if_splits)
qed

text \<open>
  C12: \<open>Replace\<close> is one conditional update of the map from (bucket, key) to rows.  A
  success stores the caller's row in full (every column, with unset times taken from the clock), leaves all
  other keys and all other tables alone, returns the storage path of the version it replaced, and had
  \<open>If-Match\<close> and \<open>If-None-Match\<close> satisfied by that very version; a failure changes nothing.
\<close>

theorem replace_is_update:
  assumes wf: "db_wf (tabs s)" and run: "Replace env x ifMatch ifNoneMatch s = (res, s')"
  shows "(case res of
     Inl e \<Rightarrow> tabs s' = tabs s
   | Inr old \<Rightarrow>
      (let before = find_object (o_BucketName x) (o_Key x) (tabs s) in
       (\<exists>now\<in>range (Now env). stores_row now x (tabs s) (tabs s'))
       \<and> (\<exists>xs. tabs s' = (tabs s)\<lparr>objects := xs\<rparr>)
       \<and> old = (case before of None \<Rightarrow> [] | Some z \<Rightarrow> o_StoragePath z)
       \<and> (ifMatch \<noteq> [] \<longrightarrow> (\<exists>z. before = Some z \<and> (ifMatch = ''*'' \<or> etagsEqual ifMatch (o_ETag z))))
       \<and> (ifNoneMatch \<noteq> [] \<longrightarrow> (\<forall>z. before = Some z \<longrightarrow> ifNoneMatch \<noteq> ''*'' \<and> \<not> etagsEqual ifNoneMatch (o_ETag z)))))"
proof (cases res)
  case (Inl e)
  with run Replace.error_keeps show ?thesis by auto
next
  case (Inr old)
  from run Inr obtain s1 s2 where b: "tabs s1 = tabs s" "tabs s' = tabs s2"
    and body: "replace_body env x ifMatch ifNoneMatch s1 = (Inr old, s2)"
    unfolding Replace_def by (auto elim!: in_tx_Inr)
  have ok: "objects_ok (tabs s1)" using wf b by (simp add: db_wf_def)
  from replace_body_update [OF body ok] show ?thesis
    unfolding Inr sum.case Let_def b conditions_met_def by blast
qed

lemma replace_is_update_witness:
  "let r = Replace sample_denv ((sample_object ''b'' ''k'' ''q'')\<lparr>o_ContentType := ''text/plain''\<rparr>) ''e1'' [] sample_db in
   fst r = Inr ''p1'' \<and> find_object ''b'' ''a/x'' (tabs (snd r)) = Some (sample_object ''b'' ''a/x'' ''p2'')
   \<and> map_option o_ContentType (find_object ''b'' ''k'' (tabs (snd r))) = Some ''text/plain''"
proof -
  let ?x = "(sample_object ''b'' ''k'' ''q'')\<lparr>o_ContentType := ''text/plain''\<rparr>"
  let ?r = "Replace sample_denv ?x ''e1'' [] sample_db"
  have ok: "fst ?r = Inr ''p1''" by code_simp
  have k: "o_BucketName ?x = ''b''" "o_Key ?x = ''k''"
    and f: "find_object ''b'' ''a/x'' (tabs sample_db) = Some (sample_object ''b'' ''a/x'' ''p2'')" by code_simp+
  from replace_is_update [OF sample_db_wf, of sample_denv ?x "''e1''" "[]" "Inr ''p1''" "snd ?r"] ok
  obtain now where "stores_row now ?x (tabs sample_db) (tabs (snd ?r))" by (auto simp: Let_def prod_eq_iff)
  with k f ok show ?thesis by (simp add: stores_row_def Let_def)
qed

text \<open>
  C13: \<open>CompleteUpload\<close> succeeds only for an upload its request has claimed for
  completion and only when the conditional headers hold; in one step it then stores the caller's row in full,
  removes this upload and its parts, and keeps every other object, upload, part and table.
  Otherwise it leaves every table as it was.
\<close>

theorem completion_atomic:
  assumes wf: "db_wf (tabs s)" and run: "CompleteUpload env x i ifMatch ifNoneMatch s = (res, s')"
  shows "(case res of
     Inl e \<Rightarrow> tabs s' = tabs s
   | Inr old \<Rightarrow>
      (let before = find_object (o_BucketName x) (o_Key x) (tabs s) in
       (\<exists>u. find_upload i (tabs s) = Some u \<and> mu_Status u = StatusCompleting)
       \<and> (\<exists>now\<in>range (Now env). stores_row now x (tabs s) (tabs s'))
       \<and> (\<exists>xs. tabs s' = (tabs s)\<lparr>objects := xs,
                uploads := filter (\<lambda>u. mu_ID u \<noteq> i) (uploads (tabs s)),
                parts := filter (\<lambda>p. mp_UploadID p \<noteq> i) (parts (tabs s))\<rparr>)
       \<and> old = (case before of None \<Rightarrow> [] | Some z \<Rightarrow> o_StoragePath z)
       \<and> conditions_met ifMatch ifNoneMatch before))"
proof (cases res)
  case (Inl e)
  with run CompleteUpload.error_keeps show ?thesis by auto
next
  case (Inr old)
  from run Inr obtain s1 s2 where b: "tabs s1 = tabs s" "tabs s' = tabs s2"
    and body: "complete_body env x i ifMatch ifNoneMatch s1 = (Inr old, s2)"
    unfolding CompleteUpload_def by (auto elim!: in_tx_Inr)
  from body obtain u s3 s4 where u: "find_upload i (tabs s) = Some u" "mu_Status u = StatusCompleting"
    and s3: "tabs s3 = tabs s" and rb: "replace_body env x ifMatch ifNoneMatch s3 = (Inr old, s4)"
    and fin: "tabs s' = delete_upload i (tabs s4)"
    using b by (auto elim!: complete_body_Inr)
  have ok: "objects_ok (tabs s3)" using wf s3 by (simp add: db_wf_def)
  note up = replace_body_update [OF rb ok, unfolded s3]
  have "find_object c k (tabs s') = find_object c k (tabs s4)" for c k
    using fin by (simp add: find_object_def delete_upload_def)
  then have "stores_row now x (tabs s) (tabs s')" if "stores_row now x (tabs s) (tabs s4)" for now
    using that by (simp add: stores_row_def)
  moreover from up(2) obtain xs where "tabs s4 = (tabs s)\<lparr>objects := xs\<rparr>" by blast
  then have "tabs s' = (tabs s)\<lparr>objects := xs, uploads := filter (\<lambda>u. mu_ID u \<noteq> i) (uploads (tabs s)),
      parts := filter (\<lambda>p. mp_UploadID p \<noteq> i) (parts (tabs s))\<rparr>"
    using fin by (simp add: delete_upload_def)
  ultimately show ?thesis unfolding Inr sum.case Let_def using u up(1,3,4) by blast
qed

lemma completion_atomic_witness:
  "let s = snd (ClaimUpload sample_denv ''u1'' StatusCompleting sample_db);
       r = CompleteUpload sample_denv (sample_object ''b'' ''k'' ''q'') ''u1'' [] [] s in
   fst r = Inr ''p1'' \<and> \<not> upload_exists (tabs (snd r)) ''u1''
   \<and> map_option o_StoragePath (find_object ''b'' ''k'' (tabs (snd r))) = Some ''q''"
proof -
  let ?s = "snd (ClaimUpload sample_denv ''u1'' StatusCompleting sample_db)" and ?x = "sample_object ''b'' ''k'' ''q''"
  let ?r = "CompleteUpload sample_denv ?x ''u1'' [] [] ?s"
  have ok: "fst ?r = Inr ''p1''" "db_wf (tabs ?s)" and k: "o_BucketName ?x = ''b''" "o_Key ?x = ''k''" "o_StoragePath ?x = ''q''"
    by code_simp+
  from completion_atomic [OF ok(2), of sample_denv ?x "''u1''" "[]" "[]" "Inr ''p1''" "snd ?r"] ok(1)
  obtain now xs where row: "stores_row now ?x (tabs ?s) (tabs (snd ?r))"
    and t: "tabs (snd ?r) = (tabs ?s)\<lparr>objects := xs, uploads := filter (\<lambda>u. mu_ID u \<noteq> ''u1'') (uploads (tabs ?s)),
       parts := filter (\<lambda>p. mp_UploadID p \<noteq> ''u1'') (parts (tabs ?s))\<rparr>"
    by (auto simp: Let_def prod_eq_iff)
  have "map_option o_StoragePath (find_object ''b'' ''k'' (tabs (snd ?r))) = Some ''q''"
    using row k by (simp add: stores_row_def Let_def)
  moreover have "\<not> upload_exists (tabs (snd ?r)) ''u1''" unfolding t upload_exists_def by auto
  ultimately show ?thesis using ok(1) by (simp add: Let_def)
qed

section \<open>Exclusive claims\<close>

text \<open>
  Steps other requests can take while one request holds its claim on upload \<open>i\<close>: everything but
  giving \<open>i\<close> its status back, completing it, or creating an upload with the same identifier.
\<close>

inductive other_step :: "string \<Rightarrow> db \<Rightarrow> db \<Rightarrow> bool" for i where
  claim: "ClaimUpload env j st s = (r, s') \<Longrightarrow> other_step i s s'"
| add_part: "AddPart env p s = (r, s') \<Longrightarrow> other_step i s s'"
| create: "upload_Create env u s = (r, s') \<Longrightarrow> mu_ID u \<noteq> i \<Longrightarrow> other_step i s s'"
| set_other: "SetUploadStatus env j st s = (r, s') \<Longrightarrow> j \<noteq> i \<Longrightarrow> other_step i s s'"
| delete: "upload_Delete env j s = (r, s') \<Longrightarrow> other_step i s s'"
| complete: "CompleteUpload env x j im inm s = (r, s') \<Longrightarrow> other_step i s s'"
| replace: "Replace env x im inm s = (r, s') \<Longrightarrow> other_step i s s'"
| remove: "object_Delete env b k s = (r, s') \<Longrightarrow> other_step i s s'"

inductive_cases other_stepE: "other_step i s s'"

definition claimed :: "string \<Rightarrow> tables \<Rightarrow> bool" where
  "claimed i t \<longleftrightarrow> (\<forall>u. find_upload i t = Some u \<longrightarrow> mu_Status u \<noteq> StatusActive)"

lemma claimed_uploads: "uploads t' = uploads t \<Longrightarrow> claimed i t' = claimed i t"
  by (simp add: claimed_def find_upload_def)

lemma find_upload_ID: "find_upload i t = Some u \<Longrightarrow> mu_ID u = i"
  by (auto simp: find_upload_def dest: find_SomeD)

lemma claimed_set_status:
  "claimed i t \<or> j = i \<Longrightarrow> j \<noteq> i \<or> st \<noteq> StatusActive \<Longrightarrow> claimed i (set_status j st now t)"
  unfolding claimed_def set_status_find
  by (cases "find_upload i t") (auto dest: find_upload_ID split: if_splits)

lemma find_snoc: "\<not> P v \<Longrightarrow> find P (xs @ [v]) = find P xs"
  by (induction xs) auto

lemma claimed_delete: "claimed i t \<Longrightarrow> claimed i (delete_upload j t)"
proof -
  have f: "find (\<lambda>u. mu_ID u = i) (filter (\<lambda>u. mu_ID u \<noteq> j) us) = (if i = j then None else find (\<lambda>u. mu_ID u = i) us)"
    for us :: "MultipartUpload list"
    by (induction us) auto
  show "claimed i t \<Longrightarrow> claimed i (delete_upload j t)"
    by (auto simp: claimed_def find_upload_def delete_upload_def f)
qed

lemma upsert_object_uploads:
  assumes "upsert_object x t = (Inr u, t')"
  shows "uploads t' = uploads t"
proof -
  have "uploads (snd (upsert_object x t)) = uploads t" by (simp add: upsert_object_def Let_def)
  with assms show ?thesis by simp
qed

lemma upsert_part_uploads: "upsert_part p t = (Inr u, t') \<Longrightarrow> uploads t' = uploads t"
  by (auto simp: upsert_part_def split: if_splits)

lemma replace_body_uploads: "replace_body env x im inm s = (Inr old, s') \<Longrightarrow> uploads (tabs s') = uploads (tabs s)"
  by (erule replace_body_Inr) (rule upsert_object_uploads)

lemma claimed_claim:
  assumes "ClaimUpload env j st s = (r, s')" and "claimed i (tabs s)"
  shows "claimed i (tabs s')"
proof (cases r)
  case (Inl e)
  with assms ClaimUpload.error_keeps show ?thesis by metis
next
  case (Inr x)
  from assms(1) Inr have st: "st \<noteq> StatusActive" and "in_tx env (claim_body env j st) s = (Inr x, s')"
    by (auto simp: ClaimUpload_def split: if_splits)
  from this(2) obtain s1 s2 where "tabs s1 = tabs s" "claim_body env j st s1 = (Inr x, s2)" "tabs s' = tabs s2"
    by (rule in_tx_Inr)
  with claim_body_Inr st assms(2) claimed_set_status show ?thesis by metis
qed

lemma claimed_step:
  assumes "other_step i s s'" and "claimed i (tabs s)"
  shows "claimed i (tabs s')"
  using assms(1)
proof (cases rule: other_step.cases)
  case (claim env j st r)
  then show ?thesis using claimed_claim assms(2) by blast
next
  case (add_part env p r)
  show ?thesis
  proof (cases r)
    case (Inr x)
    then obtain s1 s2 where "tabs s1 = tabs s" "addpart_body env p s1 = (Inr x, s2)" "tabs s' = tabs s2"
      using add_part unfolding AddPart_def by (auto elim!: in_tx_Inr)
    then have "uploads (tabs s') = uploads (tabs s)"
      by (auto elim!: addpart_body_Inr dest: upsert_part_uploads)
    then show ?thesis using claimed_uploads assms(2) by metis
  qed (use add_part AddPart.error_keeps assms(2) in metis)
next
  case (create env u r)
  show ?thesis
  proof (cases r)
    case (Inr x)
    define v where "v = upload_defaults (Now env s) u"
    have "mu_ID v \<noteq> i" using create by (simp add: v_def upload_defaults_def Let_def)
    moreover have "sql env (insert_upload v) s = (Inr x, s')"
      using create Inr by (auto simp: upload_Create_def Let_def v_def split: if_splits)
    then have "tabs s' = (tabs s)\<lparr>uploads := uploads (tabs s) @ [v]\<rparr>"
      by (auto simp: insert_upload_def dest!: sql_Inr split: if_splits)
    ultimately have "find_upload i (tabs s') = find_upload i (tabs s)"
      by (simp add: find_upload_def find_snoc)
    then show ?thesis using assms(2) by (simp add: claimed_def)
  qed (use create upload_Create.error_keeps assms(2) in metis)
next
  case (set_other env j st r)
  show ?thesis
  proof (cases r)
    case (Inr x)
    then have "tabs s' = set_status j st (Now env s) (tabs s)"
      using set_other by (auto simp: SetUploadStatus_def dest!: sql_Inr split: if_splits)
    then show ?thesis using claimed_set_status assms(2) set_other(2) by metis
  qed (use set_other SetUploadStatus.error_keeps assms(2) in metis)
next
  case (delete env j r)
  show ?thesis
  proof (cases r)
    case (Inr x)
    then have "tabs s' = delete_upload j (tabs s)"
      using delete by (auto simp: upload_Delete_def dest!: sql_Inr split: if_splits)
    then show ?thesis using claimed_delete assms(2) by metis
  qed (use delete upload_Delete.error_keeps assms(2) in metis)
next
  case (complete env x j im inm r)
  show ?thesis
  proof (cases r)
    case (Inr y)
    then obtain s1 s2 where b: "tabs s1 = tabs s" "complete_body env x j im inm s1 = (Inr y, s2)" "tabs s' = tabs s2"
      using complete unfolding CompleteUpload_def by (auto elim!: in_tx_Inr)
    then obtain t2 where "uploads t2 = uploads (tabs s)" "tabs s' = delete_upload j t2"
      by (auto elim!: complete_body_Inr dest!: replace_body_uploads)
    then show ?thesis using claimed_delete claimed_uploads assms(2) by metis
  qed (use complete CompleteUpload.error_keeps assms(2) in metis)
next
  case (replace env x im inm r)
  show ?thesis
  proof (cases r)
    case (Inr y)
    then obtain s1 s2 where "tabs s1 = tabs s" "replace_body env x im inm s1 = (Inr y, s2)" "tabs s' = tabs s2"
      using replace unfolding Replace_def by (auto elim!: in_tx_Inr)
    then have "uploads (tabs s') = uploads (tabs s)" using replace_body_uploads by metis
    then show ?thesis using claimed_uploads assms(2) by metis
  qed (use replace Replace.error_keeps assms(2) in metis)
next
  case (remove env b k r)
  show ?thesis
  proof (cases r)
    case (Inr y)
    note eq = sql_Inr [OF remove(1) [unfolded object_Delete_def Inr]]
    from arg_cong [OF eq, of "\<lambda>z. uploads (snd z)"] have "uploads (tabs s') = uploads (tabs s)"
      by (simp split: if_splits)
    then show ?thesis using claimed_uploads assms(2) by metis
  qed (use remove object_Delete.error_keeps assms(2) in metis)
qed

text \<open>
  C14: once a request has claimed an upload, no other request can claim it or add a part to
  it, whatever the other requests do in between, until the claim is given back.
\<close>

theorem claim_exclusive:
  assumes "ClaimUpload env i st s = (Inr x, s1)" and "(other_step i)\<^sup>*\<^sup>* s1 s2"
  shows "\<not> is_ok (fst (ClaimUpload env' i st' s2)) \<and> (mp_UploadID p = i \<longrightarrow> \<not> is_ok (fst (AddPart env' p s2)))"
proof -
  have "claimed i (tabs s1)"
  proof -
    from assms(1) have st: "st \<noteq> StatusActive" and "in_tx env (claim_body env i st) s = (Inr x, s1)"
      by (auto simp: ClaimUpload_def split: if_splits)
    from this(2) obtain a b where "claim_body env i st a = (Inr x, b)" "tabs s1 = tabs b" by (rule in_tx_Inr)
    then obtain now where "tabs s1 = set_status i st now (tabs a)" using claim_body_Inr by metis
    then show ?thesis using st by (simp add: claimed_set_status)
  qed
  with assms(2) have c: "claimed i (tabs s2)"
    by (induction rule: rtranclp_induct) (auto dest: claimed_step)
  have no: False if "tabs a = tabs s2" "find_upload i (tabs a) = Some u" "mu_Status u = StatusActive" for a u
    using that c by (simp add: claimed_def)
  have "\<not> is_ok (fst (ClaimUpload env' i st' s2))"
  proof
    assume "is_ok (fst (ClaimUpload env' i st' s2))"
    then obtain y s3 where "ClaimUpload env' i st' s2 = (Inr y, s3)" by (metis is_ok_iff prod.collapse)
    then have "in_tx env' (claim_body env' i st') s2 = (Inr y, s3)" by (auto simp: ClaimUpload_def split: if_splits)
    then obtain a b where "tabs a = tabs s2" "claim_body env' i st' a = (Inr y, b)" by (rule in_tx_Inr)
    with claim_body_Inr no show False by blast
  qed
  moreover have "\<not> is_ok (fst (AddPart env' p s2))" if "mp_UploadID p = i"
  proof
    assume "is_ok (fst (AddPart env' p s2))"
    then obtain y s3 where "AddPart env' p s2 = (Inr y, s3)" by (metis is_ok_iff prod.collapse)
    then obtain a b where "tabs a = tabs s2" "addpart_body env' p a = (Inr y, b)"
      unfolding AddPart_def by (rule in_tx_Inr)
    with no that show False by (auto elim!: addpart_body_Inr)
  qed
  ultimately show ?thesis by blast
qed

lemma claim_exclusive_witness:
  "let s1 = snd (ClaimUpload sample_denv ''u1'' StatusCompleting sample_db);
       s2 = snd (Replace sample_denv (sample_object ''b'' ''k'' ''q'') [] [] s1)
   in \<not> is_ok (fst (ClaimUpload sample_denv ''u1'' StatusAborted s2))
      \<and> \<not> is_ok (fst (AddPart sample_denv (sample_part ''u1'' 2) s2))"
proof -
  let ?s1 = "snd (ClaimUpload sample_denv ''u1'' StatusCompleting sample_db)"
  let ?r = "Replace sample_denv (sample_object ''b'' ''k'' ''q'') [] [] ?s1"
  have "fst (ClaimUpload sample_denv ''u1'' StatusCompleting sample_db) = Inr ()" by code_simp
  then have c: "ClaimUpload sample_denv ''u1'' StatusCompleting sample_db = (Inr (), ?s1)" by (simp add: prod_eq_iff)
  have "other_step ''u1'' ?s1 (snd ?r)"
    by (rule other_step.replace [of sample_denv "sample_object ''b'' ''k'' ''q''" "[]" "[]" _ "fst ?r"]) simp
  then have "(other_step ''u1'')\<^sup>*\<^sup>* ?s1 (snd ?r)" by (rule r_into_rtranclp)
  from claim_exclusive [OF c this, of sample_denv StatusAborted "sample_part ''u1'' 2"]
  show ?thesis by (simp add: Let_def sample_part_def)
qed

end
