(* ===== verification/Accounts.thy ===== *)
theory Accounts
  imports Db
begin

text \<open>
  The repositories of \<open>internal/metadata\<close> for users (\<open>user.go\<close>), buckets (\<open>bucket.go\<close>,
  \<open>bucket_cleanup.go\<close>), grants (\<open>grant.go\<close>), share links (\<open>share_link.go\<close>), activity records
  (\<open>activity.go\<close>) and the management summaries (\<open>management.go\<close>).  A statement of the source is a
  function on the tables; its constraint violations are the errors of \<open>migration.go\<close>.
\<close>

section \<open>Users\<close>

definition insert_user :: "User \<Rightarrow> tables \<Rightarrow> unit result \<times> tables" where
  "insert_user u t =
     (if user_exists t (u_ID u) then (Inl ErrUniqueConstraint, t)
      else if u_AccessKeyID u \<in> u_AccessKeyID ` set (users t) then (Inl ErrUniqueConstraint, t)
      else if u_SigV4AccessKeyID u \<noteq> [] \<and> u_SigV4AccessKeyID u \<in> u_SigV4AccessKeyID ` set (users t)
      then (Inl ErrUniqueConstraint, t)
      else if u_Role u \<noteq> RoleAdmin \<and> u_Role u \<noteq> RoleMember then (Inl ErrCheckConstraint, t)
      else (Inr (), t\<lparr>users := users t @ [u]\<rparr>))"

definition insertUser :: "db_env \<Rightarrow> User \<Rightarrow> db \<Rightarrow> unit result \<times> db" where
  "insertUser env u = sql env (insert_user u)"

definition user_Create :: "db_env \<Rightarrow> User \<Rightarrow> db \<Rightarrow> unit result \<times> db" where
  "user_Create env u = insertUser env u"

definition UserCount :: "db_env \<Rightarrow> db \<Rightarrow> int result \<times> db" where
  "UserCount env = query env (\<lambda>t. Inr (int (length (users t))))"

definition CreateFirstUser :: "db_env \<Rightarrow> User \<Rightarrow> db \<Rightarrow> unit result \<times> db" where
  "CreateFirstUser env u = in_tx env
     (andThen (query env (\<lambda>t. Inr (int (length (users t))))) (\<lambda>count.
        if count > 0 then fail ErrUsersAlreadyExist else insertUser env u))"

definition scan_user :: "User option \<Rightarrow> User result" where
  "scan_user r = (case r of None \<Rightarrow> Inl ErrUserNotFound | Some u \<Rightarrow> Inr u)"

definition user_GetByID :: "db_env \<Rightarrow> string \<Rightarrow> db \<Rightarrow> User result \<times> db" where
  "user_GetByID env i = andThen
     (query env (\<lambda>t. scan_user (find (\<lambda>u. u_ID u = i) (users t))))
     (\<lambda>u. ret (u\<lparr>u_SigV4SecretKey := []\<rparr>))"

definition GetByAccessKeyID :: "db_env \<Rightarrow> string \<Rightarrow> db \<Rightarrow> User result \<times> db" where
  "GetByAccessKeyID env k = andThen
     (query env (\<lambda>t. scan_user (find (\<lambda>u. u_AccessKeyID u = k) (users t))))
     (\<lambda>u. ret (u\<lparr>u_SigV4SecretKey := []\<rparr>))"

text \<open>An absent SigV4 key is stored as NULL, which no comparison matches.\<close>

definition GetBySigV4AccessKeyID :: "db_env \<Rightarrow> string \<Rightarrow> db \<Rightarrow> User result \<times> db" where
  "GetBySigV4AccessKeyID env k =
     query env (\<lambda>t. scan_user (find (\<lambda>u. u_SigV4AccessKeyID u \<noteq> [] \<and> u_SigV4AccessKeyID u = k) (users t)))"

definition user_List :: "db_env \<Rightarrow> db \<Rightarrow> User list result \<times> db" where
  "user_List env = query env (\<lambda>t.
     Inr (map (\<lambda>u. u\<lparr>u_SigV4SecretKey := []\<rparr>) (sort_key u_CreatedAt (users t))))"

definition update_user :: "time \<Rightarrow> User \<Rightarrow> tables \<Rightarrow> unit result \<times> tables" where
  "update_user now u t =
     (if \<not> user_exists t (u_ID u) then (Inl ErrUserNotFound, t)
      else if \<exists>x\<in>set (users t). u_ID x \<noteq> u_ID u \<and> u_AccessKeyID x = u_AccessKeyID u
      then (Inl ErrUniqueConstraint, t)
      else if u_Role u \<noteq> RoleAdmin \<and> u_Role u \<noteq> RoleMember then (Inl ErrCheckConstraint, t)
      else (Inr (), t\<lparr>users := map (\<lambda>x. if u_ID x = u_ID u
              then x\<lparr>u_DisplayName := u_DisplayName u, u_AccessKeyID := u_AccessKeyID u,
                     u_SecretHash := u_SecretHash u, u_Role := u_Role u, u_IsActive := u_IsActive u,
                     u_UpdatedAt := now\<rparr>
              else x) (users t)\<rparr>))"

definition user_Update :: "db_env \<Rightarrow> User \<Rightarrow> db \<Rightarrow> unit result \<times> db" where
  "user_Update env u s = sql env (update_user (Now env s) u) s"

text \<open>Deleting a user cascades to its grants and share links; an owner of a bucket is protected.\<close>

definition delete_user :: "string \<Rightarrow> tables \<Rightarrow> unit result \<times> tables" where
  "delete_user i t =
     (if \<not> user_exists t i then (Inl ErrUserNotFound, t)
      else if i \<in> b_OwnerID ` set (buckets t) then (Inl ErrForeignKey, t)
      else (Inr (), t\<lparr>users := filter (\<lambda>u. u_ID u \<noteq> i) (users t),
              grants := map (\<lambda>g. if gr_CreatedBy g = i then g\<lparr>gr_CreatedBy := []\<rparr> else g)
                          (filter (\<lambda>g. gr_GranteeUserID g \<noteq> i) (grants t)),
              share_links := filter (\<lambda>l. sl_CreatedBy l \<noteq> i) (share_links t)\<rparr>))"

definition user_Delete :: "db_env \<Rightarrow> string \<Rightarrow> db \<Rightarrow> unit result \<times> db" where
  "user_Delete env i = sql env (delete_user i)"

section \<open>Buckets\<close>

definition insert_bucket :: "Bucket \<Rightarrow> tables \<Rightarrow> unit result \<times> tables" where
  "insert_bucket b t =
     (if bucket_exists t (b_Name b) then (Inl ErrUniqueConstraint, t)
      else if \<not> user_exists t (b_OwnerID b) then (Inl ErrForeignKey, t)
      else (Inr (), t\<lparr>buckets := buckets t @ [b]\<rparr>))"

definition bucket_Create :: "db_env \<Rightarrow> Bucket \<Rightarrow> db \<Rightarrow> unit result \<times> db" where
  "bucket_Create env b = sql env (insert_bucket b)"

definition GetByName :: "db_env \<Rightarrow> string \<Rightarrow> db \<Rightarrow> Bucket result \<times> db" where
  "GetByName env n = query env (\<lambda>t.
     case find (\<lambda>b. b_Name b = n) (buckets t) of None \<Rightarrow> Inl ErrBucketNotFound | Some b \<Rightarrow> Inr b)"

definition bucket_List :: "db_env \<Rightarrow> db \<Rightarrow> Bucket list result \<times> db" where
  "bucket_List env = query env (\<lambda>t. Inr (sort_key b_CreatedAt (buckets t)))"

definition ListByOwner :: "db_env \<Rightarrow> string \<Rightarrow> db \<Rightarrow> Bucket list result \<times> db" where
  "ListByOwner env ownerID = query env (\<lambda>t.
     Inr (sort_key b_CreatedAt (filter (\<lambda>b. b_OwnerID b = ownerID) (buckets t))))"

definition ListByNames :: "db_env \<Rightarrow> string list \<Rightarrow> db \<Rightarrow> Bucket list result \<times> db" where
  "ListByNames env names =
     (if names = [] then ret []
      else query env (\<lambda>t. Inr (sort_key b_CreatedAt (filter (\<lambda>b. b_Name b \<in> set names) (buckets t)))))"

definition update_owner :: "string \<Rightarrow> string \<Rightarrow> string \<Rightarrow> tables \<Rightarrow> unit result \<times> tables" where
  "update_owner name ownerID expectedOwnerID t =
     (if \<not> (\<exists>b\<in>set (buckets t). b_Name b = name \<and> b_OwnerID b = expectedOwnerID)
      then (Inl ErrBucketNotFound, t)
      else if \<not> user_exists t ownerID then (Inl ErrForeignKey, t)
      else (Inr (), t\<lparr>buckets := map (\<lambda>b. if b_Name b = name \<and> b_OwnerID b = expectedOwnerID
              then b\<lparr>b_OwnerID := ownerID\<rparr> else b) (buckets t)\<rparr>))"

definition UpdateOwner :: "db_env \<Rightarrow> string \<Rightarrow> string \<Rightarrow> string \<Rightarrow> db \<Rightarrow> unit result \<times> db" where
  "UpdateOwner env name ownerID expectedOwnerID = sql env (update_owner name ownerID expectedOwnerID)"

text \<open>Deleting a bucket row cascades to grants and share links; objects and uploads protect it.\<close>

definition delete_bucket :: "string \<Rightarrow> tables \<Rightarrow> unit result \<times> tables" where
  "delete_bucket n t =
     (if \<not> bucket_exists t n then (Inl ErrBucketNotFound, t)
      else if n \<in> o_BucketName ` set (objects t) \<or> n \<in> mu_BucketName ` set (uploads t)
      then (Inl ErrForeignKey, t)
      else (Inr (), t\<lparr>buckets := filter (\<lambda>b. b_Name b \<noteq> n) (buckets t),
              grants := filter (\<lambda>g. gr_BucketName g \<noteq> n) (grants t),
              share_links := filter (\<lambda>l. sl_BucketName l \<noteq> n) (share_links t)\<rparr>))"

definition bucket_Delete :: "db_env \<Rightarrow> string \<Rightarrow> db \<Rightarrow> unit result \<times> db" where
  "bucket_Delete env n = sql env (delete_bucket n)"

definition deleteBucketObjects :: "db_env \<Rightarrow> string \<Rightarrow> db \<Rightarrow> Object list result \<times> db" where
  "deleteBucketObjects env n = sql env (\<lambda>t.
     (Inr (filter (\<lambda>x. o_BucketName x = n) (objects t)),
      t\<lparr>objects := filter (\<lambda>x. o_BucketName x \<noteq> n) (objects t)\<rparr>))"

definition DeleteWithObjects :: "db_env \<Rightarrow> string \<Rightarrow> db \<Rightarrow> Object list result \<times> db" where
  "DeleteWithObjects env n = in_tx env
     (andThen (query env (\<lambda>t. Inr (n \<in> mu_BucketName ` set (uploads t)))) (\<lambda>hasUploads.
        if hasUploads then fail ErrBucketHasMultipartUploads
        else andThen (deleteBucketObjects env n) (\<lambda>objs.
               andThen (sql env (delete_bucket n)) (\<lambda>u. ret objs))))"

section \<open>Grants\<close>

definition validateGrantWrite :: "Grant \<Rightarrow> go_error option" where
  "validateGrantWrite g = (if \<not> IsGrantable (gr_Action g) then Some ErrInvalidGrantAction else None)"

definition grant_conflict :: "Grant \<Rightarrow> tables \<Rightarrow> bool" where
  "grant_conflict g t \<longleftrightarrow> gr_IsActive g
     \<and> (\<exists>x\<in>set (grants t). gr_IsActive x \<and> grant_key x = grant_key g \<and> gr_ID x \<noteq> gr_ID g)"

definition grant_refs_ok :: "Grant \<Rightarrow> tables \<Rightarrow> bool" where
  "grant_refs_ok g t \<longleftrightarrow> bucket_exists t (gr_BucketName g) \<and> user_exists t (gr_GranteeUserID g)
     \<and> (gr_CreatedBy g = [] \<or> user_exists t (gr_CreatedBy g))"

definition insert_grant :: "Grant \<Rightarrow> tables \<Rightarrow> unit result \<times> tables" where
  "insert_grant g t =
     (if gr_ID g \<in> gr_ID ` set (grants t) then (Inl ErrUniqueConstraint, t)
      else if grant_conflict g t then (Inl ErrUniqueConstraint, t)
      else if \<not> grant_refs_ok g t then (Inl ErrForeignKey, t)
      else (Inr (), t\<lparr>grants := grants t @ [g]\<rparr>))"

definition grant_Create :: "db_env \<Rightarrow> Grant \<Rightarrow> db \<Rightarrow> unit result \<times> db" where
  "grant_Create env g =
     (case validateGrantWrite g of Some e \<Rightarrow> fail e | None \<Rightarrow> sql env (insert_grant g))"

text \<open>\<open>insertGrantUnlessActiveDuplicate\<close>: the number of rows inserted.\<close>

definition insertGrantUnlessActiveDuplicate :: "Grant \<Rightarrow> tables \<Rightarrow> int result \<times> tables" where
  "insertGrantUnlessActiveDuplicate g t =
     (if gr_ID g \<in> gr_ID ` set (grants t) then (Inl ErrUniqueConstraint, t)
      else if grant_conflict g t then (Inr 0, t)
      else if \<not> grant_refs_ok g t then (Inl ErrForeignKey, t)
      else (Inr 1, t\<lparr>grants := grants t @ [g]\<rparr>))"

definition findActiveDuplicate :: "db_env \<Rightarrow> Grant \<Rightarrow> db \<Rightarrow> Grant option result \<times> db" where
  "findActiveDuplicate env g = query env (\<lambda>t.
     Inr (find (\<lambda>x. grant_key x = grant_key g \<and> gr_IsActive x) (grants t)))"

record GrantCreateResult =
  gc_Grant :: Grant
  gc_Existed :: bool

fun batch_loop :: "db_env \<Rightarrow> Grant list \<Rightarrow> GrantCreateResult list \<Rightarrow> db \<Rightarrow> GrantCreateResult list result \<times> db" where
  "batch_loop env [] results = ret results"
| "batch_loop env (g # gs) results =
     andThen (sql env (insertGrantUnlessActiveDuplicate g)) (\<lambda>inserted.
       if inserted = 1
       then batch_loop env gs (results @ [\<lparr>gc_Grant = g, gc_Existed = False\<rparr>])
       else andThen (findActiveDuplicate env g) (\<lambda>existing.
              case existing of
                None \<Rightarrow> fail ErrGrantBatch
              | Some x \<Rightarrow> batch_loop env gs (results @ [\<lparr>gc_Grant = x, gc_Existed = True\<rparr>])))"

fun validate_all :: "Grant list \<Rightarrow> go_error option" where
  "validate_all [] = None"
| "validate_all (g # gs) = (case validateGrantWrite g of Some e \<Rightarrow> Some e | None \<Rightarrow> validate_all gs)"

definition CreateIdempotentBatch :: "db_env \<Rightarrow> Grant list \<Rightarrow> db \<Rightarrow> GrantCreateResult list result \<times> db" where
  "CreateIdempotentBatch env gs =
     (case validate_all gs of
        Some e \<Rightarrow> fail e
      | None \<Rightarrow> in_tx env (batch_loop env gs []))"

definition grant_GetByID :: "db_env \<Rightarrow> string \<Rightarrow> db \<Rightarrow> Grant result \<times> db" where
  "grant_GetByID env i = query env (\<lambda>t.
     case find (\<lambda>g. gr_ID g = i) (grants t) of None \<Rightarrow> Inl ErrGrantNotFound | Some g \<Rightarrow> Inr g)"

definition update_grant :: "time \<Rightarrow> Grant \<Rightarrow> tables \<Rightarrow> unit result \<times> tables" where
  "update_grant now g t =
     (let upd = (\<lambda>x. x\<lparr>gr_KeyPrefix := gr_KeyPrefix g, gr_IsActive := gr_IsActive g,
                       gr_Note := gr_Note g, gr_UpdatedAt := now\<rparr>) in
      case find (\<lambda>x. gr_ID x = gr_ID g) (grants t) of
        None \<Rightarrow> (Inl ErrGrantNotFound, t)
      | Some x \<Rightarrow>
          if grant_conflict (upd x) t then (Inl ErrDuplicateGrant, t)
          else (Inr (), t\<lparr>grants := map (\<lambda>y. if gr_ID y = gr_ID g then upd y else y) (grants t)\<rparr>))"

definition grant_Update :: "db_env \<Rightarrow> Grant \<Rightarrow> db \<Rightarrow> unit result \<times> db" where
  "grant_Update env g s =
     (if TrimSpace (gr_ID g) = [] then (Inl ErrGrantNotFound, s)
      else if gr_IsActive g \<and> \<not> IsGrantable (gr_Action g) then (Inl ErrInvalidGrantAction, s)
      else sql env (update_grant (Now env s) g) s)"

definition grant_Delete :: "db_env \<Rightarrow> string \<Rightarrow> db \<Rightarrow> unit result \<times> db" where
  "grant_Delete env i = sql env (\<lambda>t.
     if i \<notin> gr_ID ` set (grants t) then (Inl ErrGrantNotFound, t)
     else (Inr (), t\<lparr>grants := filter (\<lambda>g. gr_ID g \<noteq> i) (grants t)\<rparr>))"

definition grant_ListByBucket :: "db_env \<Rightarrow> string \<Rightarrow> db \<Rightarrow> Grant list result \<times> db" where
  "grant_ListByBucket env n = query env (\<lambda>t.
     Inr (sort_key gr_CreatedAt (sort_key gr_ID (filter (\<lambda>g. gr_BucketName g = n) (grants t)))))"

definition ListByGrantee :: "db_env \<Rightarrow> string \<Rightarrow> db \<Rightarrow> Grant list result \<times> db" where
  "ListByGrantee env u = query env (\<lambda>t.
     Inr (sort_key gr_CreatedAt (sort_key gr_ID (filter (\<lambda>g. gr_GranteeUserID g = u) (grants t)))))"

definition ListActiveForGranteeBucket :: "db_env \<Rightarrow> string \<Rightarrow> string \<Rightarrow> db \<Rightarrow> Grant list result \<times> db" where
  "ListActiveForGranteeBucket env u n = query env (\<lambda>t.
     Inr (filter (\<lambda>g. gr_GranteeUserID g = u \<and> gr_BucketName g = n \<and> gr_IsActive g) (grants t)))"

definition ListBucketNamesWithActiveGrants :: "db_env \<Rightarrow> string \<Rightarrow> db \<Rightarrow> string list result \<times> db" where
  "ListBucketNamesWithActiveGrants env u = query env (\<lambda>t.
     Inr (sort (remdups (map gr_BucketName (filter (\<lambda>g. gr_GranteeUserID g = u \<and> gr_IsActive g) (grants t))))))"

section \<open>Share links, activity and summaries\<close>

definition IsExpired :: "ShareLink \<Rightarrow> time \<Rightarrow> bool" where
  "IsExpired l now = (case sl_ExpiresAt l of None \<Rightarrow> False | Some t \<Rightarrow> \<not> now < t)"

definition share_Create :: "db_env \<Rightarrow> ShareLink \<Rightarrow> db \<Rightarrow> unit result \<times> db" where
  "share_Create env l = sql env (\<lambda>t.
     if sl_Code l \<in> sl_Code ` set (share_links t) then (Inl ErrShareLinkCodeTaken, t)
     else if \<not> bucket_exists t (sl_BucketName l) \<or> \<not> user_exists t (sl_CreatedBy l) then (Inl ErrForeignKey, t)
     else (Inr (), t\<lparr>share_links := share_links t @ [l]\<rparr>))"

definition GetByCode :: "db_env \<Rightarrow> string \<Rightarrow> db \<Rightarrow> ShareLink result \<times> db" where
  "GetByCode env c = query env (\<lambda>t.
     case find (\<lambda>l. sl_Code l = c) (share_links t) of None \<Rightarrow> Inl ErrShareLinkNotFound | Some l \<Rightarrow> Inr l)"

definition share_List :: "db_env \<Rightarrow> string \<Rightarrow> db \<Rightarrow> ShareLink list result \<times> db" where
  "share_List env n = query env (\<lambda>t.
     Inr (sort_key (\<lambda>l. - sl_CreatedAt l) (sort_key sl_Code
       (filter (\<lambda>l. n = [] \<or> sl_BucketName l = n) (share_links t)))))"

definition share_Delete :: "db_env \<Rightarrow> string \<Rightarrow> db \<Rightarrow> unit result \<times> db" where
  "share_Delete env c = sql env (\<lambda>t.
     if c \<notin> sl_Code ` set (share_links t) then (Inl ErrShareLinkNotFound, t)
     else (Inr (), t\<lparr>share_links := filter (\<lambda>l. sl_Code l \<noteq> c) (share_links t)\<rparr>))"

definition activity_Create :: "db_env \<Rightarrow> ObjectActivity \<Rightarrow> db \<Rightarrow> unit result \<times> db" where
  "activity_Create env a s =
     (let createdAt = (if oa_CreatedAt a = 0 then Now env s else oa_CreatedAt a) in
      sql env (\<lambda>t.
        if oa_ID a \<in> oa_ID ` set (activity t) then (Inl ErrUniqueConstraint, t)
        else (Inr (), t\<lparr>activity := activity t @ [a\<lparr>oa_CreatedAt := createdAt\<rparr>]\<rparr>)) s)"

definition activity_List :: "db_env \<Rightarrow> string \<Rightarrow> string \<Rightarrow> int \<Rightarrow> db \<Rightarrow> ObjectActivity list result \<times> db" where
  "activity_List env bucketName action lim = query env (\<lambda>t.
     let limit = (if lim \<le> 0 then 100 else lim) in
     Inr (take (nat limit) (rev (sort_key oa_CreatedAt (sort_key oa_ID
       (filter (\<lambda>a. (bucketName = [] \<or> oa_BucketName a = bucketName) \<and> (action = [] \<or> oa_Action a = action))
          (activity t)))))))"

record ManagementMetrics =
  BucketCount :: int
  ObjectCount :: int
  TotalObjectBytes :: int
  UserCount_m :: int
  ActiveUserCount :: int

definition Metrics :: "db_env \<Rightarrow> db \<Rightarrow> ManagementMetrics result \<times> db" where
  "Metrics env = query env (\<lambda>t. Inr \<lparr>
     BucketCount = int (length (buckets t)), ObjectCount = int (length (objects t)),
     TotalObjectBytes = sum_list (map o_Size (objects t)), UserCount_m = int (length (users t)),
     ActiveUserCount = int (length (filter u_IsActive (users t)))\<rparr>)"

record BucketSummary =
  s_Name :: string
  s_OwnerID :: string
  s_CreatedAt :: time
  s_ObjectCount :: int
  s_TotalObjectBytes :: int

definition bucket_summary :: "tables \<Rightarrow> Bucket \<Rightarrow> BucketSummary" where
  "bucket_summary t b =
     (let os = filter (\<lambda>x. o_BucketName x = b_Name b) (objects t) in
      \<lparr>s_Name = b_Name b, s_OwnerID = b_OwnerID b, s_CreatedAt = b_CreatedAt b,
       s_ObjectCount = int (length os), s_TotalObjectBytes = sum_list (map o_Size os)\<rparr>)"

definition ListBucketSummaries :: "db_env \<Rightarrow> db \<Rightarrow> BucketSummary list result \<times> db" where
  "ListBucketSummaries env = query env (\<lambda>t. Inr (map (bucket_summary t) (sort_key b_CreatedAt (buckets t))))"

definition GetBucketSummary :: "db_env \<Rightarrow> string \<Rightarrow> db \<Rightarrow> BucketSummary result \<times> db" where
  "GetBucketSummary env n = query env (\<lambda>t.
     case find (\<lambda>b. b_Name b = n) (buckets t) of
       None \<Rightarrow> Inl ErrBucketNotFound | Some b \<Rightarrow> Inr (bucket_summary t b))"

end
