(* ===== verification/AccountsProofs.thy ===== *)
theory AccountsProofs
  imports Accounts
begin

text \<open>
  The account-side repositories keep the schema's constraints (\<open>db_wf\<close>) and are atomic; uniqueness
  of active grants, the idempotent batch, the first-user bootstrap, deletion of a bucket with its
  objects, and the grant store the evaluator reads.
\<close>

section \<open>Users\<close>

lemma insert_user_wf:
  assumes "insert_user u t = (Inr x, t')" and "db_wf t"
  shows "db_wf t'"
proof -
  have t': "t' = t\<lparr>users := users t @ [u]\<rparr>" using assms(1) by (auto simp: insert_user_def split: if_splits)
  have "users_ok t" using assms(2) by (simp add: db_wf_def)
  then have "users_ok t'"
    using assms(1) unfolding t' by (auto simp: insert_user_def users_ok_def user_exists_def split: if_splits)
  then show ?thesis unfolding t' by (intro wf_users [OF assms(2)]) auto
qed

lemma update_user_wf:
  assumes "update_user now u t = (Inr x, t')" and "db_wf t"
  shows "db_wf t'"
proof -
  define h :: "User \<Rightarrow> User" where "h = (\<lambda>x. if u_ID x = u_ID u
              then x\<lparr>u_DisplayName := u_DisplayName u, u_AccessKeyID := u_AccessKeyID u,
                     u_SecretHash := u_SecretHash u, u_Role := u_Role u, u_IsActive := u_IsActive u,
                     u_UpdatedAt := now\<rparr>
              else x)"
  have t': "t' = t\<lparr>users := map h (users t)\<rparr>"
    and free: "\<forall>x\<in>set (users t). u_ID x \<noteq> u_ID u \<longrightarrow> u_AccessKeyID x \<noteq> u_AccessKeyID u"
    and role: "u_Role u = RoleAdmin \<or> u_Role u = RoleMember"
    using assms(1) by (auto simp: update_user_def h_def split: if_splits)
  have ok: "users_ok t" using assms(2) by (simp add: db_wf_def)
  have keep: "u_ID (h x) = u_ID x" "u_SigV4AccessKeyID (h x) = u_SigV4AccessKeyID x" for x
    by (simp_all add: h_def)
  have ids: "map u_ID (map h (users t)) = map u_ID (users t)"
    "map u_SigV4AccessKeyID (map h (users t)) = map u_SigV4AccessKeyID (users t)"
    by (simp_all add: keep)
  have "distinct (map u_AccessKeyID (map h (users t)))"
  proof -
    have i: "inj_on u_ID (set (users t))" "inj_on u_AccessKeyID (set (users t))"
      using ok by (simp_all add: users_ok_def distinct_map)
    have "x = y" if xy: "x \<in> set (users t)" "y \<in> set (users t)" "u_AccessKeyID (h x) = u_AccessKeyID (h y)" for x y
    proof (cases "u_ID x = u_ID u \<or> u_ID y = u_ID u")
      case True
      have "u_ID x = u_ID y" using xy free True by (auto simp: h_def split: if_splits)
      with i(1) xy show ?thesis by (simp add: inj_on_def)
    next
      case False
      with xy i(2) show ?thesis by (simp add: h_def inj_on_def)
    qed
    then have "inj_on (\<lambda>x. u_AccessKeyID (h x)) (set (users t))" by (rule inj_onI)
    moreover have "distinct (users t)" using ok by (simp add: users_ok_def distinct_map)
    ultimately show ?thesis by (simp add: distinct_map comp_def inj_on_def)
  qed
  moreover have "\<forall>x\<in>set (map h (users t)). u_Role x = RoleAdmin \<or> u_Role x = RoleMember"
    using ok role by (auto simp: users_ok_def h_def)
  moreover have us: "users t' = map h (users t)" by (simp add: t')
  ultimately have "users_ok t'"
    using ok unfolding users_ok_def us ids by blast
  then show ?thesis using wf_users [OF assms(2)] unfolding t' by (simp add: image_image keep)
qed

lemma delete_user_wf:
  assumes "delete_user i t = (Inr x, t')" and "db_wf t"
  shows "db_wf t'"
proof -
  define h :: "Grant \<Rightarrow> Grant" where "h = (\<lambda>g. if gr_CreatedBy g = i then g\<lparr>gr_CreatedBy := []\<rparr> else g)"
  define gs where "gs = filter (\<lambda>g. gr_GranteeUserID g \<noteq> i) (grants t)"
  have t': "t' = t\<lparr>users := filter (\<lambda>u. u_ID u \<noteq> i) (users t), grants := map h gs,
              share_links := filter (\<lambda>l. sl_CreatedBy l \<noteq> i) (share_links t)\<rparr>"
    and own: "i \<notin> b_OwnerID ` set (buckets t)"
    using assms(1) by (auto simp: delete_user_def h_def gs_def split: if_splits)
  have ue: "user_exists t' j \<longleftrightarrow> user_exists t j \<and> j \<noteq> i" for j unfolding t' by (auto simp: user_exists_def)
  have be: "bucket_exists t' j \<longleftrightarrow> bucket_exists t j" for j unfolding t' by (simp add: bucket_exists_def)
  have keep: "gr_ID (h g) = gr_ID g" "grant_key (h g) = grant_key g" "gr_IsActive (h g) = gr_IsActive g"
      "gr_BucketName (h g) = gr_BucketName g" "gr_GranteeUserID (h g) = gr_GranteeUserID g"
      "gr_Action (h g) = gr_Action g" for g
    by (simp_all add: h_def grant_key_def)
  have f: "filter gr_IsActive (map h xs) = map h (filter gr_IsActive xs)" for xs
    by (induction xs) (simp_all add: keep)
  have c: "map gr_ID (map h xs) = map gr_ID xs" "map grant_key (map h xs) = map grant_key xs" for xs
    by (simp_all add: keep)
  have ff: "filter gr_IsActive gs = filter (\<lambda>g. gr_GranteeUserID g \<noteq> i) (filter gr_IsActive (grants t))"
    by (simp add: gs_def conj_commute)
  have sf: "filter (\<lambda>k. k \<noteq> []) (map u_SigV4AccessKeyID xs) = map u_SigV4AccessKeyID (filter (\<lambda>u. u_SigV4AccessKeyID u \<noteq> []) xs)"
    for xs :: "User list" by (induction xs) simp_all
  have fc: "filter (\<lambda>u. u_SigV4AccessKeyID u \<noteq> []) (filter (\<lambda>u. u_ID u \<noteq> i) (users t)) =
      filter (\<lambda>u. u_ID u \<noteq> i) (filter (\<lambda>u. u_SigV4AccessKeyID u \<noteq> []) (users t))"
    by (simp add: conj_commute)
  have "users_ok t'"
    using assms(2) unfolding t' db_wf_def users_ok_def sf
    by (simp add: distinct_map_filter fc del: filter_filter)
  moreover have "buckets_ok t'"
    using assms(2) own ue unfolding db_wf_def buckets_ok_def by (auto simp: t')
  moreover have "grants_ok t'"
  proof -
    have g: "grants_ok t" using assms(2) by (simp add: db_wf_def)
    have 1: "distinct (map gr_ID (grants t'))"
      using g unfolding t' grants_ok_def by (simp add: c gs_def distinct_map_filter del: map_map)
    have 2: "distinct (map grant_key (filter gr_IsActive (grants t')))"
      using g unfolding t' grants_ok_def by (simp add: f c ff distinct_map_filter del: map_map filter_filter)
    have 3: "\<forall>g\<in>set gs. bucket_exists t' (gr_BucketName (h g)) \<and> user_exists t' (gr_GranteeUserID (h g))
        \<and> (gr_CreatedBy (h g) = [] \<or> user_exists t' (gr_CreatedBy (h g))) \<and> IsGrantable (gr_Action (h g))"
    proof
      fix x
      assume x: "x \<in> set gs"
      then have "x \<in> set (grants t)" "gr_GranteeUserID x \<noteq> i" by (simp_all add: gs_def)
      with g show "bucket_exists t' (gr_BucketName (h x)) \<and> user_exists t' (gr_GranteeUserID (h x))
          \<and> (gr_CreatedBy (h x) = [] \<or> user_exists t' (gr_CreatedBy (h x))) \<and> IsGrantable (gr_Action (h x))"
        unfolding grants_ok_def keep ue be by (cases "gr_CreatedBy x = i") (simp_all add: h_def)
    qed
    show ?thesis using 1 2 3 unfolding grants_ok_def by (simp add: t')
  qed
  moreover have "shares_ok t'"
    using assms(2) ue be unfolding db_wf_def shares_ok_def by (auto simp: t' distinct_map_filter)
  moreover have "objects_ok t'" "uploads_ok t'" "parts_ok t'" "distinct (map oa_ID (activity t'))"
    using assms(2) be unfolding db_wf_def objects_ok_def uploads_ok_def parts_ok_def upload_exists_def
    by (simp_all add: t')
  ultimately show ?thesis by (simp add: db_wf_def)
qed


interpretation user_Create: atomic_op db_wf "user_Create env u" for env u
  unfolding user_Create_def insertUser_def by (rule atomic_sql) (rule insert_user_wf)

interpretation user_Delete: atomic_op db_wf "user_Delete env i" for env i
  unfolding user_Delete_def by (rule atomic_sql) (rule delete_user_wf)

interpretation user_Update: atomic_op db_wf "user_Update env u" for env u
proof unfold_locales
  show "user_Update env u s = (Inl e, s') \<Longrightarrow> tabs s' = tabs s" for s e s'
    unfolding user_Update_def by (rule sql_Inl)
  show "user_Update env u s = (Inr x, s') \<Longrightarrow> db_wf (tabs s) \<Longrightarrow> db_wf (tabs s')" for s x s'
    unfolding user_Update_def by (drule sql_Inr) (rule update_user_wf)
qed

lemma CreateFirstUser_body:
  assumes "andThen (query env (\<lambda>t. Inr (int (length (users t))))) (\<lambda>count.
        if count > 0 then fail ErrUsersAlreadyExist else insertUser env u) s = (Inr x, s')"
  shows "users (tabs s) = []" and "insert_user u (tabs s) = (Inr x, tabs s')"
  using assms
  by (auto simp: andThen_Inr insertUser_def split: if_splits dest!: query_Inr sql_Inr)

interpretation CreateFirstUser: atomic_op db_wf "CreateFirstUser env u" for env u
  unfolding CreateFirstUser_def
  by (rule atomic_tx) (blast dest: CreateFirstUser_body insert_user_wf)

section \<open>Buckets\<close>

lemma insert_bucket_wf:
  assumes "insert_bucket b t = (Inr x, t')" and "db_wf t"
  shows "db_wf t'"
proof -
  have t': "t' = t\<lparr>buckets := buckets t @ [b]\<rparr>" using assms(1) by (auto simp: insert_bucket_def split: if_splits)
  have "buckets_ok t" using assms(2) by (simp add: db_wf_def)
  then have "buckets_ok t'"
    using assms(1) unfolding t'
    by (auto simp: insert_bucket_def buckets_ok_def bucket_exists_def user_exists_def split: if_splits)
  then show ?thesis unfolding t' by (intro wf_buckets [OF assms(2)]) auto
qed

lemma update_owner_wf:
  assumes "update_owner n own ex t = (Inr x, t')" and "db_wf t"
  shows "db_wf t'"
proof -
  define h where "h = (\<lambda>b::Bucket. if b_Name b = n \<and> b_OwnerID b = ex then b\<lparr>b_OwnerID := own\<rparr> else b)"
  have t': "t' = t\<lparr>buckets := map h (buckets t)\<rparr>" and u: "user_exists t own"
    using assms(1) by (auto simp: update_owner_def h_def split: if_splits)
  have keep: "b_Name (h b) = b_Name b" for b by (simp add: h_def)
  have nm: "map b_Name (map h (buckets t)) = map b_Name (buckets t)" by (simp add: keep)
  have bs: "buckets t' = map h (buckets t)" by (simp add: t')
  have ue: "user_exists t' i = user_exists t i" for i by (simp add: t' user_exists_def)
  have ok: "buckets_ok t" using assms(2) by (simp add: db_wf_def)
  have "\<forall>b\<in>set (map h (buckets t)). user_exists t (b_OwnerID b)"
    using ok u by (auto simp: buckets_ok_def h_def)
  with ok have "buckets_ok t'" unfolding buckets_ok_def bs nm ue by blast
  then show ?thesis unfolding t' by (intro wf_buckets [OF assms(2)]) (simp_all add: image_image keep)
qed

lemma delete_bucket_wf:
  assumes "delete_bucket n t = (Inr x, t')" and "db_wf t"
  shows "db_wf t'"
proof -
  have t': "t' = t\<lparr>buckets := filter (\<lambda>b. b_Name b \<noteq> n) (buckets t),
              grants := filter (\<lambda>g. gr_BucketName g \<noteq> n) (grants t),
              share_links := filter (\<lambda>l. sl_BucketName l \<noteq> n) (share_links t)\<rparr>"
    and free: "n \<notin> o_BucketName ` set (objects t)" "n \<notin> mu_BucketName ` set (uploads t)"
    using assms(1) by (auto simp: delete_bucket_def split: if_splits)
  have be: "bucket_exists t' j \<longleftrightarrow> bucket_exists t j \<and> j \<noteq> n" for j unfolding t' by (auto simp: bucket_exists_def)
  have ue: "user_exists t' j = user_exists t j" for j unfolding t' by (simp add: user_exists_def)
  have "users_ok t'" "parts_ok t'" "distinct (map oa_ID (activity t'))"
    using assms(2) unfolding db_wf_def users_ok_def parts_ok_def upload_exists_def by (simp_all add: t')
  moreover have "buckets_ok t'"
    using assms(2) unfolding db_wf_def buckets_ok_def ue by (simp add: t' distinct_map_filter)
  moreover have "objects_ok t'" "uploads_ok t'"
    using assms(2) free unfolding db_wf_def objects_ok_def uploads_ok_def be by (auto simp: t')
  moreover have "shares_ok t'"
    using assms(2) unfolding db_wf_def shares_ok_def be ue by (simp add: t' distinct_map_filter)
  moreover have "grants_ok t'"
  proof -
    have ff: "filter gr_IsActive (grants t') = filter (\<lambda>g. gr_BucketName g \<noteq> n) (filter gr_IsActive (grants t))"
      by (simp add: t' conj_commute)
    show ?thesis
      using assms(2) unfolding db_wf_def grants_ok_def be ue ff
      by (simp add: t' distinct_map_filter del: filter_filter)
  qed
  ultimately show ?thesis by (simp add: db_wf_def)
qed

interpretation bucket_Create: atomic_op db_wf "bucket_Create env b" for env b
  unfolding bucket_Create_def by (rule atomic_sql) (rule insert_bucket_wf)

interpretation UpdateOwner: atomic_op db_wf "UpdateOwner env n own ex" for env n own ex
  unfolding UpdateOwner_def by (rule atomic_sql) (rule update_owner_wf)

interpretation bucket_Delete: atomic_op db_wf "bucket_Delete env n" for env n
  unfolding bucket_Delete_def by (rule atomic_sql) (rule delete_bucket_wf)

lemma objects_filter_wf: "db_wf t \<Longrightarrow> db_wf (t\<lparr>objects := filter P (objects t)\<rparr>)"
  by (rule wf_objects) (auto simp: db_wf_def objects_ok_def bucket_exists_def distinct_map_filter)

lemma DeleteWithObjects_body:
  assumes "andThen (query env (\<lambda>t. Inr (n \<in> mu_BucketName ` set (uploads t)))) (\<lambda>hasUploads.
        if hasUploads then fail ErrBucketHasMultipartUploads
        else andThen (deleteBucketObjects env n) (\<lambda>objs.
               andThen (sql env (delete_bucket n)) (\<lambda>u. ret objs))) s = (Inr objs, s')"
  shows "n \<notin> mu_BucketName ` set (uploads (tabs s))"
    and "objs = filter (\<lambda>x. o_BucketName x = n) (objects (tabs s))"
    and "delete_bucket n ((tabs s)\<lparr>objects := filter (\<lambda>x. o_BucketName x \<noteq> n) (objects (tabs s))\<rparr>) = (Inr (), tabs s')"
  using assms
  by (auto simp: andThen_Inr deleteBucketObjects_def split: if_splits dest!: query_Inr sql_Inr)

interpretation DeleteWithObjects: atomic_op db_wf "DeleteWithObjects env n" for env n
  unfolding DeleteWithObjects_def
  by (rule atomic_tx) (blast dest: DeleteWithObjects_body(3) delete_bucket_wf objects_filter_wf)

section \<open>Grants\<close>

lemma grant_snoc_wf:
  assumes "db_wf t" and "gr_ID g \<notin> gr_ID ` set (grants t)" and "\<not> grant_conflict g t"
    and "grant_refs_ok g t" and "IsGrantable (gr_Action g)"
  shows "db_wf (t\<lparr>grants := grants t @ [g]\<rparr>)"
proof (rule wf_grants [OF assms(1)])
  have ok: "grants_ok t" using assms(1) by (simp add: db_wf_def)
  have "grant_key g \<notin> grant_key ` set (filter gr_IsActive (grants t))" if a: "gr_IsActive g"
  proof
    assume "grant_key g \<in> grant_key ` set (filter gr_IsActive (grants t))"
    then obtain x where x: "x \<in> set (grants t)" "gr_IsActive x" "grant_key x = grant_key g" by auto
    then have "gr_ID x \<noteq> gr_ID g" using assms(2) by (metis imageI)
    with a x assms(3) show False by (auto simp: grant_conflict_def)
  qed
  with ok assms(2,4,5) show "grants_ok (t\<lparr>grants := grants t @ [g]\<rparr>)"
    by (auto simp: grants_ok_def grant_refs_ok_def user_exists_def bucket_exists_def)
qed

lemma insert_grant_wf:
  "insert_grant g t = (Inr x, t') \<Longrightarrow> IsGrantable (gr_Action g) \<Longrightarrow> db_wf t \<Longrightarrow> db_wf t'"
  using grant_snoc_wf by (auto simp: insert_grant_def split: if_splits)

lemma insertGrantUnless_wf:
  "insertGrantUnlessActiveDuplicate g t = (Inr x, t') \<Longrightarrow> IsGrantable (gr_Action g) \<Longrightarrow> db_wf t \<Longrightarrow> db_wf t'"
  using grant_snoc_wf by (auto simp: insertGrantUnlessActiveDuplicate_def split: if_splits)

lemma update_grant_wf:
  assumes "update_grant now g t = (Inr x, t')" and wf: "db_wf t"
  shows "db_wf t'"
proof -
  define upd :: "Grant \<Rightarrow> Grant" where "upd = (\<lambda>x. x\<lparr>gr_KeyPrefix := gr_KeyPrefix g, gr_IsActive := gr_IsActive g,
                       gr_Note := gr_Note g, gr_UpdatedAt := now\<rparr>)"
  define h where "h = (\<lambda>y. if gr_ID y = gr_ID g then upd y else y)"
  from assms(1) obtain x0 where x0: "find (\<lambda>x. gr_ID x = gr_ID g) (grants t) = Some x0"
    and nc: "\<not> grant_conflict (upd x0) t" and t': "t' = t\<lparr>grants := map h (grants t)\<rparr>"
    by (auto simp: update_grant_def Let_def upd_def h_def split: option.splits if_splits)
  have ok: "grants_ok t" using wf by (simp add: db_wf_def)
  have uniq: "x = y" if "x \<in> set (grants t)" "y \<in> set (grants t)" "gr_ID x = gr_ID y" for x y
    using ok that by (auto simp: grants_ok_def distinct_map inj_on_def)
  have x0m: "x0 \<in> set (grants t)" "gr_ID x0 = gr_ID g" using find_SomeD [OF x0] by auto
  have keep: "gr_ID (h x) = gr_ID x" "gr_BucketName (h x) = gr_BucketName x" "gr_GranteeUserID (h x) = gr_GranteeUserID x"
      "gr_CreatedBy (h x) = gr_CreatedBy x" "gr_Action (h x) = gr_Action x" for x
    by (simp_all add: h_def upd_def)
  have ids: "map gr_ID (map h (grants t)) = map gr_ID (grants t)" by (simp add: keep)
  have inj: "inj_on grant_key {x \<in> set (map h (grants t)). gr_IsActive x}"
  proof (rule inj_onI)
    fix a b
    assume "a \<in> {x \<in> set (map h (grants t)). gr_IsActive x}" "b \<in> {x \<in> set (map h (grants t)). gr_IsActive x}"
      and k: "grant_key a = grant_key b"
    then obtain x y where x: "x \<in> set (grants t)" "a = h x" "gr_IsActive a"
      and y: "y \<in> set (grants t)" "b = h y" "gr_IsActive b" by auto
    have other: "False" if "u \<in> set (grants t)" "v \<in> set (grants t)" "gr_ID u = gr_ID g" "gr_ID v \<noteq> gr_ID g"
      "gr_IsActive (h u)" "gr_IsActive (h v)" "grant_key (h u) = grant_key (h v)" for u v
    proof -
      have "u = x0" using uniq that(1,3) x0m by simp
      then have "h u = upd x0" "h v = v" using that by (simp_all add: h_def)
      with nc that x0m show False by (auto simp: grant_conflict_def upd_def)
    qed
    show "a = b"
    proof (cases "gr_ID x = gr_ID g"; cases "gr_ID y = gr_ID g")
      assume "gr_ID x = gr_ID g" "gr_ID y = gr_ID g"
      then show ?thesis using uniq x y by metis
    next
      assume n: "gr_ID x \<noteq> gr_ID g" "gr_ID y \<noteq> gr_ID g"
      have "inj_on grant_key {z \<in> set (grants t). gr_IsActive z}"
        using ok by (auto simp: grants_ok_def distinct_map)
      with n x y k show ?thesis by (simp add: h_def inj_on_def)
    qed (use other x y k in metis)+
  qed
  have dis: "distinct (map h (grants t))"
    using ok unfolding grants_ok_def by (metis distinct_map ids)
  have gs: "grants t' = map h (grants t)" by (simp add: t')
  have ex: "user_exists t' i = user_exists t i" "bucket_exists t' i = bucket_exists t i" for i
    by (simp_all add: t' user_exists_def bucket_exists_def)
  have "distinct (map grant_key (filter gr_IsActive (map h (grants t))))"
    using inj dis by (simp add: distinct_map)
  moreover have "\<forall>x\<in>set (map h (grants t)). bucket_exists t (gr_BucketName x) \<and> user_exists t (gr_GranteeUserID x)
      \<and> (gr_CreatedBy x = [] \<or> user_exists t (gr_CreatedBy x)) \<and> IsGrantable (gr_Action x)"
    using ok by (auto simp: grants_ok_def keep)
  moreover have "distinct (map gr_ID (map h (grants t)))" using ok unfolding grants_ok_def ids by blast
  ultimately have "grants_ok t'" unfolding grants_ok_def gs ex by blast
  then show ?thesis unfolding t' by (rule wf_grants [OF wf])
qed

lemma batch_loop_wf:
  "batch_loop env gs rs s = (Inr x, s') \<Longrightarrow> \<forall>g\<in>set gs. IsGrantable (gr_Action g) \<Longrightarrow> db_wf (tabs s) \<Longrightarrow> db_wf (tabs s')"
proof (induction gs arbitrary: rs s)
  case (Cons g gs)
  from Cons.prems(1) obtain n s1 where ins: "sql env (insertGrantUnlessActiveDuplicate g) s = (Inr n, s1)"
    and rest: "(n = 1 \<and> batch_loop env gs (rs @ [\<lparr>gc_Grant = g, gc_Existed = False\<rparr>]) s1 = (Inr x, s'))
      \<or> (\<exists>y s2. findActiveDuplicate env g s1 = (Inr (Some y), s2)
           \<and> batch_loop env gs (rs @ [\<lparr>gc_Grant = y, gc_Existed = True\<rparr>]) s2 = (Inr x, s'))"
    by (auto simp: andThen_Inr split: if_splits option.splits)
  have "db_wf (tabs s1)" using insertGrantUnless_wf [OF sql_Inr [OF ins]] Cons.prems(2,3) by simp
  moreover have "findActiveDuplicate env g s1 = (r, s2) \<Longrightarrow> tabs s2 = tabs s1" for r s2
    unfolding findActiveDuplicate_def by (rule query_tabs)
  ultimately show ?case using rest Cons.IH Cons.prems(2) by (metis list.set_intros(2))
qed simp

lemma validate_all_None: "validate_all gs = None \<longleftrightarrow> (\<forall>g\<in>set gs. IsGrantable (gr_Action g))"
  by (induction gs) (auto simp: validateGrantWrite_def split: option.splits)

interpretation grant_Create: atomic_op db_wf "grant_Create env g" for env g
proof (cases "validateGrantWrite g")
  case None
  then have "IsGrantable (gr_Action g)" by (auto simp: validateGrantWrite_def split: if_splits)
  then show "atomic_op db_wf (grant_Create env g)"
    using None insert_grant_wf unfolding grant_Create_def by (auto intro: atomic_sql)
next
  case (Some e)
  then show "atomic_op db_wf (grant_Create env g)" unfolding grant_Create_def by unfold_locales auto
qed

interpretation CreateIdempotentBatch: atomic_op db_wf "CreateIdempotentBatch env gs" for env gs
proof (cases "validate_all gs")
  case None
  then have g: "\<forall>g\<in>set gs. IsGrantable (gr_Action g)" by (simp add: validate_all_None)
  have "atomic_op db_wf (in_tx env (batch_loop env gs []))"
    by (rule atomic_tx) (rule batch_loop_wf [OF _ g])
  with None show "atomic_op db_wf (CreateIdempotentBatch env gs)"
    unfolding CreateIdempotentBatch_def by simp
next
  case (Some e)
  then show "atomic_op db_wf (CreateIdempotentBatch env gs)" unfolding CreateIdempotentBatch_def by unfold_locales auto
qed

interpretation grant_Update: atomic_op db_wf "grant_Update env g" for env g
proof unfold_locales
  show "grant_Update env g s = (Inl e, s') \<Longrightarrow> tabs s' = tabs s" for s e s'
    by (auto simp: grant_Update_def dest: sql_Inl split: if_splits)
  show "grant_Update env g s = (Inr x, s') \<Longrightarrow> db_wf (tabs s) \<Longrightarrow> db_wf (tabs s')" for s x s'
    by (auto simp: grant_Update_def dest!: sql_Inr dest: update_grant_wf split: if_splits)
qed

lemma grants_filter_wf: "db_wf t \<Longrightarrow> db_wf (t\<lparr>grants := filter P (grants t)\<rparr>)"
proof (rule wf_grants)
  assume "db_wf t"
  then have ok: "grants_ok t" by (simp add: db_wf_def)
  have "filter gr_IsActive (filter P (grants t)) = filter P (filter gr_IsActive (grants t))"
    by (simp add: conj_commute)
  with ok show "grants_ok (t\<lparr>grants := filter P (grants t)\<rparr>)"
    unfolding grants_ok_def by (simp add: distinct_map_filter user_exists_def bucket_exists_def del: filter_filter)
qed

interpretation grant_Delete: atomic_op db_wf "grant_Delete env i" for env i
  unfolding grant_Delete_def by (rule atomic_sql) (auto split: if_splits intro: grants_filter_wf)

section \<open>Share links and activity\<close>

interpretation share_Create: atomic_op db_wf "share_Create env l" for env l
  unfolding share_Create_def
proof (rule atomic_sql)
  fix t x t'
  assume s: "(if sl_Code l \<in> sl_Code ` set (share_links t) then (Inl ErrShareLinkCodeTaken, t)
     else if \<not> bucket_exists t (sl_BucketName l) \<or> \<not> user_exists t (sl_CreatedBy l) then (Inl ErrForeignKey, t)
     else (Inr (), t\<lparr>share_links := share_links t @ [l]\<rparr>)) = (Inr x, t')" and wf: "db_wf t"
  then have t': "t' = t\<lparr>share_links := share_links t @ [l]\<rparr>" by (auto split: if_splits)
  have "shares_ok t" using wf by (simp add: db_wf_def)
  then have "shares_ok t'"
    using s unfolding t' by (auto simp: shares_ok_def user_exists_def bucket_exists_def split: if_splits)
  then show "db_wf t'" unfolding t' by (rule wf_shares [OF wf])
qed

lemma shares_filter_wf: "db_wf t \<Longrightarrow> db_wf (t\<lparr>share_links := filter P (share_links t)\<rparr>)"
  by (rule wf_shares) (auto simp: db_wf_def shares_ok_def user_exists_def bucket_exists_def distinct_map_filter)

interpretation share_Delete: atomic_op db_wf "share_Delete env c" for env c
  unfolding share_Delete_def by (rule atomic_sql) (auto split: if_splits intro: shares_filter_wf)

interpretation activity_Create: atomic_op db_wf "activity_Create env a" for env a
proof unfold_locales
  show "activity_Create env a s = (Inl e, s') \<Longrightarrow> tabs s' = tabs s" for s e s'
    by (auto simp: activity_Create_def Let_def dest: sql_Inl)
  show "db_wf (tabs s')" if r: "activity_Create env a s = (Inr x, s')" and wf: "db_wf (tabs s)" for s x s'
  proof -
    define a' where "a' = a\<lparr>oa_CreatedAt := (if oa_CreatedAt a = 0 then Now env s else oa_CreatedAt a)\<rparr>"
    have "tabs s' = (tabs s)\<lparr>activity := activity (tabs s) @ [a']\<rparr>" "oa_ID a' \<notin> oa_ID ` set (activity (tabs s))"
      using sql_Inr [OF r [unfolded activity_Create_def Let_def]] by (auto simp: a'_def split: if_splits)
    moreover have "distinct (map oa_ID (activity (tabs s)))" using wf by (simp add: db_wf_def)
    ultimately show ?thesis using wf_activity [OF wf] by auto
  qed
qed


section \<open>The grant store of the evaluator\<close>

definition grant_view :: "Grant \<Rightarrow> authz_Grant" where
  "grant_view g = \<lparr>a_BucketName = gr_BucketName g, a_GranteeUserID = gr_GranteeUserID g,
     a_Action = gr_Action g, a_KeyPrefix = gr_KeyPrefix g, a_Active = gr_IsActive g\<rparr>"

text \<open>\<open>s3/authz_store.go\<close>: the repository's rows in the shape the evaluator reads.\<close>

definition authz_lister :: "db_env \<Rightarrow> db grant_lister" where
  "authz_lister env u n = andThen (ListActiveForGranteeBucket env u n) (\<lambda>rows. ret (map grant_view rows))"

interpretation sqlite_grants: grant_store "authz_lister env" "\<lambda>s. grant_view ` set (grants (tabs s))" for env
proof unfold_locales
  fix u b s gs s' r
  show "{g \<in> set gs. a_Active g} =
      {g \<in> grant_view ` set (grants (tabs s)). a_Active g \<and> a_GranteeUserID g = u \<and> a_BucketName g = b}"
    if "authz_lister env u b s = (Inr gs, s')"
    using that
    by (auto simp: authz_lister_def ListActiveForGranteeBucket_def andThen_Inr grant_view_def image_iff dest!: query_Inr)
  have "ListActiveForGranteeBucket env u b s = (l, s1) \<Longrightarrow> tabs s1 = tabs s" for l s1
    unfolding ListActiveForGranteeBucket_def by (rule query_tabs)
  then show "grant_view ` set (grants (tabs s')) = grant_view ` set (grants (tabs s))"
    if "authz_lister env u b s = (r, s')"
    using that by (auto simp: authz_lister_def andThen_def split: prod.splits sum.splits)
qed

section \<open>Properties\<close>

text \<open>
  C16: the evaluator, reading grants from the database, answers exactly by the decision
  rule over the rows of the grants table, and reports an error rather than an answer when the
  grants cannot be read; the decision changes no table.
\<close>

theorem allow_decides:
  "Allow (Some (authz_lister env)) req s = (Inr b, s') \<Longrightarrow>
   (b \<longleftrightarrow> permitted (grant_view ` set (grants (tabs s))) req)
   \<and> grant_view ` set (grants (tabs s')) = grant_view ` set (grants (tabs s))"
  using sqlite_grants.decision(1) [OF _ refl] sqlite_grants.decision(2) by metis

definition sample_request :: "Action \<Rightarrow> string \<Rightarrow> DecisionRequest" where
  "sample_request a k = \<lparr>d_Principal = \<lparr>p_UserID = ''r'', p_DisplayName = [], p_AccessKeyID = [], p_Role = RoleMember,
     p_DevMode = False, p_SignedHeaders = [], p_SignedPayloadHash = []\<rparr>, d_Action = a, d_Bucket = ''b'',
     d_ObjectKey = k, d_ListPrefix = [], d_BucketOwnerID = ''m''\<rparr>"

lemma allow_decides_witness:
  "permitted (grant_view ` set (grants (tabs sample_db))) (sample_request ActionGetObject ''a/x'')
   \<and> \<not> permitted (grant_view ` set (grants (tabs sample_db))) (sample_request ActionGetObject ''k'')"
proof -
  let ?run = "\<lambda>k. Allow (Some (authz_lister sample_denv)) (sample_request ActionGetObject k) sample_db"
  have "?run ''a/x'' = (Inr True, db_step sample_db)" "?run ''k'' = (Inr False, db_step sample_db)"
    by code_simp+
  from this [THEN allow_decides] show ?thesis by simp
qed

text \<open>
  Deleting buckets: no set of grants lets a principal who is neither administrator nor owner
  delete a bucket, and nobody without an identity is allowed anything.
\<close>

theorem delete_bucket_never_granted:
  "fst (Allow store req s) = Inr True \<Longrightarrow>
   TrimSpace (p_UserID (d_Principal req)) \<noteq> []
   \<and> (d_Action req = ActionDeleteBucket \<longrightarrow>
        p_Role (d_Principal req) = RoleAdmin \<or> d_BucketOwnerID req = p_UserID (d_Principal req))"
  by (auto simp: Allow_def Let_def action_defs split: if_splits)

lemma delete_bucket_never_granted_witness:
  "let req = (sample_request ActionDeleteBucket [])\<lparr>d_BucketOwnerID := ''r''\<rparr> in
   fst (Allow (Some (authz_lister sample_denv)) req sample_db) = Inr True
   \<and> (p_Role (d_Principal req) = RoleAdmin \<or> d_BucketOwnerID req = p_UserID (d_Principal req))"
proof -
  let ?req = "(sample_request ActionDeleteBucket [])\<lparr>d_BucketOwnerID := ''r''\<rparr>"
  have a: "fst (Allow (Some (authz_lister sample_denv)) ?req sample_db) = Inr True" "d_Action ?req = ActionDeleteBucket"
    by code_simp+
  from delete_bucket_never_granted [OF a(1)] a show ?thesis by (simp add: Let_def)
qed

text \<open>
  The first user: \<open>CreateFirstUser\<close> succeeds only on an empty users table and then leaves exactly the
  given user; in every other case the tables are unchanged.
\<close>

theorem first_user_once:
  "(case CreateFirstUser env u s of
      (Inl e, s') \<Rightarrow> tabs s' = tabs s
    | (Inr x, s') \<Rightarrow> users (tabs s) = [] \<and> tabs s' = (tabs s)\<lparr>users := [u]\<rparr>)"
proof (cases "CreateFirstUser env u s")
  case (Pair r s')
  show ?thesis
  proof (cases r)
    case (Inl e)
    with Pair CreateFirstUser.error_keeps [of env u s e s'] show ?thesis by simp
  next
    case (Inr x)
    from Pair Inr have "in_tx env (andThen (query env (\<lambda>t. Inr (int (length (users t))))) (\<lambda>count.
        if count > 0 then fail ErrUsersAlreadyExist else insertUser env u)) s = (Inr x, s')"
      by (simp add: CreateFirstUser_def)
    then obtain s1 s2 where b: "tabs s1 = tabs s" "tabs s' = tabs s2"
      "andThen (query env (\<lambda>t. Inr (int (length (users t))))) (\<lambda>count.
        if count > 0 then fail ErrUsersAlreadyExist else insertUser env u) s1 = (Inr x, s2)"
      by (rule in_tx_Inr)
    note body = CreateFirstUser_body [OF b(3)]
    have "tabs s2 = (tabs s1)\<lparr>users := users (tabs s1) @ [u]\<rparr>"
      using body(2) by (auto simp: insert_user_def split: if_splits)
    with body(1) b Pair Inr show ?thesis by simp
  qed
qed

text \<open>
  C19: the ordinary user reads never return a SigV4 secret.
\<close>

theorem secrets_stay_hidden:
  "(\<forall>u. fst (user_GetByID env i s) = Inr u \<longrightarrow> u_SigV4SecretKey u = [])
   \<and> (\<forall>u. fst (GetByAccessKeyID env k s) = Inr u \<longrightarrow> u_SigV4SecretKey u = [])
   \<and> (\<forall>us. fst (user_List env s) = Inr us \<longrightarrow> (\<forall>u\<in>set us. u_SigV4SecretKey u = []))"
  by (auto simp: user_GetByID_def GetByAccessKeyID_def user_List_def andThen_def ret_def query_def sql_def
      split: prod.splits sum.splits if_splits)

lemma secrets_stay_hidden_witness:
  "\<exists>u us. fst (user_GetByID sample_denv ''m'' sample_db) = Inr u \<and> u_SigV4SecretKey u = []
     \<and> fst (user_List sample_denv sample_db) = Inr us \<and> length us = 3 \<and> (\<forall>u\<in>set us. u_SigV4SecretKey u = [])"
proof -
  let ?u = "(sample_user ''m'' RoleMember)\<lparr>u_SigV4SecretKey := []\<rparr>"
  let ?us = "map (\<lambda>u. u\<lparr>u_SigV4SecretKey := []\<rparr>) (users sample_tables)"
  have "fst (user_GetByID sample_denv ''m'' sample_db) = Inr ?u" "fst (user_List sample_denv sample_db) = Inr ?us"
    "length ?us = 3"
    by code_simp+
  with secrets_stay_hidden [of sample_denv "''m''" sample_db "''Km''"] show ?thesis by blast
qed


text \<open>What a batch result says about the table: each requested grant has its active row.\<close>

definition stored :: "tables \<Rightarrow> Grant \<Rightarrow> GrantCreateResult \<Rightarrow> bool" where
  "stored t g r \<longleftrightarrow> gc_Grant r \<in> set (grants t) \<and> gr_IsActive (gc_Grant r) \<and> grant_key (gc_Grant r) = grant_key g"

lemma stored_mono: "set (grants t) \<subseteq> set (grants t') \<Longrightarrow> stored t g r \<Longrightarrow> stored t' g r"
  by (auto simp: stored_def)

lemma stored_unique: "db_wf t \<Longrightarrow> stored t g r \<Longrightarrow> stored t g r' \<Longrightarrow> gc_Grant r = gc_Grant r'"
  by (auto simp: stored_def db_wf_def grants_ok_def distinct_map inj_on_def)

lemma batch_loop_spec:
  "batch_loop env gs rs0 s = (Inr rs, s') \<Longrightarrow> \<forall>g\<in>set gs. gr_IsActive g \<Longrightarrow>
   set (grants (tabs s)) \<subseteq> set (grants (tabs s')) \<and>
   (\<exists>new. rs = rs0 @ new \<and> list_all2 (stored (tabs s')) gs new
      \<and> ((\<forall>g\<in>set gs. grant_conflict g (tabs s)) \<longrightarrow> tabs s' = tabs s \<and> list_all gc_Existed new))"
proof (induction gs arbitrary: rs0 s)
  case (Cons g gs)
  from Cons.prems(1) obtain n s1 where ins: "sql env (insertGrantUnlessActiveDuplicate g) s = (Inr n, s1)"
    and rest: "(n = 1 \<and> batch_loop env gs (rs0 @ [\<lparr>gc_Grant = g, gc_Existed = False\<rparr>]) s1 = (Inr rs, s'))
      \<or> (n \<noteq> 1 \<and> (\<exists>y s2. findActiveDuplicate env g s1 = (Inr (Some y), s2)
           \<and> batch_loop env gs (rs0 @ [\<lparr>gc_Grant = y, gc_Existed = True\<rparr>]) s2 = (Inr rs, s')))"
    by (auto simp: andThen_Inr split: if_splits option.splits)
  have stmt: "insertGrantUnlessActiveDuplicate g (tabs s) = (Inr n, tabs s1)" using ins by (rule sql_Inr)
  have act: "gr_IsActive g" "\<forall>g\<in>set gs. gr_IsActive g" using Cons.prems(2) by simp_all
  from rest show ?case
  proof (elim disjE conjE exE)
    assume n: "n = 1" and run: "batch_loop env gs (rs0 @ [\<lparr>gc_Grant = g, gc_Existed = False\<rparr>]) s1 = (Inr rs, s')"
    have t1: "tabs s1 = (tabs s)\<lparr>grants := grants (tabs s) @ [g]\<rparr>" and nc: "\<not> grant_conflict g (tabs s)"
      using stmt n by (auto simp: insertGrantUnlessActiveDuplicate_def split: if_splits)
    have g1: "grants (tabs s1) = grants (tabs s) @ [g]" by (simp add: t1)
    from Cons.IH [OF run act(2)] obtain new where sub: "set (grants (tabs s1)) \<subseteq> set (grants (tabs s'))"
      and new: "rs = rs0 @ [\<lparr>gc_Grant = g, gc_Existed = False\<rparr>] @ new" "list_all2 (stored (tabs s')) gs new"
      by auto
    have "stored (tabs s') g \<lparr>gc_Grant = g, gc_Existed = False\<rparr>"
      using sub g1 act(1) by (auto simp: stored_def)
    with new sub g1 nc show ?thesis by auto
  next
    fix y s2
    assume n: "n \<noteq> 1" and dup: "findActiveDuplicate env g s1 = (Inr (Some y), s2)"
      and run: "batch_loop env gs (rs0 @ [\<lparr>gc_Grant = y, gc_Existed = True\<rparr>]) s2 = (Inr rs, s')"
    have s1: "tabs s1 = tabs s"
      using stmt n by (auto simp: insertGrantUnlessActiveDuplicate_def split: if_splits)
    from dup have d: "find (\<lambda>x. grant_key x = grant_key g \<and> gr_IsActive x) (grants (tabs s1)) = Some y"
      and s2: "tabs s2 = tabs s1" by (auto simp: findActiveDuplicate_def dest!: query_Inr)
    from find_SomeD [OF d] have y: "y \<in> set (grants (tabs s))" "grant_key y = grant_key g" "gr_IsActive y"
      using s1 by auto
    from Cons.IH [OF run act(2)] s1 s2 obtain new where sub: "set (grants (tabs s)) \<subseteq> set (grants (tabs s'))"
      and new: "rs = rs0 @ [\<lparr>gc_Grant = y, gc_Existed = True\<rparr>] @ new" "list_all2 (stored (tabs s')) gs new"
        "(\<forall>g\<in>set gs. grant_conflict g (tabs s)) \<longrightarrow> tabs s' = tabs s \<and> list_all gc_Existed new"
      by auto
    have "stored (tabs s') g \<lparr>gc_Grant = y, gc_Existed = True\<rparr>"
      using sub y by (auto simp: stored_def)
    with new sub show ?thesis by auto
  qed
qed simp

lemma CreateIdempotentBatch_spec:
  assumes "CreateIdempotentBatch env gs s = (Inr rs, s')" and "\<forall>g\<in>set gs. gr_IsActive g"
  shows "list_all2 (stored (tabs s')) gs rs"
    and "\<forall>g\<in>set gs. grant_conflict g (tabs s) \<Longrightarrow> tabs s' = tabs s \<and> list_all gc_Existed rs"
proof -
  from assms(1) have "in_tx env (batch_loop env gs []) s = (Inr rs, s')"
    by (auto simp: CreateIdempotentBatch_def split: option.splits)
  then obtain s1 s2 where b: "tabs s1 = tabs s" "batch_loop env gs [] s1 = (Inr rs, s2)" "tabs s' = tabs s2"
    by (rule in_tx_Inr)
  from batch_loop_spec [OF b(2) assms(2)] b(1,3)
  show "list_all2 (stored (tabs s')) gs rs"
    and "\<forall>g\<in>set gs. grant_conflict g (tabs s) \<Longrightarrow> tabs s' = tabs s \<and> list_all gc_Existed rs"
    by auto
qed

text \<open>
  C18: creating a batch of active grants stores one active row per requested
  (bucket, grantee, action, prefix), in request order; asking again for the same grants under new
  identifiers changes nothing and answers with the rows of the first call, marked as existing.
\<close>

theorem grant_batch_idempotent:
  assumes wf: "db_wf (tabs s)" and act: "\<forall>g\<in>set gs. gr_IsActive g" "\<forall>g\<in>set gs'. gr_IsActive g"
    and same: "map grant_key gs' = map grant_key gs"
    and first: "CreateIdempotentBatch env gs s = (Inr rs, s')"
    and again: "CreateIdempotentBatch env gs' s' = (Inr rs', s'')"
    and new_ids: "\<forall>g\<in>set gs'. gr_ID g \<notin> gr_ID ` set (grants (tabs s'))"
  shows "list_all2 (stored (tabs s')) gs rs \<and> tabs s'' = tabs s'
    \<and> map gc_Grant rs' = map gc_Grant rs \<and> list_all gc_Existed rs'"
proof -
  have wf': "db_wf (tabs s')" using CreateIdempotentBatch.ok_inv [OF first wf] .
  have st: "list_all2 (stored (tabs s')) gs rs" by (rule CreateIdempotentBatch_spec(1) [OF first act(1)])
  have con: "\<forall>g\<in>set gs'. grant_conflict g (tabs s')"
  proof
    fix g'
    assume g': "g' \<in> set gs'"
    then have "grant_key g' \<in> set (map grant_key gs')" by simp
    then obtain g where g: "g \<in> set gs" "grant_key g = grant_key g'" unfolding same by auto
    then obtain i where i: "i < length gs" "gs ! i = g" by (auto simp: in_set_conv_nth)
    then have "stored (tabs s') g (rs ! i)" using st by (auto simp: list_all2_conv_all_nth)
    then have x: "gc_Grant (rs ! i) \<in> set (grants (tabs s'))" "gr_IsActive (gc_Grant (rs ! i))"
        "grant_key (gc_Grant (rs ! i)) = grant_key g'" using g by (simp_all add: stored_def)
    moreover have "gr_ID (gc_Grant (rs ! i)) \<noteq> gr_ID g'" using new_ids g' x(1) by (metis imageI)
    ultimately show "grant_conflict g' (tabs s')" using act(2) g' by (auto simp: grant_conflict_def)
  qed
  note again_spec = CreateIdempotentBatch_spec(1) [OF again act(2)] CreateIdempotentBatch_spec(2) [OF again act(2) con]
  have st': "list_all2 (stored (tabs s')) gs' rs'" using again_spec by simp
  have len: "length gs' = length gs" "length rs = length gs" "length rs' = length gs'"
    using arg_cong [OF same, of length] list_all2_lengthD [OF st] list_all2_lengthD [OF st'] by simp_all
  have "gc_Grant (rs' ! i) = gc_Grant (rs ! i)" if "i < length gs" for i
  proof -
    have k: "grant_key (gs' ! i) = grant_key (gs ! i)" using same that len by (metis nth_map)
    have a: "stored (tabs s') (gs ! i) (rs ! i)" using st that len by (simp add: list_all2_conv_all_nth)
    have "stored (tabs s') (gs' ! i) (rs' ! i)" using st' that len by (simp add: list_all2_conv_all_nth)
    then have "stored (tabs s') (gs ! i) (rs' ! i)" using k by (simp add: stored_def)
    from stored_unique [OF wf' this a] show ?thesis .
  qed
  then have "map gc_Grant rs' = map gc_Grant rs" using len by (intro nth_equalityI) simp_all
  with st again_spec(2) show ?thesis by simp
qed

definition sample_batch :: "string \<Rightarrow> Grant list" where
  "sample_batch i = [sample_grant (CHR ''x'' # i) ActionGetObject ''a/'', sample_grant (CHR ''y'' # i) ActionPutObject ''a/'']"

lemma grant_batch_idempotent_witness:
  "let first = CreateIdempotentBatch sample_denv (sample_batch ''1'') sample_db;
       again = CreateIdempotentBatch sample_denv (sample_batch ''2'') (snd first)
   in is_ok (fst first) \<and> is_ok (fst again) \<and> tabs (snd again) = tabs (snd first)
      \<and> list_all gc_Existed (projr (fst again))"
proof -
  let ?first = "CreateIdempotentBatch sample_denv (sample_batch ''1'') sample_db"
  let ?again = "CreateIdempotentBatch sample_denv (sample_batch ''2'') (snd ?first)"
  have ok: "is_ok (fst ?first)" "is_ok (fst ?again)" by code_simp+
  then have e: "?first = (Inr (projr (fst ?first)), snd ?first)" "?again = (Inr (projr (fst ?again)), snd ?again)"
    by (auto simp: is_ok_iff prod_eq_iff)
  have "\<forall>g\<in>set (sample_batch ''1''). gr_IsActive g" "\<forall>g\<in>set (sample_batch ''2''). gr_IsActive g"
    "map grant_key (sample_batch ''2'') = map grant_key (sample_batch ''1'')"
    "\<forall>g\<in>set (sample_batch ''2''). gr_ID g \<notin> gr_ID ` set (grants (tabs (snd ?first)))"
    by code_simp+
  from grant_batch_idempotent [OF sample_db_wf this(1-3) e this(4)] ok show ?thesis by (simp add: Let_def)
qed

text \<open>
  C17: \<open>DeleteWithObjects\<close> either leaves every table as it was or removes the bucket
  together with exactly its objects, which it returns for the clean-up of their files; it
  refuses a bucket with uploads in progress.
\<close>

theorem bucket_deletion_atomic:
  "(case DeleteWithObjects env n s of
      (Inl e, s') \<Rightarrow> tabs s' = tabs s
    | (Inr objs, s') \<Rightarrow>
        objs = filter (\<lambda>x. o_BucketName x = n) (objects (tabs s))
        \<and> objects (tabs s') = filter (\<lambda>x. o_BucketName x \<noteq> n) (objects (tabs s))
        \<and> bucket_exists (tabs s) n \<and> \<not> bucket_exists (tabs s') n
        \<and> (\<forall>m. m \<noteq> n \<longrightarrow> bucket_exists (tabs s') m = bucket_exists (tabs s) m)
        \<and> (\<forall>u\<in>set (uploads (tabs s)). mu_BucketName u \<noteq> n) \<and> uploads (tabs s') = uploads (tabs s))"
proof (cases "DeleteWithObjects env n s")
  case (Pair r s')
  show ?thesis
  proof (cases r)
    case (Inl e)
    with Pair DeleteWithObjects.error_keeps [of env n s e s'] show ?thesis by simp
  next
    case (Inr objs)
    from Pair Inr obtain s1 s2 where b: "tabs s1 = tabs s" "tabs s' = tabs s2"
      and body: "andThen (query env (\<lambda>t. Inr (n \<in> mu_BucketName ` set (uploads t)))) (\<lambda>hasUploads.
        if hasUploads then fail ErrBucketHasMultipartUploads
        else andThen (deleteBucketObjects env n) (\<lambda>objs.
               andThen (sql env (delete_bucket n)) (\<lambda>u. ret objs))) s1 = (Inr objs, s2)"
      unfolding DeleteWithObjects_def by (auto elim!: in_tx_Inr)
    note d = DeleteWithObjects_body [OF body]
    let ?t = "(tabs s)\<lparr>objects := filter (\<lambda>x. o_BucketName x \<noteq> n) (objects (tabs s))\<rparr>"
    have ex: "bucket_exists (tabs s) n"
      and t': "tabs s' = ?t\<lparr>buckets := filter (\<lambda>b. b_Name b \<noteq> n) (buckets (tabs s)),
              grants := filter (\<lambda>g. gr_BucketName g \<noteq> n) (grants (tabs s)),
              share_links := filter (\<lambda>l. sl_BucketName l \<noteq> n) (share_links (tabs s))\<rparr>"
      using d(3) b by (auto simp: delete_bucket_def bucket_exists_def split: if_splits)
    have "objects (tabs s') = filter (\<lambda>x. o_BucketName x \<noteq> n) (objects (tabs s))"
      and "bucket_exists (tabs s') m \<longleftrightarrow> bucket_exists (tabs s) m \<and> m \<noteq> n"
      and "uploads (tabs s') = uploads (tabs s)" for m
      by (auto simp: t' bucket_exists_def)
    with Pair Inr d(1,2) b(1) ex show ?thesis by auto
  qed
qed

lemma bucket_deletion_atomic_witness:
  "let r = DeleteWithObjects sample_denv ''c'' sample_db in
   fst r = Inr [sample_object ''c'' ''k'' ''p3''] \<and> \<not> bucket_exists (tabs (snd r)) ''c''
   \<and> bucket_exists (tabs (snd r)) ''b''"
proof -
  let ?r = "DeleteWithObjects sample_denv ''c'' sample_db"
  have "fst ?r = Inr [sample_object ''c'' ''k'' ''p3'']" "bucket_exists (tabs sample_db) ''b''" by code_simp+
  with bucket_deletion_atomic [where env = sample_denv and n = "''c''" and s = sample_db] show ?thesis
    by (auto simp: Let_def split: prod.splits)
qed

end
