(* ===== verification/Cache.thy ===== *)
theory Cache
  imports CatalogProofs AccountsProofs "HOL-Library.Word" "HOL-Library.Multiset"
begin

text \<open>
  The metadata cache of \<open>internal/metadata/cache.go\<close> and \<open>cache_publication.go\<close>: an LRU list with
  a byte budget, indexed by key, and a revision number that invalidates reads in flight.  A
  \<open>nil\<close> cache behaves as one with \<open>maxBytes\<close> zero.  The list front is the head of \<open>lru\<close>; a list
  element is represented by its entry, the index maps a key to it.  The cached repositories
  write through to SQLite and evict after the write.
\<close>

section \<open>The cache\<close>

datatype cacheKind = cacheKindBucket | cacheKindObject

record cacheKey =
  ck_kind :: cacheKind
  ck_bucketName :: string
  ck_objectKey :: string

record cacheValue =
  cv_bucket :: "Bucket option"
  cv_object :: "Object option"

record cacheEntry =
  ce_key :: cacheKey
  ce_value :: cacheValue
  ce_size :: int

record MetadataCache =
  revision :: "64 word"
  maxBytes :: int
  used :: int
  lru :: "cacheEntry list"
  entries :: "(cacheKey \<times> cacheEntry) list"

definition NewMetadataCache :: "int \<Rightarrow> MetadataCache" where
  "NewMetadataCache n = \<lparr>revision = 0, maxBytes = n, used = 0, lru = [], entries = []\<rparr>"

definition bucketKey :: "string \<Rightarrow> cacheKey" where
  "bucketKey name = \<lparr>ck_kind = cacheKindBucket, ck_bucketName = name, ck_objectKey = []\<rparr>"

definition objectKey :: "string \<Rightarrow> string \<Rightarrow> cacheKey" where
  "objectKey b k = \<lparr>ck_kind = cacheKindObject, ck_bucketName = b, ck_objectKey = k\<rparr>"

definition estimateBucketSize :: "Bucket \<Rightarrow> int" where
  "estimateBucketSize b = 128 + int (length (b_Name b) + length (b_OwnerID b))"

text \<open>
  The map of user metadata is \<open>nil\<close> in a row without any: \<open>upsertObject\<close> stores no text for an empty map and
  \<open>scanObject\<close> makes no map without a text.
\<close>

definition estimateObjectSize :: "Object \<Rightarrow> int" where
  "estimateObjectSize x =
     (let cs = o_Checksums x in
      256 + int (length (o_ID x) + length (o_BucketName x) + length (o_Key x) + length (o_ETag x)
        + length (o_ContentType x) + length (o_StoragePath x) + length (ChecksumCRC32 cs)
        + length (ChecksumCRC32C cs) + length (ChecksumCRC64NVME cs) + length (ChecksumSHA1 cs)
        + length (ChecksumSHA256 cs))
      + (if o_UserMetadata x \<noteq> [] then 64 else 0)
      + sum_list (map (\<lambda>(k, v). 64 + int (length k + length v)) (o_UserMetadata x)))"

definition removeElementLocked :: "cacheEntry \<Rightarrow> MetadataCache \<Rightarrow> MetadataCache" where
  "removeElementLocked e c =
     c\<lparr>entries := filter (\<lambda>x. fst x \<noteq> ce_key e) (entries c), used := used c - ce_size e,
       lru := remove1 e (lru c)\<rparr>"

definition removeLocked :: "cacheKey \<Rightarrow> MetadataCache \<Rightarrow> MetadataCache" where
  "removeLocked k c = (case map_of (entries c) k of None \<Rightarrow> c | Some e \<Rightarrow> removeElementLocked e c)"

text \<open>The loop removes one list element per round, so the length of the list bounds it.\<close>

fun evict_loop :: "nat \<Rightarrow> MetadataCache \<Rightarrow> MetadataCache" where
  "evict_loop 0 c = c"
| "evict_loop (Suc n) c =
     (if used c > maxBytes c then
        (if lru c = [] then c else evict_loop n (removeElementLocked (last (lru c)) c))
      else c)"

definition evictOverBudgetLocked :: "MetadataCache \<Rightarrow> MetadataCache" where
  "evictOverBudgetLocked c = evict_loop (length (lru c)) c"

definition putLocked :: "cacheEntry \<Rightarrow> MetadataCache \<Rightarrow> MetadataCache" where
  "putLocked e c =
     (let c1 = (case map_of (entries c) (ce_key e) of None \<Rightarrow> c | Some old \<Rightarrow> removeElementLocked old c)
      in evictOverBudgetLocked (c1\<lparr>lru := e # lru c1, entries := (ce_key e, e) # entries c1,
           used := used c1 + ce_size e\<rparr>))"

definition MoveToFront :: "cacheEntry \<Rightarrow> MetadataCache \<Rightarrow> MetadataCache" where
  "MoveToFront e c = c\<lparr>lru := e # remove1 e (lru c)\<rparr>"

definition cache_get :: "cacheKey \<Rightarrow> MetadataCache \<Rightarrow> cacheValue option \<times> MetadataCache" where
  "cache_get k c =
     (if maxBytes c \<le> 0 then (None, c)
      else case map_of (entries c) k of
        None \<Rightarrow> (None, c)
      | Some e \<Rightarrow> (Some (ce_value e), MoveToFront e c))"

definition getBucket :: "string \<Rightarrow> MetadataCache \<Rightarrow> Bucket option \<times> MetadataCache" where
  "getBucket name c =
     (case cache_get (bucketKey name) c of
        (None, c1) \<Rightarrow> (None, c1) | (Some v, c1) \<Rightarrow> (cv_bucket v, c1))"

definition getObject :: "string \<Rightarrow> string \<Rightarrow> MetadataCache \<Rightarrow> Object option \<times> MetadataCache" where
  "getObject b k c =
     (case cache_get (objectKey b k) c of
        (None, c1) \<Rightarrow> (None, c1) | (Some v, c1) \<Rightarrow> (cv_object v, c1))"

definition bucket_entry :: "Bucket \<Rightarrow> cacheEntry" where
  "bucket_entry b = \<lparr>ce_key = bucketKey (b_Name b), ce_value = \<lparr>cv_bucket = Some b, cv_object = None\<rparr>,
     ce_size = estimateBucketSize b\<rparr>"

definition object_entry :: "Object \<Rightarrow> cacheEntry" where
  "object_entry x = \<lparr>ce_key = objectKey (o_BucketName x) (o_Key x),
     ce_value = \<lparr>cv_bucket = None, cv_object = Some x\<rparr>, ce_size = estimateObjectSize x\<rparr>"

definition putBucket :: "Bucket \<Rightarrow> MetadataCache \<Rightarrow> MetadataCache" where
  "putBucket b c = (if maxBytes c \<le> 0 then c else putLocked (bucket_entry b) c)"

definition putObject :: "Object \<Rightarrow> MetadataCache \<Rightarrow> MetadataCache" where
  "putObject x c = (if maxBytes c \<le> 0 then c else putLocked (object_entry x) c)"

definition remove_if_object :: "string \<Rightarrow> cacheKey \<times> cacheEntry \<Rightarrow> MetadataCache \<Rightarrow> MetadataCache" where
  "remove_if_object b x c =
     (if ck_kind (fst x) = cacheKindObject \<and> ck_bucketName (fst x) = b then removeLocked (fst x) c else c)"

definition remove_bucket_objects :: "string \<Rightarrow> MetadataCache \<Rightarrow> MetadataCache" where
  "remove_bucket_objects b c = fold (remove_if_object b) (entries c) c"

definition evictBucket :: "string \<Rightarrow> MetadataCache \<Rightarrow> MetadataCache" where
  "evictBucket name c =
     (if maxBytes c \<le> 0 then c
      else remove_bucket_objects name (removeLocked (bucketKey name) (c\<lparr>revision := revision c + 1\<rparr>)))"

definition evictObject :: "string \<Rightarrow> string \<Rightarrow> MetadataCache \<Rightarrow> MetadataCache" where
  "evictObject b k c =
     (if maxBytes c \<le> 0 then c else removeLocked (objectKey b k) (c\<lparr>revision := revision c + 1\<rparr>))"

definition evictObjectsInBucket :: "string \<Rightarrow> MetadataCache \<Rightarrow> MetadataCache" where
  "evictObjectsInBucket b c =
     (if maxBytes c \<le> 0 then c else remove_bucket_objects b (c\<lparr>revision := revision c + 1\<rparr>))"

section \<open>Publication\<close>

definition currentRevision :: "MetadataCache \<Rightarrow> 64 word" where
  "currentRevision c = revision c"

definition publish :: "cacheEntry \<Rightarrow> 64 word \<Rightarrow> MetadataCache \<Rightarrow> bool \<times> MetadataCache" where
  "publish e rv c = (if revision c \<noteq> rv then (False, c) else (True, putLocked e c))"

definition publishBucket :: "Bucket \<Rightarrow> 64 word \<Rightarrow> MetadataCache \<Rightarrow> bool \<times> MetadataCache" where
  "publishBucket b rv c = (if maxBytes c \<le> 0 then (True, c) else publish (bucket_entry b) rv c)"

definition publishObject :: "Object \<Rightarrow> 64 word \<Rightarrow> MetadataCache \<Rightarrow> bool \<times> MetadataCache" where
  "publishObject x rv c = (if maxBytes c \<le> 0 then (True, c) else publish (object_entry x) rv c)"

section \<open>Cached repositories\<close>

text \<open>
  The state the requests share.  A write is its commit followed by its eviction.  A read takes the locks of the cache and
  the connection to the database one after the other, so other requests run in between: the parameter \<open>others\<close>
  is what they do to the shared state at each such point, the \<open>n\<close>-th round of the loop having the four points
  \<open>4 * n, \<dots>, 4 * n + 3\<close>.  The loop retries when another request evicted in the meantime, so it is a partial function; the
  test of the request context after a failed publication is the oracle's next answer.
\<close>

record cached =
  c_cache :: MetadataCache
  c_db :: db

definition write_evict ::
  "(db \<Rightarrow> 'a result \<times> db) \<Rightarrow> (MetadataCache \<Rightarrow> MetadataCache) \<Rightarrow> cached \<Rightarrow> 'a result \<times> cached" where
  "write_evict oper evict s =
     (case oper (c_db s) of (r, d) \<Rightarrow> (r, s\<lparr>c_db := d, c_cache := evict (c_cache s)\<rparr>))"

partial_function (option) cached_read ::
  "(nat \<Rightarrow> 'z cached_scheme \<Rightarrow> 'z cached_scheme) \<Rightarrow> db_env
   \<Rightarrow> (MetadataCache \<Rightarrow> 'a option \<times> MetadataCache) \<Rightarrow> (db \<Rightarrow> 'a result \<times> db)
   \<Rightarrow> ('a \<Rightarrow> 64 word \<Rightarrow> MetadataCache \<Rightarrow> bool \<times> MetadataCache) \<Rightarrow> nat \<Rightarrow> 'z cached_scheme
   \<Rightarrow> ('a result \<times> 'z cached_scheme) option" where
  "cached_read others env get load pub n s =
     (let rv = currentRevision (c_cache s); s1 = others (4 * n) s in
      case get (c_cache s1) of
        (Some x, c1) \<Rightarrow> Some (Inr x, s1\<lparr>c_cache := c1\<rparr>)
      | (None, c1) \<Rightarrow>
          (let s2 = others (4 * n + 1) (s1\<lparr>c_cache := c1\<rparr>) in
           case load (c_db s2) of
             (Inl e, d) \<Rightarrow> Some (Inl e, s2\<lparr>c_db := d\<rparr>)
           | (Inr x, d) \<Rightarrow>
               (let s3 = others (4 * n + 2) (s2\<lparr>c_db := d\<rparr>) in
                case pub x rv (c_cache s3) of (published, c2) \<Rightarrow>
                  (let s4 = s3\<lparr>c_cache := c2\<rparr>; s5 = s4\<lparr>c_db := db_step (c_db s4)\<rparr> in
                   if published then Some (Inr x, s4)
                   else if db_fails env (db_tick (c_db s4)) then Some (Inl ErrContext, s5)
                   else cached_read others env get load pub (n + 1) (others (4 * n + 3) s5)))))"

declare cached_read.simps [code]

definition cached_GetByName ::
  "(nat \<Rightarrow> 'z cached_scheme \<Rightarrow> 'z cached_scheme) \<Rightarrow> db_env \<Rightarrow> string \<Rightarrow> 'z cached_scheme
   \<Rightarrow> (Bucket result \<times> 'z cached_scheme) option" where
  "cached_GetByName others env n = cached_read others env (getBucket n) (GetByName env n) publishBucket 0"

definition cached_GetByKey ::
  "(nat \<Rightarrow> 'z cached_scheme \<Rightarrow> 'z cached_scheme) \<Rightarrow> db_env \<Rightarrow> string \<Rightarrow> string \<Rightarrow> 'z cached_scheme
   \<Rightarrow> (Object result \<times> 'z cached_scheme) option" where
  "cached_GetByKey others env b k = cached_read others env (getObject b k) (GetByKey env b k) publishObject 0"

definition cached_bucket_Create :: "db_env \<Rightarrow> Bucket \<Rightarrow> cached \<Rightarrow> unit result \<times> cached" where
  "cached_bucket_Create env b = write_evict (bucket_Create env b) (evictBucket (b_Name b))"

definition cached_UpdateOwner :: "db_env \<Rightarrow> string \<Rightarrow> string \<Rightarrow> string \<Rightarrow> cached \<Rightarrow> unit result \<times> cached" where
  "cached_UpdateOwner env n u expected = write_evict (UpdateOwner env n u expected) (evictBucket n)"

definition cached_bucket_Delete :: "db_env \<Rightarrow> string \<Rightarrow> cached \<Rightarrow> unit result \<times> cached" where
  "cached_bucket_Delete env n = write_evict (bucket_Delete env n) (evictBucket n)"

definition cached_DeleteWithObjects :: "db_env \<Rightarrow> string \<Rightarrow> cached \<Rightarrow> Object list result \<times> cached" where
  "cached_DeleteWithObjects env n = write_evict (DeleteWithObjects env n) (evictBucket n)"

definition cached_object_Create :: "db_env \<Rightarrow> Object \<Rightarrow> cached \<Rightarrow> unit result \<times> cached" where
  "cached_object_Create env x = write_evict (object_Create env x) (evictObject (o_BucketName x) (o_Key x))"

definition cached_Replace :: "db_env \<Rightarrow> Object \<Rightarrow> string \<Rightarrow> string \<Rightarrow> cached \<Rightarrow> string result \<times> cached" where
  "cached_Replace env x im inm = write_evict (Replace env x im inm) (evictObject (o_BucketName x) (o_Key x))"

definition cached_object_Delete :: "db_env \<Rightarrow> string \<Rightarrow> string \<Rightarrow> cached \<Rightarrow> unit result \<times> cached" where
  "cached_object_Delete env b k = write_evict (object_Delete env b k) (evictObject b k)"

definition cached_DeleteAllInBucket :: "db_env \<Rightarrow> string \<Rightarrow> cached \<Rightarrow> unit result \<times> cached" where
  "cached_DeleteAllInBucket env b = write_evict (DeleteAllInBucket env b) (evictObjectsInBucket b)"

text \<open>A completed upload commits outside the wrapper and invalidates the key afterwards.\<close>

definition InvalidateObjectCache :: "string \<Rightarrow> string \<Rightarrow> cached \<Rightarrow> cached" where
  "InvalidateObjectCache b k s = s\<lparr>c_cache := evictObject b k (c_cache s)\<rparr>"

end
