(* ===== verification/CacheProofs.thy ===== *)
theory CacheProofs
  imports Cache
begin

text \<open>
  Correctness of the metadata cache: the list and its index describe the same entries, the byte
  count is exact and within the budget, and the publication protocol keeps every cached entry
  equal to the row in the database unless a write of that key is between its commit and its
  eviction.
\<close>

section \<open>The data structure\<close>

definition cache_wf :: "MetadataCache \<Rightarrow> bool" where
  "cache_wf c \<longleftrightarrow> distinct (map ce_key (lru c)) \<and> used c = sum_list (map ce_size (lru c))
     \<and> (\<forall>e\<in>set (lru c). 0 \<le> ce_size e)
     \<and> (\<forall>k e. map_of (entries c) k = Some e \<longleftrightarrow> e \<in> set (lru c) \<and> ce_key e = k)"

definition within_budget :: "MetadataCache \<Rightarrow> bool" where
  "within_budget c \<longleftrightarrow> used c \<le> maxBytes c \<or> lru c = []"

lemma entry_filter_key: "map_of (filter (\<lambda>x. fst x \<noteq> k0) xs) k = (if k = k0 then None else map_of xs k)"
  by (induction xs) auto

lemma sum_list_remove1: "x \<in> set xs \<Longrightarrow> sum_list (map f (remove1 x xs)) = sum_list (map f xs) - (f x :: int)"
  by (induction xs) auto

lemma distinct_map_remove1: "distinct (map f xs) \<Longrightarrow> distinct (map f (remove1 x xs))"
  using set_remove1_subset by (induction xs) fastforce+

lemma set_remove1_map: "distinct (map f xs) \<Longrightarrow> set (remove1 x xs) = set xs - {x}"
  by (simp add: distinct_map)

lemma removeElement_wf:
  assumes "cache_wf c" and "e \<in> set (lru c)"
  shows "cache_wf (removeElementLocked e c)"
    and "map_of (entries (removeElementLocked e c)) k = (if k = ce_key e then None else map_of (entries c) k)"
    and "set (lru (removeElementLocked e c)) = set (lru c) - {e}"
proof -
  have d: "distinct (map ce_key (lru c))" using assms(1) by (simp add: cache_wf_def)
  show s: "set (lru (removeElementLocked e c)) = set (lru c) - {e}"
    using set_remove1_map [OF d] by (simp add: removeElementLocked_def)
  show m: "map_of (entries (removeElementLocked e c)) k = (if k = ce_key e then None else map_of (entries c) k)" for k
    by (simp add: removeElementLocked_def entry_filter_key)
  have inj: "x \<in> set (lru c) \<Longrightarrow> ce_key x = ce_key e \<Longrightarrow> x = e" for x
    using d assms(2) by (auto simp: distinct_map inj_on_def)
  have "used (removeElementLocked e c) = sum_list (map ce_size (lru (removeElementLocked e c)))"
    "distinct (map ce_key (lru (removeElementLocked e c)))"
    using assms d by (simp_all add: removeElementLocked_def cache_wf_def sum_list_remove1 distinct_map_remove1)
  moreover have "map_of (entries (removeElementLocked e c)) k = Some x \<longleftrightarrow>
      x \<in> set (lru (removeElementLocked e c)) \<and> ce_key x = k" for k x
    using assms(1) inj unfolding m s cache_wf_def by auto
  moreover have "\<forall>x\<in>set (lru (removeElementLocked e c)). 0 \<le> ce_size x"
    using assms(1) unfolding s cache_wf_def by blast
  ultimately show "cache_wf (removeElementLocked e c)" unfolding cache_wf_def by blast
qed

lemma removeElement_simps [simp]:
  "revision (removeElementLocked e c) = revision c" "maxBytes (removeElementLocked e c) = maxBytes c"
  by (simp_all add: removeElementLocked_def)

lemma wf_lookup: "cache_wf c \<Longrightarrow> map_of (entries c) k = Some e \<Longrightarrow> e \<in> set (lru c) \<and> ce_key e = k"
  by (simp add: cache_wf_def)

lemma removeLocked_wf:
  assumes "cache_wf c"
  shows "cache_wf (removeLocked k0 c)"
    and "map_of (entries (removeLocked k0 c)) k = (if k = k0 then None else map_of (entries c) k)"
    and "set (lru (removeLocked k0 c)) \<subseteq> set (lru c)"
  using wf_lookup [OF assms] removeElement_wf [OF assms] assms
  by (auto simp: removeLocked_def split: option.splits)

lemma removeLocked_simps [simp]:
  "revision (removeLocked k c) = revision c" "maxBytes (removeLocked k c) = maxBytes c"
  by (simp_all add: removeLocked_def split: option.splits)

text \<open>Evicting only forgets entries and ends within the budget.\<close>

definition shrinks :: "MetadataCache \<Rightarrow> MetadataCache \<Rightarrow> bool" where
  "shrinks c c' \<longleftrightarrow> cache_wf c' \<and> revision c' = revision c \<and> maxBytes c' = maxBytes c
     \<and> used c' \<le> used c \<and> (lru c = [] \<longrightarrow> lru c' = [])
     \<and> (\<forall>k e. map_of (entries c') k = Some e \<longrightarrow> map_of (entries c) k = Some e)"

lemma shrinks_refl: "cache_wf c \<Longrightarrow> shrinks c c"
  by (simp add: shrinks_def)

lemma shrinks_trans: "shrinks c c1 \<Longrightarrow> shrinks c1 c2 \<Longrightarrow> shrinks c c2"
  by (simp add: shrinks_def)

lemma shrinks_removeElement: "cache_wf c \<Longrightarrow> e \<in> set (lru c) \<Longrightarrow> shrinks c (removeElementLocked e c)"
  using removeElement_wf [of c e] by (auto simp: shrinks_def cache_wf_def removeElementLocked_def)

lemma shrinks_remove: "cache_wf c \<Longrightarrow> shrinks c (removeLocked k c)"
  using wf_lookup [of c k]
  by (auto simp: removeLocked_def shrinks_refl shrinks_removeElement split: option.splits)

lemma evict_loop_shrinks: "cache_wf c \<Longrightarrow> length (lru c) \<le> n \<Longrightarrow>
    shrinks c (evict_loop n c) \<and> within_budget (evict_loop n c)"
proof (induction n arbitrary: c)
  case 0
  then show ?case by (simp add: shrinks_refl within_budget_def)
next
  case (Suc n)
  show ?case
  proof (cases "used c > maxBytes c \<and> lru c \<noteq> []")
    case True
    let ?c = "removeElementLocked (last (lru c)) c"
    have l: "last (lru c) \<in> set (lru c)" using True by simp
    have "length (lru ?c) \<le> n" using Suc.prems(2) l by (simp add: removeElementLocked_def length_remove1)
    from Suc.IH [OF removeElement_wf(1) [OF Suc.prems(1) l] this] shrinks_removeElement [OF Suc.prems(1) l]
    show ?thesis using True by (auto intro: shrinks_trans)
  next
    case False
    then show ?thesis using Suc.prems by (auto simp: shrinks_refl within_budget_def)
  qed
qed

lemma putLocked_wf:
  assumes "cache_wf c" and "0 \<le> ce_size e"
  shows "cache_wf (putLocked e c)" and "within_budget (putLocked e c)"
    and "revision (putLocked e c) = revision c" and "maxBytes (putLocked e c) = maxBytes c"
    and "map_of (entries (putLocked e c)) k = Some x \<Longrightarrow> x = e \<and> k = ce_key e \<or> map_of (entries c) k = Some x"
proof -
  define c1 where "c1 = (case map_of (entries c) (ce_key e) of None \<Rightarrow> c | Some old \<Rightarrow> removeElementLocked old c)"
  define c2 where "c2 = c1\<lparr>lru := e # lru c1, entries := (ce_key e, e) # entries c1, used := used c1 + ce_size e\<rparr>"
  have c1: "c1 = removeLocked (ce_key e) c" by (simp add: c1_def removeLocked_def)
  have wf1: "cache_wf c1" unfolding c1 by (rule removeLocked_wf(1) [OF assms(1)])
  have none: "map_of (entries c1) (ce_key e) = None" by (simp add: c1 removeLocked_wf(2) [OF assms(1)])
  have new: "ce_key x \<noteq> ce_key e" if "x \<in> set (lru c1)" for x
  proof -
    have "map_of (entries c1) (ce_key x) = Some x" using wf1 that by (simp add: cache_wf_def)
    with none show ?thesis by auto
  qed
  have wf2: "cache_wf c2"
    using wf1 new [symmetric] new none assms(2) unfolding cache_wf_def c2_def by (auto split: if_splits)
  have put: "putLocked e c = evict_loop (length (lru c2)) c2"
    by (simp add: putLocked_def evictOverBudgetLocked_def c1_def [symmetric] c2_def Let_def)
  note s = evict_loop_shrinks [OF wf2 order_refl, folded put]
  show "cache_wf (putLocked e c)" "within_budget (putLocked e c)"
    "revision (putLocked e c) = revision c" "maxBytes (putLocked e c) = maxBytes c"
    using s by (simp_all add: shrinks_def c2_def c1)
  show "x = e \<and> k = ce_key e \<or> map_of (entries c) k = Some x" if "map_of (entries (putLocked e c)) k = Some x"
  proof -
    have "map_of (entries c2) k = Some x" using s that by (simp add: shrinks_def)
    then show ?thesis
      by (auto simp: c2_def c1 removeLocked_wf(2) [OF assms(1)] split: if_splits)
  qed
qed

lemma get_wf:
  assumes "cache_wf c" and "cache_get k c = (r, c')"
  shows "cache_wf c'" and "entries c' = entries c" and "revision c' = revision c" and "maxBytes c' = maxBytes c"
    and "used c' = used c" and "lru c' = [] \<longleftrightarrow> lru c = []"
    and "r = (if maxBytes c \<le> 0 then None else map_option ce_value (map_of (entries c) k))"
proof -
  have m: "cache_wf (MoveToFront e c)" "lru (MoveToFront e c) = [] \<longleftrightarrow> lru c = []" if "e \<in> set (lru c)" for e
    using assms(1) that
    by (auto simp: cache_wf_def MoveToFront_def sum_list_remove1 distinct_map_remove1 set_remove1_map distinct_map inj_on_def)
  show "cache_wf c'" "lru c' = [] \<longleftrightarrow> lru c = []"
    using assms m wf_lookup [OF assms(1)] by (auto simp: cache_get_def split: if_splits option.splits)
  show "entries c' = entries c" "revision c' = revision c" "maxBytes c' = maxBytes c" "used c' = used c"
    "r = (if maxBytes c \<le> 0 then None else map_option ce_value (map_of (entries c) k))"
    using assms(2) by (auto simp: cache_get_def MoveToFront_def split: if_splits option.splits)
qed


section \<open>Evictions\<close>

datatype eviction = EvictBucket string | EvictObject string string | EvictObjects string

definition object_in :: "string \<Rightarrow> cacheKey \<Rightarrow> bool" where
  "object_in b k \<longleftrightarrow> ck_kind k = cacheKindObject \<and> ck_bucketName k = b"

fun run_evict :: "eviction \<Rightarrow> MetadataCache \<Rightarrow> MetadataCache" where
  "run_evict (EvictBucket n) c = evictBucket n c"
| "run_evict (EvictObject b k) c = evictObject b k c"
| "run_evict (EvictObjects b) c = evictObjectsInBucket b c"

fun in_scope :: "eviction \<Rightarrow> cacheKey \<Rightarrow> bool" where
  "in_scope (EvictBucket n) k \<longleftrightarrow> k = bucketKey n \<or> object_in n k"
| "in_scope (EvictObject b o') k \<longleftrightarrow> k = objectKey b o'"
| "in_scope (EvictObjects b) k \<longleftrightarrow> object_in b k"

lemma shrinks_None: "shrinks c c' \<Longrightarrow> map_of (entries c) k = None \<Longrightarrow> map_of (entries c') k = None"
  unfolding shrinks_def by (metis not_None_eq)

lemma remove_if_object_spec:
  assumes "cache_wf c"
  shows "shrinks c (remove_if_object b x c)"
    and "object_in b (fst x) \<Longrightarrow> map_of (entries (remove_if_object b x c)) (fst x) = None"
  using assms by (simp_all add: remove_if_object_def object_in_def shrinks_remove shrinks_refl removeLocked_wf)

lemma remove_fold:
  "cache_wf c \<Longrightarrow> shrinks c (fold (remove_if_object b) xs c)
   \<and> (\<forall>x\<in>set xs. object_in b (fst x) \<longrightarrow> map_of (entries (fold (remove_if_object b) xs c)) (fst x) = None)"
proof (induction xs arbitrary: c)
  case Nil
  then show ?case by (simp add: shrinks_refl)
next
  case (Cons x xs)
  define c1 where "c1 = remove_if_object b x c"
  note s1 = remove_if_object_spec [OF Cons.prems, of b x, folded c1_def]
  then have "cache_wf c1" by (simp add: shrinks_def)
  note IH = Cons.IH [OF this]
  have "object_in b (fst x) \<Longrightarrow> map_of (entries (fold (remove_if_object b) xs c1)) (fst x) = None"
    using IH s1(2) shrinks_None by blast
  moreover have "shrinks c (fold (remove_if_object b) xs c1)"
    using IH s1(1) shrinks_trans by blast
  moreover have "fold (remove_if_object b) (x # xs) c = fold (remove_if_object b) xs c1" by (simp add: c1_def)
  ultimately show ?case using IH by (metis set_ConsD)
qed

lemma remove_bucket_objects_spec:
  assumes "cache_wf c"
  shows "shrinks c (remove_bucket_objects b c)"
    and "object_in b k \<Longrightarrow> map_of (entries (remove_bucket_objects b c)) k = None"
proof -
  note f = remove_fold [OF assms, of b "entries c", folded remove_bucket_objects_def]
  then show s: "shrinks c (remove_bucket_objects b c)" by blast
  show "map_of (entries (remove_bucket_objects b c)) k = None" if "object_in b k"
  proof (cases "map_of (entries c) k")
    case None
    with s show ?thesis by (rule shrinks_None)
  next
    case (Some e)
    then have "(k, e) \<in> set (entries c)" by (rule map_of_SomeD)
    with f that show ?thesis by fastforce
  qed
qed

lemma wf_revision: "cache_wf (c\<lparr>revision := r\<rparr>) = cache_wf c"
  by (simp add: cache_wf_def)

text \<open>An eviction bumps the revision, adds nothing and forgets every key of its scope.\<close>

lemma run_evict_spec:
  assumes "cache_wf c" and "0 < maxBytes c"
  shows "shrinks (c\<lparr>revision := revision c + 1\<rparr>) (run_evict e c)"
    and "in_scope e k \<Longrightarrow> map_of (entries (run_evict e c)) k = None"
proof -
  let ?c = "c\<lparr>revision := revision c + 1\<rparr>"
  have wf: "cache_wf ?c" using assms(1) by (simp add: wf_revision)
  note rm = removeLocked_wf(1,2) [OF wf] shrinks_remove [OF wf]
  note rb = remove_bucket_objects_spec [OF wf] remove_bucket_objects_spec [OF rm(1)]
  show "shrinks ?c (run_evict e c)"
    using assms(2) rm(3) rb(1) shrinks_trans [OF rm(3) rb(3)]
    by (cases e) (simp_all add: evictBucket_def evictObject_def evictObjectsInBucket_def)
  show "map_of (entries (run_evict e c)) k = None" if "in_scope e k"
  proof (cases e)
    case (EvictBucket n)
    show ?thesis
    proof (cases "k = bucketKey n")
      case True
      then have "map_of (entries (removeLocked (bucketKey n) ?c)) k = None" by (simp add: rm)
      with shrinks_None [OF rb(3)] EvictBucket assms(2) show ?thesis by (simp add: evictBucket_def)
    next
      case False
      with that EvictBucket rb(4) assms(2) show ?thesis by (simp add: evictBucket_def)
    qed
  next
    case (EvictObject b o')
    with that rm(2) assms(2) show ?thesis by (simp add: evictObject_def)
  next
    case (EvictObjects b)
    with that rb(2) assms(2) show ?thesis by (simp add: evictObjectsInBucket_def)
  qed
qed

section \<open>What the database holds under a key\<close>

definition stored_bucket :: "string \<Rightarrow> tables \<Rightarrow> Bucket option" where
  "stored_bucket n t = find (\<lambda>b. b_Name b = n) (buckets t)"

definition stored_value :: "tables \<Rightarrow> cacheKey \<Rightarrow> cacheValue option" where
  "stored_value t k =
     (case ck_kind k of
        cacheKindBucket \<Rightarrow>
          (if ck_objectKey k = []
           then map_option (\<lambda>b. \<lparr>cv_bucket = Some b, cv_object = None\<rparr>) (stored_bucket (ck_bucketName k) t) else None)
      | cacheKindObject \<Rightarrow>
          map_option (\<lambda>x. \<lparr>cv_bucket = None, cv_object = Some x\<rparr>) (find_object (ck_bucketName k) (ck_objectKey k) t))"

lemma stored_value_cong:
  "objects t' = objects t \<Longrightarrow> buckets t' = buckets t \<Longrightarrow> stored_value t' k = stored_value t k"
  by (simp add: stored_value_def stored_bucket_def find_object_def split: cacheKind.splits)

text \<open>The law of a write the cached repositories make: it changes only rows its eviction covers.\<close>

locale write_through =
  fixes oper :: "db \<Rightarrow> 'a result \<times> db"
    and evict :: eviction
  assumes only_scope: "oper s = (r, s') \<Longrightarrow> \<not> in_scope evict k \<Longrightarrow> stored_value (tabs s') k = stored_value (tabs s) k"

text \<open>Statements, then operations.\<close>

lemma find_map_frame: "(\<And>x. P (h x) = P x) \<Longrightarrow> (\<And>x. P x \<Longrightarrow> h x = x) \<Longrightarrow> find P (map h xs) = find P xs"
  by (induction xs) auto

lemma find_filter_frame: "(\<And>x. P x \<Longrightarrow> Q x) \<Longrightarrow> find P (filter Q xs) = find P xs"
  by (induction xs) auto

lemma key_simps [simp]:
  "bucketKey m = bucketKey n \<longleftrightarrow> m = n" "objectKey b k = objectKey b' k' \<longleftrightarrow> b = b' \<and> k = k'"
  "bucketKey n \<noteq> objectKey b k" "objectKey b k \<noteq> bucketKey n"
  "object_in b (objectKey b' k) \<longleftrightarrow> b' = b" "\<not> object_in b (bucketKey n)"
  by (auto simp: bucketKey_def objectKey_def object_in_def)

definition covered :: "eviction \<Rightarrow> (tables \<Rightarrow> 'a result \<times> tables) \<Rightarrow> bool" where
  "covered e stmt \<longleftrightarrow> (\<forall>t k. \<not> in_scope e k \<longrightarrow> stored_value (snd (stmt t)) k = stored_value t k)"

lemma coveredI:
  assumes "\<And>t n. \<not> in_scope e (bucketKey n) \<Longrightarrow> stored_bucket n (snd (stmt t)) = stored_bucket n t"
    and "\<And>t b k. \<not> in_scope e (objectKey b k) \<Longrightarrow> find_object b k (snd (stmt t)) = find_object b k t"
  shows "covered e stmt"
  unfolding covered_def
proof (intro allI impI)
  fix t k
  assume out: "\<not> in_scope e k"
  show "stored_value (snd (stmt t)) k = stored_value t k"
  proof (cases "ck_kind k")
    case cacheKindBucket
    then have "ck_objectKey k = [] \<Longrightarrow> k = bucketKey (ck_bucketName k)" by (simp add: bucketKey_def)
    with out assms(1) [of "ck_bucketName k" t] cacheKindBucket show ?thesis by (auto simp: stored_value_def)
  next
    case cacheKindObject
    then have "k = objectKey (ck_bucketName k) (ck_objectKey k)" by (simp add: objectKey_def)
    with out assms(2) [of "ck_bucketName k" "ck_objectKey k" t] cacheKindObject show ?thesis
      by (simp add: stored_value_def)
  qed
qed

lemma covered_sql: "covered e stmt \<Longrightarrow> write_through (sql env stmt) e"
  by unfold_locales (auto simp: covered_def sql_def split: if_splits prod.splits sum.splits, metis snd_conv)

lemma covered_tx:
  assumes "\<And>s x s' k. body s = (Inr x, s') \<Longrightarrow> \<not> in_scope e k \<Longrightarrow> stored_value (tabs s') k = stored_value (tabs s) k"
  shows "write_through (in_tx env body) e"
proof
  fix s r s' k
  assume run: "in_tx env body s = (r, s')" and out: "\<not> in_scope e k"
  show "stored_value (tabs s') k = stored_value (tabs s) k"
  proof (cases r)
    case (Inl err)
    with run in_tx_Inl show ?thesis by metis
  next
    case (Inr x)
    with run obtain s1 s2 where "tabs s1 = tabs s" "body s1 = (Inr x, s2)" "tabs s' = tabs s2"
      by (auto elim: in_tx_Inr)
    with assms out show ?thesis by metis
  qed
qed

lemma covered_insert_bucket: "covered (EvictBucket (b_Name b)) (insert_bucket b)"
  by (rule coveredI) (simp_all add: insert_bucket_def stored_bucket_def find_object_def find_snoc)

lemma covered_update_owner: "covered (EvictBucket n) (update_owner n own ex)"
proof (rule coveredI)
  have "find (\<lambda>b. b_Name b = m) (map (\<lambda>b. if b_Name b = n \<and> b_OwnerID b = ex then b\<lparr>b_OwnerID := own\<rparr> else b) bs)
      = find (\<lambda>b. b_Name b = m) bs" if "m \<noteq> n" for m and bs :: "Bucket list"
    using that by (intro find_map_frame) auto
  then show "stored_bucket m (snd (update_owner n own ex t)) = stored_bucket m t"
    if "\<not> in_scope (EvictBucket n) (bucketKey m)" for t m
    using that by (simp add: update_owner_def stored_bucket_def)
qed (simp add: update_owner_def find_object_def)

lemma covered_delete_bucket: "covered (EvictBucket n) (delete_bucket n)"
  by (rule coveredI) (simp_all add: delete_bucket_def stored_bucket_def find_object_def find_filter_frame)

lemma covered_upsert: "covered (EvictObject (o_BucketName x) (o_Key x)) (upsert_object x)"
proof (rule coveredI)
  fix t b k
  assume "\<not> in_scope (EvictObject (o_BucketName x) (o_Key x)) (objectKey b k)"
  then have ne: "\<not> (o_BucketName x = b \<and> o_Key x = k)" by auto
  then have "find (\<lambda>y. o_BucketName y = b \<and> o_Key y = k) (map (\<lambda>y. if obj_key y = obj_key x then x else y) xs)
      = find (\<lambda>y. o_BucketName y = b \<and> o_Key y = k) xs" for xs
    by (intro find_map_frame) (auto simp: obj_key_def)
  with ne show "find_object b k (snd (upsert_object x t)) = find_object b k t"
    by (simp add: upsert_object_def find_object_def find_snoc)
qed (simp add: upsert_object_def stored_bucket_def)

lemma covered_delete_object:
  "covered (EvictObject b o') (\<lambda>t. if find_object b o' t = None then (Inl ErrObjectNotFound, t)
     else (Inr (), t\<lparr>objects := filter (\<lambda>x. \<not> (o_BucketName x = b \<and> o_Key x = o')) (objects t)\<rparr>))"
proof (rule coveredI)
  fix t b' k
  assume "\<not> in_scope (EvictObject b o') (objectKey b' k)"
  then have "find (\<lambda>x. o_BucketName x = b' \<and> o_Key x = k) (filter (\<lambda>x. \<not> (o_BucketName x = b \<and> o_Key x = o')) xs)
      = find (\<lambda>x. o_BucketName x = b' \<and> o_Key x = k) xs" for xs :: "Object list"
    by (intro find_filter_frame) auto
  then show "find_object b' k (snd (if find_object b o' t = None then (Inl ErrObjectNotFound, t)
     else (Inr (), t\<lparr>objects := filter (\<lambda>x. \<not> (o_BucketName x = b \<and> o_Key x = o')) (objects t)\<rparr>))) = find_object b' k t"
    unfolding find_object_def by simp
qed (simp add: stored_bucket_def)

lemma covered_delete_all:
  "covered (EvictObjects b) (\<lambda>t. (Inr (), t\<lparr>objects := filter (\<lambda>x. o_BucketName x \<noteq> b) (objects t)\<rparr>))"
proof (rule coveredI)
  fix t b' k
  assume "\<not> in_scope (EvictObjects b) (objectKey b' k)"
  then have "find (\<lambda>x. o_BucketName x = b' \<and> o_Key x = k) (filter (\<lambda>x. o_BucketName x \<noteq> b) xs)
      = find (\<lambda>x. o_BucketName x = b' \<and> o_Key x = k) xs" for xs
    by (intro find_filter_frame) auto
  then show "find_object b' k (snd (Inr () :: unit result, t\<lparr>objects := filter (\<lambda>x. o_BucketName x \<noteq> b) (objects t)\<rparr>)) = find_object b' k t"
    by (simp add: find_object_def)
qed (simp add: stored_bucket_def)

interpretation wt_bucket_Create: write_through "bucket_Create env b" "EvictBucket (b_Name b)" for env b
  unfolding bucket_Create_def by (rule covered_sql [OF covered_insert_bucket])

interpretation wt_UpdateOwner: write_through "UpdateOwner env n own ex" "EvictBucket n" for env n own ex
  unfolding UpdateOwner_def by (rule covered_sql [OF covered_update_owner])

interpretation wt_bucket_Delete: write_through "bucket_Delete env n" "EvictBucket n" for env n
  unfolding bucket_Delete_def by (rule covered_sql [OF covered_delete_bucket])

interpretation wt_object_Create: write_through "object_Create env x" "EvictObject (o_BucketName x) (o_Key x)" for env x
proof -
  have k: "o_BucketName (with_times now x) = o_BucketName x" "o_Key (with_times now x) = o_Key x" for now
    by (simp_all add: with_times_def Let_def)
  show "write_through (object_Create env x) (EvictObject (o_BucketName x) (o_Key x))"
  proof
    fix s r s' k
    assume "object_Create env x s = (r, s')" "\<not> in_scope (EvictObject (o_BucketName x) (o_Key x)) k"
    then show "stored_value (tabs s') k = stored_value (tabs s) k"
      using write_through.only_scope [OF covered_sql [OF covered_upsert [of "with_times (Now env s) x"]]]
      unfolding object_Create_def upsertObject_def k by blast
  qed
qed

interpretation wt_object_Delete: write_through "object_Delete env b k" "EvictObject b k" for env b k
  unfolding object_Delete_def by (rule covered_sql [OF covered_delete_object])

interpretation wt_DeleteAllInBucket: write_through "DeleteAllInBucket env b" "EvictObjects b" for env b
  unfolding DeleteAllInBucket_def by (rule covered_sql [OF covered_delete_all])

lemma replace_body_scope:
  assumes "replace_body env x im inm s = (Inr old, s')" and "\<not> in_scope (EvictObject (o_BucketName x) (o_Key x)) k"
  shows "stored_value (tabs s') k = stored_value (tabs s) k"
  using assms(1)
proof (rule replace_body_Inr)
  fix v y
  assume y: "obj_key y = obj_key x" and up: "upsert_object y (tabs s) = (Inr (), tabs s')"
  have "\<not> in_scope (EvictObject (o_BucketName y) (o_Key y)) k" using assms(2) y by (simp add: obj_key_def)
  with covered_upsert [of y] up show ?thesis unfolding covered_def by (metis snd_conv)
qed

interpretation wt_Replace: write_through "Replace env x im inm" "EvictObject (o_BucketName x) (o_Key x)" for env x im inm
  unfolding Replace_def by (rule covered_tx) (rule replace_body_scope)

interpretation wt_CompleteUpload: write_through "CompleteUpload env x i im inm" "EvictObject (o_BucketName x) (o_Key x)"
  for env x i im inm
  unfolding CompleteUpload_def
proof (rule covered_tx)
  fix s old s' k
  assume body: "complete_body env x i im inm s = (Inr old, s')" and out: "\<not> in_scope (EvictObject (o_BucketName x) (o_Key x)) k"
  from body obtain s1 s2 where "tabs s1 = tabs s" "replace_body env x im inm s1 = (Inr old, s2)" "tabs s' = delete_upload i (tabs s2)"
    by (auto elim!: complete_body_Inr)
  then show "stored_value (tabs s') k = stored_value (tabs s) k"
    using replace_body_scope [OF _ out] stored_value_cong [of "delete_upload i (tabs s2)" "tabs s2"]
    by (simp add: delete_upload_def)
qed

interpretation wt_DeleteWithObjects: write_through "DeleteWithObjects env n" "EvictBucket n" for env n
  unfolding DeleteWithObjects_def
proof (rule covered_tx)
  fix s objs s' k
  assume "andThen (query env (\<lambda>t. Inr (n \<in> mu_BucketName ` set (uploads t)))) (\<lambda>hasUploads.
        if hasUploads then fail ErrBucketHasMultipartUploads
        else andThen (deleteBucketObjects env n) (\<lambda>objs.
               andThen (sql env (delete_bucket n)) (\<lambda>u. ret objs))) s = (Inr objs, s')"
    and out: "\<not> in_scope (EvictBucket n) k"
  note d = DeleteWithObjects_body(3) [OF this(1)]
  let ?t = "(tabs s)\<lparr>objects := filter (\<lambda>x. o_BucketName x \<noteq> n) (objects (tabs s))\<rparr>"
  have "stored_value (tabs s') k = stored_value ?t k"
    using covered_delete_bucket [of n] out d unfolding covered_def by (metis snd_conv)
  also have "\<dots> = stored_value (tabs s) k"
    using covered_delete_all [of n] out unfolding covered_def by auto
  finally show "stored_value (tabs s') k = stored_value (tabs s) k" .
qed


section \<open>The publication protocol\<close>

text \<open>
  Interleaved requests: a reader notes the revision, misses, loads the row and publishes it; a
  writer commits and evicts.  Each of these is one step, other requests take theirs in between.
  \<open>loaded\<close> holds the entries read and not yet published with the revision noted before, \<open>pending\<close>
  the evictions whose write has committed, \<open>evictions\<close> counts those done: fewer than \<open>2 ^ 64\<close>, so
  that a revision number does not come round again.
\<close>

record proto = cached +
  started :: "64 word set"
  loaded :: "(64 word \<times> cacheEntry) set"
  pending :: "eviction multiset"
  evictions :: nat

inductive committed :: "eviction \<Rightarrow> db \<Rightarrow> db \<Rightarrow> bool" where
  "bucket_Create env b s = (r1, s') \<Longrightarrow> committed (EvictBucket (b_Name b)) s s'"
| "UpdateOwner env n own ex s = (r1, s') \<Longrightarrow> committed (EvictBucket n) s s'"
| "bucket_Delete env n s = (r1, s') \<Longrightarrow> committed (EvictBucket n) s s'"
| "DeleteWithObjects env n s = (r2, s') \<Longrightarrow> committed (EvictBucket n) s s'"
| "object_Create env x s = (r1, s') \<Longrightarrow> committed (EvictObject (o_BucketName x) (o_Key x)) s s'"
| "Replace env x im inm s = (r3, s') \<Longrightarrow> committed (EvictObject (o_BucketName x) (o_Key x)) s s'"
| "object_Delete env b k s = (r1, s') \<Longrightarrow> committed (EvictObject b k) s s'"
| "DeleteAllInBucket env b s = (r1, s') \<Longrightarrow> committed (EvictObjects b) s s'"
| "CompleteUpload env x i im inm s = (r3, s') \<Longrightarrow> committed (EvictObject (o_BucketName x) (o_Key x)) s s'"

inductive cache_step :: "proto \<Rightarrow> proto \<Rightarrow> bool" where
  start: "cache_step s (s\<lparr>started := insert (currentRevision (c_cache s)) (started s)\<rparr>)"
| hit: "cache_get k (c_cache s) = (v, c') \<Longrightarrow> cache_step s (s\<lparr>c_cache := c'\<rparr>)"
| load_object: "rv \<in> started s \<Longrightarrow> GetByKey env b k (c_db s) = (Inr x, d) \<Longrightarrow>
    cache_step s (s\<lparr>c_db := d, loaded := insert (rv, object_entry x) (loaded s)\<rparr>)"
| load_bucket: "rv \<in> started s \<Longrightarrow> GetByName env n (c_db s) = (Inr b, d) \<Longrightarrow>
    cache_step s (s\<lparr>c_db := d, loaded := insert (rv, bucket_entry b) (loaded s)\<rparr>)"
| publish_object: "(rv, object_entry x) \<in> loaded s \<Longrightarrow> publishObject x rv (c_cache s) = (ok, c') \<Longrightarrow>
    cache_step s (s\<lparr>c_cache := c'\<rparr>)"
| publish_bucket: "(rv, bucket_entry b) \<in> loaded s \<Longrightarrow> publishBucket b rv (c_cache s) = (ok, c') \<Longrightarrow>
    cache_step s (s\<lparr>c_cache := c'\<rparr>)"
| commit: "committed e (c_db s) d \<Longrightarrow> cache_step s (s\<lparr>c_db := d, pending := add_mset e (pending s)\<rparr>)"
| evict: "e \<in># pending s \<Longrightarrow> Suc (evictions s) < 2 ^ 64 \<Longrightarrow>
    cache_step s (s\<lparr>c_cache := run_evict e (c_cache s), pending := pending s - {#e#}, evictions := Suc (evictions s)\<rparr>)"
| other: "objects (tabs d) = objects (tabs (c_db s)) \<Longrightarrow> buckets (tabs d) = buckets (tabs (c_db s)) \<Longrightarrow>
    cache_step s (s\<lparr>c_db := d\<rparr>)"

lemma committed_scope:
  assumes "committed e s s'" and "\<not> in_scope e k"
  shows "stored_value (tabs s') k = stored_value (tabs s) k"
  using assms(1)
proof cases
  case (1 env b r)
  then show ?thesis using wt_bucket_Create.only_scope [of env b s r s' k] assms(2) by simp
next
  case (2 env n own ex r)
  then show ?thesis using wt_UpdateOwner.only_scope [of env n own ex s r s' k] assms(2) by simp
next
  case (3 env n r)
  then show ?thesis using wt_bucket_Delete.only_scope [of env n s r s' k] assms(2) by simp
next
  case (4 env n r)
  then show ?thesis using wt_DeleteWithObjects.only_scope [of env n s r s' k] assms(2) by simp
next
  case (5 env x r)
  then show ?thesis using wt_object_Create.only_scope [of env x s r s' k] assms(2) by simp
next
  case (6 env x im inm r)
  then show ?thesis using wt_Replace.only_scope [of env x im inm s r s' k] assms(2) by simp
next
  case (7 env b k r)
  then show ?thesis using wt_object_Delete.only_scope [of env b k s r s'] assms(2) by simp
next
  case (8 env b r)
  then show ?thesis using wt_DeleteAllInBucket.only_scope [of env b s r s' k] assms(2) by simp
next
  case (9 env x i im inm r)
  then show ?thesis using wt_CompleteUpload.only_scope [of env x i im inm s r s' k] assms(2) by simp
qed

definition fresh_entry :: "proto \<Rightarrow> cacheEntry \<Rightarrow> bool" where
  "fresh_entry s e \<longleftrightarrow> stored_value (tabs (c_db s)) (ce_key e) = Some (ce_value e)
     \<or> (\<exists>p\<in>#pending s. in_scope p (ce_key e))"

definition coherent :: "proto \<Rightarrow> bool" where
  "coherent s \<longleftrightarrow> cache_wf (c_cache s) \<and> within_budget (c_cache s) \<and> 0 < maxBytes (c_cache s)
     \<and> evictions s < 2 ^ 64 \<and> revision (c_cache s) = of_nat (evictions s)
     \<and> (\<forall>rv\<in>started s. \<exists>n\<le>evictions s. rv = of_nat n)
     \<and> (\<forall>k e. map_of (entries (c_cache s)) k = Some e \<longrightarrow> fresh_entry s e)
     \<and> (\<forall>rv e. (rv, e) \<in> loaded s \<longrightarrow> (\<exists>n\<le>evictions s. rv = of_nat n) \<and> 0 \<le> ce_size e
          \<and> (rv = revision (c_cache s) \<longrightarrow> fresh_entry s e))"


lemma of_nat_word_inj: "m < 2 ^ 64 \<Longrightarrow> n < 2 ^ 64 \<Longrightarrow> (of_nat m :: 64 word) = of_nat n \<Longrightarrow> m = n"
  by (drule arg_cong [of _ _ unat]) (simp add: unat_of_nat)

lemma coherentD:
  assumes "coherent s"
  shows "cache_wf (c_cache s)" "within_budget (c_cache s)" "0 < maxBytes (c_cache s)"
    "evictions s < 2 ^ 64" "revision (c_cache s) = of_nat (evictions s)"
    "rv \<in> started s \<Longrightarrow> \<exists>n\<le>evictions s. rv = of_nat n"
    "map_of (entries (c_cache s)) k = Some e \<Longrightarrow> fresh_entry s e"
    "(rv, e) \<in> loaded s \<Longrightarrow> \<exists>n\<le>evictions s. rv = of_nat n"
    "(rv, e) \<in> loaded s \<Longrightarrow> rv = revision (c_cache s) \<Longrightarrow> fresh_entry s e"
    "(rv, e) \<in> loaded s \<Longrightarrow> 0 \<le> ce_size e"
  using assms by (auto simp: coherent_def)

text \<open>Steps that change the cache only.\<close>

lemma coherent_cache:
  assumes "coherent s" and "cache_wf c" and "within_budget c" and "maxBytes c = maxBytes (c_cache s)"
    and "revision c = revision (c_cache s)"
    and "\<And>k e. map_of (entries c) k = Some e \<Longrightarrow> fresh_entry s e"
  shows "coherent (s\<lparr>c_cache := c\<rparr>)"
  using coherentD [OF assms(1)] assms(2-) by (auto simp: coherent_def fresh_entry_def)

lemma fresh_commit:
  "committed p (c_db s) d \<Longrightarrow> fresh_entry s e \<Longrightarrow>
   fresh_entry (s\<lparr>c_db := d, pending := add_mset p (pending s)\<rparr>) e"
  using committed_scope [of p "c_db s" d "ce_key e"] by (auto simp: fresh_entry_def)

lemma fresh_db:
  "stored_value (tabs d) = stored_value (tabs (c_db s)) \<Longrightarrow>
   fresh_entry (s\<lparr>c_db := d\<rparr>) e = fresh_entry s e"
  by (simp add: fresh_entry_def)

lemma GetByKey_stored:
  assumes "GetByKey env b k s = (Inr x, s')"
  shows "stored_value (tabs s) (ce_key (object_entry x)) = Some (ce_value (object_entry x))"
    and "tabs s' = tabs s" and "find_object b k (tabs s) = Some x" and "ce_key (object_entry x) = objectKey b k"
proof -
  from assms have f: "find_object b k (tabs s) = Some x" and t: "tabs s' = tabs s"
    by (auto simp: GetByKey_def dest!: query_Inr split: option.splits)
  then have "o_BucketName x = b" "o_Key x = k" by (auto simp: find_object_def dest: find_SomeD)
  with f show "stored_value (tabs s) (ce_key (object_entry x)) = Some (ce_value (object_entry x))"
    and "ce_key (object_entry x) = objectKey b k"
    by (simp_all add: stored_value_def object_entry_def objectKey_def)
  show "tabs s' = tabs s" "find_object b k (tabs s) = Some x" using t f by simp_all
qed

lemma GetByName_stored:
  assumes "GetByName env n s = (Inr b, s')"
  shows "stored_value (tabs s) (ce_key (bucket_entry b)) = Some (ce_value (bucket_entry b))"
    and "tabs s' = tabs s" and "stored_bucket n (tabs s) = Some b" and "ce_key (bucket_entry b) = bucketKey n"
proof -
  from assms have f: "stored_bucket n (tabs s) = Some b" and t: "tabs s' = tabs s"
    by (auto simp: GetByName_def stored_bucket_def dest!: query_Inr split: option.splits)
  then have "b_Name b = n" by (auto simp: stored_bucket_def dest: find_SomeD)
  with f show "stored_value (tabs s) (ce_key (bucket_entry b)) = Some (ce_value (bucket_entry b))"
    and "ce_key (bucket_entry b) = bucketKey n"
    by (simp_all add: stored_value_def bucket_entry_def bucketKey_def)
  show "tabs s' = tabs s" "stored_bucket n (tabs s) = Some b" using t f by simp_all
qed

lemma coherent_load:
  assumes "coherent s" and "rv \<in> started s" and "tabs d = tabs (c_db s)"
    and "stored_value (tabs (c_db s)) (ce_key e) = Some (ce_value e)" and "0 \<le> ce_size e"
  shows "coherent (s\<lparr>c_db := d, loaded := insert (rv, e) (loaded s)\<rparr>)"
  using coherentD [OF assms(1)] assms(2-) by (auto simp: coherent_def fresh_entry_def)

lemma coherent_publish:
  assumes "coherent s" and "(rv, e) \<in> loaded s" and "publish e rv (c_cache s) = (ok, c')"
  shows "coherent (s\<lparr>c_cache := c'\<rparr>)"
proof (cases "revision (c_cache s) = rv")
  case True
  then have c: "c' = putLocked e (c_cache s)" using assms(3) by (simp add: publish_def)
  note D = coherentD [OF assms(1)]
  show ?thesis unfolding c
  proof (rule coherent_cache [OF assms(1)])
    show "fresh_entry s x" if "map_of (entries (putLocked e (c_cache s))) k = Some x" for k x
      using putLocked_wf(5) [OF D(1) D(10) [OF assms(2)] that] D(7) D(9) [OF assms(2)] True by auto
  qed (use putLocked_wf [OF D(1) D(10) [OF assms(2)]] in simp_all)
next
  case False
  then have "c' = c_cache s" using assms(3) by (simp add: publish_def)
  then show ?thesis using assms(1) by simp
qed

lemma coherent_evict:
  assumes "coherent s" and "p \<in># pending s" and "Suc (evictions s) < 2 ^ 64"
  shows "coherent (s\<lparr>c_cache := run_evict p (c_cache s), pending := pending s - {#p#}, evictions := Suc (evictions s)\<rparr>)"
    (is "coherent ?s")
proof -
  note D = coherentD [OF assms(1)]
  note ev = run_evict_spec [OF D(1,3), of p]
  have keep: "fresh_entry ?s e" if "fresh_entry s e" "\<not> in_scope p (ce_key e)" for e
  proof -
    have "\<exists>q\<in>#pending s - {#p#}. in_scope q (ce_key e)" if "q \<in># pending s" "in_scope q (ce_key e)" for q
      using that \<open>\<not> in_scope p (ce_key e)\<close> by (intro bexI [of _ q]) (auto simp: in_diff_count)
    with that(1) show ?thesis by (auto simp: fresh_entry_def)
  qed
  have wf: "cache_wf (run_evict p (c_cache s))" and rev1: "revision (run_evict p (c_cache s)) = of_nat (Suc (evictions s))"
    and mx: "maxBytes (run_evict p (c_cache s)) = maxBytes (c_cache s)"
    and sub: "\<And>k e. map_of (entries (run_evict p (c_cache s))) k = Some e \<Longrightarrow> map_of (entries (c_cache s)) k = Some e"
    using ev(1) D(5) by (simp_all add: shrinks_def)
  have cached: "fresh_entry ?s e" if m: "map_of (entries (run_evict p (c_cache s))) k = Some e" for k e
  proof (rule keep)
    show "fresh_entry s e" using D(7) sub [OF m] by blast
    have "ce_key e = k" using wf_lookup [OF D(1) sub [OF m]] by simp
    then show "\<not> in_scope p (ce_key e)" using ev(2) [of k] m by auto
  qed
  have old: "rv \<noteq> revision (c_cache ?s)" if "(rv, e) \<in> loaded s" for rv e
  proof
    assume eq: "rv = revision (c_cache ?s)"
    from D(8) [OF that] obtain n where n: "n \<le> evictions s" "rv = of_nat n" by blast
    then have "(of_nat n :: 64 word) = of_nat (Suc (evictions s))" using eq rev1 by simp
    with of_nat_word_inj [of n "Suc (evictions s)"] n(1) assms(3) show False by simp
  qed
  have budget: "within_budget (run_evict p (c_cache s))"
    using ev(1) D(2) by (auto simp: shrinks_def within_budget_def)
  have st: "\<exists>n\<le>Suc (evictions s). rv = of_nat n" if "rv \<in> started s \<or> (\<exists>e. (rv, e) \<in> loaded s)" for rv
    using D(6,8) that by (meson le_SucI)
  show ?thesis
    unfolding coherent_def using wf rev1 mx D(3) D(10) assms(3) cached old budget st by auto
qed


lemma entry_size: "0 \<le> ce_size (object_entry x)" "0 \<le> ce_size (bucket_entry b)"
proof -
  have "0 \<le> sum_list (map (\<lambda>(k, v). 64 + int (length k + length v)) (o_UserMetadata x))"
    by (rule sum_list_nonneg) auto
  then show "0 \<le> ce_size (object_entry x)" "0 \<le> ce_size (bucket_entry b)"
    by (simp_all add: object_entry_def bucket_entry_def estimateObjectSize_def estimateBucketSize_def Let_def)
qed

lemma coherent_step:
  assumes "cache_step s s'" and "coherent s"
  shows "coherent s'"
  using assms(1)
proof cases
  case start
  then show ?thesis using coherentD [OF assms(2)] by (auto simp: coherent_def currentRevision_def fresh_entry_def)
next
  case (hit k v c')
  note D = coherentD [OF assms(2)]
  note g = get_wf [OF D(1) hit(2)]
  show ?thesis unfolding hit(1)
    by (rule coherent_cache [OF assms(2)]) (use g D in \<open>auto simp: within_budget_def\<close>)
next
  case (load_object rv env b k x d)
  note G = GetByKey_stored [OF load_object(3)]
  show ?thesis unfolding load_object(1)
    by (rule coherent_load [OF assms(2) load_object(2) G(2) G(1) entry_size(1)])
next
  case (load_bucket rv env n b d)
  note G = GetByName_stored [OF load_bucket(3)]
  show ?thesis unfolding load_bucket(1)
    by (rule coherent_load [OF assms(2) load_bucket(2) G(2) G(1) entry_size(2)])
next
  case (publish_object rv x ok c')
  then show ?thesis
    using coherent_publish [OF assms(2)] coherentD(3) [OF assms(2)] by (auto simp: publishObject_def)
next
  case (publish_bucket rv b ok c')
  then show ?thesis
    using coherent_publish [OF assms(2)] coherentD(3) [OF assms(2)] by (auto simp: publishBucket_def)
next
  case (commit e d)
  note D = coherentD [OF assms(2)]
  show ?thesis
    unfolding coherent_def commit(1) using D fresh_commit [OF commit(2)] by simp
next
  case (evict e)
  then show ?thesis using coherent_evict [OF assms(2)] by blast
next
  case (other d)
  have "stored_value (tabs d) = stored_value (tabs (c_db s))" using other by (intro ext stored_value_cong)
  note f = fresh_db [OF this]
  show ?thesis
    unfolding coherent_def other(1) using coherentD [OF assms(2)] f by simp
qed

section \<open>Properties\<close>

definition initial_proto :: "int \<Rightarrow> db \<Rightarrow> proto" where
  "initial_proto n d = \<lparr>c_cache = NewMetadataCache n, c_db = d, started = {}, loaded = {}, pending = {#}, evictions = 0\<rparr>"

lemma coherent_initial: "0 < n \<Longrightarrow> coherent (initial_proto n d)"
  by (simp add: coherent_def initial_proto_def NewMetadataCache_def cache_wf_def within_budget_def)

lemma publish_maxBytes:
  assumes "coherent s" and "(rv, e) \<in> loaded s" and "publish e rv (c_cache s) = (ok, c')"
  shows "maxBytes c' = maxBytes (c_cache s)"
  using assms(3) putLocked_wf(4) [OF coherentD(1) [OF assms(1)] coherentD(10) [OF assms(1,2)]]
  by (auto simp: publish_def split: if_splits)

lemma step_maxBytes:
  assumes "cache_step s s'" and "coherent s"
  shows "maxBytes (c_cache s') = maxBytes (c_cache s)"
  using assms(1)
proof cases
  case (hit k v c')
  then show ?thesis using get_wf(4) [OF coherentD(1) [OF assms(2)] hit(2)] by simp
next
  case (publish_object rv x ok c')
  then show ?thesis
    using publish_maxBytes [OF assms(2) publish_object(2)] coherentD(3) [OF assms(2)] by (simp add: publishObject_def)
next
  case (publish_bucket rv b ok c')
  then show ?thesis
    using publish_maxBytes [OF assms(2) publish_bucket(2)] coherentD(3) [OF assms(2)] by (simp add: publishBucket_def)
next
  case (evict e)
  then show ?thesis
    using run_evict_spec(1) [OF coherentD(1,3) [OF assms(2)], of e] by (simp add: shrinks_def)
qed simp_all

lemma coherent_reachable:
  "cache_step\<^sup>*\<^sup>* (initial_proto n d) s \<Longrightarrow> 0 < n \<Longrightarrow> coherent s \<and> maxBytes (c_cache s) = n"
proof (induction rule: rtranclp_induct)
  case base
  then show ?case by (simp add: coherent_initial) (simp add: initial_proto_def NewMetadataCache_def)
next
  case (step y z)
  then show ?case by (auto dest: coherent_step step_maxBytes)
qed

text \<open>
  C20: whatever requests interleave, a cached entry equals the row in the database unless a
  write of that row has committed and not evicted yet; the cache never exceeds its byte budget
  and its byte count is exact.
\<close>

theorem cache_coherent:
  assumes "cache_step\<^sup>*\<^sup>* (initial_proto n d) s" and "0 < n"
  shows "(\<forall>k e. map_of (entries (c_cache s)) k = Some e \<longrightarrow>
            stored_value (tabs (c_db s)) k = Some (ce_value e) \<or> (\<exists>p\<in>#pending s. in_scope p k))
    \<and> used (c_cache s) = sum_list (map ce_size (lru (c_cache s))) \<and> used (c_cache s) \<le> n"
proof -
  note c = coherent_reachable [OF assms]
  note D = coherentD [OF conjunct1 [OF c]]
  have "used (c_cache s) = sum_list (map ce_size (lru (c_cache s)))" using D(1) by (simp add: cache_wf_def)
  moreover have "used (c_cache s) \<le> n"
    using D(2) c assms(2) \<open>used (c_cache s) = _\<close> by (auto simp: within_budget_def)
  moreover have "stored_value (tabs (c_db s)) k = Some (ce_value e) \<or> (\<exists>p\<in>#pending s. in_scope p k)"
    if "map_of (entries (c_cache s)) k = Some e" for k e
    using D(7) [OF that] wf_lookup [OF D(1) that] by (auto simp: fresh_entry_def)
  ultimately show ?thesis by blast
qed

lemma cache_coherent_witness:
  "let x = sample_object ''b'' ''k'' ''p1'';
       c = snd (publishObject x 0 (NewMetadataCache 1000))
   in map_of (entries c) (objectKey ''b'' ''k'') = Some (object_entry x)
      \<and> stored_value (tabs sample_db) (objectKey ''b'' ''k'') = Some (ce_value (object_entry x)) \<and> used c \<le> 1000"
proof -
  let ?x = "sample_object ''b'' ''k'' ''p1''" and ?c0 = "NewMetadataCache 1000"
  let ?s0 = "initial_proto 1000 sample_db"
  let ?s1 = "?s0\<lparr>started := {0}\<rparr>"
  let ?s2 = "?s1\<lparr>c_db := db_step sample_db, loaded := {(0, object_entry ?x)}\<rparr>"
  let ?s3 = "?s2\<lparr>c_cache := snd (publishObject ?x 0 ?c0)\<rparr>"
  have "cache_step ?s0 ?s1"
    using cache_step.start [of ?s0] by (simp add: initial_proto_def currentRevision_def NewMetadataCache_def)
  moreover have "GetByKey sample_denv ''b'' ''k'' sample_db = (Inr ?x, db_step sample_db)" by code_simp
  then have "cache_step ?s1 ?s2"
    using cache_step.load_object [of 0 ?s1 sample_denv "''b''" "''k''" ?x "db_step sample_db"]
    by (simp add: initial_proto_def)
  moreover have "cache_step ?s2 ?s3"
    using cache_step.publish_object [of 0 ?x ?s2 "fst (publishObject ?x 0 ?c0)" "snd (publishObject ?x 0 ?c0)"]
    by (simp add: initial_proto_def)
  ultimately have r: "cache_step\<^sup>*\<^sup>* ?s0 ?s3" by (meson converse_rtranclp_into_rtranclp rtranclp.rtrancl_refl)
  have m: "map_of (entries (snd (publishObject ?x 0 ?c0))) (objectKey ''b'' ''k'') = Some (object_entry ?x)" by code_simp
  from cache_coherent [OF r] m show ?thesis by (simp add: initial_proto_def)
qed


section \<open>Writes without interference\<close>

definition synced :: "cached \<Rightarrow> bool" where
  "synced s \<longleftrightarrow> cache_wf (c_cache s)
     \<and> (\<forall>k e. map_of (entries (c_cache s)) k = Some e \<longrightarrow> stored_value (tabs (c_db s)) k = Some (ce_value e))"

context write_through
begin

lemma write_evict_synced:
  assumes "synced s" and "write_evict oper (run_evict evict) s = (r, s')" and "0 < maxBytes (c_cache s)"
  shows "synced s'"
proof -
  obtain d where op: "oper (c_db s) = (r, d)" and s': "s' = s\<lparr>c_db := d, c_cache := run_evict evict (c_cache s)\<rparr>"
    using assms(2) by (auto simp: write_evict_def split: prod.splits)
  have wf: "cache_wf (c_cache s)" using assms(1) by (simp add: synced_def)
  note ev = run_evict_spec [OF wf assms(3), of evict]
  have "stored_value (tabs d) k = Some (ce_value e)" if m: "map_of (entries (run_evict evict (c_cache s))) k = Some e" for k e
  proof -
    have "map_of (entries (c_cache s)) k = Some e" using ev(1) m by (simp add: shrinks_def)
    moreover have "\<not> in_scope evict k" using ev(2) [of k] m by auto
    ultimately show ?thesis using assms(1) only_scope [OF op] by (simp add: synced_def)
  qed
  with ev(1) show ?thesis by (simp add: s' synced_def shrinks_def)
qed

end

section \<open>Reads among other requests\<close>

text \<open>
  The protocol records which revisions readers have noted and what they have loaded.  A reader adds its own
  to what the others have, which leaves their steps possible.
\<close>

definition with_reads :: "64 word set \<Rightarrow> (64 word \<times> cacheEntry) set \<Rightarrow> proto \<Rightarrow> proto" where
  "with_reads A B s = s\<lparr>started := A \<union> started s, loaded := B \<union> loaded s\<rparr>"

lemma with_reads_simps [simp]:
  "c_cache (with_reads A B s) = c_cache s" "c_db (with_reads A B s) = c_db s" "pending (with_reads A B s) = pending s"
  "evictions (with_reads A B s) = evictions s" "started (with_reads A B s) = A \<union> started s" "loaded (with_reads A B s) = B \<union> loaded s"
  "with_reads A B (with_reads A' B' s) = with_reads (A \<union> A') (B \<union> B') s"
  by (simp_all add: with_reads_def Un_assoc)

lemma with_reads_update:
  "with_reads A B (s\<lparr>c_cache := c\<rparr>) = (with_reads A B s)\<lparr>c_cache := c\<rparr>" "with_reads A B (s\<lparr>c_db := d\<rparr>) = (with_reads A B s)\<lparr>c_db := d\<rparr>"
  by (cases s, simp add: with_reads_def)+

lemma with_reads_step: "cache_step s s' \<Longrightarrow> cache_step (with_reads A B s) (with_reads A B s')"
proof (induction rule: cache_step.induct)
  case (start s)
  then show ?case using cache_step.start [of "with_reads A B s"] by (cases s) (simp add: with_reads_def)
next
  case (hit k s v c')
  then show ?case using cache_step.hit [of k "with_reads A B s"] by (cases s) (simp add: with_reads_def)
next
  case (load_object rv s env b k x d)
  then show ?case using cache_step.load_object [of rv "with_reads A B s" env b k x d] by (cases s) (simp add: with_reads_def)
next
  case (load_bucket rv s env n b d)
  then show ?case using cache_step.load_bucket [of rv "with_reads A B s" env n b d] by (cases s) (simp add: with_reads_def)
next
  case (publish_object rv x s ok c')
  then show ?case using cache_step.publish_object [of rv x "with_reads A B s" ok c'] by (cases s) (simp add: with_reads_def)
next
  case (publish_bucket rv b s ok c')
  then show ?case using cache_step.publish_bucket [of rv b "with_reads A B s" ok c'] by (cases s) (simp add: with_reads_def)
next
  case (commit e s d)
  then show ?case using cache_step.commit [of e "with_reads A B s" d] by (cases s) (simp add: with_reads_def)
next
  case (evict e s)
  then show ?case using cache_step.evict [of e "with_reads A B s"] by (cases s) (simp add: with_reads_def)
next
  case (other d s)
  then show ?case using cache_step.other [of d "with_reads A B s"] by (cases s) (simp add: with_reads_def)
qed

lemma with_reads_steps: "cache_step\<^sup>*\<^sup>* s s' \<Longrightarrow> cache_step\<^sup>*\<^sup>* (with_reads A B s) (with_reads A B s')"
  by (induction rule: rtranclp_induct) (auto intro: rtranclp.rtrancl_into_rtrancl with_reads_step)

lemma coherent_without_reads: "coherent (with_reads A B s) \<Longrightarrow> coherent s"
  by (auto simp: coherent_def fresh_entry_def)

lemma coherent_steps: "cache_step\<^sup>*\<^sup>* s s' \<Longrightarrow> coherent s \<Longrightarrow> coherent s'"
  by (induction rule: rtranclp_induct) (auto dest: coherent_step)

lemma evictions_mono: "cache_step\<^sup>*\<^sup>* s s' \<Longrightarrow> evictions s \<le> evictions s'"
proof (induction rule: rtranclp_induct)
  case (step t u)
  from step.hyps(2) have "evictions t \<le> evictions u" by cases simp_all
  with step.IH show ?case by simp
qed simp

text \<open>The interface of a cached lookup: what the cache, the table and the publication have under one key.\<close>

locale cached_lookup =
  fixes key :: cacheKey
    and get :: "MetadataCache \<Rightarrow> 'a option \<times> MetadataCache"
    and load :: "db \<Rightarrow> 'a result \<times> db"
    and pub :: "'a \<Rightarrow> 64 word \<Rightarrow> MetadataCache \<Rightarrow> bool \<times> MetadataCache"
    and entry :: "'a \<Rightarrow> cacheEntry"
    and out :: "cacheValue \<Rightarrow> 'a option"
    and missing :: go_error
  assumes get_law: "get c = (v, c1) \<Longrightarrow> \<exists>w. cache_get key c = (w, c1) \<and> v = Option.bind w out"
    and load_step: "load (c_db s) = (Inr x, d) \<Longrightarrow> rv \<in> started s
      \<Longrightarrow> cache_step s (s\<lparr>c_db := d, loaded := insert (rv, entry x) (loaded s)\<rparr>)"
    and load_error: "load d = (Inl e, d') \<Longrightarrow> tabs d' = tabs d \<and> (e = ErrDriver \<or> e = missing \<and> stored_value (tabs d) key = None)"
    and entry_law: "load d = (Inr x, d') \<Longrightarrow> ce_key (entry x) = key \<and> out (ce_value (entry x)) = Some x"
    and pub_step: "pub x rv (c_cache s) = (ok, c') \<Longrightarrow> (rv, entry x) \<in> loaded s \<Longrightarrow> cache_step s (s\<lparr>c_cache := c'\<rparr>)"
    and pub_law: "pub x rv c = (ok, c') \<Longrightarrow> 0 < maxBytes c \<Longrightarrow> ok \<longleftrightarrow> revision c = rv"
begin

definition current :: "'a result \<Rightarrow> proto \<Rightarrow> bool" where
  "current r s = (case r of
     Inr x \<Rightarrow> (\<exists>v. stored_value (tabs (c_db s)) key = Some v \<and> out v = Some x) \<or> (\<exists>p\<in>#pending s. in_scope p key)
   | Inl e \<Rightarrow> e = ErrDriver \<or> e = ErrContext \<or> e = missing \<and> stored_value (tabs (c_db s)) key = None)"

lemma read_current:
  assumes others: "\<And>i t. cache_step\<^sup>*\<^sup>* t (others i t)" and "coherent s"
  shows "\<exists>r s' A B. cached_read others env get load pub n s = Some (r, s') \<and> cache_step\<^sup>*\<^sup>* s (with_reads A B s') \<and> current r s'"
  using assms(2)
proof (induction "2 ^ 64 - evictions s" arbitrary: s n rule: less_induct)
  case less
  define rv where "rv = currentRevision (c_cache s)"
  define s1 where "s1 = others (4 * n) s"
  let ?R = "with_reads {rv} {}"
  have "cache_step s (?R s)" using cache_step.start [of s] by (simp add: with_reads_def rv_def)
  then have 1: "cache_step\<^sup>*\<^sup>* s (?R s1)"
    unfolding s1_def using with_reads_steps [OF others] by (rule converse_rtranclp_into_rtranclp)
  obtain v c1 where g: "get (c_cache s1) = (v, c1)" by fastforce
  from get_law [OF g] obtain w where w: "cache_get key (c_cache s1) = (w, c1)" and v: "v = Option.bind w out" by blast
  define t1 where "t1 = s1\<lparr>c_cache := c1\<rparr>"
  have "cache_step (?R s1) (?R t1)" using cache_step.hit [of key "?R s1" w c1] w by (simp add: t1_def with_reads_update)
  with 1 have 2: "cache_step\<^sup>*\<^sup>* s (?R t1)" by (rule rtranclp.rtrancl_into_rtrancl)
  note unfold = cached_read.simps [of others env get load pub n s, folded rv_def s1_def, unfolded Let_def g prod.case, folded t1_def]
  show ?case
  proof (cases v)
    case (Some x)
    from v Some obtain a where a: "w = Some a" "out a = Some x" by (cases w) auto
    note D = coherentD [OF coherent_steps [OF 1 less.prems]]
    obtain e where e: "map_of (entries (c_cache s1)) key = Some e" "ce_value e = a" "ce_key e = key"
      using get_wf(7) [OF _ w] D(1,3) wf_lookup [of "c_cache s1" key] a(1)
      by (cases "map_of (entries (c_cache s1)) key") (auto split: if_splits)
    have "fresh_entry (?R s1) e" using D(7) e(1) by simp
    then have "current (Inr x) t1" using a(2) e(2,3) by (auto simp: fresh_entry_def current_def t1_def)
    then show ?thesis using unfold Some 2 by (intro exI [of _ "Inr x"] exI [of _ t1]) auto
  next
    case None
    define s2 where "s2 = others (4 * n + 1) t1"
    have 3: "cache_step\<^sup>*\<^sup>* s (?R s2)"
      unfolding s2_def by (rule rtranclp_trans [OF 2 with_reads_steps [OF others]])
    obtain q d where q: "load (c_db s2) = (q, d)" by fastforce
    note unfold2 = unfold [unfolded None option.case, folded s2_def, unfolded q prod.case]
    show ?thesis
    proof (cases q)
      case (Inl e)
      note L = load_error [OF q [unfolded Inl]]
      have "cache_step (?R s2) (?R (s2\<lparr>c_db := d\<rparr>))"
        unfolding with_reads_update by (rule cache_step.other) (use L in simp_all)
      with 3 have "cache_step\<^sup>*\<^sup>* s (?R (s2\<lparr>c_db := d\<rparr>))" by (rule rtranclp.rtrancl_into_rtrancl)
      moreover have "current (Inl e) (s2\<lparr>c_db := d\<rparr>)" using L by (auto simp: current_def)
      ultimately show ?thesis using unfold2 Inl by auto
    next
      case (Inr x)
      note E = entry_law [OF q [unfolded Inr]]
      let ?B = "{(rv, entry x)}"
      let ?S = "with_reads {rv} ?B"
      define s3 where "s3 = others (4 * n + 2) (s2\<lparr>c_db := d\<rparr>)"
      have "cache_step (?R s2) ((?R s2)\<lparr>c_db := d, loaded := insert (rv, entry x) (loaded (?R s2))\<rparr>)"
        by (rule load_step) (use q Inr in simp_all)
      then have "cache_step (?R s2) (?S (s2\<lparr>c_db := d\<rparr>))" by (cases s2) (simp add: with_reads_def)
      with 3 have "cache_step\<^sup>*\<^sup>* s (?S (s2\<lparr>c_db := d\<rparr>))" by (rule rtranclp.rtrancl_into_rtrancl)
      then have 4: "cache_step\<^sup>*\<^sup>* s (?S s3)"
        unfolding s3_def by (rule rtranclp_trans [OF _ with_reads_steps [OF others]])
      note D = coherentD [OF coherent_steps [OF 4 less.prems]]
      obtain ok c2 where p: "pub x rv (c_cache s3) = (ok, c2)" by fastforce
      have okiff: "ok \<longleftrightarrow> revision (c_cache s3) = rv" using pub_law [OF p] D(3) by simp
      define s4 where "s4 = s3\<lparr>c_cache := c2\<rparr>"
      have "cache_step (?S s3) (?S s4)" unfolding s4_def with_reads_update by (rule pub_step [where x = x and rv = rv and ok = ok]) (use p in simp_all)
      with 4 have 5: "cache_step\<^sup>*\<^sup>* s (?S s4)" by (rule rtranclp.rtrancl_into_rtrancl)
      define s5 where "s5 = s4\<lparr>c_db := db_step (c_db s4)\<rparr>"
      have "cache_step (?S s4) (?S s5)"
        unfolding s5_def with_reads_update by (rule cache_step.other) (simp_all add: db_step_def)
      with 5 have 6: "cache_step\<^sup>*\<^sup>* s (?S s5)" by (rule rtranclp.rtrancl_into_rtrancl)
      note unfold3 = unfold2 [unfolded Inr sum.case, folded s3_def, unfolded p prod.case, folded s4_def, folded s5_def]
      show ?thesis
      proof (cases ok)
        case True
        have "fresh_entry (?S s3) (entry x)" using D(9) [of rv "entry x"] okiff True by simp
        then have "current (Inr x) s4" using E by (auto simp: fresh_entry_def current_def s4_def)
        then show ?thesis using unfold3 True 5 by auto
      next
        case False
        define s6 where "s6 = others (4 * n + 3) s5"
        have 7: "cache_step\<^sup>*\<^sup>* s (?S s6)" unfolding s6_def by (rule rtranclp_trans [OF 6 with_reads_steps [OF others]])
        have "evictions s \<noteq> evictions s3"
          using okiff False D(5) coherentD(5) [OF less.prems] by (auto simp: rv_def currentRevision_def)
        moreover have "evictions s \<le> evictions s3" using evictions_mono [OF 4] by simp
        moreover have "evictions s3 \<le> evictions s6"
          unfolding s6_def using evictions_mono [OF others, of s5 "4 * n + 3"] by (simp add: s5_def s4_def)
        moreover have c6: "coherent s6" by (rule coherent_without_reads [OF coherent_steps [OF 7 less.prems]])
        ultimately have "2 ^ 64 - evictions s6 < 2 ^ 64 - evictions s" using coherentD(4) [OF c6] by linarith
        from less.hyps [OF this c6, of "n + 1"] obtain r s' A B where
          r: "cached_read others env get load pub (n + 1) s6 = Some (r, s')" and st: "cache_step\<^sup>*\<^sup>* s6 (with_reads A B s')"
          and cur: "current r s'" by blast
        have "cache_step\<^sup>*\<^sup>* s (with_reads ({rv} \<union> A) (?B \<union> B) s')"
          using rtranclp_trans [OF 7 with_reads_steps [OF st]] by simp
        moreover have "current (Inl ErrContext) s5" by (simp add: current_def)
        ultimately show ?thesis
          using unfold3 False r cur 6 unfolding s6_def [symmetric] by (cases "db_fails env (db_tick (c_db s4))") auto
      qed
    qed
  qed
qed

end

interpretation object_lookup: cached_lookup "objectKey b k" "getObject b k" "GetByKey env b k" publishObject object_entry cv_object
  ErrObjectNotFound for env b k
proof unfold_locales
  show "\<exists>w. cache_get (objectKey b k) c = (w, c1) \<and> v = Option.bind w cv_object" if "getObject b k c = (v, c1)" for c v c1
    using that by (auto simp: getObject_def split: prod.splits option.splits)
  show "tabs d' = tabs d \<and> (e = ErrDriver \<or> e = ErrObjectNotFound \<and> stored_value (tabs d) (objectKey b k) = None)"
    if "GetByKey env b k d = (Inl e, d')" for d e d'
    using that query_tabs [OF that [unfolded GetByKey_def]] unfolding GetByKey_def
    by (auto simp: stored_value_def objectKey_def dest!: query_Inl split: option.splits)
  show "ce_key (object_entry x) = objectKey b k \<and> cv_object (ce_value (object_entry x)) = Some x"
    if "GetByKey env b k d = (Inr x, d')" for d x d'
    using GetByKey_stored(4) [OF that] by (simp add: object_entry_def)
qed (rule cache_step.load_object, assumption+, rule cache_step.publish_object, assumption+, auto simp: publishObject_def publish_def split: if_splits)

interpretation bucket_lookup: cached_lookup "bucketKey n" "getBucket n" "GetByName env n" publishBucket bucket_entry cv_bucket
  ErrBucketNotFound for env n
proof unfold_locales
  show "\<exists>w. cache_get (bucketKey n) c = (w, c1) \<and> v = Option.bind w cv_bucket" if "getBucket n c = (v, c1)" for c v c1
    using that by (auto simp: getBucket_def split: prod.splits option.splits)
  show "tabs d' = tabs d \<and> (e = ErrDriver \<or> e = ErrBucketNotFound \<and> stored_value (tabs d) (bucketKey n) = None)"
    if "GetByName env n d = (Inl e, d')" for d e d'
    using that query_tabs [OF that [unfolded GetByName_def]] unfolding GetByName_def
    by (auto simp: stored_value_def bucketKey_def stored_bucket_def dest!: query_Inl split: option.splits)
  show "ce_key (bucket_entry x) = bucketKey n \<and> cv_bucket (ce_value (bucket_entry x)) = Some x"
    if "GetByName env n d = (Inr x, d')" for d x d'
    using GetByName_stored(4) [OF that] by (simp add: bucket_entry_def)
qed (rule cache_step.load_bucket, assumption+, rule cache_step.publish_bucket, assumption+, auto simp: publishBucket_def publish_def split: if_splits)

text \<open>
  C21: a read through the cache always returns, whatever other requests do at each point where it
  holds no lock, and its answer is current at the moment it returns: the row is the one the table then holds,
  unless a write of that very key has committed and its eviction is still to come, and a row reported missing
  is missing.  Otherwise the query failed or the request was cancelled.  The read is itself a run of the
  protocol, so what it leaves in the cache is as coherent as before.
\<close>

theorem cached_reads_exact:
  assumes "cache_step\<^sup>*\<^sup>* (initial_proto n d) s" and "0 < n" and "\<And>i t. cache_step\<^sup>*\<^sup>* t (others i t)"
  shows "(\<exists>r s'. cached_GetByKey others env b k s = Some (r, s') \<and> (\<exists>A B. cache_step\<^sup>*\<^sup>* s (s'\<lparr>started := A, loaded := B\<rparr>))
      \<and> (case r of
           Inr x \<Rightarrow> find_object b k (tabs (c_db s')) = Some x \<or> (\<exists>p\<in>#pending s'. in_scope p (objectKey b k))
         | Inl e \<Rightarrow> e = ErrDriver \<or> e = ErrContext \<or> e = ErrObjectNotFound \<and> find_object b k (tabs (c_db s')) = None))
    \<and> (\<exists>r s'. cached_GetByName others env b s = Some (r, s') \<and> (\<exists>A B. cache_step\<^sup>*\<^sup>* s (s'\<lparr>started := A, loaded := B\<rparr>))
      \<and> (case r of
           Inr x \<Rightarrow> find (\<lambda>y. b_Name y = b) (buckets (tabs (c_db s'))) = Some x \<or> (\<exists>p\<in>#pending s'. in_scope p (bucketKey b))
         | Inl e \<Rightarrow> e = ErrDriver \<or> e = ErrContext
             \<or> e = ErrBucketNotFound \<and> (\<forall>y\<in>set (buckets (tabs (c_db s'))). b_Name y \<noteq> b)))"
proof (intro conjI)
  have c: "coherent s" using coherent_reachable [OF assms(1,2)] by blast
  have "\<exists>r s' A B. cached_GetByKey others env b k s = Some (r, s') \<and> cache_step\<^sup>*\<^sup>* s (with_reads A B s') \<and> object_lookup.current b k r s'"
    unfolding cached_GetByKey_def by (rule object_lookup.read_current [OF assms(3) c])
  then obtain r s' A B where r: "cached_GetByKey others env b k s = Some (r, s')" and st: "cache_step\<^sup>*\<^sup>* s (with_reads A B s')"
    and cur: "object_lookup.current b k r s'" by blast
  show "\<exists>r s'. cached_GetByKey others env b k s = Some (r, s') \<and> (\<exists>A B. cache_step\<^sup>*\<^sup>* s (s'\<lparr>started := A, loaded := B\<rparr>))
      \<and> (case r of
           Inr x \<Rightarrow> find_object b k (tabs (c_db s')) = Some x \<or> (\<exists>p\<in>#pending s'. in_scope p (objectKey b k))
         | Inl e \<Rightarrow> e = ErrDriver \<or> e = ErrContext \<or> e = ErrObjectNotFound \<and> find_object b k (tabs (c_db s')) = None)"
    using r st [unfolded with_reads_def] cur [unfolded object_lookup.current_def]
    by (intro exI [of _ r] exI [of _ s']) (auto simp: stored_value_def objectKey_def split: sum.splits)
  have "\<exists>r s' A B. cached_GetByName others env b s = Some (r, s') \<and> cache_step\<^sup>*\<^sup>* s (with_reads A B s') \<and> bucket_lookup.current b r s'"
    unfolding cached_GetByName_def by (rule bucket_lookup.read_current [OF assms(3) c])
  then obtain r s' A B where r: "cached_GetByName others env b s = Some (r, s')" and st: "cache_step\<^sup>*\<^sup>* s (with_reads A B s')"
    and cur: "bucket_lookup.current b r s'" by blast
  show "\<exists>r s'. cached_GetByName others env b s = Some (r, s') \<and> (\<exists>A B. cache_step\<^sup>*\<^sup>* s (s'\<lparr>started := A, loaded := B\<rparr>))
      \<and> (case r of
           Inr x \<Rightarrow> find (\<lambda>y. b_Name y = b) (buckets (tabs (c_db s'))) = Some x \<or> (\<exists>p\<in>#pending s'. in_scope p (bucketKey b))
         | Inl e \<Rightarrow> e = ErrDriver \<or> e = ErrContext
             \<or> e = ErrBucketNotFound \<and> (\<forall>y\<in>set (buckets (tabs (c_db s'))). b_Name y \<noteq> b))"
    using r st [unfolded with_reads_def] cur [unfolded bucket_lookup.current_def]
    by (intro exI [of _ r] exI [of _ s'])
      (auto simp: stored_value_def stored_bucket_def bucketKey_def find_None_iff split: sum.splits)
qed

text \<open>
  A reader that is overtaken: between its query and its publication another request replaces the row and evicts it.
  The publication is refused, and the second round answers with the new row.
\<close>

definition racing_write :: "nat \<Rightarrow> proto \<Rightarrow> proto" where
  "racing_write i t =
     (if i = 2 \<and> evictions t = 0
      then t\<lparr>c_db := snd (Replace sample_denv (sample_object ''b'' ''k'' ''q'') [] [] (c_db t)),
             c_cache := evictObject ''b'' ''k'' (c_cache t), evictions := Suc (evictions t)\<rparr>
      else t)"

lemma racing_write_steps: "cache_step\<^sup>*\<^sup>* t (racing_write i t)"
proof (cases "i = 2 \<and> evictions t = 0")
  case True
  let ?x = "sample_object ''b'' ''k'' ''q''" and ?e = "EvictObject ''b'' ''k''"
  obtain r d where d: "Replace sample_denv ?x [] [] (c_db t) = (r, d)" by fastforce
  have k: "o_BucketName ?x = ''b''" "o_Key ?x = ''k''" by code_simp+
  let ?t1 = "t\<lparr>c_db := d, pending := add_mset ?e (pending t)\<rparr>"
  have "cache_step t ?t1"
    using cache_step.commit [OF committed.intros(6) [OF d]] unfolding k .
  moreover have "cache_step ?t1 (?t1\<lparr>c_cache := run_evict ?e (c_cache ?t1), pending := pending ?t1 - {#?e#}, evictions := Suc (evictions ?t1)\<rparr>)"
    by (rule cache_step.evict) (use True in simp_all)
  moreover have "?t1\<lparr>c_cache := run_evict ?e (c_cache ?t1), pending := pending ?t1 - {#?e#}, evictions := Suc (evictions ?t1)\<rparr> = racing_write i t"
    using True d by (cases t) (simp add: racing_write_def)
  ultimately show ?thesis by (metis converse_rtranclp_into_rtranclp r_into_rtranclp)
qed (auto simp: racing_write_def)

lemma cached_reads_exact_witness:
  "\<exists>x s'. cached_GetByKey racing_write sample_denv ''b'' ''k'' (initial_proto 1000 sample_db) = Some (Inr x, s') \<and> o_StoragePath x = ''q''
     \<and> (find_object ''b'' ''k'' (tabs (c_db s')) = Some x \<or> (\<exists>p\<in>#pending s'. in_scope p (objectKey ''b'' ''k'')))"
proof -
  let ?run = "cached_GetByKey racing_write sample_denv ''b'' ''k'' (initial_proto 1000 sample_db)"
  have "case ?run of Some (Inr x, s') \<Rightarrow> o_StoragePath x = ''q'' | _ \<Rightarrow> False" by code_simp
  then obtain x s' where x: "?run = Some (Inr x, s')" "o_StoragePath x = ''q''" by (auto split: option.splits prod.splits sum.splits)
  have "\<exists>r s'. ?run = Some (r, s') \<and> (case r of
      Inr x \<Rightarrow> find_object ''b'' ''k'' (tabs (c_db s')) = Some x \<or> (\<exists>p\<in>#pending s'. in_scope p (objectKey ''b'' ''k''))
    | Inl e \<Rightarrow> True)"
    using cached_reads_exact [of 1000 sample_db "initial_proto 1000 sample_db" racing_write sample_denv "''b''" "''k''"] racing_write_steps
    by (force split: sum.splits)
  with x show ?thesis by auto
qed

end
