(* ===== verification/GoPath.thy ===== *)
theory GoPath
  imports Prelude
begin

text \<open>
  The functions of \<open>path/filepath\<close> (on Unix) the storage engine uses: \<open>Clean\<close>,
  \<open>Join\<close>, \<open>Dir\<close>, \<open>IsAbs\<close>, \<open>Abs\<close> and \<open>Rel\<close> on absolute paths.
  A cleaned absolute path is determined by its list of elements (\<open>path_comps\<close>), which is
  also the key of the file-system model, so every containment statement of the development is
  a statement about prefixes of element lists.
\<close>

definition path_elems :: "string \<Rightarrow> string list" where
  "path_elems p = filter (\<lambda>e. e \<noteq> [] \<and> e \<noteq> ''.'') (split_on CHR ''/'' p)"

text \<open>The loop of \<open>filepath.Clean\<close>; the accumulator is the output written so far, reversed.\<close>

fun clean_elems :: "bool \<Rightarrow> string list \<Rightarrow> string list \<Rightarrow> string list" where
  "clean_elems rooted acc [] = rev acc"
| "clean_elems rooted acc (e # es) =
     (if e = ''..'' then
        (case acc of
           [] \<Rightarrow> if rooted then clean_elems rooted [] es
                 else clean_elems rooted [''..''] es
         | a # as \<Rightarrow> if a = ''..'' then clean_elems rooted (''..'' # acc) es
                     else clean_elems rooted as es)
      else clean_elems rooted (e # acc) es)"

definition IsAbs :: "string \<Rightarrow> bool" where
  "IsAbs p \<longleftrightarrow> HasPrefix p ''/''"

definition filepath_Clean :: "string \<Rightarrow> string" where
  "filepath_Clean p =
     (if p = [] then ''.''
      else let es = clean_elems (IsAbs p) [] (path_elems p)
           in if IsAbs p then ''/'' @ join_with ''/'' es
              else if es = [] then ''.'' else join_with ''/'' es)"

fun filepath_Join :: "string list \<Rightarrow> string" where
  "filepath_Join [] = []"
| "filepath_Join (e # es) =
     (if e = [] then filepath_Join es else filepath_Clean (join_with ''/'' (e # es)))"

definition filepath_Dir :: "string \<Rightarrow> string" where
  "filepath_Dir p = filepath_Clean (rev (dropWhile (\<lambda>c. c \<noteq> CHR ''/'') (rev p)))"

definition filepath_Abs :: "string \<Rightarrow> string \<Rightarrow> string" where
  "filepath_Abs cwd p = (if IsAbs p then filepath_Clean p else filepath_Join [cwd, p])"

text \<open>The elements of an absolute path.\<close>

definition path_comps :: "string \<Rightarrow> string list" where
  "path_comps p = clean_elems True [] (path_elems p)"

fun strip_common :: "string list \<Rightarrow> string list \<Rightarrow> string list \<times> string list" where
  "strip_common (x # xs) (y # ys) =
     (if x = y then strip_common xs ys else (x # xs, y # ys))"
| "strip_common xs ys = (xs, ys)"

text \<open>\<open>filepath.Rel\<close>; all callers pass two absolute paths, any other pair is refused.\<close>

definition filepath_Rel :: "string \<Rightarrow> string \<Rightarrow> string result" where
  "filepath_Rel base targ =
     (if IsAbs base \<and> IsAbs targ then
        (case strip_common (path_comps base) (path_comps targ) of
           (bs, ts) \<Rightarrow>
             let es = replicate (length bs) ''..'' @ ts
             in Inr (if es = [] then ''.'' else join_with ''/'' es))
      else Inl ErrMalformed)"

section \<open>Elements of cleaned paths\<close>

definition good_elem :: "string \<Rightarrow> bool" where
  "good_elem e \<longleftrightarrow> e \<noteq> [] \<and> e \<noteq> ''.'' \<and> e \<noteq> ''..'' \<and> CHR ''/'' \<notin> set e"

lemma path_elems_good: "e \<in> set (path_elems p) \<Longrightarrow> good_elem e \<or> e = ''..''"
  by (auto simp: path_elems_def good_elem_def dest: split_on_parts)

lemma good_elem_not_dotdot: "good_elem e \<Longrightarrow> e \<noteq> ''..''"
  by (simp add: good_elem_def)

lemma clean_elems_good_rooted:
  "\<forall>e\<in>set acc. good_elem e \<Longrightarrow> \<forall>e\<in>set es. good_elem e \<or> e = ''..'' \<Longrightarrow>
   \<forall>e\<in>set (clean_elems True acc es). good_elem e"
proof (induction es arbitrary: acc)
  case (Cons e es)
  show ?case
  proof (cases "e = ''..''")
    case True
    show ?thesis
    proof (cases acc)
      case Nil
      with True Cons.IH [of "[]"] Cons.prems show ?thesis by simp
    next
      case (Cons a as)
      then have "a \<noteq> ''..''" using Cons.prems by (simp add: good_elem_not_dotdot)
      with True Cons Cons.IH [of as] Cons.prems show ?thesis by simp
    qed
  next
    case False
    with Cons.IH [of "e # acc"] Cons.prems show ?thesis by simp
  qed
qed simp

lemma path_comps_good: "e \<in> set (path_comps p) \<Longrightarrow> good_elem e"
  unfolding path_comps_def
  using clean_elems_good_rooted [of "[]" "path_elems p"] path_elems_good by auto

lemma clean_elems_good_id:
  "\<forall>e\<in>set es. good_elem e \<Longrightarrow> clean_elems r acc es = rev acc @ es"
  by (induction r acc es rule: clean_elems.induct) (auto simp: good_elem_def)

lemma clean_elems_append:
  "\<forall>e\<in>set es. good_elem e \<Longrightarrow>
   clean_elems True acc (es @ fs) = clean_elems True (rev es @ acc) fs"
  by (induction es arbitrary: acc) (auto simp: good_elem_def)

lemma clean_elems_acc_cong:
  "clean_elems True [] (xs @ fs) = clean_elems True (rev (clean_elems True [] xs)) fs"
proof -
  have "\<forall>e\<in>set acc. e \<noteq> ''..'' \<Longrightarrow>
        clean_elems True acc (xs @ fs) = clean_elems True (rev (clean_elems True acc xs)) fs" for acc
    by (induction xs arbitrary: acc) (auto split: list.splits)
  from this [of "[]"] show ?thesis by simp
qed

lemma path_elems_join_good:
  "\<forall>e\<in>set es. good_elem e \<Longrightarrow> path_elems (join_with ''/'' es) = es"
proof (cases "es = []")
  case True
  then show ?thesis by (simp add: path_elems_def)
next
  case False
  moreover assume "\<forall>e\<in>set es. good_elem e"
  ultimately show ?thesis
    by (auto simp: path_elems_def split_join good_elem_def intro: filter_True)
qed

lemma path_elems_sep: "path_elems (a @ CHR ''/'' # b) = path_elems a @ path_elems b"
  by (simp add: path_elems_def split_on_append_sep)

lemma path_elems_Nil [simp]: "path_elems [] = []"
  by (simp add: path_elems_def)

lemma path_comps_abs_join:
  "\<forall>e\<in>set es. good_elem e \<Longrightarrow> path_comps (''/'' @ join_with ''/'' es) = es"
  using path_elems_sep [of "[]" "join_with ''/'' es"]
  by (simp add: path_comps_def path_elems_join_good clean_elems_good_id)

lemma IsAbs_slash [simp]: "IsAbs (CHR ''/'' # p)"
  by (simp add: IsAbs_def HasPrefix_def)

lemma IsAbs_ne: "IsAbs p \<Longrightarrow> p \<noteq> []"
  by (auto simp: IsAbs_def HasPrefix_def)

lemma IsAbs_append: "IsAbs p \<Longrightarrow> IsAbs (p @ q)"
  by (auto simp: IsAbs_def HasPrefix_def)

lemma IsAbs_Clean: "IsAbs p \<Longrightarrow> IsAbs (filepath_Clean p)"
  by (auto simp: filepath_Clean_def Let_def dest: IsAbs_ne)

lemma Clean_abs: "IsAbs p \<Longrightarrow> filepath_Clean p = ''/'' @ join_with ''/'' (path_comps p)"
  by (auto simp: filepath_Clean_def path_comps_def Let_def dest: IsAbs_ne)

lemma path_comps_Clean: "IsAbs p \<Longrightarrow> path_comps (filepath_Clean p) = path_comps p"
  using path_comps_abs_join [of "path_comps p"] path_comps_good [of _ p] by (simp add: Clean_abs)

lemma Clean_Clean_abs: "IsAbs p \<Longrightarrow> filepath_Clean (filepath_Clean p) = filepath_Clean p"
  by (metis Clean_abs IsAbs_Clean path_comps_Clean)

lemma path_comps_inject:
  "IsAbs p \<Longrightarrow> IsAbs q \<Longrightarrow> path_comps p = path_comps q \<Longrightarrow> filepath_Clean p = filepath_Clean q"
  by (simp add: Clean_abs)

lemma join_with_Cons_ne: "es \<noteq> [] \<Longrightarrow> join_with s (e # es) = e @ s @ join_with s es"
  by (cases es) auto

lemma path_elems_join: "path_elems (join_with ''/'' es) = concat (map path_elems es)"
proof (induction es)
  case (Cons e es)
  then show ?case
    by (cases "es = []") (simp_all add: join_with_Cons_ne path_elems_sep)
qed simp

lemma IsAbs_join: "IsAbs b \<Longrightarrow> IsAbs (join_with ''/'' (b # es))"
  by (cases es) (auto intro: IsAbs_append)

lemma Join_abs:
  "IsAbs b \<Longrightarrow> filepath_Join (b # es) = filepath_Clean (join_with ''/'' (b # es))"
  by (auto dest: IsAbs_ne)

lemma IsAbs_Join: "IsAbs b \<Longrightarrow> IsAbs (filepath_Join (b # es))"
  unfolding Join_abs by (intro IsAbs_Clean IsAbs_join)

text \<open>Joining onto an absolute base cleans the joined elements from the base's elements on.\<close>

lemma path_comps_Join:
  assumes "IsAbs b"
  shows "path_comps (filepath_Join (b # es)) =
         clean_elems True (rev (path_comps b)) (concat (map path_elems es))"
proof -
  have "path_comps (filepath_Join (b # es)) = path_comps (join_with ''/'' (b # es))"
    by (simp only: Join_abs [OF assms] path_comps_Clean [OF IsAbs_join [OF assms]])
  also have "\<dots> = clean_elems True [] (path_elems b @ concat (map path_elems es))"
    by (simp only: path_comps_def path_elems_join list.map concat.simps)
  also have "\<dots> = clean_elems True (rev (path_comps b)) (concat (map path_elems es))"
    by (simp add: clean_elems_acc_cong path_comps_def)
  finally show ?thesis .
qed

lemma path_comps_Join_good:
  assumes "IsAbs b" and "\<forall>e\<in>set (concat (map path_elems es)). good_elem e"
  shows "path_comps (filepath_Join (b # es)) = path_comps b @ concat (map path_elems es)"
  unfolding path_comps_Join [OF assms(1)] using assms(2) by (simp add: clean_elems_good_id)

section \<open>\<open>Rel\<close> and containment\<close>

lemma strip_common_spec:
  "strip_common xs ys = (bs, ts) \<Longrightarrow>
   \<exists>c. xs = c @ bs \<and> ys = c @ ts \<and> (bs = [] \<or> ts = [] \<or> hd bs \<noteq> hd ts)"
proof (induction xs ys rule: strip_common.induct)
  case (1 x xs y ys)
  show ?case
  proof (cases "x = y")
    case True
    with 1 obtain c where "xs = c @ bs" "ys = c @ ts" "bs = [] \<or> ts = [] \<or> hd bs \<noteq> hd ts"
      by auto
    with True have "x # xs = (x # c) @ bs" "y # ys = (x # c) @ ts" by auto
    with \<open>bs = [] \<or> ts = [] \<or> hd bs \<noteq> hd ts\<close> show ?thesis by blast
  next
    case False
    with 1(2) show ?thesis by auto
  qed
qed auto

lemma strip_common_prefix: "fst (strip_common xs ys) = [] \<longleftrightarrow> prefix xs ys"
  by (induction xs ys rule: strip_common.induct) auto

lemma strip_common_snd: "prefix xs ys \<Longrightarrow> snd (strip_common xs ys) = drop (length xs) ys"
  by (induction xs ys rule: strip_common.induct) auto

text \<open>
  The result of \<open>Rel\<close> is \<open>..\<close> or starts with \<open>../\<close> exactly when the target leaves the
  base: the test \<open>isWithinBase\<close> makes on the string decides the prefix order on elements.
\<close>

lemma rel_escapes_iff:
  assumes good: "\<forall>e\<in>set ts. good_elem e"
  shows "(let es = replicate n ''..'' @ ts; rel = (if es = [] then ''.'' else join_with ''/'' es)
          in rel = ''..'' \<or> HasPrefix rel ''../'') \<longleftrightarrow> n \<noteq> 0"
proof (cases n)
  case 0
  show ?thesis
  proof (cases ts)
    case Nil
    with 0 show ?thesis by (simp add: HasPrefix_def)
  next
    case (Cons t ts')
    with good have t: "good_elem t" by simp
    have "split_on CHR ''/'' (join_with ''/'' ts) = ts"
      using good Cons by (intro split_join) (auto simp: good_elem_def)
    moreover have "split_on CHR ''/'' ''..'' = [''..'']" by simp
    ultimately have ne: "join_with ''/'' ts \<noteq> ''..''"
      using Cons t by (auto simp: good_elem_def)
    have "\<not> prefix ''../'' (join_with ''/'' ts)"
    proof
      assume "prefix ''../'' (join_with ''/'' ts)"
      then obtain r where "join_with ''/'' ts = ''..'' @ CHR ''/'' # r"
        by (auto simp: prefix_def)
      then have "ts = split_on CHR ''/'' (''..'' @ CHR ''/'' # r)"
        using \<open>split_on CHR ''/'' (join_with ''/'' ts) = ts\<close> by simp
      then have "hd ts = ''..''" by (simp add: split_on_append_sep)
      with Cons t show False by (simp add: good_elem_def)
    qed
    with 0 ne Cons show ?thesis by (simp add: HasPrefix_def Let_def)
  qed
next
  case (Suc m)
  show ?thesis
  proof (cases "replicate m ''..'' @ ts")
    case Nil
    with Suc show ?thesis by simp
  next
    case (Cons a as)
    with Suc show ?thesis by (simp add: HasPrefix_def Let_def join_with_Cons_ne)
  qed
qed

end
