(* ===== verification/FileSystem.thy ===== *)
theory FileSystem
  imports GoPath "HOL-Library.AList"
begin

text \<open>
  The calls of package \<open>os\<close> the storage engine makes, on an explicit disk.  The file system is
  an association list from the element lists of absolute paths to nodes.  Every call, and every
  test of a request context, may fail for reasons outside the program (an I/O error, a cancelled
  request): the oracle \<open>io_fails\<close> decides the \<open>n\<close>-th call, \<open>io_short\<close> how far a failing
  transfer got, so a theorem that holds for every oracle holds for every pattern of failures.
  Fresh identifiers are the successive values of \<open>uuid_str\<close>, \<open>uuid_count\<close> of which are at
  hand before one repeats.  A call that returns only an
  error has the result type \<open>go_error option\<close>, \<^const>\<open>None\<close> being \<open>nil\<close>.
\<close>

datatype node = Dir | File bytes

type_synonym fs = "(string list \<times> node) list"

record disk =
  files :: fs
  io_tick :: nat
  next_uuid :: nat

record os_env =
  io_fails :: "nat \<Rightarrow> bool"
  io_short :: "nat \<Rightarrow> nat"
  uuid_str :: "nat \<Rightarrow> string"
  uuid_count :: nat
  getwd :: string

section \<open>Calls\<close>

definition tick :: "disk \<Rightarrow> disk" where
  "tick d = d\<lparr>io_tick := Suc (io_tick d)\<rparr>"

definition faulty :: "os_env \<Rightarrow> disk \<Rightarrow> bool" where
  "faulty env d \<longleftrightarrow> io_fails env (io_tick d)"

definition os_call :: "os_env \<Rightarrow> go_error \<Rightarrow> disk \<Rightarrow> go_error option \<times> disk" where
  "os_call env e d = (if faulty env d then Some e else None, tick d)"

definition ctx_err :: "os_env \<Rightarrow> disk \<Rightarrow> go_error option \<times> disk" where
  "ctx_err env d = os_call env ErrContext d"

definition new_uuid :: "os_env \<Rightarrow> disk \<Rightarrow> string \<times> disk" where
  "new_uuid env d = (uuid_str env (next_uuid d), d\<lparr>next_uuid := Suc (next_uuid d)\<rparr>)"

definition is_dir :: "fs \<Rightarrow> string list \<Rightarrow> bool" where
  "is_dir f p \<longleftrightarrow> p = [] \<or> map_of f p = Some Dir"

definition has_children :: "fs \<Rightarrow> string list \<Rightarrow> bool" where
  "has_children f p \<longleftrightarrow> list_ex (\<lambda>k. k \<noteq> [] \<and> butlast k = p) (map fst f)"

definition os_Create :: "os_env \<Rightarrow> string \<Rightarrow> disk \<Rightarrow> go_error option \<times> disk" where
  "os_Create env path d =
     (let p = path_comps path; d1 = tick d in
      if faulty env d then (Some ErrIO, d1)
      else if is_dir (files d) p \<or> \<not> is_dir (files d) (butlast p) then (Some ErrIO, d1)
      else (None, d1\<lparr>files := AList.update p (File []) (files d)\<rparr>))"

text \<open>\<open>(*os.File).Write\<close> at the end of an open file: bytes written and the error.\<close>

definition os_Write :: "os_env \<Rightarrow> string \<Rightarrow> bytes \<Rightarrow> disk \<Rightarrow> (nat \<times> go_error option) \<times> disk" where
  "os_Write env path bs d =
     (let p = path_comps path; d1 = tick d in
      case map_of (files d) p of
        Some (File c) \<Rightarrow>
          (if faulty env d
           then let part = take (io_short env (io_tick d)) bs
                in ((length part, Some ErrIO), d1\<lparr>files := AList.update p (File (c @ part)) (files d)\<rparr>)
           else ((length bs, None), d1\<lparr>files := AList.update p (File (c @ bs)) (files d)\<rparr>))
      | _ \<Rightarrow> ((0, Some ErrIO), d1))"

definition mkdir_missing :: "string list \<Rightarrow> fs \<Rightarrow> fs" where
  "mkdir_missing q f = (if map_of f q = None then (q, Dir) # f else f)"

definition ancestors :: "string list \<Rightarrow> string list list" where
  "ancestors p = filter (\<lambda>q. q \<noteq> []) (prefixes p)"

definition os_MkdirAll :: "os_env \<Rightarrow> string \<Rightarrow> disk \<Rightarrow> go_error option \<times> disk" where
  "os_MkdirAll env path d =
     (let as = ancestors (path_comps path); d1 = tick d in
      if faulty env d then (Some ErrIO, d1)
      else if list_all (\<lambda>q. map_of (files d) q = None \<or> map_of (files d) q = Some Dir) as
      then (None, d1\<lparr>files := fold mkdir_missing as (files d)\<rparr>)
      else (Some ErrIO, d1))"

text \<open>\<open>os.Rename\<close>; the program renames regular files only.\<close>

definition os_Rename :: "os_env \<Rightarrow> string \<Rightarrow> string \<Rightarrow> disk \<Rightarrow> go_error option \<times> disk" where
  "os_Rename env old new d =
     (let p = path_comps old; q = path_comps new; d1 = tick d in
      if faulty env d then (Some ErrIO, d1)
      else case map_of (files d) p of
        Some (File c) \<Rightarrow>
          (if is_dir (files d) q \<or> \<not> is_dir (files d) (butlast q) then (Some ErrIO, d1)
           else (None, d1\<lparr>files := AList.update q (File c) (AList.delete p (files d))\<rparr>))
      | Some Dir \<Rightarrow> (Some ErrIO, d1)
      | None \<Rightarrow> (Some ErrNotExist, d1))"

text \<open>\<open>os.Remove\<close>: a file or an empty directory; the root cannot be removed.\<close>

definition os_Remove :: "os_env \<Rightarrow> string \<Rightarrow> disk \<Rightarrow> go_error option \<times> disk" where
  "os_Remove env path d =
     (let p = path_comps path; d1 = tick d in
      if faulty env d \<or> p = [] then (Some ErrIO, d1)
      else case map_of (files d) p of
        None \<Rightarrow> (Some ErrNotExist, d1)
      | Some (File c) \<Rightarrow> (None, d1\<lparr>files := AList.delete p (files d)\<rparr>)
      | Some Dir \<Rightarrow>
          (if has_children (files d) p then (Some ErrIO, d1)
           else (None, d1\<lparr>files := AList.delete p (files d)\<rparr>)))"

text \<open>\<open>os.RemoveAll\<close>: nil for a missing path; a failing call may have removed some files.\<close>

definition os_RemoveAll :: "os_env \<Rightarrow> string \<Rightarrow> disk \<Rightarrow> go_error option \<times> disk" where
  "os_RemoveAll env path d =
     (let p = path_comps path; d1 = tick d;
          gone = filter (\<lambda>k. prefix p k) (map fst (files d)) in
      if faulty env d
      then let some = take (io_short env (io_tick d))
                        (filter (\<lambda>k. map_of (files d) k \<noteq> Some Dir) gone)
           in (Some ErrIO, d1\<lparr>files := filter (\<lambda>(k, v). k \<notin> set some) (files d)\<rparr>)
      else (None, d1\<lparr>files := filter (\<lambda>(k, v). \<not> prefix p k) (files d)\<rparr>))"

text \<open>\<open>os.Open\<close>: the handle is the node; a directory opens, and fails when it is read.\<close>

definition os_Open :: "os_env \<Rightarrow> string \<Rightarrow> disk \<Rightarrow> node result \<times> disk" where
  "os_Open env path d =
     (let p = path_comps path; d1 = tick d in
      if faulty env d then (Inl ErrIO, d1)
      else if is_dir (files d) p then (Inr Dir, d1)
      else case map_of (files d) p of
        None \<Rightarrow> (Inl ErrNotExist, d1)
      | Some n \<Rightarrow> (Inr n, d1))"

text \<open>\<open>os.ReadDir\<close>: the entries of a directory, sorted by name.\<close>

definition dir_entries :: "fs \<Rightarrow> string list \<Rightarrow> (string \<times> node) list" where
  "dir_entries f p =
     sort_key fst (map (\<lambda>k. (last k, the (map_of f k)))
       (remdups (filter (\<lambda>k. k \<noteq> [] \<and> butlast k = p) (map fst f))))"

definition os_ReadDir :: "os_env \<Rightarrow> string \<Rightarrow> disk \<Rightarrow> (string \<times> node) list result \<times> disk" where
  "os_ReadDir env path d =
     (let p = path_comps path; d1 = tick d in
      if faulty env d then (Inl ErrIO, d1)
      else if is_dir (files d) p then (Inr (dir_entries (files d) p), d1)
      else if map_of (files d) p = None then (Inl ErrNotExist, d1)
      else (Inl ErrIO, d1))"

text \<open>
  \<open>filepath.WalkDir\<close>: the entries below a root in lexical order, the callback on each, stopping
  at the first error and passing over what lies below a directory for which the callback answers
  \<open>SkipDir\<close>.  The root must exist, and reading a directory after the callback has accepted it
  may fail; every callback of the program returns such an error as it is.
\<close>

datatype walk_step = Continue | SkipDir | Stop go_error

definition walk_list :: "fs \<Rightarrow> string list \<Rightarrow> string list list" where
  "walk_list f root = sort (remdups (filter (\<lambda>k. prefix root k) (map fst f)))"

definition abs_path :: "string list \<Rightarrow> string" where
  "abs_path p = ''/'' @ join_with ''/'' p"

function walk_dir ::
  "os_env \<Rightarrow> (string list \<Rightarrow> node \<Rightarrow> disk \<Rightarrow> walk_step \<times> disk) \<Rightarrow>
   string list list \<Rightarrow> disk \<Rightarrow> go_error option \<times> disk" where
  "walk_dir env fn [] d = (None, d)"
| "walk_dir env fn (p # ps) d =
     (case map_of (files d) p of
        None \<Rightarrow> walk_dir env fn ps d
      | Some n \<Rightarrow>
          (case fn p n d of
             (Stop e, d1) \<Rightarrow> (Some e, d1)
           | (SkipDir, d1) \<Rightarrow> walk_dir env fn (filter (\<lambda>k. \<not> prefix p k) ps) d1
           | (Continue, d1) \<Rightarrow>
               if n = Dir
               then (case os_call env ErrIO d1 of
                       (Some e, d2) \<Rightarrow> (Some e, d2)
                     | (None, d2) \<Rightarrow> walk_dir env fn ps d2)
               else walk_dir env fn ps d1))"
  by pat_completeness auto
termination
  by (relation "measure (\<lambda>(env, fn, ps, d). length ps)") (auto intro: le_imp_less_Suc)

definition WalkDir ::
  "os_env \<Rightarrow> string \<Rightarrow> (string list \<Rightarrow> node \<Rightarrow> disk \<Rightarrow> walk_step \<times> disk) \<Rightarrow> disk \<Rightarrow> go_error option \<times> disk" where
  "WalkDir env root fn d =
     (let p = path_comps root; d1 = tick d in
      if faulty env d then (Some ErrIO, d1)
      else if map_of (files d) p = None then (Some ErrNotExist, d1)
      else walk_dir env fn (walk_list (files d) p) d1)"

section \<open>File contents and frame rules\<close>

text \<open>The abstract view of a disk: the content of every regular file.\<close>

definition file_at :: "disk \<Rightarrow> string list \<Rightarrow> bytes option" where
  "file_at d p = (case map_of (files d) p of Some (File c) \<Rightarrow> Some c | _ \<Rightarrow> None)"

lemma file_at_Some: "file_at d p = Some c \<longleftrightarrow> map_of (files d) p = Some (File c)"
  by (auto simp: file_at_def split: option.splits node.splits)

lemma files_tick [simp]: "files (tick d) = files d"
  by (simp add: tick_def)

lemma uuid_tick [simp]: "next_uuid (tick d) = next_uuid d"
  by (simp add: tick_def)

lemma file_at_cong: "files d = files d' \<Longrightarrow> file_at d p = file_at d' p"
  by (simp add: file_at_def)

lemma file_at_tick [simp]: "file_at (tick d) p = file_at d p"
  by (rule file_at_cong) simp

lemma file_at_uuid [simp]: "file_at (d\<lparr>next_uuid := n\<rparr>) p = file_at d p"
  by (rule file_at_cong) simp

lemma os_call_files [keeps]: "os_call env e d = (r, d') \<Longrightarrow> files d' = files d \<and> next_uuid d' = next_uuid d"
  by (auto simp: os_call_def)

lemma ctx_err_files [keeps]: "ctx_err env d = (r, d') \<Longrightarrow> files d' = files d \<and> next_uuid d' = next_uuid d"
  by (auto simp: ctx_err_def os_call_def)

lemma map_of_mkdir_missing:
  "map_of (mkdir_missing q f) p = (if p = q \<and> map_of f q = None then Some Dir else map_of f p)"
  by (auto simp: mkdir_missing_def)

lemma map_of_fold_mkdir:
  "map_of (fold mkdir_missing qs f) p =
   (if p \<in> set qs \<and> map_of f p = None then Some Dir else map_of f p)"
  by (induction qs arbitrary: f) (auto simp: map_of_mkdir_missing)

lemma os_Create_file_at:
  "os_Create env path d = (r, d') \<Longrightarrow>
   file_at d' q = (if r = None \<and> q = path_comps path then Some [] else file_at d q)"
  by (auto simp: os_Create_def Let_def file_at_def update_conv' split: if_splits)

lemma os_Write_file_at:
  assumes "os_Write env path bs d = ((n, r), d')"
  shows "file_at d' q =
         (if q = path_comps path
          then map_option (\<lambda>c. c @ take n bs) (file_at d q) else file_at d q)"
    and "r = None \<Longrightarrow> n = length bs \<and> file_at d (path_comps path) \<noteq> None"
  using assms
  by (auto simp: os_Write_def Let_def file_at_def update_conv' min_def
      split: if_splits option.splits node.splits)

lemma os_Write_nodes:
  "os_Write env path bs d = (w, d') \<Longrightarrow> q \<noteq> path_comps path \<Longrightarrow> map_of (files d') q = map_of (files d) q"
  by (auto simp: os_Write_def Let_def update_conv' split: if_splits option.splits node.splits)

lemma os_MkdirAll_file_at:
  "os_MkdirAll env path d = (r, d') \<Longrightarrow> file_at d' q = file_at d q"
  by (auto simp: os_MkdirAll_def Let_def file_at_def map_of_fold_mkdir split: if_splits option.splits)

lemma os_Rename_cases:
  assumes "os_Rename env old new d = (r, d')"
  obtains (failed) e where "r = Some e" and "files d' = files d"
  | (renamed) c where "r = None" and "map_of (files d) (path_comps old) = Some (File c)"
      and "files d' = AList.update (path_comps new) (File c) (AList.delete (path_comps old) (files d))"
proof (cases "map_of (files d) (path_comps old)")
  case None
  with assms show ?thesis
    by (auto simp: os_Rename_def Let_def split: if_splits intro: failed)
next
  case (Some n)
  with assms show ?thesis
    by (cases n) (auto simp: os_Rename_def Let_def split: if_splits intro: failed renamed)
qed

lemma os_Rename_file_at:
  assumes "os_Rename env old new d = (r, d')"
  shows "file_at d' q =
         (if r = None
          then if q = path_comps new then file_at d (path_comps old)
               else if q = path_comps old then None else file_at d q
          else file_at d q)"
  using assms
proof (cases rule: os_Rename_cases)
  case failed
  then show ?thesis by (simp add: file_at_cong [of d' d])
next
  case (renamed c)
  then show ?thesis by (simp add: file_at_def update_conv' delete_conv')
qed

lemma os_Rename_old_exists:
  "os_Rename env old new d = (None, d') \<Longrightarrow> file_at d (path_comps old) \<noteq> None"
  by (erule os_Rename_cases) (auto simp: file_at_def)

lemma os_Remove_cases:
  assumes "os_Remove env path d = (r, d')"
  obtains (kept) "r \<noteq> None" and "files d' = files d"
  | (removed) "r = None" and "files d' = AList.delete (path_comps path) (files d)"
proof (cases "map_of (files d) (path_comps path)")
  case None
  with assms show ?thesis by (auto simp: os_Remove_def Let_def split: if_splits intro: kept)
next
  case (Some n)
  with assms show ?thesis
    by (cases n) (auto simp: os_Remove_def Let_def split: if_splits intro: kept removed)
qed

lemma os_Remove_file_at:
  assumes "os_Remove env path d = (r, d')"
  shows "file_at d' q = (if r = None \<and> q = path_comps path then None else file_at d q)"
  using assms
proof (cases rule: os_Remove_cases)
  case kept
  then show ?thesis using file_at_cong [of d' d] by auto
next
  case removed
  then show ?thesis by (simp add: file_at_def delete_conv')
qed

lemma os_Remove_ErrNotExist:
  "os_Remove env path d = (Some ErrNotExist, d') \<Longrightarrow>
   files d' = files d \<and> map_of (files d) (path_comps path) = None"
  by (auto simp: os_Remove_def Let_def split: if_splits option.splits node.splits)

lemma os_Open_files: "os_Open env path d = (r, d') \<Longrightarrow> files d' = files d \<and> next_uuid d' = next_uuid d"
  by (auto simp: os_Open_def Let_def split: if_splits option.splits)

lemma os_Open_File:
  "os_Open env path d = (Inr (File c), d') \<Longrightarrow> file_at d (path_comps path) = Some c"
  by (auto simp: os_Open_def Let_def file_at_def split: if_splits option.splits)

lemma map_of_filter_key:
  "map_of (filter (\<lambda>(k, v). P k) xs) p = (if P p then map_of xs p else None)"
  by (induction xs) auto

lemma os_RemoveAll_cases:
  assumes "os_RemoveAll env path d = (r, d')"
  obtains P where "\<And>q. map_of (files d') q = (if P q then map_of (files d) q else None)"
    and "\<And>q. \<not> prefix (path_comps path) q \<Longrightarrow> P q"
    and "r = None \<Longrightarrow> (\<And>q. P q \<longleftrightarrow> \<not> prefix (path_comps path) q)"
proof (cases "faulty env d")
  case True
  define some where "some = take (io_short env (io_tick d))
    (filter (\<lambda>k. map_of (files d) k \<noteq> Some Dir)
      (filter (\<lambda>k. prefix (path_comps path) k) (map fst (files d))))"
  have "files d' = filter (\<lambda>(k, v). k \<notin> set some) (files d)" "r = Some ErrIO"
    using assms True by (auto simp: os_RemoveAll_def Let_def some_def)
  moreover have "k \<in> set some \<Longrightarrow> prefix (path_comps path) k" for k
    unfolding some_def by (auto dest: in_set_takeD)
  ultimately show ?thesis
    by (intro that [of "\<lambda>k. k \<notin> set some"]) (auto simp: map_of_filter_key)
next
  case False
  then have "files d' = filter (\<lambda>(k, v). \<not> prefix (path_comps path) k) (files d)"
    using assms by (auto simp: os_RemoveAll_def Let_def)
  then show ?thesis
    by (intro that [of "\<lambda>k. \<not> prefix (path_comps path) k"]) (auto simp: map_of_filter_key)
qed

lemma os_RemoveAll_outside:
  "os_RemoveAll env path d = (r, d') \<Longrightarrow> \<not> prefix (path_comps path) q \<Longrightarrow> file_at d' q = file_at d q"
  by (erule os_RemoveAll_cases) (simp add: file_at_def)

lemma os_RemoveAll_inside:
  "os_RemoveAll env path d = (None, d') \<Longrightarrow> prefix (path_comps path) q \<Longrightarrow> file_at d' q = None"
  by (erule os_RemoveAll_cases) (simp add: file_at_def)

lemma os_RemoveAll_shrinks:
  "os_RemoveAll env path d = (r, d') \<Longrightarrow> file_at d' q \<noteq> None \<Longrightarrow> file_at d' q = file_at d q"
  by (erule os_RemoveAll_cases) (simp add: file_at_def split: if_splits)

lemma os_Create_uuid [keeps]: "os_Create env path d = (r, d') \<Longrightarrow> next_uuid d' = next_uuid d"
  by (auto simp: os_Create_def Let_def split: if_splits)

lemma os_Write_uuid [keeps]: "os_Write env path bs d = (w, d') \<Longrightarrow> next_uuid d' = next_uuid d"
  by (auto simp: os_Write_def Let_def split: if_splits option.splits node.splits)

lemma os_MkdirAll_uuid [keeps]: "os_MkdirAll env path d = (r, d') \<Longrightarrow> next_uuid d' = next_uuid d"
  by (auto simp: os_MkdirAll_def Let_def split: if_splits)

lemma os_Rename_uuid [keeps]:
  assumes "os_Rename env old new d = (r, d')"
  shows "next_uuid d' = next_uuid d"
proof (cases "map_of (files d) (path_comps old)")
  case None
  with assms show ?thesis by (auto simp: os_Rename_def Let_def split: if_splits)
next
  case (Some n)
  with assms show ?thesis
    by (cases n) (auto simp: os_Rename_def Let_def split: if_splits)
qed

lemma os_Remove_uuid [keeps]: "os_Remove env path d = (r, d') \<Longrightarrow> next_uuid d' = next_uuid d"
  by (auto simp: os_Remove_def Let_def split: if_splits option.splits node.splits)

lemma os_RemoveAll_uuid [keeps]: "os_RemoveAll env path d = (r, d') \<Longrightarrow> next_uuid d' = next_uuid d"
  by (auto simp: os_RemoveAll_def Let_def split: if_splits)

end
