(* ===== verification/Storage.thy ===== *)
theory Storage
  imports FileSystem
begin

text \<open>
  Package \<open>internal/storage\<close>: the disk engine.  Key and path validation (\<open>sanitize.go\<close>),
  durable writes, parts and assembly (\<open>write.go\<close>), reads (\<open>read.go\<close>) and deletes
  (\<open>delete.go\<close>).  \<open>engine.New\<close> is \<open>New\<close> here.  A request body is a \<open>reader\<close>: the
  results of its successive \<open>Read\<close> calls, the end of the list being \<open>io.EOF\<close>.
\<close>

record engine =
  dataDir :: string
  tmpDir :: string

type_synonym reader = "(bytes \<times> go_error option) list"

section \<open>\<open>engine.go\<close> and \<open>sanitize.go\<close>\<close>

definition defaultDataDir :: string where
  "defaultDataDir = ''./data''"

definition New :: "os_env \<Rightarrow> string \<Rightarrow> disk \<Rightarrow> engine result \<times> disk" where
  "New env dir d =
     (let trimmed = TrimSpace dir;
          dir' = (if trimmed = [] then defaultDataDir else trimmed);
          absDataDir = filepath_Abs (getwd env) dir'
      in case os_MkdirAll env absDataDir d of
           (Some e, d1) \<Rightarrow> (Inl e, d1)
         | (None, d1) \<Rightarrow>
             let tmp = filepath_Join [absDataDir, ''.tmp'']
             in case os_MkdirAll env tmp d1 of
                  (Some e, d2) \<Rightarrow> (Inl e, d2)
                | (None, d2) \<Rightarrow> (Inr \<lparr>dataDir = absDataDir, tmpDir = tmp\<rparr>, d2))"

definition containsTraversalSegment :: "string \<Rightarrow> bool" where
  "containsTraversalSegment key \<longleftrightarrow>
     list_ex (\<lambda>part. part = ''..'')
       (split_on CHR ''/'' (replace_char (CHR 0x5C) CHR ''/'' key))"

definition ValidateKey :: "string \<Rightarrow> go_error option" where
  "ValidateKey key =
     (if key = [] then Some ErrInvalidKey
      else if length key > 1024 then Some ErrInvalidKey
      else if key = ''.'' \<or> key = ''..'' then Some ErrInvalidKey
      else if HasPrefix key ''/'' then Some ErrInvalidKey
      else if contains_char key (CHR 0x00) then Some ErrInvalidKey
      else if contains_char key (CHR 0x0A) \<or> contains_char key (CHR 0x0D) then Some ErrInvalidKey
      else if containsTraversalSegment key then Some ErrPathTraversal
      else if \<not> ValidString key then Some ErrInvalidKey
      else let cleaned = filepath_Clean key
           in if cleaned = ''.'' \<or> cleaned = [] then Some ErrInvalidKey else None)"

definition StoragePath :: "string \<Rightarrow> string \<Rightarrow> string" where
  "StoragePath bucketName key = filepath_Join [bucketName, filepath_Clean key]"

definition isWithinBase :: "os_env \<Rightarrow> string \<Rightarrow> string \<Rightarrow> bool" where
  "isWithinBase env base target =
     (case filepath_Rel (filepath_Abs (getwd env) base) (filepath_Abs (getwd env) target) of
        Inl e \<Rightarrow> False
      | Inr rel \<Rightarrow>
          if rel = ''..'' then False
          else if HasPrefix rel ''../'' then False
          else True)"

definition resolveKeyPath :: "os_env \<Rightarrow> engine \<Rightarrow> string \<Rightarrow> string \<Rightarrow> (string \<times> string) result" where
  "resolveKeyPath env e bucketName key =
     (let bucket = TrimSpace bucketName in
      if bucket = [] then Inl ErrInvalidKey
      else case ValidateKey key of
        Some err \<Rightarrow> Inl err
      | None \<Rightarrow>
          let storagePath = StoragePath bucket key;
              fullPath = filepath_Clean (filepath_Join [dataDir e, storagePath])
          in if \<not> isWithinBase env (dataDir e) fullPath then Inl ErrPathTraversal
             else Inr (storagePath, fullPath))"

definition resolveStoragePath :: "os_env \<Rightarrow> engine \<Rightarrow> string \<Rightarrow> string result" where
  "resolveStoragePath env e storagePath =
     (if TrimSpace storagePath = [] then Inl ErrInvalidKey
      else if IsAbs storagePath then Inl ErrInvalidKey
      else let cleaned = filepath_Clean storagePath;
               fullPath = filepath_Clean (filepath_Join [dataDir e, cleaned])
           in if \<not> isWithinBase env (dataDir e) fullPath then Inl ErrPathTraversal
              else Inr fullPath)"

definition validateUploadID :: "string \<Rightarrow> go_error option" where
  "validateUploadID uploadID =
     (if TrimSpace uploadID = [] then Some ErrInvalidKey
      else if contains_char uploadID CHR ''/'' \<or> contains_char uploadID (CHR 0x5C)
      then Some ErrInvalidKey
      else if contains_char uploadID (CHR 0x00) \<or> contains_char uploadID (CHR 0x0A)
              \<or> contains_char uploadID (CHR 0x0D) then Some ErrInvalidKey
      else if containsTraversalSegment uploadID then Some ErrPathTraversal
      else if \<not> ValidString uploadID then Some ErrInvalidKey
      else None)"

section \<open>\<open>read.go\<close>\<close>

definition Open :: "os_env \<Rightarrow> engine \<Rightarrow> string \<Rightarrow> disk \<Rightarrow> node result \<times> disk" where
  "Open env e storagePath d =
     (case ctx_err env d of
        (Some err, d1) \<Rightarrow> (Inl err, d1)
      | (None, d1) \<Rightarrow>
          (case resolveStoragePath env e storagePath of
             Inl err \<Rightarrow> (Inl err, d1)
           | Inr fullPath \<Rightarrow>
               (case os_Open env fullPath d1 of
                  (Inl err, d2) \<Rightarrow> (if err = ErrNotExist then Inl ErrNotFound else Inl err, d2)
                | (Inr f, d2) \<Rightarrow> (Inr f, d2))))"

definition Read :: "os_env \<Rightarrow> engine \<Rightarrow> string \<Rightarrow> disk \<Rightarrow> node result \<times> disk" where
  "Read env e storagePath d =
     (case ctx_err env d of
        (Some err, d1) \<Rightarrow> (Inl err, d1)
      | (None, d1) \<Rightarrow>
          (case resolveStoragePath env e storagePath of
             Inl err \<Rightarrow> (Inl err, d1)
           | Inr fullPath \<Rightarrow>
               (case os_Open env fullPath d1 of
                  (Inl err, d2) \<Rightarrow> (if err = ErrNotExist then Inl ErrNotFound else Inl err, d2)
                | (Inr f, d2) \<Rightarrow> (Inr f, d2))))"

section \<open>\<open>write.go\<close>\<close>

fun copyWithContext ::
  "os_env \<Rightarrow> string \<Rightarrow> reader \<Rightarrow> int \<Rightarrow> disk \<Rightarrow> (int \<times> go_error option) \<times> disk" where
  "copyWithContext env dst [] written d =
     (case ctx_err env d of (err, d1) \<Rightarrow> ((written, err), d1))"
| "copyWithContext env dst ((buf, readErr) # src) written d =
     (case ctx_err env d of
        (Some err, d1) \<Rightarrow> ((written, Some err), d1)
      | (None, d1) \<Rightarrow>
          if buf \<noteq> [] then
            (case os_Write env dst buf d1 of
               ((nw, writeErr), d2) \<Rightarrow>
                 let written' = written + int nw in
                 case writeErr of
                   Some err \<Rightarrow> ((written', Some err), d2)
                 | None \<Rightarrow>
                     if nw \<noteq> length buf then ((written', Some ErrShortWrite), d2)
                     else (case readErr of
                             Some err \<Rightarrow> ((written', Some err), d2)
                           | None \<Rightarrow> copyWithContext env dst src written' d2))
          else (case readErr of
                  Some err \<Rightarrow> ((written, Some err), d1)
                | None \<Rightarrow> copyWithContext env dst src written d1))"

definition syncDir :: "os_env \<Rightarrow> string \<Rightarrow> disk \<Rightarrow> go_error option \<times> disk" where
  "syncDir env dir d =
     (case os_Open env dir d of
        (Inl err, d1) \<Rightarrow> (Some err, d1)
      | (Inr h, d1) \<Rightarrow>
          (case os_call env ErrIO d1 of
             (syncErr, d2) \<Rightarrow>
               (case os_call env ErrIO d2 of
                  (closeErr, d3) \<Rightarrow> (if syncErr = None then closeErr else syncErr, d3))))"

definition writeDurably ::
  "os_env \<Rightarrow> string \<Rightarrow> string \<Rightarrow> (disk \<Rightarrow> (int \<times> go_error option) \<times> disk) \<Rightarrow> disk
   \<Rightarrow> int result \<times> disk" where
  "writeDurably env tempPath finalPath fill d =
     (case os_Create env tempPath d of
        (Some err, d1) \<Rightarrow> (Inl err, d1)
      | (None, d1) \<Rightarrow>
          (case fill d1 of ((written, err1), d2) \<Rightarrow>
           case (if err1 = None then os_call env ErrIO d2 else (err1, d2)) of (err2, d3) \<Rightarrow>
           case os_call env ErrIO d3 of (closeErr, d4) \<Rightarrow>
           let err3 = (if err2 = None then closeErr else err2) in
           case (if err3 = None then os_MkdirAll env (filepath_Dir finalPath) d4
                 else (err3, d4)) of (err4, d5) \<Rightarrow>
           case (if err4 = None then os_Rename env tempPath finalPath d5
                 else (err4, d5)) of (err5, d6) \<Rightarrow>
           (case err5 of
              Some err \<Rightarrow> (case os_Remove env tempPath d6 of (ignored, d7) \<Rightarrow> (Inl err, d7))
            | None \<Rightarrow>
                (case syncDir env (filepath_Dir finalPath) d6 of
                   (Some err, d7) \<Rightarrow>
                     (case os_Remove env finalPath d7 of (ignored, d8) \<Rightarrow> (Inl err, d8))
                 | (None, d7) \<Rightarrow> (Inr written, d7)))))"

text \<open>\<open>copyParts\<close>; a directory handle fails at its first read.\<close>

definition node_reader :: "node \<Rightarrow> reader" where
  "node_reader n = (case n of Dir \<Rightarrow> [([], Some ErrIO)] | File c \<Rightarrow> [(c, None)])"

fun copyParts ::
  "os_env \<Rightarrow> engine \<Rightarrow> string \<Rightarrow> string list \<Rightarrow> int \<Rightarrow> disk \<Rightarrow> (int \<times> go_error option) \<times> disk" where
  "copyParts env e w [] tot d = ((tot, None), d)"
| "copyParts env e w (partPath # rest) tot d =
     (case resolveStoragePath env e partPath of
        Inl err \<Rightarrow> ((tot, Some err), d)
      | Inr partFullPath \<Rightarrow>
          (case os_Open env partFullPath d of
             (Inl err, d1) \<Rightarrow> ((tot, Some err), d1)
           | (Inr partFile, d1) \<Rightarrow>
               (case copyWithContext env w (node_reader partFile) 0 d1 of
                  ((written, err), d2) \<Rightarrow>
                    (case os_call env ErrIO d2 of
                       (ignored, d3) \<Rightarrow>
                         let acc = tot + written in
                         (case err of
                            Some er \<Rightarrow> ((acc, Some er), d3)
                          | None \<Rightarrow> copyParts env e w rest acc d3)))))"

definition Write ::
  "os_env \<Rightarrow> engine \<Rightarrow> string \<Rightarrow> string \<Rightarrow> reader \<Rightarrow> disk \<Rightarrow> (string \<times> int) result \<times> disk" where
  "Write env e bucketName key r d =
     (case ctx_err env d of
        (Some err, d1) \<Rightarrow> (Inl err, d1)
      | (None, d1) \<Rightarrow>
          (case resolveKeyPath env e bucketName key of
             Inl err \<Rightarrow> (Inl err, d1)
           | Inr ignored \<Rightarrow>
               (case new_uuid env d1 of (u1, d2) \<Rightarrow>
                let storagePath = filepath_Join [bucketName, u1];
                    fullPath = filepath_Clean (filepath_Join [dataDir e, storagePath]) in
                if \<not> isWithinBase env (dataDir e) fullPath then (Inl ErrPathTraversal, d2)
                else
                  case new_uuid env d2 of (u2, d3) \<Rightarrow>
                  let tempPath = filepath_Join [tmpDir e, u2 @ ''.tmp''] in
                  (case writeDurably env tempPath fullPath
                          (\<lambda>s. copyWithContext env tempPath r 0 s) d3 of
                     (Inl err, d4) \<Rightarrow> (Inl err, d4)
                   | (Inr written, d4) \<Rightarrow> (Inr (storagePath, written), d4)))))"

definition WritePart ::
  "os_env \<Rightarrow> engine \<Rightarrow> string \<Rightarrow> int \<Rightarrow> reader \<Rightarrow> disk \<Rightarrow> (string \<times> int) result \<times> disk" where
  "WritePart env e uploadID partNumber r d =
     (case ctx_err env d of
        (Some err, d1) \<Rightarrow> (Inl err, d1)
      | (None, d1) \<Rightarrow>
          (case validateUploadID uploadID of
             Some err \<Rightarrow> (Inl err, d1)
           | None \<Rightarrow>
               let partDir = filepath_Join [tmpDir e, ''multipart'', uploadID] in
               (case os_MkdirAll env partDir d1 of
                  (Some err, d2) \<Rightarrow> (Inl err, d2)
                | (None, d2) \<Rightarrow>
                    (case new_uuid env d2 of (u, d3) \<Rightarrow>
                     let tempName = Itoa partNumber @ ''.tmp-'' @ u;
                         partPath = filepath_Join [partDir, tempName] in
                     (case writeDurably env partPath partPath
                             (\<lambda>s. copyWithContext env partPath r 0 s) d3 of
                        (Inl err, d4) \<Rightarrow> (Inl err, d4)
                      | (Inr written, d4) \<Rightarrow>
                          (Inr (filepath_Join [''.tmp'', ''multipart'', uploadID, tempName],
                                written), d4))))))"

definition AssembleParts ::
  "os_env \<Rightarrow> engine \<Rightarrow> string \<Rightarrow> string \<Rightarrow> string list \<Rightarrow> disk \<Rightarrow> (string \<times> int) result \<times> disk" where
  "AssembleParts env e bucketName key partPaths d =
     (case ctx_err env d of
        (Some err, d1) \<Rightarrow> (Inl err, d1)
      | (None, d1) \<Rightarrow>
          (case ValidateKey key of
             Some err \<Rightarrow> (Inl err, d1)
           | None \<Rightarrow>
               (case new_uuid env d1 of (objName, d2) \<Rightarrow>
                let storagePath = filepath_Join [bucketName, objName];
                    fullPath = filepath_Join [dataDir e, storagePath] in
                if \<not> isWithinBase env (dataDir e) fullPath then (Inl ErrPathTraversal, d2)
                else
                  case new_uuid env d2 of (u2, d3) \<Rightarrow>
                  let tempPath = filepath_Join [tmpDir e, u2 @ ''.tmp''] in
                  (case writeDurably env tempPath fullPath
                          (\<lambda>s. copyParts env e tempPath partPaths 0 s) d3 of
                     (Inl err, d4) \<Rightarrow> (Inl err, d4)
                   | (Inr totalSize, d4) \<Rightarrow> (Inr (storagePath, totalSize), d4)))))"

section \<open>\<open>delete.go\<close>\<close>

definition firstPathElement :: "string \<Rightarrow> string" where
  "firstPathElement path =
     (let cleaned = filepath_Clean path in
      if cleaned = ''.'' \<or> cleaned = [] then []
      else case split_on CHR ''/'' cleaned of [] \<Rightarrow> [] | p # ps \<Rightarrow> p)"

text \<open>
  The loop of \<open>pruneEmptyParents\<close>: every iteration removes one existing directory and moves to its
  parent, so it runs at most as often as the path has elements (the fuel its caller passes).
\<close>

fun prune_loop :: "os_env \<Rightarrow> engine \<Rightarrow> string \<Rightarrow> nat \<Rightarrow> string \<Rightarrow> disk \<Rightarrow> disk" where
  "prune_loop env e bucketRoot 0 currentDir d = d"
| "prune_loop env e bucketRoot (Suc n) currentDir d =
     (if currentDir = dataDir e \<or> currentDir = bucketRoot then d
      else case os_Remove env currentDir d of
        (Some err, d1) \<Rightarrow> d1
      | (None, d1) \<Rightarrow> prune_loop env e bucketRoot n (filepath_Dir currentDir) d1)"

definition pruneEmptyParents :: "os_env \<Rightarrow> engine \<Rightarrow> string \<Rightarrow> disk \<Rightarrow> disk" where
  "pruneEmptyParents env e fullPath d =
     (case filepath_Rel (dataDir e) fullPath of
        Inl err \<Rightarrow> d
      | Inr rel \<Rightarrow>
          let bucketName = firstPathElement rel in
          if bucketName = [] \<or> bucketName = ''.'' then d
          else prune_loop env e (filepath_Join [dataDir e, bucketName])
                 (Suc (length (path_comps fullPath))) (filepath_Dir fullPath) d)"

definition Delete :: "os_env \<Rightarrow> engine \<Rightarrow> string \<Rightarrow> disk \<Rightarrow> go_error option \<times> disk" where
  "Delete env e storagePath d =
     (case ctx_err env d of
        (Some err, d1) \<Rightarrow> (Some err, d1)
      | (None, d1) \<Rightarrow>
          (case resolveStoragePath env e storagePath of
             Inl err \<Rightarrow> (Some err, d1)
           | Inr fullPath \<Rightarrow>
               (case os_Remove env fullPath d1 of
                  (Some err, d2) \<Rightarrow> (if err = ErrNotExist then None else Some err, d2)
                | (None, d2) \<Rightarrow> (None, pruneEmptyParents env e fullPath d2))))"

definition DeleteUploadParts :: "os_env \<Rightarrow> engine \<Rightarrow> string \<Rightarrow> disk \<Rightarrow> go_error option \<times> disk" where
  "DeleteUploadParts env e uploadID d =
     (case ctx_err env d of
        (Some err, d1) \<Rightarrow> (Some err, d1)
      | (None, d1) \<Rightarrow>
          (case validateUploadID uploadID of
             Some err \<Rightarrow> (Some err, d1)
           | None \<Rightarrow> os_RemoveAll env (filepath_Join [tmpDir e, ''multipart'', uploadID]) d1))"

end
