(* ===== verification/Encoding.thy ===== *)
theory Encoding
  imports Prelude
begin

text \<open>
  The encodings the handlers use from the Go library: \<open>encoding/hex\<close>, \<open>encoding/base64\<close> (standard
  with padding, raw URL without) and the escapes of \<open>net/url\<close>.  Go's base64 decoder skips
  carriage returns and line feeds and accepts any value of the unused bits of the last group.
\<close>

section \<open>\<open>encoding/hex\<close>\<close>

definition hex_digit :: "nat \<Rightarrow> char" where
  "hex_digit n = ''0123456789abcdef'' ! n"

definition hex_val :: "char \<Rightarrow> nat option" where
  "hex_val c =
     (let n = of_char c :: nat in
      if 48 \<le> n \<and> n \<le> 57 then Some (n - 48)
      else if 97 \<le> n \<and> n \<le> 102 then Some (n - 87)
      else if 65 \<le> n \<and> n \<le> 70 then Some (n - 55) else None)"

fun hex_Encode :: "bytes \<Rightarrow> string" where
  "hex_Encode [] = []"
| "hex_Encode (c # cs) = (let n = of_char c in hex_digit (n div 16) # hex_digit (n mod 16) # hex_Encode cs)"

fun hex_Decode :: "string \<Rightarrow> bytes option" where
  "hex_Decode [] = Some []"
| "hex_Decode [c] = None"
| "hex_Decode (a # b # cs) =
     (case (hex_val a, hex_val b, hex_Decode cs) of
        (Some x, Some y, Some r) \<Rightarrow> Some (char_of (16 * x + y) # r)
      | _ \<Rightarrow> None)"

section \<open>\<open>encoding/base64\<close>\<close>

definition std_alphabet :: string where
  "std_alphabet = ''ABCDEFGHIJKLMNOPQRSTUVWXYZabcdefghijklmnopqrstuvwxyz0123456789+/''"

definition url_alphabet :: string where
  "url_alphabet = ''ABCDEFGHIJKLMNOPQRSTUVWXYZabcdefghijklmnopqrstuvwxyz0123456789-_''"

fun position :: "'a list \<Rightarrow> 'a \<Rightarrow> nat option" where
  "position [] x = None"
| "position (y # ys) x = (if x = y then Some 0 else map_option Suc (position ys x))"

fun b64_Encode :: "string \<Rightarrow> bool \<Rightarrow> bytes \<Rightarrow> string" where
  "b64_Encode A pad [] = []"
| "b64_Encode A pad [a] =
     (let x = of_char a in
      [A ! (x div 4), A ! (x mod 4 * 16)] @ (if pad then ''=='' else []))"
| "b64_Encode A pad [a, b] =
     (let x = of_char a; y = of_char b in
      [A ! (x div 4), A ! (x mod 4 * 16 + y div 16), A ! (y mod 16 * 4)] @ (if pad then ''='' else []))"
| "b64_Encode A pad (a # b # c # r) =
     (let x = of_char a; y = of_char b; z = of_char c in
      [A ! (x div 4), A ! (x mod 4 * 16 + y div 16), A ! (y mod 16 * 4 + z div 64), A ! (z mod 64)]
      @ b64_Encode A pad r)"

definition byte1 :: "nat \<Rightarrow> nat \<Rightarrow> char" where "byte1 p q = char_of (p * 4 + q div 16)"
definition byte2 :: "nat \<Rightarrow> nat \<Rightarrow> char" where "byte2 q r = char_of (q mod 16 * 16 + r div 4)"
definition byte3 :: "nat \<Rightarrow> nat \<Rightarrow> char" where "byte3 r s = char_of (r mod 4 * 64 + s)"

fun b64_groups :: "string \<Rightarrow> bool \<Rightarrow> string \<Rightarrow> bytes option" where
  "b64_groups A pad [] = Some []"
| "b64_groups A pad [c0] = None"
| "b64_groups A pad [c0, c1] =
     (if pad then None
      else case (position A c0, position A c1) of
        (Some p, Some q) \<Rightarrow> Some [byte1 p q] | _ \<Rightarrow> None)"
| "b64_groups A pad [c0, c1, c2] =
     (if pad then None
      else case (position A c0, position A c1, position A c2) of
        (Some p, Some q, Some r) \<Rightarrow> Some [byte1 p q, byte2 q r] | _ \<Rightarrow> None)"
| "b64_groups A pad (c0 # c1 # c2 # c3 # rest) =
     (case (position A c0, position A c1) of
        (Some p, Some q) \<Rightarrow>
          (if pad \<and> c2 = CHR ''='' then (if c3 = CHR ''='' \<and> rest = [] then Some [byte1 p q] else None)
           else case position A c2 of
             None \<Rightarrow> None
           | Some r \<Rightarrow>
               (if pad \<and> c3 = CHR ''='' then (if rest = [] then Some [byte1 p q, byte2 q r] else None)
                else case (position A c3, b64_groups A pad rest) of
                  (Some s, Some bs) \<Rightarrow> Some (byte1 p q # byte2 q r # byte3 r s # bs)
                | _ \<Rightarrow> None))
      | _ \<Rightarrow> None)"

definition b64_Decode :: "string \<Rightarrow> bool \<Rightarrow> string \<Rightarrow> bytes option" where
  "b64_Decode A pad s = b64_groups A pad (filter (\<lambda>c. c \<noteq> CHR 0x0A \<and> c \<noteq> CHR 0x0D) s)"

definition StdEncoding_Encode :: "bytes \<Rightarrow> string" where "StdEncoding_Encode = b64_Encode std_alphabet True"
definition StdEncoding_Decode :: "string \<Rightarrow> bytes option" where "StdEncoding_Decode = b64_Decode std_alphabet True"
definition RawURLEncoding_Encode :: "bytes \<Rightarrow> string" where "RawURLEncoding_Encode = b64_Encode url_alphabet False"
definition RawURLEncoding_Decode :: "string \<Rightarrow> bytes option" where "RawURLEncoding_Decode = b64_Decode url_alphabet False"

section \<open>\<open>net/url\<close>\<close>

definition url_unreserved :: "char \<Rightarrow> bool" where
  "url_unreserved c \<longleftrightarrow>
     (let n = of_char c :: nat in
      48 \<le> n \<and> n \<le> 57 \<or> 65 \<le> n \<and> n \<le> 90 \<or> 97 \<le> n \<and> n \<le> 122) \<or> c \<in> set ''-_.~''"

definition upper_hex_digit :: "nat \<Rightarrow> char" where
  "upper_hex_digit n = ''0123456789ABCDEF'' ! n"

definition percent :: "char \<Rightarrow> string" where
  "percent c = [CHR ''%'', upper_hex_digit (of_char c div 16), upper_hex_digit (of_char c mod 16)]"

definition QueryEscape :: "string \<Rightarrow> string" where
  "QueryEscape s = concat (map (\<lambda>c. if url_unreserved c then [c] else if c = CHR '' '' then ''+'' else percent c) s)"

definition PathEscape :: "string \<Rightarrow> string" where
  "PathEscape s = concat (map (\<lambda>c. if url_unreserved c \<or> c \<in> set ''$&+:=@'' then [c] else percent c) s)"

fun PathUnescape :: "string \<Rightarrow> string option" where
  "PathUnescape [] = Some []"
| "PathUnescape (c # cs) =
     (if c = CHR ''%'' then
        (case cs of
           a # b # rest \<Rightarrow>
             (case (hex_val a, hex_val b, PathUnescape rest) of
                (Some x, Some y, Some r) \<Rightarrow> Some (char_of (16 * x + y) # r)
              | _ \<Rightarrow> None)
         | _ \<Rightarrow> None)
      else map_option (Cons c) (PathUnescape cs))"

section \<open>Round trips\<close>

lemma of_char_less: "of_char (c :: char) < (256 :: nat)"
proof -
  have "of_char c mod 256 = (of_char c :: nat)" by simp
  then show ?thesis by (metis mod_less_divisor zero_less_numeral)
qed

lemma hex_val_digit: "n < 16 \<Longrightarrow> hex_val (hex_digit n) = Some n"
proof -
  have "\<forall>n\<in>set [0..<16]. hex_val (hex_digit n) = Some n" by code_simp
  then show "n < 16 \<Longrightarrow> hex_val (hex_digit n) = Some n" by simp
qed

lemma hex_val_upper_digit: "n < 16 \<Longrightarrow> hex_val (upper_hex_digit n) = Some n"
proof -
  have "\<forall>n\<in>set [0..<16]. hex_val (upper_hex_digit n) = Some n" by code_simp
  then show "n < 16 \<Longrightarrow> hex_val (upper_hex_digit n) = Some n" by simp
qed

lemma char_of_hex: "char_of (16 * (of_char c div 16) + of_char c mod (16 :: nat)) = (c :: char)"
  by (simp add: mult.commute)

lemma hex_roundtrip: "hex_Decode (hex_Encode bs) = Some bs"
proof (induction bs)
  case (Cons c bs)
  have "of_char c div 16 < (16 :: nat)" "of_char c mod 16 < (16 :: nat)" using of_char_less [of c] by (simp_all add: less_mult_imp_div_less)
  with Cons show ?case by (simp add: Let_def hex_val_digit char_of_hex del: of_char_mod_256)
qed simp

lemma hex_Encode_length: "length (hex_Encode bs) = 2 * length bs"
  by (induction bs) (simp_all add: Let_def)

lemma position_nth: "distinct A \<Longrightarrow> n < length A \<Longrightarrow> position A (A ! n) = Some n"
proof (induction A arbitrary: n)
  case (Cons a A)
  then show ?case by (cases n) auto
qed simp

lemma position_None: "x \<notin> set A \<Longrightarrow> position A x = None"
  by (induction A) auto

definition good_alphabet :: "string \<Rightarrow> bool" where
  "good_alphabet A \<longleftrightarrow> distinct A \<and> length A = 64 \<and> CHR ''='' \<notin> set A \<and> CHR 0x0A \<notin> set A \<and> CHR 0x0D \<notin> set A"

lemma alphabets: "good_alphabet std_alphabet" "good_alphabet url_alphabet"
  by code_simp+

lemma group_bytes:
  fixes x y z :: nat
  assumes "x < 256" and "y < 256" and "z < 256"
  shows "byte1 (x div 4) (x mod 4 * 16) = char_of x"
    and "byte1 (x div 4) (x mod 4 * 16 + y div 16) = char_of x"
    and "byte2 (x mod 4 * 16 + y div 16) (y mod 16 * 4) = char_of y"
    and "byte2 (x mod 4 * 16 + y div 16) (y mod 16 * 4 + z div 64) = char_of y"
    and "byte3 (y mod 16 * 4 + z div 64) (z mod 64) = char_of z"
proof -
  have "x div 4 * 4 + x mod 4 * 16 div 16 = x" by simp
  then show "byte1 (x div 4) (x mod 4 * 16) = char_of x" by (simp add: byte1_def)
  have d: "y div 16 < 16" "z div 64 < 4" using assms by auto
  then have "(x mod 4 * 16 + y div 16) div 16 = x mod 4" "(x mod 4 * 16 + y div 16) mod 16 = y div 16"
    "(y mod 16 * 4 + z div 64) div 4 = y mod 16" "(y mod 16 * 4 + z div 64) mod 4 = z div 64" by auto
  then show "byte1 (x div 4) (x mod 4 * 16 + y div 16) = char_of x"
    "byte2 (x mod 4 * 16 + y div 16) (y mod 16 * 4) = char_of y"
    "byte2 (x mod 4 * 16 + y div 16) (y mod 16 * 4 + z div 64) = char_of y"
    "byte3 (y mod 16 * 4 + z div 64) (z mod 64) = char_of z"
    by (simp_all add: byte1_def byte2_def byte3_def)
qed

lemma sextets:
  fixes x y z :: nat
  assumes "x < 256" and "y < 256" and "z < 256"
  shows "x div 4 < 64" "x mod 4 * 16 < 64" "x mod 4 * 16 + y div 16 < 64" "y mod 16 * 4 < 64"
    "y mod 16 * 4 + z div 64 < 64" "z mod 64 < 64"
proof -
  have "x mod 4 \<le> 3" "y mod 16 \<le> 15" "y div 16 \<le> 15" "z div 64 \<le> 3" using assms by auto
  then show "x div 4 < 64" "x mod 4 * 16 < 64" "x mod 4 * 16 + y div 16 < 64" "y mod 16 * 4 < 64"
    "y mod 16 * 4 + z div 64 < 64" "z mod 64 < 64" using assms by auto
qed

lemma alphabet_nth:
  assumes "good_alphabet A" and "n < 64"
  shows "position A (A ! n) = Some n" and "A ! n \<noteq> CHR ''=''" and "A ! n \<noteq> CHR 0x0A" and "A ! n \<noteq> CHR 0x0D"
proof -
  have "A ! n \<in> set A" using assms by (simp add: good_alphabet_def)
  then show "A ! n \<noteq> CHR ''=''" "A ! n \<noteq> CHR 0x0A" "A ! n \<noteq> CHR 0x0D"
    using assms(1) by (auto simp: good_alphabet_def)
  show "position A (A ! n) = Some n" using assms by (simp add: good_alphabet_def position_nth)
qed

lemma b64_groups_Encode: "good_alphabet A \<Longrightarrow> b64_groups A pad (b64_Encode A pad bs) = Some bs"
proof (induction A pad bs rule: b64_Encode.induct)
  case (1 A pad)
  show ?case by simp
next
  case (2 A pad a)
  note n = alphabet_nth [OF 2]
  show ?case
    using sextets [OF of_char_less [of a] of_char_less [of a] of_char_less [of a]]
      group_bytes(1) [OF of_char_less [of a] of_char_less [of a] of_char_less [of a]]
    by (simp add: Let_def n)
next
  case (3 A pad a b)
  note n = alphabet_nth [OF 3]
  show ?case
    using sextets [OF of_char_less [of a] of_char_less [of b] of_char_less [of b]]
      group_bytes(2,3) [OF of_char_less [of a] of_char_less [of b] of_char_less [of b]]
    by (simp add: Let_def n)
next
  case (4 A pad a b c r)
  note n = alphabet_nth [OF 4(2)]
  have IH: "b64_groups A pad (b64_Encode A pad r) = Some r" using 4 by simp
  show ?case
    using sextets [OF of_char_less [of a] of_char_less [of b] of_char_less [of c]]
      group_bytes(2,4,5) [OF of_char_less [of a] of_char_less [of b] of_char_less [of c]]
    by (simp add: Let_def n IH)
qed

lemma b64_Encode_no_newline:
  "good_alphabet A \<Longrightarrow> filter (\<lambda>c. c \<noteq> CHR 0x0A \<and> c \<noteq> CHR 0x0D) (b64_Encode A pad bs) = b64_Encode A pad bs"
proof (induction A pad bs rule: b64_Encode.induct)
  case (1 A pad)
  show ?case by simp
next
  case (2 A pad a)
  show ?case
    using sextets [OF of_char_less [of a] of_char_less [of a] of_char_less [of a]] by (simp add: Let_def alphabet_nth [OF 2])
next
  case (3 A pad a b)
  show ?case
    using sextets [OF of_char_less [of a] of_char_less [of b] of_char_less [of b]] by (simp add: Let_def alphabet_nth [OF 3])
next
  case (4 A pad a b c r)
  show ?case
    using sextets [OF of_char_less [of a] of_char_less [of b] of_char_less [of c]] 4 by (simp add: Let_def alphabet_nth)
qed

lemma b64_roundtrip:
  "StdEncoding_Decode (StdEncoding_Encode bs) = Some bs" "RawURLEncoding_Decode (RawURLEncoding_Encode bs) = Some bs"
  by (simp_all add: StdEncoding_Decode_def StdEncoding_Encode_def RawURLEncoding_Decode_def RawURLEncoding_Encode_def
      b64_Decode_def b64_Encode_no_newline b64_groups_Encode alphabets)

lemma RawURL_length: "length (RawURLEncoding_Encode bs) = (4 * length bs + 2) div 3"
proof -
  have "length (b64_Encode A False bs) = (4 * length bs + 2) div 3" for A
    by (induction A False bs rule: b64_Encode.induct) (simp_all add: Let_def)
  then show ?thesis by (simp add: RawURLEncoding_Encode_def)
qed

lemma PathEscape_roundtrip: "PathUnescape (PathEscape s) = Some s"
proof -
  have step: "PathUnescape ((if url_unreserved c \<or> c \<in> set ''$&+:=@'' then [c] else percent c) @ r) = map_option (Cons c) (PathUnescape r)"
    for c r
  proof (cases "url_unreserved c \<or> c \<in> set ''$&+:=@''")
    case True
    have "\<not> url_unreserved CHR ''%''" "CHR ''%'' \<notin> set ''$&+:=@''" by code_simp+
    with True have "c \<noteq> CHR ''%''" by auto
    with True show ?thesis by simp
  next
    case False
    have "of_char c div 16 < (16 :: nat)" "of_char c mod 16 < (16 :: nat)" using of_char_less [of c] by (simp_all add: less_mult_imp_div_less)
    with False show ?thesis
      by (simp add: percent_def hex_val_upper_digit char_of_hex split: option.splits)
  qed
  show ?thesis
  proof (induction s)
    case (Cons c s)
    have "PathEscape (c # s) = (if url_unreserved c \<or> c \<in> set ''$&+:=@'' then [c] else percent c) @ PathEscape s"
      by (simp add: PathEscape_def)
    with Cons show ?case by (simp only: step) simp
  qed (simp add: PathEscape_def)
qed

end
