(* ===== verification/PublicRead.thy ===== *)
theory PublicRead
  imports Encoding
begin

text \<open>
  Signed public links (\<open>internal/publicread/signer.go\<close>) and share link codes
  (\<open>internal/sharelink/code.go\<close>), with the parts of the Go library they use: instants made from
  Unix seconds, \<open>crypto/hmac\<close> over a SHA-256 function that is a parameter, and a regular expression.
  The lemmas show that a signature made by \<open>SignPath\<close> is accepted until it expires, that
  \<open>Verify\<close> accepts nothing else, and that two different links never have the same signed text.
\<close>

section \<open>Instants and HMAC\<close>

definition wrap64 :: "int \<Rightarrow> int" where
  "wrap64 x = (x + 2 ^ 63) mod 2 ^ 64 - 2 ^ 63"

definition unixToInternal :: int where
  "unixToInternal = 62135596800"

definition second :: int where
  "second = 1000000000"

text \<open>\<open>time.Unix(sec, 0)\<close> adds the offset of the epoch in 64-bit arithmetic; \<open>t.Unix()\<close> takes it off.\<close>

definition time_Unix :: "int \<Rightarrow> time" where
  "time_Unix sec = wrap64 (sec + unixToInternal) * second"

definition unix_of :: "time \<Rightarrow> int" where
  "unix_of t = wrap64 (t div second - unixToInternal)"

definition xor_byte :: "nat \<Rightarrow> char \<Rightarrow> char" where
  "xor_byte k c = char_of (take_bit 8 (xor k (of_char c)))"

definition hmac_key :: "(bytes \<Rightarrow> bytes) \<Rightarrow> bytes \<Rightarrow> bytes" where
  "hmac_key H key =
     (let k = (if length key > 64 then H key else key) in k @ replicate (64 - length k) (CHR 0x00))"

definition hmac :: "(bytes \<Rightarrow> bytes) \<Rightarrow> bytes \<Rightarrow> bytes \<Rightarrow> bytes" where
  "hmac H key msg =
     H (map (xor_byte 0x5C) (hmac_key H key) @ H (map (xor_byte 0x36) (hmac_key H key) @ msg))"

section \<open>\<open>publicread/signer.go\<close>\<close>

record Signer =
  sg_secret :: bytes

definition NewSigner :: "string \<Rightarrow> Signer result" where
  "NewSigner secret =
     (let trimmed = TrimSpace secret in
      if trimmed = [] then Inl ErrSigningDisabled
      else if length trimmed < 32 then Inl ErrInvalidRequest
      else Inr \<lparr>sg_secret = trimmed\<rparr>)"

definition canonicalString :: "string \<Rightarrow> int \<Rightarrow> string \<Rightarrow> string" where
  "canonicalString path expiresUnix responseContentDisposition =
     (let canonical = ''GET'' @ [CHR 0x0A] @ path @ [CHR 0x0A] @ Itoa expiresUnix in
      if responseContentDisposition = [] then canonical
      else canonical @ [CHR 0x0A] @ ''response-content-disposition='' @ QueryEscape responseContentDisposition)"

definition SignPath :: "(bytes \<Rightarrow> bytes) \<Rightarrow> Signer \<Rightarrow> string \<Rightarrow> time \<Rightarrow> string \<Rightarrow> string" where
  "SignPath H s path expiresAt responseContentDisposition =
     hex_Encode (hmac H (sg_secret s) (canonicalString path (unix_of expiresAt) responseContentDisposition))"

definition Verify :: "(bytes \<Rightarrow> bytes) \<Rightarrow> Signer \<Rightarrow> time \<Rightarrow> string \<Rightarrow> string \<Rightarrow> string \<Rightarrow> string \<Rightarrow> go_error option" where
  "Verify H s now path expiresUnix responseContentDisposition signatureHex =
     (case ParseInt (TrimSpace expiresUnix) of
        None \<Rightarrow> Some ErrMalformedSignature
      | Some expiresAtUnix \<Rightarrow>
          if \<not> now < time_Unix expiresAtUnix then Some ErrExpiredSignature
          else case hex_Decode (TrimSpace signatureHex) of
            None \<Rightarrow> Some ErrMalformedSignature
          | Some got \<Rightarrow>
              if length got \<noteq> 32 then Some ErrMalformedSignature
              else case hex_Decode (SignPath H s path (time_Unix expiresAtUnix) responseContentDisposition) of
                None \<Rightarrow> Some ErrInvalidSignature
              | Some want \<Rightarrow> if got \<noteq> want then Some ErrInvalidSignature else None)"

definition ObjectPath :: "string \<Rightarrow> string \<Rightarrow> string" where
  "ObjectPath bucketName key =
     ''/public/'' @ PathEscape bucketName @ ''/'' @ join_with ''/'' (map PathEscape (split_on CHR ''/'' key))"

section \<open>\<open>sharelink/code.go\<close>\<close>

definition GeneratedCodeLength :: nat where "GeneratedCodeLength = 10"
definition RoutePrefix :: string where "RoutePrefix = ''/s/''"

definition codeAlphabet :: string where
  "codeAlphabet = ''0123456789ABCDEFGHIJKLMNOPQRSTUVWXYZabcdefghijklmnopqrstuvwxyz''"

text \<open>\<open>GenerateCode\<close> on the values \<open>rand.Int\<close> returns; None is its error.\<close>

fun draw_code :: "nat \<Rightarrow> (nat \<Rightarrow> nat option) \<Rightarrow> string option" where
  "draw_code 0 draws = Some []"
| "draw_code (Suc n) draws =
     (case draws 0 of
        None \<Rightarrow> None
      | Some i \<Rightarrow> map_option (Cons (codeAlphabet ! i)) (draw_code n (\<lambda>k. draws (Suc k))))"

definition GenerateCode :: "(nat \<Rightarrow> nat option) \<Rightarrow> string option" where
  "GenerateCode draws = draw_code GeneratedCodeLength draws"

text \<open>The language of \<open>^[A-Za-z0-9][A-Za-z0-9_-]{2,63}$\<close>.\<close>

definition ValidateAlias :: "string \<Rightarrow> bool" where
  "ValidateAlias s \<longleftrightarrow>
     (case s of
        [] \<Rightarrow> False
      | c # cs \<Rightarrow> c \<in> set codeAlphabet \<and> 2 \<le> length cs \<and> length cs \<le> 63
          \<and> list_all (\<lambda>x. x \<in> set codeAlphabet \<or> x = CHR ''_'' \<or> x = CHR ''-'') cs)"

definition share_Path :: "string \<Rightarrow> string" where
  "share_Path code = RoutePrefix @ PathEscape code"

section \<open>Numbers in text\<close>

definition graphic :: "char \<Rightarrow> bool" where
  "graphic c \<longleftrightarrow> (let n = of_char c :: nat in 33 \<le> n \<and> n \<le> 126)"

lemma strip_fuel_id: "find (\<lambda>e. prefix e s) encs = None \<Longrightarrow> strip_fuel n encs s = s"
  by (cases n) auto

lemma no_space_prefix:
  assumes "s = [] \<or> graphic (hd s)" and "\<forall>e\<in>set encs. e \<noteq> [] \<and> \<not> graphic (hd e)"
  shows "find (\<lambda>e. prefix e s) encs = None"
  using assms by (cases s) (fastforce simp: find_None_iff prefix_Cons)+

lemma space_heads:
  "\<forall>e\<in>set space_encodings. e \<noteq> [] \<and> \<not> graphic (hd e)"
  "\<forall>e\<in>set (map rev space_encodings). e \<noteq> [] \<and> \<not> graphic (hd e)"
  by code_simp+

lemma TrimSpace_id:
  assumes "s = [] \<or> graphic (hd s) \<and> graphic (last s)"
  shows "TrimSpace s = s"
proof -
  have "strip_fuel n space_encodings s = s" for n
    using assms by (intro strip_fuel_id no_space_prefix space_heads) auto
  moreover have "strip_fuel n (map rev space_encodings) (rev s) = rev s" for n
    using assms by (intro strip_fuel_id no_space_prefix space_heads) (auto simp: hd_rev)
  ultimately show ?thesis by (simp add: TrimSpace_def)
qed

lemma digit_char: "n < 10 \<Longrightarrow> is_digit (char_of (48 + n)) \<and> digit_val (char_of (48 + n)) = int n"
  by (simp add: is_digit_def digit_val_def Let_def)

lemma digits_val_snoc: "digits_val (s @ [c]) = 10 * digits_val s + digit_val c"
  by (simp add: digits_val_def)

lemma nat_digits_props:
  "nat_digits n \<noteq> [] \<and> list_all is_digit (nat_digits n) \<and> digits_val (nat_digits n) = int n"
proof (induction n rule: nat_digits.induct)
  case (1 n)
  show ?case
  proof (cases "n < 10")
    case True
    then show ?thesis
      using digit_char [of n] by (simp add: nat_digits.simps [of n] digits_val_def)
  next
    case False
    have "10 * int (n div 10) + int (n mod 10) = int n" by presburger
    with False 1 digit_char [of "n mod 10"] show ?thesis
      by (simp add: nat_digits.simps [of n] digits_val_snoc)
  qed
qed

lemma is_digit_graphic: "is_digit c \<Longrightarrow> graphic c \<and> c \<noteq> CHR ''-'' \<and> c \<noteq> CHR ''+'' \<and> c \<noteq> CHR 0x0A"
  by (auto simp: is_digit_def graphic_def Let_def)

lemma Itoa_chars: "c \<in> set (Itoa n) \<Longrightarrow> is_digit c \<or> c = CHR ''-''"
  using nat_digits_props [of "nat n"] nat_digits_props [of "nat (- n)"]
  by (auto simp: Itoa_def list_all_iff split: if_splits)

lemma Itoa_ne: "Itoa n \<noteq> []"
  using nat_digits_props [of "nat n"] by (auto simp: Itoa_def)

lemma TrimSpace_Itoa: "TrimSpace (Itoa n) = Itoa n"
proof -
  have "graphic c" if "c \<in> set (Itoa n)" for c
    using Itoa_chars [OF that] is_digit_graphic [of c] by (auto simp: graphic_def)
  then show ?thesis
    using Itoa_ne [of n] by (intro TrimSpace_id) simp
qed

lemma ParseInt_Itoa:
  assumes "- (2 ^ 63) \<le> n" and "n < 2 ^ 63"
  shows "ParseInt (Itoa n) = Some n"
proof (cases "n < 0")
  case True
  with assms nat_digits_props [of "nat (- n)"] show ?thesis
    by (simp add: ParseInt_def Itoa_def)
next
  case False
  have ds: "nat_digits (nat n) \<noteq> []" "list_all is_digit (nat_digits (nat n))" "digits_val (nat_digits (nat n)) = n"
    using nat_digits_props [of "nat n"] False by auto
  then obtain c r where c: "nat_digits (nat n) = c # r" by (cases "nat_digits (nat n)") auto
  with ds have "c \<noteq> CHR ''-''" "c \<noteq> CHR ''+''" using is_digit_graphic [of c] by auto
  with ds c False assms show ?thesis by (simp add: ParseInt_def Itoa_def)
qed

lemma wrap64_id: "- (2 ^ 63) \<le> x \<Longrightarrow> x < 2 ^ 63 \<Longrightarrow> wrap64 x = x"
  by (simp add: wrap64_def)

lemma wrap64_range: "- (2 ^ 63) \<le> wrap64 x \<and> wrap64 x < 2 ^ 63"
proof -
  have "(0 :: int) \<le> (x + 2 ^ 63) mod 2 ^ 64" "(x + 2 ^ 63) mod 2 ^ 64 < (2 :: int) ^ 64" by simp_all
  then show ?thesis by (simp add: wrap64_def)
qed

lemma unix_time_Unix:
  assumes "- (2 ^ 63) \<le> e" and "e < 2 ^ 63"
  shows "unix_of (time_Unix e) = e"
proof -
  have "wrap64 (wrap64 (e + unixToInternal) - unixToInternal) = wrap64 e"
    by (simp add: wrap64_def mod_simps algebra_simps)
  then show ?thesis using wrap64_id [OF assms] by (simp add: unix_of_def time_Unix_def second_def)
qed

lemma Itoa_inj: "Itoa a = Itoa b \<Longrightarrow> a = b"
proof -
  have dash: "hd (nat_digits k) \<noteq> CHR ''-''" for k
    using nat_digits_props [of k] is_digit_graphic by (cases "nat_digits k") auto
  assume eq: "Itoa a = Itoa b"
  have val: "digits_val (nat_digits k) = int k" for k using nat_digits_props [of k] by simp
  show "a = b"
  proof (cases "a < 0"; cases "b < 0")
    assume "a < 0" "b < 0"
    with eq have "nat_digits (nat (- a)) = nat_digits (nat (- b))" by (simp add: Itoa_def)
    then have "int (nat (- a)) = int (nat (- b))" by (metis val)
    with \<open>a < 0\<close> \<open>b < 0\<close> show ?thesis by simp
  next
    assume "\<not> a < 0" "\<not> b < 0"
    with eq have "nat_digits (nat a) = nat_digits (nat b)" by (simp add: Itoa_def)
    then have "int (nat a) = int (nat b)" by (metis val)
    with \<open>\<not> a < 0\<close> \<open>\<not> b < 0\<close> show ?thesis by simp
  next
    assume "a < 0" "\<not> b < 0"
    with eq dash [of "nat b"] show ?thesis by (cases "nat_digits (nat b)") (simp_all add: Itoa_def)
  next
    assume "\<not> a < 0" "b < 0"
    with eq dash [of "nat a"] show ?thesis by (cases "nat_digits (nat a)") (simp_all add: Itoa_def)
  qed
qed

section \<open>Signed links\<close>

text \<open>Every escaped form is a code word no other one begins with, so escaping is injective.\<close>

definition query_code :: "char \<Rightarrow> string" where
  "query_code c = (if url_unreserved c then [c] else if c = CHR '' '' then ''+'' else percent c)"

lemma upper_hex_inj:
  assumes "upper_hex_digit m = upper_hex_digit n" and "m < 16" and "n < 16"
  shows "m = n"
proof -
  have "Some m = Some n"
    unfolding hex_val_upper_digit [OF assms(2), symmetric] hex_val_upper_digit [OF assms(3), symmetric]
    by (rule arg_cong [OF assms(1)])
  then show ?thesis by simp
qed

lemma percent_inj: "percent a = percent b \<Longrightarrow> a = b"
proof -
  assume "percent a = percent b"
  then have "upper_hex_digit (of_char a div 16) = upper_hex_digit (of_char b div 16)"
    "upper_hex_digit (of_char a mod 16) = upper_hex_digit (of_char b mod 16)"
    by (simp_all add: percent_def)
  moreover have "of_char a div 16 < (16 :: nat)" "of_char b div 16 < (16 :: nat)"
    using of_char_less [of a] of_char_less [of b] by (simp_all add: less_mult_imp_div_less)
  ultimately have "of_char a div 16 = (of_char b div 16 :: nat)" "of_char a mod 16 = (of_char b mod 16 :: nat)"
    using upper_hex_inj by (metis, metis mod_less_divisor zero_less_numeral)
  then have "char_of (16 * (of_char a div 16) + of_char a mod (16 :: nat)) = (char_of (16 * (of_char b div 16) + of_char b mod (16 :: nat)) :: char)"
    by (simp only:)
  then show "a = b" unfolding char_of_hex .
qed

lemma query_code_cases: "query_code a @ x = query_code b @ y \<Longrightarrow> a = b \<and> x = y"
proof -
  have plain: "\<not> url_unreserved CHR ''+''" "\<not> url_unreserved CHR ''%''" by code_simp+
  assume eq: "query_code a @ x = query_code b @ y"
  show "a = b \<and> x = y"
  proof (cases "url_unreserved a \<or> url_unreserved b \<or> a = CHR '' '' \<or> b = CHR '' ''")
    case True
    with eq plain show ?thesis
      by (auto simp: query_code_def percent_def split: if_splits)
  next
    case False
    with eq have "percent a @ x = percent b @ y" by (simp add: query_code_def)
    then have "percent a = percent b \<and> x = y" by (simp add: percent_def)
    with percent_inj [of a b] show ?thesis by simp
  qed
qed

lemma query_code_ne [simp]: "query_code c \<noteq> []"
  by (simp add: query_code_def percent_def)

lemma QueryEscape_codes: "QueryEscape s = concat (map query_code s)"
  unfolding QueryEscape_def query_code_def ..

lemma QueryEscape_inj: "QueryEscape a = QueryEscape b \<Longrightarrow> a = b"
  unfolding QueryEscape_codes
proof (induction a arbitrary: b)
  case Nil
  then show ?case by (cases b) auto
next
  case (Cons c a)
  then obtain d b' where b: "b = d # b'" by (cases b) auto
  with Cons.prems query_code_cases [of c "concat (map query_code a)" d "concat (map query_code b')"]
  have "c = d" "concat (map query_code a) = concat (map query_code b')" by auto
  with Cons.IH b show ?case by simp
qed

lemma split_first:
  fixes c :: char
  assumes "a @ c # x = b @ c # y" and "c \<notin> set a" and "c \<notin> set b"
  shows "a = b \<and> x = y"
proof -
  have "cut_at c (a @ c # x) = cut_at c (b @ c # y)" using assms(1) by simp
  then show ?thesis unfolding cut_at_append [OF assms(2)] cut_at_append [OF assms(3)] by simp
qed

definition expiry_text :: "int \<Rightarrow> string \<Rightarrow> string" where
  "expiry_text e d = Itoa e @ (if d = [] then [] else CHR 0x0A # ''response-content-disposition='' @ QueryEscape d)"

lemma Itoa_no_newline: "CHR 0x0A \<notin> set (Itoa n)"
  using Itoa_chars [of "CHR 0x0A" n] by (auto simp: is_digit_def)

lemma expiry_text_inj: "expiry_text e d = expiry_text e' d' \<Longrightarrow> e = e' \<and> d = d'"
proof -
  have none: "Itoa e \<noteq> Itoa e' @ CHR 0x0A # z" for e e' z
    by (metis Itoa_no_newline in_set_conv_decomp)
  assume eq: "expiry_text e d = expiry_text e' d'"
  show "e = e' \<and> d = d'"
  proof (cases "d = [] \<or> d' = []")
    case True
    with eq none [of e e'] none [of e' e] have "d = [] \<and> d' = [] \<and> Itoa e = Itoa e'"
      by (auto simp: expiry_text_def split: if_splits dest: sym)
    with Itoa_inj show ?thesis by blast
  next
    case False
    let ?tag = "''response-content-disposition=''"
    from False eq have "Itoa e @ CHR 0x0A # ?tag @ QueryEscape d = Itoa e' @ CHR 0x0A # ?tag @ QueryEscape d'"
      by (simp add: expiry_text_def)
    from split_first [OF this Itoa_no_newline Itoa_no_newline]
    have "Itoa e = Itoa e'" "QueryEscape d = QueryEscape d'" by simp_all
    with Itoa_inj QueryEscape_inj show ?thesis by blast
  qed
qed

lemma canonical_text:
  "canonicalString p e d = ''GET'' @ CHR 0x0A # p @ CHR 0x0A # expiry_text e d"
  by (simp add: canonicalString_def expiry_text_def Let_def)

lemma canonical_inj:
  assumes "canonicalString p e d = canonicalString p' e' d'" and "CHR 0x0A \<notin> set p" and "CHR 0x0A \<notin> set p'"
  shows "p = p' \<and> e = e' \<and> d = d'"
proof -
  from assms(1) have "p @ CHR 0x0A # expiry_text e d = p' @ CHR 0x0A # expiry_text e' d'"
    by (simp add: canonical_text)
  then have "p = p'" "expiry_text e d = expiry_text e' d'"
    using split_first assms(2,3) by metis+
  with expiry_text_inj show ?thesis by simp
qed

lemma SignPath_unix:
  assumes "ParseInt x = Some e"
  shows "SignPath H s path (time_Unix e) d = hex_Encode (hmac H (sg_secret s) (canonicalString path e d))"
proof -
  from assms have "- (2 ^ 63) \<le> e" "e < 2 ^ 63"
    by (auto simp: ParseInt_def Let_def split: if_splits list.splits)
  then show ?thesis by (simp only: SignPath_def unix_time_Unix)
qed

lemma Verify_iff:
  assumes "\<And>m. length (H m) = 32"
  shows "Verify H s now path x d sig = None \<longleftrightarrow>
    (\<exists>e. ParseInt (TrimSpace x) = Some e \<and> now < time_Unix e
       \<and> hex_Decode (TrimSpace sig) = Some (hmac H (sg_secret s) (canonicalString path e d)))"
proof -
  have len: "length (hmac H k m) = 32" for k m by (simp add: hmac_def assms)
  show ?thesis
    by (cases "ParseInt (TrimSpace x)"; cases "hex_Decode (TrimSpace sig)")
      (auto simp: Verify_def SignPath_unix hex_roundtrip len)
qed

lemma hex_digit_graphic: "n < 16 \<Longrightarrow> graphic (hex_digit n)"
proof -
  have "\<forall>n\<in>set [0..<16]. graphic (hex_digit n)" by code_simp
  then show "n < 16 \<Longrightarrow> graphic (hex_digit n)" by simp
qed

lemma hex_Encode_graphic: "c \<in> set (hex_Encode bs) \<Longrightarrow> graphic c"
proof (induction bs)
  case (Cons b bs)
  have "of_char b div 16 < (16 :: nat)" using of_char_less [of b] by (simp add: less_mult_imp_div_less)
  with Cons hex_digit_graphic [of "of_char b div 16"] hex_digit_graphic [of "of_char b mod 16"]
  show ?case by (auto simp: Let_def)
qed simp

lemma TrimSpace_hex: "TrimSpace (hex_Encode bs) = hex_Encode bs"
  by (rule TrimSpace_id) (metis hd_in_set hex_Encode_graphic last_in_set)

lemma Verify_SignPath:
  assumes "\<And>m. length (H m) = 32" and "ParseInt (TrimSpace x) = Some e" and "now < time_Unix e"
  shows "Verify H s now path x d (SignPath H s path (time_Unix e) d) = None"
  using assms(3) by (auto simp: Verify_iff [OF assms(1)] SignPath_unix [OF assms(2)] assms(2) TrimSpace_hex hex_roundtrip)

section \<open>Collisions\<close>

text \<open>
  What it takes for two messages to have one HMAC: SHA-256 collides on the inputs of one of its two calls.
\<close>

definition collides :: "(bytes \<Rightarrow> bytes) \<Rightarrow> bytes \<Rightarrow> bytes \<Rightarrow> bool" where
  "collides H x y \<longleftrightarrow> x \<noteq> y \<and> H x = H y"

definition hmac_inner :: "(bytes \<Rightarrow> bytes) \<Rightarrow> bytes \<Rightarrow> bytes \<Rightarrow> bytes" where
  "hmac_inner H k m = map (xor_byte 0x36) (hmac_key H k) @ m"

definition hmac_outer :: "(bytes \<Rightarrow> bytes) \<Rightarrow> bytes \<Rightarrow> bytes \<Rightarrow> bytes" where
  "hmac_outer H k m = map (xor_byte 0x5C) (hmac_key H k) @ H (hmac_inner H k m)"

definition hmac_collides :: "(bytes \<Rightarrow> bytes) \<Rightarrow> bytes \<Rightarrow> bytes \<Rightarrow> bytes \<Rightarrow> bool" where
  "hmac_collides H k m1 m2 \<longleftrightarrow> collides H (hmac_inner H k m1) (hmac_inner H k m2) \<or> collides H (hmac_outer H k m1) (hmac_outer H k m2)"

lemma hmac_collision: "hmac H k m1 = hmac H k m2 \<Longrightarrow> m1 = m2 \<or> hmac_collides H k m1 m2"
  by (auto simp: hmac_def hmac_collides_def collides_def hmac_inner_def hmac_outer_def)

section \<open>Properties of links\<close>

text \<open>
  A hash with 32-byte values, for closed instances: the message itself cut or padded to 32 bytes.
\<close>

definition sample_hash :: "bytes \<Rightarrow> bytes" where
  "sample_hash m = take 32 (m @ replicate 32 (CHR 0x00))"

definition sample_signer :: Signer where
  "sample_signer = \<lparr>sg_secret = replicate 32 (CHR ''k'')\<rparr>"

lemma sample_hash_length: "length (sample_hash m) = 32"
  by (simp add: sample_hash_def)

text \<open>
  C22: the link the server signs for a path, an expiry second and a content disposition is
  accepted by \<open>Verify\<close> at every instant before that second, whatever the secret, the path and the
  disposition are.
\<close>

theorem signed_link_accepted:
  assumes "\<And>m. length (H m) = 32" and "- (2 ^ 63) \<le> e" and "e < 2 ^ 63" and "now < time_Unix e"
  shows "Verify H s now path (Itoa e) d (SignPath H s path (time_Unix e) d) = None"
proof (rule Verify_SignPath [OF assms(1) _ assms(4)])
  show "ParseInt (TrimSpace (Itoa e)) = Some e"
    using assms(2,3) by (simp add: TrimSpace_Itoa ParseInt_Itoa)
qed

theorem signed_link_accepted_witness:
  "Verify sample_hash sample_signer 0 ''/public/photos/cat.jpg'' (Itoa 1700000000) ''inline''
     (SignPath sample_hash sample_signer ''/public/photos/cat.jpg'' (time_Unix 1700000000) ''inline'') = None"
proof (rule signed_link_accepted [OF sample_hash_length])
  show "(0 :: time) < time_Unix 1700000000" by code_simp
qed simp_all

text \<open>
  C23: a signature speaks for one link only.  When \<open>Verify\<close> accepts the same signature for
  two links, neither has expired and they have the same path, the same expiry second and the same content
  disposition, unless SHA-256 collides on one of two pairs of inputs the verification itself computes: those
  of the two hash calls inside the HMAC of the two canonical texts.
\<close>

theorem signature_binds_link:
  assumes "\<And>m. length (H m) = 32"
    and "Verify H s now path x d sig = None" and "Verify H s now' path' x' d' sig = None"
    and "CHR 0x0A \<notin> set path" and "CHR 0x0A \<notin> set path'"
  shows "\<exists>e e'. ParseInt (TrimSpace x) = Some e \<and> ParseInt (TrimSpace x') = Some e'
    \<and> now < time_Unix e \<and> now' < time_Unix e'
    \<and> (path = path' \<and> e = e' \<and> d = d'
       \<or> hmac_collides H (sg_secret s) (canonicalString path e d) (canonicalString path' e' d'))"
proof -
  obtain e e' where e: "ParseInt (TrimSpace x) = Some e" "now < time_Unix e"
      "hex_Decode (TrimSpace sig) = Some (hmac H (sg_secret s) (canonicalString path e d))"
    and e': "ParseInt (TrimSpace x') = Some e'" "now' < time_Unix e'"
      "hex_Decode (TrimSpace sig) = Some (hmac H (sg_secret s) (canonicalString path' e' d'))"
    using assms(2,3) unfolding Verify_iff [OF assms(1)] by auto
  have "hmac H (sg_secret s) (canonicalString path e d) = hmac H (sg_secret s) (canonicalString path' e' d')"
    using e(3) e'(3) by simp
  from hmac_collision [OF this] canonical_inj [OF _ assms(4,5)]
  have "path = path' \<and> e = e' \<and> d = d' \<or> hmac_collides H (sg_secret s) (canonicalString path e d) (canonicalString path' e' d')"
    by blast
  with e(1,2) e'(1,2) show ?thesis by blast
qed

theorem signature_binds_link_witness:
  "\<exists>e e'. ParseInt (TrimSpace ''1700000000'') = Some e \<and> ParseInt (TrimSpace '' 1700000000'') = Some e'
    \<and> (0 :: time) < time_Unix e \<and> (5 :: time) < time_Unix e'
    \<and> (''/public/a/b'' = ''/public/a/b'' \<and> e = e' \<and> ([] :: string) = []
       \<or> hmac_collides sample_hash (sg_secret sample_signer) (canonicalString ''/public/a/b'' e []) (canonicalString ''/public/a/b'' e' []))"
proof (rule signature_binds_link [OF sample_hash_length, where
      sig = "SignPath sample_hash sample_signer ''/public/a/b'' (time_Unix 1700000000) []"])
  show "Verify sample_hash sample_signer 0 ''/public/a/b'' ''1700000000'' []
          (SignPath sample_hash sample_signer ''/public/a/b'' (time_Unix 1700000000) []) = None"
    by (rule Verify_SignPath [OF sample_hash_length]) code_simp+
  show "Verify sample_hash sample_signer 5 ''/public/a/b'' '' 1700000000'' []
          (SignPath sample_hash sample_signer ''/public/a/b'' (time_Unix 1700000000) []) = None"
    by (rule Verify_SignPath [OF sample_hash_length]) code_simp+
qed simp_all

section \<open>Share link codes\<close>

lemma draw_code_spec:
  assumes "\<And>k i. draws k = Some i \<Longrightarrow> i < 62" and "draw_code n draws = Some code"
  shows "length code = n \<and> set code \<subseteq> set codeAlphabet"
  using assms
proof (induction n arbitrary: draws code)
  case (Suc n)
  from Suc.prems(2) obtain i rest where i: "draws 0 = Some i" and rest: "draw_code n (\<lambda>k. draws (Suc k)) = Some rest"
    and code: "code = (codeAlphabet ! i) # rest"
    by (auto split: option.splits)
  have "length codeAlphabet = 62" by code_simp
  with Suc.prems(1) [OF i] have "codeAlphabet ! i \<in> set codeAlphabet" by simp
  with Suc.IH [OF _ rest] Suc.prems(1) code show ?case by simp
qed simp

text \<open>
  Generated codes: every code \<open>GenerateCode\<close> returns, for values the random source draws below the
  alphabet size, is itself an acceptable alias of ten letters and digits that needs no escaping in
  its public path.
\<close>

theorem generated_codes_valid:
  assumes "\<And>k i. draws k = Some i \<Longrightarrow> i < 62" and "GenerateCode draws = Some code"
  shows "ValidateAlias code \<and> length code = 10 \<and> share_Path code = ''/s/'' @ code"
proof -
  from draw_code_spec [OF assms(1)] assms(2) have len: "length code = 10" and sub: "set code \<subseteq> set codeAlphabet"
    by (auto simp: GenerateCode_def GeneratedCodeLength_def)
  have plain: "\<forall>c\<in>set codeAlphabet. url_unreserved c" by code_simp
  have "PathEscape code = concat (map (\<lambda>c. [c]) code)"
    unfolding PathEscape_def using sub plain by (intro arg_cong [where f = concat] map_cong) auto
  then have "PathEscape code = code" by simp
  moreover have "ValidateAlias code"
    using len sub by (cases code) (auto simp: ValidateAlias_def list_all_iff)
  ultimately show ?thesis using len by (simp add: share_Path_def RoutePrefix_def)
qed

theorem generated_codes_valid_witness:
  "ValidateAlias ''0123456789'' \<and> length ''0123456789'' = 10 \<and> share_Path ''0123456789'' = ''/s/'' @ ''0123456789''"
proof (rule generated_codes_valid)
  show "GenerateCode (\<lambda>k. if k < 62 then Some k else None) = Some ''0123456789''" by code_simp
qed (auto split: if_splits)

end
