(* ===== verification/S3Types.thy ===== *)
theory S3Types
  imports Storage AccountsProofs Catalog PublicRead
begin

text \<open>
  Vocabulary of the S3 handlers (\<open>internal/s3\<close>): error codes (\<open>errors.go\<close>), result documents
  (\<open>xml.go\<close> and the result structs of the handlers), requests, responses, and the state and
  environment a handler runs in.  A result document is the value the handler encodes; times in it
  are instants.  XML and HTTP syntax are outside the model: a request is what the router and the
  decoders hand over, header names in lower case.
\<close>

section \<open>Errors\<close>

datatype s3_code =
    BucketAlreadyExists | BucketAlreadyOwnedByYou | BucketNotEmpty | AccessDenied | BadDigest
  | EntityTooSmall | InternalError | InvalidArgument | InvalidBucketName | InvalidDigest
  | InvalidLocationConstraint | InvalidPart | InvalidPartOrder | InvalidRange | InvalidRequest
  | MalformedXML | NoSuchBucket | NoSuchKey | NoSuchUpload | NotImplemented | PreconditionFailed

primrec code_text :: "s3_code \<Rightarrow> string" where
  "code_text BucketAlreadyExists = ''BucketAlreadyExists''"
| "code_text BucketAlreadyOwnedByYou = ''BucketAlreadyOwnedByYou''"
| "code_text BucketNotEmpty = ''BucketNotEmpty''"
| "code_text AccessDenied = ''AccessDenied''"
| "code_text BadDigest = ''BadDigest''"
| "code_text EntityTooSmall = ''EntityTooSmall''"
| "code_text InternalError = ''InternalError''"
| "code_text InvalidArgument = ''InvalidArgument''"
| "code_text InvalidBucketName = ''InvalidBucketName''"
| "code_text InvalidDigest = ''InvalidDigest''"
| "code_text InvalidLocationConstraint = ''InvalidLocationConstraint''"
| "code_text InvalidPart = ''InvalidPart''"
| "code_text InvalidPartOrder = ''InvalidPartOrder''"
| "code_text InvalidRange = ''InvalidRange''"
| "code_text InvalidRequest = ''InvalidRequest''"
| "code_text MalformedXML = ''MalformedXML''"
| "code_text NoSuchBucket = ''NoSuchBucket''"
| "code_text NoSuchKey = ''NoSuchKey''"
| "code_text NoSuchUpload = ''NoSuchUpload''"
| "code_text NotImplemented = ''NotImplemented''"
| "code_text PreconditionFailed = ''PreconditionFailed''"

text \<open>The message the handlers pass with a code where they do not pass one of their own.\<close>

primrec message_text :: "s3_code \<Rightarrow> string" where
  "message_text BucketAlreadyExists = ''The requested bucket name is not available.''"
| "message_text BucketAlreadyOwnedByYou = ''Your previous request to create the named bucket succeeded and you already own it.''"
| "message_text BucketNotEmpty = ''The bucket you tried to delete is not empty.''"
| "message_text AccessDenied = ''Access denied.''"
| "message_text BadDigest = ''The Content-MD5 or checksum you specified did not match what we received.''"
| "message_text EntityTooSmall = ''Your proposed upload is smaller than the minimum allowed object size.''"
| "message_text InternalError = ''We encountered an internal error. Please try again.''"
| "message_text InvalidArgument = ''Invalid argument.''"
| "message_text InvalidBucketName = ''The specified bucket is not valid.''"
| "message_text InvalidDigest = ''The Content-MD5 you specified was invalid.''"
| "message_text InvalidLocationConstraint = ''The specified location-constraint is not valid.''"
| "message_text InvalidPart = ''One or more of the specified parts could not be found or the specified entity tag might not have matched the part'' @ [CHR 0x27] @ ''s entity tag.''"
| "message_text InvalidPartOrder = ''The list of parts was not in ascending order. Parts must be ordered by part number.''"
| "message_text InvalidRange = ''The requested range is not valid.''"
| "message_text InvalidRequest = ''The request is invalid.''"
| "message_text MalformedXML = ''The XML you provided was not well-formed or did not validate against our published schema.''"
| "message_text NoSuchBucket = ''The specified bucket does not exist.''"
| "message_text NoSuchKey = ''The specified key does not exist.''"
| "message_text NoSuchUpload = ''The specified multipart upload does not exist.''"
| "message_text NotImplemented = ''A header or query you provided implies functionality that is not implemented.''"
| "message_text PreconditionFailed = ''At least one of the pre-conditions you specified did not hold.''"

section \<open>Result documents\<close>

record listBucketObject =
  lo_Key :: string
  lo_LastModified :: time
  lo_ETag :: string
  lo_Size :: int

record listBucketResult =
  lb_Name :: string
  lb_Prefix :: string
  lb_KeyCount :: int
  lb_MaxKeys :: int
  lb_Delimiter :: string
  lb_IsTruncated :: bool
  lb_Contents :: "listBucketObject list"
  lb_CommonPrefixes :: "string list"
  lb_ContinuationToken :: string
  lb_NextContinuationToken :: string
  lb_StartAfter :: string
  lb_EncodingType :: string

record listBucketV1Result =
  l1_Name :: string
  l1_Prefix :: string
  l1_Marker :: string
  l1_NextMarker :: string
  l1_MaxKeys :: int
  l1_Delimiter :: string
  l1_IsTruncated :: bool
  l1_Contents :: "listBucketObject list"
  l1_CommonPrefixes :: "string list"
  l1_EncodingType :: string

record ListVersionsResult =
  lv_Name :: string
  lv_Prefix :: string
  lv_KeyMarker :: string
  lv_NextKeyMarker :: string
  lv_MaxKeys :: int
  lv_IsTruncated :: bool
  lv_Version :: "listBucketObject list"

record ListMultipartUploadsResult =
  lu_Bucket :: string
  lu_KeyMarker :: string
  lu_UploadIDMarker :: string
  lu_NextKeyMarker :: string
  lu_NextUploadIDMarker :: string
  lu_MaxUploads :: int
  lu_IsTruncated :: bool
  lu_Upload :: "(string \<times> string \<times> time) list"
  lu_Delimiter :: string
  lu_Prefix :: string

record ListPartsPart =
  lp_PartNumber :: int
  lp_LastModified :: time
  lp_ETag :: string
  lp_Size :: int
  lp_Checksums :: checksums

record ListPartsResult =
  lr_Bucket :: string
  lr_Key :: string
  lr_UploadID :: string
  lr_PartNumberMarker :: int
  lr_NextPartNumberMarker :: int
  lr_MaxParts :: int
  lr_IsTruncated :: bool
  lr_Part :: "ListPartsPart list"

record GetObjectAttributesResult =
  ga_ETag :: string
  ga_ObjectSize :: "int option"
  ga_StorageClass :: string
  ga_ObjectParts :: "int option"
  ga_Checksum :: "checksums option"

record deleteObjectsResult =
  dr_Deleted :: "string list"
  dr_Errors :: "(string \<times> s3_code) list"

record CompletePart =
  cp_PartNumber :: int
  cp_ETag :: string

datatype document =
    S3Error string string
  | CopyObjectResult time string
  | CopyPartResult time string
  | InitiateMultipartUploadResult string string string string
  | CompleteMultipartUploadResult string string string string
  | DeleteResult deleteObjectsResult
  | AttributesDoc GetObjectAttributesResult
  | ListDoc listBucketResult
  | ListV1Doc listBucketV1Result
  | VersionsDoc ListVersionsResult
  | UploadsDoc ListMultipartUploadsResult
  | PartsDoc ListPartsResult
  | LocationConstraint string
  | ListAllMyBucketsResult string string "(string \<times> time) list"

text \<open>
  A response: the status, the headers set, and nothing, a document, plain text, or the arguments
  handed to \<open>http.ServeContent\<close> (name, modification time and file contents), which answers with
  the whole file, a range of it or \<open>304\<close>.
\<close>

datatype content = Empty | Doc document | Text string | ServeContent string time bytes

record response =
  status :: int
  rheaders :: "(string \<times> string) list"
  content :: content

section \<open>Requests and state\<close>

type_synonym url_values = "(string \<times> string list) list"

record request =
  r_Method :: string
  r_bucket :: string
  r_rest :: string
  r_code :: string
  r_Query :: url_values
  r_Header :: url_values
  r_Body :: reader
  r_Principal :: "Principal option"
  r_EscapedPath :: string
  r_Host :: string

definition values_Get :: "url_values \<Rightarrow> string \<Rightarrow> string" where
  "values_Get vs name = (case map_of vs name of Some (v # rest) \<Rightarrow> v | _ \<Rightarrow> [])"

definition values_Has :: "url_values \<Rightarrow> string \<Rightarrow> bool" where
  "values_Has vs name \<longleftrightarrow> map_of vs name \<noteq> None"

definition query_Get :: "request \<Rightarrow> string \<Rightarrow> string" where
  "query_Get r name = values_Get (r_Query r) name"

definition header_Get :: "request \<Rightarrow> string \<Rightarrow> string" where
  "header_Get r name = values_Get (r_Header r) (ToLower name)"

record hashes =
  h_md5 :: "bytes \<Rightarrow> bytes"
  h_sha1 :: "bytes \<Rightarrow> bytes"
  h_sha256 :: "bytes \<Rightarrow> bytes"
  h_crc32 :: "bytes \<Rightarrow> bytes"
  h_crc32c :: "bytes \<Rightarrow> bytes"
  h_crc64nvme :: "bytes \<Rightarrow> bytes"

text \<open>
  \<open>ObjectHandlers\<close> as the server wires it: SQLite repositories, the disk engine, an evaluator over
  the grant repository, and the environment they run in.
\<close>

record ObjectHandlers =
  h_os :: os_env
  h_dbenv :: db_env
  h_Storage :: engine
  h_hashes :: hashes
  h_S3CacheControl :: string
  h_MinPartSize :: int
  h_PublicReadSigner :: "Signer option"

record world =
  w_disk :: disk
  w_db :: db

type_synonym 'a act = "world \<Rightarrow> (response + 'a) \<times> world"

definition on_db :: "(db \<Rightarrow> 'a \<times> db) \<Rightarrow> world \<Rightarrow> ('e + 'a) \<times> world" where
  "on_db m w = (case m (w_db w) of (x, s) \<Rightarrow> (Inr x, w\<lparr>w_db := s\<rparr>))"

definition on_disk :: "(disk \<Rightarrow> 'a \<times> disk) \<Rightarrow> world \<Rightarrow> ('e + 'a) \<times> world" where
  "on_disk m w = (case m (w_disk w) of (x, d) \<Rightarrow> (Inr x, w\<lparr>w_disk := d\<rparr>))"

definition finish :: "response act \<Rightarrow> world \<Rightarrow> response \<times> world" where
  "finish m w = (case m w of (Inl r, w1) \<Rightarrow> (r, w1) | (Inr r, w1) \<Rightarrow> (r, w1))"

definition WriteS3Error_msg :: "request \<Rightarrow> int \<Rightarrow> s3_code \<Rightarrow> string \<Rightarrow> response" where
  "WriteS3Error_msg r st code msg =
     \<lparr>status = st, rheaders = [(''Content-Type'', ''application/xml'')],
      content = (if r_Method r = ''HEAD'' then Empty else Doc (S3Error (code_text code) msg))\<rparr>"

definition WriteS3Error :: "request \<Rightarrow> int \<Rightarrow> s3_code \<Rightarrow> response" where
  "WriteS3Error r st code = WriteS3Error_msg r st code (message_text code)"

abbreviation reject :: "request \<Rightarrow> int \<Rightarrow> s3_code \<Rightarrow> 'a act" where
  "reject r st code \<equiv> fail (WriteS3Error r st code)"

definition respond :: "int \<Rightarrow> (string \<times> string) list \<Rightarrow> content \<Rightarrow> response" where
  "respond st hs c = \<lparr>status = st, rheaders = hs, content = c\<rparr>"

definition xml_headers :: "(string \<times> string) list" where
  "xml_headers = [(''Content-Type'', ''application/xml'')]"

definition h_now :: "ObjectHandlers \<Rightarrow> time act" where
  "h_now h w = (Inr (Now (h_dbenv h) (w_db w)), w)"

definition newID :: "ObjectHandlers \<Rightarrow> string act" where
  "newID h = on_disk (new_uuid (h_os h))"

definition objectRouteParams :: "request \<Rightarrow> string \<times> string" where
  "objectRouteParams r = (r_bucket r, TrimPrefix (r_rest r) ''/'')"

definition chiBucketParam :: "request \<Rightarrow> string" where
  "chiBucketParam r = TrimSpace (r_bucket r)"

definition quoteETag :: "string \<Rightarrow> string" where
  "quoteETag e =
     (let trimmed = TrimSpace e in
      if HasPrefix trimmed [CHR 0x22] \<and> HasSuffix trimmed [CHR 0x22] then trimmed
      else [CHR 0x22] @ trimmed @ [CHR 0x22])"

section \<open>Laws of the state\<close>

lemma on_db_eq: "on_db m w = (Inr (fst (m (w_db w))), w\<lparr>w_db := snd (m (w_db w))\<rparr>)"
  by (simp add: on_db_def split: prod.splits)

lemma on_disk_eq: "on_disk m w = (Inr (fst (m (w_disk w))), w\<lparr>w_disk := snd (m (w_disk w))\<rparr>)"
  by (simp add: on_disk_def split: prod.splits)

end
