(* ===== verification/S3Access.thy ===== *)
theory S3Access
  imports S3Types
begin

text \<open>
  What every S3 handler uses: authorisation (\<open>access.go\<close>), the checksum pipeline
  (\<open>checksum.go\<close>), activity records (\<open>activity.go\<close>, \<open>objectops/activity.go\<close>), the object
  removal of \<open>objectops/cleanup.go\<close>, and the mapping of storage and metadata errors to responses.
  The hash functions are parameters; the pipeline hashes the bytes the storage engine read,
  which after a successful write is the whole body.
\<close>

section \<open>\<open>access.go\<close>\<close>

definition decision ::
  "Principal \<Rightarrow> Action \<Rightarrow> string \<Rightarrow> string \<Rightarrow> string \<Rightarrow> Bucket option \<Rightarrow> DecisionRequest" where
  "decision p action bucketName objKey listPrefix bucket =
     \<lparr>d_Principal = p, d_Action = action, d_Bucket = bucketName, d_ObjectKey = objKey,
      d_ListPrefix = listPrefix, d_BucketOwnerID = (case bucket of None \<Rightarrow> [] | Some b \<Rightarrow> b_OwnerID b)\<rparr>"

definition authorize ::
  "ObjectHandlers \<Rightarrow> request \<Rightarrow> Action \<Rightarrow> string \<Rightarrow> string \<Rightarrow> string \<Rightarrow> Bucket option \<Rightarrow> unit act" where
  "authorize h r action bucketName objKey listPrefix bucket =
     (case r_Principal r of
        None \<Rightarrow> reject r 403 AccessDenied
      | Some p \<Rightarrow>
          if TrimSpace (p_UserID p) = [] then reject r 403 AccessDenied
          else andThen (on_db (Allow (Some (authz_lister (h_dbenv h))) (decision p action bucketName objKey listPrefix bucket)))
            (\<lambda>res. case res of
               Inl err \<Rightarrow> reject r 500 InternalError
             | Inr allowed \<Rightarrow> if \<not> allowed then reject r 403 AccessDenied else ret ()))"

definition authorizeQuiet ::
  "ObjectHandlers \<Rightarrow> request \<Rightarrow> Action \<Rightarrow> string \<Rightarrow> string \<Rightarrow> Bucket option \<Rightarrow> (bool result) act" where
  "authorizeQuiet h r action bucketName objKey bucket =
     (case r_Principal r of
        None \<Rightarrow> ret (Inr False)
      | Some p \<Rightarrow>
          if TrimSpace (p_UserID p) = [] then ret (Inr False)
          else on_db (Allow (Some (authz_lister (h_dbenv h))) (decision p action bucketName objKey [] bucket)))"

definition authorizeBucketRelationship :: "ObjectHandlers \<Rightarrow> request \<Rightarrow> Bucket \<Rightarrow> unit act" where
  "authorizeBucketRelationship h r bucket =
     (case r_Principal r of
        None \<Rightarrow> reject r 403 AccessDenied
      | Some p \<Rightarrow>
          if TrimSpace (p_UserID p) = [] then reject r 403 AccessDenied
          else if p_Role p = RoleAdmin \<or> b_OwnerID bucket = p_UserID p then ret ()
          else andThen (on_db (ListActiveForGranteeBucket (h_dbenv h) (p_UserID p) (b_Name bucket)))
            (\<lambda>res. case res of
               Inl err \<Rightarrow> reject r 500 InternalError
             | Inr gs \<Rightarrow> if gs = [] then reject r 403 AccessDenied else ret ()))"

definition loadBucket :: "ObjectHandlers \<Rightarrow> request \<Rightarrow> string \<Rightarrow> Bucket act" where
  "loadBucket h r bucketName =
     (if TrimSpace bucketName = [] then reject r 400 InvalidRequest
      else andThen (on_db (GetByName (h_dbenv h) bucketName)) (\<lambda>res.
        case res of
          Inl err \<Rightarrow> (if err = ErrBucketNotFound then reject r 404 NoSuchBucket else reject r 500 InternalError)
        | Inr b \<Rightarrow> ret b))"

definition loadBucketForAction ::
  "ObjectHandlers \<Rightarrow> request \<Rightarrow> string \<Rightarrow> Action \<Rightarrow> string \<Rightarrow> string \<Rightarrow> Bucket act" where
  "loadBucketForAction h r bucketName action objKey listPrefix =
     andThen (loadBucket h r bucketName) (\<lambda>b.
     andThen (authorize h r action bucketName objKey listPrefix (Some b)) (\<lambda>u. ret b))"

definition ensureBucketAction ::
  "ObjectHandlers \<Rightarrow> request \<Rightarrow> string \<Rightarrow> Action \<Rightarrow> string \<Rightarrow> string \<Rightarrow> unit act" where
  "ensureBucketAction h r bucketName action objKey listPrefix =
     andThen (loadBucketForAction h r bucketName action objKey listPrefix) (\<lambda>b. ret ())"

definition requestHasSignedHeader :: "request \<Rightarrow> string \<Rightarrow> bool" where
  "requestHasSignedHeader r headerName =
     (case r_Principal r of
        None \<Rightarrow> True
      | Some p \<Rightarrow>
          if TrimSpace (p_SignedHeaders p) = [] then True
          else list_ex (\<lambda>s. EqualFold (TrimSpace s) (ToLower headerName)) (split_on CHR '';'' (p_SignedHeaders p)))"

definition requireSignedHeader :: "request \<Rightarrow> string \<Rightarrow> unit act" where
  "requireSignedHeader r headerName =
     (if requestHasSignedHeader r headerName then ret () else reject r 403 AccessDenied)"

section \<open>\<open>checksum.go\<close>\<close>

record checksumCheck =
  cc_name :: string
  cc_expected :: bytes
  cc_sum :: "bytes \<Rightarrow> bytes"

definition decodeChecksum :: "string \<Rightarrow> bytes option" where
  "decodeChecksum value = StdEncoding_Decode value"

definition addHashCheck ::
  "string \<Rightarrow> string \<Rightarrow> (bytes \<Rightarrow> bytes) \<Rightarrow> nat \<Rightarrow> go_error \<Rightarrow> checksumCheck list \<Rightarrow> checksumCheck list result" where
  "addHashCheck name value f sz err checks =
     (if value = [] then Inr checks
      else case decodeChecksum value of
        None \<Rightarrow> Inl err
      | Some expected \<Rightarrow>
          if length expected \<noteq> sz then Inl err
          else Inr (checks @ [\<lparr>cc_name = name, cc_expected = expected, cc_sum = f\<rparr>]))"

definition unsignedPayloadHash :: string where
  "unsignedPayloadHash = ''UNSIGNED-PAYLOAD''"

definition addPayloadCheck ::
  "(bytes \<Rightarrow> bytes) \<Rightarrow> string \<Rightarrow> checksumCheck list \<Rightarrow> checksumCheck list result" where
  "addPayloadCheck f value checks =
     (if value = [] \<or> value = unsignedPayloadHash then Inr checks
      else case hex_Decode value of
        None \<Rightarrow> Inl ErrInvalidDigest
      | Some expected \<Rightarrow>
          if length expected \<noteq> 32 then Inl ErrInvalidDigest
          else Inr (checks @ [\<lparr>cc_name = ''X-Amz-Content-SHA256'', cc_expected = expected, cc_sum = f\<rparr>]))"

definition signedPayloadHash :: "request \<Rightarrow> string" where
  "signedPayloadHash r = (case r_Principal r of None \<Rightarrow> [] | Some p \<Rightarrow> p_SignedPayloadHash p)"

definition bindr :: "'a result \<Rightarrow> ('a \<Rightarrow> 'b result) \<Rightarrow> 'b result" where
  "bindr x f = (case x of Inl e \<Rightarrow> Inl e | Inr y \<Rightarrow> f y)"

definition newChecksumPipeline :: "hashes \<Rightarrow> request \<Rightarrow> checksumCheck list result" where
  "newChecksumPipeline H r =
     (let get = header_Get r in
      bindr (addHashCheck ''Content-MD5'' (get ''Content-MD5'') (h_md5 H) 16 ErrInvalidDigest [])
      (\<lambda>c1. bindr (addPayloadCheck (h_sha256 H) (TrimSpace (get ''X-Amz-Content-SHA256'')) c1)
      (\<lambda>c2. bindr (addPayloadCheck (h_sha256 H) (signedPayloadHash r) c2)
      (\<lambda>c3. bindr (addHashCheck ''x-amz-checksum-sha1'' (get ''x-amz-checksum-sha1'') (h_sha1 H) 20 ErrInvalidChecksum c3)
      (\<lambda>c4. bindr (addHashCheck ''x-amz-checksum-sha256'' (get ''x-amz-checksum-sha256'') (h_sha256 H) 32 ErrInvalidChecksum c4)
      (\<lambda>c5. bindr (addHashCheck ''x-amz-checksum-crc32'' (get ''x-amz-checksum-crc32'') (h_crc32 H) 4 ErrInvalidChecksum c5)
      (\<lambda>c6. bindr (addHashCheck ''x-amz-checksum-crc32c'' (get ''x-amz-checksum-crc32c'') (h_crc32c H) 4 ErrInvalidChecksum c6)
      (\<lambda>c7. addHashCheck ''x-amz-checksum-crc64nvme'' (TrimSpace (get ''x-amz-checksum-crc64nvme'')) (h_crc64nvme H) 8 ErrInvalidChecksum c7))))))))"

definition pipeline_ETag :: "hashes \<Rightarrow> bytes \<Rightarrow> string" where
  "pipeline_ETag H bs = hex_Encode (h_md5 H bs)"

definition pipeline_Checksums :: "checksumCheck list \<Rightarrow> bytes \<Rightarrow> (string \<times> string) list" where
  "pipeline_Checksums checks bs =
     fold (\<lambda>c m. AList.update (cc_name c) (StdEncoding_Encode (cc_sum c bs)) m) checks []"

definition pipeline_Validate :: "checksumCheck list \<Rightarrow> bytes \<Rightarrow> go_error option" where
  "pipeline_Validate checks bs =
     (if list_all (\<lambda>c. cc_expected c = cc_sum c bs) checks then None else Some ErrChecksumMismatch)"

definition lookup_or_empty :: "(string \<times> string) list \<Rightarrow> string \<Rightarrow> string" where
  "lookup_or_empty m k = (case map_of m k of None \<Rightarrow> [] | Some v \<Rightarrow> v)"

definition checksums_of :: "(string \<times> string) list \<Rightarrow> checksums" where
  "checksums_of cs = \<lparr>ChecksumCRC32 = lookup_or_empty cs ''x-amz-checksum-crc32'',
     ChecksumCRC32C = lookup_or_empty cs ''x-amz-checksum-crc32c'',
     ChecksumCRC64NVME = lookup_or_empty cs ''x-amz-checksum-crc64nvme'',
     ChecksumSHA1 = lookup_or_empty cs ''x-amz-checksum-sha1'',
     ChecksumSHA256 = lookup_or_empty cs ''x-amz-checksum-sha256''\<rparr>"

section \<open>Shared steps\<close>

definition parseMetadataHeaders :: "request \<Rightarrow> (string \<times> string) list" where
  "parseMetadataHeaders r =
     List.map_filter (\<lambda>(key, vals).
       let lower = ToLower key in
       if HasPrefix lower ''x-amz-meta-'' then
         (case vals of [] \<Rightarrow> None | v # vs \<Rightarrow> Some (drop (length ''x-amz-meta-'') lower, v))
       else None) (r_Header r)"

definition ActivityPutObject :: string where "ActivityPutObject = ''put_object''"
definition ActivityCopyObject :: string where "ActivityCopyObject = ''copy_object''"
definition ActivityDeleteObject :: string where "ActivityDeleteObject = ''delete_object''"
definition ActivityDeleteObjects :: string where "ActivityDeleteObjects = ''delete_objects''"
definition ActivityCompleteMultipartUpload :: string where "ActivityCompleteMultipartUpload = ''complete_multipart_upload''"
definition ActivityCreateBucket :: string where "ActivityCreateBucket = ''create_bucket''"
definition ActivityDeleteBucket :: string where "ActivityDeleteBucket = ''delete_bucket''"

definition RecordActivity :: "db_env \<Rightarrow> request \<Rightarrow> ObjectActivity \<Rightarrow> db \<Rightarrow> unit result \<times> db" where
  "RecordActivity env r event =
     activity_Create env
       (case r_Principal r of None \<Rightarrow> event | Some p \<Rightarrow> event\<lparr>oa_ActorUserID := p_UserID p\<rparr>)"

definition recordActivity ::
  "ObjectHandlers \<Rightarrow> request \<Rightarrow> string \<Rightarrow> string \<Rightarrow> string \<Rightarrow> int \<Rightarrow> string \<Rightarrow> unit act" where
  "recordActivity h r action bucketName key sz et =
     andThen (newID h) (\<lambda>i.
     andThen (h_now h) (\<lambda>now.
     andThen (on_db (RecordActivity (h_dbenv h) r
       \<lparr>oa_ID = i, oa_Action = action, oa_BucketName = bucketName, oa_ObjectKey = key, oa_Size = sz,
        oa_ETag = et, oa_ActorUserID = [], oa_CreatedAt = now\<rparr>)) (\<lambda>ignored. ret ())))"

definition deleteStoredFile :: "ObjectHandlers \<Rightarrow> string \<Rightarrow> unit act" where
  "deleteStoredFile h sp = andThen (on_disk (Delete (h_os h) (h_Storage h) sp)) (\<lambda>ignored. ret ())"

definition writeStorageMutationError :: "request \<Rightarrow> go_error \<Rightarrow> 'a act" where
  "writeStorageMutationError r err =
     (if err = ErrInvalidKey \<or> err = ErrPathTraversal then reject r 400 InvalidRequest
      else reject r 500 InternalError)"

definition writeObjectReplaceError :: "request \<Rightarrow> go_error \<Rightarrow> 'a act" where
  "writeObjectReplaceError r err =
     (if err = ErrPreconditionFailed then reject r 412 PreconditionFailed
      else if err = ErrObjectNotFound then reject r 404 NoSuchKey
      else reject r 500 InternalError)"

definition checksumPipelineError :: "request \<Rightarrow> go_error \<Rightarrow> 'a act" where
  "checksumPipelineError r err =
     (if err = ErrInvalidDigest then reject r 400 InvalidDigest else reject r 400 InvalidRequest)"

text \<open>\<open>objectops.DeleteObject\<close>: the row first, then the file.  The result is what the caller sees.\<close>

definition objectops_DeleteObject ::
  "ObjectHandlers \<Rightarrow> string \<Rightarrow> string \<Rightarrow> (Object option \<times> bool) result act" where
  "objectops_DeleteObject h bucketName key =
     andThen (on_db (GetByKey (h_dbenv h) bucketName key)) (\<lambda>res.
       case res of
         Inl err \<Rightarrow> (if err = ErrObjectNotFound then ret (Inr (None, False)) else ret (Inl err))
       | Inr obj \<Rightarrow>
           andThen (on_db (object_Delete (h_dbenv h) bucketName key)) (\<lambda>res.
             case res of
               Inl err \<Rightarrow> ret (Inl err)
             | Inr u \<Rightarrow>
                 andThen (on_disk (Delete (h_os h) (h_Storage h) (o_StoragePath obj))) (\<lambda>err.
                   case err of Some e \<Rightarrow> ret (Inl e) | None \<Rightarrow> ret (Inr (Some obj, True)))))"

end
