(* ===== verification/Clock.thy ===== *)
theory Clock
  imports PublicRead
begin

text \<open>
  The parts of Go's \<open>time\<close> package that request signing uses: civil dates of instants in the proleptic
  Gregorian calendar, \<open>Format\<close> and \<open>Parse\<close> for the layouts \<open>20060102\<close>, \<open>20060102T150405Z\<close> and
  \<open>20060102T150405.000Z\<close>, and the saturating difference \<open>Sub\<close> of two instants.  The lemmas show that
  the calendar functions are inverse to each other and that \<open>Parse\<close> reads back what \<open>Format\<close> writes.
\<close>

section \<open>Calendar\<close>

definition leap :: "int \<Rightarrow> bool" where
  "leap y \<longleftrightarrow> y mod 4 = 0 \<and> (y mod 100 \<noteq> 0 \<or> y mod 400 = 0)"

text \<open>Days from 1 January of the year 1 to 1 January of the year \<open>y\<close>.\<close>

definition days_before_year :: "int \<Rightarrow> int" where
  "days_before_year y = 365 * (y - 1) + (y - 1) div 4 - (y - 1) div 100 + (y - 1) div 400"

definition month_days :: "int \<Rightarrow> int list" where
  "month_days y = [31, if leap y then 29 else 28, 31, 30, 31, 30, 31, 31, 30, 31, 30, 31]"

definition daysIn :: "int \<Rightarrow> int \<Rightarrow> int" where
  "daysIn m y = month_days y ! nat (m - 1)"

definition year_of_days :: "int \<Rightarrow> int" where
  "year_of_days n =
     (let y = n * 400 div 146097 + 1 in
      if n < days_before_year y then y - 1 else if days_before_year (y + 1) \<le> n then y + 1 else y)"

fun split_month :: "int list \<Rightarrow> int \<Rightarrow> int \<Rightarrow> int \<times> int" where
  "split_month [] m d = (m, d + 1)"
| "split_month (l # ls) m d = (if d < l then (m, d + 1) else split_month ls (m + 1) (d - l))"

definition civil :: "int \<Rightarrow> int \<times> int \<times> int" where
  "civil n = (let y = year_of_days n in (y, split_month (month_days y) 1 (n - days_before_year y)))"

definition days_of_civil :: "int \<Rightarrow> int \<Rightarrow> int \<Rightarrow> int" where
  "days_of_civil y m d = days_before_year y + sum_list (take (nat (m - 1)) (month_days y)) + (d - 1)"

definition valid_date :: "int \<Rightarrow> int \<Rightarrow> int \<Rightarrow> bool" where
  "valid_date y m d \<longleftrightarrow> 1 \<le> m \<and> m \<le> 12 \<and> 1 \<le> d \<and> d \<le> daysIn m y"

section \<open>\<open>Format\<close> and \<open>Parse\<close>\<close>

text \<open>An instant with the offset in seconds of the location it is displayed in; UTC has offset 0.\<close>

record gotime =
  t_abs :: time
  t_offset :: int

definition UTC :: "time \<Rightarrow> gotime" where
  "UTC t = \<lparr>t_abs = t, t_offset = 0\<rparr>"

definition appendInt :: "nat \<Rightarrow> int \<Rightarrow> string" where
  "appendInt w x =
     (let ds = nat_digits (nat \<bar>x\<bar>); padded = replicate (w - length ds) CHR ''0'' @ ds in
      if x < 0 then CHR ''-'' # padded else padded)"

definition local_seconds :: "gotime \<Rightarrow> int" where
  "local_seconds t = (t_abs t + t_offset t * second) div second"

definition date_text :: "int \<times> int \<times> int \<Rightarrow> string" where
  "date_text ymd = (case ymd of (y, m, d) \<Rightarrow> appendInt 4 y @ appendInt 2 m @ appendInt 2 d)"

definition Format_date :: "gotime \<Rightarrow> string" where
  "Format_date t = date_text (civil (local_seconds t div 86400))"

definition clock_text :: "int \<Rightarrow> string" where
  "clock_text secs = appendInt 2 (secs div 3600) @ appendInt 2 (secs mod 3600 div 60) @ appendInt 2 (secs mod 60)"

definition Format_compact :: "gotime \<Rightarrow> string" where
  "Format_compact t = Format_date t @ ''T'' @ clock_text (local_seconds t mod 86400) @ ''Z''"

text \<open>\<open>http.TimeFormat\<close>; the first day of the calendar of \<open>time.Time\<close> is a Monday.\<close>

definition Format_http :: "gotime \<Rightarrow> string" where
  "Format_http t =
     (let days = local_seconds t div 86400; secs = local_seconds t mod 86400 in
      case civil days of (y, m, d) \<Rightarrow>
        [''Mon'', ''Tue'', ''Wed'', ''Thu'', ''Fri'', ''Sat'', ''Sun''] ! nat (days mod 7) @ '', '' @ appendInt 2 d @ '' '' @
        [''Jan'', ''Feb'', ''Mar'', ''Apr'', ''May'', ''Jun'', ''Jul'', ''Aug'', ''Sep'', ''Oct'', ''Nov'', ''Dec''] ! nat (m - 1) @ '' '' @
        appendInt 4 y @ '' '' @ appendInt 2 (secs div 3600) @ '':'' @ appendInt 2 (secs mod 3600 div 60) @ '':'' @ appendInt 2 (secs mod 60) @
        '' GMT'')"

definition number :: "string \<Rightarrow> int option" where
  "number s = (if list_all is_digit s then Some (digits_val s) else None)"

definition instant :: "int \<Rightarrow> int \<Rightarrow> int \<Rightarrow> int \<Rightarrow> int \<Rightarrow> int \<Rightarrow> int \<Rightarrow> time" where
  "instant y m d hh mm ss ns = (days_of_civil y m d * 86400 + hh * 3600 + mm * 60 + ss) * second + ns"

text \<open>The fields \<open>20060102T150405\<close> in the first fifteen bytes, with their ranges, and the nanoseconds.\<close>

definition parse_fields :: "string \<Rightarrow> int \<Rightarrow> gotime option" where
  "parse_fields s ns =
     (case (number (take 4 s), number (take 2 (drop 4 s)), number (take 2 (drop 6 s)),
            number (take 2 (drop 9 s)), number (take 2 (drop 11 s)), number (take 2 (drop 13 s))) of
        (Some y, Some m, Some d, Some hh, Some mm, Some ss) \<Rightarrow>
          if take 1 (drop 8 s) = ''T'' \<and> valid_date y m d \<and> hh < 24 \<and> mm < 60 \<and> ss < 60
          then Some (UTC (instant y m d hh mm ss ns)) else None
      | _ \<Rightarrow> None)"

definition Parse_compact :: "string \<Rightarrow> gotime option" where
  "Parse_compact s = (if drop 15 s = ''Z'' then parse_fields s 0 else None)"

text \<open>The integer reader of the package \<open>time\<close>: an optional sign and decimal digits.\<close>

definition time_atoi :: "string \<Rightarrow> int option" where
  "time_atoi s =
     (case s of
        [] \<Rightarrow> Some 0
      | c # r \<Rightarrow> if c = CHR ''-'' then map_option uminus (number r)
                 else if c = CHR ''+'' then number r else number s)"

definition Parse_millis :: "string \<Rightarrow> gotime option" where
  "Parse_millis s =
     (if take 1 (drop 15 s) \<in> {''.'', '',''} \<and> drop 19 s = ''Z'' then
        (case time_atoi (take 3 (drop 16 s)) of
           None \<Rightarrow> None
         | Some n \<Rightarrow> if n < 0 then None else parse_fields s (n * 1000000))
      else None)"

text \<open>\<open>t.Sub(u)\<close> is the difference as a 64-bit \<open>Duration\<close>, the nearest bound where it does not fit.\<close>

definition minDuration :: int where "minDuration = - (2 ^ 63)"

definition time_Sub :: "time \<Rightarrow> time \<Rightarrow> int" where
  "time_Sub t u =
     (let d = t - u in if d < minDuration then minDuration else if 2 ^ 63 \<le> d then 2 ^ 63 - 1 else d)"

section \<open>The calendar functions are inverse\<close>

lemma year_length: "days_before_year (y + 1) - days_before_year y = (if leap y then 366 else 365)"
proof -
  have step: "(y::int) div k = (y - 1) div k + (if y mod k = 0 then 1 else 0)" if "0 < k" for k
  proof (cases "y mod k = 0")
    case True
    then obtain q where q: "y = k * q" by (auto simp: mod_eq_0_iff_dvd)
    have "(y - 1) div k = q - 1"
      by (rule int_div_pos_eq [of _ _ _ "k - 1"]) (use that q in \<open>simp_all add: algebra_simps\<close>)
    with q that True show ?thesis by simp
  next
    case False
    have "0 < y mod k" "y mod k < k" using False pos_mod_sign [OF that, of y] pos_mod_bound [OF that, of y] by simp_all
    then have "(y - 1) div k = y div k"
      by (intro int_div_pos_eq [of _ _ _ "y mod k - 1"]) (simp_all add: algebra_simps)
    with False show ?thesis by simp
  qed
  have m: "y mod 400 = 0 \<Longrightarrow> y mod 100 = 0" "y mod 100 = 0 \<Longrightarrow> y mod 4 = 0"
    unfolding mod_eq_0_iff_dvd by (erule dvd_trans [rotated], simp)+
  have arith: "365 * y + (a + x) - (b + z) + (c + w) - (365 * (y - 1) + a - b + c) = 365 + x - z + w" for a b c x z w by simp
  show ?thesis
    unfolding days_before_year_def add_diff_cancel_right' step [of 4, OF zero_less_numeral]
      step [of 100, OF zero_less_numeral] step [of 400, OF zero_less_numeral] arith
    using m by (cases "y mod 4 = 0"; cases "y mod 100 = 0"; cases "y mod 400 = 0") (simp_all only: leap_def, simp_all)
qed

lemma days_before_year_mono: "x \<le> y \<Longrightarrow> days_before_year x \<le> days_before_year y"
proof (induction y rule: int_ge_induct)
  case (step i)
  then show ?case using year_length [of i] by (auto split: if_splits)
qed simp

lemma div_lower: "0 < (k::int) \<Longrightarrow> k * (x div k) \<le> x"
  using pos_mod_sign [of k x] mult_div_mod_eq [of k x] by linarith

lemma div_upper: "0 < (k::int) \<Longrightarrow> x < k * (x div k) + k"
  using pos_mod_bound [of k x] mult_div_mod_eq [of k x] by linarith

lemmas year_div = div_lower [where k = 4, OF zero_less_numeral] div_lower [where k = 100, OF zero_less_numeral]
  div_lower [where k = 400, OF zero_less_numeral] div_upper [where k = 4, OF zero_less_numeral]
  div_upper [where k = 100, OF zero_less_numeral] div_upper [where k = 400, OF zero_less_numeral]

lemma year_estimate:
  assumes "4 * a \<le> x" and "100 * b \<le> x" and "400 * c \<le> x" and "x < 4 * a + 4" and "x < 100 * b + 100" and "x < 400 * c + (400::int)"
  shows "146097 * x - 699 \<le> 400 * (365 * x + a - b + c)" and "400 * (365 * x + a - b + c) \<le> 146097 * x + 396"
  using assms by (simp_all add: algebra_simps)

lemmas days_before_year_ge = year_estimate(1) [OF year_div [of "y - 1"], folded days_before_year_def] for y
lemmas days_before_year_le = year_estimate(2) [OF year_div [of "y - 1"], folded days_before_year_def] for y

lemma year_of_days_spec: "days_before_year (year_of_days n) \<le> n \<and> n < days_before_year (year_of_days n + 1)"
proof -
  let ?y = "n * 400 div 146097 + 1"
  have q: "146097 * (?y - 1) \<le> 400 * n" "400 * n < 146097 * (?y - 1) + 146097"
    using div_lower [where k = 146097, OF zero_less_numeral, of "n * 400"]
      div_upper [where k = 146097, OF zero_less_numeral, of "n * 400"] by simp_all
  have est: "e \<le> n" if "146097 * (y - 1) \<le> 400 * n" "400 * e \<le> 146097 * (y - 1 - 1) + 396" for y e :: int
    using that by (simp add: algebra_simps)
  have est2: "n < e" if "400 * n < 146097 * (y - 1) + 146097" "146097 * (y + 2 - 1) - 699 \<le> 400 * e" for y e :: int
    using that by (simp add: algebra_simps)
  have "days_before_year (?y - 1) \<le> n" by (rule est [OF q(1) days_before_year_le])
  moreover have "n < days_before_year (?y + 2)" by (rule est2 [OF q(2) days_before_year_ge])
  ultimately show ?thesis by (auto simp: year_of_days_def Let_def add.assoc)
qed

lemma year_of_days_eq:
  assumes "days_before_year y \<le> n" and "n < days_before_year (y + 1)"
  shows "year_of_days n = y"
proof (rule antisym)
  note s = year_of_days_spec [of n]
  show "year_of_days n \<le> y"
    using s assms days_before_year_mono [of "y + 1" "year_of_days n"] by linarith
  show "y \<le> year_of_days n"
    using s assms days_before_year_mono [of "year_of_days n + 1" y] by linarith
qed

lemma split_month_nth:
  assumes "k < length ls" and "0 \<le> d" and "d < ls ! k" and "\<forall>l\<in>set ls. 0 \<le> l"
  shows "split_month ls m (sum_list (take k ls) + d) = (m + int k, d + 1)"
  using assms
proof (induction ls arbitrary: k m)
  case (Cons l ls)
  show ?case
  proof (cases k)
    case 0
    then show ?thesis using Cons.prems by simp
  next
    case (Suc j)
    have "0 \<le> sum_list (take j ls)" using Cons.prems(4) by (intro sum_list_nonneg) (auto dest: in_set_takeD)
    then show ?thesis using Cons.IH [of j "m + 1"] Cons.prems Suc by (simp add: algebra_simps)
  qed
qed simp

lemma month_days_nonneg: "\<forall>l\<in>set (month_days y). 0 \<le> l"
  by (simp add: month_days_def)

lemma year_days: "sum_list (month_days y) = (if leap y then 366 else 365)"
  by (simp add: month_days_def)

lemma sum_take_le:
  assumes "k < length ls" and "\<forall>l\<in>set ls. (0::int) \<le> l"
  shows "sum_list (take k ls) + ls ! k \<le> sum_list ls"
proof -
  have "ls = take k ls @ ls ! k # drop (Suc k) ls" using assms(1) by (simp add: id_take_nth_drop)
  then have "sum_list ls = sum_list (take k ls) + ls ! k + sum_list (drop (Suc k) ls)"
    by (metis add.assoc sum_list.Cons sum_list_append)
  moreover have "0 \<le> sum_list (drop (Suc k) ls)" using assms(2) by (intro sum_list_nonneg) (auto dest: in_set_dropD)
  ultimately show ?thesis by simp
qed

theorem civil_days_of_civil:
  assumes "valid_date y m d"
  shows "civil (days_of_civil y m d) = (y, m, d)"
proof -
  let ?k = "nat (m - 1)" and ?ls = "month_days y"
  have len: "length ?ls = 12" by (simp add: month_days_def)
  have k: "?k < length ?ls" "m = 1 + int ?k" unfolding len using assms by (auto simp: valid_date_def)
  have d: "0 \<le> d - 1" "d - 1 < ?ls ! ?k" using assms by (simp_all add: valid_date_def daysIn_def)
  have "0 \<le> sum_list (take ?k ?ls)" using month_days_nonneg by (intro sum_list_nonneg) (auto dest: in_set_takeD)
  then have "year_of_days (days_of_civil y m d) = y"
    using d sum_take_le [OF k(1) month_days_nonneg] year_length [of y] year_days [of y]
    by (intro year_of_days_eq) (simp_all add: days_of_civil_def)
  then show ?thesis
    using split_month_nth [OF k(1) d month_days_nonneg, of 1] k(2)
    by (simp add: civil_def Let_def days_of_civil_def algebra_simps)
qed

lemma split_month_spec:
  assumes "0 \<le> d" and "d < sum_list ls" and "split_month ls m d = (m', d')"
  shows "\<exists>k<length ls. m' = m + int k \<and> 1 \<le> d' \<and> d' \<le> ls ! k \<and> sum_list (take k ls) + (d' - 1) = d"
  using assms
proof (induction ls arbitrary: m d)
  case (Cons l ls)
  show ?case
  proof (cases "d < l")
    case True
    then show ?thesis using Cons.prems by (intro exI [of _ 0]) auto
  next
    case False
    then obtain k where "k < length ls" "m' = m + 1 + int k" "1 \<le> d'" "d' \<le> ls ! k" "sum_list (take k ls) + (d' - 1) = d - l"
      using Cons.IH [of "d - l" "m + 1"] Cons.prems by auto
    then show ?thesis by (intro exI [of _ "Suc k"]) auto
  qed
qed simp

lemma civil_valid:
  assumes "civil n = (y, m, d)"
  shows "valid_date y m d" and "days_of_civil y m d = n"
proof -
  from assms have y: "y = year_of_days n" and s: "split_month (month_days y) 1 (n - days_before_year y) = (m, d)"
    by (auto simp: civil_def Let_def)
  have "0 \<le> n - days_before_year y" "n - days_before_year y < sum_list (month_days y)"
    using year_of_days_spec [of n] year_length [of y] unfolding y year_days by simp_all
  from split_month_spec [OF this s] obtain k where "k < length (month_days y)" "m = 1 + int k" "1 \<le> d" "d \<le> month_days y ! k"
    "sum_list (take k (month_days y)) + (d - 1) = n - days_before_year y" by blast
  then show "valid_date y m d" and "days_of_civil y m d = n"
    by (simp_all add: valid_date_def daysIn_def days_of_civil_def month_days_def)
qed

section \<open>\<open>Parse\<close> reads what \<open>Format\<close> writes\<close>

lemma digits_val_append: "digits_val (xs @ ys) = digits_val xs * 10 ^ length ys + digits_val ys"
  by (induction ys rule: rev_induct) (simp_all add: digits_val_snoc digits_val_def [of "[]"] algebra_simps flip: append_assoc)

lemma digits_val_zeros: "digits_val (replicate n CHR ''0'') = 0"
  by (induction n) (simp_all add: digits_val_def digit_val_def)

lemma nat_digits_length: "n < 10 ^ Suc w \<Longrightarrow> length (nat_digits n) \<le> Suc w"
proof (induction w arbitrary: n)
  case 0
  then show ?case by (subst nat_digits.simps) simp
next
  case (Suc w)
  have "n div 10 < 10 ^ Suc w" using Suc.prems by (simp add: less_mult_imp_div_less mult.commute)
  from Suc.IH [OF this] show ?case by (subst nat_digits.simps) simp
qed

lemma appendInt_digits:
  assumes "0 \<le> x" and "x < 10 ^ Suc w"
  shows "length (appendInt (Suc w) x) = Suc w" and "number (appendInt (Suc w) x) = Some x"
    and "list_all is_digit (appendInt (Suc w) x)"
proof -
  have "nat x < 10 ^ Suc w" using assms by (simp add: nat_less_iff)
  from nat_digits_length [OF this] show "length (appendInt (Suc w) x) = Suc w"
    using assms(1) by (simp add: appendInt_def Let_def)
  have z: "list_all is_digit (replicate n CHR ''0'')" for n by (induction n) (simp_all add: is_digit_def)
  then show d: "list_all is_digit (appendInt (Suc w) x)"
    using assms(1) by (simp add: appendInt_def Let_def nat_digits_props)
  then show "number (appendInt (Suc w) x) = Some x"
    using assms(1) by (simp add: number_def appendInt_def Let_def digits_val_append digits_val_zeros nat_digits_props)
qed

lemma appendInt_4: "0 \<le> x \<Longrightarrow> x < 10000 \<Longrightarrow> length (appendInt 4 x) = 4 \<and> number (appendInt 4 x) = Some x \<and> list_all is_digit (appendInt 4 x)"
  using appendInt_digits [of x 3] by (simp add: eval_nat_numeral)

lemma appendInt_2: "0 \<le> x \<Longrightarrow> x < 100 \<Longrightarrow> length (appendInt 2 x) = 2 \<and> number (appendInt 2 x) = Some x \<and> list_all is_digit (appendInt 2 x)"
  using appendInt_digits [of x 1] by (simp add: eval_nat_numeral)

lemma parse_fields_concat:
  assumes "length a = 4" and "length b = 2" and "length c = 2" and "length e = 2" and "length f = 2" and "length g = 2"
  shows "parse_fields (a @ b @ c @ ''T'' @ e @ f @ g @ rest) ns =
     (case (number a, number b, number c, number e, number f, number g) of
        (Some y, Some m, Some d, Some hh, Some mm, Some ss) \<Rightarrow>
          if valid_date y m d \<and> hh < 24 \<and> mm < 60 \<and> ss < 60 then Some (UTC (instant y m d hh mm ss ns)) else None
      | _ \<Rightarrow> None)"
proof -
  let ?s = "a @ b @ c @ ''T'' @ e @ f @ g @ rest"
  have "take 4 ?s = a" "take 2 (drop 4 ?s) = b" "take 2 (drop 6 ?s) = c" "take 2 (drop 9 ?s) = e" "take 2 (drop 11 ?s) = f"
    "take 2 (drop 13 ?s) = g" "take 1 (drop 8 ?s) = ''T''" using assms by simp_all
  then show ?thesis unfolding parse_fields_def by (simp only: simp_thms)
qed

lemma valid_date_bounds: "valid_date y m d \<Longrightarrow> 0 \<le> m \<and> m < 100 \<and> 0 \<le> d \<and> d < 100"
proof -
  assume v: "valid_date y m d"
  then have "nat (m - 1) < length (month_days y)" by (auto simp: valid_date_def month_days_def)
  then have "daysIn m y \<in> set (month_days y)" unfolding daysIn_def by (rule nth_mem)
  then have "daysIn m y \<le> 31" by (auto simp: month_days_def split: if_splits)
  with v show ?thesis by (auto simp: valid_date_def)
qed

lemma date_text_digits:
  assumes "0 \<le> y" and "y < 10000" and "valid_date y m d"
  shows "length (date_text (y, m, d)) = 8" and "list_all is_digit (date_text (y, m, d))"
  using appendInt_4 [OF assms(1,2)] appendInt_2 [of m] appendInt_2 [of d] valid_date_bounds [OF assms(3)]
  by (simp_all add: date_text_def)

lemma clock_parts:
  assumes "0 \<le> secs" and "secs < 86400"
  shows "0 \<le> secs div 3600" and "secs div 3600 < 24" and "0 \<le> secs mod 3600 div 60" and "secs mod 3600 div 60 < 60"
    and "0 \<le> secs mod 60" and "secs mod 60 < 60" and "secs div 3600 * 3600 + secs mod 3600 div 60 * 60 + secs mod 60 = (secs::int)"
proof -
  show "0 \<le> secs div 3600" using assms by (simp add: pos_imp_zdiv_nonneg_iff)
  show "secs div 3600 < 24" using div_lower [where k = 3600, OF zero_less_numeral, of secs] assms by linarith
  have m: "0 \<le> secs mod 3600" "secs mod 3600 < 3600" by simp_all
  then show "0 \<le> secs mod 3600 div 60" by (simp add: pos_imp_zdiv_nonneg_iff)
  show "secs mod 3600 div 60 < 60" using div_lower [where k = 60, OF zero_less_numeral, of "secs mod 3600"] m by linarith
  have "secs mod 3600 mod 60 = secs mod 60" by (rule mod_mod_cancel) simp
  then show "secs div 3600 * 3600 + secs mod 3600 div 60 * 60 + secs mod 60 = secs"
    using div_mult_mod_eq [of secs 3600] div_mult_mod_eq [of "secs mod 3600" 60] by linarith
qed simp_all

lemma parse_fields_text:
  assumes y: "0 \<le> y" "y < 10000" and d: "valid_date y m d" and s: "0 \<le> secs" "secs < 86400"
  shows "parse_fields (date_text (y, m, d) @ ''T'' @ clock_text secs @ rest) ns =
      Some (UTC ((days_of_civil y m d * 86400 + secs) * second + ns))" and "length (clock_text secs) = 6"
proof -
  note cp = clock_parts [OF s]
  have small: "0 \<le> m" "m < 100" "0 \<le> d" "d < 100" "secs div 3600 < 100" "secs mod 3600 div 60 < 100" "secs mod 60 < 100"
    using valid_date_bounds [OF d] cp(2,4,6) by linarith+
  note f = appendInt_4 [OF y] appendInt_2 [OF small(1,2)] appendInt_2 [OF small(3,4)]
    appendInt_2 [OF cp(1) small(5)] appendInt_2 [OF cp(3) small(6)] appendInt_2 [OF cp(5) small(7)]
  show "length (clock_text secs) = 6" using f unfolding clock_text_def by (simp only: length_append)
  have "instant y m d (secs div 3600) (secs mod 3600 div 60) (secs mod 60) ns = (days_of_civil y m d * 86400 + secs) * second + ns"
    unfolding instant_def add.assoc cp(7) [unfolded add.assoc] ..
  moreover have "valid_date y m d \<and> secs div 3600 < 24 \<and> secs mod 3600 div 60 < 60 \<and> secs mod 60 < 60" using d cp by blast
  ultimately show "parse_fields (date_text (y, m, d) @ ''T'' @ clock_text secs @ rest) ns =
      Some (UTC ((days_of_civil y m d * 86400 + secs) * second + ns))"
    unfolding date_text_def clock_text_def prod.case append_assoc using f
    by (subst parse_fields_concat) (simp_all only: option.case prod.case if_True simp_thms)
qed

text \<open>The instants whose local date has a four-digit year, the range in which the layouts are faithful.\<close>

definition formattable :: "gotime \<Rightarrow> bool" where
  "formattable t \<longleftrightarrow> (let y = fst (civil (local_seconds t div 86400)) in 0 \<le> y \<and> y < 10000)"

lemma Format_date_text:
  assumes "formattable t"
  obtains y m d where "civil (local_seconds t div 86400) = (y, m, d)" and "0 \<le> y" and "y < 10000" and "valid_date y m d"
    and "days_of_civil y m d = local_seconds t div 86400" and "Format_date t = date_text (y, m, d)"
proof -
  obtain y m d where c: "civil (local_seconds t div 86400) = (y, m, d)" by (metis prod_cases3)
  with assms civil_valid [OF c] show ?thesis by (intro that [of y m d]) (simp_all add: formattable_def Format_date_def)
qed

lemma Format_date_digits: "formattable t \<Longrightarrow> length (Format_date t) = 8 \<and> list_all is_digit (Format_date t)"
  by (erule Format_date_text) (simp add: date_text_digits)

lemma Parse_Format:
  assumes "formattable t"
  shows "length (Format_compact t) = 16" and "Parse_compact (Format_compact t) = Some (UTC (local_seconds t * second))"
proof -
  from assms obtain y m d where c: "0 \<le> y" "y < 10000" "valid_date y m d" "days_of_civil y m d = local_seconds t div 86400"
    and f: "Format_date t = date_text (y, m, d)" by (rule Format_date_text)
  have s: "0 \<le> local_seconds t mod 86400" "local_seconds t mod 86400 < 86400" by simp_all
  note p = parse_fields_text [OF c(1,2,3) s]
  show "length (Format_compact t) = 16" using p(2) date_text_digits [OF c(1-3)] by (simp add: Format_compact_def f)
  have "drop 15 (Format_compact t) = ''Z''" using p(2) date_text_digits [OF c(1-3)] by (simp add: Format_compact_def f)
  moreover have "parse_fields (Format_compact t) 0 = Some (UTC (local_seconds t * second))"
    unfolding Format_compact_def f p(1) c(4) by simp
  ultimately show "Parse_compact (Format_compact t) = Some (UTC (local_seconds t * second))" by (simp add: Parse_compact_def)
qed

lemma Format_date_UTC: "Format_date (UTC (local_seconds t * second)) = Format_date t"
  by (simp add: Format_date_def local_seconds_def UTC_def second_def)

end
