(* ===== verification/S3Objects.thy ===== *)
theory S3Objects
  imports S3Access Clock
begin

text \<open>
  The object handlers: \<open>PutObject\<close>, \<open>GetObject\<close>, \<open>HeadObject\<close>, \<open>GetObjectAttributes\<close> and
  \<open>DeleteObject\<close> (\<open>object_handlers.go\<close>, \<open>object_read.go\<close>), \<open>DeleteObjects\<close>
  (\<open>delete_objects.go\<close>) and \<open>CopyObject\<close> (\<open>copy_object.go\<close>).  The decoded XML body of a
  multi-object delete is an argument of its handler, as is the value of
  \<open>mime.ParseMediaType\<close> where it only decides whether a header is accepted.
\<close>

section \<open>Writing\<close>

definition default_content_type :: "string \<Rightarrow> string" where
  "default_content_type v = (let t = TrimSpace v in if t = [] then ''application/octet-stream'' else t)"

text \<open>The end of \<open>PutObject\<close> and \<open>CopyObject\<close>: publish the row, record, drop the replaced file.\<close>

definition publish_object :: "ObjectHandlers \<Rightarrow> request \<Rightarrow> string \<Rightarrow> Object \<Rightarrow> unit act" where
  "publish_object h r action obj =
     andThen (on_db (Replace (h_dbenv h) obj (header_Get r ''If-Match'') (header_Get r ''If-None-Match''))) (\<lambda>res.
       case res of
         Inl err \<Rightarrow> andThen (deleteStoredFile h (o_StoragePath obj)) (\<lambda>u. writeObjectReplaceError r err)
       | Inr replacedPath \<Rightarrow>
           andThen (recordActivity h r action (o_BucketName obj) (o_Key obj) (o_Size obj) (o_ETag obj)) (\<lambda>u.
             if replacedPath \<noteq> [] \<and> replacedPath \<noteq> o_StoragePath obj
             then deleteStoredFile h replacedPath else ret ()))"

definition PutObject :: "ObjectHandlers \<Rightarrow> request \<Rightarrow> response act" where
  "PutObject h r =
     (case objectRouteParams r of (bucketName, key) \<Rightarrow>
      if key = [] then reject r 400 InvalidRequest
      else andThen (ensureBucketAction h r bucketName ActionPutObject key []) (\<lambda>u.
        case newChecksumPipeline (h_hashes h) r of
          Inl err \<Rightarrow> checksumPipelineError r err
        | Inr pipeline \<Rightarrow>
            andThen (on_disk (Write (h_os h) (h_Storage h) bucketName key (r_Body r))) (\<lambda>res.
              case res of
                Inl err \<Rightarrow> writeStorageMutationError r err
              | Inr (sp, written) \<Rightarrow>
                  let body = concat (map fst (r_Body r)) in
                  (case pipeline_Validate pipeline body of
                     Some err \<Rightarrow>
                       andThen (on_disk (Delete (h_os h) (h_Storage h) sp)) (\<lambda>ignored. reject r 400 BadDigest)
                   | None \<Rightarrow>
                       andThen (h_now h) (\<lambda>now.
                       andThen (newID h) (\<lambda>i.
                         let cs = pipeline_Checksums pipeline body;
                             obj = \<lparr>o_ID = i, o_BucketName = bucketName, o_Key = key, o_Size = written,
                               o_ETag = pipeline_ETag (h_hashes h) body,
                               o_ContentType = default_content_type (header_Get r ''Content-Type''),
                               o_StoragePath = sp, o_CreatedAt = now, o_UpdatedAt = now, o_IsMultipart = False,
                               o_PartsCount = 0, o_Checksums = checksums_of cs, o_UserMetadata = parseMetadataHeaders r\<rparr>
                         in andThen (publish_object h r ActivityPutObject obj) (\<lambda>u.
                              ret (respond 200 ((''ETag'', quoteETag (o_ETag obj)) # cs) Empty))))))))"

section \<open>Reading\<close>

definition loadObjectForRead :: "ObjectHandlers \<Rightarrow> request \<Rightarrow> string \<Rightarrow> string \<Rightarrow> Object act" where
  "loadObjectForRead h r bucketName key =
     (if key = [] then reject r 400 InvalidRequest
      else andThen (ensureBucketAction h r bucketName ActionGetObject key []) (\<lambda>u.
        andThen (on_db (GetByKey (h_dbenv h) bucketName key)) (\<lambda>res.
          case res of
            Inl err \<Rightarrow> (if err = ErrObjectNotFound then reject r 404 NoSuchKey else reject r 500 InternalError)
          | Inr obj \<Rightarrow> ret obj)))"

definition handlePartNumber :: "request \<Rightarrow> Object \<Rightarrow> unit act" where
  "handlePartNumber r obj =
     (let partNumStr = query_Get r ''partNumber'' in
      if partNumStr = [] then ret ()
      else case Atoi partNumStr of
        None \<Rightarrow> reject r 400 InvalidArgument
      | Some partNumber \<Rightarrow>
          if partNumber < 1 then reject r 400 InvalidArgument
          else if \<not> o_IsMultipart obj then
            (if partNumber \<noteq> 1 then reject r 400 InvalidPart else ret ())
          else if partNumber > o_PartsCount obj then reject r 400 InvalidPart
          else fail ((WriteS3Error r 501 NotImplemented)\<lparr>rheaders :=
                 [(''x-amz-mp-parts-count'', Itoa (o_PartsCount obj)), (''Content-Type'', ''application/xml'')]\<rparr>))"

definition parseResponseContentDisposition :: "(string \<Rightarrow> bool) \<Rightarrow> string list option \<Rightarrow> string option" where
  "parseResponseContentDisposition media_type_ok vals =
     (case vals of
        None \<Rightarrow> Some []
      | Some vs \<Rightarrow>
          (case vs of
             [v] \<Rightarrow> if v = [] \<or> \<not> media_type_ok v then None else Some v
           | _ \<Rightarrow> None))"

definition requestedResponseContentDisposition :: "(string \<Rightarrow> bool) \<Rightarrow> request \<Rightarrow> string act" where
  "requestedResponseContentDisposition media_type_ok r =
     (case parseResponseContentDisposition media_type_ok (map_of (r_Query r) ''response-content-disposition'') of
        None \<Rightarrow> reject r 400 InvalidArgument
      | Some disposition \<Rightarrow> ret disposition)"

definition setObjectHeaders :: "Object \<Rightarrow> string \<Rightarrow> string \<Rightarrow> (string \<times> string) list" where
  "setObjectHeaders obj cacheControl disposition =
     [(''ETag'', quoteETag (o_ETag obj)), (''Content-Length'', Itoa (o_Size obj)),
      (''Last-Modified'', Format_http (UTC (o_UpdatedAt obj)))]
     @ (if o_ContentType obj \<noteq> [] then [(''Content-Type'', o_ContentType obj)] else [])
     @ (if disposition \<noteq> [] then [(''Content-Disposition'', disposition)] else [])
     @ [(''X-Content-Type-Options'', ''nosniff'')]
     @ (if cacheControl \<noteq> [] then [(''Cache-Control'', cacheControl)] else [])
     @ (if o_IsMultipart obj \<and> o_PartsCount obj > 0
        then [(''x-amz-mp-parts-count'', Itoa (o_PartsCount obj))] else [])
     @ map (\<lambda>(k, v). (''x-amz-meta-'' @ k, v)) (o_UserMetadata obj)"

text \<open>
  \<open>serveObject\<close>.  Setting the write deadline of the connection is one more call that may fail, after which the
  bytes go out under the policy of \<open>write_timeout.go\<close>.  A directory in place of the file fails when \<open>ServeContent\<close> seeks in it; the last
  argument is the response the read-error mapper of the caller writes for every storage error.
\<close>

definition serveObject ::
  "ObjectHandlers \<Rightarrow> Object \<Rightarrow> string \<Rightarrow> string \<Rightarrow> (go_error \<Rightarrow> response) \<Rightarrow> response act" where
  "serveObject h obj cacheControl disposition mapReadError =
     andThen (on_disk (Open (h_os h) (h_Storage h) (o_StoragePath obj))) (\<lambda>res.
       case res of
         Inl err \<Rightarrow> fail (mapReadError err)
       | Inr f \<Rightarrow>
           andThen (on_disk (os_call (h_os h) ErrIO)) (\<lambda>deadlineErr.
             case deadlineErr of
               Some err \<Rightarrow> fail (mapReadError err)
             | None \<Rightarrow>
                 (case f of
                    Dir \<Rightarrow> ret (respond 500 [] (Text ''seeker can't seek''))
                  | File bs \<Rightarrow>
                      ret (respond 200 (setObjectHeaders obj cacheControl disposition)
                             (ServeContent (o_Key obj) (o_UpdatedAt obj) bs)))))"

definition mapAuthenticatedStorageReadError :: "request \<Rightarrow> go_error \<Rightarrow> response" where
  "mapAuthenticatedStorageReadError r err = WriteS3Error r 500 InternalError"

definition GetObject :: "(string \<Rightarrow> bool) \<Rightarrow> ObjectHandlers \<Rightarrow> request \<Rightarrow> response act" where
  "GetObject media_type_ok h r =
     (case objectRouteParams r of (bucketName, key) \<Rightarrow>
      andThen (loadObjectForRead h r bucketName key) (\<lambda>obj.
      andThen (handlePartNumber r obj) (\<lambda>u.
      andThen (requestedResponseContentDisposition media_type_ok r) (\<lambda>disposition.
        serveObject h obj (h_S3CacheControl h) disposition (mapAuthenticatedStorageReadError r)))))"

definition HeadObject :: "(string \<Rightarrow> bool) \<Rightarrow> ObjectHandlers \<Rightarrow> request \<Rightarrow> response act" where
  "HeadObject media_type_ok h r =
     (case objectRouteParams r of (bucketName, key) \<Rightarrow>
      andThen (loadObjectForRead h r bucketName key) (\<lambda>obj.
      andThen (handlePartNumber r obj) (\<lambda>u.
      andThen (requestedResponseContentDisposition media_type_ok r) (\<lambda>disposition.
        serveObject h obj (h_S3CacheControl h) disposition (mapAuthenticatedStorageReadError r)))))"

definition validAttrs :: "string list" where
  "validAttrs = [''etag'', ''checksum'', ''objectparts'', ''storageclass'', ''objectsize'']"

fun requested_attrs :: "string list \<Rightarrow> string list \<Rightarrow> string + string list" where
  "requested_attrs [] acc = Inr acc"
| "requested_attrs (attr # attrs) acc =
     (let a = TrimSpace (ToLower attr) in
      if a = [] then requested_attrs attrs acc
      else if a \<notin> set validAttrs then Inl a
      else requested_attrs attrs (a # acc))"

definition GetObjectAttributes :: "ObjectHandlers \<Rightarrow> request \<Rightarrow> response act" where
  "GetObjectAttributes h r =
     (case objectRouteParams r of (bucketName, key) \<Rightarrow>
      andThen (loadObjectForRead h r bucketName key) (\<lambda>obj.
        let attrHeader = header_Get r ''x-amz-object-attributes'' in
        if attrHeader = [] then fail (WriteS3Error_msg r 400 InvalidRequest ''x-amz-object-attributes header is required'')
        else case requested_attrs (split_on CHR '','' attrHeader) [] of
          Inl a \<Rightarrow> fail (WriteS3Error_msg r 400 InvalidRequest (''invalid attribute: '' @ a))
        | Inr wanted \<Rightarrow>
            ret (respond 200 xml_headers (Doc (AttributesDoc
              \<lparr>ga_ETag = (if ''etag'' \<in> set wanted then quoteETag (o_ETag obj) else []),
               ga_ObjectSize = (if ''objectsize'' \<in> set wanted then Some (o_Size obj) else None),
               ga_StorageClass = (if ''storageclass'' \<in> set wanted then ''STANDARD'' else []),
               ga_ObjectParts = (if o_IsMultipart obj \<and> ''objectparts'' \<in> set wanted then Some (o_PartsCount obj) else None),
               ga_Checksum = (if ''checksum'' \<in> set wanted \<and> o_Checksums obj \<noteq> no_checksums
                              then Some (o_Checksums obj) else None)\<rparr>)))))"

section \<open>Deleting\<close>

definition DeleteObject :: "ObjectHandlers \<Rightarrow> request \<Rightarrow> response act" where
  "DeleteObject h r =
     (case objectRouteParams r of (bucketName, key) \<Rightarrow>
      if key = [] then reject r 400 InvalidRequest
      else andThen (ensureBucketAction h r bucketName ActionDeleteObject key []) (\<lambda>u.
        andThen (objectops_DeleteObject h bucketName key) (\<lambda>res.
          case res of
            Inl err \<Rightarrow> reject r 500 InternalError
          | Inr (Some obj, True) \<Rightarrow>
              andThen (recordActivity h r ActivityDeleteObject bucketName key (o_Size obj) (o_ETag obj)) (\<lambda>u.
                ret (respond 204 [] Empty))
          | Inr _ \<Rightarrow> ret (respond 204 [] Empty))))"

record deleteObjectsRequest =
  dq_Quiet :: bool
  dq_Objects :: "string list"

definition maxDeleteObjects :: nat where "maxDeleteObjects = 1000"

definition verifyDeleteObjectsDigest :: "hashes \<Rightarrow> request \<Rightarrow> bytes \<Rightarrow> go_error option" where
  "verifyDeleteObjectsDigest H r payload =
     (let md5v = header_Get r ''Content-MD5''; shav = header_Get r ''X-Amz-Content-SHA256'' in
      if md5v \<noteq> [] then
        (if \<not> requestHasSignedHeader r ''content-md5'' then Some ErrUnsignedDeleteDigest
         else case StdEncoding_Decode md5v of
           None \<Rightarrow> Some ErrInvalidDigest
         | Some expected \<Rightarrow>
             if length expected \<noteq> 16 then Some ErrInvalidDigest
             else if expected \<noteq> h_md5 H payload then Some ErrChecksumMismatch else None)
      else if shav \<noteq> [] \<and> shav \<noteq> unsignedPayloadHash then
        (if \<not> requestHasSignedHeader r ''x-amz-content-sha256'' then Some ErrUnsignedDeleteDigest
         else case hex_Decode shav of
           None \<Rightarrow> Some ErrInvalidDigest
         | Some expected \<Rightarrow>
             if length expected \<noteq> 32 then Some ErrInvalidDigest
             else if expected \<noteq> h_sha256 H payload then Some ErrChecksumMismatch else None)
      else Some ErrMissingDeleteDigest)"

text \<open>
  \<open>httpapi.ReadBody\<close>: the body up to a limit, checked against the signed payload hash; then the
  checks of \<open>parseDeleteObjectsRequest\<close> on the document \<open>decode\<close> makes of it.
\<close>

fun read_all_body :: "reader \<Rightarrow> bytes result" where
  "read_all_body [] = Inr []"
| "read_all_body ((bs, err) # rest) =
     (case err of
        Some e \<Rightarrow> Inl e
      | None \<Rightarrow> (case read_all_body rest of Inl e \<Rightarrow> Inl e | Inr more_bs \<Rightarrow> Inr (bs @ more_bs)))"

definition ReadBody :: "hashes \<Rightarrow> nat \<Rightarrow> request \<Rightarrow> bytes result" where
  "ReadBody H lim r =
     bindr (read_all_body (r_Body r)) (\<lambda>payload.
       if length payload > lim then Inl ErrMalformed
       else let expected = signedPayloadHash r in
         if expected \<noteq> [] \<and> expected \<noteq> unsignedPayloadHash \<and> \<not> EqualFold expected (hex_Encode (h_sha256 H payload))
         then Inl ErrMalformed else Inr payload)"

definition parseDeleteObjectsRequest ::
  "(bytes \<Rightarrow> deleteObjectsRequest option) \<Rightarrow> hashes \<Rightarrow> request \<Rightarrow> deleteObjectsRequest result" where
  "parseDeleteObjectsRequest decode H r =
     bindr (ReadBody H (2 * 1024 * 1024) r) (\<lambda>payload.
       if TrimSpace payload = [] then Inl ErrMalformed
       else case verifyDeleteObjectsDigest H r payload of
         Some e \<Rightarrow> Inl e
       | None \<Rightarrow>
           (case decode payload of
              None \<Rightarrow> Inl ErrMalformed
            | Some req \<Rightarrow>
                if dq_Objects req = [] then Inl ErrMalformed
                else if length (dq_Objects req) > maxDeleteObjects then Inl ErrTooManyDeleteObjects
                else if [] \<in> set (dq_Objects req) then Inl ErrMalformed
                else Inr req))"

definition deleteObjectsError :: "request \<Rightarrow> go_error \<Rightarrow> 'a act" where
  "deleteObjectsError r err =
     (if err = ErrUnsignedDeleteDigest then reject r 403 AccessDenied
      else if err = ErrTooManyDeleteObjects \<or> err = ErrMissingDeleteDigest then reject r 400 InvalidRequest
      else if err = ErrInvalidDigest then reject r 400 InvalidDigest
      else if err = ErrChecksumMismatch then reject r 400 BadDigest
      else reject r 400 MalformedXML)"

fun delete_loop ::
  "ObjectHandlers \<Rightarrow> request \<Rightarrow> string \<Rightarrow> Bucket \<Rightarrow> bool \<Rightarrow> string list \<Rightarrow> deleteObjectsResult \<Rightarrow> deleteObjectsResult act" where
  "delete_loop h r bucketName bucket quiet [] result = ret result"
| "delete_loop h r bucketName bucket quiet (key # keys) result =
     andThen (authorizeQuiet h r ActionDeleteObject bucketName key (Some bucket)) (\<lambda>res.
       case res of
         Inl err \<Rightarrow> reject r 500 InternalError
       | Inr allowed \<Rightarrow>
           if \<not> allowed then
             delete_loop h r bucketName bucket quiet keys (result\<lparr>dr_Errors := dr_Errors result @ [(key, AccessDenied)]\<rparr>)
           else andThen (objectops_DeleteObject h bucketName key) (\<lambda>res.
             case res of
               Inl err \<Rightarrow> reject r 500 InternalError
             | Inr (obj, existed) \<Rightarrow>
                 andThen (case (obj, existed) of
                            (Some x, True) \<Rightarrow> recordActivity h r ActivityDeleteObject bucketName key (o_Size x) (o_ETag x)
                          | _ \<Rightarrow> ret ()) (\<lambda>u.
                   delete_loop h r bucketName bucket quiet keys
                     (if quiet then result else result\<lparr>dr_Deleted := dr_Deleted result @ [key]\<rparr>))))"

definition DeleteObjects ::
  "(bytes \<Rightarrow> deleteObjectsRequest option) \<Rightarrow> ObjectHandlers \<Rightarrow> request \<Rightarrow> response act" where
  "DeleteObjects decode h r =
     (let bucketName = chiBucketParam r in
      andThen (loadBucket h r bucketName) (\<lambda>bucket.
      andThen (authorizeBucketRelationship h r bucket) (\<lambda>u.
        case parseDeleteObjectsRequest decode (h_hashes h) r of
          Inl err \<Rightarrow> deleteObjectsError r err
        | Inr req \<Rightarrow>
            andThen (delete_loop h r bucketName bucket (dq_Quiet req) (dq_Objects req)
                       \<lparr>dr_Deleted = [], dr_Errors = []\<rparr>) (\<lambda>result.
            andThen (recordActivity h r ActivityDeleteObjects bucketName [] (int (length (dq_Objects req))) []) (\<lambda>u.
              ret (respond 200 xml_headers (Doc (DeleteResult result))))))))"

section \<open>Copying\<close>

record copySource =
  cs_bucketName :: string
  cs_key :: string
  cs_versionID :: string

definition parseCopySource :: "(string \<Rightarrow> url_values option) \<Rightarrow> string \<Rightarrow> copySource option" where
  "parseCopySource ParseQuery value =
     (let trimmed = TrimPrefix (TrimSpace value) ''/'' in
      if trimmed = [] then None
      else case cut_at CHR ''?'' trimmed of (pathPart, rawQuery, hasQuery) \<Rightarrow>
        case ParseQuery rawQuery of
          None \<Rightarrow> None
        | Some params \<Rightarrow>
            (case cut_at CHR ''/'' pathPart of (bucketPart, keyPart, ok) \<Rightarrow>
               if \<not> ok \<or> bucketPart = [] \<or> keyPart = [] then None
               else case (PathUnescape bucketPart, PathUnescape keyPart) of
                 (Some b, Some k) \<Rightarrow>
                   Some \<lparr>cs_bucketName = b, cs_key = k, cs_versionID = values_Get params ''versionId''\<rparr>
               | _ \<Rightarrow> None))"

definition metadata_directive :: "request \<Rightarrow> string" where
  "metadata_directive r = ToUpper (TrimSpace (header_Get r ''x-amz-metadata-directive''))"

definition copyObjectContentType :: "request \<Rightarrow> string \<Rightarrow> string option" where
  "copyObjectContentType r sourceContentType =
     (let directive = metadata_directive r in
      if directive = [] \<or> directive = ''COPY'' then Some sourceContentType
      else if directive = ''REPLACE'' then Some (default_content_type (header_Get r ''Content-Type''))
      else None)"

definition CopyObject :: "(string \<Rightarrow> url_values option) \<Rightarrow> ObjectHandlers \<Rightarrow> request \<Rightarrow> response act" where
  "CopyObject ParseQuery h r =
     (case objectRouteParams r of (destinationBucket, destinationKey) \<Rightarrow>
      if destinationKey = [] then reject r 400 InvalidRequest
      else andThen (requireSignedHeader r ''x-amz-copy-source'') (\<lambda>u.
      andThen (if header_Get r ''x-amz-metadata-directive'' \<noteq> []
               then requireSignedHeader r ''x-amz-metadata-directive'' else ret ()) (\<lambda>u.
        case parseCopySource ParseQuery (header_Get r ''x-amz-copy-source'') of
          None \<Rightarrow> reject r 400 InvalidRequest
        | Some source \<Rightarrow>
          if cs_versionID source \<noteq> [] then reject r 501 NotImplemented
          else andThen (ensureBucketAction h r (cs_bucketName source) ActionGetObject (cs_key source) []) (\<lambda>u.
          andThen (ensureBucketAction h r destinationBucket ActionPutObject destinationKey []) (\<lambda>u.
          andThen (on_db (GetByKey (h_dbenv h) (cs_bucketName source) (cs_key source))) (\<lambda>res.
            case res of
              Inl err \<Rightarrow> (if err = ErrObjectNotFound then reject r 404 NoSuchKey else reject r 500 InternalError)
            | Inr sourceObject \<Rightarrow>
              andThen (on_disk (Open (h_os h) (h_Storage h) (o_StoragePath sourceObject))) (\<lambda>res.
                case res of
                  Inl err \<Rightarrow> fail (mapAuthenticatedStorageReadError r err)
                | Inr sourceFile \<Rightarrow>
                  (case copyObjectContentType r (o_ContentType sourceObject) of
                     None \<Rightarrow> reject r 400 InvalidRequest
                   | Some contentType \<Rightarrow>
                     andThen (on_disk (Write (h_os h) (h_Storage h) destinationBucket destinationKey (node_reader sourceFile))) (\<lambda>res.
                       case res of
                         Inl err \<Rightarrow> writeStorageMutationError r err
                       | Inr (sp, written) \<Rightarrow>
                         andThen (h_now h) (\<lambda>now.
                         andThen (newID h) (\<lambda>i.
                           let directive = metadata_directive r;
                               obj = \<lparr>o_ID = i, o_BucketName = destinationBucket, o_Key = destinationKey,
                                 o_Size = written, o_ETag = o_ETag sourceObject, o_ContentType = contentType,
                                 o_StoragePath = sp, o_CreatedAt = now, o_UpdatedAt = now, o_IsMultipart = False,
                                 o_PartsCount = 0, o_Checksums = no_checksums,
                                 o_UserMetadata = (if directive = [] \<or> directive = ''COPY'' then o_UserMetadata sourceObject
                                                   else if directive = ''REPLACE'' then parseMetadataHeaders r else [])\<rparr>
                           in andThen (publish_object h r ActivityCopyObject obj) (\<lambda>u.
                                ret (respond 200 (xml_headers @ [(''ETag'', quoteETag (o_ETag obj))])
                                  (Doc (CopyObjectResult now (quoteETag (o_ETag obj)))))))))))))))))"

end
