(* ===== verification/S3Multipart.thy ===== *)
theory S3Multipart
  imports S3Objects
begin

text \<open>
  Multipart uploads: \<open>multipart_upload.go\<close> (shared steps and claims), \<open>multipart_create.go\<close>,
  \<open>multipart_part.go\<close>, \<open>multipart_complete.go\<close>, \<open>multipart_abort.go\<close>, \<open>multipart_list.go\<close> and
  \<open>multipart_cleanup.go\<close>.  The per-upload mutex orders requests of one process and has no effect
  on a single run, so \<open>lockUpload\<close> is the second look-up it makes.  The decoded XML body of a
  completion is given by the function \<open>decode\<close>.
\<close>

section \<open>\<open>multipart_upload.go\<close>\<close>

definition defaultMinPartSize :: int where "defaultMinPartSize = 5 * 1024 * 1024"
definition maxPartNumber :: int where "maxPartNumber = 10000"
definition maxListResults :: int where "maxListResults = 1000"

definition multipartTarget :: "ObjectHandlers \<Rightarrow> request \<Rightarrow> Action \<Rightarrow> (string \<times> string \<times> string) act" where
  "multipartTarget h r action =
     (case objectRouteParams r of (bucketName, key) \<Rightarrow>
      if key = [] then reject r 400 InvalidRequest
      else andThen (ensureBucketAction h r bucketName action key []) (\<lambda>u.
        let uploadID = query_Get r ''uploadId'' in
        if uploadID = [] then reject r 400 InvalidRequest else ret (bucketName, key, uploadID)))"

definition parsePartNumber :: "request \<Rightarrow> int act" where
  "parsePartNumber r =
     (case Atoi (query_Get r ''partNumber'') of
        None \<Rightarrow> reject r 400 InvalidRequest
      | Some n \<Rightarrow> if n < 1 \<or> n > maxPartNumber then reject r 400 InvalidRequest else ret n)"

definition parseListLimit :: "request \<Rightarrow> string \<Rightarrow> int act" where
  "parseListLimit r raw0 =
     (let raw = TrimSpace raw0 in
      if raw = [] then ret maxListResults
      else case Atoi raw of
        None \<Rightarrow> reject r 400 InvalidArgument
      | Some lim \<Rightarrow>
          if lim < 0 then reject r 400 InvalidArgument
          else if lim = 0 \<or> lim > maxListResults then ret maxListResults
          else ret lim)"

definition loadUpload :: "ObjectHandlers \<Rightarrow> request \<Rightarrow> string \<Rightarrow> string \<Rightarrow> string \<Rightarrow> MultipartUpload act" where
  "loadUpload h r uploadID bucketName key =
     andThen (on_db (upload_GetByID (h_dbenv h) uploadID)) (\<lambda>res.
       case res of
         Inl err \<Rightarrow> (if err = ErrMultipartUploadNotFound then reject r 404 NoSuchUpload else reject r 500 InternalError)
       | Inr upload \<Rightarrow>
           if mu_BucketName upload \<noteq> bucketName \<or> mu_Key upload \<noteq> key then reject r 404 NoSuchUpload
           else ret upload)"

definition lockUpload :: "ObjectHandlers \<Rightarrow> request \<Rightarrow> string \<Rightarrow> string \<Rightarrow> string \<Rightarrow> MultipartUpload act" where
  "lockUpload h r uploadID bucketName key = loadUpload h r uploadID bucketName key"

definition storePart :: "ObjectHandlers \<Rightarrow> request \<Rightarrow> MultipartPart \<Rightarrow> unit act" where
  "storePart h r part =
     andThen (on_db (AddPart (h_dbenv h) part)) (\<lambda>res.
       case res of
         Inl err \<Rightarrow>
           andThen (deleteStoredFile h (mp_StoragePath part)) (\<lambda>u.
             if err = ErrUploadAlreadyClaimed \<or> err = ErrMultipartUploadNotFound then reject r 404 NoSuchUpload
             else reject r 500 InternalError)
       | Inr replacedPath \<Rightarrow>
           if replacedPath \<noteq> [] \<and> replacedPath \<noteq> mp_StoragePath part
           then deleteStoredFile h replacedPath else ret ())"

definition claimUpload :: "ObjectHandlers \<Rightarrow> request \<Rightarrow> string \<Rightarrow> MultipartUploadStatus \<Rightarrow> unit act" where
  "claimUpload h r uploadID st =
     andThen (on_db (ClaimUpload (h_dbenv h) uploadID st)) (\<lambda>res.
       case res of
         Inl err \<Rightarrow>
           (if err = ErrMultipartUploadNotFound \<or> err = ErrUploadAlreadyClaimed then reject r 404 NoSuchUpload
            else reject r 500 InternalError)
       | Inr u \<Rightarrow> ret ())"

definition claim_release :: "ObjectHandlers \<Rightarrow> string \<Rightarrow> world \<Rightarrow> world" where
  "claim_release h uploadID w = snd ((on_db (SetUploadStatus (h_dbenv h) uploadID StatusActive) :: unit result act) w)"

text \<open>
  Code under \<open>defer claim.release()\<close>: it ends with a response and whether the claim is settled;
  an unsettled claim is released afterwards.
\<close>

type_synonym 'a claimed_act = "world \<Rightarrow> ((bool \<times> response) + 'a) \<times> world"

definition unsettled :: "'a act \<Rightarrow> 'a claimed_act" where
  "unsettled m w = (case m w of (Inl r, w1) \<Rightarrow> (Inl (False, r), w1) | (Inr x, w1) \<Rightarrow> (Inr x, w1))"

definition settled :: "'a act \<Rightarrow> 'a claimed_act" where
  "settled m w = (case m w of (Inl r, w1) \<Rightarrow> (Inl (True, r), w1) | (Inr x, w1) \<Rightarrow> (Inr x, w1))"

definition with_claim :: "ObjectHandlers \<Rightarrow> string \<Rightarrow> 'a claimed_act \<Rightarrow> 'a act" where
  "with_claim h uploadID m w =
     (case m w of
        (Inl (done, r), w1) \<Rightarrow> (Inl r, if done then w1 else claim_release h uploadID w1)
      | (Inr x, w1) \<Rightarrow> (Inr x, w1))"

definition etagMatches :: "string \<Rightarrow> string \<Rightarrow> bool" where
  "etagMatches requestETag storedETag = EqualFold (unquoteETag requestETag) (unquoteETag storedETag)"

definition checkPreconditionFailed :: "request \<Rightarrow> Object option \<Rightarrow> unit act" where
  "checkPreconditionFailed r obj =
     (let ifMatch = header_Get r ''If-Match''; ifNoneMatch = header_Get r ''If-None-Match'' in
      if ifMatch = [] \<and> ifNoneMatch = [] then ret ()
      else case obj of
        None \<Rightarrow> ret ()
      | Some x \<Rightarrow>
          if ifMatch \<noteq> [] \<and> ifMatch \<noteq> ''*'' \<and> \<not> EqualFold (unquoteETag ifMatch) (unquoteETag (o_ETag x))
          then reject r 412 PreconditionFailed
          else if ifNoneMatch = ''*'' then reject r 412 PreconditionFailed
          else if ifNoneMatch \<noteq> [] \<and> ifNoneMatch \<noteq> ''*'' \<and> EqualFold (unquoteETag ifNoneMatch) (unquoteETag (o_ETag x))
          then reject r 412 PreconditionFailed
          else ret ())"

section \<open>\<open>multipart_create.go\<close>\<close>

definition checksum_algorithms :: "string list" where
  "checksum_algorithms = [''SHA256'', ''SHA1'', ''CRC32'', ''CRC32C'', ''CRC64NVME'', []]"

definition CreateMultipartUpload :: "ObjectHandlers \<Rightarrow> request \<Rightarrow> response act" where
  "CreateMultipartUpload h r =
     (case objectRouteParams r of (bucketName, key) \<Rightarrow>
      if key = [] then reject r 400 InvalidRequest
      else andThen (ensureBucketAction h r bucketName ActionPutObject key []) (\<lambda>u.
        if ValidateKey key \<noteq> None then reject r 400 InvalidRequest
        else let algo = TrimSpace (header_Get r ''x-amz-checksum-algorithm'') in
          if algo \<notin> set checksum_algorithms then reject r 400 InvalidArgument
          else andThen (newID h) (\<lambda>i.
            andThen (h_now h) (\<lambda>now.
            andThen (on_db (upload_Create (h_dbenv h)
              \<lparr>mu_ID = i, mu_BucketName = bucketName, mu_Key = key,
               mu_ContentType = default_content_type (header_Get r ''Content-Type''),
               mu_ChecksumAlgorithm = algo, mu_Status = StatusActive, mu_CreatedAt = now,
               mu_StatusUpdatedAt = 0, mu_UserMetadata = parseMetadataHeaders r\<rparr>)) (\<lambda>res.
              case res of
                Inl err \<Rightarrow> reject r 500 InternalError
              | Inr u \<Rightarrow>
                  ret (respond 200 (xml_headers @ (if algo \<noteq> [] then [(''x-amz-checksum-algorithm'', algo)] else []))
                    (Doc (InitiateMultipartUploadResult bucketName key i algo))))))))"

section \<open>\<open>multipart_part.go\<close>\<close>

definition partChecksumHeaders :: "string list" where
  "partChecksumHeaders = [''x-amz-checksum-crc32'', ''x-amz-checksum-crc32c'', ''x-amz-checksum-crc64nvme'',
     ''x-amz-checksum-sha1'', ''x-amz-checksum-sha256'']"

definition UploadPart :: "ObjectHandlers \<Rightarrow> request \<Rightarrow> response act" where
  "UploadPart h r =
     andThen (multipartTarget h r ActionPutObject) (\<lambda>(bucketName, key, uploadID).
     andThen (parsePartNumber r) (\<lambda>partNumber.
     andThen (loadUpload h r uploadID bucketName key) (\<lambda>u.
     andThen (on_db (GetByKey (h_dbenv h) bucketName key)) (\<lambda>res.
     andThen (case res of
                Inl err \<Rightarrow> (if err = ErrObjectNotFound then ret None else reject r 500 InternalError)
              | Inr x \<Rightarrow> ret (Some x)) (\<lambda>existingObj.
     andThen (checkPreconditionFailed r existingObj) (\<lambda>u.
     andThen (lockUpload h r uploadID bucketName key) (\<lambda>upload.
       if mu_Status upload \<noteq> StatusActive then reject r 404 NoSuchUpload
       else case newChecksumPipeline (h_hashes h) r of
         Inl err \<Rightarrow> checksumPipelineError r err
       | Inr pipeline \<Rightarrow>
           andThen (on_disk (WritePart (h_os h) (h_Storage h) uploadID partNumber (r_Body r))) (\<lambda>res.
             case res of
               Inl err \<Rightarrow> writeStorageMutationError r err
             | Inr (sp, written) \<Rightarrow>
                 let body = concat (map fst (r_Body r)) in
                 (case pipeline_Validate pipeline body of
                    Some err \<Rightarrow> andThen (deleteStoredFile h sp) (\<lambda>u. reject r 400 BadDigest)
                  | None \<Rightarrow>
                      andThen (h_now h) (\<lambda>now.
                        let cs = pipeline_Checksums pipeline body;
                            part = \<lparr>mp_UploadID = uploadID, mp_PartNumber = partNumber, mp_Size = written,
                              mp_ETag = pipeline_ETag (h_hashes h) body, mp_StoragePath = sp,
                              mp_CreatedAt = now, mp_Checksums = checksums_of cs\<rparr>
                        in andThen (storePart h r part) (\<lambda>u.
                             ret (respond 200 ((''ETag'', quoteETag (mp_ETag part))
                               # filter (\<lambda>(n, v). v \<noteq> []) (map (\<lambda>n. (n, lookup_or_empty cs n)) partChecksumHeaders)) Empty))))))))))))"

definition parsePartCopySource :: "(string \<Rightarrow> url_values option) \<Rightarrow> request \<Rightarrow> copySource act" where
  "parsePartCopySource ParseQuery r =
     (let header = header_Get r ''x-amz-copy-source'' in
      if header = [] then reject r 400 InvalidRequest
      else andThen (requireSignedHeader r ''x-amz-copy-source'') (\<lambda>u.
        case parseCopySource ParseQuery header of
          None \<Rightarrow> reject r 400 InvalidRequest
        | Some source \<Rightarrow>
            if cs_versionID source \<noteq> [] then reject r 501 NotImplemented
            else andThen (if header_Get r ''x-amz-copy-source-range'' \<noteq> []
                          then requireSignedHeader r ''x-amz-copy-source-range'' else ret ()) (\<lambda>u. ret source)))"

definition parseByteRange :: "string \<Rightarrow> int \<Rightarrow> (int \<times> int) result" where
  "parseByteRange rangeHeader objectSize =
     (if \<not> HasPrefix rangeHeader ''bytes='' then Inl ErrInvalidRequest
      else case cut_at CHR ''-'' (TrimSpace (drop (length ''bytes='') rangeHeader)) of (a, b, found) \<Rightarrow>
        if \<not> found then Inl ErrInvalidRequest
        else case ParseInt (TrimSpace a) of
          None \<Rightarrow> Inl ErrInvalidRequest
        | Some start \<Rightarrow>
            if start < 0 then Inl ErrInvalidRequest
            else case ParseInt (TrimSpace b) of
              None \<Rightarrow> Inl ErrInvalidRequest
            | Some end' \<Rightarrow>
                if end' < 0 then Inl ErrInvalidRequest
                else if start > end' then Inl ErrInvalidRequest
                else if start \<ge> objectSize then Inl ErrInvalidRequest
                else if end' \<ge> objectSize then Inl ErrRangeExceedsSize
                else Inr (start, end'))"

text \<open>\<open>Seek\<close> and \<open>io.LimitReader\<close> on an open source file.\<close>

definition limit_node :: "int \<Rightarrow> int \<Rightarrow> node \<Rightarrow> reader" where
  "limit_node start n f =
     (case f of Dir \<Rightarrow> [([], Some ErrIO)] | File c \<Rightarrow> [(take (nat n) (drop (nat start) c), None)])"

definition openCopySource :: "ObjectHandlers \<Rightarrow> request \<Rightarrow> copySource \<Rightarrow> reader act" where
  "openCopySource h r source =
     andThen (on_db (GetByKey (h_dbenv h) (cs_bucketName source) (cs_key source))) (\<lambda>res.
       case res of
         Inl err \<Rightarrow> (if err = ErrObjectNotFound then reject r 404 NoSuchKey else reject r 500 InternalError)
       | Inr sourceObject \<Rightarrow>
           andThen (on_disk (Open (h_os h) (h_Storage h) (o_StoragePath sourceObject))) (\<lambda>res.
             case res of
               Inl err \<Rightarrow> (if err = ErrNotFound then reject r 404 NoSuchKey else reject r 500 InternalError)
             | Inr sourceFile \<Rightarrow>
                 let rangeHeader = header_Get r ''x-amz-copy-source-range'' in
                 if rangeHeader = [] then ret (node_reader sourceFile)
                 else case parseByteRange rangeHeader (o_Size sourceObject) of
                   Inl err \<Rightarrow>
                     (if err = ErrRangeExceedsSize then
                        fail ((WriteS3Error r 416 InvalidRange)\<lparr>rheaders :=
                          [(''Content-Range'', ''bytes */'' @ Itoa (o_Size sourceObject)), (''Content-Type'', ''application/xml'')]\<rparr>)
                      else reject r 400 InvalidArgument)
                 | Inr (start, end') \<Rightarrow>
                     andThen (on_disk (os_call (h_os h) ErrIO)) (\<lambda>seekErr.
                       if seekErr \<noteq> None then reject r 500 InternalError
                       else ret (limit_node start (end' - start + 1) sourceFile))))"

definition UploadPartCopy :: "(string \<Rightarrow> url_values option) \<Rightarrow> ObjectHandlers \<Rightarrow> request \<Rightarrow> response act" where
  "UploadPartCopy ParseQuery h r =
     andThen (multipartTarget h r ActionPutObject) (\<lambda>(bucketName, key, uploadID).
     andThen (parsePartNumber r) (\<lambda>partNumber.
     andThen (parsePartCopySource ParseQuery r) (\<lambda>source.
     andThen (loadUpload h r uploadID bucketName key) (\<lambda>u.
     andThen (ensureBucketAction h r (cs_bucketName source) ActionGetObject (cs_key source) []) (\<lambda>u.
     andThen (openCopySource h r source) (\<lambda>sourceReader.
     andThen (lockUpload h r uploadID bucketName key) (\<lambda>u.
     andThen (on_disk (WritePart (h_os h) (h_Storage h) uploadID partNumber sourceReader)) (\<lambda>res.
       case res of
         Inl err \<Rightarrow> writeStorageMutationError r err
       | Inr (sp, written) \<Rightarrow>
           andThen (h_now h) (\<lambda>now.
             let part = \<lparr>mp_UploadID = uploadID, mp_PartNumber = partNumber, mp_Size = written,
                   mp_ETag = hex_Encode (h_md5 (h_hashes h) (concat (map fst sourceReader))), mp_StoragePath = sp,
                   mp_CreatedAt = now, mp_Checksums = no_checksums\<rparr>
             in andThen (storePart h r part) (\<lambda>u.
                  ret (respond 200 xml_headers (Doc (CopyPartResult now (quoteETag (mp_ETag part)))))))))))))))"

section \<open>\<open>multipart_complete.go\<close>\<close>

definition norm_step :: "CompletePart list \<Rightarrow> CompletePart \<Rightarrow> CompletePart list" where
  "norm_step unique part =
     (case position (map cp_PartNumber unique) (cp_PartNumber part) of
        Some i \<Rightarrow> unique[i := part]
      | None \<Rightarrow> unique @ [part])"

definition normalizeCompletedParts :: "CompletePart list \<Rightarrow> CompletePart list result" where
  "normalizeCompletedParts ps =
     (if ps = [] then Inl ErrNoCompletedParts
      else let unique = foldl norm_step [] ps in
        if \<not> sorted (map cp_PartNumber unique) then Inl ErrPartOrder else Inr unique)"

fun match_loop :: "CompletePart list \<Rightarrow> MultipartPart list \<Rightarrow> int \<Rightarrow> MultipartPart list \<Rightarrow> MultipartPart list result" where
  "match_loop [] storedParts minPartSize matched = Inr matched"
| "match_loop (want # rest) storedParts minPartSize matched =
     (case find (\<lambda>p. mp_PartNumber p = cp_PartNumber want) (rev storedParts) of
        None \<Rightarrow> Inl ErrUnknownPart
      | Some part \<Rightarrow>
          if \<not> etagMatches (cp_ETag want) (mp_ETag part) then Inl ErrUnknownPart
          else if rest \<noteq> [] \<and> mp_Size part < minPartSize then Inl ErrPartTooSmall
          else match_loop rest storedParts minPartSize (matched @ [part]))"

definition matchStoredParts :: "CompletePart list \<Rightarrow> MultipartPart list \<Rightarrow> int \<Rightarrow> MultipartPart list result" where
  "matchStoredParts requested storedParts minPartSize = match_loop requested storedParts minPartSize []"

definition writeCompletedPartsError :: "request \<Rightarrow> go_error \<Rightarrow> 'a act" where
  "writeCompletedPartsError r err =
     (if err = ErrPartOrder then reject r 400 InvalidPartOrder
      else if err = ErrUnknownPart then reject r 400 InvalidPart
      else if err = ErrPartTooSmall then reject r 400 EntityTooSmall
      else reject r 400 InvalidRequest)"

fun decode_etags :: "string list \<Rightarrow> bytes result" where
  "decode_etags [] = Inr []"
| "decode_etags (e # es) =
     (case hex_Decode (unquoteETag e) of
        None \<Rightarrow> Inl ErrMalformed
      | Some digest \<Rightarrow> (case decode_etags es of Inl err \<Rightarrow> Inl err | Inr ds \<Rightarrow> Inr (digest @ ds)))"

definition MultipartETag :: "hashes \<Rightarrow> string list \<Rightarrow> string result" where
  "MultipartETag H partETags =
     (if partETags = [] then Inl ErrMalformed
      else case decode_etags partETags of
        Inl err \<Rightarrow> Inl err
      | Inr ds \<Rightarrow> Inr (hex_Encode (h_md5 H ds) @ ''-'' @ Itoa (int (length partETags))))"

definition minPartSize :: "ObjectHandlers \<Rightarrow> int" where
  "minPartSize h = (if h_MinPartSize h = 0 then defaultMinPartSize else h_MinPartSize h)"

definition assembleUpload ::
  "ObjectHandlers \<Rightarrow> request \<Rightarrow> MultipartUpload \<Rightarrow> MultipartPart list \<Rightarrow> Object act" where
  "assembleUpload h r upload ps =
     andThen (on_disk (AssembleParts (h_os h) (h_Storage h) (mu_BucketName upload) (mu_Key upload) (map mp_StoragePath ps))) (\<lambda>res.
       case res of
         Inl err \<Rightarrow> writeStorageMutationError r err
       | Inr (sp, written) \<Rightarrow>
           (case MultipartETag (h_hashes h) (map mp_ETag ps) of
              Inl err \<Rightarrow> andThen (deleteStoredFile h sp) (\<lambda>u. reject r 500 InternalError)
            | Inr et \<Rightarrow>
                andThen (h_now h) (\<lambda>now.
                andThen (newID h) (\<lambda>i.
                  ret \<lparr>o_ID = i, o_BucketName = mu_BucketName upload, o_Key = mu_Key upload, o_Size = written,
                       o_ETag = et,
                       o_ContentType = (if mu_ContentType upload = [] then ''application/octet-stream'' else mu_ContentType upload),
                       o_StoragePath = sp, o_CreatedAt = now, o_UpdatedAt = now, o_IsMultipart = True,
                       o_PartsCount = int (length ps), o_Checksums = no_checksums,
                       o_UserMetadata = mu_UserMetadata upload\<rparr>))))"

definition writeCompleteUploadError :: "request \<Rightarrow> go_error \<Rightarrow> 'a claimed_act" where
  "writeCompleteUploadError r err =
     (if err = ErrMultipartUploadNotFound then settled (reject r 404 NoSuchUpload)
      else if err = ErrUploadAlreadyClaimed then unsettled (reject r 404 NoSuchUpload)
      else if err = ErrPreconditionFailed then unsettled (reject r 412 PreconditionFailed)
      else if err = ErrObjectNotFound then unsettled (reject r 404 NoSuchKey)
      else unsettled (reject r 500 InternalError))"

definition deleteUploadParts :: "ObjectHandlers \<Rightarrow> string \<Rightarrow> unit act" where
  "deleteUploadParts h uploadID =
     andThen (on_disk (DeleteUploadParts (h_os h) (h_Storage h) uploadID)) (\<lambda>ignored. ret ())"

definition complete_claimed ::
  "ObjectHandlers \<Rightarrow> request \<Rightarrow> MultipartUpload \<Rightarrow> string \<Rightarrow> CompletePart list \<Rightarrow> Object claimed_act" where
  "complete_claimed h r upload uploadID requested =
     andThen (unsettled (on_db (ListParts (h_dbenv h) uploadID))) (\<lambda>res.
       case res of
         Inl err \<Rightarrow> unsettled (reject r 500 InternalError)
       | Inr storedParts \<Rightarrow>
           (case matchStoredParts requested storedParts (minPartSize h) of
              Inl err \<Rightarrow> unsettled (writeCompletedPartsError r err)
            | Inr ps \<Rightarrow>
                andThen (unsettled (assembleUpload h r upload ps)) (\<lambda>obj.
                andThen (unsettled (on_db (CompleteUpload (h_dbenv h) obj uploadID
                           (header_Get r ''If-Match'') (header_Get r ''If-None-Match'')))) (\<lambda>res.
                  case res of
                    Inl err \<Rightarrow>
                      andThen (unsettled (deleteStoredFile h (o_StoragePath obj))) (\<lambda>u. writeCompleteUploadError r err)
                  | Inr replacedPath \<Rightarrow>
                      andThen (settled (recordActivity h r ActivityCompleteMultipartUpload
                        (o_BucketName obj) (o_Key obj) (o_Size obj) (o_ETag obj))) (\<lambda>u.
                      andThen (settled (if replacedPath \<noteq> [] \<and> replacedPath \<noteq> o_StoragePath obj
                                        then deleteStoredFile h replacedPath else ret ())) (\<lambda>u.
                        ret obj))))))"

definition CompleteMultipartUpload ::
  "(bytes \<Rightarrow> CompletePart list option) \<Rightarrow> ObjectHandlers \<Rightarrow> request \<Rightarrow> response act" where
  "CompleteMultipartUpload decode h r =
     andThen (multipartTarget h r ActionPutObject) (\<lambda>(bucketName, key, uploadID).
     andThen (loadUpload h r uploadID bucketName key) (\<lambda>u.
     andThen (lockUpload h r uploadID bucketName key) (\<lambda>upload.
       case ReadBody (h_hashes h) (2 * 1024 * 1024) r of
         Inl err \<Rightarrow> reject r 400 MalformedXML
       | Inr payload \<Rightarrow>
           (case decode payload of
              None \<Rightarrow> reject r 400 MalformedXML
            | Some ps \<Rightarrow>
                (case normalizeCompletedParts ps of
                   Inl err \<Rightarrow> writeCompletedPartsError r err
                 | Inr requested \<Rightarrow>
                     andThen (claimUpload h r uploadID StatusCompleting) (\<lambda>u.
                     andThen (with_claim h uploadID (complete_claimed h r upload uploadID requested)) (\<lambda>obj.
                     andThen (deleteUploadParts h uploadID) (\<lambda>u.
                       ret (respond 200 xml_headers (Doc (CompleteMultipartUploadResult
                         (''/'' @ bucketName @ ''/'' @ key) bucketName key (quoteETag (o_ETag obj)))))))))))))"

section \<open>\<open>multipart_abort.go\<close> and \<open>multipart_cleanup.go\<close>\<close>

definition AbortMultipartUpload :: "ObjectHandlers \<Rightarrow> request \<Rightarrow> response act" where
  "AbortMultipartUpload h r =
     andThen (multipartTarget h r ActionAbortMultipartUpload) (\<lambda>(bucketName, key, uploadID).
     andThen (loadUpload h r uploadID bucketName key) (\<lambda>u.
     andThen (lockUpload h r uploadID bucketName key) (\<lambda>u.
     andThen (claimUpload h r uploadID StatusAborted) (\<lambda>u.
     andThen (with_claim h uploadID
               (andThen (unsettled (on_db (upload_Delete (h_dbenv h) uploadID))) (\<lambda>res.
                  case res of Inl err \<Rightarrow> unsettled (reject r 500 InternalError) | Inr u \<Rightarrow> ret ()))) (\<lambda>u.
     andThen (deleteUploadParts h uploadID) (\<lambda>u. ret (respond 204 [] Empty)))))))"

definition removeStaleUpload :: "ObjectHandlers \<Rightarrow> MultipartUpload \<Rightarrow> unit act" where
  "removeStaleUpload h upload =
     (let active = (mu_Status upload = StatusActive) in
      andThen (if active then on_db (ClaimUpload (h_dbenv h) (mu_ID upload) StatusAborted) else ret (Inr ())) (\<lambda>res.
        case res of
          Inl err \<Rightarrow> ret ()
        | Inr u \<Rightarrow>
            andThen (on_db (upload_Delete (h_dbenv h) (mu_ID upload))) (\<lambda>res.
              case res of
                Inl err \<Rightarrow>
                  (if active then andThen (on_db (SetUploadStatus (h_dbenv h) (mu_ID upload) StatusActive)) (\<lambda>ignored. ret ())
                   else ret ())
              | Inr u \<Rightarrow> deleteUploadParts h (mu_ID upload))))"

fun stale_loop :: "ObjectHandlers \<Rightarrow> int \<Rightarrow> MultipartUpload list \<Rightarrow> unit act" where
  "stale_loop h ttl [] = ret ()"
| "stale_loop h ttl (u # us) =
     andThen (h_now h) (\<lambda>now.
       if mu_Status u \<noteq> StatusActive \<and> time_Sub now (mu_StatusUpdatedAt u) < wrap64 (ttl * 2) then stale_loop h ttl us
       else andThen (removeStaleUpload h u) (\<lambda>x. stale_loop h ttl us))"

definition removeStaleUploads :: "ObjectHandlers \<Rightarrow> int \<Rightarrow> unit act" where
  "removeStaleUploads h ttl =
     andThen (h_now h) (\<lambda>now.
     andThen (on_db (ListStale (h_dbenv h) (now - ttl))) (\<lambda>res.
       case res of Inl err \<Rightarrow> ret () | Inr stale \<Rightarrow> stale_loop h ttl stale))"

section \<open>\<open>multipart_list.go\<close>\<close>

definition ListMultipartUploads :: "ObjectHandlers \<Rightarrow> request \<Rightarrow> response act" where
  "ListMultipartUploads h r =
     (let bucketName = chiBucketParam r; pre = query_Get r ''prefix'' in
      andThen (ensureBucketAction h r bucketName ActionListBucket [] pre) (\<lambda>u.
      andThen (parseListLimit r (query_Get r ''max-uploads'')) (\<lambda>maxUploads.
        let keyMarker = query_Get r ''key-marker''; uploadIDMarker = query_Get r ''upload-id-marker'';
            delimiter = query_Get r ''delimiter'' in
        if delimiter \<noteq> [] then fail (WriteS3Error_msg r 501 NotImplemented ''delimiter is not yet supported'')
        else andThen (on_db (upload_ListByBucket (h_dbenv h) bucketName pre keyMarker uploadIDMarker maxUploads)) (\<lambda>res.
          case res of
            Inl err \<Rightarrow> reject r 500 InternalError
          | Inr page \<Rightarrow>
              ret (respond 200 xml_headers (Doc (UploadsDoc
                \<lparr>lu_Bucket = bucketName, lu_KeyMarker = keyMarker, lu_UploadIDMarker = uploadIDMarker,
                 lu_NextKeyMarker = pg_nextKeyMarker page, lu_NextUploadIDMarker = pg_nextUploadIDMarker page,
                 lu_MaxUploads = maxUploads, lu_IsTruncated = pg_isTruncated page,
                 lu_Upload = map (\<lambda>u. (mu_Key u, mu_ID u, mu_CreatedAt u)) (pg_uploads page),
                 lu_Delimiter = delimiter, lu_Prefix = pre\<rparr>)))))))"

definition partsAfterMarker :: "MultipartPart list \<Rightarrow> int \<Rightarrow> int \<Rightarrow> MultipartPart list \<times> bool" where
  "partsAfterMarker ps marker lim =
     (let page = dropWhile (\<lambda>p. \<not> mp_PartNumber p > marker) ps in
      if int (length page) > lim then (take (nat lim) page, True) else (page, False))"

definition parse_part_marker :: "request \<Rightarrow> int act" where
  "parse_part_marker r =
     (let raw = TrimSpace (query_Get r ''part-number-marker'') in
      if raw = [] then ret 0
      else case Atoi raw of
        None \<Rightarrow> reject r 400 InvalidArgument
      | Some n \<Rightarrow> if n < 0 then reject r 400 InvalidArgument else ret n)"

definition s3_ListParts :: "ObjectHandlers \<Rightarrow> request \<Rightarrow> response act" where
  "s3_ListParts h r =
     andThen (multipartTarget h r ActionListMultipartUploadParts) (\<lambda>(bucketName, key, uploadID).
     andThen (loadUpload h r uploadID bucketName key) (\<lambda>u.
     andThen (on_db (ListParts (h_dbenv h) uploadID)) (\<lambda>res.
       case res of
         Inl err \<Rightarrow> reject r 500 InternalError
       | Inr ps \<Rightarrow>
           andThen (parseListLimit r (query_Get r ''max-parts'')) (\<lambda>maxParts.
           andThen (parse_part_marker r) (\<lambda>marker.
             case partsAfterMarker ps marker maxParts of (page, truncated) \<Rightarrow>
               ret (respond 200 xml_headers (Doc (PartsDoc
                 \<lparr>lr_Bucket = bucketName, lr_Key = key, lr_UploadID = uploadID, lr_PartNumberMarker = marker,
                  lr_NextPartNumberMarker = (if truncated \<and> page \<noteq> [] then mp_PartNumber (last page) else 0),
                  lr_MaxParts = maxParts, lr_IsTruncated = truncated,
                  lr_Part = map (\<lambda>p. \<lparr>lp_PartNumber = mp_PartNumber p, lp_LastModified = mp_CreatedAt p,
                    lp_ETag = quoteETag (mp_ETag p), lp_Size = mp_Size p, lp_Checksums = mp_Checksums p\<rparr>) page\<rparr>))))))))"

end
