(* ===== verification/S3Buckets.thy ===== *)
theory S3Buckets
  imports S3Multipart
begin

text \<open>
  The bucket handlers (\<open>bucket_create.go\<close>, \<open>bucket_delete.go\<close>, \<open>bucket_head.go\<close>,
  \<open>bucket_location.go\<close>, \<open>list_buckets.go\<close>), the object listings (\<open>bucket_handlers.go\<close>,
  \<open>list_objects_v1.go\<close>, \<open>list_object_versions.go\<close>), the public and shared reads
  (\<open>object_read.go\<close>, \<open>share_link_read.go\<close>) and the dispatch of requests to the handlers
  (\<open>dispatch.go\<close>, \<open>routes.go\<close>).  Decoded request documents and the two parsers of the Go library
  that only accept or reject are collected in \<open>codecs\<close>.
\<close>

record codecs =
  media_type_ok :: "string \<Rightarrow> bool"
  ParseQuery :: "string \<Rightarrow> url_values option"
  decode_delete :: "bytes \<Rightarrow> deleteObjectsRequest option"
  decode_complete :: "bytes \<Rightarrow> CompletePart list option"
  decode_bucket_config :: "bytes \<Rightarrow> (string \<times> string) option"

definition Region :: string where "Region = ''us-east-1''"

section \<open>\<open>bucket_create.go\<close>\<close>

text \<open>
  \<open>net.ParseIP\<close> on names without a colon (a name with one is rejected in any case): four decimal
  fields of at most three digits, without leading zeros, each at most 255.
\<close>

definition ipv4_field :: "string \<Rightarrow> bool" where
  "ipv4_field f \<longleftrightarrow> f \<noteq> [] \<and> length f \<le> 3 \<and> list_all is_digit f
     \<and> (length f > 1 \<longrightarrow> hd f \<noteq> CHR ''0'') \<and> digits_val f \<le> 255"

definition ParseIP :: "string \<Rightarrow> bool" where
  "ParseIP s \<longleftrightarrow> (let fs = split_on CHR ''.'' s in length fs = 4 \<and> list_all ipv4_field fs)"

definition isBucketLabelChar :: "char \<Rightarrow> bool" where
  "isBucketLabelChar c \<longleftrightarrow>
     (let n = of_char c :: nat in 97 \<le> n \<and> n \<le> 122 \<or> 48 \<le> n \<and> n \<le> 57)"

definition validateBucketName :: "string \<Rightarrow> go_error option" where
  "validateBucketName name =
     (if length name < 3 \<or> length name > 63 then Some ErrInvalidRequest
      else if name = ''public'' then Some ErrInvalidRequest
      else if ToLower name \<noteq> name then Some ErrInvalidRequest
      else if ParseIP name then Some ErrInvalidRequest
      else if \<not> list_all (\<lambda>c. isBucketLabelChar c \<or> c = CHR ''-'' \<or> c = CHR ''.'') name then Some ErrInvalidRequest
      else if \<not> isBucketLabelChar (hd name) \<or> \<not> isBucketLabelChar (last name) then Some ErrInvalidRequest
      else if sublist ''..'' name \<or> sublist ''.-'' name \<or> sublist ''-.'' name then Some ErrInvalidRequest
      else None)"

definition validateCreateBucketConfiguration ::
  "(bytes \<Rightarrow> (string \<times> string) option) \<Rightarrow> hashes \<Rightarrow> request \<Rightarrow> go_error option" where
  "validateCreateBucketConfiguration decode H r =
     (case ReadBody H (4 * 1024) r of
        Inl err \<Rightarrow> Some err
      | Inr payload \<Rightarrow>
          if TrimSpace payload = [] then None
          else case decode payload of
            None \<Rightarrow> Some ErrMalformed
          | Some (root, location) \<Rightarrow>
              if root \<noteq> ''CreateBucketConfiguration'' then Some ErrMalformed
              else let locationConstraint = TrimSpace location in
                if locationConstraint = [] \<or> locationConstraint = Region then None
                else Some ErrInvalidLocationConstraint)"

definition bucketOwnerID :: "ObjectHandlers \<Rightarrow> request \<Rightarrow> Principal \<Rightarrow> string result act" where
  "bucketOwnerID h r p =
     (if \<not> p_DevMode p then ret (Inr (p_UserID p))
      else andThen (on_db (user_GetByID (h_dbenv h) (p_UserID p))) (\<lambda>res.
        case res of
          Inr u \<Rightarrow> ret (Inr (p_UserID p))
        | Inl err \<Rightarrow>
            if err \<noteq> ErrUserNotFound then ret (Inl err)
            else andThen (h_now h) (\<lambda>now.
              andThen (on_db (user_Create (h_dbenv h)
                \<lparr>u_ID = p_UserID p, u_DisplayName = p_DisplayName p, u_AccessKeyID = p_AccessKeyID p,
                 u_SecretHash = ''dev-mode'', u_SigV4AccessKeyID = [], u_SigV4SecretKey = [], u_Role = p_Role p,
                 u_IsActive = True, u_CreatedAt = now, u_UpdatedAt = now\<rparr>)) (\<lambda>res.
                case res of
                  Inr u \<Rightarrow> ret (Inr (p_UserID p))
                | Inl err \<Rightarrow>
                    andThen (on_db (user_GetByID (h_dbenv h) (p_UserID p))) (\<lambda>lookup.
                      case lookup of Inr u \<Rightarrow> ret (Inr (p_UserID p)) | Inl e \<Rightarrow> ret (Inl err))))))"

definition writeCreateBucketConflict :: "request \<Rightarrow> Bucket \<Rightarrow> string \<Rightarrow> 'a act" where
  "writeCreateBucketConflict r bucket userID =
     (if b_OwnerID bucket = userID then reject r 409 BucketAlreadyOwnedByYou else reject r 409 BucketAlreadyExists)"

definition CreateBucket :: "codecs \<Rightarrow> ObjectHandlers \<Rightarrow> request \<Rightarrow> response act" where
  "CreateBucket C h r =
     (let bucketName = chiBucketParam r in
      if validateBucketName bucketName \<noteq> None then reject r 400 InvalidBucketName
      else case validateCreateBucketConfiguration (decode_bucket_config C) (h_hashes h) r of
        Some err \<Rightarrow>
          (if err = ErrInvalidLocationConstraint then reject r 400 InvalidLocationConstraint
           else reject r 400 MalformedXML)
      | None \<Rightarrow>
          (case r_Principal r of
             None \<Rightarrow> reject r 403 AccessDenied
           | Some p \<Rightarrow>
               if TrimSpace (p_UserID p) = [] then reject r 403 AccessDenied
               else andThen (bucketOwnerID h r p) (\<lambda>owner.
                 case owner of
                   Inl err \<Rightarrow> reject r 500 InternalError
                 | Inr ownerID \<Rightarrow>
                     andThen (on_db (GetByName (h_dbenv h) bucketName)) (\<lambda>res.
                       case res of
                         Inr bucket \<Rightarrow> writeCreateBucketConflict r bucket ownerID
                       | Inl err \<Rightarrow>
                           if err \<noteq> ErrBucketNotFound then reject r 500 InternalError
                           else andThen (h_now h) (\<lambda>now.
                             andThen (on_db (bucket_Create (h_dbenv h)
                               \<lparr>b_Name = bucketName, b_OwnerID = ownerID, b_CreatedAt = now\<rparr>)) (\<lambda>res.
                               case res of
                                 Inl err \<Rightarrow>
                                   andThen (on_db (GetByName (h_dbenv h) bucketName)) (\<lambda>lookup.
                                     case lookup of
                                       Inr existingBucket \<Rightarrow> writeCreateBucketConflict r existingBucket ownerID
                                     | Inl lookupErr \<Rightarrow> reject r 500 InternalError)
                               | Inr u \<Rightarrow>
                                   andThen (recordActivity h r ActivityCreateBucket bucketName [] 0 []) (\<lambda>u.
                                     ret (respond 200 [(''Location'', ''/'' @ bucketName)] Empty))))))))"

section \<open>\<open>bucket_delete.go\<close>, \<open>bucket_head.go\<close>, \<open>bucket_location.go\<close>\<close>

fun abort_uploads :: "ObjectHandlers \<Rightarrow> request \<Rightarrow> MultipartUpload list \<Rightarrow> unit act" where
  "abort_uploads h r [] = ret ()"
| "abort_uploads h r (u # us) =
     andThen (on_db (upload_Delete (h_dbenv h) (mu_ID u))) (\<lambda>res.
       case res of
         Inl err \<Rightarrow> reject r 500 InternalError
       | Inr x \<Rightarrow> andThen (deleteUploadParts h (mu_ID u)) (\<lambda>x. abort_uploads h r us))"

definition maxAbortIterations :: nat where "maxAbortIterations = 10"

fun abort_pending :: "nat \<Rightarrow> ObjectHandlers \<Rightarrow> request \<Rightarrow> string \<Rightarrow> unit act" where
  "abort_pending 0 h r bucketName = ret ()"
| "abort_pending (Suc n) h r bucketName =
     andThen (on_db (upload_ListByBucket (h_dbenv h) bucketName [] [] [] 1000)) (\<lambda>res.
       case res of
         Inl err \<Rightarrow> reject r 500 InternalError
       | Inr page \<Rightarrow>
           if pg_uploads page = [] then ret ()
           else andThen (abort_uploads h r (pg_uploads page)) (\<lambda>u. abort_pending n h r bucketName))"

definition isSQLiteForeignKeyError :: "go_error \<Rightarrow> bool" where
  "isSQLiteForeignKeyError err \<longleftrightarrow> err = ErrForeignKey"

definition DeleteBucket :: "ObjectHandlers \<Rightarrow> request \<Rightarrow> response act" where
  "DeleteBucket h r =
     (let bucketName = chiBucketParam r in
      andThen (ensureBucketAction h r bucketName ActionDeleteBucket [] []) (\<lambda>u.
      andThen (on_db (object_List (h_dbenv h) bucketName [] [] 1)) (\<lambda>res.
        case res of
          Inl err \<Rightarrow> reject r 500 InternalError
        | Inr (objs, isTruncated) \<Rightarrow>
            if objs \<noteq> [] \<or> isTruncated then reject r 409 BucketNotEmpty
            else andThen (abort_pending maxAbortIterations h r bucketName) (\<lambda>u.
              andThen (on_db (bucket_Delete (h_dbenv h) bucketName)) (\<lambda>res.
                case res of
                  Inl err \<Rightarrow>
                    (if err = ErrBucketNotFound then reject r 404 NoSuchBucket
                     else if isSQLiteForeignKeyError err then reject r 409 BucketNotEmpty
                     else reject r 500 InternalError)
                | Inr u \<Rightarrow>
                    andThen (recordActivity h r ActivityDeleteBucket bucketName [] 0 []) (\<lambda>u.
                      ret (respond 204 [] Empty)))))))"

text \<open>A header set before the handler fails is sent with the error.\<close>

definition with_header :: "string \<times> string \<Rightarrow> 'a act \<Rightarrow> 'a act" where
  "with_header hdr m w =
     (case m w of (Inl resp, w1) \<Rightarrow> (Inl (resp\<lparr>rheaders := hdr # rheaders resp\<rparr>), w1) | (Inr x, w1) \<Rightarrow> (Inr x, w1))"

definition HeadBucket :: "ObjectHandlers \<Rightarrow> request \<Rightarrow> response act" where
  "HeadBucket h r =
     (let bucketName = chiBucketParam r; region = (''x-amz-bucket-region'', Region) in
      if bucketName = [] then reject r 400 InvalidRequest
      else andThen (with_header region (ensureBucketAction h r bucketName ActionListBucket [] [])) (\<lambda>u.
        ret (respond 200 [region] Empty)))"

definition GetBucketLocation :: "ObjectHandlers \<Rightarrow> request \<Rightarrow> response act" where
  "GetBucketLocation h r =
     andThen (ensureBucketAction h r (chiBucketParam r) ActionListBucket [] []) (\<lambda>u.
       ret (respond 200 xml_headers (Doc (LocationConstraint []))))"

section \<open>\<open>list_buckets.go\<close>\<close>

text \<open>The merged map of \<open>mergeBucketsByName\<close>, sorted by creation time and then by name.\<close>

definition mergeBucketsByName :: "Bucket list \<Rightarrow> Bucket list \<Rightarrow> Bucket list" where
  "mergeBucketsByName owned granted =
     (let byName = fold (\<lambda>b m. if map_of m (b_Name b) = None then AList.update (b_Name b) b m else m) granted
                     (fold (\<lambda>b m. AList.update (b_Name b) b m) owned [])
      in sort_key b_CreatedAt (sort_key b_Name (map snd byName)))"

definition listBucketsForPrincipal :: "ObjectHandlers \<Rightarrow> Principal \<Rightarrow> db \<Rightarrow> Bucket list result \<times> db" where
  "listBucketsForPrincipal h p =
     (if p_Role p = RoleAdmin then bucket_List (h_dbenv h)
      else andThen (ListByOwner (h_dbenv h) (p_UserID p)) (\<lambda>owned.
        andThen (ListBucketNamesWithActiveGrants (h_dbenv h) (p_UserID p)) (\<lambda>grantedNames.
          if grantedNames = [] then ret owned
          else andThen (ListByNames (h_dbenv h) grantedNames) (\<lambda>granted.
            ret (mergeBucketsByName owned granted)))))"

definition ListBuckets :: "ObjectHandlers \<Rightarrow> request \<Rightarrow> response act" where
  "ListBuckets h r =
     (case r_Principal r of
        None \<Rightarrow> reject r 403 AccessDenied
      | Some p \<Rightarrow>
          if p_UserID p = [] then reject r 403 AccessDenied
          else andThen (on_db (listBucketsForPrincipal h p)) (\<lambda>res.
            case res of
              Inl err \<Rightarrow> reject r 500 InternalError
            | Inr bs \<Rightarrow>
                ret (respond 200 xml_headers (Doc (ListAllMyBucketsResult (p_UserID p) (p_DisplayName p)
                  (map (\<lambda>b. (b_Name b, b_CreatedAt b)) bs))))))"

section \<open>\<open>bucket_handlers.go\<close>\<close>

definition defaultListMaxKeys :: int where "defaultListMaxKeys = 1000"
definition maxListKeys :: int where "maxListKeys = 1000"
definition maxContinuationTokenLen :: nat where "maxContinuationTokenLen = 1500"
definition maxContinuationKeyLen :: nat where "maxContinuationKeyLen = 1024"

record listEntry =
  le_value :: string
  le_cursor :: string
  le_object :: "Object option"

record listObjectsV2Params =
  lp_prefix :: string
  lp_delimiter :: string
  lp_continuationToken :: string
  lp_startAfter :: string
  lp_responseStartAfter :: string
  lp_hasStartAfter :: bool
  lp_encodingType :: string
  lp_maxKeys :: int

definition encodeContinuationToken :: "string \<Rightarrow> string" where
  "encodeContinuationToken key = RawURLEncoding_Encode key"

definition decodeContinuationToken :: "string \<Rightarrow> string result" where
  "decodeContinuationToken token =
     (if length token > maxContinuationTokenLen then Inl ErrInvalidRequest
      else case RawURLEncoding_Decode token of
        None \<Rightarrow> Inl ErrInvalidRequest
      | Some decoded \<Rightarrow> if length decoded > maxContinuationKeyLen then Inl ErrInvalidRequest else Inr decoded)"

definition encodeListValue :: "string \<Rightarrow> string \<Rightarrow> string" where
  "encodeListValue value encodingType =
     (if encodingType \<noteq> ''url'' then value
      else concat (map (\<lambda>c. if c = CHR ''+'' then ''%20'' else [c]) (QueryEscape value)))"

definition parse_max_keys :: "request \<Rightarrow> int result" where
  "parse_max_keys r =
     (let raw = TrimSpace (query_Get r ''max-keys'') in
      if raw = [] then Inr defaultListMaxKeys
      else case Atoi raw of
        None \<Rightarrow> Inl ErrInvalidMaxKeys
      | Some n \<Rightarrow> if n < 0 then Inl ErrInvalidMaxKeys else Inr (min n maxListKeys))"

definition parseListObjectsV2Params :: "request \<Rightarrow> listObjectsV2Params result" where
  "parseListObjectsV2Params r =
     bindr (parse_max_keys r) (\<lambda>maxKeys.
       let encodingType = query_Get r ''encoding-type'' in
       if encodingType \<noteq> [] \<and> encodingType \<noteq> ''url'' then Inl ErrInvalidRequest
       else let startAfter = query_Get r ''start-after''; continuationToken = query_Get r ''continuation-token'' in
         bindr (if continuationToken \<noteq> [] then decodeContinuationToken continuationToken else Inr startAfter)
           (\<lambda>after. Inr \<lparr>lp_prefix = query_Get r ''prefix'', lp_delimiter = query_Get r ''delimiter'',
              lp_continuationToken = continuationToken, lp_startAfter = after, lp_responseStartAfter = startAfter,
              lp_hasStartAfter = values_Has (r_Query r) ''start-after'', lp_encodingType = encodingType,
              lp_maxKeys = maxKeys\<rparr>))"

definition entry_of :: "DelimitedListEntry \<Rightarrow> listEntry" where
  "entry_of res = \<lparr>le_value = VirtualKey res, le_cursor = CursorKey res,
     le_object = (if IsPrefix res then None else e_Object res)\<rparr>"

definition listObjectsV2Entries ::
  "ObjectHandlers \<Rightarrow> string \<Rightarrow> listObjectsV2Params \<Rightarrow> db \<Rightarrow> (listEntry list \<times> bool) result \<times> db" where
  "listObjectsV2Entries h bucketName ps =
     (if lp_maxKeys ps = 0 then ret ([], False)
      else if lp_delimiter ps = [] then
        andThen (object_List (h_dbenv h) bucketName (lp_prefix ps) (lp_startAfter ps) (lp_maxKeys ps)) (\<lambda>(objs, isTruncated).
          ret (map (\<lambda>x. \<lparr>le_value = o_Key x, le_cursor = o_Key x, le_object = Some x\<rparr>) objs, isTruncated))
      else
        andThen (ListDelimited (h_dbenv h) bucketName (lp_prefix ps) (lp_startAfter ps) (lp_delimiter ps) (lp_maxKeys ps)) (\<lambda>results.
          let isTruncated = int (length results) > lp_maxKeys ps in
          ret (map entry_of (if isTruncated then take (nat (lp_maxKeys ps)) results else results), isTruncated)))"

definition list_prefixes :: "string \<Rightarrow> listEntry list \<Rightarrow> string list" where
  "list_prefixes encodingType es =
     map (\<lambda>e. encodeListValue (le_value e) encodingType) (filter (\<lambda>e. le_object e = None) es)"

definition list_contents :: "string \<Rightarrow> listEntry list \<Rightarrow> listBucketObject list" where
  "list_contents encodingType es =
     map (\<lambda>x. \<lparr>lo_Key = encodeListValue (o_Key x) encodingType, lo_LastModified = o_UpdatedAt x,
               lo_ETag = quoteETag (o_ETag x), lo_Size = o_Size x\<rparr>) (List.map_filter le_object es)"

definition buildListBucketResult ::
  "string \<Rightarrow> listObjectsV2Params \<Rightarrow> listEntry list \<Rightarrow> bool \<Rightarrow> listBucketResult" where
  "buildListBucketResult bucketName ps es isTruncated =
     (let enc = lp_encodingType ps; more_pages = (isTruncated \<and> es \<noteq> []) in
      \<lparr>lb_Name = bucketName, lb_Prefix = encodeListValue (lp_prefix ps) enc,
       lb_KeyCount = int (length (list_contents enc es) + length (list_prefixes enc es)),
       lb_MaxKeys = lp_maxKeys ps, lb_Delimiter = encodeListValue (lp_delimiter ps) enc,
       lb_IsTruncated = more_pages, lb_Contents = list_contents enc es, lb_CommonPrefixes = list_prefixes enc es,
       lb_ContinuationToken = lp_continuationToken ps,
       lb_NextContinuationToken = (if more_pages then encodeContinuationToken (le_cursor (last es)) else []),
       lb_StartAfter = (if lp_hasStartAfter ps then encodeListValue (lp_responseStartAfter ps) enc else []),
       lb_EncodingType = enc\<rparr>)"

definition params_error :: "request \<Rightarrow> go_error \<Rightarrow> 'a act" where
  "params_error r err = (if err = ErrInvalidMaxKeys then reject r 400 InvalidArgument else reject r 400 InvalidRequest)"

definition ListObjectsV2 :: "ObjectHandlers \<Rightarrow> request \<Rightarrow> response act" where
  "ListObjectsV2 h r =
     (if query_Get r ''list-type'' \<noteq> ''2'' then reject r 400 InvalidRequest
      else let bucketName = chiBucketParam r in
        case parseListObjectsV2Params r of
          Inl err \<Rightarrow> params_error r err
        | Inr ps \<Rightarrow>
            andThen (ensureBucketAction h r bucketName ActionListBucket [] (lp_prefix ps)) (\<lambda>u.
            andThen (on_db (listObjectsV2Entries h bucketName ps)) (\<lambda>res.
              case res of
                Inl err \<Rightarrow> reject r 500 InternalError
              | Inr (es, isTruncated) \<Rightarrow>
                  ret (respond 200 xml_headers (Doc (ListDoc (buildListBucketResult bucketName ps es isTruncated)))))))"

section \<open>\<open>list_objects_v1.go\<close> and \<open>list_object_versions.go\<close>\<close>

record listObjectsV1Params =
  l1p_prefix :: string
  l1p_delimiter :: string
  l1p_marker :: string
  l1p_encodingType :: string
  l1p_maxKeys :: int

definition parseListObjectsV1Params :: "request \<Rightarrow> listObjectsV1Params result" where
  "parseListObjectsV1Params r =
     bindr (parse_max_keys r) (\<lambda>maxKeys.
       let encodingType = query_Get r ''encoding-type'' in
       if encodingType \<noteq> [] \<and> encodingType \<noteq> ''url'' then Inl ErrInvalidRequest
       else Inr \<lparr>l1p_prefix = query_Get r ''prefix'', l1p_delimiter = query_Get r ''delimiter'',
              l1p_marker = query_Get r ''marker'', l1p_encodingType = encodingType, l1p_maxKeys = maxKeys\<rparr>)"

definition listObjectsV1Entries ::
  "ObjectHandlers \<Rightarrow> string \<Rightarrow> listObjectsV1Params \<Rightarrow> db \<Rightarrow> (listEntry list \<times> bool) result \<times> db" where
  "listObjectsV1Entries h bucketName ps =
     listObjectsV2Entries h bucketName
       \<lparr>lp_prefix = l1p_prefix ps, lp_delimiter = l1p_delimiter ps, lp_continuationToken = [],
        lp_startAfter = l1p_marker ps, lp_responseStartAfter = [], lp_hasStartAfter = False,
        lp_encodingType = l1p_encodingType ps, lp_maxKeys = l1p_maxKeys ps\<rparr>"

definition buildListBucketV1Result ::
  "string \<Rightarrow> listObjectsV1Params \<Rightarrow> listEntry list \<Rightarrow> bool \<Rightarrow> listBucketV1Result" where
  "buildListBucketV1Result bucketName ps es isTruncated =
     (let enc = l1p_encodingType ps; more_pages = (isTruncated \<and> es \<noteq> []) in
      \<lparr>l1_Name = bucketName, l1_Prefix = encodeListValue (l1p_prefix ps) enc,
       l1_Marker = encodeListValue (l1p_marker ps) enc,
       l1_NextMarker = (if more_pages then encodeListValue (le_cursor (last es)) enc else []),
       l1_MaxKeys = l1p_maxKeys ps, l1_Delimiter = encodeListValue (l1p_delimiter ps) enc,
       l1_IsTruncated = more_pages, l1_Contents = list_contents enc es,
       l1_CommonPrefixes = list_prefixes enc es, l1_EncodingType = enc\<rparr>)"

definition ListObjectsV1 :: "ObjectHandlers \<Rightarrow> request \<Rightarrow> response act" where
  "ListObjectsV1 h r =
     (let bucketName = chiBucketParam r in
      case parseListObjectsV1Params r of
        Inl err \<Rightarrow> params_error r err
      | Inr ps \<Rightarrow>
          andThen (ensureBucketAction h r bucketName ActionListBucket [] (l1p_prefix ps)) (\<lambda>u.
          andThen (on_db (listObjectsV1Entries h bucketName ps)) (\<lambda>res.
            case res of
              Inl err \<Rightarrow> reject r 500 InternalError
            | Inr (es, isTruncated) \<Rightarrow>
                ret (respond 200 xml_headers (Doc (ListV1Doc (buildListBucketV1Result bucketName ps es isTruncated)))))))"

definition versions_max_keys :: "request \<Rightarrow> int act" where
  "versions_max_keys r =
     (let v = query_Get r ''max-keys'' in
      if v = [] then ret 1000
      else case Atoi v of
        None \<Rightarrow> reject r 400 InvalidArgument
      | Some parsed \<Rightarrow> if parsed \<le> 0 then reject r 400 InvalidArgument else ret (min parsed 1000))"

definition ListObjectVersions :: "ObjectHandlers \<Rightarrow> request \<Rightarrow> response act" where
  "ListObjectVersions h r =
     (let bucketName = chiBucketParam r; pre = query_Get r ''prefix'' in
      andThen (ensureBucketAction h r bucketName ActionListBucket [] pre) (\<lambda>u.
      andThen (versions_max_keys r) (\<lambda>maxKeys.
        let keyMarker = query_Get r ''key-marker''; delimiter = query_Get r ''delimiter'' in
        if delimiter \<noteq> [] then fail (WriteS3Error_msg r 501 NotImplemented ''delimiter is not yet supported'')
        else andThen (on_db (object_List (h_dbenv h) bucketName pre keyMarker maxKeys)) (\<lambda>res.
          case res of
            Inl err \<Rightarrow> reject r 500 InternalError
          | Inr (objs, isTruncated) \<Rightarrow>
              ret (respond 200 xml_headers (Doc (VersionsDoc
                \<lparr>lv_Name = bucketName, lv_Prefix = pre, lv_KeyMarker = keyMarker,
                 lv_NextKeyMarker = (if isTruncated \<and> objs \<noteq> [] then o_Key (last objs) else []),
                 lv_MaxKeys = maxKeys, lv_IsTruncated = isTruncated,
                 lv_Version = map (\<lambda>x. \<lparr>lo_Key = o_Key x, lo_LastModified = o_UpdatedAt x,
                   lo_ETag = quoteETag (o_ETag x), lo_Size = o_Size x\<rparr>) objs\<rparr>)))))))"

end
