(* ===== verification/S3Dispatch.thy ===== *)
theory S3Dispatch
  imports S3Buckets
begin

text \<open>
  Reads without credentials (\<open>PublicReadObject\<close> of \<open>object_read.go\<close>, \<open>share_link_read.go\<close>) and the
  routing of a request to its handler (\<open>dispatch.go\<close>, \<open>routes.go\<close>).
\<close>

section \<open>Public and shared reads\<close>

definition status_text :: "int \<Rightarrow> string" where
  "status_text st = (if st = 403 then ''Forbidden'' else if st = 404 then ''Not Found'' else ''Internal Server Error'')"

definition writePublicReadError :: "int \<Rightarrow> response" where
  "writePublicReadError st =
     \<lparr>status = st, rheaders = [(''Cache-Control'', ''no-store''), (''Content-Type'', ''text/plain; charset=utf-8''),
        (''X-Content-Type-Options'', ''nosniff'')], content = Text (status_text st @ [CHR 0x0A])\<rparr>"

definition mapPublicStorageReadError :: "go_error \<Rightarrow> response" where
  "mapPublicStorageReadError err = writePublicReadError 500"

definition query_values :: "request \<Rightarrow> string \<Rightarrow> string list" where
  "query_values r name = (case map_of (r_Query r) name of None \<Rightarrow> [] | Some vs \<Rightarrow> vs)"

definition validatePublicReadSignature :: "codecs \<Rightarrow> ObjectHandlers \<Rightarrow> request \<Rightarrow> string act" where
  "validatePublicReadSignature C h r =
     (let dispositionValues = map_of (r_Query r) ''response-content-disposition'';
          disposition = parseResponseContentDisposition (media_type_ok C) dispositionValues;
          required = (if dispositionValues \<noteq> None then 3 else 2 :: nat) in
      case h_PublicReadSigner h of
        None \<Rightarrow> fail (writePublicReadError 403)
      | Some signer \<Rightarrow>
          (case disposition of
             None \<Rightarrow> fail (writePublicReadError 403)
           | Some d \<Rightarrow>
               if length (remdups (map fst (r_Query r))) \<noteq> required
                  \<or> length (query_values r ''expires'') \<noteq> 1 \<or> length (query_values r ''signature'') \<noteq> 1
               then fail (writePublicReadError 403)
               else andThen (h_now h) (\<lambda>now.
                 if Verify (h_sha256 (h_hashes h)) signer now (r_EscapedPath r) (query_Get r ''expires'') d
                      (query_Get r ''signature'') \<noteq> None
                 then fail (writePublicReadError 403) else ret d)))"

definition maxDuration :: int where "maxDuration = 2 ^ 63 - 1"

definition publicCacheControl :: "request \<Rightarrow> time \<Rightarrow> string" where
  "publicCacheControl r now =
     (case ParseInt (query_Get r ''expires'') of
        None \<Rightarrow> ''public, max-age=0, must-revalidate''
      | Some expiresUnix \<Rightarrow>
          let remaining = min (time_Unix expiresUnix - now) maxDuration in
          if remaining \<le> 0 then ''public, max-age=0, must-revalidate''
          else ''public, max-age='' @ Itoa (remaining div second) @ '', must-revalidate'')"

definition PublicReadObject :: "codecs \<Rightarrow> ObjectHandlers \<Rightarrow> request \<Rightarrow> response act" where
  "PublicReadObject C h r =
     andThen (validatePublicReadSignature C h r) (\<lambda>disposition.
       case objectRouteParams r of (bucketName, key) \<Rightarrow>
         if bucketName = [] \<or> key = [] then fail (writePublicReadError 404)
         else andThen (on_db (GetByKey (h_dbenv h) bucketName key)) (\<lambda>res.
           case res of
             Inl err \<Rightarrow> fail (writePublicReadError (if err = ErrObjectNotFound then 404 else 500))
           | Inr obj \<Rightarrow>
               andThen (h_now h) (\<lambda>now.
                 serveObject h obj (publicCacheControl r now) disposition mapPublicStorageReadError)))"

definition shareLinkCacheControl :: string where
  "shareLinkCacheControl = ''public, max-age=0, must-revalidate''"

definition creator_principal :: "User \<Rightarrow> Principal" where
  "creator_principal u = \<lparr>p_UserID = u_ID u, p_DisplayName = [], p_AccessKeyID = [], p_Role = u_Role u,
     p_DevMode = False, p_SignedHeaders = [], p_SignedPayloadHash = []\<rparr>"

definition creatorCanRead :: "ObjectHandlers \<Rightarrow> ShareLink \<Rightarrow> db \<Rightarrow> bool result \<times> db" where
  "creatorCanRead h link s =
     (case user_GetByID (h_dbenv h) (sl_CreatedBy link) s of
        (Inl err, s1) \<Rightarrow> (if err = ErrUserNotFound then Inr False else Inl err, s1)
      | (Inr creator, s1) \<Rightarrow>
          if \<not> u_IsActive creator then (Inr False, s1)
          else case GetByName (h_dbenv h) (sl_BucketName link) s1 of
            (Inl err, s2) \<Rightarrow> (if err = ErrBucketNotFound then Inr False else Inl err, s2)
          | (Inr bucket, s2) \<Rightarrow>
              Allow (Some (authz_lister (h_dbenv h)))
                (decision (creator_principal creator) ActionGetObject (sl_BucketName link) (sl_ObjectKey link) [] (Some bucket)) s2)"

definition loadActiveShareLink :: "ObjectHandlers \<Rightarrow> string \<Rightarrow> ShareLink act" where
  "loadActiveShareLink h code =
     (if code = [] then fail (writePublicReadError 404)
      else andThen (on_db (GetByCode (h_dbenv h) code)) (\<lambda>res.
        case res of
          Inl err \<Rightarrow> fail (writePublicReadError (if err = ErrShareLinkNotFound then 404 else 500))
        | Inr link \<Rightarrow>
            andThen (h_now h) (\<lambda>now.
              if IsExpired link now then fail (writePublicReadError 404)
              else andThen (on_db (creatorCanRead h link)) (\<lambda>res.
                case res of
                  Inl err \<Rightarrow> fail (writePublicReadError 500)
                | Inr allowed \<Rightarrow> if \<not> allowed then fail (writePublicReadError 404) else ret link))))"

definition ShareLinkReadObject :: "ObjectHandlers \<Rightarrow> request \<Rightarrow> response act" where
  "ShareLinkReadObject h r =
     andThen (loadActiveShareLink h (r_code r)) (\<lambda>link.
     andThen (on_db (GetByKey (h_dbenv h) (sl_BucketName link) (sl_ObjectKey link))) (\<lambda>res.
       case res of
         Inl err \<Rightarrow> fail (writePublicReadError (if err = ErrObjectNotFound then 404 else 500))
       | Inr obj \<Rightarrow>
           serveObject h obj shareLinkCacheControl (sl_ResponseContentDisposition link) mapPublicStorageReadError))"

section \<open>\<open>dispatch.go\<close>\<close>

definition NotImplemented_handler :: "request \<Rightarrow> response act" where
  "NotImplemented_handler r = reject r 501 NotImplemented"

definition has :: "request \<Rightarrow> string \<Rightarrow> bool" where
  "has r name \<longleftrightarrow> values_Has (r_Query r) name"

definition DispatchBucketGet :: "ObjectHandlers \<Rightarrow> request \<Rightarrow> response act" where
  "DispatchBucketGet h r =
     (if has r ''acl'' \<or> has r ''cors'' \<or> has r ''policy'' then NotImplemented_handler r
      else if has r ''versions'' then ListObjectVersions h r
      else if has r ''uploads'' then ListMultipartUploads h r
      else if has r ''location'' then GetBucketLocation h r
      else if query_Get r ''list-type'' = ''2'' then ListObjectsV2 h r
      else if query_Get r ''list-type'' = [] \<or> query_Get r ''list-type'' = ''1'' then ListObjectsV1 h r
      else reject r 400 InvalidRequest)"

definition DispatchBucketPut :: "codecs \<Rightarrow> ObjectHandlers \<Rightarrow> request \<Rightarrow> response act" where
  "DispatchBucketPut C h r =
     (if has r ''acl'' \<or> has r ''cors'' \<or> has r ''policy'' \<or> has r ''uploads'' \<or> has r ''uploadId''
      then NotImplemented_handler r else CreateBucket C h r)"

definition DispatchBucketPost :: "codecs \<Rightarrow> ObjectHandlers \<Rightarrow> request \<Rightarrow> response act" where
  "DispatchBucketPost C h r =
     (if has r ''delete'' then DeleteObjects (decode_delete C) h r
      else if has r ''acl'' \<or> has r ''cors'' \<or> has r ''policy'' \<or> has r ''uploads'' \<or> has r ''uploadId''
        \<or> has r ''lifecycle'' \<or> has r ''versioning'' then NotImplemented_handler r
      else reject r 400 InvalidRequest)"

definition DispatchBucketDelete :: "codecs \<Rightarrow> ObjectHandlers \<Rightarrow> request \<Rightarrow> response act" where
  "DispatchBucketDelete C h r =
     (if has r ''cors'' \<or> has r ''policy'' \<or> has r ''uploads'' \<or> has r ''uploadId'' then NotImplemented_handler r
      else if has r ''delete'' then DeleteObjects (decode_delete C) h r
      else DeleteBucket h r)"

definition DispatchObjectGet :: "codecs \<Rightarrow> ObjectHandlers \<Rightarrow> request \<Rightarrow> response act" where
  "DispatchObjectGet C h r =
     (if has r ''uploadId'' then s3_ListParts h r
      else if has r ''attributes'' then GetObjectAttributes h r
      else if has r ''acl'' \<or> has r ''uploads'' then NotImplemented_handler r
      else GetObject (media_type_ok C) h r)"

definition DispatchPut :: "codecs \<Rightarrow> ObjectHandlers \<Rightarrow> request \<Rightarrow> response act" where
  "DispatchPut C h r =
     (let copying = header_Get r ''x-amz-copy-source'' \<noteq> [] in
      if has r ''uploadId'' \<and> has r ''partNumber'' \<and> query_Get r ''uploadId'' \<noteq> [] \<and> query_Get r ''partNumber'' \<noteq> []
      then (if copying then UploadPartCopy (ParseQuery C) h r else UploadPart h r)
      else if has r ''uploadId'' \<or> has r ''partNumber'' then reject r 400 InvalidRequest
      else if copying then CopyObject (ParseQuery C) h r
      else PutObject h r)"

definition DispatchObjectPut :: "codecs \<Rightarrow> ObjectHandlers \<Rightarrow> request \<Rightarrow> response act" where
  "DispatchObjectPut C h r =
     (if has r ''acl'' \<or> has r ''uploads'' then NotImplemented_handler r
      else if has r ''uploadId'' \<or> has r ''partNumber'' then DispatchPut C h r
      else if header_Get r ''x-amz-copy-source'' \<noteq> [] then CopyObject (ParseQuery C) h r
      else PutObject h r)"

definition DispatchDelete :: "ObjectHandlers \<Rightarrow> request \<Rightarrow> response act" where
  "DispatchDelete h r =
     (if has r ''uploadId'' then
        (if query_Get r ''uploadId'' = [] then reject r 400 InvalidRequest else AbortMultipartUpload h r)
      else DeleteObject h r)"

definition DispatchObjectDelete :: "ObjectHandlers \<Rightarrow> request \<Rightarrow> response act" where
  "DispatchObjectDelete h r =
     (if has r ''uploads'' then NotImplemented_handler r
      else if has r ''uploadId'' then DispatchDelete h r
      else DeleteObject h r)"

definition DispatchPost :: "codecs \<Rightarrow> ObjectHandlers \<Rightarrow> request \<Rightarrow> response act" where
  "DispatchPost C h r =
     (if has r ''uploads'' then CreateMultipartUpload h r
      else if query_Get r ''uploadId'' \<noteq> [] then CompleteMultipartUpload (decode_complete C) h r
      else reject r 400 InvalidRequest)"

section \<open>\<open>routes.go\<close>\<close>

text \<open>The route pattern the router matched, and the handler registered for it and the method.\<close>

datatype pattern = RootPattern | BucketPattern | ObjectPattern | PublicPattern | SharePattern

definition RegisterBucketRoutes :: "codecs \<Rightarrow> ObjectHandlers \<Rightarrow> request \<Rightarrow> pattern \<Rightarrow> response act option" where
  "RegisterBucketRoutes C h r p =
     (if p = RootPattern \<and> r_Method r = ''GET'' then Some (ListBuckets h r)
      else if p \<noteq> BucketPattern then None
      else if r_Method r = ''POST'' then Some (DispatchBucketPost C h r)
      else if r_Method r = ''PUT'' then Some (DispatchBucketPut C h r)
      else if r_Method r = ''GET'' then Some (DispatchBucketGet h r)
      else if r_Method r = ''HEAD'' then Some (HeadBucket h r)
      else if r_Method r = ''DELETE'' then Some (DispatchBucketDelete C h r)
      else None)"

definition RegisterObjectRoutes :: "codecs \<Rightarrow> ObjectHandlers \<Rightarrow> request \<Rightarrow> pattern \<Rightarrow> response act option" where
  "RegisterObjectRoutes C h r p =
     (if p \<noteq> ObjectPattern then None
      else if r_Method r = ''GET'' then Some (DispatchObjectGet C h r)
      else if r_Method r = ''HEAD'' then Some (HeadObject (media_type_ok C) h r)
      else if r_Method r = ''PUT'' then Some (DispatchObjectPut C h r)
      else if r_Method r = ''POST'' then Some (DispatchPost C h r)
      else if r_Method r = ''DELETE'' then Some (DispatchObjectDelete h r)
      else None)"

definition RegisterPublicRoutes :: "codecs \<Rightarrow> ObjectHandlers \<Rightarrow> request \<Rightarrow> pattern \<Rightarrow> response act option" where
  "RegisterPublicRoutes C h r p =
     (if r_Method r \<noteq> ''GET'' \<and> r_Method r \<noteq> ''HEAD'' then None
      else if p = PublicPattern then Some (PublicReadObject C h r)
      else if p = SharePattern then Some (ShareLinkReadObject h r)
      else None)"

end
