(* ===== verification/S3Laws.thy ===== *)
theory S3Laws
  imports S3Dispatch
begin

text \<open>
  Laws of the pure parts of the S3 handlers: which parts a completion selects, the text of the byte range
  of a part copy, continuation tokens and bucket names.
\<close>

section \<open>Completion requests\<close>

lemma position_absent: "position xs x = None \<Longrightarrow> x \<notin> set xs"
  by (induction xs) (auto split: if_splits)

lemma position_Some: "position xs x = Some i \<Longrightarrow> i < length xs \<and> xs ! i = x"
  by (induction xs arbitrary: i) (auto split: if_splits)

abbreviation nums :: "CompletePart list \<Rightarrow> int list" where "nums \<equiv> map cp_PartNumber"

text \<open>The last entry of a request for a part number.\<close>

definition last_entry :: "CompletePart list \<Rightarrow> int \<Rightarrow> CompletePart option" where
  "last_entry ps n = find (\<lambda>p. cp_PartNumber p = n) (rev ps)"

lemma last_entry_snoc: "last_entry (ps @ [p]) n = (if cp_PartNumber p = n then Some p else last_entry ps n)"
  by (simp add: last_entry_def)

lemma norm_step_nums: "distinct (nums us) \<Longrightarrow> distinct (nums (norm_step us p)) \<and> set (nums (norm_step us p)) = insert (cp_PartNumber p) (set (nums us))"
proof (cases "position (nums us) (cp_PartNumber p)")
  case None
  moreover from None have "cp_PartNumber p \<notin> set (nums us)" by (rule position_absent)
  ultimately show "distinct (nums us) \<Longrightarrow> ?thesis" by (auto simp: norm_step_def)
next
  case (Some i)
  from position_Some [OF this] have i: "i < length us" "cp_PartNumber (us ! i) = cp_PartNumber p" by auto
  then have same: "nums (us[i := p]) = nums us" by (simp add: map_update list_update_same_conv)
  have "cp_PartNumber p \<in> set (nums us)" using i by (metis length_map nth_map nth_mem)
  then show "distinct (nums us) \<Longrightarrow> ?thesis" using Some same by (simp add: norm_step_def insert_absorb del: set_map)
qed

lemma norm_step_entry:
  assumes "distinct (nums us)" and "q \<in> set (norm_step us p)"
  shows "q = p \<or> q \<in> set us \<and> cp_PartNumber q \<noteq> cp_PartNumber p"
proof (cases "position (nums us) (cp_PartNumber p)")
  case None
  moreover from None have "cp_PartNumber p \<notin> set (nums us)" by (rule position_absent)
  ultimately show ?thesis using assms(2) by (auto simp: norm_step_def image_iff)
next
  case (Some i)
  from position_Some [OF this] have i: "i < length us" "cp_PartNumber (us ! i) = cp_PartNumber p" by auto
  from assms(2) Some obtain l where l: "l < length us" "q = us[i := p] ! l" by (auto simp: norm_step_def in_set_conv_nth)
  have "q = p \<or> (\<exists>j. j < length us \<and> j \<noteq> i \<and> q = us ! j)"
    using l i by (cases "l = i") auto
  moreover have "cp_PartNumber (us ! j) \<noteq> cp_PartNumber p" if "j < length us" "j \<noteq> i" for j
  proof
    assume "cp_PartNumber (us ! j) = cp_PartNumber p"
    then have "nums us ! j = nums us ! i" using i that by simp
    with nth_eq_iff_index_eq [OF assms(1), of j i] that i show False by simp
  qed
  ultimately show ?thesis by auto
qed

lemma norm_fold:
  "distinct (nums (foldl norm_step [] ps)) \<and> set (nums (foldl norm_step [] ps)) = set (nums ps)
     \<and> (\<forall>q\<in>set (foldl norm_step [] ps). last_entry ps (cp_PartNumber q) = Some q)"
proof (induction ps rule: rev_induct)
  case (snoc p ps)
  let ?us = "foldl norm_step [] ps"
  have d: "distinct (nums ?us)" "set (nums ?us) = set (nums ps)" using snoc by blast+
  have "last_entry (ps @ [p]) (cp_PartNumber q) = Some q" if "q \<in> set (norm_step ?us p)" for q
    using norm_step_entry [OF d(1) that] snoc by (auto simp: last_entry_snoc)
  with norm_step_nums [OF d(1), of p] d(2) show ?case by (auto simp del: set_map)
qed simp

lemma normalize_spec:
  assumes "normalizeCompletedParts ps = Inr req"
  shows "req \<noteq> []" and "sorted_wrt (<) (nums req)" and "set (nums req) = set (nums ps)"
    and "\<forall>q\<in>set req. last_entry ps (cp_PartNumber q) = Some q"
proof -
  have r: "req = foldl norm_step [] ps" "sorted (nums req)" "ps \<noteq> []"
    using assms by (auto simp: normalizeCompletedParts_def Let_def split: if_splits)
  note f = norm_fold [of ps, folded r(1)]
  show "sorted_wrt (<) (nums req)" using f r(2) by (simp add: strict_sorted_iff)
  show s: "set (nums req) = set (nums ps)" and "\<forall>q\<in>set req. last_entry ps (cp_PartNumber q) = Some q" using f by blast+
  show "req \<noteq> []" using s r(3) by auto
qed

lemma match_loop_spec:
  assumes "match_loop want qs m acc = Inr ps"
  shows "\<exists>rs. ps = acc @ rs \<and> list_all2 (\<lambda>w q. q \<in> set qs \<and> mp_PartNumber q = cp_PartNumber w \<and> etagMatches (cp_ETag w) (mp_ETag q)) want rs
    \<and> (\<forall>q\<in>set (butlast rs). m \<le> mp_Size q)"
  using assms
proof (induction want qs m acc rule: match_loop.induct)
  case (2 want rest qs m acc)
  from "2.prems" obtain p where p: "find (\<lambda>p. mp_PartNumber p = cp_PartNumber want) (rev qs) = Some p"
    and run: "match_loop rest qs m (acc @ [p]) = Inr ps"
    and no: "etagMatches (cp_ETag want) (mp_ETag p)" "\<not> (rest \<noteq> [] \<and> mp_Size p < m)"
    by (auto split: option.splits if_splits)
  have mem: "p \<in> set qs" "mp_PartNumber p = cp_PartNumber want" using find_SomeD [OF p] by simp_all
  from "2.IH" [OF p _ _ run] no obtain rs where rs: "ps = (acc @ [p]) @ rs"
      "list_all2 (\<lambda>w q. q \<in> set qs \<and> mp_PartNumber q = cp_PartNumber w \<and> etagMatches (cp_ETag w) (mp_ETag q)) rest rs"
      "\<forall>q\<in>set (butlast rs). m \<le> mp_Size q" by auto
  have "rs = [] \<longleftrightarrow> rest = []" using rs(2) by auto
  with rs mem no show ?case by (intro exI [of _ "p # rs"]) auto
qed simp

lemma matchStoredParts_spec:
  assumes "matchStoredParts req qs m = Inr ps"
  shows "list_all2 (\<lambda>w q. q \<in> set qs \<and> mp_PartNumber q = cp_PartNumber w \<and> etagMatches (cp_ETag w) (mp_ETag q)) req ps"
    and "\<forall>q\<in>set (butlast ps). m \<le> mp_Size q"
  using match_loop_spec [OF assms [unfolded matchStoredParts_def]] by auto

lemma matchStoredParts_subset: "matchStoredParts req qs m = Inr ps \<Longrightarrow> set ps \<subseteq> set qs"
  by (drule matchStoredParts_spec(1)) (auto simp: list_all2_conv_all_nth in_set_conv_nth)

section \<open>Copied ranges\<close>

text \<open>
  The text of a range: two decimal numbers with a dash between them after \<open>bytes=\<close>, with white space
  allowed around each.
\<close>

definition range_text :: "string \<Rightarrow> int \<Rightarrow> int \<Rightarrow> bool" where
  "range_text hdr first last' \<longleftrightarrow>
     (\<exists>t u v. hdr = ''bytes='' @ t \<and> TrimSpace t = u @ ''-'' @ v \<and> CHR ''-'' \<notin> set u
        \<and> ParseInt (TrimSpace u) = Some first \<and> ParseInt (TrimSpace v) = Some last')"

lemma range_text_iff:
  "range_text hdr first last' \<longleftrightarrow> HasPrefix hdr ''bytes='' \<and>
     (case cut_at CHR ''-'' (TrimSpace (drop (length ''bytes='') hdr)) of
        (u, v, found) \<Rightarrow> found \<and> ParseInt (TrimSpace u) = Some first \<and> ParseInt (TrimSpace v) = Some last')"
proof (cases "HasPrefix hdr ''bytes=''")
  case True
  then obtain t where t: "hdr = ''bytes='' @ t" by (auto simp: HasPrefix_def prefix_def)
  obtain u v found where c: "cut_at CHR ''-'' (TrimSpace t) = (u, v, found)" by (metis surj_pair)
  have cut: "TrimSpace t = u' @ ''-'' @ v' \<and> CHR ''-'' \<notin> set u' \<longleftrightarrow> found \<and> u' = u \<and> v' = v" for u' v'
    using cut_at_append [of "CHR ''-''" u' v'] cut_at_found [of "CHR ''-''" "TrimSpace t" u v] c by auto
  have "range_text hdr first last' \<longleftrightarrow> (\<exists>u' v'. (TrimSpace t = u' @ ''-'' @ v' \<and> CHR ''-'' \<notin> set u')
      \<and> ParseInt (TrimSpace u') = Some first \<and> ParseInt (TrimSpace v') = Some last')"
    unfolding range_text_def t by auto
  then show ?thesis using True t c unfolding cut by auto
qed (auto simp: range_text_def HasPrefix_def prefix_def)

lemma range_text_unique: "range_text hdr a b \<Longrightarrow> range_text hdr a' b' \<Longrightarrow> a' = a \<and> b' = b"
  by (auto simp: range_text_iff split: prod.splits)

lemma range_text_Itoa:
  assumes "0 \<le> a" and "a < 2 ^ 63" and "0 \<le> b" and "b < 2 ^ 63"
  shows "range_text (''bytes='' @ Itoa a @ ''-'' @ Itoa b) a b"
proof -
  have ds: "list_all is_digit (Itoa a)" "list_all is_digit (Itoa b)"
    using assms nat_digits_props [of "nat a"] nat_digits_props [of "nat b"] by (simp_all add: Itoa_def)
  have g: "graphic c \<and> c \<noteq> CHR ''-''" if "c \<in> set (Itoa a)" for c
    using ds that is_digit_graphic by (auto simp: list_all_iff)
  have "graphic (last (Itoa b))" using ds Itoa_ne [of b] is_digit_graphic by (simp add: list_all_iff)
  then have "TrimSpace (Itoa a @ ''-'' @ Itoa b) = Itoa a @ ''-'' @ Itoa b"
    using Itoa_ne [of a] Itoa_ne [of b] g [of "hd (Itoa a)"] by (intro TrimSpace_id) simp
  moreover have "CHR ''-'' \<notin> set (Itoa a)" using g by blast
  ultimately show ?thesis
    using assms unfolding range_text_def
    by (intro exI [of _ "Itoa a @ ''-'' @ Itoa b"] exI [of _ "Itoa a"] exI [of _ "Itoa b"]) (simp add: TrimSpace_Itoa ParseInt_Itoa)
qed

lemma parseByteRange_spec:
  "case parseByteRange hdr n of
     Inr (a, b) \<Rightarrow> range_text hdr a b \<and> 0 \<le> a \<and> a \<le> b \<and> b < n
   | Inl err \<Rightarrow> if err = ErrRangeExceedsSize then \<exists>a b. range_text hdr a b \<and> 0 \<le> a \<and> a \<le> b \<and> a < n \<and> n \<le> b
       else \<nexists>a b. range_text hdr a b \<and> 0 \<le> a \<and> a \<le> b \<and> a < n"
  by (auto simp: parseByteRange_def range_text_iff split: prod.splits option.splits)

section \<open>Continuation tokens\<close>

text \<open>
  C25: pagination survives the client.  The token a listing hands out for any key the store
  accepts (at most 1024 bytes) is accepted again and means that key, and no accepted token means a longer one.
\<close>

theorem token_roundtrip:
  "(length key \<le> 1024 \<longrightarrow> decodeContinuationToken (encodeContinuationToken key) = Inr key)
   \<and> (\<forall>token k. decodeContinuationToken token = Inr k \<longrightarrow> length k \<le> 1024)"
proof (intro conjI allI impI)
  assume "length key \<le> 1024"
  then have "length (RawURLEncoding_Encode key) \<le> maxContinuationTokenLen"
    unfolding RawURL_length maxContinuationTokenLen_def by linarith
  with \<open>length key \<le> 1024\<close> show "decodeContinuationToken (encodeContinuationToken key) = Inr key"
    by (simp add: decodeContinuationToken_def encodeContinuationToken_def b64_roundtrip(2) maxContinuationKeyLen_def)
next
  fix token k
  assume "decodeContinuationToken token = Inr k"
  then show "length k \<le> 1024"
    by (auto simp: decodeContinuationToken_def maxContinuationKeyLen_def split: if_splits option.splits)
qed

theorem token_roundtrip_witness:
  "decodeContinuationToken (encodeContinuationToken ''a/b c'') = Inr ''a/b c''"
  using token_roundtrip [of "''a/b c''"] by simp

section \<open>Bucket names\<close>

lemma label_char: "isBucketLabelChar c \<Longrightarrow> c \<noteq> CHR ''.'' \<and> c \<noteq> CHR ''/'' \<and> c \<noteq> CHR ''-''"
  by (auto simp: isBucketLabelChar_def)

lemma validateBucketName_good:
  assumes "validateBucketName n = None"
  shows "good_elem n" and "n \<noteq> ''public''" and "n \<noteq> ''.tmp''" and "3 \<le> length n \<and> length n \<le> 63" and "TrimSpace n = n"
proof -
  from assms have len: "3 \<le> length n \<and> length n \<le> 63" and pub: "n \<noteq> ''public''"
    and cs: "list_all (\<lambda>c. isBucketLabelChar c \<or> c = CHR ''-'' \<or> c = CHR ''.'') n"
    and ends: "isBucketLabelChar (hd n)" "isBucketLabelChar (last n)"
    by (auto simp: validateBucketName_def split: if_splits)
  show "n \<noteq> ''public''" "3 \<le> length n \<and> length n \<le> 63" by (rule pub, rule len)
  have "CHR ''/'' \<notin> set n" using cs label_char [of "CHR ''/''"] by (auto simp: list_all_iff)
  moreover have "hd n \<noteq> CHR ''.''" using label_char [OF ends(1)] by blast
  ultimately show "good_elem n" "n \<noteq> ''.tmp''" using len by (auto simp: good_elem_def)
  have "graphic c" if "isBucketLabelChar c" for c using that by (auto simp: isBucketLabelChar_def graphic_def Let_def)
  then show "TrimSpace n = n" using ends by (intro TrimSpace_id) blast
qed

text \<open>
  The documented rules (\<open>docs/s3-api.md\<close>, \<open>Bucket Name Rules\<close>) in the form of host names: labels between
  dots, each of lower case letters, digits and inner dashes, and no dotted quad of numbers below 256.
\<close>

definition dns_label :: "string \<Rightarrow> bool" where
  "dns_label l \<longleftrightarrow> l \<noteq> [] \<and> set l \<subseteq> set ''-0123456789abcdefghijklmnopqrstuvwxyz'' \<and> hd l \<noteq> CHR ''-'' \<and> last l \<noteq> CHR ''-''"

definition dotted_quad :: "string \<Rightarrow> bool" where
  "dotted_quad n \<longleftrightarrow> (\<exists>a b c d. {a, b, c, d} \<subseteq> {0..255 :: int}
     \<and> n = Itoa a @ ''.'' @ Itoa b @ ''.'' @ Itoa c @ ''.'' @ Itoa d)"

lemma sublist_pair_append:
  "sublist [x, y] (a @ b) \<longleftrightarrow> sublist [x, y] a \<or> sublist [x, y] b \<or> a \<noteq> [] \<and> b \<noteq> [] \<and> last a = x \<and> hd b = y"
proof -
  have "(\<exists>u v. [x, y] = u @ v \<and> suffix u a \<and> prefix v b) \<longleftrightarrow>
      prefix [x, y] b \<or> suffix [x, y] a \<or> suffix [x] a \<and> prefix [y] b"
  proof
    assume "prefix [x, y] b \<or> suffix [x, y] a \<or> suffix [x] a \<and> prefix [y] b"
    then show "\<exists>u v. [x, y] = u @ v \<and> suffix u a \<and> prefix v b"
      by (elim disjE conjE) (rule exI [of _ "[]"] exI [of _ "[x, y]"] exI [of _ "[x]"], simp)+
  qed (auto simp: Cons_eq_append_conv)
  moreover have "suffix [x] a \<longleftrightarrow> a \<noteq> [] \<and> last a = x" by (cases a rule: rev_cases) (auto simp: suffix_def)
  moreover have "prefix [y] b \<longleftrightarrow> b \<noteq> [] \<and> hd b = y" by (cases b) auto
  ultimately show ?thesis unfolding sublist_append by auto
qed

lemma sublist_pair_set: "sublist [x, y] s \<Longrightarrow> x \<in> set s \<and> y \<in> set s"
  by (drule set_mono_sublist) auto

abbreviation clear :: "char \<Rightarrow> bool" where "clear c \<equiv> c \<noteq> CHR ''.'' \<and> c \<noteq> CHR ''-''"

lemma labels_iff:
  "(\<forall>l\<in>set (split_on CHR ''.'' s). l \<noteq> [] \<and> hd l \<noteq> CHR ''-'' \<and> last l \<noteq> CHR ''-'') \<longleftrightarrow>
     s \<noteq> [] \<and> clear (hd s) \<and> clear (last s) \<and> \<not> sublist ''..'' s \<and> \<not> sublist ''.-'' s \<and> \<not> sublist ''-.'' s"
proof (induction "length s" arbitrary: s rule: less_induct)
  case less
  show ?case
  proof (cases "CHR ''.'' \<in> set s")
    case False
    then have "hd s \<noteq> CHR ''.''" "last s \<noteq> CHR ''.''" if "s \<noteq> []" using that hd_in_set last_in_set by metis+
    moreover have "\<not> sublist ''..'' s" "\<not> sublist ''.-'' s" "\<not> sublist ''-.'' s"
      using False by (auto dest: sublist_pair_set)
    ultimately show ?thesis using split_on_no_sep [OF False] by auto
  next
    case True
    then obtain a b where s: "s = a @ CHR ''.'' # b" and a: "CHR ''.'' \<notin> set a" using split_list_first by fast
    have none: "\<not> sublist [x, y] a" if "x = CHR ''.'' \<or> y = CHR ''.''" for x y using a that by (auto dest: sublist_pair_set)
    have one: "\<not> sublist [x, y] ''.''" for x y by (auto dest: sublist_length_le)
    have sub: "sublist [x, y] s \<longleftrightarrow> sublist [x, y] b \<or> x = CHR ''.'' \<and> b \<noteq> [] \<and> hd b = y
        \<or> a \<noteq> [] \<and> last a = x \<and> y = CHR ''.''" if "x = CHR ''.'' \<or> y = CHR ''.''" for x y
    proof -
      have "sublist [x, y] s \<longleftrightarrow> sublist [x, y] (''.'' @ b) \<or> a \<noteq> [] \<and> last a = x \<and> CHR ''.'' = y"
        unfolding s using none [OF that] sublist_pair_append [of x y a "''.'' @ b"] by simp
      also have "sublist [x, y] (''.'' @ b) \<longleftrightarrow> sublist [x, y] b \<or> b \<noteq> [] \<and> CHR ''.'' = x \<and> hd b = y"
        unfolding sublist_pair_append using one by simp
      finally show ?thesis by blast
    qed
    have "hd a \<noteq> CHR ''.''" "last a \<noteq> CHR ''.''" if "a \<noteq> []" using a that hd_in_set last_in_set by metis+
    note ends = this
    have lhs: "(\<forall>l\<in>set (split_on CHR ''.'' s). P l) \<longleftrightarrow> P a \<and> (\<forall>l\<in>set (split_on CHR ''.'' b). P l)" for P
      unfolding s split_on_append_sep split_on_no_sep [OF a] by simp
    have IH: "(\<forall>l\<in>set (split_on CHR ''.'' b). l \<noteq> [] \<and> hd l \<noteq> CHR ''-'' \<and> last l \<noteq> CHR ''-'') \<longleftrightarrow>
        b \<noteq> [] \<and> clear (hd b) \<and> clear (last b) \<and> \<not> sublist ''..'' b \<and> \<not> sublist ''.-'' b \<and> \<not> sublist ''-.'' b"
      by (rule less) (simp add: s)
    have hl: "hd s = (if a = [] then CHR ''.'' else hd a)" "last s = (if b = [] then CHR ''.'' else last b)" "s \<noteq> []"
      by (simp_all add: s)
    show ?thesis
      unfolding lhs IH hl sub [of "CHR ''.''" "CHR ''.''", simplified] sub [of "CHR ''.''" "CHR ''-''", simplified]
        sub [of "CHR ''-''" "CHR ''.''", simplified]
      using ends hl(3) by (cases "a = []"; cases "b = []") auto
  qed
qed

lemma label_chars: "isBucketLabelChar c \<or> c = CHR ''-'' \<longleftrightarrow> c \<in> set ''-0123456789abcdefghijklmnopqrstuvwxyz''"
proof
  assume "isBucketLabelChar c \<or> c = CHR ''-''"
  moreover have "\<forall>n\<in>set ([48..<58] @ [97..<123]). char_of n \<in> set ''-0123456789abcdefghijklmnopqrstuvwxyz''" by code_simp
  moreover have "(of_char c :: nat) \<in> set ([48..<58] @ [97..<123])" if "isBucketLabelChar c"
    using that unfolding isBucketLabelChar_def Let_def set_append set_upt by auto
  ultimately show "c \<in> set ''-0123456789abcdefghijklmnopqrstuvwxyz''"
    by (metis char_of_char list.set_intros(1))
qed (auto simp: isBucketLabelChar_def)

lemma Itoa_digits:
  assumes "s \<noteq> []" and "list_all is_digit s" and "length s > 1 \<longrightarrow> hd s \<noteq> CHR ''0''"
  shows "Itoa (digits_val s) = s \<and> 0 \<le> digits_val s \<and> (hd s \<noteq> CHR ''0'' \<longrightarrow> 0 < digits_val s)"
  using assms
proof (induction s rule: rev_induct)
  case (snoc c s)
  define v where "v = digit_val c"
  have "is_digit c" using snoc.prems by simp
  then have "(of_char c :: nat) = 48 + nat v" "0 \<le> v" "v < 10" by (auto simp: v_def is_digit_def digit_val_def Let_def)
  moreover from this(1) have "c = char_of (48 + nat v)" by (metis char_of_char)
  moreover have "0 < v" if "c \<noteq> CHR ''0''"
  proof (rule ccontr)
    assume "\<not> 0 < v"
    then have "c = char_of (48 :: nat)" using \<open>c = char_of (48 + nat v)\<close> \<open>0 \<le> v\<close> by simp
    also have "\<dots> = CHR ''0''" by code_simp
    finally show False using that by blast
  qed
  ultimately have c: "0 \<le> v" "v < 10" "c = char_of (48 + nat v)" "c \<noteq> CHR ''0'' \<longrightarrow> 0 < v" by blast+
  show ?case
  proof (cases "s = []")
    case True
    have "digits_val (s @ [c]) = v" by (simp add: True digits_val_def v_def)
    then show ?thesis using c True by (simp add: Itoa_def nat_digits.simps [of "nat v"])
  next
    case False
    then have "Itoa (digits_val s) = s" "0 < digits_val s" using snoc by auto
    moreover have "digits_val (s @ [c]) = 10 * digits_val s + v" by (simp add: digits_val_snoc v_def)
    ultimately show ?thesis using c False
      by (simp add: Itoa_def nat_add_distrib nat_mult_distrib nat_digits.simps [of "10 * nat (digits_val s) + nat v"])
  qed
qed simp

lemma nat_digits_hd: "0 < n \<Longrightarrow> hd (nat_digits n) \<noteq> CHR ''0''"
proof (induction n rule: nat_digits.induct)
  case (1 n)
  show ?case
  proof (cases "n < 10")
    case True
    have "(of_char (char_of (48 + n) :: char) :: nat) = 48 + n" using True by simp
    moreover have "(of_char CHR ''0'' :: nat) = 48" by simp
    ultimately have "char_of (48 + n) \<noteq> CHR ''0''" using \<open>0 < n\<close> by fastforce
    with True show ?thesis by (simp add: nat_digits.simps [of n])
  next
    case False
    then have "hd (nat_digits (n div 10)) \<noteq> CHR ''0''" "nat_digits (n div 10) \<noteq> []"
      using 1 nat_digits_props [of "n div 10"] by (simp_all add: div_greater_zero_iff)
    with False show ?thesis by (simp add: nat_digits.simps [of n])
  qed
qed

lemma nat_digits_one: "n < 10 \<Longrightarrow> length (nat_digits n) = 1"
  by (simp add: nat_digits.simps [of n])

lemma nat_digits_three: "n < 1000 \<Longrightarrow> length (nat_digits n) \<le> 3"
  using nat_digits_one [of "n div 10 div 10"] nat_digits_one [of "n div 10"] nat_digits_one [of n]
  by (auto simp: nat_digits.simps [of n] nat_digits.simps [of "n div 10"])

lemma ipv4_field_iff: "ipv4_field f \<longleftrightarrow> (\<exists>a\<in>{0..255}. f = Itoa a)"
proof
  assume "ipv4_field f"
  then have "f = Itoa (digits_val f)" "digits_val f \<in> {0..255}" using Itoa_digits [of f] by (auto simp: ipv4_field_def)
  then show "\<exists>a\<in>{0..255}. f = Itoa a" by blast
next
  assume "\<exists>a\<in>{0..255}. f = Itoa a"
  then obtain a where a: "0 \<le> a" "a \<le> 255" and f: "f = nat_digits (nat a)" by (auto simp: Itoa_def)
  have "hd f \<noteq> CHR ''0''" if "1 < length f"
    using that nat_digits_one [of "nat a"] nat_digits_hd [of "nat a"] by (cases "nat a < 10") (auto simp: f)
  moreover have "length f \<le> 3" using a nat_digits_three [of "nat a"] by (simp add: f)
  ultimately show "ipv4_field f" using nat_digits_props [of "nat a"] a by (simp add: ipv4_field_def f)
qed

lemma ParseIP_iff: "ParseIP n \<longleftrightarrow> dotted_quad n"
proof
  assume "ParseIP n"
  then have "length (split_on CHR ''.'' n) = 4" and fs: "list_all ipv4_field (split_on CHR ''.'' n)" by (simp_all add: ParseIP_def Let_def)
  then obtain p q r t where pqrt: "split_on CHR ''.'' n = [p, q, r, t]" by (auto simp: numeral_eq_Suc length_Suc_conv)
  then have "n = p @ ''.'' @ q @ ''.'' @ r @ ''.'' @ t" using join_split [of "CHR ''.''" n] by simp
  moreover from fs obtain a b c d where "p = Itoa a" "q = Itoa b" "r = Itoa c" "t = Itoa d" "{a, b, c, d} \<subseteq> {0..255}"
    unfolding pqrt by (auto simp: ipv4_field_iff)
  ultimately show "dotted_quad n" unfolding dotted_quad_def by blast
next
  assume "dotted_quad n"
  then obtain a b c d where r: "{a, b, c, d} \<subseteq> {0..255}" and n: "n = Itoa a @ ''.'' @ Itoa b @ ''.'' @ Itoa c @ ''.'' @ Itoa d"
    by (auto simp: dotted_quad_def)
  have "CHR ''.'' \<notin> set (Itoa x)" for x using Itoa_chars [of "CHR ''.''" x] by (auto simp: is_digit_def Let_def)
  then have "split_on CHR ''.'' n = [Itoa a, Itoa b, Itoa c, Itoa d]"
    by (simp add: n split_on_append_sep split_on_no_sep)
  with r show "ParseIP n" unfolding ParseIP_def Let_def by (auto simp: ipv4_field_iff)
qed

lemma ToLower_plain: "list_all (\<lambda>c. isBucketLabelChar c \<or> c = CHR ''-'' \<or> c = CHR ''.'') n \<Longrightarrow> ToLower n = n"
proof -
  have "lower_char c = c" if "isBucketLabelChar c \<or> c = CHR ''-'' \<or> c = CHR ''.''" for c
    using that by (auto simp: lower_char_def isBucketLabelChar_def Let_def)
  then show "list_all (\<lambda>c. isBucketLabelChar c \<or> c = CHR ''-'' \<or> c = CHR ''.'') n \<Longrightarrow> ToLower n = n"
    unfolding ToLower_def list_all_iff by (simp add: map_idI)
qed

lemma split_on_set: "(\<Union>l\<in>set (split_on c s). set l) = set s - {c}"
proof (induction s)
  case (Cons x s)
  obtain y ys where "split_on c s = y # ys" by (meson neq_Nil_conv split_on_ne)
  with Cons show ?case by auto
qed simp

lemma dns_labels:
  "(\<forall>l\<in>set (split_on CHR ''.'' n). dns_label l) \<longleftrightarrow>
     list_all (\<lambda>c. isBucketLabelChar c \<or> c = CHR ''-'' \<or> c = CHR ''.'') n \<and> n \<noteq> []
     \<and> isBucketLabelChar (hd n) \<and> isBucketLabelChar (last n) \<and> \<not> sublist ''..'' n \<and> \<not> sublist ''.-'' n \<and> \<not> sublist ''-.'' n"
proof -
  let ?ok = "\<lambda>c. isBucketLabelChar c \<or> c = CHR ''-''"
  have cs: "(\<forall>l\<in>set (split_on CHR ''.'' n). \<forall>c\<in>set l. ?ok c) \<longleftrightarrow> (\<forall>c\<in>set n. ?ok c \<or> c = CHR ''.'')"
    (is "?l \<longleftrightarrow> ?r")
  proof -
    have "?l \<longleftrightarrow> (\<forall>c\<in>(\<Union>l\<in>set (split_on CHR ''.'' n). set l). ?ok c)" by simp
    also have "\<dots> \<longleftrightarrow> ?r" unfolding split_on_set by auto
    finally show ?thesis .
  qed
  have "(\<forall>l\<in>set (split_on CHR ''.'' n). dns_label l) \<longleftrightarrow> (\<forall>c\<in>set n. ?ok c \<or> c = CHR ''.'')
      \<and> (\<forall>l\<in>set (split_on CHR ''.'' n). l \<noteq> [] \<and> hd l \<noteq> CHR ''-'' \<and> last l \<noteq> CHR ''-'')"
    unfolding cs [symmetric] dns_label_def subset_iff label_chars [symmetric] by blast
  also have "\<dots> \<longleftrightarrow> (\<forall>c\<in>set n. ?ok c \<or> c = CHR ''.'') \<and> n \<noteq> []
      \<and> isBucketLabelChar (hd n) \<and> isBucketLabelChar (last n) \<and> \<not> sublist ''..'' n \<and> \<not> sublist ''.-'' n \<and> \<not> sublist ''-.'' n"
    (is "?all \<and> _ \<longleftrightarrow> _")
  proof (cases "?all \<and> n \<noteq> []")
    case True
    have "isBucketLabelChar c \<longleftrightarrow> clear c" if "c \<in> set n" for c using True that label_char [of c] by blast
    then have "isBucketLabelChar (hd n) \<longleftrightarrow> clear (hd n)" "isBucketLabelChar (last n) \<longleftrightarrow> clear (last n)" using True by simp_all
    then show ?thesis unfolding labels_iff by blast
  qed (unfold labels_iff, blast)
  finally show ?thesis by (simp add: list_all_iff)
qed

text \<open>
  C26: \<open>CreateBucket\<close> accepts exactly the documented names: 3 to 63 bytes, labels of lower case
  letters, digits and inner dashes between dots, no dotted quad and not \<open>public\<close>.  An accepted name
  is a single path element that can be used as a directory: it has no separator, is neither \<open>.\<close> nor \<open>..\<close>, cannot collide
  with the directory of the temporary files, and needs no trimming.  The word \<open>public\<close> is the only one
  reserved: the first segments of the routes \<open>/api\<close>, \<open>/healthz\<close> and \<open>/readyz\<close> are names of buckets too.
\<close>

theorem bucket_names_safe:
  "(validateBucketName n = None \<longleftrightarrow> 3 \<le> length n \<and> length n \<le> 63 \<and> (\<forall>l\<in>set (split_on CHR ''.'' n). dns_label l)
      \<and> \<not> dotted_quad n \<and> n \<noteq> ''public'')
   \<and> (validateBucketName n = None \<longrightarrow> good_elem n \<and> n \<noteq> ''.tmp'' \<and> TrimSpace n = n)
   \<and> validateBucketName ''api'' = None \<and> validateBucketName ''healthz'' = None \<and> validateBucketName ''readyz'' = None"
proof (intro conjI impI)
  show "validateBucketName n = None \<longleftrightarrow> 3 \<le> length n \<and> length n \<le> 63 \<and> (\<forall>l\<in>set (split_on CHR ''.'' n). dns_label l)
      \<and> \<not> dotted_quad n \<and> n \<noteq> ''public''"
    unfolding dns_labels ParseIP_iff [symmetric] using ToLower_plain [of n] by (auto simp: validateBucketName_def)
  show "validateBucketName ''api'' = None" "validateBucketName ''healthz'' = None" "validateBucketName ''readyz'' = None" by code_simp+
qed (simp_all add: validateBucketName_good)

theorem bucket_names_safe_witness:
  "validateBucketName ''my-bucket.1'' = None \<and> TrimSpace ''my-bucket.1'' = ''my-bucket.1'' \<and> good_elem ''my-bucket.1''
   \<and> dns_label ''my-bucket'' \<and> dns_label ''1''"
proof -
  have "validateBucketName ''my-bucket.1'' = None" "split_on CHR ''.'' ''my-bucket.1'' = [''my-bucket'', ''1'']" by code_simp+
  with bucket_names_safe [of "''my-bucket.1''"] show ?thesis by (metis list.set_intros(1) list.set_intros(2))
qed

end
