(* ===== verification/Listing.thy ===== *)
theory Listing
  imports S3Laws CatalogProofs
begin


text \<open>
  Paged listings with and without a delimiter.  The interface \<open>cursor_paged\<close> is weaker than \<open>paged\<close>: a
  page starts after a cursor, and the cursor of an entry, which need not be its key, leads exactly to the
  entries after it.  The listing of \<open>bucket_handlers.go\<close> provides it in both modes, so a client that follows
  the continuation tokens terminates with every key or common prefix exactly once.
\<close>

section \<open>The interface\<close>

locale cursor_paged =
  fixes page :: "string \<Rightarrow> 's \<Rightarrow> ('r list \<times> bool) result \<times> 's"
    and full :: "string \<Rightarrow> 's \<Rightarrow> 'r list"
    and cursor :: "'r \<Rightarrow> string"
    and ok :: "'s \<Rightarrow> bool"
  assumes page_full: "page a s = (Inr (xs, tr), s') \<Longrightarrow> ok s \<Longrightarrow>
      \<exists>n. xs = take n (full a s) \<and> (if tr then 0 < n \<and> n < length (full a s) else length (full a s) \<le> n)"
    and page_rest: "ok s \<Longrightarrow> 0 < n \<Longrightarrow> n \<le> length (full a s) \<Longrightarrow> full (cursor (last (take n (full a s)))) s = drop n (full a s)"
    and page_same: "page a s = (r, s') \<Longrightarrow> full b s' = full b s \<and> ok s' = ok s"
begin


lemma pages_complete:
  assumes "ok s"
  shows "\<exists>r s'. read_all page cursor acc a s = Some (r, s') \<and> (\<forall>xs. r = Inr xs \<longrightarrow> xs = acc @ full a s)"
  using assms
proof (induction "length (full a s)" arbitrary: acc a s rule: less_induct)
  case less
  obtain res s1 where p: "page a s = (res, s1)" by fastforce
  have keep: "full b s1 = full b s" "ok s1" for b using page_same [OF p] less.prems by blast+
  show ?case
  proof (cases res)
    case (Inl e)
    with p show ?thesis by (subst read_all.simps) simp
  next
    case (Inr y)
    obtain xs tr where y: "y = (xs, tr)" by fastforce
    obtain n where n: "xs = take n (full a s)" "if tr then 0 < n \<and> n < length (full a s) else length (full a s) \<le> n"
      using page_full [of a s xs tr s1] p Inr y less.prems by blast
    show ?thesis
    proof (cases tr)
      case True
      with n have l: "0 < n" "n < length (full a s)" by simp_all
      have ne: "xs \<noteq> []" using n(1) l by (cases "full a s") auto
      have rest: "full (cursor (last xs)) s1 = drop n (full a s)" using page_rest [OF less.prems l(1)] l(2) n(1) keep by simp
      have "length (full (cursor (last xs)) s1) < length (full a s)" using rest l by simp
      from less.hyps [OF this keep(2)]
      obtain r s' where r: "read_all page cursor (acc @ xs) (cursor (last xs)) s1 = Some (r, s')"
          "\<forall>zs. r = Inr zs \<longrightarrow> zs = (acc @ xs) @ full (cursor (last xs)) s1" by blast
      then have "read_all page cursor acc a s = Some (r, s')" using p Inr y True ne by (subst read_all.simps) simp
      with r(2) rest n(1) show ?thesis by auto
    next
      case False
      with n p Inr y show ?thesis by (subst read_all.simps) simp
    qed
  qed
qed

end

section \<open>Virtual keys\<close>

lemma prefix_ConsE: "prefix (x # xs) ys \<Longrightarrow> (\<And>zs. ys = x # zs \<Longrightarrow> prefix xs zs \<Longrightarrow> P) \<Longrightarrow> P"
  by (cases ys) auto

lemma prefix_le: "prefix xs ys \<Longrightarrow> xs \<le> (ys :: string)"
  by (induction xs arbitrary: ys) (auto elim: prefix_ConsE)

lemma less_extension:
  assumes "v1 < v2" and "\<not> prefix v1 v2" and "prefix v1 k"
  shows "k < (v2 :: string)"
  using assms
proof (induction v1 arbitrary: v2 k)
  case (Cons x xs)
  obtain y ys where v2: "v2 = y # ys" using Cons.prems(1) by (cases v2) auto
  obtain zs where k: "k = x # zs" "prefix xs zs" using Cons.prems(3) by (rule prefix_ConsE)
  show ?case using Cons.prems(1,2) Cons.IH [of ys zs] k v2 by auto
qed simp

lemma index_of_length: "index_of d xs = Some i \<Longrightarrow> i + length d \<le> length xs"
  by (induction xs arbitrary: i) (auto split: if_splits dest: prefix_length_le)

lemma index_of_cong:
  assumes "index_of d xs = Some i" and "d \<noteq> []" and "prefix (take (i + length d) xs) ys"
  shows "index_of d ys = Some i"
  using assms
proof (induction xs arbitrary: i ys)
  case (Cons c cs)
  show ?case
  proof (cases "prefix d (c # cs)")
    case True
    then have i: "i = 0" using Cons.prems(1) by simp
    from True have "take (length d) (c # cs) = d" by (metis append_eq_conv_conj prefix_def)
    with Cons.prems(3) i have "prefix d ys" by simp
    with Cons.prems(2) i show ?thesis by (cases ys) auto
  next
    case False
    then obtain j where j: "index_of d cs = Some j" "i = Suc j" using Cons.prems(1) by auto
    from Cons.prems(3) j(2) obtain ys' where ys: "ys = c # ys'" "prefix (take (j + length d) cs) ys'"
      by (auto elim: prefix_ConsE)
    have IH: "index_of d ys' = Some j" using Cons.IH [OF j(1) Cons.prems(2) ys(2)] .
    have len: "j + length d \<le> length cs" by (rule index_of_length [OF j(1)])
    have "\<not> prefix d (c # ys')"
    proof
      assume d: "prefix d (c # ys')"
      have "prefix (c # take (j + length d) cs) (c # ys')" using ys(2) by simp
      from prefix_length_prefix [OF d this] len have "prefix d (c # take (j + length d) cs)" by simp
      moreover have "prefix (c # take (j + length d) cs) (c # cs)" by (simp add: take_is_prefix)
      ultimately show False using False by (blast intro: prefix_order.trans)
    qed
    with IH ys(1) j(2) show ?thesis by simp
  qed
qed simp

abbreviation vkey :: "string \<Rightarrow> string \<Rightarrow> string \<Rightarrow> string" where "vkey p d k \<equiv> fst (virtual_key p d k)"

lemma vkey_prefix: "prefix (vkey p d k) k"
  by (auto simp: virtual_key_def take_is_prefix split: option.splits)

lemma vkey_direct: "\<not> snd (virtual_key p d k) \<Longrightarrow> vkey p d k = k"
  by (auto simp: virtual_key_def split: option.splits if_splits)

lemma vkey_common:
  assumes "snd (virtual_key p d k1)" and "prefix p k1" and "prefix p k2" and "prefix (vkey p d k1) k2"
  shows "virtual_key p d k2 = virtual_key p d k1"
proof -
  from assms(1) obtain i where d: "d \<noteq> []" and i: "index_of d (drop (length p) k1) = Some i"
    and v: "vkey p d k1 = take (length p + i + length d) k1" by (auto simp: virtual_key_def split: option.splits if_splits)
  have "prefix (take (i + length d) (drop (length p) k1)) (drop (length p) k2)"
  proof -
    have "take (length p + i + length d) k1 = p @ take (i + length d) (drop (length p) k1)"
      using assms(2) by (auto simp: prefix_def)
    with v assms(3,4) show ?thesis by (auto simp: prefix_def)
  qed
  from index_of_cong [OF i d this] have i2: "index_of d (drop (length p) k2) = Some i" .
  have "take (length p + i + length d) k2 = take (length p + i + length d) k1"
  proof -
    have "length p \<le> length k1" using assms(2) by (rule prefix_length_le)
    then have "length (take (length p + i + length d) k1) = length p + i + length d"
      using index_of_length [OF i] by simp
    with assms(4) v show ?thesis by (metis append_eq_conv_conj prefix_def)
  qed
  with i i2 d show ?thesis by (simp add: virtual_key_def)
qed

section \<open>All entries of a bucket\<close>

definition listed_keys :: "string \<Rightarrow> string \<Rightarrow> tables \<Rightarrow> string list" where
  "listed_keys b p t = map o_Key (filter (\<lambda>x. o_BucketName x = b \<and> prefix p (o_Key x)) (objects t))"

definition delim_entry :: "string \<Rightarrow> string \<Rightarrow> string \<Rightarrow> tables \<Rightarrow> string \<Rightarrow> DelimitedListEntry" where
  "delim_entry b p d t v =
     (let group = filter (\<lambda>k. vkey p d k = v) (listed_keys b p t); is_cp = list_ex (\<lambda>k. snd (virtual_key p d k)) group in
      \<lparr>VirtualKey = v, CursorKey = Max (set group), IsPrefix = is_cp,
       e_Object = (if is_cp then None else map_option listed_object (find_object b v t))\<rparr>)"

definition vkeys :: "string \<Rightarrow> string \<Rightarrow> string \<Rightarrow> tables \<Rightarrow> string list" where
  "vkeys b p d t = sort (remdups (map (vkey p d) (listed_keys b p t)))"

lemma vkey_le: "vkey p d k \<le> k"
  by (rule prefix_le [OF vkey_prefix])

lemma delimited_keys:
  "map o_Key (filter (\<lambda>x. o_BucketName x = b \<and> a < o_Key x \<and> prefix p (o_Key x)) (objects t)) =
     filter (\<lambda>k. a < k) (listed_keys b p t)"
  by (simp add: listed_keys_def filter_map comp_def) (rule arg_cong [where f = "map o_Key"], rule filter_cong, auto)

lemma delimited_above: "a < vkey p d k \<Longrightarrow> a < k"
  using vkey_le [of p d k] by (rule less_le_trans [rotated])

lemma delimited_grouped:
  "filter (\<lambda>v. a < v) (sort (remdups (map (vkey p d) (filter (\<lambda>k. a < k) (listed_keys b p t))))) =
     filter (\<lambda>v. a < v) (vkeys b p d t)"
  unfolding vkeys_def filter_sort remdups_filter [symmetric] filter_map filter_filter comp_def
  by (rule arg_cong [where f = "\<lambda>xs. sort (remdups (map (vkey p d) xs))"], rule filter_cong) (auto dest: delimited_above)

lemma delimited_group:
  "a < v \<Longrightarrow> filter (\<lambda>k. vkey p d k = v) (filter (\<lambda>k. a < k) (listed_keys b p t)) = filter (\<lambda>k. vkey p d k = v) (listed_keys b p t)"
  unfolding filter_filter by (rule filter_cong) (auto dest: delimited_above)

lemma ListDelimited_Inr:
  assumes "ListDelimited env b p a d n s = (Inr es, s')" and "0 < n"
  shows "es = take (nat (n + 1)) (map (delim_entry b p d (tabs s)) (filter (\<lambda>v. a < v) (vkeys b p d (tabs s))))"
proof -
  let ?q = "\<lambda>t. take (nat (n + 1)) (map (delim_entry b p d t) (filter (\<lambda>v. a < v) (vkeys b p d t)))"
  have "ListDelimited env b p a d n = query env (\<lambda>t. Inr (?q t))"
    unfolding ListDelimited_def Let_def delimited_keys delimited_grouped if_not_P [OF assms(2) [unfolded not_le [symmetric]]]
    by (intro arg_cong [where f = "query env"] ext arg_cong [where f = Inr] arg_cong [where f = "take (nat (n + 1))"] map_cong refl)
      (simp only: delim_entry_def Let_def set_filter mem_Collect_eq delimited_group)
  with assms(1) show ?thesis by (auto dest!: query_Inr)
qed

lemma vkeys_sorted: "sorted_wrt (<) (vkeys b p d t)"
  by (simp add: vkeys_def strict_sorted_iff)

lemma vkeys_set: "set (vkeys b p d t) = vkey p d ` set (listed_keys b p t)"
  by (simp add: vkeys_def)

lemma cursor_member:
  assumes "v \<in> set (vkeys b p d t)"
  obtains k where "CursorKey (delim_entry b p d t v) = k" and "vkey p d k = v" and "prefix p k" and "k \<in> set (listed_keys b p t)"
proof -
  let ?G = "set (filter (\<lambda>k. vkey p d k = v) (listed_keys b p t))"
  have "CursorKey (delim_entry b p d t v) = Max ?G" unfolding delim_entry_def Let_def DelimitedListEntry.select_convs ..
  moreover have "Max ?G \<in> ?G"
  proof (rule Max_in)
    show "?G \<noteq> {}" using assms by (auto simp: vkeys_set)
  qed (rule finite_set)
  moreover have "prefix p k" if "k \<in> ?G" for k using that by (auto simp: listed_keys_def)
  ultimately show ?thesis by (intro that [of "Max ?G"]) simp_all
qed

lemma cursor_ge: "v \<in> set (vkeys b p d t) \<Longrightarrow> v \<le> CursorKey (delim_entry b p d t v)"
  by (erule cursor_member) (metis vkey_le)

lemma cursor_less:
  assumes v: "v \<in> set (vkeys b p d t)" and w: "w \<in> set (vkeys b p d t)" "v < w"
  shows "CursorKey (delim_entry b p d t v) < w"
proof -
  from v obtain k where c: "CursorKey (delim_entry b p d t v) = k" and k: "vkey p d k = v" "prefix p k" by (rule cursor_member)
  from w(1) obtain k2 where k2: "w = vkey p d k2" "prefix p k2" by (auto simp: vkeys_set listed_keys_def)
  show ?thesis unfolding c
  proof (cases "prefix v w")
    case False
    have "prefix v k" using vkey_prefix [of p d k] k(1) by simp
    then show "k < w" by (rule less_extension [OF w(2) False])
  next
    case True
    have "\<not> snd (virtual_key p d k)"
    proof
      assume "snd (virtual_key p d k)"
      moreover have "prefix (vkey p d k) k2"
        using prefix_order.trans [OF True] vkey_prefix [of p d k2] unfolding k(1) k2(1) by blast
      ultimately have "virtual_key p d k2 = virtual_key p d k" using vkey_common k(2) k2(2) by blast
      with k(1) k2(1) w(2) show False by simp
    qed
    from vkey_direct [OF this] k(1) w(2) show "k < w" by simp
  qed
qed

section \<open>The listing provides the interface\<close>

definition all_entries :: "string \<Rightarrow> string \<Rightarrow> string \<Rightarrow> tables \<Rightarrow> listEntry list" where
  "all_entries b p d t =
     (if d = [] then map (\<lambda>x. \<lparr>le_value = o_Key x, le_cursor = o_Key x, le_object = Some x\<rparr>) (bucket_rows b p t)
      else map (\<lambda>v. entry_of (delim_entry b p d t v)) (vkeys b p d t))"

abbreviation entries_after :: "string \<Rightarrow> string \<Rightarrow> string \<Rightarrow> string \<Rightarrow> tables \<Rightarrow> listEntry list" where
  "entries_after b p d a t \<equiv> filter (\<lambda>e. a < le_value e) (all_entries b p d t)"

lemma le_value_entry_of: "le_value (entry_of (delim_entry b p d t v)) = v" "le_cursor (entry_of e) = CursorKey e"
  by (simp_all add: entry_of_def delim_entry_def Let_def)

lemma all_entries_sorted: "objects_ok t \<Longrightarrow> sorted_wrt (<) (map le_value (all_entries b p d t))"
  using bucket_rows_sorted [of t b p] vkeys_sorted [of b p d t] by (simp add: all_entries_def comp_def le_value_entry_of)

lemma bucket_rows_keys: "set (map o_Key (bucket_rows b p t)) = set (listed_keys b p t)"
  by (simp add: bucket_rows_def listed_keys_def)

lemma vkey_nil: "vkey p [] k = k"
  by (simp add: virtual_key_def)

lemma all_entries_set: "le_value ` set (all_entries b p d t) = vkey p d ` set (listed_keys b p t)"
proof (cases "d = []")
  case True
  then show ?thesis using bucket_rows_keys [of b p t] by (simp add: all_entries_def image_image vkey_nil)
next
  case False
  then show ?thesis by (simp add: all_entries_def image_image le_value_entry_of vkeys_set)
qed

lemma entry_cursor:
  assumes "x \<in> set (all_entries b p d t)" and "y \<in> set (all_entries b p d t)"
  shows "le_cursor x < le_value y \<longleftrightarrow> le_value x < le_value y"
proof (cases "d = []")
  case True
  then show ?thesis using assms by (auto simp: all_entries_def)
next
  case False
  then obtain v w where "x = entry_of (delim_entry b p d t v)" "v \<in> set (vkeys b p d t)"
      "y = entry_of (delim_entry b p d t w)" "w \<in> set (vkeys b p d t)"
    using assms by (auto simp: all_entries_def)
  then show ?thesis using cursor_ge [of v b p d t] cursor_less [of v b p d t w] by (auto simp: le_value_entry_of)
qed

lemma listObjectsV2Entries_Inr:
  assumes "listObjectsV2Entries h b ps s = (Inr (es, tr), s')" and "0 < lp_maxKeys ps"
  shows "es = take (nat (lp_maxKeys ps)) (entries_after b (lp_prefix ps) (lp_delimiter ps) (lp_startAfter ps) (tabs s))"
    and "tr \<longleftrightarrow> nat (lp_maxKeys ps) < length (entries_after b (lp_prefix ps) (lp_delimiter ps) (lp_startAfter ps) (tabs s))"
proof -
  let ?n = "lp_maxKeys ps" and ?p = "lp_prefix ps" and ?d = "lp_delimiter ps" and ?a = "lp_startAfter ps"
  have "es = take (nat ?n) (entries_after b ?p ?d ?a (tabs s)) \<and> (tr \<longleftrightarrow> nat ?n < length (entries_after b ?p ?d ?a (tabs s)))"
  proof (cases "?d = []")
    case True
    then obtain objs s1 where l: "object_List (h_dbenv h) b ?p ?a ?n s = (Inr (objs, tr), s1)"
      and es: "es = map (\<lambda>x. \<lparr>le_value = o_Key x, le_cursor = o_Key x, le_object = Some x\<rparr>) objs"
      using assms by (auto simp: listObjectsV2Entries_def andThen_Inr)
    from object_List_Inr [OF l assms(2)] es True show ?thesis by (simp add: all_entries_def filter_map comp_def take_map)
  next
    case False
    let ?E = "map (delim_entry b ?p ?d (tabs s)) (filter (\<lambda>v. ?a < v) (vkeys b ?p ?d (tabs s)))"
    from False obtain rs s1 where l: "ListDelimited (h_dbenv h) b ?p ?a ?d ?n s = (Inr rs, s1)"
      and es: "es = map entry_of (if ?n < int (length rs) then take (nat ?n) rs else rs)" "tr \<longleftrightarrow> ?n < int (length rs)"
      using assms by (auto simp: listObjectsV2Entries_def andThen_Inr Let_def)
    have rs: "rs = take (Suc (nat ?n)) ?E" using ListDelimited_Inr [OF l assms(2)] assms(2) by (simp add: nat_add_distrib)
    have E: "map entry_of ?E = entries_after b ?p ?d ?a (tabs s)"
      using False by (simp add: all_entries_def filter_map comp_def le_value_entry_of)
    have m: "?n < int (length rs) \<longleftrightarrow> nat ?n < length ?E" using assms(2) unfolding rs by (simp only: length_take) linarith
    have "(if ?n < int (length rs) then take (nat ?n) rs else rs) = take (nat ?n) ?E"
      unfolding m if_distrib by (rule if_split [THEN iffD2]) (simp add: rs take_take min_def del: map_map)
    then show ?thesis using es m unfolding E [symmetric] length_map by (simp add: take_map del: map_map)
  qed
  then show "es = take (nat ?n) (entries_after b ?p ?d ?a (tabs s))"
    and "tr \<longleftrightarrow> nat ?n < length (entries_after b ?p ?d ?a (tabs s))" by simp_all
qed

lemma listObjectsV2Entries_keeps: "listObjectsV2Entries h b ps s = (r, s') \<Longrightarrow> tabs s' = tabs s"
  by (auto simp: listObjectsV2Entries_def ListDelimited_def Let_def andThen_def split: if_splits prod.splits sum.splits
      dest!: object_List_keeps query_tabs)

lemma entries_rest:
  assumes "objects_ok t" and "0 < n" and "n \<le> length (entries_after b p d a t)"
  shows "entries_after b p d (le_cursor (last (take n (entries_after b p d a t)))) t = drop n (entries_after b p d a t)"
proof -
  let ?F = "entries_after b p d a t"
  let ?x = "last (take n ?F)"
  have "take n ?F \<noteq> []" using assms(2,3) by (cases ?F) auto
  then have x: "?x \<in> set ?F" by (metis in_set_takeD last_in_set)
  have "sorted_wrt (<) (map le_value ?F)"
    using all_entries_sorted [OF assms(1)] by (simp add: sorted_wrt_map sorted_wrt_filter)
  from sorted_split [OF this assms(2,3)] have "filter (\<lambda>e. le_value ?x < le_value e) ?F = drop n ?F" .
  moreover have "filter (\<lambda>e. le_value ?x < le_value e) ?F = entries_after b p d (le_cursor ?x) t"
    unfolding filter_filter using x by (intro filter_cong) (auto simp: entry_cursor dest: less_trans)
  ultimately show ?thesis by simp
qed

interpretation listing: cursor_paged "\<lambda>a. listObjectsV2Entries h b (ps\<lparr>lp_startAfter := a\<rparr>)"
  "\<lambda>a s. entries_after b (lp_prefix ps) (lp_delimiter ps) a (tabs s)" le_cursor
  "\<lambda>s. 0 < lp_maxKeys ps \<and> objects_ok (tabs s)" for h b ps
proof unfold_locales
  fix a and s s' :: db and xs tr
  assume run: "listObjectsV2Entries h b (ps\<lparr>lp_startAfter := a\<rparr>) s = (Inr (xs, tr), s')" and ok: "0 < lp_maxKeys ps \<and> objects_ok (tabs s)"
  show "\<exists>n. xs = take n (entries_after b (lp_prefix ps) (lp_delimiter ps) a (tabs s)) \<and>
      (if tr then 0 < n \<and> n < length (entries_after b (lp_prefix ps) (lp_delimiter ps) a (tabs s))
       else length (entries_after b (lp_prefix ps) (lp_delimiter ps) a (tabs s)) \<le> n)"
    using listObjectsV2Entries_Inr [OF run] ok by (intro exI [of _ "nat (lp_maxKeys ps)"]) auto
qed (auto simp: entries_rest dest!: listObjectsV2Entries_keeps)

lemma common_group:
  assumes "k1 \<in> set (listed_keys b p t)" and "k2 \<in> set (listed_keys b p t)" and "vkey p d k1 = vkey p d k2"
  shows "virtual_key p d k1 = virtual_key p d k2"
proof (cases "snd (virtual_key p d k1)")
  case True
  have "prefix (vkey p d k1) k2" using assms(3) vkey_prefix [of p d k2] by simp
  with True assms(1,2) show ?thesis by (intro vkey_common [symmetric]) (auto simp: listed_keys_def)
next
  case False
  show ?thesis
  proof (cases "snd (virtual_key p d k2)")
    case True
    have "prefix (vkey p d k2) k1" using assms(3) vkey_prefix [of p d k1] by simp
    with True assms(1,2) show ?thesis by (intro vkey_common) (auto simp: listed_keys_def)
  next
    case False
    with \<open>\<not> snd (virtual_key p d k1)\<close> assms(3) show ?thesis by (simp add: prod_eq_iff)
  qed
qed

lemma delim_entry_prefix:
  assumes "k \<in> set (listed_keys b p t)"
  shows "IsPrefix (delim_entry b p d t (vkey p d k)) = snd (virtual_key p d k)"
    and "\<not> snd (virtual_key p d k) \<Longrightarrow> e_Object (delim_entry b p d t (vkey p d k)) = map_option listed_object (find_object b k t)"
proof -
  have "list_ex (\<lambda>k. snd (virtual_key p d k)) (filter (\<lambda>k'. vkey p d k' = vkey p d k) (listed_keys b p t)) = snd (virtual_key p d k)"
    using assms common_group [OF assms, where d = d] by (force simp: list_ex_iff)
  then show "IsPrefix (delim_entry b p d t (vkey p d k)) = snd (virtual_key p d k)"
    and "\<not> snd (virtual_key p d k) \<Longrightarrow> e_Object (delim_entry b p d t (vkey p d k)) = map_option listed_object (find_object b k t)"
    by (simp_all add: delim_entry_def Let_def vkey_direct)
qed

lemma entry_object:
  assumes "e \<in> set (all_entries b p d t)" and ok: "objects_ok t"
  shows "\<exists>x\<in>set (objects t). o_BucketName x = b \<and> prefix p (o_Key x) \<and> virtual_key p d (o_Key x) = (le_value e, le_object e = None)
    \<and> (\<forall>y. le_object e = Some y \<longrightarrow> o_Key y = o_Key x \<and> o_ETag y = o_ETag x \<and> o_Size y = o_Size x)"
proof (cases "d = []")
  case True
  with assms show ?thesis by (auto simp: all_entries_def virtual_key_def bucket_rows_def)
next
  case False
  with assms obtain k where k: "k \<in> set (listed_keys b p t)" "e = entry_of (delim_entry b p d t (vkey p d k))"
    by (auto simp: all_entries_def vkeys_set)
  then obtain x where x: "x \<in> set (objects t)" "obj_key x = (b, k)" "prefix p k" by (auto simp: listed_keys_def obj_key_def)
  then have f: "find_object b k t = Some x" using find_object_iff [OF ok] by blast
  have key: "o_BucketName x = b" "o_Key x = k" using x(2) by (simp_all add: obj_key_def)
  note de = delim_entry_prefix [OF k(1), of d]
  have o: "le_object e = (if snd (virtual_key p d k) then None else Some (listed_object x))"
    using de f by (simp add: k(2) entry_of_def)
  moreover have "le_value e = vkey p d k" unfolding k(2) by (rule le_value_entry_of)
  ultimately show ?thesis using x key by (intro bexI [of _ x]) (auto simp: prod_eq_iff listed_object_def)
qed

section \<open>Property\<close>

text \<open>
  C27: a client that follows the continuation tokens of \<open>ListObjectsV2\<close> always reaches the last
  page, with and without a delimiter and whatever page size it asks for.  Unless a query fails, the pages
  together are strictly increasing and hold exactly the keys and common prefixes after the start of the
  bucket's keys with the requested prefix; an entry is a common prefix exactly where a key continues past the
  delimiter, and otherwise carries the entity tag and size of that very object.
\<close>

theorem listing_complete:
  assumes "db_wf (tabs s)" and "0 < lp_maxKeys ps"
  shows "\<exists>r s'. read_all (\<lambda>a. listObjectsV2Entries h b (ps\<lparr>lp_startAfter := a\<rparr>)) le_cursor [] a s = Some (r, s') \<and>
    (\<forall>es. r = Inr es \<longrightarrow>
       sorted_wrt (<) (map le_value es)
     \<and> le_value ` set es = {v. a < v \<and> (\<exists>x\<in>set (objects (tabs s)). o_BucketName x = b \<and> prefix (lp_prefix ps) (o_Key x)
          \<and> v = fst (virtual_key (lp_prefix ps) (lp_delimiter ps) (o_Key x)))}
     \<and> (\<forall>e\<in>set es. \<exists>x\<in>set (objects (tabs s)). o_BucketName x = b \<and> prefix (lp_prefix ps) (o_Key x)
          \<and> virtual_key (lp_prefix ps) (lp_delimiter ps) (o_Key x) = (le_value e, le_object e = None)
          \<and> (\<forall>y. le_object e = Some y \<longrightarrow> o_Key y = o_Key x \<and> o_ETag y = o_ETag x \<and> o_Size y = o_Size x)))"
proof -
  let ?p = "lp_prefix ps" and ?d = "lp_delimiter ps" and ?t = "tabs s"
  have ok: "objects_ok ?t" using assms(1) by (simp add: db_wf_def)
  obtain r s' where r: "read_all (\<lambda>a. listObjectsV2Entries h b (ps\<lparr>lp_startAfter := a\<rparr>)) le_cursor [] a s = Some (r, s')"
      "\<forall>es. r = Inr es \<longrightarrow> es = [] @ entries_after b ?p ?d a ?t"
    using listing.pages_complete [of ps s h b "[]" a] ok assms(2) by blast
  have "sorted_wrt (<) (map le_value (entries_after b ?p ?d a ?t))"
    using all_entries_sorted [OF ok] by (simp add: sorted_wrt_map sorted_wrt_filter)
  moreover have "le_value ` set (entries_after b ?p ?d a ?t) = {v. a < v \<and> v \<in> vkey ?p ?d ` set (listed_keys b ?p ?t)}"
    unfolding all_entries_set [symmetric] by auto
  moreover have "\<exists>x\<in>set (objects ?t). o_BucketName x = b \<and> prefix ?p (o_Key x)
      \<and> virtual_key ?p ?d (o_Key x) = (le_value e, le_object e = None)
      \<and> (\<forall>y. le_object e = Some y \<longrightarrow> o_Key y = o_Key x \<and> o_ETag y = o_ETag x \<and> o_Size y = o_Size x)"
    if "e \<in> set (entries_after b ?p ?d a ?t)" for e
    using that by (intro entry_object [OF _ ok]) simp
  ultimately show ?thesis using r by (auto simp: listed_keys_def)
qed

lemma listing_complete_witness:
  "\<forall>h. \<exists>r s'. read_all (\<lambda>a. listObjectsV2Entries h ''b'' (\<lparr>lp_prefix = [], lp_delimiter = ''/'', lp_continuationToken = [],
       lp_startAfter = [], lp_responseStartAfter = [], lp_hasStartAfter = False, lp_encodingType = [], lp_maxKeys = 1\<rparr>\<lparr>lp_startAfter := a\<rparr>))
     le_cursor [] [] sample_db = Some (r, s')
   \<and> (\<forall>es. r = Inr es \<longrightarrow> map le_value es = [''a/'', ''k''])"
proof
  fix h
  let ?ps = "\<lparr>lp_prefix = [], lp_delimiter = ''/'', lp_continuationToken = [],
       lp_startAfter = [], lp_responseStartAfter = [], lp_hasStartAfter = False, lp_encodingType = [], lp_maxKeys = 1\<rparr>"
  have ps: "lp_prefix ?ps = []" "lp_delimiter ?ps = ''/''" "0 < lp_maxKeys ?ps" by simp_all
  have "map (\<lambda>x. fst (virtual_key [] ''/'' (o_Key x))) (filter (\<lambda>x. o_BucketName x = ''b'') (objects (tabs sample_db))) = [''k'', ''a/'']"
    by code_simp
  from arg_cong [OF this, of set]
  have "(\<lambda>x. fst (virtual_key [] ''/'' (o_Key x))) ` {x \<in> set (objects (tabs sample_db)). o_BucketName x = ''b''} = {''a/'', ''k''}"
    by (simp only: list.set_map set_filter) (simp add: insert_commute)
  moreover have "{v. a < v \<and> (\<exists>x\<in>S. B x \<and> prefix [] (o_Key x) \<and> v = f x)} = {v. a < v} \<inter> f ` {x \<in> S. B x}" for a B S and f :: "Object \<Rightarrow> string"
    by auto
  moreover have "{v. [] < v} \<inter> {''a/'', ''k''} = {''a/'', ''k''}" by simp
  ultimately have vs: "{v. [] < v \<and> (\<exists>x\<in>set (objects (tabs sample_db)). o_BucketName x = ''b'' \<and> prefix [] (o_Key x)
      \<and> v = fst (virtual_key [] ''/'' (o_Key x)))} = {''a/'', ''k''}" by (simp only:)
  have l: "sorted_wrt (<) (xs :: string list) \<Longrightarrow> set xs = {''a/'', ''k''} \<Longrightarrow> xs = [''a/'', ''k'']" for xs
    by (rule strict_sorted_equal) simp_all
  from listing_complete [OF sample_db_wf ps(3), of h "''b''" "[]"]
  obtain r s' where r: "read_all (\<lambda>a. listObjectsV2Entries h ''b'' (?ps\<lparr>lp_startAfter := a\<rparr>)) le_cursor [] [] sample_db = Some (r, s')"
      and es: "\<And>es. r = Inr es \<Longrightarrow> sorted_wrt (<) (map le_value es) \<and> le_value ` set es = {''a/'', ''k''}"
    unfolding ps(1,2) vs by (elim exE conjE) (rule that, assumption, drule spec, drule (1) mp, elim conjE, rule conjI)
  have "map le_value es = [''a/'', ''k'']" if "r = Inr es" for es using es [OF that] by (intro l) simp_all
  with r show "\<exists>r s'. read_all (\<lambda>a. listObjectsV2Entries h ''b'' (?ps\<lparr>lp_startAfter := a\<rparr>)) le_cursor [] [] sample_db = Some (r, s')
      \<and> (\<forall>es. r = Inr es \<longrightarrow> map le_value es = [''a/'', ''k''])" by blast
qed

end
