(* ===== verification/SigV4.thy ===== *)
theory SigV4
  imports S3Types Clock "HOL-Library.AList"
begin

text \<open>
  AWS Signature Version 4 (\<open>internal/auth/sigv4.go\<close>): the header and the query form of a signed
  request, the canonical request and the string to sign, and the verification against the secret the user
  repository stores.  SHA-256 is a parameter \<open>H\<close>; \<open>parseRFC1123\<close> stands for \<open>time.Parse(time.RFC1123, s)\<close>,
  whose zone names depend on the machine's time zone database.
\<close>

datatype auth_error =
    ErrNotApplicable | ErrMissingAuth | ErrUnsupportedScheme | ErrMalformedToken | ErrInvalidCredentials
  | ErrInactiveUser | ErrInternal | ErrUnauthorized | ErrForbidden

type_synonym authenticator = "request \<Rightarrow> db \<Rightarrow> (auth_error + Principal) \<times> db"

definition sigV4Algorithm :: string where "sigV4Algorithm = ''AWS4-HMAC-SHA256''"
definition sigV4Terminator :: string where "sigV4Terminator = ''aws4_request''"
definition unsignedPayload :: string where "unsignedPayload = ''UNSIGNED-PAYLOAD''"
definition maxClockSkew :: int where "maxClockSkew = 15 * 60 * second"

text \<open>
  \<open>sa_Now n\<close> is the instant the call number \<open>n\<close> of \<open>now\<close> in the request returns.
\<close>

record SigV4Authenticator =
  sa_env :: db_env
  sa_H :: "bytes \<Rightarrow> bytes"
  sa_Now :: "nat \<Rightarrow> time"
  sa_parseRFC1123 :: "string \<Rightarrow> gotime option"

section \<open>Parsing\<close>

definition auth_param :: "string \<Rightarrow> string \<times> string \<times> string \<Rightarrow> (string \<times> string \<times> string) option" where
  "auth_param raw acc =
     (let part = TrimSpace raw in
      if part = [] then Some acc
      else case cut_at (CHR ''='') part of (key, value, found) \<Rightarrow>
        if \<not> found then None
        else case acc of (credential, signedHeaders, signature) \<Rightarrow>
          Some (if key = ''Credential'' then (value, signedHeaders, signature)
                else if key = ''SignedHeaders'' then (credential, value, signature)
                else if key = ''Signature'' then (credential, signedHeaders, value)
                else acc))"

fun auth_params :: "string list \<Rightarrow> string \<times> string \<times> string \<Rightarrow> (string \<times> string \<times> string) option" where
  "auth_params [] acc = Some acc"
| "auth_params (part # rest) acc =
     (case auth_param part acc of None \<Rightarrow> None | Some acc' \<Rightarrow> auth_params rest acc')"

definition parseAuthorizationHeader :: "string \<Rightarrow> (string \<times> string \<times> string) option" where
  "parseAuthorizationHeader header =
     (if \<not> HasPrefix header (sigV4Algorithm @ '' '') then None
      else case auth_params (split_on (CHR '','') (TrimPrefix header (sigV4Algorithm @ '' ''))) ([], [], []) of
        None \<Rightarrow> None
      | Some (credential, signedHeaders, signature) \<Rightarrow>
          if credential = [] \<or> signedHeaders = [] \<or> signature = [] then None
          else Some (credential, signedHeaders, signature))"

definition validateSignedHeaders :: "string \<Rightarrow> bool" where
  "validateSignedHeaders s = list_ex (\<lambda>h. h = ''host'') (split_on (CHR '';'') s)"

definition parseCredential :: "string \<Rightarrow> (string \<times> string \<times> string \<times> string) option" where
  "parseCredential credential =
     (case split_on (CHR ''/'') credential of
        [accessKeyID, date, region, service, terminator] \<Rightarrow>
          if terminator \<noteq> sigV4Terminator then None
          else if accessKeyID = [] then None
          else if length date \<noteq> 8 then None
          else if \<not> list_all is_digit date then None
          else if region = [] then None
          else if service \<noteq> ''s3'' then None
          else Some (accessKeyID, date, region, service)
      | _ \<Rightarrow> None)"

definition parseTimestamp :: "(string \<Rightarrow> gotime option) \<Rightarrow> string \<Rightarrow> gotime option" where
  "parseTimestamp parseRFC1123 s =
     (if length s = 16 then Parse_compact s
      else if length s = 20 then Parse_millis s
      else parseRFC1123 s)"

definition validateTimestamp :: "(string \<Rightarrow> gotime option) \<Rightarrow> string \<Rightarrow> string \<Rightarrow> time \<Rightarrow> bool" where
  "validateTimestamp parseRFC1123 amzDate credDate now =
     (if amzDate = [] then False
      else case parseTimestamp parseRFC1123 amzDate of
        None \<Rightarrow> False
      | Some t \<Rightarrow>
          if Format_date t \<noteq> credDate then False
          else
            let diff = time_Sub now (t_abs t);
                diff' = (if diff < 0 then wrap64 (- diff) else diff)
            in \<not> diff' > maxClockSkew)"

definition getPayloadHash :: "request \<Rightarrow> string" where
  "getPayloadHash r =
     (let hash = header_Get r ''X-Amz-Content-SHA256'' in if hash \<noteq> [] then hash else unsignedPayload)"

section \<open>The canonical request\<close>

text \<open>
  \<open>for _, c := range s\<close> on bytes: the encodings of the runes, where a byte that starts no valid encoding is
  read as the replacement character.
\<close>

definition first_rune :: "string \<Rightarrow> nat option" where
  "first_rune s = find (\<lambda>k. k \<le> length s \<and> utf8_valid (map of_char (take k s))) [1, 2, 3, 4]"

definition replacement :: string where
  "replacement = [CHR 0xEF, CHR 0xBF, CHR 0xBD]"

fun rune_loop :: "nat \<Rightarrow> string \<Rightarrow> string list" where
  "rune_loop skip [] = []"
| "rune_loop (Suc n) (c # cs) = rune_loop n cs"
| "rune_loop 0 (c # cs) =
     (case first_rune (c # cs) of
        None \<Rightarrow> replacement # rune_loop 0 cs
      | Some k \<Rightarrow> take k (c # cs) # rune_loop (k - 1) cs)"

fun collapse_loop :: "bool \<Rightarrow> string list \<Rightarrow> string" where
  "collapse_loop inSpace [] = []"
| "collapse_loop inSpace (c # cs) =
     (if c = [CHR 0x20] \<or> c = [CHR 0x09] \<or> c = [CHR 0x0A] \<or> c = [CHR 0x0D]
      then (if inSpace then collapse_loop True cs else CHR 0x20 # collapse_loop True cs)
      else c @ collapse_loop False cs)"

definition collapseWhitespace :: "string \<Rightarrow> string" where
  "collapseWhitespace s = TrimSpace (collapse_loop False (rune_loop 0 s))"

definition buildCanonicalHeaders :: "request \<Rightarrow> string list \<Rightarrow> string" where
  "buildCanonicalHeaders r signedHeaders =
     join_with [] (map (\<lambda>h.
       let value = (if h = ''host'' then r_Host r else header_Get r h) in
       h @ '':'' @ collapseWhitespace (TrimSpace value) @ [CHR 0x0A]) signedHeaders)"

definition shouldEscape :: "char \<Rightarrow> bool" where
  "shouldEscape c =
     (let n = of_char c :: nat in
      if 65 \<le> n \<and> n \<le> 90 \<or> 97 \<le> n \<and> n \<le> 122 \<or> 48 \<le> n \<and> n \<le> 57 then False
      else \<not> (c = CHR ''-'' \<or> c = CHR ''_'' \<or> c = CHR ''.'' \<or> c = CHR ''~''))"

text \<open>The second loop of \<open>uriEncode\<close>, writing into the buffer \<open>t\<close> from position \<open>j\<close>.\<close>

fun encode_loop :: "string \<Rightarrow> nat \<Rightarrow> string \<Rightarrow> string" where
  "encode_loop t j [] = t"
| "encode_loop t j (c # cs) =
     (let n = of_char c :: nat in
      if shouldEscape c
      then encode_loop (t[j := CHR 0x25, j + 1 := upper_hex_digit (n div 16), j + 2 := upper_hex_digit (n mod 16)]) (j + 3) cs
      else encode_loop (t[j := c]) (j + 1) cs)"

definition uriEncode :: "string \<Rightarrow> string" where
  "uriEncode s =
     (let spaceCount = length (filter shouldEscape s) in
      if spaceCount = 0 then s
      else encode_loop (replicate (length s + 2 * spaceCount) (CHR 0x00)) 0 s)"

definition buildCanonicalQueryString :: "url_values \<Rightarrow> string list \<Rightarrow> string" where
  "buildCanonicalQueryString values exclude =
     (let keys = sort (filter (\<lambda>k. k \<notin> set exclude) (map fst values)) in
      join_with ''&'' (concat (map (\<lambda>k.
        map (\<lambda>v. uriEncode k @ ''='' @ uriEncode v) (sort (case map_of values k of None \<Rightarrow> [] | Some vals \<Rightarrow> vals))) keys)))"

definition canonicalURI :: "request \<Rightarrow> string" where
  "canonicalURI r = (if r_EscapedPath r = [] then ''/'' else r_EscapedPath r)"

definition buildCanonicalRequest :: "request \<Rightarrow> string \<Rightarrow> string \<Rightarrow> string" where
  "buildCanonicalRequest r signedHeadersStr payloadHash =
     join_with [CHR 0x0A] [r_Method r, canonicalURI r, buildCanonicalQueryString (r_Query r) [],
       buildCanonicalHeaders r (split_on (CHR '';'') signedHeadersStr), signedHeadersStr, payloadHash]"

definition buildCanonicalRequestForQuery :: "request \<Rightarrow> string \<Rightarrow> string \<Rightarrow> string" where
  "buildCanonicalRequestForQuery r signedHeadersStr payloadHash =
     join_with [CHR 0x0A] [r_Method r, canonicalURI r, buildCanonicalQueryString (r_Query r) [''X-Amz-Signature''],
       buildCanonicalHeaders r (split_on (CHR '';'') signedHeadersStr), signedHeadersStr, payloadHash]"

definition buildStringToSign :: "(bytes \<Rightarrow> bytes) \<Rightarrow> string \<Rightarrow> string \<Rightarrow> string \<Rightarrow> string" where
  "buildStringToSign H timestamp credentialScope canonicalRequest =
     (let scope = (case cut_at (CHR ''/'') credentialScope of (before, after, ok) \<Rightarrow>
                     if ok then after else credentialScope) in
      join_with [CHR 0x0A] [sigV4Algorithm, timestamp, scope, hex_Encode (H canonicalRequest)])"

definition computeSignature :: "(bytes \<Rightarrow> bytes) \<Rightarrow> string \<Rightarrow> string \<Rightarrow> string \<Rightarrow> string \<Rightarrow> string \<Rightarrow> string" where
  "computeSignature H secretKey date region service stringToSign =
     (let kSecret = ''AWS4'' @ secretKey;
          kDate = hmac H kSecret date;
          kRegion = hmac H kDate region;
          kService = hmac H kRegion service;
          kSigning = hmac H kService sigV4Terminator
      in hex_Encode (hmac H kSigning stringToSign))"

section \<open>Authentication\<close>

definition lookup_error :: "go_error \<Rightarrow> auth_error" where
  "lookup_error err = (if err = ErrUserNotFound then ErrInvalidCredentials else ErrInternal)"

definition sigv4_principal :: "User \<Rightarrow> string \<Rightarrow> string \<Rightarrow> Principal" where
  "sigv4_principal user signedHeaders payloadHash =
     \<lparr>p_UserID = u_ID user, p_DisplayName = u_DisplayName user, p_AccessKeyID = u_SigV4AccessKeyID user,
      p_Role = u_Role user, p_DevMode = False, p_SignedHeaders = signedHeaders, p_SignedPayloadHash = payloadHash\<rparr>"

definition authenticateHeader :: "SigV4Authenticator \<Rightarrow> authenticator" where
  "authenticateHeader s r st =
     (case parseAuthorizationHeader (header_Get r ''Authorization'') of
        None \<Rightarrow> (Inl ErrMalformedToken, st)
      | Some (credential, signedHeaders, signature) \<Rightarrow>
          if \<not> validateSignedHeaders signedHeaders then (Inl ErrMalformedToken, st)
          else case parseCredential credential of
            None \<Rightarrow> (Inl ErrMalformedToken, st)
          | Some (accessKeyID, credDate, region, service) \<Rightarrow>
              let rawDate = (if header_Get r ''X-Amz-Date'' = [] then header_Get r ''Date'' else header_Get r ''X-Amz-Date'') in
              case parseTimestamp (sa_parseRFC1123 s) rawDate of
                None \<Rightarrow> (Inl ErrMalformedToken, st)
              | Some timestamp \<Rightarrow>
                  let amzDate = Format_compact timestamp in
                  if \<not> validateTimestamp (sa_parseRFC1123 s) amzDate credDate (sa_Now s 0) then (Inl ErrInvalidCredentials, st)
                  else case GetBySigV4AccessKeyID (sa_env s) accessKeyID st of
                    (Inl err, st1) \<Rightarrow> (Inl (lookup_error err), st1)
                  | (Inr user, st1) \<Rightarrow>
                      if \<not> u_IsActive user then (Inl ErrInactiveUser, st1)
                      else
                        let payloadHash = getPayloadHash r;
                            stringToSign = buildStringToSign (sa_H s) amzDate credential (buildCanonicalRequest r signedHeaders payloadHash);
                            expectedSignature = computeSignature (sa_H s) (u_SigV4SecretKey user) credDate region service stringToSign
                        in if signature \<noteq> expectedSignature then (Inl ErrInvalidCredentials, st1)
                           else (Inr (sigv4_principal user signedHeaders payloadHash), st1))"

definition authenticateQuery :: "SigV4Authenticator \<Rightarrow> authenticator" where
  "authenticateQuery s r st =
     (if query_Get r ''X-Amz-Algorithm'' \<noteq> sigV4Algorithm then (Inl ErrMalformedToken, st)
      else
        let credential = query_Get r ''X-Amz-Credential'';
            signedHeaders = query_Get r ''X-Amz-SignedHeaders'';
            signature = query_Get r ''X-Amz-Signature'';
            amzDate = query_Get r ''X-Amz-Date'';
            expires = query_Get r ''X-Amz-Expires''
        in if credential = [] \<or> signedHeaders = [] \<or> signature = [] \<or> amzDate = [] \<or> expires = [] then (Inl ErrMalformedToken, st)
        else if \<not> validateSignedHeaders signedHeaders then (Inl ErrMalformedToken, st)
        else case parseCredential credential of
          None \<Rightarrow> (Inl ErrMalformedToken, st)
        | Some (accessKeyID, credDate, region, service) \<Rightarrow>
            case parseTimestamp (sa_parseRFC1123 s) amzDate of
              None \<Rightarrow> (Inl ErrMalformedToken, st)
            | Some timestamp \<Rightarrow>
                if Format_date timestamp \<noteq> credDate then (Inl ErrInvalidCredentials, st)
                else if sa_Now s 0 > t_abs timestamp + 7 * 24 * 3600 * second then (Inl ErrInvalidCredentials, st)
                else if t_abs timestamp > sa_Now s 1 + maxClockSkew then (Inl ErrInvalidCredentials, st)
                else case Atoi expires of
                  None \<Rightarrow> (Inl ErrMalformedToken, st)
                | Some expirySeconds \<Rightarrow>
                    if expirySeconds \<le> 0 \<or> expirySeconds > 604800 then (Inl ErrMalformedToken, st)
                    else if sa_Now s 2 > t_abs timestamp + expirySeconds * second then (Inl ErrInvalidCredentials, st)
                    else case GetBySigV4AccessKeyID (sa_env s) accessKeyID st of
                      (Inl err, st1) \<Rightarrow> (Inl (lookup_error err), st1)
                    | (Inr user, st1) \<Rightarrow>
                        if \<not> u_IsActive user then (Inl ErrInactiveUser, st1)
                        else
                          let payloadHash = (if query_Get r ''X-Amz-Content-SHA256'' = [] then unsignedPayload
                                             else query_Get r ''X-Amz-Content-SHA256'');
                              stringToSign = buildStringToSign (sa_H s) amzDate credential (buildCanonicalRequestForQuery r signedHeaders payloadHash);
                              expectedSignature = computeSignature (sa_H s) (u_SigV4SecretKey user) credDate region service stringToSign
                          in if signature \<noteq> expectedSignature then (Inl ErrInvalidCredentials, st1)
                             else (Inr (sigv4_principal user signedHeaders payloadHash), st1))"

definition SigV4_Authenticate :: "SigV4Authenticator \<Rightarrow> authenticator" where
  "SigV4_Authenticate s r st =
     (let authHeader = header_Get r ''Authorization'' in
      if authHeader \<noteq> [] then
        (if HasPrefix authHeader sigV4Algorithm then authenticateHeader s r st else (Inl ErrNotApplicable, st))
      else if query_Get r ''X-Amz-Algorithm'' \<noteq> [] then authenticateQuery s r st
      else (Inl ErrNotApplicable, st))"

section \<open>Signing\<close>

definition values_Set :: "url_values \<Rightarrow> string \<Rightarrow> string \<Rightarrow> url_values" where
  "values_Set vs name value = AList.update name [value] vs"

definition header_Set :: "request \<Rightarrow> string \<Rightarrow> string \<Rightarrow> request" where
  "header_Set r name value = r\<lparr>r_Header := values_Set (r_Header r) (ToLower name) value\<rparr>"

definition credential_of :: "string \<Rightarrow> string \<Rightarrow> string \<Rightarrow> string \<Rightarrow> string" where
  "credential_of accessKeyID date region service =
     accessKeyID @ ''/'' @ date @ ''/'' @ region @ ''/'' @ service @ ''/'' @ sigV4Terminator"

definition SignRequestAt ::
  "(bytes \<Rightarrow> bytes) \<Rightarrow> request \<Rightarrow> string \<Rightarrow> string \<Rightarrow> string \<Rightarrow> string \<Rightarrow> string list \<Rightarrow> string \<Rightarrow> gotime \<Rightarrow> request" where
  "SignRequestAt H r0 accessKeyID secretKey region service signedHeaders payloadHash0 now =
     (let payloadHash = (if payloadHash0 = [] then unsignedPayload else payloadHash0);
          timestamp = Format_compact now;
          date = Format_date now;
          r1 = header_Set r0 ''X-Amz-Date'' timestamp;
          r2 = (if header_Get r1 ''Host'' = [] \<and> r_Host r1 \<noteq> [] then header_Set r1 ''Host'' (r_Host r1) else r1);
          r3 = (if payloadHash \<noteq> unsignedPayload then header_Set r2 ''X-Amz-Content-SHA256'' payloadHash else r2);
          signedHeadersStr = join_with '';'' signedHeaders;
          credential = credential_of accessKeyID date region service;
          stringToSign = buildStringToSign H timestamp credential (buildCanonicalRequest r3 signedHeadersStr payloadHash);
          signature = computeSignature H secretKey date region service stringToSign
      in header_Set r3 ''Authorization''
           (sigV4Algorithm @ '' Credential='' @ credential @ '', SignedHeaders='' @ signedHeadersStr @ '', Signature='' @ signature))"

text \<open>
  \<open>PresignRequest\<close>.  \<open>int(expires.Seconds())\<close> is the duration rounded towards zero: below \<open>2 ^ 23\<close> seconds
  a \<open>float64\<close> holds every multiple of a nanosecond closely enough for the truncation to be exact.
\<close>

definition query_Set :: "request \<Rightarrow> string \<Rightarrow> string \<Rightarrow> request" where
  "query_Set r name value = r\<lparr>r_Query := values_Set (r_Query r) name value\<rparr>"

definition PresignRequest ::
  "(bytes \<Rightarrow> bytes) \<Rightarrow> request \<Rightarrow> string \<Rightarrow> string \<Rightarrow> string \<Rightarrow> string \<Rightarrow> int \<Rightarrow> time \<Rightarrow> request" where
  "PresignRequest H r0 accessKeyID secretKey region service expires now =
     (let r1 = (if header_Get r0 ''Host'' = [] \<and> r_Host r0 \<noteq> [] then header_Set r0 ''Host'' (r_Host r0) else r0);
          timestamp = Format_compact (UTC now);
          date = Format_date (UTC now);
          credential = credential_of accessKeyID date region service;
          expiresSeconds = (if expires < second then 900 else expires div second);
          r2 = query_Set (query_Set (query_Set (query_Set (query_Set r1 ''X-Amz-Algorithm'' sigV4Algorithm)
                 ''X-Amz-Credential'' credential) ''X-Amz-Date'' timestamp) ''X-Amz-Expires'' (Itoa expiresSeconds))
                 ''X-Amz-SignedHeaders'' ''host'';
          r3 = (if r_Method r2 = ''PUT'' \<and> query_Get r2 ''X-Amz-Content-SHA256'' = []
                then query_Set r2 ''X-Amz-Content-SHA256'' unsignedPayload else r2);
          payloadHash = (if query_Get r3 ''X-Amz-Content-SHA256'' = [] then unsignedPayload
                         else query_Get r3 ''X-Amz-Content-SHA256'');
          stringToSign = buildStringToSign H timestamp credential (buildCanonicalRequestForQuery r3 ''host'' payloadHash);
          signature = computeSignature H secretKey date region service stringToSign
      in query_Set r3 ''X-Amz-Signature'' signature)"

end
