(* ===== verification/Auth.thy ===== *)
theory Auth
  imports SigV4
begin

text \<open>
  The rest of \<open>internal/auth\<close>: issuing tokens (\<open>token.go\<close>), bearer authentication (\<open>bearer.go\<close>), development
  mode (\<open>dev.go\<close>), the chain of authenticators (\<open>authenticator.go\<close>) and the two middlewares
  (\<open>middleware.go\<close>), with the chain the server builds (\<open>cmd/server/app.go\<close>).  \<open>rand.Read\<close> and \<open>uuid.New\<close> are
  parameters: \<open>draw i n\<close> is what the \<open>i\<close>-th read of \<open>n\<close> random bytes gives, None its error.
\<close>

section \<open>\<open>token.go\<close>\<close>

type_synonym entropy = "nat \<Rightarrow> nat \<Rightarrow> bytes option"

definition tokenPrefix :: string where "tokenPrefix = ''fbsa_''"
definition sigV4Prefix :: string where "sigV4Prefix = ''fbsv4_''"

record IssuedToken =
  it_AccessKeyID :: string
  it_RawToken :: string
  it_SecretHash :: string

record SigV4Credentials =
  sc_AccessKeyID :: string
  sc_SecretKey :: string

definition generateID :: "entropy \<Rightarrow> nat \<Rightarrow> string \<Rightarrow> string result" where
  "generateID draw i p =
     (case draw i 16 of None \<Rightarrow> Inl ErrIO | Some b \<Rightarrow> Inr (p @ hex_Encode b))"

definition generateAccessKeyID :: "entropy \<Rightarrow> nat \<Rightarrow> string result" where
  "generateAccessKeyID draw i = generateID draw i tokenPrefix"

definition generateSecret :: "entropy \<Rightarrow> nat \<Rightarrow> string result" where
  "generateSecret draw i =
     (case draw i 32 of None \<Rightarrow> Inl ErrIO | Some b \<Rightarrow> Inr (RawURLEncoding_Encode b))"

definition hashSecret :: "(bytes \<Rightarrow> bytes) \<Rightarrow> string \<Rightarrow> string" where
  "hashSecret H secret = hex_Encode (H secret)"

definition verifySecret :: "(bytes \<Rightarrow> bytes) \<Rightarrow> string \<Rightarrow> string \<Rightarrow> bool" where
  "verifySecret H secret storedHex =
     (case hex_Decode storedHex of None \<Rightarrow> False | Some expected \<Rightarrow> H secret = expected)"

definition IssueBearerToken :: "(bytes \<Rightarrow> bytes) \<Rightarrow> entropy \<Rightarrow> IssuedToken result" where
  "IssueBearerToken H draw =
     (case generateAccessKeyID draw 0 of
        Inl e \<Rightarrow> Inl e
      | Inr accessKeyID \<Rightarrow>
          (case generateSecret draw 1 of
             Inl e \<Rightarrow> Inl e
           | Inr secret \<Rightarrow> Inr \<lparr>it_AccessKeyID = accessKeyID, it_RawToken = accessKeyID @ ''.'' @ secret,
               it_SecretHash = hashSecret H secret\<rparr>))"

definition IssueSigV4Credentials :: "entropy \<Rightarrow> SigV4Credentials result" where
  "IssueSigV4Credentials draw =
     (case generateID draw 2 sigV4Prefix of
        Inl e \<Rightarrow> Inl e
      | Inr accessKeyID \<Rightarrow>
          (case generateSecret draw 3 of
             Inl e \<Rightarrow> Inl e
           | Inr secretKey \<Rightarrow> Inr \<lparr>sc_AccessKeyID = accessKeyID, sc_SecretKey = secretKey\<rparr>))"

definition createUserCredentials ::
  "(bytes \<Rightarrow> bytes) \<Rightarrow> entropy \<Rightarrow> string \<Rightarrow> db_env \<Rightarrow> (User \<Rightarrow> db \<Rightarrow> unit result \<times> db) \<Rightarrow> string \<Rightarrow> Role
     \<Rightarrow> db \<Rightarrow> (IssuedToken \<times> SigV4Credentials \<times> User) result \<times> db" where
  "createUserCredentials H draw uuid env createUser displayName role st =
     (case IssueBearerToken H draw of
        Inl e \<Rightarrow> (Inl e, st)
      | Inr issued \<Rightarrow>
          (case IssueSigV4Credentials draw of
             Inl e \<Rightarrow> (Inl e, st)
           | Inr creds \<Rightarrow>
               let now = Now env st;
                   user = \<lparr>u_ID = uuid, u_DisplayName = displayName, u_AccessKeyID = it_AccessKeyID issued,
                     u_SecretHash = it_SecretHash issued, u_SigV4AccessKeyID = sc_AccessKeyID creds,
                     u_SigV4SecretKey = sc_SecretKey creds, u_Role = role, u_IsActive = True,
                     u_CreatedAt = now, u_UpdatedAt = now\<rparr>
               in case createUser user st of
                    (Inl e, st1) \<Rightarrow> (Inl e, st1)
                  | (Inr u, st1) \<Rightarrow> (Inr (issued, creds, user\<lparr>u_SecretHash := [], u_SigV4SecretKey := []\<rparr>), st1)))"

definition CreateBearerToken ::
  "(bytes \<Rightarrow> bytes) \<Rightarrow> entropy \<Rightarrow> string \<Rightarrow> db_env \<Rightarrow> string \<Rightarrow> Role \<Rightarrow> db \<Rightarrow> (IssuedToken \<times> SigV4Credentials \<times> User) result \<times> db" where
  "CreateBearerToken H draw uuid env displayName role = createUserCredentials H draw uuid env (user_Create env) displayName role"

definition CreateFirstAdmin ::
  "(bytes \<Rightarrow> bytes) \<Rightarrow> entropy \<Rightarrow> string \<Rightarrow> db_env \<Rightarrow> string \<Rightarrow> db \<Rightarrow> (IssuedToken \<times> SigV4Credentials \<times> User) result \<times> db" where
  "CreateFirstAdmin H draw uuid env displayName =
     createUserCredentials H draw uuid env (CreateFirstUser env)
       (if displayName = [] then ''Initial Admin'' else displayName) RoleAdmin"

section \<open>\<open>bearer.go\<close>\<close>

text \<open>\<open>strings.Fields\<close>: the maximal runs without white space.  No encoding of a space lies inside another rune.\<close>

fun fields_loop :: "nat \<Rightarrow> string \<Rightarrow> string \<Rightarrow> string list" where
  "fields_loop skip cur [] = (if cur = [] then [] else [rev cur])"
| "fields_loop (Suc n) cur (c # cs) = fields_loop n cur cs"
| "fields_loop 0 cur (c # cs) =
     (case find (\<lambda>e. prefix e (c # cs)) space_encodings of
        Some e \<Rightarrow> (if cur = [] then [] else [rev cur]) @ fields_loop (length e - 1) [] cs
      | None \<Rightarrow> fields_loop 0 (c # cur) cs)"

definition Fields :: "string \<Rightarrow> string list" where
  "Fields s = fields_loop 0 [] s"

definition bearer_principal :: "User \<Rightarrow> Principal" where
  "bearer_principal user = \<lparr>p_UserID = u_ID user, p_DisplayName = u_DisplayName user, p_AccessKeyID = u_AccessKeyID user,
     p_Role = u_Role user, p_DevMode = False, p_SignedHeaders = [], p_SignedPayloadHash = []\<rparr>"

definition Bearer_Authenticate :: "(bytes \<Rightarrow> bytes) \<Rightarrow> db_env \<Rightarrow> authenticator" where
  "Bearer_Authenticate H env r st =
     (let authHeader = header_Get r ''Authorization'' in
      if authHeader = [] then (Inl ErrNotApplicable, st)
      else let fs = Fields authHeader in
        if 0 < length fs \<and> \<not> EqualFold (hd fs) ''Bearer'' then (Inl ErrNotApplicable, st)
        else if length fs \<noteq> 2 then (Inl ErrMalformedToken, st)
        else case cut_at (CHR ''.'') (fs ! 1) of (accessKeyID, secret, found) \<Rightarrow>
          if \<not> found \<or> accessKeyID = [] \<or> secret = [] then (Inl ErrMalformedToken, st)
          else case GetByAccessKeyID env accessKeyID st of
            (Inl err, st1) \<Rightarrow> (Inl (lookup_error err), st1)
          | (Inr user, st1) \<Rightarrow>
              if \<not> verifySecret H secret (u_SecretHash user) then (Inl ErrInvalidCredentials, st1)
              else if \<not> u_IsActive user then (Inl ErrInactiveUser, st1)
              else (Inr (bearer_principal user), st1))"

section \<open>\<open>dev.go\<close>\<close>

fun last_index :: "char \<Rightarrow> string \<Rightarrow> nat option" where
  "last_index c [] = None"
| "last_index c (x # xs) =
     (case last_index c xs of Some i \<Rightarrow> Some (Suc i) | None \<Rightarrow> if x = c then Some 0 else None)"

text \<open>\<open>net.SplitHostPort\<close>.\<close>

definition SplitHostPort :: "string \<Rightarrow> (string \<times> string) option" where
  "SplitHostPort hostport =
     (case last_index (CHR '':'') hostport of
        None \<Rightarrow> None
      | Some i \<Rightarrow>
          if hd hostport = CHR ''['' then
            (case position hostport (CHR '']'') of
               None \<Rightarrow> None
             | Some e \<Rightarrow>
                 if e + 1 \<noteq> i then None
                 else if CHR ''['' \<in> set (drop 1 hostport) \<or> CHR '']'' \<in> set (drop (e + 1) hostport) then None
                 else Some (take (e - 1) (drop 1 hostport), drop (i + 1) hostport))
          else if CHR '':'' \<in> set (take i hostport) then None
          else if CHR ''['' \<in> set hostport \<or> CHR '']'' \<in> set hostport then None
          else Some (take i hostport, drop (i + 1) hostport))"

definition Trim_brackets :: "string \<Rightarrow> string" where
  "Trim_brackets s =
     (let b = (\<lambda>c. c = CHR ''['' \<or> c = CHR '']'') in rev (dropWhile b (rev (dropWhile b s))))"

definition ValidateDevMode :: "string \<Rightarrow> bool \<Rightarrow> bool" where
  "ValidateDevMode httpAddr devMode =
     (if \<not> devMode then True
      else case SplitHostPort httpAddr of
        None \<Rightarrow> False
      | Some (host, port) \<Rightarrow>
          let h = Trim_brackets host in h = ''127.0.0.1'' \<or> h = ''localhost'' \<or> h = ''::1'')"

definition Dev_Authenticate :: authenticator where
  "Dev_Authenticate r st =
     (Inr \<lparr>p_UserID = ''dev-user'', p_DisplayName = ''Development User'', p_AccessKeyID = ''dev'',
           p_Role = RoleAdmin, p_DevMode = True, p_SignedHeaders = [], p_SignedPayloadHash = []\<rparr>, st)"

section \<open>\<open>authenticator.go\<close>\<close>

fun chain_loop :: "authenticator list \<Rightarrow> auth_error option \<Rightarrow> authenticator" where
  "chain_loop [] authErr r st =
     (Inl (case authErr of
             Some e \<Rightarrow> e
           | None \<Rightarrow> if header_Get r ''Authorization'' \<noteq> [] then ErrUnsupportedScheme else ErrMissingAuth), st)"
| "chain_loop (a # as) authErr r st =
     (case a r st of
        (Inr p, st1) \<Rightarrow> (Inr p, st1)
      | (Inl e, st1) \<Rightarrow>
          chain_loop as (if e = ErrNotApplicable then authErr else if authErr = None then Some e else authErr) r st1)"

definition Chain_Authenticate :: "authenticator list \<Rightarrow> authenticator" where
  "Chain_Authenticate authenticators = chain_loop authenticators None"

definition newAuthChain :: "bool \<Rightarrow> SigV4Authenticator \<Rightarrow> authenticator list" where
  "newAuthChain devMode s =
     (if devMode then [Dev_Authenticate] else []) @ [Bearer_Authenticate (sa_H s) (sa_env s), SigV4_Authenticate s]"

section \<open>\<open>middleware.go\<close>\<close>

text \<open>
  A handler after the middlewares: \<open>onError\<close> answers, or the request goes on with the principal.
  \<open>LogInternalErrors\<close> only adds a log line.
\<close>

definition RequireAuthentication ::
  "authenticator \<Rightarrow> (request \<Rightarrow> auth_error \<Rightarrow> 'e) \<Rightarrow> (request \<Rightarrow> world \<Rightarrow> ('e + 'a) \<times> world)
     \<Rightarrow> request \<Rightarrow> world \<Rightarrow> ('e + 'a) \<times> world" where
  "RequireAuthentication authenticate onError next r w =
     (case authenticate r (w_db w) of
        (Inl err, s) \<Rightarrow> (Inl (onError r err), w\<lparr>w_db := s\<rparr>)
      | (Inr p, s) \<Rightarrow> next (r\<lparr>r_Principal := Some p\<rparr>) (w\<lparr>w_db := s\<rparr>))"

definition RequireRole ::
  "Role \<Rightarrow> (request \<Rightarrow> auth_error \<Rightarrow> 'e) \<Rightarrow> (request \<Rightarrow> world \<Rightarrow> ('e + 'a) \<times> world)
     \<Rightarrow> request \<Rightarrow> world \<Rightarrow> ('e + 'a) \<times> world" where
  "RequireRole role onError next r w =
     (case r_Principal r of
        None \<Rightarrow> (Inl (onError r ErrUnauthorized), w)
      | Some p \<Rightarrow> if p_Role p \<noteq> role then (Inl (onError r ErrForbidden), w) else next r w)"

text \<open>\<open>writeS3AuthError\<close> of \<open>cmd/server/router.go\<close>; the responses carry the status and code, and a missing
  header is answered with a challenge.\<close>

definition writeS3AuthError :: "request \<Rightarrow> auth_error \<Rightarrow> response" where
  "writeS3AuthError r err =
     (if err = ErrMissingAuth then
        (let resp = WriteS3Error r 401 AccessDenied in
         resp\<lparr>rheaders := (''WWW-Authenticate'', ''Bearer realm='' @ [CHR 0x22] @ ''fbs'' @ [CHR 0x22]) # rheaders resp\<rparr>)
      else if err = ErrInactiveUser \<or> err = ErrForbidden then WriteS3Error r 403 AccessDenied
      else if err = ErrInternal then WriteS3Error r 500 InternalError
      else WriteS3Error r 401 AccessDenied)"

end
