(* ===== verification/Config.thy ===== *)
theory Config
  imports Auth "HOL-Library.AList"
begin

text \<open>
  \<open>internal/config/config.go\<close>: the settings of the server, read from the environment and from command line
  flags and then validated.  \<open>os.LookupEnv\<close> is the argument \<open>lookup\<close>, \<open>os.Args[1:]\<close> the argument \<open>argv\<close>.
  \<open>time.ParseDuration\<close> and \<open>url.ParseRequestURI\<close> are parameters, since only what they accept and the value of the
  first matter here.  The flag set of the \<open>flag\<close> package is written out.  Durations are nanoseconds.
\<close>

section \<open>Settings\<close>

definition duration_seconds :: "int \<Rightarrow> int" where
  "duration_seconds n = n * second"

record Config =
  HTTPAddr :: string
  DBPath :: string
  DataDir :: string
  DevMode :: bool
  PublicBaseURL :: string
  MetadataCacheSizeBytes :: int
  S3CacheControl :: string
  PublicReadSigningSecret :: string
  PublicReadDefaultTTL :: int
  PublicReadMaxTTL :: int
  CORSAllowedOrigins :: "string list"
  ReadTimeout :: int
  WriteTimeout :: int
  IdleTimeout :: int
  ShutdownTimeout :: int
  MultipartTTL :: int
  MultipartCleanupInterval :: int

definition defaultCORSAllowedOrigins :: "string list" where
  "defaultCORSAllowedOrigins =
     [''http://localhost:3000'', ''http://127.0.0.1:3000'', ''http://localhost:5173'', ''http://127.0.0.1:5173'']"

definition Default :: Config where
  "Default = \<lparr>
     HTTPAddr = ''127.0.0.1:9000'',
     DBPath = ''./fbs.db'',
     DataDir = ''./data'',
     DevMode = False,
     PublicBaseURL = [],
     MetadataCacheSizeBytes = 512 * 1024 * 1024,
     S3CacheControl = ''private, max-age=0, must-revalidate'',
     PublicReadSigningSecret = [],
     PublicReadDefaultTTL = duration_seconds 3600,
     PublicReadMaxTTL = duration_seconds (24 * 3600),
     CORSAllowedOrigins = defaultCORSAllowedOrigins,
     ReadTimeout = duration_seconds 15,
     WriteTimeout = duration_seconds 30,
     IdleTimeout = duration_seconds 60,
     ShutdownTimeout = duration_seconds 10,
     MultipartTTL = duration_seconds (24 * 3600),
     MultipartCleanupInterval = duration_seconds 3600\<rparr>"

section \<open>Validation\<close>

datatype config_error =
    ParseEnv string | ParseFlags | ParseCacheSize
  | HTTPAddrRequired | DBPathRequired | DataDirRequired | NegativeCacheSize | InvalidBaseURL
  | ShortSigningSecret | NonPositivePublicTTL | DefaultTTLExceedsMax | NoCORSOrigin | NonPositiveTimeout
  | NonPositiveMultipartTTL | NonPositiveCleanupInterval | ShortCleanupInterval | DevModeNotLoopback

record parsers =
  ParseDuration :: "string \<Rightarrow> int option"
  ParseRequestURI :: "string \<Rightarrow> bool"

definition Validate :: "parsers \<Rightarrow> Config \<Rightarrow> config_error option" where
  "Validate P c =
     (if HTTPAddr c = [] then Some HTTPAddrRequired
      else if DBPath c = [] then Some DBPathRequired
      else if DataDir c = [] then Some DataDirRequired
      else if MetadataCacheSizeBytes c < 0 then Some NegativeCacheSize
      else if PublicBaseURL c \<noteq> [] \<and> \<not> ParseRequestURI P (PublicBaseURL c) then Some InvalidBaseURL
      else if TrimSpace (PublicReadSigningSecret c) \<noteq> [] \<and> length (TrimSpace (PublicReadSigningSecret c)) < 32
      then Some ShortSigningSecret
      else if PublicReadDefaultTTL c \<le> 0 \<or> PublicReadMaxTTL c \<le> 0 then Some NonPositivePublicTTL
      else if PublicReadDefaultTTL c > PublicReadMaxTTL c then Some DefaultTTLExceedsMax
      else if CORSAllowedOrigins c = [] then Some NoCORSOrigin
      else if ReadTimeout c \<le> 0 \<or> WriteTimeout c \<le> 0 \<or> IdleTimeout c \<le> 0 \<or> ShutdownTimeout c \<le> 0
      then Some NonPositiveTimeout
      else if MultipartTTL c \<le> 0 then Some NonPositiveMultipartTTL
      else if MultipartCleanupInterval c \<le> 0 then Some NonPositiveCleanupInterval
      else if MultipartCleanupInterval c < duration_seconds 60 then Some ShortCleanupInterval
      else if DevMode c \<and> \<not> ValidateDevMode (HTTPAddr c) (DevMode c) then Some DevModeNotLoopback
      else None)"

section \<open>Environment\<close>

type_synonym environ = "string \<Rightarrow> string option"

definition envRawOrDefault :: "environ \<Rightarrow> string \<Rightarrow> string \<Rightarrow> string" where
  "envRawOrDefault lookup key fallback = (case lookup key of None \<Rightarrow> fallback | Some v \<Rightarrow> v)"

definition envOrDefault :: "environ \<Rightarrow> string \<Rightarrow> string \<Rightarrow> string" where
  "envOrDefault lookup key fallback =
     (case lookup key of
        None \<Rightarrow> fallback
      | Some v \<Rightarrow> if TrimSpace v = [] then fallback else TrimSpace v)"

definition durationFromEnv :: "parsers \<Rightarrow> environ \<Rightarrow> string \<Rightarrow> int \<Rightarrow> config_error + int" where
  "durationFromEnv P lookup key fallback =
     (case lookup key of
        None \<Rightarrow> Inr fallback
      | Some v \<Rightarrow>
          if TrimSpace v = [] then Inr fallback
          else case ParseDuration P (TrimSpace v) of None \<Rightarrow> Inl (ParseEnv key) | Some d \<Rightarrow> Inr d)"

text \<open>
  The units of \<open>parseByteSize\<close>.  The source ranges over a map, in no fixed order; no suffix ends another, so at most
  one matches and the order does not matter.
\<close>

definition units :: "(string \<times> int) list" where
  "units =
     [(''KiB'', 1024), (''MiB'', 1024 * 1024), (''GiB'', 1024 * 1024 * 1024),
      (''KB'', 1000), (''MB'', 1000 * 1000), (''GB'', 1000 * 1000 * 1000)]"

definition parseByteSize :: "string \<Rightarrow> int option" where
  "parseByteSize v =
     (let trimmed = TrimSpace v in
      if trimmed = [] then None
      else let (multiplier, num) =
             (case find (\<lambda>(sfx, m). HasSuffix trimmed sfx) units of
                None \<Rightarrow> (1, trimmed)
              | Some (sfx, m) \<Rightarrow> (m, TrimSpace (TrimSuffix trimmed sfx)))
        in if num = [] then None
           else case ParseInt num of
             None \<Rightarrow> None
           | Some n \<Rightarrow>
               if n < 0 then None
               else if n > (2 ^ 63 - 1) div multiplier then None
               else Some (n * multiplier))"

definition byteSizeFromEnv :: "environ \<Rightarrow> string \<Rightarrow> int \<Rightarrow> config_error + int" where
  "byteSizeFromEnv lookup key fallback =
     (case lookup key of
        None \<Rightarrow> Inr fallback
      | Some v \<Rightarrow>
          if TrimSpace v = [] then Inr fallback
          else case parseByteSize v of None \<Rightarrow> Inl (ParseEnv key) | Some n \<Rightarrow> Inr n)"

definition splitCSV :: "string \<Rightarrow> string list" where
  "splitCSV v = filter (\<lambda>s. s \<noteq> []) (map TrimSpace (split_on (CHR '','') v))"

text \<open>\<open>strconv.ParseBool\<close>.\<close>

definition ParseBool :: "string \<Rightarrow> bool option" where
  "ParseBool s =
     (if s \<in> set [''1'', ''t'', ''T'', ''true'', ''TRUE'', ''True''] then Some True
      else if s \<in> set [''0'', ''f'', ''F'', ''false'', ''FALSE'', ''False''] then Some False
      else None)"

definition boolFromEnvStrict :: "environ \<Rightarrow> string \<Rightarrow> bool \<Rightarrow> config_error + bool" where
  "boolFromEnvStrict lookup key fallback =
     (case lookup key of
        None \<Rightarrow> Inr fallback
      | Some v \<Rightarrow>
          if TrimSpace v = [] then Inr fallback
          else case ParseBool (TrimSpace v) of None \<Rightarrow> Inl (ParseEnv key) | Some b \<Rightarrow> Inr b)"

section \<open>Flags\<close>

text \<open>
  The flag variables by kind, each list the flags of that kind with their present values, and \<open>FlagSet.Parse\<close> on
  them: an argument that is not a flag, or \<open>--\<close>, ends the flags; \<open>-x=v\<close> and \<open>-x v\<close> give a value; a boolean flag needs
  none.  \<open>None\<close> is any of the errors (\<open>flag.ErrHelp\<close> included).
\<close>

record flag_vars =
  fv_strings :: "(string \<times> string) list"
  fv_bools :: "(string \<times> bool) list"
  fv_durations :: "(string \<times> int) list"

definition set_flag :: "parsers \<Rightarrow> string \<Rightarrow> string \<Rightarrow> flag_vars \<Rightarrow> flag_vars option" where
  "set_flag P name v vars =
     (if name \<in> fst ` set (fv_strings vars) then Some (vars\<lparr>fv_strings := AList.update name v (fv_strings vars)\<rparr>)
      else if name \<in> fst ` set (fv_bools vars) then
        map_option (\<lambda>b. vars\<lparr>fv_bools := AList.update name b (fv_bools vars)\<rparr>) (ParseBool v)
      else if name \<in> fst ` set (fv_durations vars) then
        map_option (\<lambda>d. vars\<lparr>fv_durations := AList.update name d (fv_durations vars)\<rparr>) (ParseDuration P v)
      else None)"

definition flag_text :: "string \<Rightarrow> string" where
  "flag_text s = (if HasPrefix s ''--'' then drop 2 s else drop 1 s)"

fun flag_Parse :: "parsers \<Rightarrow> string list \<Rightarrow> flag_vars \<Rightarrow> flag_vars option" where
  "flag_Parse P [] vars = Some vars"
| "flag_Parse P (s # args) vars =
     (if length s < 2 \<or> \<not> HasPrefix s ''-'' \<or> s = ''--'' then Some vars
      else if flag_text s = [] \<or> HasPrefix (flag_text s) ''-'' \<or> HasPrefix (flag_text s) ''='' then None
      else case cut_at (CHR ''='') (flag_text s) of
        (name, v, True) \<Rightarrow> (case set_flag P name v vars of None \<Rightarrow> None | Some vars1 \<Rightarrow> flag_Parse P args vars1)
      | (name, v, False) \<Rightarrow>
          if name \<in> fst ` set (fv_bools vars) then
            (case set_flag P name ''true'' vars of None \<Rightarrow> None | Some vars1 \<Rightarrow> flag_Parse P args vars1)
          else case args of
            [] \<Rightarrow> None
          | a # rest \<Rightarrow> (case set_flag P name a vars of None \<Rightarrow> None | Some vars1 \<Rightarrow> flag_Parse P rest vars1))"

definition flag_value :: "(string \<times> 'v) list \<Rightarrow> string \<Rightarrow> 'v" where
  "flag_value vs name = the (map_of vs name)"

section \<open>\<open>Load\<close>\<close>

definition config_of :: "flag_vars \<Rightarrow> int \<Rightarrow> Config" where
  "config_of vars cacheSize =
     (let s = flag_value (fv_strings vars); d = flag_value (fv_durations vars) in \<lparr>
        HTTPAddr = TrimSpace (s ''http-addr''),
        DBPath = TrimSpace (s ''db-path''),
        DataDir = TrimSpace (s ''data-dir''),
        DevMode = flag_value (fv_bools vars) ''dev'',
        PublicBaseURL = TrimSpace (s ''public-base-url''),
        MetadataCacheSizeBytes = cacheSize,
        S3CacheControl = TrimSpace (s ''s3-cache-control''),
        PublicReadSigningSecret = TrimSpace (s ''public-read-signing-secret''),
        PublicReadDefaultTTL = d ''public-read-default-ttl'',
        PublicReadMaxTTL = d ''public-read-max-ttl'',
        CORSAllowedOrigins = splitCSV (s ''cors-allowed-origins''),
        ReadTimeout = d ''read-timeout'',
        WriteTimeout = d ''write-timeout'',
        IdleTimeout = d ''idle-timeout'',
        ShutdownTimeout = d ''shutdown-timeout'',
        MultipartTTL = d ''multipart-ttl'',
        MultipartCleanupInterval = d ''multipart-cleanup-interval''\<rparr>)"

definition bind_sum :: "'e + 'a \<Rightarrow> ('a \<Rightarrow> 'e + 'b) \<Rightarrow> 'e + 'b" where
  "bind_sum m f = (case m of Inl e \<Rightarrow> Inl e | Inr x \<Rightarrow> f x)"

definition Load :: "parsers \<Rightarrow> environ \<Rightarrow> string list \<Rightarrow> config_error + Config" where
  "Load P lookup argv =
     (let defaults = Default; dur = durationFromEnv P lookup in
      bind_sum (dur ''FBS_READ_TIMEOUT'' (ReadTimeout defaults)) (\<lambda>readTimeout.
      bind_sum (dur ''FBS_WRITE_TIMEOUT'' (WriteTimeout defaults)) (\<lambda>writeTimeout.
      bind_sum (dur ''FBS_IDLE_TIMEOUT'' (IdleTimeout defaults)) (\<lambda>idleTimeout.
      bind_sum (dur ''FBS_SHUTDOWN_TIMEOUT'' (ShutdownTimeout defaults)) (\<lambda>shutdownTimeout.
      bind_sum (byteSizeFromEnv lookup ''FBS_METADATA_CACHE_SIZE'' (MetadataCacheSizeBytes defaults)) (\<lambda>metadataCacheSize.
      bind_sum (dur ''FBS_MULTIPART_TTL'' (MultipartTTL defaults)) (\<lambda>multipartTTL.
      bind_sum (dur ''FBS_PUBLIC_READ_DEFAULT_TTL'' (PublicReadDefaultTTL defaults)) (\<lambda>publicReadDefaultTTL.
      bind_sum (dur ''FBS_PUBLIC_READ_MAX_TTL'' (PublicReadMaxTTL defaults)) (\<lambda>publicReadMaxTTL.
      bind_sum (dur ''FBS_MULTIPART_CLEANUP_INTERVAL'' (MultipartCleanupInterval defaults)) (\<lambda>multipartCleanupInterval.
      bind_sum (boolFromEnvStrict lookup ''FBS_DEV'' (DevMode defaults)) (\<lambda>devMode.
      let vars = \<lparr>
        fv_strings =
          [(''http-addr'', envOrDefault lookup ''FBS_HTTP_ADDR'' (HTTPAddr defaults)),
           (''db-path'', envOrDefault lookup ''FBS_DB_PATH'' (DBPath defaults)),
           (''data-dir'', envOrDefault lookup ''FBS_DATA_DIR'' (DataDir defaults)),
           (''public-base-url'', envOrDefault lookup ''FBS_PUBLIC_BASE_URL'' (PublicBaseURL defaults)),
           (''metadata-cache-size'', Itoa metadataCacheSize),
           (''s3-cache-control'', envRawOrDefault lookup ''FBS_S3_CACHE_CONTROL'' (S3CacheControl defaults)),
           (''public-read-signing-secret'',
              envRawOrDefault lookup ''FBS_PUBLIC_READ_SIGNING_SECRET'' (PublicReadSigningSecret defaults)),
           (''cors-allowed-origins'',
              envOrDefault lookup ''FBS_CORS_ALLOWED_ORIGINS'' (join_with '','' (CORSAllowedOrigins defaults)))],
        fv_bools = [(''dev'', devMode)],
        fv_durations =
          [(''public-read-default-ttl'', publicReadDefaultTTL), (''public-read-max-ttl'', publicReadMaxTTL),
           (''read-timeout'', readTimeout), (''write-timeout'', writeTimeout), (''idle-timeout'', idleTimeout),
           (''shutdown-timeout'', shutdownTimeout), (''multipart-ttl'', multipartTTL),
           (''multipart-cleanup-interval'', multipartCleanupInterval)]\<rparr>
      in case flag_Parse P argv vars of
           None \<Rightarrow> Inl ParseFlags
         | Some vars1 \<Rightarrow>
             (case parseByteSize (flag_value (fv_strings vars1) ''metadata-cache-size'') of
                None \<Rightarrow> Inl ParseCacheSize
              | Some cacheSize \<Rightarrow>
                  let cfg = config_of vars1 cacheSize in
                  (case Validate P cfg of Some e \<Rightarrow> Inl e | None \<Rightarrow> Inr cfg)))))))))))))"

end
