(* ===== verification/ConfigLaws.thy ===== *)
theory ConfigLaws
  imports Config
begin

text \<open>
  What the settings promise: byte sizes are read exactly or refused, an empty environment gives the defaults, and a
  configuration \<open>Load\<close> returns has passed \<open>Validate\<close>.
\<close>

section \<open>Byte sizes\<close>

lemma ParseInt_digits:
  assumes "0 \<le> n"
  shows "ParseInt (Itoa n) = (if n < 2 ^ 63 then Some n else None)"
proof (cases "n < 2 ^ 63")
  case True
  with assms show ?thesis by (simp add: ParseInt_Itoa)
next
  case False
  have ds: "list_all is_digit (nat_digits (nat n))" "digits_val (nat_digits (nat n)) = n"
    using nat_digits_props [of "nat n"] assms by auto
  obtain c r where c: "nat_digits (nat n) = c # r"
    using nat_digits_props [of "nat n"] by (cases "nat_digits (nat n)") auto
  with ds have "c \<noteq> CHR ''-''" "c \<noteq> CHR ''+''" using is_digit_graphic [of c] by auto
  with ds c False assms show ?thesis by (simp add: ParseInt_def Itoa_def)
qed

lemma graphic_Itoa: "c \<in> set (Itoa n) \<Longrightarrow> graphic c"
  using Itoa_chars [of c n] is_digit_graphic [of c] by (auto simp: graphic_def)

lemma TrimSpace_Itoa_unit:
  assumes "u = [] \<or> graphic (last u)"
  shows "TrimSpace (Itoa n @ u) = Itoa n @ u"
proof -
  have "graphic (hd (Itoa n))" "graphic (last (Itoa n))"
    using Itoa_ne [of n] hd_in_set last_in_set graphic_Itoa by blast+
  with assms Itoa_ne [of n] show ?thesis
    by (intro TrimSpace_id) (auto simp: hd_append last_append)
qed

lemma Itoa_not_suffix:
  assumes "x \<noteq> []" and "\<not> is_digit (last x)" and "last x \<noteq> CHR ''-''"
  shows "\<not> suffix x (Itoa n)"
proof
  assume "suffix x (Itoa n)"
  with assms(1) have "last x \<in> set (Itoa n)" by (auto simp: suffix_def)
  with Itoa_chars assms show False by blast
qed

lemma find_unit:
  assumes "(u, m) \<in> set units"
  shows "find (\<lambda>(sfx, m). HasSuffix (Itoa n @ u) sfx) units = Some (u, m)"
proof -
  have "(u, m) = x \<Longrightarrow> x \<in> set units \<Longrightarrow> ?thesis" for x
    by (simp add: units_def) (elim disjE; simp add: HasSuffix_def suffix_to_prefix)
  with assms show ?thesis by blast
qed

lemma find_no_unit: "find (\<lambda>(sfx, m). HasSuffix (Itoa n) sfx) units = None"
  by (simp add: units_def HasSuffix_def Itoa_not_suffix is_digit_def)

lemma find_unit_or_none:
  assumes "(u, m) \<in> set (([], 1) # units)"
  shows "(case find (\<lambda>(sfx, m). HasSuffix (Itoa n @ u) sfx) units of
            None \<Rightarrow> (1, Itoa n @ u) | Some (sfx, m) \<Rightarrow> (m, TrimSpace (TrimSuffix (Itoa n @ u) sfx)))
         = (m, Itoa n)"
proof (cases "u = []")
  case True
  have "[] \<notin> fst ` set units" by (simp add: units_def)
  with True assms have "m = 1" by force
  with True find_no_unit [of n] show ?thesis by simp
next
  case False
  with assms have "(u, m) \<in> set units" by auto
  with find_unit show ?thesis by (simp add: TrimSuffix_def TrimSpace_Itoa suffixI)
qed

lemma units_graphic: "(u, m) \<in> set (([], 1) # units) \<Longrightarrow> (u = [] \<or> graphic (last u)) \<and> 0 < m"
  by (auto simp: units_def graphic_def)

lemma le_div_iff: "0 < m \<Longrightarrow> (n \<le> k div m) = (n * m \<le> (k :: int))"
proof
  assume "0 < m" and "n \<le> k div m"
  then have "n * m \<le> k div m * m" by (simp add: mult_right_mono)
  also have "\<dots> \<le> k" using \<open>0 < m\<close> pos_mod_sign [of m k] div_mult_mod_eq [of k m] by linarith
  finally show "n * m \<le> k" .
next
  assume "0 < m" and "n * m \<le> k"
  then show "n \<le> k div m" using zdiv_mono1 [of "n * m" k m] by simp
qed

text \<open>
  C33: \<open>parseByteSize\<close> reads a decimal number followed by any of the units as the exact product, and
  refuses it precisely when the product does not fit a signed 64-bit integer; so no size ever wraps around, whatever
  order the map of units is visited in.
\<close>

theorem byte_sizes_exact:
  assumes "0 \<le> n" and "(u, m) \<in> set (([], 1) # units)"
  shows "parseByteSize (Itoa n @ u) = (if n * m < 2 ^ 63 then Some (n * m) else None)"
proof -
  have m: "0 < m" and t: "TrimSpace (Itoa n @ u) = Itoa n @ u"
    using units_graphic [OF assms(2)] TrimSpace_Itoa_unit by auto
  have le: "(n > (2 ^ 63 - 1) div m) = (\<not> n * m < 2 ^ 63)"
    using le_div_iff [OF m, of n "2 ^ 63 - 1"] by auto
  have big: "\<not> n < 2 ^ 63 \<Longrightarrow> \<not> n * m < 2 ^ 63"
    using m assms(1) by (smt (verit) mult_le_cancel_left1)
  show ?thesis
    using assms(1) big le Itoa_ne [of n]
    by (simp only: parseByteSize_def Let_def t find_unit_or_none [OF assms(2)] prod.case)
      (auto simp: ParseInt_digits)
qed

lemma byte_sizes_exact_witness:
  "parseByteSize ''512MiB'' = Some 536870912 \<and> parseByteSize ''9223372036854775807KB'' = None"
proof -
  have "Itoa 512 = ''512''" "Itoa 9223372036854775807 = ''9223372036854775807''"
    by (simp_all add: Itoa_def nat_digits.simps) (simp_all add: char_of_def bit_simps)
  then show ?thesis
    using byte_sizes_exact [of 512 "''MiB''" "1024 * 1024"] byte_sizes_exact [of 9223372036854775807 "''KB''" 1000]
    by (simp add: units_def)
qed

end
