(* ===== verification/StorageProofs.thy ===== *)
theory StorageProofs
  imports Storage
begin

text \<open>
  Correctness of the storage engine: path containment, durable writes under every pattern of
  failures, assembly of parts, and deletes.  The abstract view of the engine is \<open>blob\<close>, the
  content a storage path denotes.
\<close>

declare filepath_Join.simps [simp del]

section \<open>Path containment\<close>

definition engine_wf :: "engine \<Rightarrow> bool" where
  "engine_wf e \<longleftrightarrow> IsAbs (dataDir e) \<and> filepath_Clean (dataDir e) = dataDir e
     \<and> tmpDir e = filepath_Join [dataDir e, ''.tmp'']"

lemma Abs_of_abs: "IsAbs p \<Longrightarrow> filepath_Abs cwd p = filepath_Clean p"
  by (simp add: filepath_Abs_def)

lemma isWithinBase_iff:
  assumes "IsAbs base" and "IsAbs target"
  shows "isWithinBase env base target \<longleftrightarrow> prefix (path_comps base) (path_comps target)"
proof -
  obtain bs ts where st: "strip_common (path_comps base) (path_comps target) = (bs, ts)"
    by fastforce
  then obtain c where "path_comps target = c @ ts"
    using strip_common_spec by blast
  then have good: "\<forall>x\<in>set ts. good_elem x"
    using path_comps_good [of _ target] by auto
  have "isWithinBase env base target \<longleftrightarrow> length bs = 0"
    using rel_escapes_iff [OF good, of "length bs"] assms st
    by (auto simp: isWithinBase_def Abs_of_abs filepath_Rel_def IsAbs_Clean path_comps_Clean Let_def
        split: if_splits)
  also have "\<dots> \<longleftrightarrow> prefix (path_comps base) (path_comps target)"
    using strip_common_prefix [of "path_comps base" "path_comps target"] st by simp
  finally show ?thesis .
qed

lemma resolveStoragePath_Inr:
  assumes "engine_wf e" and "resolveStoragePath env e sp = Inr full"
  shows "IsAbs full" and "filepath_Clean full = full"
    and "prefix (path_comps (dataDir e)) (path_comps full)"
    and "path_comps full =
         clean_elems True (rev (path_comps (dataDir e))) (path_elems (filepath_Clean sp))"
proof -
  have abs: "IsAbs (dataDir e)" using assms(1) by (simp add: engine_wf_def)
  have full: "full = filepath_Clean (filepath_Join [dataDir e, filepath_Clean sp])"
    and within: "isWithinBase env (dataDir e) full"
    using assms(2) by (auto simp: resolveStoragePath_def Let_def split: if_splits)
  have join: "IsAbs (filepath_Join [dataDir e, filepath_Clean sp])"
    using abs by (rule IsAbs_Join)
  show "IsAbs full" "filepath_Clean full = full"
    using join by (simp_all add: full IsAbs_Clean Clean_Clean_abs)
  with within abs show "prefix (path_comps (dataDir e)) (path_comps full)"
    by (simp add: isWithinBase_iff)
  show "path_comps full =
        clean_elems True (rev (path_comps (dataDir e))) (path_elems (filepath_Clean sp))"
    using path_comps_Join [OF abs, of "[filepath_Clean sp]"] join
    by (simp add: full path_comps_Clean)
qed

lemma contains_slash_not_blank:
  assumes "CHR ''/'' \<in> set s"
  shows "TrimSpace s \<noteq> []"
proof -
  have keep: "c \<in> set s \<Longrightarrow> \<forall>x\<in>set encs. c \<notin> set x \<Longrightarrow> c \<in> set (strip_fuel n encs s)"
    for c :: char and encs n s
  proof (induction n arbitrary: s)
    case (Suc n)
    show ?case
    proof (cases "find (\<lambda>x. prefix x s) encs")
      case (Some x)
      then have x: "x \<in> set encs" "prefix x s" by (auto dest: find_SomeD)
      then obtain t where "s = x @ t" by (auto simp: prefix_def)
      with Suc.prems x have "c \<in> set t" by auto
      with Suc.IH [of t] Suc.prems(2) Some \<open>s = x @ t\<close> show ?thesis by simp
    qed (use Suc.prems in simp)
  qed simp
  have no: "\<forall>x\<in>set space_encodings. CHR ''/'' \<notin> set x"
    by (simp add: space_encodings_def)
  then have "\<forall>x\<in>set (map rev space_encodings). CHR ''/'' \<notin> set x" by simp
  then have "CHR ''/'' \<in> set (TrimSpace s)"
    unfolding TrimSpace_def Let_def by (auto intro!: keep assms no)
  then show ?thesis by auto
qed

text \<open>A storage path \<open>a/b/c\<close> of ordinary elements resolves to the path below the data directory.\<close>

lemma resolve_good_path:
  assumes wf: "engine_wf e" and good: "\<forall>x\<in>set es. good_elem x" and len: "2 \<le> length es"
  shows "\<exists>full. resolveStoragePath env e (join_with ''/'' es) = Inr full
               \<and> path_comps full = path_comps (dataDir e) @ es"
proof -
  let ?sp = "join_with ''/'' es"
  have abs: "IsAbs (dataDir e)" using wf by (simp add: engine_wf_def)
  obtain a b cs where es: "es = a # b # cs" using len by (auto simp: Suc_le_length_iff numeral_2_eq_2)
  have "good_elem a" using es good by simp
  then have a: "a \<noteq> []" "CHR ''/'' \<notin> set a" by (simp_all add: good_elem_def)
  have ne: "?sp \<noteq> []" using es a by simp
  from a have rel: "\<not> IsAbs ?sp" using es by (cases a) (simp_all add: IsAbs_def HasPrefix_def)
  have nb: "TrimSpace ?sp \<noteq> []"
    by (rule contains_slash_not_blank) (simp add: es)
  have "es \<noteq> []" using len by auto
  with ne rel good have clean: "filepath_Clean ?sp = ?sp"
    by (simp add: filepath_Clean_def Let_def path_elems_join_good clean_elems_good_id)
  define full where "full = filepath_Clean (filepath_Join [dataDir e, ?sp])"
  have join: "IsAbs (filepath_Join [dataDir e, ?sp])" using abs by (rule IsAbs_Join)
  have comps: "path_comps full = path_comps (dataDir e) @ es"
    using path_comps_Join_good [OF abs, of "[?sp]"] good join
    by (simp add: full_def path_comps_Clean path_elems_join_good del: join_with.simps)
  have "isWithinBase env (dataDir e) full"
    using join comps abs
    by (simp add: isWithinBase_iff IsAbs_Clean full_def del: join_with.simps)
  then have "resolveStoragePath env e ?sp = Inr full"
    using nb rel clean
    by (simp add: resolveStoragePath_def Let_def full_def del: join_with.simps)
  with comps show ?thesis by blast
qed

section \<open>Copying into a file\<close>

definition reader_bytes :: "reader \<Rightarrow> bytes" where
  "reader_bytes r = concat (map fst r)"

lemma reader_bytes_simps [simp]:
  "reader_bytes [] = []" "reader_bytes ((b, x) # r) = b @ reader_bytes r"
  by (simp_all add: reader_bytes_def)

lemma copyWithContext_nodes:
  "copyWithContext env dst src w d = ((n, r), d') \<Longrightarrow> q \<noteq> path_comps dst \<Longrightarrow>
   map_of (files d') q = map_of (files d) q"
proof (induction env dst src w d rule: copyWithContext.induct)
  case (1 env dst w d)
  then show ?case by (auto split: prod.splits dest!: ctx_err_files)
next
  case (2 env dst buf readErr src w d)
  obtain c d1 where c: "ctx_err env d = (c, d1)" by fastforce
  then have f1: "map_of (files d1) q = map_of (files d) q" by (auto dest: ctx_err_files)
  show ?case
  proof (cases "c = None \<and> buf \<noteq> []")
    case True
    obtain nw we d2 where wr: "os_Write env dst buf d1 = ((nw, we), d2)" by (metis surj_pair)
    then have f2: "map_of (files d2) q = map_of (files d1) q"
      using 2(4) by (rule os_Write_nodes)
    show ?thesis
      using 2(1) [OF c [symmetric]] 2(3,4) True c wr f1 f2
      by (auto simp: Let_def split: option.splits if_splits)
  next
    case False
    then show ?thesis
      using 2(2) [OF c [symmetric]] 2(3,4) c f1
      by (auto split: option.splits if_splits)
  qed
qed

lemma copyWithContext_frame:
  "copyWithContext env dst src w d = ((n, r), d') \<Longrightarrow> q \<noteq> path_comps dst \<Longrightarrow>
   file_at d' q = file_at d q"
  using copyWithContext_nodes by (simp add: file_at_def)

lemma copyWithContext_content:
  "copyWithContext env dst src w d = ((n, None), d') \<Longrightarrow> file_at d (path_comps dst) = Some c \<Longrightarrow>
   file_at d' (path_comps dst) = Some (c @ reader_bytes src) \<and> n = w + int (length (reader_bytes src))"
proof (induction env dst src w d arbitrary: c rule: copyWithContext.induct)
  case (1 env dst w d)
  obtain x d1 where "ctx_err env d = (x, d1)" by fastforce
  with 1 file_at_cong [of d1 d] show ?case by (auto dest: ctx_err_files)
next
  case (2 env dst buf readErr src w d)
  obtain x d1 where c: "ctx_err env d = (x, d1)" by fastforce
  then have f1: "file_at d1 (path_comps dst) = Some c"
    using 2(4) file_at_cong [of d1 d] by (auto dest: ctx_err_files)
  from 2(3) c have x: "x = None" by (auto split: option.splits)
  show ?case
  proof (cases "buf = []")
    case True
    with 2(3) c x have "readErr = None" "copyWithContext env dst src w d1 = ((n, None), d')"
      by (auto split: option.splits)
    with 2(2) [OF c [symmetric] x] True f1 show ?thesis by simp
  next
    case False
    obtain nw we d2 where wr: "os_Write env dst buf d1 = ((nw, we), d2)" by (metis surj_pair)
    from 2(3) c x False wr have ok: "we = None" "nw = length buf" "readErr = None"
        "copyWithContext env dst src (w + int nw) d2 = ((n, None), d')"
      by (auto simp: Let_def split: option.splits if_splits)
    from wr ok have f2: "file_at d2 (path_comps dst) = Some (c @ buf)"
      using f1 by (simp add: os_Write_file_at(1))
    show ?thesis
      using 2(1) [OF c [symmetric] x False wr [symmetric] refl] ok f2 by simp
  qed
qed

lemma copyWithContext_uuid:
  "copyWithContext env dst src w d = ((n, r), d') \<Longrightarrow> next_uuid d' = next_uuid d"
proof (induction env dst src w d rule: copyWithContext.induct)
  case (1 env dst w d)
  then show ?case by (auto split: prod.splits dest!: ctx_err_files)
next
  case (2 env dst buf readErr src w d)
  obtain c d1 where c: "ctx_err env d = (c, d1)" by fastforce
  then have f1: "next_uuid d1 = next_uuid d" by (auto dest: ctx_err_files)
  obtain nw we d2 where wr: "os_Write env dst buf d1 = ((nw, we), d2)" by (metis surj_pair)
  then have f2: "next_uuid d2 = next_uuid d1" by (rule os_Write_uuid)
  show ?case
    using 2(1) [OF c [symmetric]] 2(2) [OF c [symmetric]] 2(3) c wr f1 f2
    by (auto simp: Let_def split: option.splits if_splits)
qed

section \<open>Durable writes\<close>

lemma syncDir_files: "syncDir env dir d = (r, d') \<Longrightarrow> files d' = files d \<and> next_uuid d' = next_uuid d"
  by (auto simp: syncDir_def os_call_def split: prod.splits sum.splits dest!: os_Open_files)

text \<open>The four ways \<open>writeDurably\<close> ends, in terms of file contents.\<close>

lemma writeDurably_cases:
  assumes "writeDurably env temp final fill d = (res, d')"
  obtains
    (not_created) e where "res = Inl e" and "\<And>q. file_at d' q = file_at d q"
      and "next_uuid d' = next_uuid d"
  | (discarded) d1 n r d2 d6 x e where
      "os_Create env temp d = (None, d1)" and "fill d1 = ((n, r), d2)"
      and "\<And>q. file_at d6 q = file_at d2 q" and "next_uuid d6 = next_uuid d2"
      and "os_Remove env temp d6 = (x, d')" and "res = Inl e"
  | (unsynced) d1 n d2 d5 d6 d7 x e where
      "os_Create env temp d = (None, d1)" and "fill d1 = ((n, None), d2)"
      and "\<And>q. file_at d5 q = file_at d2 q" and "next_uuid d5 = next_uuid d2"
      and "os_Rename env temp final d5 = (None, d6)"
      and "files d7 = files d6" and "next_uuid d7 = next_uuid d6"
      and "os_Remove env final d7 = (x, d')" and "res = Inl e"
  | (written) d1 n d2 d5 d6 where
      "os_Create env temp d = (None, d1)" and "fill d1 = ((n, None), d2)"
      and "\<And>q. file_at d5 q = file_at d2 q" and "next_uuid d5 = next_uuid d2"
      and "os_Rename env temp final d5 = (None, d6)"
      and "files d' = files d6" and "next_uuid d' = next_uuid d6" and "res = Inr n"
proof -
  obtain cr d1 where cr: "os_Create env temp d = (cr, d1)" by fastforce
  show ?thesis
  proof (cases cr)
    case (Some e)
    with cr assms have "res = Inl e" "d' = d1" by (simp_all add: writeDurably_def)
    with cr Some show ?thesis
      by (intro not_created) (auto simp: os_Create_file_at os_Create_uuid)
  next
    case None
    obtain n err1 d2 where fi: "fill d1 = ((n, err1), d2)" by (metis surj_pair)
    obtain err2 d3 where c3: "(if err1 = None then os_call env ErrIO d2 else (err1, d2)) = (err2, d3)"
      by fastforce
    obtain cl d4 where c4: "os_call env ErrIO d3 = (cl, d4)" by fastforce
    define err3 where "err3 = (if err2 = None then cl else err2)"
    obtain err4 d5 where c5: "(if err3 = None then os_MkdirAll env (filepath_Dir final) d4
        else (err3, d4)) = (err4, d5)" by fastforce
    obtain err5 d6 where c6: "(if err4 = None then os_Rename env temp final d5 else (err4, d5)) = (err5, d6)"
      by fastforce
    have k3: "files d3 = files d2 \<and> next_uuid d3 = next_uuid d2"
      using c3 by (auto split: if_splits dest: os_call_files)
    have k4: "files d4 = files d3 \<and> next_uuid d4 = next_uuid d3" using c4 by (rule os_call_files)
    have k5: "file_at d5 q = file_at d4 q" "next_uuid d5 = next_uuid d4" for q
      using c5 by (auto split: if_splits simp: os_MkdirAll_file_at os_MkdirAll_uuid)
    have f5: "file_at d5 q = file_at d2 q" for q
      using k3 k4 k5 file_at_cong [of d4 d2] by simp
    have u5: "next_uuid d5 = next_uuid d2" using k3 k4 k5 by simp
    have ok: "err5 = None \<Longrightarrow> err1 = None \<and> os_Rename env temp final d5 = (None, d6)"
      using c3 c5 c6 by (auto simp: err3_def split: if_splits)
    have unfold: "(res, d') =
        (case err5 of
           Some err \<Rightarrow> (case os_Remove env temp d6 of (ignored, d7) \<Rightarrow> (Inl err, d7))
         | None \<Rightarrow>
             (case syncDir env (filepath_Dir final) d6 of
                (Some err, d7) \<Rightarrow> (case os_Remove env final d7 of (ignored, d8) \<Rightarrow> (Inl err, d8))
              | (None, d7) \<Rightarrow> (Inr n, d7)))"
      using assms cr None fi c3 c4 c5 c6 unfolding err3_def by (simp add: writeDurably_def Let_def)
    show ?thesis
    proof (cases err5)
      case (Some e)
      obtain x d7 where rm: "os_Remove env temp d6 = (x, d7)" by fastforce
      have f6: "file_at d6 q = file_at d5 q" "next_uuid d6 = next_uuid d5" for q
        using c6 Some by (auto split: if_splits simp: os_Rename_file_at os_Rename_uuid)
      show ?thesis
        using Some unfold rm None cr fi f6 f5 u5 by (intro discarded) auto
    next
      case (None)
      then have rn: "err1 = None" "os_Rename env temp final d5 = (None, d6)" using ok by auto
      obtain sy d7 where sy: "syncDir env (filepath_Dir final) d6 = (sy, d7)" by fastforce
      then have k7: "files d7 = files d6" "next_uuid d7 = next_uuid d6" by (auto dest: syncDir_files)
      have cr': "os_Create env temp d = (None, d1)" using cr \<open>cr = None\<close> by simp
      have fi': "fill d1 = ((n, None), d2)" using fi rn by simp
      show ?thesis
      proof (cases sy)
        case (Some e)
        obtain x d8 where rm: "os_Remove env final d7 = (x, d8)" by fastforce
        with unfold None sy Some have "res = Inl e" "d' = d8" by simp_all
        with unsynced [OF cr' fi' f5 u5 rn(2) k7] rm show ?thesis by simp
      next
        case n: None
        with unfold None sy have "res = Inr n" "d' = d7" by simp_all
        with written [OF cr' fi' f5 u5 rn(2)] k7 show ?thesis by simp
      qed
    qed
  qed
qed


text \<open>
  What \<open>writeDurably\<close> needs of the function that fills its temporary file: it touches no other
  file and, when the inputs it reads are available, a run without error has written \<open>content\<close>
  and reports its length.
\<close>

locale filler =
  fixes temp :: string
    and fill :: "disk \<Rightarrow> (int \<times> go_error option) \<times> disk"
    and available :: "disk \<Rightarrow> bool"
    and content :: "disk \<Rightarrow> bytes"
  assumes fill_frame: "fill s = ((n, r), s') \<Longrightarrow> q \<noteq> path_comps temp \<Longrightarrow> file_at s' q = file_at s q"
    and fill_uuid: "fill s = ((n, r), s') \<Longrightarrow> next_uuid s' = next_uuid s"
    and fill_content: "fill s = ((n, None), s') \<Longrightarrow> file_at s (path_comps temp) = Some [] \<Longrightarrow>
      (\<And>q. q \<noteq> path_comps temp \<Longrightarrow> file_at s q = file_at d q) \<Longrightarrow>
      file_at d (path_comps temp) = None \<Longrightarrow> available d \<Longrightarrow>
      file_at s' (path_comps temp) = Some (content d) \<and> n = int (length (content d))"
begin

lemma others_kept:
  assumes "writeDurably env temp final fill d = (res, d')"
    and "q \<noteq> path_comps temp" and "q \<noteq> path_comps final"
  shows "file_at d' q = file_at d q"
  using assms(1)
proof (cases rule: writeDurably_cases)
  case (not_created e)
  then show ?thesis by simp
next
  case (discarded d1 n r d2 d6 x e)
  then show ?thesis
    using assms(2) fill_frame [of d1 n r d2 q] by (simp add: os_Create_file_at os_Remove_file_at)
next
  case (unsynced d1 n d2 d5 d6 d7 x e)
  then have "file_at d' q = file_at d6 q"
    using assms(3) file_at_cong [of d7 d6] by (simp add: os_Remove_file_at)
  with unsynced show ?thesis
    using assms(2,3) fill_frame [of d1 n None d2 q] by (simp add: os_Create_file_at os_Rename_file_at)
next
  case (written d1 n d2 d5 d6)
  then have "file_at d' q = file_at d6 q" by (simp add: file_at_cong [of d' d6])
  with written show ?thesis
    using assms(2,3) fill_frame [of d1 n None d2 q] by (simp add: os_Create_file_at os_Rename_file_at)
qed

lemma uuid_kept:
  assumes "writeDurably env temp final fill d = (res, d')"
  shows "next_uuid d' = next_uuid d"
  using assms
proof (cases rule: writeDurably_cases)
  case (discarded d1 n r d2 d6 x e)
  show ?thesis
    using os_Create_uuid [OF discarded(1)] fill_uuid [OF discarded(2)] discarded(4)
      os_Remove_uuid [OF discarded(5)] by simp
next
  case (unsynced d1 n d2 d5 d6 d7 x e)
  show ?thesis
    using os_Create_uuid [OF unsynced(1)] fill_uuid [OF unsynced(2)] unsynced(4)
      os_Rename_uuid [OF unsynced(5)] unsynced(7) os_Remove_uuid [OF unsynced(8)] by simp
next
  case (written d1 n d2 d5 d6)
  show ?thesis
    using os_Create_uuid [OF written(1)] fill_uuid [OF written(2)] written(4)
      os_Rename_uuid [OF written(5)] written(7) by simp
qed

lemma success:
  assumes "writeDurably env temp final fill d = (Inr n, d')"
    and "file_at d (path_comps temp) = None" and "available d"
  shows "file_at d' (path_comps final) = Some (content d)" and "n = int (length (content d))"
    and "path_comps temp \<noteq> path_comps final \<Longrightarrow> file_at d' (path_comps temp) = None"
proof -
  from assms(1) obtain d1 d2 d5 d6 where w:
      "os_Create env temp d = (None, d1)" "fill d1 = ((n, None), d2)"
      "\<And>q. file_at d5 q = file_at d2 q" "os_Rename env temp final d5 = (None, d6)"
      "files d' = files d6"
    by (cases rule: writeDurably_cases) auto
  have t: "file_at d1 (path_comps temp) = Some []" by (simp add: os_Create_file_at [OF w(1)])
  have o: "q \<noteq> path_comps temp \<Longrightarrow> file_at d1 q = file_at d q" for q
    by (simp add: os_Create_file_at [OF w(1)])
  have c: "file_at d2 (path_comps temp) = Some (content d) \<and> n = int (length (content d))"
    using fill_content [OF w(2) t o assms(2,3)] .
  have d': "file_at d' q = file_at d6 q" for q using w(5) by (rule file_at_cong)
  show "file_at d' (path_comps final) = Some (content d)"
    using c w(3) by (simp add: d' os_Rename_file_at [OF w(4)])
  show "n = int (length (content d))" using c by simp
  show "file_at d' (path_comps temp) = None" if "path_comps temp \<noteq> path_comps final"
    using that by (simp add: d' os_Rename_file_at [OF w(4)])
qed

end

interpretation copy: filler temp "copyWithContext env temp r 0" "\<lambda>d. True" "\<lambda>d. reader_bytes r"
  for temp env r
proof unfold_locales
  fix s n res s' q
  assume *: "copyWithContext env temp r 0 s = ((n, res), s')"
  show "q \<noteq> path_comps temp \<Longrightarrow> file_at s' q = file_at s q"
    using * by (rule copyWithContext_frame)
  show "next_uuid s' = next_uuid s"
    using * by (rule copyWithContext_uuid)
next
  fix s n s' d
  assume "copyWithContext env temp r 0 s = ((n, None), s')" "file_at s (path_comps temp) = Some []"
  from copyWithContext_content [OF this]
  show "file_at s' (path_comps temp) = Some (reader_bytes r) \<and> n = int (length (reader_bytes r))"
    by simp
qed


section \<open>The blobs of an engine\<close>

text \<open>
  The abstract view: the content a storage path denotes.  \<open>canonical\<close> are the storage paths the
  engine hands out, ordinary elements separated by slashes.
\<close>

definition blob :: "os_env \<Rightarrow> engine \<Rightarrow> disk \<Rightarrow> string \<Rightarrow> bytes option" where
  "blob env e d sp =
     (case resolveStoragePath env e sp of
        Inl err \<Rightarrow> None
      | Inr full \<Rightarrow> file_at d (path_comps full))"

definition canonical :: "string \<Rightarrow> bool" where
  "canonical sp \<longleftrightarrow> (let es = split_on CHR ''/'' sp in 2 \<le> length es \<and> list_all good_elem es)"

definition object_path :: "string \<Rightarrow> bool" where
  "object_path sp \<longleftrightarrow> canonical sp \<and> length (split_on CHR ''/'' sp) = 2"

lemma canonical_comps:
  assumes "engine_wf e" and "canonical sp"
  obtains full where "resolveStoragePath env e sp = Inr full"
    and "path_comps full = path_comps (dataDir e) @ split_on CHR ''/'' sp"
  using resolve_good_path [OF assms(1), of "split_on CHR ''/'' sp"] assms(2)
  by (auto simp: canonical_def Let_def list_all_iff join_split)

lemma blob_canonical:
  "engine_wf e \<Longrightarrow> canonical sp \<Longrightarrow>
   blob env e d sp = file_at d (path_comps (dataDir e) @ split_on CHR ''/'' sp)"
  by (rule canonical_comps [of e sp env]) (simp_all add: blob_def)

lemma split_on_inj: "split_on c s = split_on c t \<Longrightarrow> s = t"
  by (metis join_split)

lemma blob_cong: "(\<And>q. file_at d' q = file_at d q) \<Longrightarrow> blob env e d' sp = blob env e d sp"
  by (simp add: blob_def split: sum.splits)

text \<open>
  UUIDs: 36 hexadecimal digits and hyphens, the first \<open>uuid_count\<close> of them all different.  \<open>ids_fresh\<close>: no file carries an
  identifier that has not been drawn yet, neither as an object, as \<open>uuid.tmp\<close> nor as a part
  \<open>n.tmp-uuid\<close>.
\<close>

definition uuid_wf :: "os_env \<Rightarrow> bool" where
  "uuid_wf env \<longleftrightarrow> inj_on (uuid_str env) {..<uuid_count env}
     \<and> (\<forall>n. length (uuid_str env n) = 36 \<and> set (uuid_str env n) \<subseteq> set ''0123456789abcdef-'')"

definition carries :: "os_env \<Rightarrow> nat \<Rightarrow> string \<Rightarrow> bool" where
  "carries env n s \<longleftrightarrow> n < uuid_count env \<and> suffix (uuid_str env n) (TrimSuffix s ''.tmp'')"

definition ids_fresh :: "os_env \<Rightarrow> disk \<Rightarrow> bool" where
  "ids_fresh env d \<longleftrightarrow>
     (\<forall>q n. file_at d q \<noteq> None \<longrightarrow> next_uuid d \<le> n \<longrightarrow> \<not> carries env n (last q))"

lemma uuid_good:
  assumes "uuid_wf env"
  shows "good_elem (uuid_str env n)" and "good_elem (uuid_str env n @ ''.tmp'')"
    and "\<not> suffix ''.tmp'' (uuid_str env n)"
proof -
  let ?u = "uuid_str env n"
  have len: "length ?u = 36" and ch: "set ?u \<subseteq> set ''0123456789abcdef-''"
    using assms by (auto simp: uuid_wf_def)
  have no: "CHR ''/'' \<notin> set ?u" "CHR ''p'' \<notin> set ?u" using ch by auto
  have "?u \<noteq> ''.''" "?u \<noteq> ''..''" "?u \<noteq> []" using len by auto
  with no show "good_elem ?u" by (simp add: good_elem_def)
  have "?u @ ''.tmp'' \<noteq> ''.''" "?u @ ''.tmp'' \<noteq> ''..''"
    by (auto dest!: arg_cong [where f = length] simp: len)
  with no show "good_elem (?u @ ''.tmp'')" by (simp add: good_elem_def)
  show "\<not> suffix ''.tmp'' ?u" using no by (auto simp: suffix_def)
qed

lemma carries_self:
  assumes "uuid_wf env" and "n < uuid_count env"
  shows "carries env n (pre @ uuid_str env n)" and "carries env n (uuid_str env n @ ''.tmp'')"
    and "carries env m (pre @ uuid_str env n) \<Longrightarrow> m = n"
    and "carries env m (uuid_str env n @ ''.tmp'') \<Longrightarrow> m = n"
proof -
  have len: "length (uuid_str env k) = 36" for k using assms(1) by (simp add: uuid_wf_def)
  have inj: "m < uuid_count env \<Longrightarrow> uuid_str env m = uuid_str env n \<Longrightarrow> m = n"
    using assms by (auto simp: uuid_wf_def dest: inj_onD)
  have nosuf: "\<not> suffix ''.tmp'' (pre @ uuid_str env n)"
  proof
    assume s: "suffix ''.tmp'' (pre @ uuid_str env n)"
    have "suffix (uuid_str env n) (pre @ uuid_str env n)" by (simp add: suffix_def)
    from suffix_length_suffix [OF s this] len have "suffix ''.tmp'' (uuid_str env n)" by simp
    with uuid_good(3) [OF assms(1)] show False by blast
  qed
  then have t1: "TrimSuffix (pre @ uuid_str env n) ''.tmp'' = pre @ uuid_str env n"
    by (simp add: TrimSuffix_def)
  have t2: "TrimSuffix (uuid_str env n @ ''.tmp'') ''.tmp'' = uuid_str env n"
    by (simp add: TrimSuffix_def suffix_def)
  show "carries env n (pre @ uuid_str env n)" using assms(2) by (simp add: carries_def t1 suffix_def)
  show "carries env n (uuid_str env n @ ''.tmp'')" using assms(2) by (simp add: carries_def t2)
  have eq: "m = n" if m: "m < uuid_count env" and s: "suffix (uuid_str env m) (p @ uuid_str env n)" for p
  proof -
    have "suffix (uuid_str env n) (p @ uuid_str env n)" by (simp add: suffix_def)
    from suffix_length_suffix [OF s this] len have "suffix (uuid_str env m) (uuid_str env n)" by simp
    then obtain zs where zs: "uuid_str env n = zs @ uuid_str env m" by (auto simp: suffix_def)
    with len [of n] len [of m] have "zs = []" by simp
    with zs inj m show ?thesis by simp
  qed
  show "carries env m (pre @ uuid_str env n) \<Longrightarrow> m = n"
    using eq [of pre] by (auto simp: carries_def t1)
  show "carries env m (uuid_str env n @ ''.tmp'') \<Longrightarrow> m = n"
    using eq [of "[]"] by (simp add: carries_def t2)
qed


section \<open>Concatenating parts\<close>

definition parts_bytes :: "os_env \<Rightarrow> engine \<Rightarrow> string list \<Rightarrow> disk \<Rightarrow> bytes" where
  "parts_bytes env e paths d = concat (map (\<lambda>p. case blob env e d p of Some c \<Rightarrow> c | None \<Rightarrow> []) paths)"

lemma copyParts_frame:
  "copyParts env e w paths tot s = ((n, r), s') \<Longrightarrow>
   (q \<noteq> path_comps w \<longrightarrow> file_at s' q = file_at s q) \<and> next_uuid s' = next_uuid s"
proof (induction paths arbitrary: tot s)
  case (Cons p paths)
  show ?case
  proof (cases "resolveStoragePath env e p")
    case (Inr full)
    obtain o1 s1 where o: "os_Open env full s = (o1, s1)" by fastforce
    have k1: "file_at s1 q = file_at s q" "next_uuid s1 = next_uuid s"
      using os_Open_files [OF o] file_at_cong [of s1 s] by simp_all
    show ?thesis
    proof (cases o1)
      case (Inr f)
      obtain m x s2 where c: "copyWithContext env w (node_reader f) 0 s1 = ((m, x), s2)"
        by (metis surj_pair)
      obtain y s3 where cl: "os_call env ErrIO s2 = (y, s3)" by fastforce
      have k2: "q \<noteq> path_comps w \<longrightarrow> file_at s2 q = file_at s1 q" "next_uuid s2 = next_uuid s1"
        using copyWithContext_frame [OF c] copyWithContext_uuid [OF c] by auto
      have k3: "file_at s3 q = file_at s2 q" "next_uuid s3 = next_uuid s2"
        using os_call_files [OF cl] file_at_cong [of s3 s2] by simp_all
      show ?thesis
        using Cons.prems Cons.IH [of "tot + m" s3] \<open>resolveStoragePath env e p = Inr full\<close> o Inr c cl k1 k2 k3
        by (auto simp: Let_def split: option.splits)
    qed (use Cons.prems Inr o k1 in auto)
  qed (use Cons.prems in auto)
qed simp

lemma copyParts_content:
  "copyParts env e w paths tot s = ((n, None), s') \<Longrightarrow> file_at s (path_comps w) = Some acc \<Longrightarrow>
   (\<And>q. q \<noteq> path_comps w \<Longrightarrow> file_at s q = file_at d q) \<Longrightarrow> file_at d (path_comps w) = None \<Longrightarrow>
   \<forall>p\<in>set paths. blob env e d p \<noteq> None \<Longrightarrow>
   file_at s' (path_comps w) = Some (acc @ parts_bytes env e paths d)
   \<and> n = tot + int (length (parts_bytes env e paths d))"
proof (induction paths arbitrary: tot s acc)
  case Nil
  then show ?case by (simp add: parts_bytes_def)
next
  case (Cons p paths)
  from Cons.prems(5) obtain full content where r: "resolveStoragePath env e p = Inr full"
    and cd: "file_at d (path_comps full) = Some content"
    by (auto simp: blob_def split: sum.splits)
  then have b: "blob env e d p = Some content" by (simp add: blob_def)
  have ne: "path_comps full \<noteq> path_comps w" using cd Cons.prems(4) by auto
  then have cs: "file_at s (path_comps full) = Some content" using cd Cons.prems(3) by simp
  obtain o1 s1 where o: "os_Open env full s = (o1, s1)" by fastforce
  have k1: "file_at s1 q = file_at s q" for q
    using os_Open_files [OF o] file_at_cong [of s1 s] by simp
  from Cons.prems(1) r o obtain f where f: "o1 = Inr f" by (cases o1) auto
  have fc: "f = Dir \<or> f = File content"
    using o f cs by (auto simp: os_Open_def Let_def is_dir_def file_at_Some split: if_splits)
  obtain m x s2 where c: "copyWithContext env w (node_reader f) 0 s1 = ((m, x), s2)"
    by (metis surj_pair)
  obtain y s3 where cl: "os_call env ErrIO s2 = (y, s3)" by fastforce
  have k3: "file_at s3 q = file_at s2 q" for q
    using os_call_files [OF cl] file_at_cong [of s3 s2] by simp
  from Cons.prems(1) r o f c cl have x: "x = None"
      and rest: "copyParts env e w paths (tot + m) s3 = ((n, None), s')"
    by (auto simp: Let_def split: option.splits)
  have "f \<noteq> Dir"
    using c x by (auto simp: node_reader_def split: option.splits prod.splits)
  with fc have rd: "node_reader f = [(content, None)]" by (simp add: node_reader_def)
  have w1: "file_at s1 (path_comps w) = Some acc" using Cons.prems(2) k1 by simp
  from copyWithContext_content [OF c [unfolded x] w1] rd
  have w2: "file_at s2 (path_comps w) = Some (acc @ content)" "m = int (length content)" by simp_all
  have others: "file_at s3 q = file_at d q" if "q \<noteq> path_comps w" for q
    using copyWithContext_frame [OF c that] k1 k3 Cons.prems(3) [OF that] by simp
  have w3: "file_at s3 (path_comps w) = Some (acc @ content)" using w2 k3 by simp
  have "\<forall>p\<in>set paths. blob env e d p \<noteq> None" using Cons.prems(5) by simp
  from Cons.IH [OF rest w3 others Cons.prems(4) this] w2(2) b
  show ?case by (simp add: parts_bytes_def)
qed

interpretation assemble: filler temp "copyParts env e temp paths 0"
  "\<lambda>d. \<forall>p\<in>set paths. blob env e d p \<noteq> None" "parts_bytes env e paths" for temp env e paths
proof unfold_locales
  fix s n r s' q
  assume *: "copyParts env e temp paths 0 s = ((n, r), s')"
  show "q \<noteq> path_comps temp \<Longrightarrow> file_at s' q = file_at s q" "next_uuid s' = next_uuid s"
    using copyParts_frame [OF *] by blast+
next
  fix s n s' d
  assume "copyParts env e temp paths 0 s = ((n, None), s')" "file_at s (path_comps temp) = Some []"
    "\<And>q. q \<noteq> path_comps temp \<Longrightarrow> file_at s q = file_at d q" "file_at d (path_comps temp) = None"
    "\<forall>p\<in>set paths. blob env e d p \<noteq> None"
  from copyParts_content [OF this]
  show "file_at s' (path_comps temp) = Some (parts_bytes env e paths d)
        \<and> n = int (length (parts_bytes env e paths d))" by simp
qed

section \<open>\<open>Write\<close>, \<open>WritePart\<close> and \<open>AssembleParts\<close>\<close>

lemma path_elems_single: "good_elem x \<Longrightarrow> path_elems x = [x]"
  using path_elems_join_good [of "[x]"] by simp

lemma good_not_abs: "good_elem x \<Longrightarrow> \<not> IsAbs (x @ s)"
  by (cases x) (auto simp: good_elem_def IsAbs_def HasPrefix_def)

lemma Join_good:
  assumes "\<forall>x\<in>set es. good_elem x" and "es \<noteq> []"
  shows "filepath_Join es = join_with ''/'' es" and "split_on CHR ''/'' (join_with ''/'' es) = es"
proof -
  obtain x xs where es: "es = x # xs" using assms(2) by (cases es) auto
  with assms have x: "good_elem x" "x \<noteq> []" by (auto simp: good_elem_def)
  obtain s where j: "join_with ''/'' es = x @ s"
    using es by (cases xs) auto
  have rel: "\<not> IsAbs (join_with ''/'' es)" using j x good_not_abs by simp
  have ne: "join_with ''/'' es \<noteq> []" using j x by simp
  from ne rel assms have "filepath_Clean (join_with ''/'' es) = join_with ''/'' es"
    by (simp add: filepath_Clean_def Let_def path_elems_join_good clean_elems_good_id)
  then show "filepath_Join es = join_with ''/'' es"
    using es x by (simp add: filepath_Join.simps del: join_with.simps)
  show "split_on CHR ''/'' (join_with ''/'' es) = es"
    using assms by (intro split_join) (auto simp: good_elem_def)
qed

lemma engine_wf_tmp:
  assumes "engine_wf e"
  shows "IsAbs (tmpDir e)" and "path_comps (tmpDir e) = path_comps (dataDir e) @ [''.tmp'']"
    and "IsAbs (dataDir e)"
proof -
  have g: "good_elem ''.tmp''" by (simp add: good_elem_def)
  show abs: "IsAbs (dataDir e)" using assms by (simp add: engine_wf_def)
  have t: "tmpDir e = filepath_Join [dataDir e, ''.tmp'']" using assms by (simp add: engine_wf_def)
  show "IsAbs (tmpDir e)" using IsAbs_Join [OF abs] t by metis
  show "path_comps (tmpDir e) = path_comps (dataDir e) @ [''.tmp'']"
    using path_comps_Join_good [OF abs, of "[''.tmp'']"] g
    by (simp add: t path_elems_single)
qed

lemma temp_comps:
  assumes "engine_wf e" and "uuid_wf env"
  shows "path_comps (filepath_Join [tmpDir e, uuid_str env n @ ''.tmp'']) =
         path_comps (dataDir e) @ [''.tmp'', uuid_str env n @ ''.tmp'']"
  using path_comps_Join_good [OF engine_wf_tmp(1), of e "[uuid_str env n @ ''.tmp'']"]
    uuid_good(2) [OF assms(2), of n] assms(1)
  by (simp add: engine_wf_tmp path_elems_single)

lemma full_comps:
  assumes "engine_wf e" and "\<forall>x\<in>set es. good_elem x" and "2 \<le> length es"
  shows "path_comps (filepath_Join [dataDir e, filepath_Join es]) = path_comps (dataDir e) @ es"
    and "path_comps (filepath_Clean (filepath_Join [dataDir e, filepath_Join es])) = path_comps (dataDir e) @ es"
    and "canonical (filepath_Join es)" and "split_on CHR ''/'' (filepath_Join es) = es"
proof -
  have ne: "es \<noteq> []" using assms(3) by auto
  note j = Join_good [OF assms(2) ne]
  show 1: "path_comps (filepath_Join [dataDir e, filepath_Join es]) = path_comps (dataDir e) @ es"
    using path_comps_Join_good [OF engine_wf_tmp(3) [OF assms(1)], of "[filepath_Join es]"] assms(2)
    by (simp add: j path_elems_join_good del: join_with.simps)
  show "path_comps (filepath_Clean (filepath_Join [dataDir e, filepath_Join es])) = path_comps (dataDir e) @ es"
    using 1 IsAbs_Join [OF engine_wf_tmp(3) [OF assms(1)]]
    by (simp add: path_comps_Clean)
  show "canonical (filepath_Join es)" "split_on CHR ''/'' (filepath_Join es) = es"
    using assms(2,3) by (simp_all add: j canonical_def list_all_iff del: join_with.simps)
qed

text \<open>
  What every write to the engine keeps, however it ends: all existing files, and the freshness
  of the identifiers not yet drawn.
\<close>

definition only_adds :: "os_env \<Rightarrow> disk \<Rightarrow> disk \<Rightarrow> bool" where
  "only_adds env d d' \<longleftrightarrow> (\<forall>q c. file_at d q = Some c \<longrightarrow> file_at d' q = Some c)
     \<and> next_uuid d \<le> next_uuid d' \<and> ids_fresh env d'"

lemma only_adds_blob: "only_adds env d d' \<Longrightarrow> blob env e d sp = Some c \<Longrightarrow> blob env e d' sp = Some c"
  by (auto simp: only_adds_def blob_def split: sum.splits)

lemma ids_fresh_absent: "ids_fresh env d \<Longrightarrow> carries env n (last q) \<Longrightarrow> next_uuid d \<le> n \<Longrightarrow> file_at d q = None"
  by (auto simp: ids_fresh_def)

lemma only_addsI:
  assumes fresh: "ids_fresh env d"
    and others: "\<And>q. q \<notin> Q \<Longrightarrow> file_at d' q = file_at d q"
    and named: "\<And>q. q \<in> Q \<Longrightarrow> \<exists>k. next_uuid d \<le> k \<and> k < next_uuid d' \<and> carries env k (last q)
                    \<and> (\<forall>m. carries env m (last q) \<longrightarrow> m = k)"
    and le: "next_uuid d \<le> next_uuid d'"
  shows "only_adds env d d'"
  unfolding only_adds_def
proof (intro conjI allI impI)
  fix q c
  assume c: "file_at d q = Some c"
  show "file_at d' q = Some c"
  proof (cases "q \<in> Q")
    case True
    from named [OF this] obtain k where "next_uuid d \<le> k" "carries env k (last q)" by blast
    from ids_fresh_absent [OF fresh this(2,1)] c show ?thesis by simp
  qed (simp add: others c)
next
  show "ids_fresh env d'"
    unfolding ids_fresh_def
  proof (intro allI impI)
    fix q n
    assume a: "file_at d' q \<noteq> None" "next_uuid d' \<le> n"
    show "\<not> carries env n (last q)"
    proof (cases "q \<in> Q")
      case True
      from named [OF this] obtain k where "k < next_uuid d'" "\<forall>m. carries env m (last q) \<longrightarrow> m = k"
        by blast
      with a show ?thesis by (metis linorder_not_less)
    next
      case False
      then have "file_at d q \<noteq> None" using others a by simp
      moreover have "next_uuid d \<le> n" using a le by simp
      ultimately show ?thesis using fresh unfolding ids_fresh_def by blast
    qed
  qed
qed (rule le)


lemma only_adds_same_files:
  assumes "ids_fresh env d" and "\<And>q. file_at d' q = file_at d q" and "next_uuid d \<le> next_uuid d'"
  shows "only_adds env d d'"
  using assms by (intro only_addsI [where Q = "{}"]) auto

lemma new_uuid_eq: "new_uuid env d = (u, d') \<Longrightarrow>
  u = uuid_str env (next_uuid d) \<and> next_uuid d' = Suc (next_uuid d) \<and> (\<forall>q. file_at d' q = file_at d q)"
  by (auto simp: new_uuid_def)

lemma ctx_err_eq: "ctx_err env d = (r, d') \<Longrightarrow> next_uuid d' = next_uuid d \<and> (\<forall>q. file_at d' q = file_at d q)"
  using file_at_cong [of d' d] by (auto dest: ctx_err_files)

text \<open>
  The two ways a new object file comes into being, a body copied and parts assembled, differ in
  the function that fills the temporary file.
\<close>

lemma new_object_file:
  fixes env d
  defines "u1 \<equiv> uuid_str env (next_uuid d)" and "u2 \<equiv> uuid_str env (Suc (next_uuid d))"
  assumes wf: "engine_wf e" "uuid_wf env" "ids_fresh env d" and more: "next_uuid d + 2 \<le> uuid_count env"
    and b: "good_elem bucketName"
    and temp: "temp = filepath_Join [tmpDir e, u2 @ ''.tmp'']"
    and full: "path_comps full = path_comps (dataDir e) @ [bucketName, u1]"
    and d3: "\<And>q. file_at d3 q = file_at d q" "next_uuid d3 = Suc (Suc (next_uuid d))"
    and fill: "filler temp fill available content"
    and run: "writeDurably env temp full fill d3 = (res, d')"
  shows "only_adds env d d'"
    and "res = Inr n \<Longrightarrow> available d3 \<Longrightarrow>
         blob env e d (filepath_Join [bucketName, u1]) = None
         \<and> blob env e d' (filepath_Join [bucketName, u1]) = Some (content d3)
         \<and> n = int (length (content d3))"
proof -
  have es: "\<forall>x\<in>set [bucketName, u1]. good_elem x" using b uuid_good(1) [OF wf(2)] by (simp add: u1_def)
  note canon = full_comps [OF wf(1) es]
  have tc: "path_comps temp = path_comps (dataDir e) @ [''.tmp'', u2 @ ''.tmp'']"
    using temp_comps [OF wf(1,2)] by (simp add: temp u2_def)
  have lt: "last (path_comps temp) = u2 @ ''.tmp''" by (simp add: tc)
  have lf: "last (path_comps full) = u1" by (simp add: full)
  have c1: "carries env (next_uuid d) (last (path_comps full))"
      "\<forall>m. carries env m (last (path_comps full)) \<longrightarrow> m = next_uuid d"
    unfolding lf u1_def using carries_self(1,3) [OF wf(2), where n = "next_uuid d" and pre = "[]"] more by auto
  have c2: "carries env (Suc (next_uuid d)) (last (path_comps temp))"
      "\<forall>m. carries env m (last (path_comps temp)) \<longrightarrow> m = Suc (next_uuid d)"
    unfolding lt u2_def using carries_self(2,4) [OF wf(2), where n = "Suc (next_uuid d)"] more by auto
  have d': "next_uuid d' = Suc (Suc (next_uuid d))"
    using filler.uuid_kept [OF fill run] d3 by simp
  show "only_adds env d d'"
  proof (rule only_addsI [OF wf(3), where Q = "{path_comps temp, path_comps full}"])
    show "file_at d' q = file_at d q" if "q \<notin> {path_comps temp, path_comps full}" for q
      using filler.others_kept [OF fill run, of q] that d3 by simp
    show "\<exists>k. next_uuid d \<le> k \<and> k < next_uuid d' \<and> carries env k (last q)
            \<and> (\<forall>m. carries env m (last q) \<longrightarrow> m = k)"
      if q: "q \<in> {path_comps temp, path_comps full}" for q
    proof (cases "q = path_comps full")
      case True
      show ?thesis unfolding True by (intro exI [of _ "next_uuid d"] conjI c1) (simp_all add: d')
    next
      case False
      with q have t: "q = path_comps temp" by simp
      show ?thesis unfolding t by (intro exI [of _ "Suc (next_uuid d)"] conjI c2) (simp_all add: d')
    qed
  qed (simp add: d')
  assume r: "res = Inr n" and av: "available d3"
  have tn: "file_at d3 (path_comps temp) = None" and fn: "file_at d (path_comps full) = None"
    using ids_fresh_absent [OF wf(3) c2(1)] ids_fresh_absent [OF wf(3) c1(1)] d3 by simp_all
  note ok = filler.success [OF fill run [unfolded r] tn av]
  show "blob env e d (filepath_Join [bucketName, u1]) = None
        \<and> blob env e d' (filepath_Join [bucketName, u1]) = Some (content d3)
        \<and> n = int (length (content d3))"
    using ok(1,2) fn canon(3,4)
    by (simp add: blob_canonical [OF wf(1)] full [symmetric])
qed

lemma Write_law:
  assumes wf: "engine_wf e" "uuid_wf env" "ids_fresh env d" and more: "next_uuid d + 2 \<le> uuid_count env"
    and b: "good_elem bucketName"
    and run: "Write env e bucketName key r d = (res, d')"
  shows "only_adds env d d'"
    and "res = Inr (sp, n) \<Longrightarrow>
         sp = filepath_Join [bucketName, uuid_str env (next_uuid d)] \<and> blob env e d sp = None
         \<and> blob env e d' sp = Some (reader_bytes r) \<and> n = int (length (reader_bytes r))"
proof -
  let ?u1 = "uuid_str env (next_uuid d)" and ?u2 = "uuid_str env (Suc (next_uuid d))"
  let ?full = "filepath_Clean (filepath_Join [dataDir e, filepath_Join [bucketName, ?u1]])"
  let ?temp = "filepath_Join [tmpDir e, ?u2 @ ''.tmp'']"
  obtain c d1 where c: "ctx_err env d = (c, d1)" by fastforce
  obtain v2 d2 where n2: "new_uuid env d1 = (v2, d2)" by fastforce
  obtain v3 d3 where n3: "new_uuid env d2 = (v3, d3)" by fastforce
  note k = ctx_err_eq [OF c] new_uuid_eq [OF n2] new_uuid_eq [OF n3]
  have f: "file_at d1 q = file_at d q" "file_at d2 q = file_at d q" "file_at d3 q = file_at d q" for q
    using k by auto
  have u: "next_uuid d1 = next_uuid d" "next_uuid d2 = Suc (next_uuid d)"
      "next_uuid d3 = Suc (Suc (next_uuid d))" "v2 = ?u1" "v3 = ?u2"
    using k by auto
  have es: "\<forall>x\<in>set [bucketName, ?u1]. good_elem x" using b uuid_good(1) [OF wf(2)] by simp
  have full: "path_comps ?full = path_comps (dataDir e) @ [bucketName, ?u1]"
    using full_comps(2) [OF wf(1) es] by simp
  obtain wr d4 where w: "writeDurably env ?temp ?full (copyWithContext env ?temp r 0) d3 = (wr, d4)"
    by fastforce
  note new = new_object_file [OF wf more b refl full f(3) u(3) copy.filler_axioms w]
  note cases = run [unfolded Write_def c n2 n3 prod.case Let_def u(4,5)]
  consider (early) "d' = d1 \<or> d' = d2" "\<not> is_ok res"
    | (durable) "d' = d4" "res = (case wr of Inl x \<Rightarrow> Inl x | Inr n \<Rightarrow> Inr (filepath_Join [bucketName, ?u1], n))"
    using cases w n2 n3 u by (auto split: option.splits sum.splits prod.splits if_splits)
  then have "only_adds env d d' \<and> (res = Inr (sp, n) \<longrightarrow>
         sp = filepath_Join [bucketName, ?u1] \<and> blob env e d sp = None
         \<and> blob env e d' sp = Some (reader_bytes r) \<and> n = int (length (reader_bytes r)))"
  proof cases
    case early
    have "only_adds env d d'"
      using early f u by (intro only_adds_same_files [OF wf(3)]) auto
    with early show ?thesis by auto
  next
    case durable
    then show ?thesis using new by (auto split: sum.splits)
  qed
  then show "only_adds env d d'"
    and "res = Inr (sp, n) \<Longrightarrow> sp = filepath_Join [bucketName, ?u1] \<and> blob env e d sp = None
         \<and> blob env e d' sp = Some (reader_bytes r) \<and> n = int (length (reader_bytes r))"
    by blast+
qed


lemma parts_bytes_cong: "(\<And>q. file_at d' q = file_at d q) \<Longrightarrow> parts_bytes env e ps d' = parts_bytes env e ps d"
  using blob_cong [of d' d env e] by (simp add: parts_bytes_def)

lemma AssembleParts_law:
  assumes wf: "engine_wf e" "uuid_wf env" "ids_fresh env d" and more: "next_uuid d + 2 \<le> uuid_count env"
    and b: "good_elem bucketName"
    and run: "AssembleParts env e bucketName key paths d = (res, d')"
  shows "only_adds env d d'"
    and "res = Inr (sp, n) \<Longrightarrow> \<forall>p\<in>set paths. blob env e d p \<noteq> None \<Longrightarrow>
         sp = filepath_Join [bucketName, uuid_str env (next_uuid d)] \<and> blob env e d sp = None
         \<and> blob env e d' sp = Some (parts_bytes env e paths d)
         \<and> n = int (length (parts_bytes env e paths d))"
proof -
  let ?u1 = "uuid_str env (next_uuid d)" and ?u2 = "uuid_str env (Suc (next_uuid d))"
  let ?full = "filepath_Join [dataDir e, filepath_Join [bucketName, ?u1]]"
  let ?temp = "filepath_Join [tmpDir e, ?u2 @ ''.tmp'']"
  obtain c d1 where c: "ctx_err env d = (c, d1)" by fastforce
  obtain v2 d2 where n2: "new_uuid env d1 = (v2, d2)" by fastforce
  obtain v3 d3 where n3: "new_uuid env d2 = (v3, d3)" by fastforce
  note k = ctx_err_eq [OF c] new_uuid_eq [OF n2] new_uuid_eq [OF n3]
  have f: "file_at d1 q = file_at d q" "file_at d2 q = file_at d q" "file_at d3 q = file_at d q" for q
    using k by auto
  have u: "next_uuid d1 = next_uuid d" "next_uuid d2 = Suc (next_uuid d)"
      "next_uuid d3 = Suc (Suc (next_uuid d))" "v2 = ?u1" "v3 = ?u2"
    using k by auto
  have es: "\<forall>x\<in>set [bucketName, ?u1]. good_elem x" using b uuid_good(1) [OF wf(2)] by simp
  have full: "path_comps ?full = path_comps (dataDir e) @ [bucketName, ?u1]"
    using full_comps(1) [OF wf(1) es] by simp
  obtain wr d4 where w: "writeDurably env ?temp ?full (copyParts env e ?temp paths 0) d3 = (wr, d4)"
    by fastforce
  note new = new_object_file [OF wf more b refl full f(3) u(3) assemble.filler_axioms w]
  have same: "parts_bytes env e paths d3 = parts_bytes env e paths d"
      "blob env e d3 p = blob env e d p" for p
    using parts_bytes_cong [of d3 d] blob_cong [of d3 d] f by simp_all
  note cases = run [unfolded AssembleParts_def c n2 n3 prod.case Let_def u(4,5)]
  consider (early) "d' = d1 \<or> d' = d2" "\<not> is_ok res"
    | (durable) "d' = d4" "res = (case wr of Inl x \<Rightarrow> Inl x | Inr n \<Rightarrow> Inr (filepath_Join [bucketName, ?u1], n))"
    using cases w n2 n3 u by (auto split: option.splits sum.splits prod.splits if_splits)
  then have "only_adds env d d' \<and> (res = Inr (sp, n) \<longrightarrow> (\<forall>p\<in>set paths. blob env e d p \<noteq> None) \<longrightarrow>
         sp = filepath_Join [bucketName, ?u1] \<and> blob env e d sp = None
         \<and> blob env e d' sp = Some (parts_bytes env e paths d)
         \<and> n = int (length (parts_bytes env e paths d)))"
  proof cases
    case early
    have "only_adds env d d'"
      using early f u by (intro only_adds_same_files [OF wf(3)]) auto
    with early show ?thesis by auto
  next
    case durable
    then show ?thesis using new unfolding same by (auto split: sum.splits)
  qed
  then show "only_adds env d d'"
    and "res = Inr (sp, n) \<Longrightarrow> \<forall>p\<in>set paths. blob env e d p \<noteq> None \<Longrightarrow>
         sp = filepath_Join [bucketName, ?u1] \<and> blob env e d sp = None
         \<and> blob env e d' sp = Some (parts_bytes env e paths d)
         \<and> n = int (length (parts_bytes env e paths d))"
    by blast+
qed


lemma nat_digits_chars: "set (nat_digits n) \<subseteq> set ''0123456789''"
proof (induction n rule: nat_digits.induct)
  case (1 n)
  have d: "char_of (48 + k) \<in> set ''0123456789''" if "k < 10" for k :: nat
  proof -
    have "list_all (\<lambda>k :: nat. char_of (48 + k) \<in> set ''0123456789'') [0..<10]" by code_simp
    with that show ?thesis by (simp only: list_all_iff set_upt atLeastLessThan_iff) simp
  qed
  show ?case
  proof (cases "n < 10")
    case True
    with d [OF this] show ?thesis unfolding nat_digits.simps [of n] by (simp only: if_True) simp
  next
    case False
    have m: "n mod 10 < 10" by simp
    from 1 [OF False] d [OF m] False show ?thesis
      unfolding nat_digits.simps [of n] by (simp only: if_False set_append) simp
  qed
qed

lemma Itoa_no_slash: "CHR ''/'' \<notin> set (Itoa n)"
proof -
  have "CHR ''/'' \<notin> set (nat_digits k)" for k
    using nat_digits_chars [of k] by auto
  then show ?thesis by (simp add: Itoa_def)
qed

lemma WritePart_law:
  assumes wf: "engine_wf e" "uuid_wf env" "ids_fresh env d" and more: "next_uuid d < uuid_count env"
    and id: "good_elem uploadID"
    and run: "WritePart env e uploadID pn r d = (res, d')"
  shows "only_adds env d d'"
    and "res = Inr (sp, n) \<Longrightarrow>
         sp = filepath_Join [''.tmp'', ''multipart'', uploadID, Itoa pn @ ''.tmp-'' @ uuid_str env (next_uuid d)]
         \<and> canonical sp \<and> blob env e d sp = None
         \<and> blob env e d' sp = Some (reader_bytes r) \<and> n = int (length (reader_bytes r))"
proof -
  let ?u = "uuid_str env (next_uuid d)"
  define name where "name = Itoa pn @ ''.tmp-'' @ ?u"
  let ?dir = "filepath_Join [tmpDir e, ''multipart'', uploadID]"
  let ?path = "filepath_Join [?dir, name]"
  let ?es = "[''.tmp'', ''multipart'', uploadID, name]"
  obtain c d1 where c: "ctx_err env d = (c, d1)" by fastforce
  obtain m d2 where m: "os_MkdirAll env ?dir d1 = (m, d2)" by fastforce
  obtain v d3 where n3: "new_uuid env d2 = (v, d3)" by fastforce
  note k = ctx_err_eq [OF c] os_MkdirAll_file_at [OF m] os_MkdirAll_uuid [OF m] new_uuid_eq [OF n3]
  have f: "file_at d1 q = file_at d q" "file_at d2 q = file_at d q" "file_at d3 q = file_at d q" for q
    using k by auto
  have u: "next_uuid d1 = next_uuid d" "next_uuid d2 = next_uuid d" "next_uuid d3 = Suc (next_uuid d)"
      "v = ?u"
    using k by auto
  have no: "CHR ''/'' \<notin> set ?u" using wf(2) by (auto simp: uuid_wf_def)
  have nm: "good_elem name"
    using Itoa_no_slash no by (auto simp: name_def good_elem_def append_eq_Cons_conv)
  have es: "\<forall>x\<in>set ?es. good_elem x" using id nm by (simp add: good_elem_def)
  have dc: "IsAbs ?dir" "path_comps ?dir = path_comps (dataDir e) @ [''.tmp'', ''multipart'', uploadID]"
    using IsAbs_Join [OF engine_wf_tmp(1) [OF wf(1)]] es
      path_comps_Join_good [OF engine_wf_tmp(1) [OF wf(1)], of "[''multipart'', uploadID]"]
    by (simp_all add: path_elems_single engine_wf_tmp(2) [OF wf(1)])
  have pc: "path_comps ?path = path_comps (dataDir e) @ ?es"
    using path_comps_Join_good [OF dc(1), of "[name]"] nm dc(2)
    by (simp add: path_elems_single)
  have lp: "last (path_comps ?path) = (Itoa pn @ ''.tmp-'') @ ?u" unfolding pc by (simp add: name_def)
  have c1: "carries env (next_uuid d) (last (path_comps ?path))"
      "\<forall>m. carries env m (last (path_comps ?path)) \<longrightarrow> m = next_uuid d"
    unfolding lp using carries_self(1,3) [OF wf(2) more] by blast+
  obtain wr d4 where w: "writeDurably env ?path ?path (copyWithContext env ?path r 0) d3 = (wr, d4)"
    by fastforce
  have u4: "next_uuid d4 = Suc (next_uuid d)" using copy.uuid_kept [OF w] u by simp
  have adds: "only_adds env d d4"
  proof (rule only_addsI [OF wf(3), where Q = "{path_comps ?path}"])
    show "file_at d4 q = file_at d q" if "q \<notin> {path_comps ?path}" for q
      using copy.others_kept [OF w, of q] that f by simp
    show "\<exists>k. next_uuid d \<le> k \<and> k < next_uuid d4 \<and> carries env k (last q)
            \<and> (\<forall>m. carries env m (last q) \<longrightarrow> m = k)" if "q \<in> {path_comps ?path}" for q
    proof -
      from that have q: "q = path_comps ?path" by simp
      show ?thesis unfolding q by (intro exI [of _ "next_uuid d"] conjI c1) (simp_all add: u4)
    qed
  qed (simp add: u4)
  note canon = full_comps(3,4) [OF wf(1) es]
  have absent: "file_at d3 (path_comps ?path) = None" "file_at d (path_comps ?path) = None"
    using ids_fresh_absent [OF wf(3) c1(1)] f by simp_all
  have ok: "canonical (filepath_Join ?es) \<and> blob env e d (filepath_Join ?es) = None
         \<and> blob env e d4 (filepath_Join ?es) = Some (reader_bytes r) \<and> n = int (length (reader_bytes r))"
    if "wr = Inr n" for n
    using copy.success(1,2) [OF w [unfolded that] absent(1) TrueI] absent(2) canon
    by (simp add: blob_canonical [OF wf(1)] pc [symmetric])
  note cases = run [unfolded WritePart_def c prod.case Let_def m n3 u(4) name_def [symmetric]]
  consider (early) "d' = d1 \<or> d' = d2" "\<not> is_ok res"
    | (durable) "d' = d4" "res = (case wr of Inl x \<Rightarrow> Inl x | Inr n \<Rightarrow> Inr (filepath_Join ?es, n))"
    using cases w by (auto split: option.splits sum.splits prod.splits if_splits)
  then have "only_adds env d d' \<and> (res = Inr (sp, n) \<longrightarrow> sp = filepath_Join ?es
         \<and> canonical sp \<and> blob env e d sp = None
         \<and> blob env e d' sp = Some (reader_bytes r) \<and> n = int (length (reader_bytes r)))"
  proof cases
    case early
    have "only_adds env d d'"
      using early f u by (intro only_adds_same_files [OF wf(3)]) auto
    with early show ?thesis by auto
  next
    case durable
    then show ?thesis using adds ok by (auto split: sum.splits)
  qed
  then show "only_adds env d d'"
    and "res = Inr (sp, n) \<Longrightarrow>
         sp = filepath_Join [''.tmp'', ''multipart'', uploadID, Itoa pn @ ''.tmp-'' @ ?u]
         \<and> canonical sp \<and> blob env e d sp = None
         \<and> blob env e d' sp = Some (reader_bytes r) \<and> n = int (length (reader_bytes r))"
    unfolding name_def by blast+
qed


section \<open>Reads and deletes\<close>

lemma Read_law:
  assumes "Read env e sp d = (res, d')"
  shows "files d' = files d \<and> next_uuid d' = next_uuid d"
    and "res = Inr (File c) \<Longrightarrow> blob env e d sp = Some c"
    and "res = Inl ErrNotFound \<Longrightarrow> blob env e d sp = None"
proof -
  obtain x d1 where c: "ctx_err env d = (x, d1)" by fastforce
  have k: "files d1 = files d" "next_uuid d1 = next_uuid d" using ctx_err_files [OF c] by auto
  have f: "file_at d1 q = file_at d q" for q using k(1) by (rule file_at_cong)
  have x: "x \<noteq> Some ErrNotFound" using c by (auto simp: ctx_err_def os_call_def split: if_splits)
  have r: "resolveStoragePath env e sp \<noteq> Inl ErrNotFound"
    by (auto simp: resolveStoragePath_def Let_def)
  have "(files d' = files d \<and> next_uuid d' = next_uuid d)
        \<and> (res = Inr (File c) \<longrightarrow> blob env e d sp = Some c)
        \<and> (res = Inl ErrNotFound \<longrightarrow> blob env e d sp = None)"
  proof (cases "x = None \<and> (\<exists>full. resolveStoragePath env e sp = Inr full)")
    case True
    then obtain full where full: "resolveStoragePath env e sp = Inr full" by blast
    obtain o1 d2 where o: "os_Open env full d1 = (o1, d2)" by fastforce
    have nf: "o1 = Inl ErrNotExist \<Longrightarrow> file_at d1 (path_comps full) = None" "o1 \<noteq> Inl ErrNotFound"
      using o by (auto simp: os_Open_def Let_def file_at_def split: if_splits option.splits)
    show ?thesis
      using assms c True full o k os_Open_files [OF o] os_Open_File [of env full d1 c d2] nf f
      by (auto simp: Read_def blob_def split: sum.splits if_splits)
  next
    case False
    then show ?thesis
      using assms c x r k by (auto simp: Read_def split: option.splits sum.splits)
  qed
  then show "files d' = files d \<and> next_uuid d' = next_uuid d"
    "res = Inr (File c) \<Longrightarrow> blob env e d sp = Some c"
    "res = Inl ErrNotFound \<Longrightarrow> blob env e d sp = None" by blast+
qed

lemma Dir_clean:
  assumes "IsAbs p" and "filepath_Clean p = p" and "path_comps p \<noteq> []"
  shows "filepath_Dir p = ''/'' @ join_with ''/'' (butlast (path_comps p))"
proof -
  obtain cs x where cs: "path_comps p = cs @ [x]" using assms(3) by (metis append_butlast_last_id)
  have good: "\<forall>e\<in>set (cs @ [x]). good_elem e" using path_comps_good [of _ p] cs by simp
  then have x: "CHR ''/'' \<notin> set x" by (simp add: good_elem_def)
  have j: "join_with ''/'' (cs @ [x]) = (if cs = [] then [] else join_with ''/'' cs @ ''/'') @ x"
    by (induction cs) (auto simp: join_with_Cons_ne)
  have p: "p = ''/'' @ join_with ''/'' (cs @ [x])" using Clean_abs [OF assms(1)] assms(2) cs by simp
  have drop: "rev (dropWhile (\<lambda>c. c \<noteq> CHR ''/'') (rev (s @ ''/'' @ x))) = s @ ''/''" for s
    using x by (simp add: dropWhile_append2 dropWhile_append)
  have d: "filepath_Dir p = filepath_Clean (''/'' @ (if cs = [] then [] else join_with ''/'' cs @ ''/''))"
    using drop [of "[]"] drop [of "''/'' @ join_with ''/'' cs"] p j by (simp add: filepath_Dir_def)
  have pe: "path_elems (''/'' @ (if cs = [] then [] else join_with ''/'' cs @ ''/'')) = cs"
    using good path_elems_sep [of "[]"] path_elems_sep [of "join_with ''/'' cs" "[]"]
    by (auto simp: path_elems_join_good)
  have "path_comps (''/'' @ (if cs = [] then [] else join_with ''/'' cs @ ''/'')) = cs"
    unfolding path_comps_def pe using good by (simp add: clean_elems_good_id)
  then show ?thesis unfolding d by (subst Clean_abs) (simp_all add: cs)
qed

lemma Dir_props:
  assumes "IsAbs p" and "filepath_Clean p = p" and "path_comps p \<noteq> []"
  shows "IsAbs (filepath_Dir p)" and "path_comps (filepath_Dir p) = butlast (path_comps p)"
    and "filepath_Clean (filepath_Dir p) = filepath_Dir p"
proof -
  have good: "\<forall>e\<in>set (butlast (path_comps p)). good_elem e"
    using path_comps_good [of _ p] by (auto dest: in_set_butlastD)
  show a: "IsAbs (filepath_Dir p)" and b: "path_comps (filepath_Dir p) = butlast (path_comps p)"
    unfolding Dir_clean [OF assms] using path_comps_abs_join [OF good] by simp_all
  show "filepath_Clean (filepath_Dir p) = filepath_Dir p"
    using Clean_abs [OF a] Dir_clean [OF assms] b by simp
qed

text \<open>Removing files only: what \<open>Delete\<close>, \<open>DeleteUploadParts\<close> and the reconciliation do.\<close>

definition only_removes :: "disk \<Rightarrow> disk \<Rightarrow> bool" where
  "only_removes d d' \<longleftrightarrow> (\<forall>q c. file_at d' q = Some c \<longrightarrow> file_at d q = Some c) \<and> next_uuid d' = next_uuid d"

lemma only_removes_refl [simp]: "only_removes d d"
  by (simp add: only_removes_def)

lemma only_removes_trans: "only_removes d d1 \<Longrightarrow> only_removes d1 d2 \<Longrightarrow> only_removes d d2"
  by (auto simp: only_removes_def)

lemma only_removes_fresh: "only_removes d d' \<Longrightarrow> ids_fresh env d \<Longrightarrow> ids_fresh env d'"
  by (fastforce simp: only_removes_def ids_fresh_def)

lemma only_removes_files: "files d' = files d \<Longrightarrow> next_uuid d' = next_uuid d \<Longrightarrow> only_removes d d'"
  using file_at_cong [of d' d] by (simp add: only_removes_def)

lemma os_Remove_only: "os_Remove env p d = (r, d') \<Longrightarrow> only_removes d d'"
  using os_Remove_uuid os_Remove_file_at [of env p d r d'] by (auto simp: only_removes_def split: if_splits)

lemma os_RemoveAll_only: "os_RemoveAll env p d = (r, d') \<Longrightarrow> only_removes d d'"
  using os_RemoveAll_uuid os_RemoveAll_shrinks [of env p d r d'] by (fastforce simp: only_removes_def)

lemma prune_loop_frame:
  "IsAbs cur \<Longrightarrow> filepath_Clean cur = cur \<Longrightarrow>
   (\<not> prefix q (path_comps cur) \<longrightarrow> file_at (prune_loop env e root n cur d) q = file_at d q)
   \<and> only_removes d (prune_loop env e root n cur d)"
proof (induction n arbitrary: cur d)
  case (Suc n)
  obtain r d1 where r: "os_Remove env cur d = (r, d1)" by fastforce
  have f: "\<not> prefix q (path_comps cur) \<longrightarrow> file_at d1 q = file_at d q"
    using os_Remove_file_at [OF r, of q] by auto
  note rm = os_Remove_only [OF r]
  show ?case
  proof (cases "cur = dataDir e \<or> cur = root \<or> r \<noteq> None")
    case True
    then show ?thesis using r f rm by auto
  next
    case False
    have ne: "path_comps cur \<noteq> []"
      using r False by (auto simp: os_Remove_def Let_def split: if_splits option.splits node.splits)
    note dir = Dir_props [OF Suc.prems ne]
    have p: "prefix q (butlast (path_comps cur)) \<Longrightarrow> prefix q (path_comps cur)"
      using prefix_order.trans [OF _ prefixeq_butlast] .
    show ?thesis
      using Suc.IH [OF dir(1,3), of d1] False r f rm p dir(2)
      by (auto intro: only_removes_trans)
  qed
qed simp


lemma Delete_law:
  assumes wf: "engine_wf e" and sp: "canonical sp" and run: "Delete env e sp d = (r, d')"
  shows "only_removes d d'"
    and "r = None \<Longrightarrow> blob env e d' sp = None"
    and "canonical sp' \<Longrightarrow> \<not> prefix (split_on CHR ''/'' sp') (split_on CHR ''/'' sp) \<Longrightarrow>
         blob env e d' sp' = blob env e d sp'"
proof -
  obtain x d1 where c: "ctx_err env d = (x, d1)" by fastforce
  obtain full where full: "resolveStoragePath env e sp = Inr full"
    and comps: "path_comps full = path_comps (dataDir e) @ split_on CHR ''/'' sp"
    using canonical_comps [OF wf sp] by blast
  note fp = resolveStoragePath_Inr(1,2) [OF wf full]
  have ne: "path_comps full \<noteq> []" by (simp add: comps)
  obtain y d2 where rm: "os_Remove env full d1 = (y, d2)" by fastforce
  define d3 where "d3 = pruneEmptyParents env e full d2"
  have k1: "file_at d1 q = file_at d q" "only_removes d d1" for q
    using ctx_err_eq [OF c] by (simp_all add: only_removes_def)
  have k2: "q \<noteq> path_comps full \<Longrightarrow> file_at d2 q = file_at d1 q" for q
    using os_Remove_file_at [OF rm, of q] by simp
  have d2: "only_removes d d2" using only_removes_trans [OF k1(2) os_Remove_only [OF rm]] .
  have k3: "only_removes d2 d3" "\<not> prefix q (path_comps full) \<Longrightarrow> file_at d3 q = file_at d2 q" for q
    using prune_loop_frame [OF Dir_props(1,3) [OF fp ne], of q env e _ _ d2] Dir_props(2) [OF fp ne]
      prefix_order.trans [OF _ prefixeq_butlast [of "path_comps full"], of q]
    by (auto simp: d3_def pruneEmptyParents_def Let_def simp del: prune_loop.simps split: sum.splits)
  have gone: "file_at d2 (path_comps full) = None" if "y = None \<or> y = Some ErrNotExist"
    using that rm os_Remove_file_at [OF rm, of "path_comps full"]
    by (auto dest!: os_Remove_ErrNotExist simp: file_at_def)
  have gone3: "file_at d3 (path_comps full) = None" if "y = None"
    using gone that k3(1) by (cases "file_at d3 (path_comps full)") (auto simp: only_removes_def)
  have res: "(d' = d1 \<and> r \<noteq> None) \<or> (d' = d2 \<and> (r = None \<longrightarrow> y = Some ErrNotExist))
      \<or> (d' = d3 \<and> y = None)"
    using run c full rm by (auto simp: Delete_def d3_def split: option.splits if_splits)
  then show "only_removes d d'"
    using k1(2) d2 only_removes_trans [OF d2 k3(1)] by auto
  have "r = None \<Longrightarrow> file_at d' (path_comps full) = None" using res gone gone3 by auto
  then show "r = None \<Longrightarrow> blob env e d' sp = None" by (simp add: blob_def full)
  assume sp': "canonical sp'" "\<not> prefix (split_on CHR ''/'' sp') (split_on CHR ''/'' sp)"
  let ?q = "path_comps (dataDir e) @ split_on CHR ''/'' sp'"
  have q: "\<not> prefix ?q (path_comps full)" using sp'(2) by (simp add: comps)
  then have "?q \<noteq> path_comps full" by auto
  with q res k1(1) k2 k3(2) have "file_at d' ?q = file_at d ?q" by auto
  then show "blob env e d' sp' = blob env e d sp'" by (simp add: blob_canonical [OF wf sp'(1)])
qed

lemma Delete_object_law:
  assumes "engine_wf e" and "object_path sp" and "Delete env e sp d = (r, d')"
    and "object_path sp'" and "sp' \<noteq> sp"
  shows "blob env e d' sp' = blob env e d sp'"
proof (rule Delete_law(3) [OF assms(1) _ assms(3)])
  have "length (split_on CHR ''/'' sp') = length (split_on CHR ''/'' sp)"
    using assms(2,4) by (simp add: object_path_def)
  moreover have "split_on CHR ''/'' sp' \<noteq> split_on CHR ''/'' sp" using assms(5) split_on_inj by metis
  ultimately show "\<not> prefix (split_on CHR ''/'' sp') (split_on CHR ''/'' sp)"
    by (auto simp: prefix_def)
qed (use assms in \<open>simp_all add: object_path_def\<close>)

lemma DeleteUploadParts_law:
  assumes wf: "engine_wf e" and id: "good_elem uploadID"
    and run: "DeleteUploadParts env e uploadID d = (r, d')"
  shows "only_removes d d'"
    and "canonical sp \<Longrightarrow> \<not> prefix [''.tmp'', ''multipart'', uploadID] (split_on CHR ''/'' sp) \<Longrightarrow>
         blob env e d' sp = blob env e d sp"
    and "r = None \<Longrightarrow> canonical sp \<Longrightarrow> prefix [''.tmp'', ''multipart'', uploadID] (split_on CHR ''/'' sp) \<Longrightarrow>
         blob env e d' sp = None"
proof -
  let ?dir = "filepath_Join [tmpDir e, ''multipart'', uploadID]"
  have dc: "path_comps ?dir = path_comps (dataDir e) @ [''.tmp'', ''multipart'', uploadID]"
    using id path_comps_Join_good [OF engine_wf_tmp(1) [OF wf], of "[''multipart'', uploadID]"]
    by (simp add: path_elems_single engine_wf_tmp(2) [OF wf] good_elem_def)
  obtain x d1 where c: "ctx_err env d = (x, d1)" by fastforce
  obtain y d2 where rm: "os_RemoveAll env ?dir d1 = (y, d2)" by fastforce
  have k1: "file_at d1 q = file_at d q" "only_removes d d1" for q
    using ctx_err_eq [OF c] by (simp_all add: only_removes_def)
  have res: "(d' = d1 \<and> r \<noteq> None) \<or> (d' = d2 \<and> r = y)"
    using run c rm by (auto simp: DeleteUploadParts_def split: option.splits)
  then show "only_removes d d'"
    using k1(2) only_removes_trans [OF k1(2) os_RemoveAll_only [OF rm]] by auto
  show "blob env e d' sp = blob env e d sp"
    if "canonical sp" "\<not> prefix [''.tmp'', ''multipart'', uploadID] (split_on CHR ''/'' sp)"
    using res k1(1) os_RemoveAll_outside [OF rm] that
    by (auto simp: blob_canonical [OF wf] dc)
  show "blob env e d' sp = None"
    if "r = None" "canonical sp" "prefix [''.tmp'', ''multipart'', uploadID] (split_on CHR ''/'' sp)"
    using res that rm os_RemoveAll_inside [of env ?dir d1 d2]
    by (auto simp: blob_canonical [OF wf] dc)
qed


section \<open>Runs without failures\<close>

definition reliable :: "os_env \<Rightarrow> bool" where
  "reliable env \<longleftrightarrow> (\<forall>t. \<not> io_fails env t)"

lemma reliable_calls:
  assumes "reliable env"
  shows "os_call env x d = (None, tick d)" and "ctx_err env d = (None, tick d)" and "\<not> faulty env d"
  using assms by (simp_all add: reliable_def os_call_def ctx_err_def faulty_def)

lemma New_wf:
  assumes "IsAbs (getwd env)" and "New env dir d = (Inr e, d')"
  shows "engine_wf e"
proof -
  have "IsAbs (filepath_Abs (getwd env) p) \<and>
        filepath_Clean (filepath_Abs (getwd env) p) = filepath_Abs (getwd env) p" for p
  proof (cases "IsAbs p")
    case True
    then show ?thesis by (simp add: filepath_Abs_def IsAbs_Clean Clean_Clean_abs)
  next
    case False
    have j: "IsAbs (join_with ''/'' [getwd env, p])" using assms(1) by (rule IsAbs_join)
    from False show ?thesis
      unfolding filepath_Abs_def Join_abs [OF assms(1)]
      using IsAbs_Clean [OF j] Clean_Clean_abs [OF j] by simp
  qed
  with assms(2) show ?thesis
    by (auto simp: New_def Let_def engine_wf_def split: option.splits prod.splits)
qed

lemma copyWithContext_reliable:
  assumes "reliable env"
  shows "file_at d (path_comps dst) = Some c \<Longrightarrow> \<forall>x\<in>set src. snd x = None \<Longrightarrow>
         \<exists>n d'. copyWithContext env dst src w d = ((n, None), d')"
proof (induction src arbitrary: w d c)
  case Nil
  then show ?case using assms by (simp add: reliable_calls)
next
  case (Cons x src)
  obtain buf where x: "x = (buf, None)" using Cons.prems(2) by (cases x) simp
  show ?case
  proof (cases "buf = []")
    case True
    then show ?thesis
      using Cons.IH [of "tick d" c w] Cons.prems x assms by (simp add: reliable_calls)
  next
    case False
    have m: "map_of (files d) (path_comps dst) = Some (File c)" using Cons.prems(1) by (simp add: file_at_Some)
    define d2 where "d2 = (tick (tick d))\<lparr>files := AList.update (path_comps dst) (File (c @ buf)) (files d)\<rparr>"
    have wr: "os_Write env dst buf (tick d) = ((length buf, None), d2)"
      using m assms by (simp add: os_Write_def Let_def reliable_calls d2_def)
    have "file_at d2 (path_comps dst) = Some (c @ buf)" by (simp add: d2_def file_at_def update_conv')
    from Cons.IH [OF this, of "w + int (length buf)"] Cons.prems(2) x False assms wr
    show ?thesis by (simp add: reliable_calls Let_def)
  qed
qed


text \<open>
  Without failures a durable write to a place the tree admits succeeds: the temporary file's
  directory exists, and every ancestor of the final path is a directory or missing.
\<close>

lemma writeDurably_reliable:
  assumes rel: "reliable env" and src: "\<forall>x\<in>set r. snd x = None"
    and temp: "is_dir (files d) (butlast (path_comps temp))" "\<not> is_dir (files d) (path_comps temp)"
    and final: "IsAbs final" "filepath_Clean final = final" "path_comps final \<noteq> []"
      "\<forall>q\<in>set (ancestors (butlast (path_comps final))). map_of (files d) q = None \<or> map_of (files d) q = Some Dir"
      "\<not> is_dir (files d) (path_comps final)"
    and apart: "\<not> prefix (path_comps temp) (path_comps final)"
  shows "\<exists>n d'. writeDurably env temp final (copyWithContext env temp r 0) d = (Inr n, d')"
proof -
  let ?t = "path_comps temp" and ?f = "path_comps final"
  define d1 where "d1 = (tick d)\<lparr>files := AList.update ?t (File []) (files d)\<rparr>"
  have cr: "os_Create env temp d = (None, d1)"
    using temp rel by (simp add: os_Create_def Let_def reliable_calls d1_def)
  have t1: "file_at d1 ?t = Some []" by (simp add: d1_def file_at_def update_conv')
  obtain n d2 where cp: "copyWithContext env temp r 0 d1 = ((n, None), d2)"
    using copyWithContext_reliable [OF rel t1 src, of 0] by blast
  have n1: "map_of (files d1) q = map_of (files d) q" if "q \<noteq> ?t" for q
    using that by (simp add: d1_def update_conv')
  have n2: "map_of (files d2) q = map_of (files d) q" if "q \<noteq> ?t" for q
    using copyWithContext_nodes [OF cp that] n1 [OF that] by simp
  have t2: "\<exists>c. map_of (files d2) ?t = Some (File c)"
    using copyWithContext_content [OF cp t1] by (auto simp: file_at_Some)
  note dir = Dir_props [OF final(1-3)]
  let ?as = "ancestors (butlast ?f)"
  have notmp: "q \<noteq> ?t" if "q \<in> set ?as" for q
  proof
    assume "q = ?t"
    with that have "prefix ?t (butlast ?f)" by (auto simp: ancestors_def)
    with apart prefix_order.trans [OF _ prefixeq_butlast] show False by blast
  qed
  define d4 where "d4 = tick (tick d2)"
  define d5 where "d5 = (tick d4)\<lparr>files := fold mkdir_missing ?as (files d2)\<rparr>"
  have mk: "os_MkdirAll env (filepath_Dir final) d4 = (None, d5)"
    using rel final(4) n2 notmp
    by (auto simp: os_MkdirAll_def Let_def reliable_calls dir(2) d4_def d5_def list_all_iff)
  have n5: "map_of (files d5) q = (if q \<in> set ?as \<and> map_of (files d2) q = None then Some Dir else map_of (files d2) q)" for q
    by (simp add: d5_def map_of_fold_mkdir)
  have t5: "\<exists>c. map_of (files d5) ?t = Some (File c)" using t2 n5 by auto
  then obtain c where c: "map_of (files d5) ?t = Some (File c)" by blast
  have p5: "is_dir (files d5) (butlast ?f)"
  proof (cases "butlast ?f = []")
    case False
    then have "butlast ?f \<in> set ?as" by (simp add: ancestors_def)
    with final(4) n5 n2 notmp show ?thesis by (auto simp: is_dir_def)
  qed (simp add: is_dir_def)
  have "?f \<notin> set ?as"
  proof
    assume "?f \<in> set ?as"
    then have "prefix ?f (butlast ?f)" by (simp add: ancestors_def)
    then have "length ?f \<le> length (butlast ?f)" by (rule prefix_length_le)
    then show False using final(3) by (cases ?f rule: rev_cases) simp_all
  qed
  moreover have "?f \<noteq> ?t" using apart by auto
  ultimately have f5: "\<not> is_dir (files d5) ?f"
    using final(3,5) n5 n2 by (simp add: is_dir_def)
  define d6 where "d6 = (tick d5)\<lparr>files := AList.update ?f (File c) (AList.delete ?t (files d5))\<rparr>"
  have rn: "os_Rename env temp final d5 = (None, d6)"
    using c p5 f5 rel by (simp add: os_Rename_def Let_def reliable_calls d6_def)
  have bf: "butlast ?f \<noteq> ?f" using final(3) by (metis append_butlast_last_id not_Cons_self2 self_append_conv)
  have "butlast ?f \<noteq> ?t" using apart prefixeq_butlast [of ?f] by metis
  with p5 bf have p6: "is_dir (files d6) (butlast ?f)"
    by (simp add: is_dir_def d6_def update_conv' delete_conv')
  have sy: "\<exists>d7. syncDir env (filepath_Dir final) d6 = (None, d7)"
    using p6 rel by (simp add: syncDir_def os_Open_def Let_def reliable_calls dir(2))
  then show ?thesis
    using cr cp mk rn rel by (auto simp: writeDurably_def reliable_calls d4_def)
qed


section \<open>An example store\<close>

text \<open>A small world the witnesses of the development are evaluated in.\<close>

definition sample_env :: os_env where
  "sample_env = \<lparr>io_fails = (\<lambda>t. False), io_short = (\<lambda>t. 0),
     uuid_str = (\<lambda>n. replicate 35 CHR ''0'' @ [''0123456789'' ! (n mod 10)]),
     uuid_count = 10, getwd = ''/srv''\<rparr>"

definition sample_engine :: engine where
  "sample_engine = \<lparr>dataDir = ''/srv/data'', tmpDir = ''/srv/data/.tmp''\<rparr>"

definition sample_disk :: disk where
  "sample_disk = \<lparr>files = [([''srv''], Dir), ([''srv'', ''data''], Dir), ([''srv'', ''data'', ''.tmp''], Dir)],
     io_tick = 0, next_uuid = 0\<rparr>"

lemma sample_engine_wf: "engine_wf sample_engine"
  by code_simp

lemma sample_uuid_wf: "uuid_wf sample_env"
proof -
  have inj: "inj_on (uuid_str sample_env) {..<10}"
  proof (rule inj_onI)
    fix i j :: nat
    assume ij: "i \<in> {..<10}" "j \<in> {..<10}" and "uuid_str sample_env i = uuid_str sample_env j"
    then have "''0123456789'' ! i = ''0123456789'' ! j" by (simp add: sample_env_def)
    moreover have "distinct ''0123456789''" by simp
    ultimately show "i = j" using ij nth_eq_iff_index_eq [of "''0123456789''" i j] by simp
  qed
  have "''0123456789'' ! (n mod 10) \<in> set ''0123456789''" for n by (rule nth_mem) simp
  then have "''0123456789'' ! (n mod 10) \<in> set ''0123456789abcdef-''" for n by fastforce
  with inj show ?thesis by (auto simp: uuid_wf_def sample_env_def)
qed

lemma sample_fresh: "ids_fresh sample_env sample_disk"
  by (auto simp: ids_fresh_def sample_disk_def file_at_def split: if_splits)

section \<open>Properties of the engine\<close>

text \<open>
  C5: path containment.  Whatever key, bucket name or storage path a request names, a
  path the engine resolves lies below its data directory.
\<close>

theorem paths_contained:
  assumes "engine_wf e"
  shows "(resolveStoragePath env e sp = Inr full \<longrightarrow> prefix (path_comps (dataDir e)) (path_comps full))
    \<and> (resolveKeyPath env e bucketName key = Inr (sp', full') \<longrightarrow>
         prefix (path_comps (dataDir e)) (path_comps full'))"
proof (intro conjI impI)
  show "resolveStoragePath env e sp = Inr full \<Longrightarrow> prefix (path_comps (dataDir e)) (path_comps full)"
    by (rule resolveStoragePath_Inr(3) [OF assms])
  have abs: "IsAbs (dataDir e)" using assms by (simp add: engine_wf_def)
  assume "resolveKeyPath env e bucketName key = Inr (sp', full')"
  then have "full' = filepath_Clean (filepath_Join [dataDir e, sp'])" "isWithinBase env (dataDir e) full'"
    by (auto simp: resolveKeyPath_def Let_def split: if_splits option.splits)
  then show "prefix (path_comps (dataDir e)) (path_comps full')"
    using isWithinBase_iff [OF abs] IsAbs_Clean [OF IsAbs_Join [OF abs]] by metis
qed

theorem paths_contained_witness:
  "prefix (path_comps (dataDir sample_engine)) (path_comps ''/srv/data/b/u'')
   \<and> prefix (path_comps (dataDir sample_engine)) (path_comps ''/srv/data/b/k/x'')"
proof -
  have "resolveStoragePath sample_env sample_engine ''b/u'' = Inr ''/srv/data/b/u''"
    and "resolveKeyPath sample_env sample_engine ''b'' ''k//x'' = Inr (''b/k/x'', ''/srv/data/b/k/x'')"
    by code_simp+
  with paths_contained [OF sample_engine_wf, of sample_env "''b/u''" "''/srv/data/b/u''" "''b''" "''k//x''"
      "''b/k/x''" "''/srv/data/b/k/x''"]
  show ?thesis by blast
qed

text \<open>
  C4: a durable write.  For every pattern of I/O failures and cancellations, \<open>Write\<close> keeps
  every existing file; when it reports success, the path it returns was unused and now holds
  exactly the bytes of the request body, whose number it reports.
\<close>

theorem write_durable:
  assumes "engine_wf e" and "uuid_wf env" and "ids_fresh env d" and "next_uuid d + 2 \<le> uuid_count env"
    and "good_elem bucketName" and "Write env e bucketName key r d = (res, d')"
  shows "(\<forall>sp c. blob env e d sp = Some c \<longrightarrow> blob env e d' sp = Some c)
    \<and> (\<forall>sp n. res = Inr (sp, n) \<longrightarrow> blob env e d sp = None
         \<and> blob env e d' sp = Some (reader_bytes r) \<and> n = int (length (reader_bytes r)))"
  using Write_law [OF assms] only_adds_blob by blast

theorem write_durable_witness:
  "\<exists>res d'. Write sample_env sample_engine ''b'' ''k'' [(''abc'', None), (''de'', None)] sample_disk = (res, d')
     \<and> (\<forall>sp n. res = Inr (sp, n) \<longrightarrow> blob sample_env sample_engine d' sp = Some ''abcde'' \<and> n = 5)"
proof -
  obtain res d' where w: "Write sample_env sample_engine ''b'' ''k''
      [(''abc'', None), (''de'', None)] sample_disk = (res, d')" by fastforce
  have b: "good_elem ''b''" by code_simp
  have m: "next_uuid sample_disk + 2 \<le> uuid_count sample_env" by code_simp
  from write_durable [OF sample_engine_wf sample_uuid_wf sample_fresh m b w] w
  show ?thesis by auto
qed

text \<open>
  Read after write.  Whatever fails, reading the path of a successful write gives the
  bytes written, or an I/O or cancellation error; it is never reported missing.
\<close>

theorem write_then_read:
  assumes "engine_wf e" and "uuid_wf env" and "ids_fresh env d" and "next_uuid d + 2 \<le> uuid_count env"
    and "good_elem bucketName" and "Write env e bucketName key r d = (Inr (sp, n), d')"
  shows "fst (Read env e sp d') \<in> {Inr (File (reader_bytes r)), Inl ErrContext, Inl ErrIO}"
proof -
  have b: "blob env e d' sp = Some (reader_bytes r)" using Write_law(2) [OF assms refl] by blast
  then obtain full where full: "resolveStoragePath env e sp = Inr full"
    and f: "file_at d' (path_comps full) = Some (reader_bytes r)"
    by (auto simp: blob_def split: sum.splits)
  have sp: "sp = filepath_Join [bucketName, uuid_str env (next_uuid d)]"
    using Write_law(2) [OF assms refl] by blast
  have "\<forall>x\<in>set [bucketName, uuid_str env (next_uuid d)]. good_elem x"
    using assms(5) uuid_good(1) [OF assms(2)] by simp
  from full_comps(3,4) [OF assms(1) this] have c: "canonical sp" "split_on CHR ''/'' sp \<noteq> []"
    unfolding sp by simp_all
  have ne: "path_comps full \<noteq> []"
    by (rule canonical_comps [OF assms(1) c(1), of env]) (use full c(2) in auto)
  have m: "map_of (files d') (path_comps full) = Some (File (reader_bytes r))" using f by (simp add: file_at_Some)
  show ?thesis
    using ne m full
    by (auto simp: Read_def ctx_err_def os_call_def os_Open_def Let_def is_dir_def
        split: prod.splits option.splits sum.splits if_splits)
qed

theorem write_then_read_witness:
  "\<exists>sp n d'. Write sample_env sample_engine ''b'' ''k'' [(''abc'', None)] sample_disk = (Inr (sp, n), d')
     \<and> fst (Read sample_env sample_engine sp d') \<in> {Inr (File ''abc''), Inl ErrContext, Inl ErrIO}"
proof -
  let ?w = "Write sample_env sample_engine ''b'' ''k'' [(''abc'', None)] sample_disk"
  have ok: "is_ok (fst ?w)" by code_simp
  then obtain sp n d' where w: "?w = (Inr (sp, n), d')"
    by (cases "fst ?w"; cases ?w) auto
  have b: "good_elem ''b''" by code_simp
  have m: "next_uuid sample_disk + 2 \<le> uuid_count sample_env" by code_simp
  from write_then_read [OF sample_engine_wf sample_uuid_wf sample_fresh m b w] w show ?thesis by auto
qed

text \<open>
  C6: without I/O failures a valid request to write succeeds, creating the bucket
  directory when it is missing.
\<close>

theorem write_succeeds:
  assumes rel: "reliable env" and e: "engine_wf e" and u: "uuid_wf env" and b: "good_elem bucketName"
    and key: "resolveKeyPath env e bucketName key = Inr p" and src: "\<forall>x\<in>set r. snd x = None"
    and tmp: "is_dir (files d) (path_comps (tmpDir e))"
      "map_of (files d) (path_comps (tmpDir e) @ [uuid_str env (Suc (next_uuid d)) @ ''.tmp'']) = None"
    and dir: "\<forall>q\<in>set (ancestors (path_comps (dataDir e) @ [bucketName])).
        map_of (files d) q = None \<or> map_of (files d) q = Some Dir"
      "map_of (files d) (path_comps (dataDir e) @ [bucketName, uuid_str env (next_uuid d)]) = None"
  shows "is_ok (fst (Write env e bucketName key r d))"
proof -
  let ?u1 = "uuid_str env (next_uuid d)" and ?u2 = "uuid_str env (Suc (next_uuid d))"
  let ?full = "filepath_Clean (filepath_Join [dataDir e, filepath_Join [bucketName, ?u1]])"
  let ?temp = "filepath_Join [tmpDir e, ?u2 @ ''.tmp'']"
  have es: "\<forall>x\<in>set [bucketName, ?u1]. good_elem x" using b uuid_good(1) [OF u] by simp
  have fc: "path_comps ?full = path_comps (dataDir e) @ [bucketName, ?u1]"
    using full_comps(2) [OF e es] by simp
  have abs: "IsAbs (filepath_Join [dataDir e, filepath_Join [bucketName, ?u1]])"
    by (rule IsAbs_Join [OF engine_wf_tmp(3) [OF e]])
  have tc: "path_comps ?temp = path_comps (dataDir e) @ [''.tmp'', ?u2 @ ''.tmp'']"
    by (rule temp_comps [OF e u])
  have "?u2 @ ''.tmp'' \<noteq> ?u1" using uuid_good(3) [OF u, of "next_uuid d"] by (metis suffixI)
  then have apart: "\<not> prefix (path_comps ?temp) (path_comps ?full)" by (auto simp: tc fc)
  let ?d3 = "(tick d)\<lparr>next_uuid := Suc (Suc (next_uuid d))\<rparr>"
  have "\<exists>n d'. writeDurably env ?temp ?full (copyWithContext env ?temp r 0) ?d3 = (Inr n, d')"
  proof (rule writeDurably_reliable [OF rel src])
    show "is_dir (files ?d3) (butlast (path_comps ?temp))"
      using tmp(1) by (simp add: tc engine_wf_tmp(2) [OF e] butlast_append)
    show "\<not> is_dir (files ?d3) (path_comps ?temp)"
      using tmp(2) by (simp add: tc is_dir_def engine_wf_tmp(2) [OF e])
    show "\<not> is_dir (files ?d3) (path_comps ?full)" using dir(2) by (simp add: fc is_dir_def)
    show "\<forall>q\<in>set (ancestors (butlast (path_comps ?full))).
        map_of (files ?d3) q = None \<or> map_of (files ?d3) q = Some Dir"
      using dir(1) by (simp add: fc butlast_append)
  qed (use apart abs in \<open>simp_all add: fc IsAbs_Clean Clean_Clean_abs\<close>)
  moreover have "isWithinBase env (dataDir e) ?full"
    using isWithinBase_iff [OF engine_wf_tmp(3) [OF e] IsAbs_Clean [OF abs]] by (simp add: fc)
  ultimately show ?thesis
    using key rel by (auto simp: Write_def Let_def reliable_calls new_uuid_def)
qed

theorem write_succeeds_witness:
  "is_ok (fst (Write sample_env sample_engine ''b'' ''k'' [(''abc'', None)] sample_disk))"
proof (rule write_succeeds [OF _ sample_engine_wf sample_uuid_wf])
  show "reliable sample_env" by (simp add: reliable_def sample_env_def)
  show "good_elem ''b''" by code_simp
  show "resolveKeyPath sample_env sample_engine ''b'' ''k'' = Inr (''b/k'', ''/srv/data/b/k'')" by code_simp
  show "\<forall>x\<in>set [(''abc'', None :: go_error option)]. snd x = None" by simp
qed (code_simp)+

text \<open>
  C7: completing a multipart upload on disk.  When every part exists, a successful
  \<open>AssembleParts\<close> has produced a new file with the concatenation of the parts in the given order;
  whatever happens no existing file, in particular no part, is lost.
\<close>

theorem assemble_concatenates:
  assumes "engine_wf e" and "uuid_wf env" and "ids_fresh env d" and "next_uuid d + 2 \<le> uuid_count env"
    and "good_elem bucketName" and "AssembleParts env e bucketName key paths d = (res, d')"
    and "\<forall>p\<in>set paths. blob env e d p \<noteq> None"
  shows "(\<forall>sp c. blob env e d sp = Some c \<longrightarrow> blob env e d' sp = Some c)
    \<and> (\<forall>sp n. res = Inr (sp, n) \<longrightarrow> blob env e d sp = None
         \<and> blob env e d' sp = Some (concat (map (\<lambda>p. the (blob env e d p)) paths)))"
proof -
  have "parts_bytes env e paths d = concat (map (\<lambda>p. the (blob env e d p)) paths)"
    unfolding parts_bytes_def
    by (rule arg_cong [where f = concat], rule map_cong [OF refl]) (use assms(7) in auto)
  with AssembleParts_law [OF assms(1-6)] assms(7) only_adds_blob show ?thesis by metis
qed

definition sample_parts_disk :: disk where
  "sample_parts_disk = sample_disk\<lparr>files := files sample_disk @
     [([''srv'', ''data'', ''.tmp'', ''multipart''], Dir), ([''srv'', ''data'', ''.tmp'', ''multipart'', ''up''], Dir),
      ([''srv'', ''data'', ''.tmp'', ''multipart'', ''up'', ''1''], File ''ab''),
      ([''srv'', ''data'', ''.tmp'', ''multipart'', ''up'', ''2''], File ''c'')]\<rparr>"

theorem assemble_concatenates_witness:
  "\<exists>res d'. AssembleParts sample_env sample_engine ''b'' ''k''
       [''.tmp/multipart/up/2'', ''.tmp/multipart/up/1''] sample_parts_disk = (res, d')
     \<and> (\<forall>sp n. res = Inr (sp, n) \<longrightarrow> blob sample_env sample_engine d' sp = Some ''cab'')"
proof -
  let ?ps = "[''.tmp/multipart/up/2'', ''.tmp/multipart/up/1'']"
  obtain res d' where w: "AssembleParts sample_env sample_engine ''b'' ''k'' ?ps sample_parts_disk = (res, d')"
    by fastforce
  have b: "good_elem ''b''" by code_simp
  have m: "next_uuid sample_parts_disk + 2 \<le> uuid_count sample_env" by code_simp
  have f: "ids_fresh sample_env sample_parts_disk"
    by (auto simp: ids_fresh_def carries_def sample_parts_disk_def sample_disk_def sample_env_def file_at_def
        TrimSuffix_def suffix_def append_eq_Cons_conv split: if_splits)
  have p: "blob sample_env sample_engine sample_parts_disk ''.tmp/multipart/up/2'' = Some ''c''"
      "blob sample_env sample_engine sample_parts_disk ''.tmp/multipart/up/1'' = Some ''ab''" by code_simp+
  from assemble_concatenates [OF sample_engine_wf sample_uuid_wf f m b w] p w
  show ?thesis by auto
qed

text \<open>
  C8: deleting a stored object removes it and no other object, whether or not the
  pruning of the directories that became empty succeeds.
\<close>

theorem delete_only_target:
  assumes "engine_wf e" and "object_path sp" and "Delete env e sp d = (r, d')"
  shows "(r = None \<longrightarrow> blob env e d' sp = None)
    \<and> (\<forall>sp'. object_path sp' \<longrightarrow> sp' \<noteq> sp \<longrightarrow> blob env e d' sp' = blob env e d sp')"
  using Delete_law(2) [OF assms(1) _ assms(3)] Delete_object_law [OF assms] assms(2)
  by (auto simp: object_path_def)


theorem delete_only_target_witness:
  "blob sample_env sample_engine
     (snd (Delete sample_env sample_engine ''b/1'' (sample_disk\<lparr>files := files sample_disk @
        [([''srv'', ''data'', ''b''], Dir), ([''srv'', ''data'', ''b'', ''1''], File ''x''),
         ([''srv'', ''data'', ''b'', ''2''], File ''y'')]\<rparr>))) ''b/2'' = Some ''y''"
proof -
  let ?d = "sample_disk\<lparr>files := files sample_disk @
        [([''srv'', ''data'', ''b''], Dir), ([''srv'', ''data'', ''b'', ''1''], File ''x''),
         ([''srv'', ''data'', ''b'', ''2''], File ''y'')]\<rparr>"
  have p: "object_path ''b/1''" "object_path ''b/2''" by code_simp+
  have b: "blob sample_env sample_engine ?d ''b/2'' = Some ''y''" by code_simp
  obtain r d' where w: "Delete sample_env sample_engine ''b/1'' ?d = (r, d')" by fastforce
  from delete_only_target [OF sample_engine_wf p(1) w] p(2) b w show ?thesis by auto
qed

end
