(* ===== verification/Reconcile.thy ===== *)
theory Reconcile
  imports StorageProofs
begin

text \<open>
  \<open>internal/storage/reconcile.go\<close>: removing the files no metadata row refers to.  The callbacks
  \<open>knownObjects\<close> and \<open>knownUploadIDs\<close> (queries of the metadata store) are arguments.
\<close>

section \<open>Operations\<close>

definition normalizeKnownObjectPath :: "string \<Rightarrow> string \<Rightarrow> string" where
  "normalizeKnownObjectPath bucketName storagePath =
     (let cleaned = filepath_Clean storagePath in
      if firstPathElement cleaned = bucketName then cleaned
      else filepath_Join [bucketName, cleaned])"

definition purgeTmp_step :: "os_env \<Rightarrow> engine \<Rightarrow> string list \<Rightarrow> node \<Rightarrow> disk \<Rightarrow> walk_step \<times> disk" where
  "purgeTmp_step env e p n d =
     (case ctx_err env d of
        (Some err, d1) \<Rightarrow> (Stop err, d1)
      | (None, d1) \<Rightarrow>
          if abs_path p = tmpDir e then (Continue, d1)
          else if n = Dir then
            (if abs_path p = filepath_Join [tmpDir e, ''multipart''] then SkipDir else Continue, d1)
          else case os_Remove env (abs_path p) d1 of
            (Some err, d2) \<Rightarrow> (if err = ErrNotExist then Continue else Stop err, d2)
          | (None, d2) \<Rightarrow> (Continue, d2))"

definition purgeTmp :: "os_env \<Rightarrow> engine \<Rightarrow> disk \<Rightarrow> go_error option \<times> disk" where
  "purgeTmp env e d = WalkDir env (tmpDir e) (purgeTmp_step env e) d"

text \<open>The first walk of \<open>pruneEmptyDirs\<close> collects directories and ignores the walk's error.\<close>

fun collect_dirs :: "os_env \<Rightarrow> string list list \<Rightarrow> string list list \<Rightarrow> disk \<Rightarrow> string list list \<times> disk" where
  "collect_dirs env dirs [] d = (dirs, d)"
| "collect_dirs env dirs (p # ps) d =
     (if map_of (files d) p = Some Dir
      then (case os_call env ErrIO d of
              (Some err, d1) \<Rightarrow> (dirs @ [p], d1)
            | (None, d1) \<Rightarrow> collect_dirs env (dirs @ [p]) ps d1)
      else collect_dirs env dirs ps d)"

fun remove_dirs :: "os_env \<Rightarrow> string \<Rightarrow> string list list \<Rightarrow> disk \<Rightarrow> disk" where
  "remove_dirs env root [] d = d"
| "remove_dirs env root (p # ps) d =
     (if abs_path p = root then remove_dirs env root ps d
      else remove_dirs env root ps (snd (os_Remove env (abs_path p) d)))"

definition pruneEmptyDirs :: "os_env \<Rightarrow> string \<Rightarrow> disk \<Rightarrow> disk" where
  "pruneEmptyDirs env root d =
     (let p = path_comps root; d1 = tick d in
      if faulty env d \<or> map_of (files d) p = None then d1
      else case collect_dirs env [] (walk_list (files d) p) d1 of
        (dirs, d2) \<Rightarrow> remove_dirs env root (rev dirs) d2)"

definition reconcile_step ::
  "os_env \<Rightarrow> engine \<Rightarrow> string list \<Rightarrow> string list \<Rightarrow> node \<Rightarrow> disk \<Rightarrow> walk_step \<times> disk" where
  "reconcile_step env e knownSet p n d =
     (case ctx_err env d of
        (Some err, d1) \<Rightarrow> (Stop err, d1)
      | (None, d1) \<Rightarrow>
          if n = Dir then (Continue, d1)
          else case filepath_Rel (dataDir e) (abs_path p) of
            Inl err \<Rightarrow> (Stop err, d1)
          | Inr relPath \<Rightarrow>
              if filepath_Clean relPath \<in> set knownSet then (Continue, d1)
              else case os_Remove env (abs_path p) d1 of
                (Some err, d2) \<Rightarrow> (if err = ErrNotExist then Continue else Stop err, d2)
              | (None, d2) \<Rightarrow> (Continue, d2))"

fun reconcile_buckets ::
  "os_env \<Rightarrow> engine \<Rightarrow> (string \<Rightarrow> string list result) \<Rightarrow> (string \<times> node) list \<Rightarrow> disk
   \<Rightarrow> go_error option \<times> disk" where
  "reconcile_buckets env e knownObjects [] d = (None, d)"
| "reconcile_buckets env e knownObjects ((bucketName, n) # entries) d =
     (case ctx_err env d of
        (Some err, d1) \<Rightarrow> (Some err, d1)
      | (None, d1) \<Rightarrow>
          if n \<noteq> Dir \<or> bucketName = ''.tmp'' then reconcile_buckets env e knownObjects entries d1
          else case knownObjects bucketName of
            Inl err \<Rightarrow> (Some err, d1)
          | Inr known \<Rightarrow>
              let knownSet = map (normalizeKnownObjectPath bucketName) known;
                  bucketRoot = filepath_Join [dataDir e, bucketName] in
              case WalkDir env bucketRoot (reconcile_step env e knownSet) d1 of
                (Some err, d2) \<Rightarrow> (Some err, d2)
              | (None, d2) \<Rightarrow>
                  reconcile_buckets env e knownObjects entries (pruneEmptyDirs env bucketRoot d2))"

definition Reconcile ::
  "os_env \<Rightarrow> engine \<Rightarrow> (string \<Rightarrow> string list result) \<Rightarrow> disk \<Rightarrow> go_error option \<times> disk" where
  "Reconcile env e knownObjects d =
     (case ctx_err env d of
        (Some err, d1) \<Rightarrow> (Some err, d1)
      | (None, d1) \<Rightarrow>
          (case purgeTmp env e d1 of
             (Some err, d2) \<Rightarrow> (Some err, d2)
           | (None, d2) \<Rightarrow>
               (case os_ReadDir env (dataDir e) d2 of
                  (Inl err, d3) \<Rightarrow> (Some err, d3)
                | (Inr entries, d3) \<Rightarrow> reconcile_buckets env e knownObjects entries d3)))"

fun reconcile_uploads ::
  "os_env \<Rightarrow> string \<Rightarrow> string list \<Rightarrow> (string \<times> node) list \<Rightarrow> disk \<Rightarrow> go_error option \<times> disk" where
  "reconcile_uploads env multipartDir known [] d = (None, d)"
| "reconcile_uploads env multipartDir known ((name, n) # entries) d =
     (case ctx_err env d of
        (Some err, d1) \<Rightarrow> (Some err, d1)
      | (None, d1) \<Rightarrow>
          if n \<noteq> Dir then reconcile_uploads env multipartDir known entries d1
          else if name \<in> set known then reconcile_uploads env multipartDir known entries d1
          else case os_RemoveAll env (filepath_Join [multipartDir, name]) d1 of
            (Some err, d2) \<Rightarrow> (Some err, d2)
          | (None, d2) \<Rightarrow> reconcile_uploads env multipartDir known entries d2)"

definition ReconcileMultipartTmp ::
  "os_env \<Rightarrow> engine \<Rightarrow> string list result \<Rightarrow> disk \<Rightarrow> go_error option \<times> disk" where
  "ReconcileMultipartTmp env e knownUploadIDs d =
     (case ctx_err env d of
        (Some err, d1) \<Rightarrow> (Some err, d1)
      | (None, d1) \<Rightarrow>
          (case knownUploadIDs of
             Inl err \<Rightarrow> (Some err, d1)
           | Inr known \<Rightarrow>
               let multipartDir = filepath_Join [tmpDir e, ''multipart''] in
               (case os_ReadDir env multipartDir d1 of
                  (Inl err, d2) \<Rightarrow> (if err = ErrNotExist then None else Some err, d2)
                | (Inr entries, d2) \<Rightarrow> reconcile_uploads env multipartDir known entries d2)))"


section \<open>Walks that remove files\<close>

definition names_ok :: "string list \<Rightarrow> bool" where
  "names_ok p \<longleftrightarrow> p \<noteq> [] \<and> list_all good_elem p"

text \<open>The shape of a file system: ordinary names, and every node lies in a directory.\<close>

definition fs_wf :: "disk \<Rightarrow> bool" where
  "fs_wf d \<longleftrightarrow> list_all (\<lambda>p. names_ok p \<and> is_dir (files d) (butlast p)) (map fst (files d))"

lemma fs_wfD: "fs_wf d \<Longrightarrow> map_of (files d) p = Some n \<Longrightarrow> names_ok p \<and> is_dir (files d) (butlast p)"
  by (force simp: fs_wf_def list_all_iff dest: map_of_SomeD)

lemma abs_path_comps: "names_ok p \<Longrightarrow> path_comps (abs_path p) = p"
  unfolding names_ok_def abs_path_def list_all_iff by (rule path_comps_abs_join) blast

lemma abs_path_clean: "names_ok p \<Longrightarrow> filepath_Clean (abs_path p) = abs_path p"
  using Clean_abs [of "abs_path p"] by (simp add: abs_path_comps) (simp add: abs_path_def)

lemma abs_path_eq_iff:
  assumes "names_ok p" and "IsAbs q" and "filepath_Clean q = q"
  shows "abs_path p = q \<longleftrightarrow> p = path_comps q"
proof
  assume "p = path_comps q"
  with assms(3) Clean_abs [OF assms(2)] show "abs_path p = q" by (simp add: abs_path_def)
qed (use assms(1) abs_path_comps in auto)

lemma walk_list_set:
  "set (walk_list f root) = {k \<in> fst ` set f. prefix root k}" "sorted (walk_list f root)"
  by (auto simp: walk_list_def)

lemma strict_prefix_less: "strict_prefix p q \<Longrightarrow> (p :: string list) < q"
  by (auto simp: strict_prefix_def prefix_def list_less_def intro!: lexord_append_rightI)
    (metis append_Nil2 list.exhaust)

lemma walk_cases:
  assumes "walk_dir env fn (p # ps) d = (r, d')"
  obtains (missing) "map_of (files d) p = None" and "walk_dir env fn ps d = (r, d')"
  | (stopped) n s d1 where "map_of (files d) p = Some n" and "fn p n d = (s, d1)" and "r \<noteq> None"
      and "files d' = files d1" and "next_uuid d' = next_uuid d1"
  | (skipped) n d1 where "map_of (files d) p = Some n" and "fn p n d = (SkipDir, d1)"
      and "walk_dir env fn (filter (\<lambda>k. \<not> prefix p k) ps) d1 = (r, d')"
  | (continued) n d1 d2 where "map_of (files d) p = Some n" and "fn p n d = (Continue, d1)"
      and "files d2 = files d1" and "next_uuid d2 = next_uuid d1" and "walk_dir env fn ps d2 = (r, d')"
proof (cases "map_of (files d) p")
  case None
  with assms missing show ?thesis by simp
next
  case (Some n)
  obtain s d1 where s: "fn p n d = (s, d1)" by fastforce
  obtain x d2 where x: "os_call env ErrIO d1 = (x, d2)" by fastforce
  note k = os_call_files [OF x]
  show ?thesis
  proof (cases s)
    case Continue
    then show ?thesis
      using assms Some s x k continued [of n d1] stopped [of n s d1]
      by (cases "n = Dir"; cases x) auto
  qed (use assms Some s stopped skipped in auto)
qed

definition prunes :: "disk \<Rightarrow> disk \<Rightarrow> bool" where
  "prunes d d' \<longleftrightarrow>
     (\<forall>q. map_of (files d') q = None \<or> map_of (files d') q = map_of (files d) q) \<and> next_uuid d' = next_uuid d"

lemma prunes_refl [simp]: "prunes d d"
  by (simp add: prunes_def)

lemma prunes_trans: "prunes d d1 \<Longrightarrow> prunes d1 d2 \<Longrightarrow> prunes d d2"
  unfolding prunes_def by metis

lemma prunes_files: "files d' = files d \<Longrightarrow> next_uuid d' = next_uuid d \<Longrightarrow> prunes d d'"
  by (simp add: prunes_def)

lemma prunes_only: "prunes d d' \<Longrightarrow> only_removes d d'"
  unfolding prunes_def only_removes_def file_at_Some by (metis option.distinct(1))

lemma prunes_absent: "prunes d d' \<Longrightarrow> file_at d q = None \<Longrightarrow> file_at d' q = None"
  by (drule prunes_only) (cases "file_at d' q", auto simp: only_removes_def)

lemma os_Remove_prunes:
  assumes "os_Remove env p d = (r, d')"
  shows "prunes d d'"
  using assms os_Remove_uuid [OF assms]
  by (cases rule: os_Remove_cases) (auto simp: prunes_def delete_conv')

text \<open>
  What the callbacks of \<open>purgeTmp\<close> and \<open>Reconcile\<close> promise: they touch at most the entry they are
  called on, remove a file unless \<open>keep\<close> holds of it, and skip exactly the directories in \<open>skip\<close>.
\<close>

locale walker =
  fixes fn :: "string list \<Rightarrow> node \<Rightarrow> disk \<Rightarrow> walk_step \<times> disk"
    and keep :: "string list \<Rightarrow> bool"
    and skip :: "string list \<Rightarrow> bool"
  assumes fn_only: "fn p n d = (s, d') \<Longrightarrow> prunes d d'"
    and fn_frame: "fn p n d = (s, d') \<Longrightarrow> names_ok p \<Longrightarrow> q \<noteq> p \<or> keep q \<or> n = Dir \<Longrightarrow>
      map_of (files d') q = map_of (files d) q"
    and fn_removes: "fn p (File c) d = (s, d') \<Longrightarrow> names_ok p \<Longrightarrow> (\<And>x. s \<noteq> Stop x) \<Longrightarrow> \<not> keep p \<Longrightarrow>
      file_at d' p = None"
    and fn_skip: "fn p n d = (SkipDir, d') \<Longrightarrow> names_ok p \<Longrightarrow> skip p"
    and fn_skips: "fn p Dir d = (s, d') \<Longrightarrow> names_ok p \<Longrightarrow> skip p \<Longrightarrow> s \<noteq> Continue"
begin

lemma walk_frame:
  "walk_dir env fn ps d = (r, d') \<Longrightarrow> list_all names_ok ps \<Longrightarrow>
   prunes d d' \<and> (q \<notin> set ps \<or> keep q \<longrightarrow> map_of (files d') q = map_of (files d) q)"
proof (induction ps arbitrary: d rule: length_induct)
  case (1 ps)
  show ?case
  proof (cases ps)
    case (Cons p qs)
    have p: "names_ok p" and qs: "list_all names_ok qs" using "1.prems"(2) Cons by simp_all
    have "walk_dir env fn (p # qs) d = (r, d')" using "1.prems"(1) Cons by simp
    then show ?thesis
    proof (cases rule: walk_cases)
      case missing
      with "1.IH" [rule_format, of qs d] Cons qs show ?thesis by simp
    next
      case (stopped n s d1)
      with fn_only [of p n d s d1] fn_frame [of p n d s d1 q] p Cons prunes_files [of d' d1] show ?thesis
        by (auto intro: prunes_trans)
    next
      case (skipped n d1)
      moreover have "length (filter (\<lambda>k. \<not> prefix p k) qs) < length ps"
        using Cons by (simp add: le_imp_less_Suc)
      moreover have "list_all names_ok (filter (\<lambda>k. \<not> prefix p k) qs)" using qs by (simp add: list_all_iff)
      ultimately show ?thesis
        using "1.IH" [rule_format, of "filter (\<lambda>k. \<not> prefix p k) qs" d1] Cons
          fn_only [of p n d SkipDir d1] fn_frame [of p n d SkipDir d1 q] p by (auto intro: prunes_trans)
    next
      case (continued n d1 d2)
      then have "prunes d1 d2" by (simp add: prunes_files)
      with continued show ?thesis
        using "1.IH" [rule_format, of qs d2] Cons qs p
          fn_only [of p n d Continue d1] fn_frame [of p n d Continue d1 q] by (auto intro: prunes_trans)
    qed
  qed (use "1.prems" in simp)
qed

text \<open>A walk that ends without error has removed every file on its way that is not to be kept.\<close>

lemma walk_done:
  "walk_dir env fn ps d = (None, d') \<Longrightarrow> list_all names_ok ps \<Longrightarrow> q \<in> set ps \<Longrightarrow> \<not> keep q \<Longrightarrow>
   (\<And>m. prefix m q \<Longrightarrow> \<not> skip m) \<Longrightarrow> file_at d' q = None"
proof (induction ps arbitrary: d rule: length_induct)
  case (1 ps)
  have gone: "file_at d'' q = None \<Longrightarrow> prunes d'' d' \<Longrightarrow> file_at d' q = None" for d''
    by (rule prunes_absent)
  from "1.prems"(3) obtain p qs where Cons: "ps = p # qs" by (cases ps) auto
  have p: "names_ok p" and qs: "list_all names_ok qs" using "1.prems"(2) Cons by simp_all
  have "walk_dir env fn (p # qs) d = (None, d')" using "1.prems"(1) Cons by simp
  then show ?case
  proof (cases rule: walk_cases)
    case missing
    show ?thesis
    proof (cases "q = p")
      case True
      with missing have "file_at d q = None" by (simp add: file_at_def)
      then show ?thesis using gone walk_frame [OF missing(2) qs] by blast
    next
      case False
      with missing "1.IH" [rule_format, of qs d] "1.prems" Cons qs show ?thesis by simp
    qed
  next
    case (skipped n d1)
    let ?fs = "filter (\<lambda>k. \<not> prefix p k) qs"
    have "length ?fs < length ps" using Cons by (simp add: le_imp_less_Suc)
    moreover have "list_all names_ok ?fs" using qs by (simp add: list_all_iff)
    moreover have "\<not> prefix p q" using fn_skip [OF skipped(2) p] "1.prems"(5) by blast
    moreover from this have "q \<in> set ?fs" using "1.prems"(3) Cons by auto
    ultimately show ?thesis using "1.IH" [rule_format, of ?fs d1] skipped "1.prems"(4,5) by blast
  next
    case (continued n d1 d2)
    show ?thesis
    proof (cases "q = p")
      case True
      have "file_at d1 q = None"
      proof (cases n)
        case Dir
        with continued fn_frame [OF continued(2) p, of q] True show ?thesis by (simp add: file_at_def)
      next
        case (File c)
        with continued(2) fn_removes [of p c d Continue d1] p "1.prems"(4) True show ?thesis by simp
      qed
      then have "file_at d2 q = None" using continued(3) file_at_cong [of d2 d1] by simp
      then show ?thesis using gone walk_frame [OF continued(5) qs] by blast
    next
      case False
      with continued "1.IH" [rule_format, of qs d2] "1.prems" Cons qs show ?thesis by simp
    qed
  qed simp
qed

text \<open>What lies below a skipped directory survives: the walk meets the directory first.\<close>

lemma walk_skips:
  assumes m: "skip m" and q: "prefix m q"
  shows "walk_dir env fn ps d = (r, d') \<Longrightarrow> list_all names_ok ps \<Longrightarrow> sorted ps \<Longrightarrow>
   map_of (files d) m = Some Dir \<Longrightarrow> m \<in> set ps \<or> (\<forall>k\<in>set ps. \<not> prefix m k) \<Longrightarrow>
   file_at d' q = file_at d q"
proof (induction ps arbitrary: d rule: length_induct)
  case (1 ps)
  show ?case
  proof (cases "m \<in> set ps")
    case False
    with "1.prems"(5) q have "q \<notin> set ps" by blast
    then show ?thesis using walk_frame [OF "1.prems"(1,2)] by (simp add: file_at_def)
  next
    case True
    then obtain p qs where Cons: "ps = p # qs" by (cases ps) auto
    have p: "names_ok p" and qs: "list_all names_ok qs" "sorted qs" "\<forall>k\<in>set qs. p \<le> k"
      using "1.prems"(2,3) Cons by simp_all
    have "walk_dir env fn (p # qs) d = (r, d')" using "1.prems"(1) Cons by simp
    moreover have apart: "p \<noteq> m \<Longrightarrow> \<not> prefix m p"
      using True Cons qs(3) strict_prefix_less [of m p] by (auto simp: strict_prefix_def)
    ultimately show ?thesis
    proof (cases rule: walk_cases)
      case missing
      then have "p \<noteq> m" using "1.prems"(4) by auto
      with missing "1.IH" [rule_format, of qs d] "1.prems" Cons qs True show ?thesis by simp
    next
      case (stopped n s d1)
      have "q \<noteq> p \<or> n = Dir" using apart q stopped(1) "1.prems"(4) by (cases "p = m") auto
      with fn_frame [OF stopped(2) p, of q] stopped(4) show ?thesis by (auto simp: file_at_def)
    next
      case (skipped n d1)
      let ?fs = "filter (\<lambda>k. \<not> prefix p k) qs"
      have fr: "map_of (files d1) k = map_of (files d) k" if "prefix m k" for k
        using fn_frame [OF skipped(2) p, of k] apart that skipped(1) "1.prems"(4) by (cases "p = m") auto
      have "length ?fs < length ps" using Cons by (simp add: le_imp_less_Suc)
      moreover have "list_all names_ok ?fs" using qs(1) by (simp add: list_all_iff)
      moreover have "sorted ?fs" using qs(2) by (rule sorted_wrt_filter)
      moreover have "m \<in> set ?fs \<or> (\<forall>k\<in>set ?fs. \<not> prefix m k)"
        using True Cons by (auto intro: prefix_order.trans)
      ultimately have "file_at d' q = file_at d1 q"
        using "1.IH" [rule_format, of ?fs d1] skipped(3) fr [of m] "1.prems"(4) by simp
      then show ?thesis using fr [OF q] by (simp add: file_at_def)
    next
      case (continued n d1 d2)
      have "p \<noteq> m" using continued(1,2) fn_skips [of p d Continue d1] p m "1.prems"(4) by auto
      then have fr: "map_of (files d2) k = map_of (files d) k" if "prefix m k" for k
        using fn_frame [OF continued(2) p, of k] apart that continued(3) by auto
      have "m \<in> set qs" using True Cons \<open>p \<noteq> m\<close> by simp
      then have "file_at d' q = file_at d2 q"
        using "1.IH" [rule_format, of qs d2] continued(5) fr [of m] "1.prems"(4) qs Cons by simp
      then show ?thesis using fr [OF q] by (simp add: file_at_def)
    qed
  qed
qed

end


lemma os_Remove_nodes:
  "os_Remove env path d = (r, d') \<Longrightarrow> q \<noteq> path_comps path \<Longrightarrow> map_of (files d') q = map_of (files d) q"
  by (erule os_Remove_cases) (auto simp: delete_conv')

lemma os_Remove_gone:
  "os_Remove env path d = (r, d') \<Longrightarrow> r = None \<or> r = Some ErrNotExist \<Longrightarrow> file_at d' (path_comps path) = None"
  using os_Remove_file_at [of env path d r d' "path_comps path"] os_Remove_ErrNotExist [of env path d d']
  by (auto simp: file_at_def)

interpretation purge: walker "purgeTmp_step env e" "\<lambda>p. abs_path p = tmpDir e"
  "\<lambda>p. abs_path p = filepath_Join [tmpDir e, ''multipart''] \<and> abs_path p \<noteq> tmpDir e" for env e
proof unfold_locales
  fix p n d s d' q c
  obtain x d1 where x: "ctx_err env d = (x, d1)" by fastforce
  obtain y d2 where y: "os_Remove env (abs_path p) d1 = (y, d2)" by fastforce
  note kx = ctx_err_files [OF x]
  show "purgeTmp_step env e p n d = (s, d') \<Longrightarrow> prunes d d'"
    using x y kx prunes_files [of d1 d] os_Remove_prunes [OF y]
    by (auto simp: purgeTmp_step_def split: option.splits if_splits intro: prunes_trans)
  show "map_of (files d') q = map_of (files d) q"
    if "purgeTmp_step env e p n d = (s, d')" "names_ok p" "q \<noteq> p \<or> abs_path q = tmpDir e \<or> n = Dir"
    using that x y kx os_Remove_nodes [OF y, of q]
    by (auto simp: purgeTmp_step_def abs_path_comps split: option.splits if_splits)
  show "file_at d' p = None"
    if "purgeTmp_step env e p (File c) d = (s, d')" "names_ok p" "\<And>x. s \<noteq> Stop x" "abs_path p \<noteq> tmpDir e"
    using that x y os_Remove_gone [OF y]
    by (auto simp: purgeTmp_step_def abs_path_comps split: option.splits if_splits)
  show "purgeTmp_step env e p n d = (SkipDir, d') \<Longrightarrow> names_ok p \<Longrightarrow>
      abs_path p = filepath_Join [tmpDir e, ''multipart''] \<and> abs_path p \<noteq> tmpDir e"
    using x y by (auto simp: purgeTmp_step_def split: option.splits if_splits)
  show "purgeTmp_step env e p Dir d = (s, d') \<Longrightarrow> names_ok p \<Longrightarrow>
      abs_path p = filepath_Join [tmpDir e, ''multipart''] \<and> abs_path p \<noteq> tmpDir e \<Longrightarrow> s \<noteq> Continue"
    using x by (auto simp: purgeTmp_step_def split: option.splits if_splits)
qed

definition known_path :: "engine \<Rightarrow> string list \<Rightarrow> string list \<Rightarrow> bool" where
  "known_path e knownSet p = (case filepath_Rel (dataDir e) (abs_path p) of
     Inl err \<Rightarrow> True | Inr rel \<Rightarrow> filepath_Clean rel \<in> set knownSet)"

interpretation recon: walker "reconcile_step env e knownSet" "known_path e knownSet" "\<lambda>p. False"
  for env e knownSet
proof unfold_locales
  fix p n d s d' q c
  obtain x d1 where x: "ctx_err env d = (x, d1)" by fastforce
  obtain y d2 where y: "os_Remove env (abs_path p) d1 = (y, d2)" by fastforce
  note kx = ctx_err_files [OF x]
  show "reconcile_step env e knownSet p n d = (s, d') \<Longrightarrow> prunes d d'"
    using x y kx prunes_files [of d1 d] os_Remove_prunes [OF y]
    by (auto simp: reconcile_step_def split: option.splits if_splits sum.splits intro: prunes_trans)
  show "map_of (files d') q = map_of (files d) q"
    if "reconcile_step env e knownSet p n d = (s, d')" "names_ok p" "q \<noteq> p \<or> known_path e knownSet q \<or> n = Dir"
    using that x y kx os_Remove_nodes [OF y, of q]
    by (cases "q = p") (auto simp: reconcile_step_def abs_path_comps known_path_def split: option.splits if_splits sum.splits)
  show "file_at d' p = None"
    if "reconcile_step env e knownSet p (File c) d = (s, d')" "names_ok p" "\<And>x. s \<noteq> Stop x"
      "\<not> known_path e knownSet p"
    using that x y os_Remove_gone [OF y]
    by (auto simp: reconcile_step_def abs_path_comps known_path_def split: option.splits if_splits sum.splits)
  show "reconcile_step env e knownSet p n d = (SkipDir, d') \<Longrightarrow> names_ok p \<Longrightarrow> False"
    using x y by (auto simp: reconcile_step_def split: option.splits if_splits sum.splits)
qed simp


section \<open>What reconciliation keeps and removes\<close>

definition keys_ok :: "disk \<Rightarrow> bool" where
  "keys_ok d \<longleftrightarrow> (\<forall>q n. map_of (files d) q = Some n \<longrightarrow> names_ok q)"

lemma fs_wf_keys: "fs_wf d \<Longrightarrow> keys_ok d"
  by (auto simp: keys_ok_def dest: fs_wfD)

lemma keys_ok_prunes: "prunes d d' \<Longrightarrow> keys_ok d \<Longrightarrow> keys_ok d'"
  by (simp add: prunes_def keys_ok_def) (metis option.distinct(1))

lemma walk_list_iff: "k \<in> set (walk_list f root) \<longleftrightarrow> map_of f k \<noteq> None \<and> prefix root k"
  unfolding walk_list_set(1) by (simp add: map_of_eq_None_iff)

lemma walk_list_names: "keys_ok d \<Longrightarrow> list_all names_ok (walk_list (files d) root)"
  by (auto simp: list_all_iff walk_list_iff keys_ok_def)

lemma WalkDir_cases:
  assumes "WalkDir env root fn d = (r, d')"
  obtains (refused) "r \<noteq> None" and "files d' = files d" and "next_uuid d' = next_uuid d"
  | (walked) d1 where "walk_dir env fn (walk_list (files d) (path_comps root)) d1 = (r, d')"
      and "files d1 = files d" and "next_uuid d1 = next_uuid d"
  using assms by (auto simp: WalkDir_def Let_def split: if_splits)


lemma remove_dirs_frame:
  "\<forall>p\<in>set ps. names_ok p \<and> file_at d p = None \<Longrightarrow>
   prunes d (remove_dirs env root ps d) \<and> file_at (remove_dirs env root ps d) q = file_at d q"
proof (induction ps arbitrary: d)
  case (Cons p ps)
  obtain r d1 where r: "os_Remove env (abs_path p) d = (r, d1)" by fastforce
  have p: "path_comps (abs_path p) = p" using Cons.prems by (simp add: abs_path_comps)
  have f: "file_at d1 k = file_at d k" for k
    using os_Remove_file_at [OF r, of k] Cons.prems p by auto
  have "\<forall>k\<in>set ps. names_ok k \<and> file_at d1 k = None" using Cons.prems f by simp
  with Cons.IH [of d1] Cons.IH [of d] Cons.prems r f os_Remove_prunes [OF r] show ?case
    by (auto intro: prunes_trans)
qed simp

lemma collect_dirs_spec:
  "collect_dirs env ds ps d = (ds', d') \<Longrightarrow> files d' = files d \<and> next_uuid d' = next_uuid d \<and>
   (\<forall>p\<in>set ds'. p \<in> set ds \<or> map_of (files d) p = Some Dir)"
proof (induction ps arbitrary: ds d)
  case (Cons p ps)
  obtain x d1 where x: "os_call env ErrIO d = (x, d1)" by fastforce
  have k: "files d1 = files d" "next_uuid d1 = next_uuid d" using os_call_files [OF x] by auto
  show ?case
    using Cons.IH [of "ds @ [p]" d1] Cons.IH [of ds d] Cons.prems x k
    by (auto split: if_splits option.splits)
qed simp

lemma pruneEmptyDirs_frame:
  assumes "keys_ok d"
  shows "prunes d (pruneEmptyDirs env root d) \<and> file_at (pruneEmptyDirs env root d) q = file_at d q"
proof (cases "faulty env d \<or> map_of (files d) (path_comps root) = None")
  case True
  then show ?thesis by (auto simp: pruneEmptyDirs_def Let_def prunes_def)
next
  case False
  obtain ds d2 where c: "collect_dirs env [] (walk_list (files d) (path_comps root)) (tick d) = (ds, d2)"
    by fastforce
  from collect_dirs_spec [OF c] have k: "files d2 = files d" "next_uuid d2 = next_uuid d"
      "\<forall>p\<in>set ds. map_of (files d) p = Some Dir" by auto
  then have "\<forall>p\<in>set (rev ds). names_ok p \<and> file_at d2 p = None"
    using assms by (auto simp: keys_ok_def file_at_def)
  from remove_dirs_frame [OF this, of env root q] False c k
    prunes_trans [OF prunes_files [of d2 d]] file_at_cong [of d2 d]
  show ?thesis by (auto simp: pruneEmptyDirs_def Let_def)
qed

lemma purgeTmp_frame:
  assumes "keys_ok d" and "purgeTmp env e d = (r, d')"
  shows "prunes d d'"
    and "\<not> prefix (path_comps (tmpDir e)) q \<Longrightarrow> map_of (files d') q = map_of (files d) q"
  using assms(2) unfolding purgeTmp_def
proof (atomize (full), cases rule: WalkDir_cases)
  case refused
  then show "prunes d d' \<and> (\<not> prefix (path_comps (tmpDir e)) q \<longrightarrow> map_of (files d') q = map_of (files d) q)"
    by (simp add: prunes_files)
next
  case (walked d1)
  from purge.walk_frame [OF walked(1) walk_list_names [OF assms(1)], of q] walked(2,3)
  show "prunes d d' \<and> (\<not> prefix (path_comps (tmpDir e)) q \<longrightarrow> map_of (files d') q = map_of (files d) q)"
    using prunes_trans [OF prunes_files [of d1 d]] by (auto simp: walk_list_iff)
qed


lemma fs_wf_ancestor:
  assumes "fs_wf d" and "map_of (files d) q = Some n" and "strict_prefix m q" and "m \<noteq> []"
  shows "map_of (files d) m = Some Dir"
  using assms(2,3)
proof (induction q arbitrary: n rule: rev_induct)
  case (snoc x q)
  have "is_dir (files d) q" using fs_wfD [OF assms(1) snoc.prems(1)] by simp
  moreover have m: "prefix m q" using snoc.prems(2) by (auto simp: strict_prefix_def)
  ultimately have "map_of (files d) q = Some Dir" using assms(4) by (auto simp: is_dir_def)
  with snoc.IH [of Dir] m show ?case by (cases "m = q") (auto simp: strict_prefix_def)
qed simp

lemma multipart_comps:
  assumes "engine_wf e"
  shows "IsAbs (filepath_Join [tmpDir e, ''multipart''])"
    and "path_comps (filepath_Join [tmpDir e, ''multipart'']) = path_comps (tmpDir e) @ [''multipart'']"
    and "filepath_Clean (filepath_Join [tmpDir e, ''multipart'']) = filepath_Join [tmpDir e, ''multipart'']"
proof -
  note abs = engine_wf_tmp(1) [OF assms]
  show "IsAbs (filepath_Join [tmpDir e, ''multipart''])" using abs by (rule IsAbs_Join)
  show "path_comps (filepath_Join [tmpDir e, ''multipart'']) = path_comps (tmpDir e) @ [''multipart'']"
    using path_comps_Join_good [OF abs, of "[''multipart'']"] by (simp add: path_elems_single good_elem_def)
  show "filepath_Clean (filepath_Join [tmpDir e, ''multipart'']) = filepath_Join [tmpDir e, ''multipart'']"
    unfolding Join_abs [OF abs] by (rule Clean_Clean_abs [OF IsAbs_join [OF abs]])
qed

text \<open>\<open>purgeTmp\<close> leaves the parts of uploads in progress alone.\<close>

lemma purgeTmp_parts:
  assumes e: "engine_wf e" and d: "fs_wf d" and run: "purgeTmp env e d = (r, d')"
    and q: "strict_prefix (path_comps (tmpDir e) @ [''multipart'']) q"
  shows "file_at d' q = file_at d q"
proof (cases "map_of (files d) q")
  case None
  then have "map_of (files d') q = None"
    using purgeTmp_frame(1) [OF fs_wf_keys [OF d] run] unfolding prunes_def by metis
  with None show ?thesis by (simp add: file_at_def)
next
  case (Some n)
  let ?M = "path_comps (tmpDir e) @ [''multipart'']"
  have M: "map_of (files d) ?M = Some Dir" using fs_wf_ancestor [OF d Some q] by simp
  then have ok: "names_ok ?M" using fs_wf_keys [OF d] by (auto simp: keys_ok_def)
  note mc = multipart_comps [OF e]
  have "abs_path ?M = filepath_Join [tmpDir e, ''multipart'']"
    unfolding abs_path_eq_iff [OF ok mc(1,3)] mc(2) ..
  moreover have "abs_path ?M \<noteq> tmpDir e" using abs_path_comps [OF ok] by auto
  ultimately have skip: "abs_path ?M = filepath_Join [tmpDir e, ''multipart''] \<and> abs_path ?M \<noteq> tmpDir e" ..
  have pq: "prefix ?M q" using q by (simp add: strict_prefix_def)
  show ?thesis
    using run unfolding purgeTmp_def
  proof (cases rule: WalkDir_cases)
    case refused
    then show ?thesis using file_at_cong [of d' d] by simp
  next
    case (walked d1)
    have "?M \<in> set (walk_list (files d) (path_comps (tmpDir e)))" using M by (simp add: walk_list_iff)
    then have "file_at d' q = file_at d1 q"
      using purge.walk_skips [OF skip pq walked(1) walk_list_names [OF fs_wf_keys [OF d]] walk_list_set(2)]
        M walked(2) by simp
    then show ?thesis using file_at_cong [of d1 d] walked(2) by simp
  qed
qed

section \<open>The pass over the buckets\<close>

lemma known_path_iff:
  assumes "engine_wf e" and "names_ok (path_comps (dataDir e) @ es)" and "es \<noteq> []"
  shows "known_path e ks (path_comps (dataDir e) @ es) \<longleftrightarrow> join_with ''/'' es \<in> set ks"
proof -
  let ?D = "path_comps (dataDir e)"
  have good: "\<forall>x\<in>set es. good_elem x" using assms(2) by (simp add: names_ok_def list_all_iff)
  have abs: "IsAbs (dataDir e)" "IsAbs (abs_path (?D @ es))"
    using assms(1) by (simp_all add: engine_wf_def abs_path_def)
  have "strip_common ?D (?D @ es) = ([], es)"
    using strip_common_prefix [of ?D "?D @ es"] strip_common_snd [of ?D "?D @ es"] by (simp add: prod_eq_iff)
  then have rel: "filepath_Rel (dataDir e) (abs_path (?D @ es)) = Inr (join_with ''/'' es)"
    using abs assms(3) by (simp add: filepath_Rel_def abs_path_comps [OF assms(2)])
  obtain x xs where es: "es = x # xs" using assms(3) by (cases es) auto
  have "filepath_Join es = join_with ''/'' es" using Join_good(1) [OF good assms(3)] .
  moreover have "filepath_Join es = filepath_Clean (join_with ''/'' es)"
    using es good by (simp add: filepath_Join.simps good_elem_def)
  ultimately have "filepath_Clean (join_with ''/'' es) = join_with ''/'' es" by simp
  with rel show ?thesis by (simp add: known_path_def)
qed

lemma normalize_canonical:
  assumes "canonical sp" and "split_on CHR ''/'' sp = b # rest"
  shows "normalizeKnownObjectPath b sp = sp"
proof -
  have good: "\<forall>x\<in>set (b # rest). good_elem x" using assms by (simp add: canonical_def list_all_iff)
  have j: "join_with ''/'' (b # rest) = sp" using assms(2) by (metis join_split)
  have b: "b \<noteq> []" "good_elem b" using good by (auto simp: good_elem_def)
  have c: "filepath_Clean sp = sp"
    using Join_good(1) [OF good] b(1) unfolding filepath_Join.simps j by simp
  have "sp \<noteq> ''.''" "sp \<noteq> []" using assms by (auto simp: canonical_def)
  with c assms(2) show ?thesis by (simp add: normalizeKnownObjectPath_def firstPathElement_def Let_def)
qed


definition safe :: "engine \<Rightarrow> (string \<Rightarrow> string list result) \<Rightarrow> string list \<Rightarrow> bool" where
  "safe e knownObjects q \<longleftrightarrow>
     (\<forall>b rest ks. q = path_comps (dataDir e) @ b # rest \<longrightarrow> b \<noteq> ''.tmp'' \<longrightarrow> knownObjects b = Inr ks \<longrightarrow>
        join_with ''/'' (b # rest) \<in> normalizeKnownObjectPath b ` set ks)"

lemma bucketRoot_comps:
  "engine_wf e \<Longrightarrow> good_elem b \<Longrightarrow> path_comps (filepath_Join [dataDir e, b]) = path_comps (dataDir e) @ [b]"
  using path_comps_Join_good [OF engine_wf_tmp(3), of e "[b]"] by (simp add: path_elems_single)

text \<open>One bucket: the walk and the pruning of emptied directories.\<close>

lemma bucket_pass_frame:
  assumes e: "engine_wf e" and b: "good_elem b" "b \<noteq> ''.tmp''" and d: "keys_ok d"
    and known: "knownObjects b = Inr ks"
    and run: "WalkDir env (filepath_Join [dataDir e, b])
        (reconcile_step env e (map (normalizeKnownObjectPath b) ks)) d = (r, d')"
  shows "prunes d d'" and "safe e knownObjects q \<Longrightarrow> file_at d' q = file_at d q"
    and "r = None \<Longrightarrow> file_at d' (path_comps (dataDir e) @ b # rest) \<noteq> None \<Longrightarrow>
         join_with ''/'' (b # rest) \<in> normalizeKnownObjectPath b ` set ks"
proof -
  let ?K = "map (normalizeKnownObjectPath b) ks" and ?D = "path_comps (dataDir e)"
  let ?W = "walk_list (files d) (?D @ [b])"
  have root: "path_comps (filepath_Join [dataDir e, b]) = ?D @ [b]" by (rule bucketRoot_comps [OF e b(1)])
  have known_iff: "known_path e ?K (?D @ b # rest) \<longleftrightarrow> join_with ''/'' (b # rest) \<in> normalizeKnownObjectPath b ` set ks"
    if "map_of (files d) (?D @ b # rest) \<noteq> None" for rest
    using known_path_iff [OF e, of "b # rest" ?K] that d by (auto simp: keys_ok_def simp del: join_with.simps)
  have "prunes d d' \<and> (safe e knownObjects q \<longrightarrow> file_at d' q = file_at d q)
    \<and> (r = None \<longrightarrow> file_at d' (?D @ b # rest) \<noteq> None \<longrightarrow>
         join_with ''/'' (b # rest) \<in> normalizeKnownObjectPath b ` set ks)"
    using run
  proof (cases rule: WalkDir_cases)
    case refused
    then show ?thesis using file_at_cong [of d' d] by (auto simp: prunes_files)
  next
    case (walked d1)
    note w = walked(1) [unfolded root]
    note names = walk_list_names [OF d]
    have p: "prunes d d'"
      using recon.walk_frame [OF w names] prunes_trans [OF prunes_files [OF walked(2,3)]] by blast
    have q: "q \<notin> set ?W \<or> known_path e ?K q" if "safe e knownObjects q"
    proof (cases "q \<in> set ?W")
      case True
      then obtain rest where "q = ?D @ b # rest" "map_of (files d) q \<noteq> None"
        by (auto simp: walk_list_iff prefix_def)
      with that known b(2) known_iff show ?thesis unfolding safe_def by blast
    qed simp
    have "file_at d' q = file_at d q" if "safe e knownObjects q"
      using recon.walk_frame [OF w names, of q] q [OF that] walked(2) by (auto simp: file_at_def)
    moreover have "join_with ''/'' (b # rest) \<in> normalizeKnownObjectPath b ` set ks"
      if "r = None" and f: "file_at d' (?D @ b # rest) \<noteq> None"
    proof (rule ccontr)
      assume no: "join_with ''/'' (b # rest) \<notin> normalizeKnownObjectPath b ` set ks"
      have m: "map_of (files d) (?D @ b # rest) \<noteq> None"
        using f prunes_absent [OF p, of "?D @ b # rest"]
        by (cases "map_of (files d) (?D @ b # rest)") (simp_all add: file_at_def)
      then have "?D @ b # rest \<in> set ?W" by (simp add: walk_list_iff)
      with recon.walk_done [OF w [unfolded that(1)] names, of "?D @ b # rest"] known_iff [OF m] no f
      show False by simp
    qed
    ultimately show ?thesis using p by blast
  qed
  then show "prunes d d'" "safe e knownObjects q \<Longrightarrow> file_at d' q = file_at d q"
    "r = None \<Longrightarrow> file_at d' (?D @ b # rest) \<noteq> None \<Longrightarrow>
         join_with ''/'' (b # rest) \<in> normalizeKnownObjectPath b ` set ks" by blast+
qed

lemma reconcile_buckets_cases:
  assumes "reconcile_buckets env e knownObjects ((b, n) # entries) d = (r, d')"
  obtains (failed) "r \<noteq> None" and "files d' = files d" and "next_uuid d' = next_uuid d"
  | (passed) d1 where "n \<noteq> Dir \<or> b = ''.tmp''" and "files d1 = files d" and "next_uuid d1 = next_uuid d"
      and "reconcile_buckets env e knownObjects entries d1 = (r, d')"
  | (walk) ks d1 w d2 where "b \<noteq> ''.tmp''" and "knownObjects b = Inr ks"
      and "files d1 = files d" and "next_uuid d1 = next_uuid d"
      and "WalkDir env (filepath_Join [dataDir e, b])
             (reconcile_step env e (map (normalizeKnownObjectPath b) ks)) d1 = (w, d2)"
      and "(w \<noteq> None \<and> r = w \<and> d' = d2) \<or> (w = None \<and>
             reconcile_buckets env e knownObjects entries
               (pruneEmptyDirs env (filepath_Join [dataDir e, b]) d2) = (r, d'))"
proof -
  obtain x d1 where x: "ctx_err env d = (x, d1)" by fastforce
  have k: "files d1 = files d" "next_uuid d1 = next_uuid d" using ctx_err_files [OF x] by auto
  consider "x \<noteq> None" | "x = None" "n \<noteq> Dir \<or> b = ''.tmp''"
    | err where "x = None" "n = Dir" "b \<noteq> ''.tmp''" "knownObjects b = Inl err"
    | ks where "x = None" "n = Dir" "b \<noteq> ''.tmp''" "knownObjects b = Inr ks"
    by (cases "knownObjects b") auto
  then show ?thesis
  proof cases
    case (4 ks)
    obtain w d2 where w: "WalkDir env (filepath_Join [dataDir e, b])
        (reconcile_step env e (map (normalizeKnownObjectPath b) ks)) d1 = (w, d2)" by fastforce
    show ?thesis
      using walk [OF 4(3,4) k w] assms x 4 w by (auto simp: Let_def split: option.splits)
  qed (use assms x k failed passed in auto)
qed


lemma reconcile_buckets_frame:
  assumes e: "engine_wf e"
  shows "reconcile_buckets env e knownObjects entries d = (r, d') \<Longrightarrow> keys_ok d \<Longrightarrow>
    \<forall>x\<in>set entries. good_elem (fst x) \<Longrightarrow>
    prunes d d' \<and> (safe e knownObjects q \<longrightarrow> file_at d' q = file_at d q)"
proof (induction entries arbitrary: d)
  case (Cons x entries)
  obtain b n where x: "x = (b, n)" by fastforce
  from Cons.prems(3) x have good: "good_elem b" "\<forall>x\<in>set entries. good_elem (fst x)" by auto
  from Cons.prems(1) [unfolded x] show ?case
  proof (cases rule: reconcile_buckets_cases)
    case failed
    then show ?thesis using file_at_cong [of d' d] by (simp add: prunes_files)
  next
    case (passed d1)
    have p: "prunes d d1" using passed by (simp add: prunes_files)
    show ?thesis
      using Cons.IH [OF passed(4) keys_ok_prunes [OF p Cons.prems(2)] good(2)] p
        file_at_cong [of d1 d] passed(2) by (auto intro: prunes_trans)
  next
    case (walk ks d1 w d2)
    let ?d3 = "pruneEmptyDirs env (filepath_Join [dataDir e, b]) d2"
    have p1: "prunes d d1" using walk by (simp add: prunes_files)
    note bp = bucket_pass_frame [where knownObjects = knownObjects, OF e good(1) walk(1) keys_ok_prunes [OF p1 Cons.prems(2)] walk(2,5)]
    have p2: "prunes d d2" using prunes_trans [OF p1 bp(1)] .
    note pr = pruneEmptyDirs_frame [OF keys_ok_prunes [OF p2 Cons.prems(2)]]
    have p3: "prunes d ?d3" using prunes_trans [OF p2] pr by blast
    have f: "safe e knownObjects q \<Longrightarrow> file_at d2 q = file_at d q"
      using bp(2) file_at_cong [of d1 d] walk(3) by simp
    show ?thesis
      using walk(6) Cons.IH [OF _ keys_ok_prunes [OF p3 Cons.prems(2)] good(2)] p2 p3 f pr
      by (auto intro: prunes_trans)
  qed
qed simp

lemma reconcile_buckets_done:
  assumes e: "engine_wf e"
  shows "reconcile_buckets env e knownObjects entries d = (None, d') \<Longrightarrow> keys_ok d \<Longrightarrow>
    \<forall>x\<in>set entries. good_elem (fst x) \<Longrightarrow> (b, Dir) \<in> set entries \<Longrightarrow> b \<noteq> ''.tmp'' \<Longrightarrow>
    file_at d' (path_comps (dataDir e) @ b # rest) \<noteq> None \<Longrightarrow>
    \<exists>ks. knownObjects b = Inr ks \<and> join_with ''/'' (b # rest) \<in> normalizeKnownObjectPath b ` set ks"
proof (induction entries arbitrary: d)
  case (Cons x entries)
  let ?q = "path_comps (dataDir e) @ b # rest"
  obtain b' n where x: "x = (b', n)" by fastforce
  from Cons.prems(3) x have good: "good_elem b'" "\<forall>x\<in>set entries. good_elem (fst x)" by auto
  from Cons.prems(1) [unfolded x] show ?case
  proof (cases rule: reconcile_buckets_cases)
    case (passed d1)
    have p: "prunes d d1" using passed by (simp add: prunes_files)
    have "(b, Dir) \<in> set entries" using Cons.prems(4,5) passed(1) x by auto
    then show ?thesis
      using Cons.IH [OF passed(4) keys_ok_prunes [OF p Cons.prems(2)] good(2)] Cons.prems(5,6) by blast
  next
    case (walk ks d1 w d2)
    let ?d3 = "pruneEmptyDirs env (filepath_Join [dataDir e, b']) d2"
    have p1: "prunes d d1" using walk by (simp add: prunes_files)
    note bp = bucket_pass_frame [where knownObjects = knownObjects, OF e good(1) walk(1) keys_ok_prunes [OF p1 Cons.prems(2)] walk(2,5)]
    have p2: "prunes d d2" using prunes_trans [OF p1 bp(1)] .
    note pr = pruneEmptyDirs_frame [OF keys_ok_prunes [OF p2 Cons.prems(2)]]
    have p3: "prunes d ?d3" using prunes_trans [OF p2] pr by blast
    from walk(6) have w: "w = None" "reconcile_buckets env e knownObjects entries ?d3 = (None, d')" by auto
    show ?thesis
    proof (cases "b' = b")
      case True
      have "prunes ?d3 d'"
        using reconcile_buckets_frame [OF e w(2) keys_ok_prunes [OF p3 Cons.prems(2)] good(2)] by blast
      then have "prunes d2 d'" using prunes_trans pr by blast
      then have "file_at d2 ?q \<noteq> None" using Cons.prems(6) prunes_absent by metis
      then show ?thesis using bp(3) [OF w(1), of rest] walk(2) True by simp
    next
      case False
      then have "(b, Dir) \<in> set entries" using Cons.prems(4) x by auto
      then show ?thesis
        using Cons.IH [OF w(2) keys_ok_prunes [OF p3 Cons.prems(2)] good(2)] Cons.prems(5,6) by blast
    qed
  qed simp
qed simp

lemma os_ReadDir_spec:
  assumes "os_ReadDir env dir d = (Inr entries, d')" and "keys_ok d"
  shows "files d' = files d" and "next_uuid d' = next_uuid d"
    and "\<forall>x\<in>set entries. good_elem (fst x)"
    and "map_of (files d) (path_comps dir @ [b]) = Some n \<Longrightarrow> (b, n) \<in> set entries"
proof -
  have en: "entries = dir_entries (files d) (path_comps dir)" and k: "d' = tick d"
    using assms(1) by (auto simp: os_ReadDir_def Let_def split: if_splits)
  show "files d' = files d" "next_uuid d' = next_uuid d" using k by simp_all
  have "good_elem (last k)" if "k \<in> fst ` set (files d)" for k
  proof -
    have "map_of (files d) k \<noteq> None" using that by (simp add: map_of_eq_None_iff)
    then have "names_ok k" using assms(2) by (auto simp: keys_ok_def)
    then show ?thesis by (simp add: names_ok_def list_all_iff)
  qed
  then show "\<forall>x\<in>set entries. good_elem (fst x)" by (auto simp: en dir_entries_def)
  show "(b, n) \<in> set entries" if "map_of (files d) (path_comps dir @ [b]) = Some n"
    using that map_of_SomeD [OF that]
    by (force simp: en dir_entries_def image_iff)
qed


section \<open>Properties\<close>

lemma Reconcile_frame:
  assumes e: "engine_wf e" and d: "fs_wf d" and run: "Reconcile env e knownObjects d = (r, d')"
  shows "prunes d d'"
    and "\<not> prefix (path_comps (tmpDir e)) q
         \<or> strict_prefix (path_comps (tmpDir e) @ [''multipart'']) q \<Longrightarrow>
         safe e knownObjects q \<Longrightarrow> file_at d' q = file_at d q"
    and "r = None \<Longrightarrow> file_at d' (path_comps (dataDir e) @ b # b2 # rest) \<noteq> None \<Longrightarrow> b \<noteq> ''.tmp'' \<Longrightarrow>
         \<exists>ks. knownObjects b = Inr ks \<and> join_with ''/'' (b # b2 # rest) \<in> normalizeKnownObjectPath b ` set ks"
proof -
  let ?D = "path_comps (dataDir e)" and ?T = "path_comps (tmpDir e)"
  obtain x d1 where x: "ctx_err env d = (x, d1)" by fastforce
  have k1: "files d1 = files d" "next_uuid d1 = next_uuid d" using ctx_err_files [OF x] by auto
  have wf1: "fs_wf d1" using d k1 by (simp add: fs_wf_def)
  obtain y d2 where y: "purgeTmp env e d1 = (y, d2)" by fastforce
  note pt = purgeTmp_frame [OF fs_wf_keys [OF wf1] y]
  obtain en d3 where z: "os_ReadDir env (dataDir e) d2 = (en, d3)" by fastforce
  have k3: "files d3 = files d2" "next_uuid d3 = next_uuid d2"
    using z by (auto simp: os_ReadDir_def Let_def split: if_splits)
  have p2: "prunes d d2" "prunes d d3"
    using prunes_trans [OF prunes_files [OF k1] pt(1)] prunes_trans [OF _ prunes_files [OF k3]] by auto
  note ok = keys_ok_prunes [OF p2(1) fs_wf_keys [OF d]] keys_ok_prunes [OF p2(2) fs_wf_keys [OF d]]
  have f2: "file_at d2 q = file_at d q"
    if "\<not> prefix ?T q \<or> strict_prefix (?T @ [''multipart'']) q"
    using that pt(2) [of q] purgeTmp_parts [OF e wf1 y, of q] k1(1) by (auto simp: file_at_def)
  have f3: "file_at d3 k = file_at d2 k" for k using file_at_cong [of d3 d2] k3 by simp
  consider (early) "r \<noteq> None" "d' = d1 \<or> d' = d2 \<or> d' = d3"
    | (loop) entries where "en = Inr entries" "reconcile_buckets env e knownObjects entries d3 = (r, d')"
    using run x y z by (auto simp: Reconcile_def split: option.splits sum.splits)
  then have "prunes d d' \<and> (\<not> prefix ?T q \<or> strict_prefix (?T @ [''multipart'']) q \<longrightarrow>
         safe e knownObjects q \<longrightarrow> file_at d' q = file_at d q)
    \<and> (r = None \<longrightarrow> file_at d' (?D @ b # b2 # rest) \<noteq> None \<longrightarrow> b \<noteq> ''.tmp'' \<longrightarrow>
       (\<exists>ks. knownObjects b = Inr ks \<and> join_with ''/'' (b # b2 # rest) \<in> normalizeKnownObjectPath b ` set ks))"
  proof cases
    case early
    then show ?thesis using p2 f2 f3 prunes_files [OF k1] file_at_cong [OF k1(1)] by auto
  next
    case (loop entries)
    note rd = os_ReadDir_spec [OF z [unfolded loop(1)] ok(1)]
    note fr = reconcile_buckets_frame [OF e loop(2) ok(2) rd(3)]
    have p: "prunes d d'" using prunes_trans [OF p2(2)] fr by blast
    have "\<exists>ks. knownObjects b = Inr ks \<and> join_with ''/'' (b # b2 # rest) \<in> normalizeKnownObjectPath b ` set ks"
      if r: "r = None" and f: "file_at d' (?D @ b # b2 # rest) \<noteq> None" and b: "b \<noteq> ''.tmp''"
    proof -
      have "map_of (files d) (?D @ b # b2 # rest) \<noteq> None"
        using f prunes_absent [OF p, of "?D @ b # b2 # rest"]
        by (cases "map_of (files d) (?D @ b # b2 # rest)") (simp_all add: file_at_def)
      then obtain n where n: "map_of (files d) (?D @ b # b2 # rest) = Some n" by blast
      have "map_of (files d) (?D @ [b]) = Some Dir"
        by (rule fs_wf_ancestor [OF d n]) (auto simp: strict_prefix_def)
      moreover have "\<not> prefix ?T (?D @ [b])" using b by (simp add: engine_wf_tmp(2) [OF e])
      ultimately have "map_of (files d2) (?D @ [b]) = Some Dir" using pt(2) [of "?D @ [b]"] k1 by simp
      from rd(4) [OF this] reconcile_buckets_done [OF e loop(2) [unfolded r] ok(2) rd(3) _ b f]
      show ?thesis by blast
    qed
    with p fr [of q] f2 f3 show ?thesis by auto
  qed
  then show "prunes d d'" "\<not> prefix ?T q \<or> strict_prefix (?T @ [''multipart'']) q \<Longrightarrow>
         safe e knownObjects q \<Longrightarrow> file_at d' q = file_at d q"
    "r = None \<Longrightarrow> file_at d' (?D @ b # b2 # rest) \<noteq> None \<Longrightarrow> b \<noteq> ''.tmp'' \<Longrightarrow>
       \<exists>ks. knownObjects b = Inr ks \<and> join_with ''/'' (b # b2 # rest) \<in> normalizeKnownObjectPath b ` set ks"
    by blast+
qed


text \<open>
  A storage path the metadata still needs: an object of a bucket whose row list names it (or whose
  rows cannot be read), or anything below the multipart directory.
\<close>

definition referenced :: "(string \<Rightarrow> string list result) \<Rightarrow> string \<Rightarrow> bool" where
  "referenced knownObjects sp \<longleftrightarrow> canonical sp \<and>
     (case split_on CHR ''/'' sp of
        [] \<Rightarrow> False
      | b # rest \<Rightarrow>
          if b = ''.tmp'' then (case rest of x # y # ys \<Rightarrow> x = ''multipart'' | _ \<Rightarrow> False)
          else (case knownObjects b of Inl err \<Rightarrow> True | Inr ks \<Rightarrow> sp \<in> set ks))"

text \<open>
  C9: the start-up reconciliation never removes a file the metadata refers to nor a
  part of an upload in progress, even when it is interrupted by an error half way.
\<close>

theorem reconcile_keeps_live:
  assumes e: "engine_wf e" and d: "fs_wf d" and run: "Reconcile env e knownObjects d = (r, d')"
    and sp: "referenced knownObjects sp"
  shows "blob env e d' sp = blob env e d sp"
proof -
  let ?D = "path_comps (dataDir e)"
  have can: "canonical sp" using sp by (simp add: referenced_def)
  obtain b rest where s: "split_on CHR ''/'' sp = b # rest"
    using sp by (auto simp: referenced_def split: list.splits)
  have j: "join_with ''/'' (b # rest) = sp" using s by (metis join_split)
  let ?q = "?D @ b # rest"
  have k: "\<forall>ks. knownObjects b = Inr ks \<longrightarrow> b \<noteq> ''.tmp'' \<longrightarrow> sp \<in> set ks"
    using sp s by (auto simp: referenced_def)
  have "safe e knownObjects ?q"
    unfolding safe_def
  proof (intro allI impI)
    fix b' rest' ks
    assume a: "?q = ?D @ b' # rest'" "b' \<noteq> ''.tmp''" "knownObjects b' = Inr ks"
    then have "sp \<in> set ks" "join_with ''/'' (b' # rest') = sp" using k j by auto
    then show "join_with ''/'' (b' # rest') \<in> normalizeKnownObjectPath b' ` set ks"
      using normalize_canonical [OF can s] a(1) by (auto intro!: image_eqI [of _ _ sp])
  qed
  moreover have "\<not> prefix (path_comps (tmpDir e)) ?q
      \<or> strict_prefix (path_comps (tmpDir e) @ [''multipart'']) ?q"
    using sp s by (auto simp: referenced_def engine_wf_tmp(2) [OF e] strict_prefix_def
        split: if_splits list.splits)
  ultimately show ?thesis
    using Reconcile_frame(2) [OF e d run, of ?q] blob_canonical [OF e can] s by simp
qed

definition sample_store :: disk where
  "sample_store = sample_disk\<lparr>files := files sample_disk @
     [([''srv'', ''data'', ''.tmp'', ''x.tmp''], File ''z''), ([''srv'', ''data'', ''.tmp'', ''multipart''], Dir),
      ([''srv'', ''data'', ''.tmp'', ''multipart'', ''up''], Dir),
      ([''srv'', ''data'', ''.tmp'', ''multipart'', ''up'', ''1''], File ''p''),
      ([''srv'', ''data'', ''b''], Dir), ([''srv'', ''data'', ''b'', ''1''], File ''x''),
      ([''srv'', ''data'', ''b'', ''2''], File ''y'')]\<rparr>"

definition sample_known :: "string \<Rightarrow> string list result" where
  "sample_known b = Inr [''b/1'']"

theorem reconcile_keeps_live_witness:
  "blob sample_env sample_engine (snd (Reconcile sample_env sample_engine sample_known sample_store)) ''b/1'' = Some ''x''
   \<and> blob sample_env sample_engine (snd (Reconcile sample_env sample_engine sample_known sample_store))
       ''.tmp/multipart/up/1'' = Some ''p''"
proof -
  obtain r d' where w: "Reconcile sample_env sample_engine sample_known sample_store = (r, d')" by fastforce
  have wf: "fs_wf sample_store" by code_simp
  have k: "referenced sample_known ''b/1''" "referenced sample_known ''.tmp/multipart/up/1''" by code_simp+
  have b: "blob sample_env sample_engine sample_store ''b/1'' = Some ''x''"
      "blob sample_env sample_engine sample_store ''.tmp/multipart/up/1'' = Some ''p''" by code_simp+
  from reconcile_keeps_live [OF sample_engine_wf wf w k(1)] reconcile_keeps_live [OF sample_engine_wf wf w k(2)] b w
  show ?thesis by simp
qed

text \<open>
  C10: after a reconciliation that reports success, every object file left in a
  bucket directory is one the metadata lists for that bucket.
\<close>

theorem reconcile_removes_orphans:
  assumes e: "engine_wf e" and d: "fs_wf d" and run: "Reconcile env e knownObjects d = (None, d')"
    and sp: "canonical sp" "split_on CHR ''/'' sp = b # rest" "b \<noteq> ''.tmp''"
    and left: "blob env e d' sp \<noteq> None"
  shows "\<exists>ks k. knownObjects b = Inr ks \<and> k \<in> set ks \<and> normalizeKnownObjectPath b k = sp"
proof -
  obtain b2 rest2 where r: "rest = b2 # rest2" using sp by (cases rest) (auto simp: canonical_def)
  have j: "join_with ''/'' (b # b2 # rest2) = sp" using sp(2) r by (metis join_split)
  have "file_at d' (path_comps (dataDir e) @ b # b2 # rest2) \<noteq> None"
    using left blob_canonical [OF e sp(1)] sp(2) r by simp
  from Reconcile_frame(3) [OF e d run refl this sp(3)] j show ?thesis by auto
qed

theorem reconcile_removes_orphans_witness:
  "blob sample_env sample_engine (snd (Reconcile sample_env sample_engine sample_known sample_store)) ''b/2'' = None"
proof (rule ccontr)
  assume left: "blob sample_env sample_engine
      (snd (Reconcile sample_env sample_engine sample_known sample_store)) ''b/2'' \<noteq> None"
  have "fst (Reconcile sample_env sample_engine sample_known sample_store) = None" by code_simp
  then obtain d' where w: "Reconcile sample_env sample_engine sample_known sample_store = (None, d')"
    by (metis prod.collapse)
  have wf: "fs_wf sample_store" by code_simp
  have k: "canonical ''b/2''" "split_on CHR ''/'' ''b/2'' = ''b'' # [''2'']" "''b'' \<noteq> ''.tmp''" by code_simp+
  have "normalizeKnownObjectPath ''b'' ''b/1'' = ''b/1''" by code_simp
  with reconcile_removes_orphans [OF sample_engine_wf wf w k] left w show False
    by (auto simp: sample_known_def)
qed

text \<open>What \<open>ReconcileMultipartTmp\<close> leaves: exactly the part directories of known uploads.\<close>

lemma reconcile_uploads_frame:
  "reconcile_uploads env mdir known entries d = (r, d') \<Longrightarrow>
   IsAbs mdir \<Longrightarrow> \<forall>x\<in>set entries. good_elem (fst x) \<Longrightarrow>
   only_removes d d'
   \<and> ((\<forall>x n. (x, n) \<in> set entries \<longrightarrow> x \<notin> set known \<longrightarrow> \<not> prefix (path_comps mdir @ [x]) q) \<longrightarrow> file_at d' q = file_at d q)
   \<and> (r = None \<longrightarrow> (\<exists>x. (x, Dir) \<in> set entries \<and> x \<notin> set known \<and> prefix (path_comps mdir @ [x]) q) \<longrightarrow> file_at d' q = None)"
proof (induction entries arbitrary: d)
  case (Cons a entries)
  obtain x n where a: "a = (x, n)" by fastforce
  have x: "good_elem x" "\<forall>x\<in>set entries. good_elem (fst x)" using Cons.prems(3) a by auto
  have root: "path_comps (filepath_Join [mdir, x]) = path_comps mdir @ [x]"
    using path_comps_Join_good [OF Cons.prems(2), of "[x]"] x by (simp add: path_elems_single)
  obtain c d1 where c: "ctx_err env d = (c, d1)" by fastforce
  have f1: "file_at d1 k = file_at d k" "only_removes d d1" for k
    using ctx_err_eq [OF c] by (simp_all add: only_removes_def)
  obtain y d2 where y: "os_RemoveAll env (filepath_Join [mdir, x]) d1 = (y, d2)" by fastforce
  have f2: "\<not> prefix (path_comps mdir @ [x]) q \<Longrightarrow> file_at d2 q = file_at d q" "only_removes d d2"
    using os_RemoveAll_outside [OF y] f1 only_removes_trans [OF f1(2) os_RemoveAll_only [OF y]]
    by (simp_all add: root)
  have f3: "y = None \<Longrightarrow> prefix (path_comps mdir @ [x]) q \<Longrightarrow> file_at d2 q = None"
    using os_RemoveAll_inside [of env "filepath_Join [mdir, x]" d1 d2] y by (simp add: root)
  have gone: "only_removes d2 d' \<Longrightarrow> file_at d2 q = None \<Longrightarrow> file_at d' q = None"
    by (cases "file_at d' q") (auto simp: only_removes_def)
  consider "c \<noteq> None" "r \<noteq> None" "d' = d1"
    | "n \<noteq> Dir \<or> x \<in> set known" "reconcile_uploads env mdir known entries d1 = (r, d')"
    | "n = Dir" "x \<notin> set known" "y \<noteq> None" "r \<noteq> None" "d' = d2"
    | "n = Dir" "x \<notin> set known" "y = None" "reconcile_uploads env mdir known entries d2 = (r, d')"
    using Cons.prems(1) a c y by (auto split: option.splits if_splits)
  then show ?case
  proof cases
    case 1
    then show ?thesis using f1 by auto
  next
    case 2
    then show ?thesis
      using Cons.IH [OF 2(2) Cons.prems(2) x(2)] f1 a by (auto intro: only_removes_trans)
  next
    case 3
    then show ?thesis using f2 a by auto
  next
    case 4
    note ih = Cons.IH [OF 4(4) Cons.prems(2) x(2)]
    show ?thesis
      using ih f2 f3 [OF 4(3)] gone 4(1,2) a
      by (cases "prefix (path_comps mdir @ [x]) q") (auto intro: only_removes_trans)
  qed
qed simp

text \<open>
  C11: reconciling the multipart directory keeps the parts of every known upload
  and every object, and after success no file of an unknown upload is left.
\<close>

theorem reconcile_uploads_exact:
  assumes e: "engine_wf e" and d: "fs_wf d"
    and run: "ReconcileMultipartTmp env e (Inr known) d = (r, d')" and sp: "canonical sp"
  shows "(\<not> (\<exists>u rest. split_on CHR ''/'' sp = ''.tmp'' # ''multipart'' # u # rest \<and> u \<notin> set known) \<longrightarrow>
            blob env e d' sp = blob env e d sp)
    \<and> (r = None \<longrightarrow> (\<exists>u x rest. split_on CHR ''/'' sp = ''.tmp'' # ''multipart'' # u # x # rest \<and> u \<notin> set known) \<longrightarrow>
            blob env e d' sp = None)"
proof -
  let ?m = "filepath_Join [tmpDir e, ''multipart'']" and ?q = "path_comps (dataDir e) @ split_on CHR ''/'' sp"
  note mc = multipart_comps [OF e] engine_wf_tmp(2) [OF e]
  obtain c d1 where c: "ctx_err env d = (c, d1)" by fastforce
  have k1: "files d1 = files d" using ctx_err_files [OF c] by simp
  have f1: "file_at d1 k = file_at d k" for k using k1 by (rule file_at_cong)
  have wf1: "fs_wf d1" using d k1 by (simp add: fs_wf_def)
  obtain en d2 where en: "os_ReadDir env ?m d1 = (en, d2)" by fastforce
  have k2: "files d2 = files d1" using en by (auto simp: os_ReadDir_def Let_def split: if_splits)
  have f2: "file_at d2 k = file_at d k" for k using file_at_cong [OF k2] f1 by simp
  have inside: "\<exists>u x rest. split_on CHR ''/'' sp = ''.tmp'' # ''multipart'' # u # x # rest \<Longrightarrow> blob env e d sp \<noteq> None \<Longrightarrow>
      map_of (files d) (path_comps ?m) = Some Dir
      \<and> map_of (files d) (path_comps ?m @ [split_on CHR ''/'' sp ! 2]) = Some Dir"
    using fs_wf_ancestor [OF d, of ?q]
    by (auto simp: blob_canonical [OF e sp] mc strict_prefix_def file_at_def split: option.splits)
  consider (stop) "d' = d1 \<or> d' = d2" "r \<noteq> None"
    | (none) "en = Inl ErrNotExist" "d' = d2"
    | (loop) entries where "en = Inr entries" "reconcile_uploads env ?m known entries d2 = (r, d')"
    using run c en by (auto simp: ReconcileMultipartTmp_def Let_def split: option.splits sum.splits if_splits)
  then show ?thesis
  proof cases
    case stop
    then show ?thesis using f1 f2 by (auto simp: blob_canonical [OF e sp])
  next
    case none
    then have "map_of (files d) (path_comps ?m) = None"
      using en k1 by (auto simp: os_ReadDir_def Let_def split: if_splits)
    with inside have "\<exists>u x rest. split_on CHR ''/'' sp = ''.tmp'' # ''multipart'' # u # x # rest \<Longrightarrow>
        blob env e d sp = None" by fastforce
    with none f2 show ?thesis by (auto simp: blob_canonical [OF e sp])
  next
    case (loop entries)
    note rd = os_ReadDir_spec [OF en [unfolded loop(1)] fs_wf_keys [OF wf1]]
    note fr = reconcile_uploads_frame [OF loop(2) mc(1) rd(3), of ?q]
    have keep: "file_at d' ?q = file_at d ?q"
      if "\<not> (\<exists>u rest. split_on CHR ''/'' sp = ''.tmp'' # ''multipart'' # u # rest \<and> u \<notin> set known)"
    proof -
      have "\<not> prefix (path_comps ?m @ [x]) ?q" if "x \<notin> set known" for x
        using that \<open>\<not> (\<exists>u rest. _ u rest)\<close> by (auto simp: mc prefix_def)
      then show ?thesis using fr f2 by simp
    qed
    have gone: "file_at d' ?q = None"
      if r: "r = None" and s: "split_on CHR ''/'' sp = ''.tmp'' # ''multipart'' # u # x # rest" "u \<notin> set known" for u x rest
    proof (cases "blob env e d sp = None")
      case True
      then have "file_at d2 ?q = None" using f2 by (simp add: blob_canonical [OF e sp])
      then show ?thesis using fr by (cases "file_at d' ?q") (auto simp: only_removes_def)
    next
      case False
      have "map_of (files d1) (path_comps ?m @ [u]) = Some Dir" using inside False s k1 by auto
      from rd(4) [OF this] have "(u, Dir) \<in> set entries" .
      moreover have "prefix (path_comps ?m @ [u]) ?q" by (simp add: s mc)
      ultimately show ?thesis using fr r s(2) by blast
    qed
    from keep gone show ?thesis unfolding blob_canonical [OF e sp] by blast
  qed
qed


theorem reconcile_uploads_exact_witness:
  "blob sample_env sample_engine (snd (ReconcileMultipartTmp sample_env sample_engine (Inr [''up'']) sample_store))
     ''.tmp/multipart/up/1'' = Some ''p''"
proof -
  obtain r d' where w: "ReconcileMultipartTmp sample_env sample_engine (Inr [''up'']) sample_store = (r, d')"
    by fastforce
  have wf: "fs_wf sample_store" by code_simp
  have k: "canonical ''.tmp/multipart/up/1''"
      "split_on CHR ''/'' ''.tmp/multipart/up/1'' = [''.tmp'', ''multipart'', ''up'', ''1'']" by code_simp+
  have b: "blob sample_env sample_engine sample_store ''.tmp/multipart/up/1'' = Some ''p''" by code_simp
  from reconcile_uploads_exact [OF sample_engine_wf wf w k(1)] k(2) b w show ?thesis by auto
qed

end
