(* ===== verification/StoreProtocol.thy ===== *)
theory StoreProtocol
  imports Reconcile CatalogProofs S3Types
begin

text \<open>
  How the handlers keep the metadata and the disk in step.  A \<open>store\<close> is the state of both with the
  bookkeeping no single request has: which request or row holds a storage path, which identifiers
  were drawn, which uploads are gone.  The relation \<open>store_step\<close> contains the operations the
  handlers perform, each with the right to perform it: a file is published once by the request that
  wrote it, a file is deleted only when no row can name it any more, the directory of an upload is
  removed only after its row.  The invariant \<open>store_ok\<close> holds after every interleaving of such steps
  and under every failure; it says that every object row and every part row has its file, with the
  recorded size and the bytes that were written.
\<close>

section \<open>More laws of the disk engine\<close>

lemma uuid_steps:
  "ctx_err env d = (x, d') \<Longrightarrow> next_uuid d' = next_uuid d"
  "new_uuid env d = (u, d') \<Longrightarrow> next_uuid d' = Suc (next_uuid d)"
  using ctx_err_eq new_uuid_eq by blast+

lemma Write_uuid:
  assumes "Write env e b k r d = (res, d')"
  shows "next_uuid d \<le> next_uuid d' \<and> next_uuid d' \<le> next_uuid d + 2"
  using assms unfolding Write_def Let_def
  by (auto split: prod.splits option.splits sum.splits if_splits
      dest!: uuid_steps copy.uuid_kept)

lemma AssembleParts_uuid:
  assumes "AssembleParts env e b k paths d = (res, d')"
  shows "next_uuid d \<le> next_uuid d' \<and> next_uuid d' \<le> next_uuid d + 2"
  using assms unfolding AssembleParts_def Let_def
  by (auto split: prod.splits option.splits sum.splits if_splits
      dest!: uuid_steps assemble.uuid_kept)

lemma WritePart_uuid:
  assumes "WritePart env e i n r d = (res, d')"
  shows "next_uuid d \<le> next_uuid d' \<and> next_uuid d' \<le> next_uuid d + 1"
  using assms unfolding WritePart_def Let_def
  by (auto split: prod.splits option.splits sum.splits if_splits
      dest!: uuid_steps copy.uuid_kept os_MkdirAll_uuid)

lemma writeDurably_filled:
  assumes "writeDurably env temp final fill d = (Inr n, d')"
  obtains d1 d2 where "os_Create env temp d = (None, d1)" and "fill d1 = ((n, None), d2)"
  using assms
proof (cases rule: writeDurably_cases)
  case (written d1 m d2 d5 d6)
  with that [OF written(1)] written(2,8) show ?thesis by (simp del: written(3))
qed simp_all

lemma copyParts_present:
  assumes "copyParts env e w paths tot s = ((n, None), s')"
    and "\<And>p full. p \<in> set paths \<Longrightarrow> resolveStoragePath env e p = Inr full \<Longrightarrow> path_comps full \<noteq> path_comps w"
  shows "\<forall>p\<in>set paths. blob env e s p \<noteq> None"
  using assms
proof (induction paths arbitrary: tot s)
  case (Cons p paths)
  obtain full where r: "resolveStoragePath env e p = Inr full"
    using Cons.prems(1) by (auto split: sum.splits)
  obtain o1 s1 where o: "os_Open env full s = (o1, s1)" by fastforce
  from Cons.prems(1) r o obtain f where f: "o1 = Inr f" by (cases o1) auto
  obtain m x s2 where c: "copyWithContext env w (node_reader f) 0 s1 = ((m, x), s2)" by (metis surj_pair)
  obtain y s3 where cl: "os_call env ErrIO s2 = (y, s3)" by fastforce
  from Cons.prems(1) r o f c cl have x: "x = None" and rest: "copyParts env e w paths (tot + m) s3 = ((n, None), s')"
    by (auto simp: Let_def split: option.splits)
  have "f \<noteq> Dir" using c x by (auto simp: node_reader_def split: option.splits prod.splits)
  then have "file_at s (path_comps full) \<noteq> None"
    using o f by (auto simp: os_Open_def Let_def is_dir_def file_at_def split: if_splits option.splits node.splits)
  then have here: "blob env e s p \<noteq> None" by (simp add: blob_def r)
  have eq: "file_at s3 q = file_at s q" if "q \<noteq> path_comps w" for q
    using copyWithContext_frame [OF c that] os_call_files [OF cl] file_at_cong [of s3 s2]
      os_Open_files [OF o] file_at_cong [of s1 s] by simp
  have "\<forall>p'\<in>set paths. blob env e s3 p' \<noteq> None" using Cons.IH [OF rest] Cons.prems(2) by auto
  moreover have "blob env e s3 p' = blob env e s p'" if "p' \<in> set paths" for p'
    using Cons.prems(2) [of p'] that eq by (auto simp: blob_def split: sum.splits)
  ultimately show ?case using here by auto
qed simp

definition part_path :: "string \<Rightarrow> string \<Rightarrow> bool" where
  "part_path i p \<longleftrightarrow> canonical p \<and> (\<exists>name. split_on CHR ''/'' p = [''.tmp'', ''multipart'', i, name])"

lemma AssembleParts_present:
  assumes wf: "engine_wf e" "uuid_wf env" and run: "AssembleParts env e b k paths d = (Inr x, d')"
    and ps: "\<And>p. p \<in> set paths \<Longrightarrow> \<exists>i. part_path i p"
  shows "\<forall>p\<in>set paths. blob env e d p \<noteq> None"
proof -
  let ?temp = "filepath_Join [tmpDir e, uuid_str env (Suc (next_uuid d)) @ ''.tmp'']"
  obtain c d1 where c: "ctx_err env d = (c, d1)" by fastforce
  obtain v2 d2 where n2: "new_uuid env d1 = (v2, d2)" by fastforce
  obtain v3 d3 where n3: "new_uuid env d2 = (v3, d3)" by fastforce
  have k: "file_at d3 q = file_at d q" "v3 = uuid_str env (Suc (next_uuid d))" for q
    using ctx_err_eq [OF c] new_uuid_eq [OF n2] new_uuid_eq [OF n3] by auto
  let ?full = "filepath_Join [dataDir e, filepath_Join [b, v2]]"
  have ok: "c = None" "ValidateKey k = None" "isWithinBase env (dataDir e) ?full"
    using run n2 unfolding AssembleParts_def c by (auto simp: Let_def split: option.splits if_splits)
  obtain wr d4 where w0: "writeDurably env ?temp ?full (copyParts env e ?temp paths 0) d3 = (wr, d4)" by fastforce
  have "(case wr of Inl err \<Rightarrow> (Inl err, d4) | Inr n \<Rightarrow> (Inr (filepath_Join [b, v2], n), d4)) = (Inr x, d')"
    using run ok w0 unfolding AssembleParts_def c prod.case ok option.case n2 Let_def n3 k(2)
    by (simp cong: if_cong)
  then obtain n where w: "writeDurably env ?temp ?full (copyParts env e ?temp paths 0) d3 = (Inr n, d4)"
    using w0 by (cases wr) auto
  from w obtain s d2' where cr: "os_Create env ?temp d3 = (None, s)" and cp: "copyParts env e ?temp paths 0 s = ((n, None), d2')"
    by (rule writeDurably_filled)
  have tc: "path_comps ?temp = path_comps (dataDir e) @ [''.tmp'', uuid_str env (Suc (next_uuid d)) @ ''.tmp'']"
    by (rule temp_comps [OF wf])
  have apart: "path_comps full' \<noteq> path_comps ?temp" if "p \<in> set paths" "resolveStoragePath env e p = Inr full'" for p full'
  proof -
    from ps [OF that(1)] obtain i name where p: "canonical p" "split_on CHR ''/'' p = [''.tmp'', ''multipart'', i, name]"
      by (auto simp: part_path_def)
    obtain f where "resolveStoragePath env e p = Inr f" "path_comps f = path_comps (dataDir e) @ split_on CHR ''/'' p"
      by (rule canonical_comps [OF wf(1) p(1), of env])
    then have "path_comps full' = path_comps (dataDir e) @ [''.tmp'', ''multipart'', i, name]"
      using that(2) p(2) by simp
    then show ?thesis unfolding tc by simp
  qed
  have "blob env e s p = blob env e d p" if "p \<in> set paths" for p
    using apart [OF that] os_Create_file_at [OF cr] k(1) by (auto simp: blob_def split: sum.splits)
  moreover have "\<forall>p\<in>set paths. blob env e s p \<noteq> None"
    by (rule copyParts_present [OF cp]) (rule apart)
  ultimately show ?thesis by simp
qed

section \<open>The bookkeeping\<close>

text \<open>
  Who holds a storage path: the request that wrote the file and has not published it, a row, or
  nobody who could still publish or name it.
\<close>

datatype holder = Fresh | RowOf "string \<times> string" | FreshPart string | PartOf "string \<times> int" | Doomed

record store =
  sw :: world
  own :: "string \<Rightarrow> (holder \<times> bytes) option"
  idents :: "string set"
  dead :: "string set"

abbreviation sdisk :: "store \<Rightarrow> disk" where "sdisk st \<equiv> w_disk (sw st)"
abbreviation stabs :: "store \<Rightarrow> tables" where "stabs st \<equiv> tabs (w_db (sw st))"

definition object_shape :: "string \<Rightarrow> bool" where
  "object_shape p \<longleftrightarrow> object_path p \<and> last (split_on CHR ''/'' p) \<noteq> ''multipart''"

fun shape :: "holder \<Rightarrow> string \<Rightarrow> bool" where
  "shape Fresh p = object_shape p"
| "shape (RowOf k) p = object_shape p"
| "shape (FreshPart i) p = part_path i p"
| "shape (PartOf k) p = part_path (fst k) p"
| "shape Doomed p = (object_shape p \<or> (\<exists>i. part_path i p))"

fun alive :: "string set \<Rightarrow> holder \<Rightarrow> bool" where
  "alive D Fresh = True"
| "alive D (RowOf k) = True"
| "alive D (FreshPart i) = (i \<notin> D)"
| "alive D (PartOf k) = (fst k \<notin> D)"
| "alive D Doomed = False"

text \<open>No identifier still to be drawn occurs in the path, and the file of a live holder is there.\<close>

definition path_used :: "os_env \<Rightarrow> disk \<Rightarrow> string \<Rightarrow> bool" where
  "path_used env d p \<longleftrightarrow> (\<forall>n. next_uuid d \<le> n \<longrightarrow> \<not> carries env n (last (split_on CHR ''/'' p)))"

definition holds :: "os_env \<Rightarrow> engine \<Rightarrow> disk \<Rightarrow> string set \<Rightarrow> string \<Rightarrow> holder \<times> bytes \<Rightarrow> bool" where
  "holds env e d D p v \<longleftrightarrow> path_used env d p \<and> shape (fst v) p \<and> (alive D (fst v) \<longrightarrow> blob env e d p = Some (snd v))"

definition used_id :: "os_env \<Rightarrow> disk \<Rightarrow> string \<Rightarrow> bool" where
  "used_id env d i \<longleftrightarrow> (\<exists>m. m < next_uuid d \<and> m < uuid_count env \<and> i = uuid_str env m)"

definition row_held :: "(string \<Rightarrow> (holder \<times> bytes) option) \<Rightarrow> Object \<Rightarrow> bool" where
  "row_held f x \<longleftrightarrow> (\<exists>c. f (o_StoragePath x) = Some (RowOf (obj_key x), c) \<and> o_Size x = int (length c))"

definition part_held :: "(string \<Rightarrow> (holder \<times> bytes) option) \<Rightarrow> MultipartPart \<Rightarrow> bool" where
  "part_held f q \<longleftrightarrow> (\<exists>c. f (mp_StoragePath q) = Some (PartOf (part_key q), c) \<and> mp_Size q = int (length c))"

definition upload_ids :: "tables \<Rightarrow> string set" where
  "upload_ids t = mu_ID ` set (uploads t)"

definition disk_ok :: "os_env \<Rightarrow> engine \<Rightarrow> store \<Rightarrow> bool" where
  "disk_ok env e st \<longleftrightarrow> ids_fresh env (sdisk st) \<and> (\<forall>p v. own st p = Some v \<longrightarrow> holds env e (sdisk st) (dead st) p v)"

definition rows_ok :: "store \<Rightarrow> bool" where
  "rows_ok st \<longleftrightarrow> (\<forall>x\<in>set (objects (stabs st)). row_held (own st) x)
     \<and> (\<forall>q\<in>set (parts (stabs st)). part_held (own st) q \<and> mp_UploadID q \<in> upload_ids (stabs st))
     \<and> (\<forall>b\<in>set (buckets (stabs st)). good_elem (b_Name b))"

definition uploads_known :: "os_env \<Rightarrow> store \<Rightarrow> bool" where
  "uploads_known env st \<longleftrightarrow> (\<forall>i\<in>idents st \<union> dead st \<union> upload_ids (stabs st). used_id env (sdisk st) i)
     \<and> dead st \<inter> upload_ids (stabs st) = {} \<and> idents st \<inter> (dead st \<union> upload_ids (stabs st)) = {}"

definition store_ok :: "os_env \<Rightarrow> engine \<Rightarrow> store \<Rightarrow> bool" where
  "store_ok env e st \<longleftrightarrow> disk_ok env e st \<and> rows_ok st \<and> uploads_known env st"

section \<open>The steps\<close>

definition set_disk :: "disk \<Rightarrow> store \<Rightarrow> store" where
  "set_disk d st = st\<lparr>sw := (sw st)\<lparr>w_disk := d\<rparr>\<rparr>"

definition set_db :: "db \<Rightarrow> store \<Rightarrow> store" where
  "set_db s st = st\<lparr>sw := (sw st)\<lparr>w_db := s\<rparr>\<rparr>"

definition hold :: "string \<Rightarrow> holder \<Rightarrow> bytes \<Rightarrow> store \<Rightarrow> store" where
  "hold p hl c st = st\<lparr>own := (own st)(p \<mapsto> (hl, c))\<rparr>"

text \<open>Statements that add no object, part or upload; the uploads they remove are dead.\<close>

definition shrinks_tables :: "tables \<Rightarrow> tables \<Rightarrow> bool" where
  "shrinks_tables t t' \<longleftrightarrow> set (objects t') \<subseteq> set (objects t) \<and> set (parts t') \<subseteq> set (parts t)
     \<and> upload_ids t' \<subseteq> upload_ids t \<and> (\<forall>q\<in>set (parts t'). mp_UploadID q \<in> upload_ids t')
     \<and> (\<forall>b\<in>set (buckets t'). b \<in> set (buckets t) \<or> good_elem (b_Name b))"

inductive store_step :: "os_env \<Rightarrow> engine \<Rightarrow> db_env \<Rightarrow> store \<Rightarrow> store \<Rightarrow> bool" for env e denv where
  write_file: "Write env e b k r (sdisk st) = (Inr (sp, n), d) \<Longrightarrow> good_elem b \<Longrightarrow> next_uuid (sdisk st) + 2 \<le> uuid_count env \<Longrightarrow>
    store_step env e denv st (hold sp Fresh (reader_bytes r) (set_disk d st))"
| write_fails: "Write env e b k r (sdisk st) = (Inl err, d) \<Longrightarrow> good_elem b \<Longrightarrow> next_uuid (sdisk st) + 2 \<le> uuid_count env \<Longrightarrow>
    store_step env e denv st (set_disk d st)"
| assemble: "AssembleParts env e b k ps (sdisk st) = (Inr (sp, n), d) \<Longrightarrow> good_elem b \<Longrightarrow> next_uuid (sdisk st) + 2 \<le> uuid_count env \<Longrightarrow>
    (\<And>p. p \<in> set ps \<Longrightarrow> \<exists>i. part_path i p) \<Longrightarrow>
    store_step env e denv st (hold sp Fresh (parts_bytes env e ps (sdisk st)) (set_disk d st))"
| assemble_fails: "AssembleParts env e b k ps (sdisk st) = (Inl err, d) \<Longrightarrow> good_elem b \<Longrightarrow> next_uuid (sdisk st) + 2 \<le> uuid_count env \<Longrightarrow>
    store_step env e denv st (set_disk d st)"
| write_part: "WritePart env e i n r (sdisk st) = (Inr (sp, m), d) \<Longrightarrow> i \<in> dead st \<union> upload_ids (stabs st) \<Longrightarrow>
    next_uuid (sdisk st) < uuid_count env \<Longrightarrow>
    store_step env e denv st (hold sp (FreshPart i) (reader_bytes r) (set_disk d st))"
| write_part_fails: "WritePart env e i n r (sdisk st) = (Inl err, d) \<Longrightarrow> i \<in> dead st \<union> upload_ids (stabs st) \<Longrightarrow>
    next_uuid (sdisk st) < uuid_count env \<Longrightarrow> store_step env e denv st (set_disk d st)"
| publish: "Replace denv x im inm (w_db (sw st)) = (Inr old, s) \<Longrightarrow> own st (o_StoragePath x) = Some (Fresh, c) \<Longrightarrow>
    o_Size x = int (length c) \<Longrightarrow>
    store_step env e denv st (hold (o_StoragePath x) (RowOf (obj_key x)) c (set_db s st))"
| complete: "CompleteUpload denv x i im inm (w_db (sw st)) = (Inr old, s) \<Longrightarrow> own st (o_StoragePath x) = Some (Fresh, c) \<Longrightarrow>
    o_Size x = int (length c) \<Longrightarrow>
    store_step env e denv st ((hold (o_StoragePath x) (RowOf (obj_key x)) c (set_db s st))\<lparr>dead := insert i (dead st)\<rparr>)"
| add_part: "AddPart denv q (w_db (sw st)) = (Inr old, s) \<Longrightarrow> own st (mp_StoragePath q) = Some (FreshPart (mp_UploadID q), c) \<Longrightarrow>
    mp_Size q = int (length c) \<Longrightarrow>
    store_step env e denv st (hold (mp_StoragePath q) (PartOf (part_key q)) c (set_db s st))"
| statement: "shrinks_tables (stabs st) (tabs s) \<Longrightarrow>
    store_step env e denv st ((set_db s st)\<lparr>dead := dead st \<union> (upload_ids (stabs st) - upload_ids (tabs s))\<rparr>)"
| doom: "own st p = Some (hl, c) \<Longrightarrow> p \<notin> o_StoragePath ` set (objects (stabs st)) \<Longrightarrow>
    p \<notin> mp_StoragePath ` set (parts (stabs st)) \<Longrightarrow> store_step env e denv st (hold p Doomed c st)"
| delete_file: "Delete env e p (sdisk st) = (r, d) \<Longrightarrow> own st p = Some (Doomed, c) \<Longrightarrow>
    store_step env e denv st (set_disk d st)"
| draw: "new_uuid env (sdisk st) = (i, d) \<Longrightarrow> next_uuid (sdisk st) < uuid_count env \<Longrightarrow>
    store_step env e denv st ((set_disk d st)\<lparr>idents := insert i (idents st)\<rparr>)"
| create_upload: "upload_Create denv u (w_db (sw st)) = (r, s) \<Longrightarrow> mu_ID u \<in> idents st \<Longrightarrow>
    store_step env e denv st ((set_db s st)\<lparr>idents := idents st - {mu_ID u}\<rparr>)"
| remove_parts: "DeleteUploadParts env e i (sdisk st) = (r, d) \<Longrightarrow> i \<in> dead st \<Longrightarrow>
    store_step env e denv st (set_disk d st)"
| look: "files d = files (sdisk st) \<Longrightarrow> next_uuid d = next_uuid (sdisk st) \<Longrightarrow> store_step env e denv st (set_disk d st)"

inductive_cases store_stepE: "store_step env e denv st st'"

section \<open>Effects of the statements\<close>

lemma upsert_object_effect:
  assumes "upsert_object y t = (Inr u, t')"
  shows "set (objects t') \<subseteq> insert y {z \<in> set (objects t). obj_key z \<noteq> obj_key y}"
    and "y \<in> set (objects t')" and "\<exists>xs. t' = t\<lparr>objects := xs\<rparr>"
proof -
  consider (upd) "obj_key y \<in> obj_key ` set (objects t)"
        "t' = t\<lparr>objects := map (\<lambda>z. if obj_key z = obj_key y then y else z) (objects t)\<rparr>"
    | (new) "obj_key y \<notin> obj_key ` set (objects t)" "t' = t\<lparr>objects := objects t @ [y]\<rparr>"
    using assms by (auto simp: upsert_object_def split: if_splits)
  then have "set (objects t') \<subseteq> insert y {z \<in> set (objects t). obj_key z \<noteq> obj_key y} \<and> y \<in> set (objects t')
      \<and> (\<exists>xs. t' = t\<lparr>objects := xs\<rparr>)"
    by cases (auto intro: rev_image_eqI)
  then show "set (objects t') \<subseteq> insert y {z \<in> set (objects t). obj_key z \<noteq> obj_key y}"
    "y \<in> set (objects t')" "\<exists>xs. t' = t\<lparr>objects := xs\<rparr>" by blast+
qed

lemma upsert_part_effect:
  assumes "upsert_part q t = (Inr u, t')"
  shows "\<exists>qs. t' = t\<lparr>parts := qs\<rparr> \<and> set qs \<subseteq> insert q {z \<in> set (parts t). part_key z \<noteq> part_key q}"
proof -
  consider (upd) "part_key q \<in> part_key ` set (parts t)"
        "t' = t\<lparr>parts := map (\<lambda>z. if part_key z = part_key q then q else z) (parts t)\<rparr>"
    | (new) "part_key q \<notin> part_key ` set (parts t)" "t' = t\<lparr>parts := parts t @ [q]\<rparr>"
    using assms by (auto simp: upsert_part_def split: if_splits)
  then have "t' = t\<lparr>parts := parts t'\<rparr> \<and> set (parts t') \<subseteq> insert q {z \<in> set (parts t). part_key z \<noteq> part_key q}"
    by cases (auto intro: rev_image_eqI)
  then show ?thesis by blast
qed

lemma replace_body_effect:
  assumes "replace_body env x im inm s = (Inr old, s')"
  obtains y xs where "obj_key y = obj_key x" and "o_StoragePath y = o_StoragePath x" and "o_Size y = o_Size x"
    and "set xs \<subseteq> insert y {z \<in> set (objects (tabs s)). obj_key z \<noteq> obj_key x}" and "y \<in> set xs"
    and "tabs s' = (tabs s)\<lparr>objects := xs\<rparr>"
    and "old = (case find_object (o_BucketName x) (o_Key x) (tabs s) of None \<Rightarrow> [] | Some z \<Rightarrow> o_StoragePath z)"
  using assms
proof (rule replace_body_Inr)
  fix v y
  assume v: "old = storagePath v"
      "v = (case find_object (o_BucketName x) (o_Key x) (tabs s) of
                None \<Rightarrow> \<lparr>exists = False, storagePath = [], etag = []\<rparr>
              | Some z \<Rightarrow> \<lparr>exists = True, storagePath = o_StoragePath z, etag = o_ETag z\<rparr>)"
    and y: "obj_key y = obj_key x" "o_StoragePath y = o_StoragePath x" "o_Size y = o_Size x"
      "upsert_object y (tabs s) = (Inr (), tabs s')"
  obtain xs where xs: "tabs s' = (tabs s)\<lparr>objects := xs\<rparr>" using upsert_object_effect(3) [OF y(4)] by blast
  show ?thesis
  proof (rule that [OF y(1-3) _ _ xs])
    show "set xs \<subseteq> insert y {z \<in> set (objects (tabs s)). obj_key z \<noteq> obj_key x}" "y \<in> set xs"
      using upsert_object_effect(1,2) [OF y(4)] xs y(1) by auto
  qed (simp add: v split: option.splits)
qed

lemma Replace_effect:
  assumes "Replace env x im inm s = (Inr old, s')"
  obtains y xs where "obj_key y = obj_key x" and "o_StoragePath y = o_StoragePath x" and "o_Size y = o_Size x"
    and "set xs \<subseteq> insert y {z \<in> set (objects (tabs s)). obj_key z \<noteq> obj_key x}" and "y \<in> set xs"
    and "tabs s' = (tabs s)\<lparr>objects := xs\<rparr>"
    and "old = (case find_object (o_BucketName x) (o_Key x) (tabs s) of None \<Rightarrow> [] | Some z \<Rightarrow> o_StoragePath z)"
proof -
  obtain s1 s2 where "tabs s1 = tabs s" "replace_body env x im inm s1 = (Inr old, s2)" "tabs s' = tabs s2"
    using assms unfolding Replace_def by (rule in_tx_Inr)
  then show ?thesis using that by (elim replace_body_effect) simp
qed

lemma CompleteUpload_effect:
  assumes "CompleteUpload env x i im inm s = (Inr old, s')"
  obtains y xs where "obj_key y = obj_key x" and "o_StoragePath y = o_StoragePath x" and "o_Size y = o_Size x"
    and "set xs \<subseteq> insert y {z \<in> set (objects (tabs s)). obj_key z \<noteq> obj_key x}" and "y \<in> set xs"
    and "tabs s' = delete_upload i ((tabs s)\<lparr>objects := xs\<rparr>)" and "i \<in> upload_ids (tabs s)"
    and "old = (case find_object (o_BucketName x) (o_Key x) (tabs s) of None \<Rightarrow> [] | Some z \<Rightarrow> o_StoragePath z)"
proof -
  obtain s0 s3 where s0: "tabs s0 = tabs s" and b: "complete_body env x i im inm s0 = (Inr old, s3)" and s3: "tabs s' = tabs s3"
    using assms unfolding CompleteUpload_def by (rule in_tx_Inr)
  from b obtain u s1 s2 where u: "find_upload i (tabs s0) = Some u" and s1: "tabs s1 = tabs s0"
    and r: "replace_body env x im inm s1 = (Inr old, s2)" and t: "tabs s3 = delete_upload i (tabs s2)"
    by (elim complete_body_Inr) blast
  have "upload_exists (tabs s) i" using u find_upload_exists [of i "tabs s"] s0 by simp
  then have i: "i \<in> upload_ids (tabs s)" by (simp add: upload_exists_def upload_ids_def)
  from r show ?thesis
    by (rule replace_body_effect) (use that i s0 s1 s3 t in simp)
qed

lemma AddPart_effect:
  assumes "AddPart env p s = (Inr old, s')"
  obtains q qs where "part_key q = part_key p" and "mp_StoragePath q = mp_StoragePath p" and "mp_Size q = mp_Size p"
    and "set qs \<subseteq> insert q {z \<in> set (parts (tabs s)). part_key z \<noteq> part_key p}" and "tabs s' = (tabs s)\<lparr>parts := qs\<rparr>"
    and "mp_UploadID p \<in> upload_ids (tabs s)"
    and "old = (case find_part (mp_UploadID p) (mp_PartNumber p) (tabs s) of None \<Rightarrow> [] | Some q \<Rightarrow> mp_StoragePath q)"
proof -
  obtain s0 s3 where s0: "tabs s0 = tabs s" and b: "addpart_body env p s0 = (Inr old, s3)" and s3: "tabs s' = tabs s3"
    using assms unfolding AddPart_def by (rule in_tx_Inr)
  from b obtain u q where u: "find_upload (mp_UploadID p) (tabs s0) = Some u"
    and old: "old = (case find_part (mp_UploadID p) (mp_PartNumber p) (tabs s0) of None \<Rightarrow> [] | Some q \<Rightarrow> mp_StoragePath q)"
    and q: "part_key q = part_key p" "mp_StoragePath q = mp_StoragePath p" "mp_Size q = mp_Size p"
      "upsert_part q (tabs s0) = (Inr (), tabs s3)"
    by (elim addpart_body_Inr) blast
  have "upload_exists (tabs s) (mp_UploadID p)" using u find_upload_exists [of "mp_UploadID p" "tabs s"] s0 by simp
  then have i: "mp_UploadID p \<in> upload_ids (tabs s)" by (simp add: upload_exists_def upload_ids_def)
  obtain qs where qs: "tabs s3 = (tabs s0)\<lparr>parts := qs\<rparr>" "set qs \<subseteq> insert q {z \<in> set (parts (tabs s0)). part_key z \<noteq> part_key q}"
    using upsert_part_effect [OF q(4)] by blast
  show ?thesis by (rule that [OF q(1-3), of qs]) (use i old q(1) s0 s3 qs in simp_all)
qed

section \<open>The invariant\<close>

lemma store_simps [simp]:
  "sw (set_disk d st) = (sw st)\<lparr>w_disk := d\<rparr>" "own (set_disk d st) = own st"
  "idents (set_disk d st) = idents st" "dead (set_disk d st) = dead st"
  "sw (set_db s st) = (sw st)\<lparr>w_db := s\<rparr>" "own (set_db s st) = own st"
  "idents (set_db s st) = idents st" "dead (set_db s st) = dead st"
  "sw (hold p hl c st) = sw st" "own (hold p hl c st) = (own st)(p \<mapsto> (hl, c))"
  "idents (hold p hl c st) = idents st" "dead (hold p hl c st) = dead st"
  by (simp_all add: set_disk_def set_db_def hold_def)

lemma used_id_mono: "used_id env d i \<Longrightarrow> next_uuid d \<le> next_uuid d' \<Longrightarrow> used_id env d' i"
  unfolding used_id_def by (elim exE conjE, intro exI conjI) auto

lemma path_used_mono: "path_used env d p \<Longrightarrow> next_uuid d \<le> next_uuid d' \<Longrightarrow> path_used env d' p"
  by (auto simp: path_used_def)

lemma used_id_good: "uuid_wf env \<Longrightarrow> used_id env d i \<Longrightarrow> good_elem i"
  using uuid_good(1) by (auto simp: used_id_def)

lemma shape_canonical: "shape hl p \<Longrightarrow> canonical p"
  by (cases hl) (auto simp: object_shape_def object_path_def part_path_def)

lemma store_okD:
  assumes "store_ok env e st"
  shows "own st p = Some v \<Longrightarrow> holds env e (sdisk st) (dead st) p v"
    and "x \<in> set (objects (stabs st)) \<Longrightarrow> row_held (own st) x"
    and "q \<in> set (parts (stabs st)) \<Longrightarrow> part_held (own st) q"
    and "ids_fresh env (sdisk st)"
    and "i \<in> idents st \<union> dead st \<union> upload_ids (stabs st) \<Longrightarrow> used_id env (sdisk st) i"
    and "b \<in> set (buckets (stabs st)) \<Longrightarrow> good_elem (b_Name b)"
    and "q \<in> set (parts (stabs st)) \<Longrightarrow> mp_UploadID q \<in> upload_ids (stabs st)"
  using assms unfolding store_ok_def disk_ok_def rows_ok_def uploads_known_def by blast+

text \<open>A new state of the disk that keeps the files of the live holders.\<close>

lemma store_ok_disk:
  assumes "store_ok env e st" and "ids_fresh env d" and "next_uuid (sdisk st) \<le> next_uuid d"
    and "\<And>p v. own st p = Some v \<Longrightarrow> alive (dead st) (fst v) \<Longrightarrow> blob env e (sdisk st) p = Some (snd v) \<Longrightarrow>
           shape (fst v) p \<Longrightarrow> blob env e d p = Some (snd v)"
  shows "store_ok env e (set_disk d st)"
proof -
  have "holds env e d (dead st) p v" if "own st p = Some v" for p v
    using store_okD(1) [OF assms(1) that] assms(3) assms(4) [OF that] path_used_mono [of env "sdisk st" p d]
    by (auto simp: holds_def)
  moreover have "used_id env d i" if "i \<in> idents st \<union> dead st \<union> upload_ids (stabs st)" for i
    by (rule used_id_mono [OF store_okD(5) [OF assms(1) that] assms(3)])
  ultimately show ?thesis
    using assms(1,2) by (auto simp: store_ok_def disk_ok_def rows_ok_def uploads_known_def)
qed

text \<open>A path that no row names gets a new holder.\<close>

lemma store_ok_hold:
  assumes "store_ok env e st" and "p \<notin> o_StoragePath ` set (objects (stabs st))"
    and "p \<notin> mp_StoragePath ` set (parts (stabs st))" and "holds env e (sdisk st) (dead st) p (hl, c)"
  shows "store_ok env e (hold p hl c st)"
proof -
  have "row_held (own (hold p hl c st)) x" if "x \<in> set (objects (stabs st))" for x
  proof -
    have "o_StoragePath x \<noteq> p" using assms(2) that by blast
    then show ?thesis using assms(1) that by (auto simp: store_ok_def rows_ok_def row_held_def)
  qed
  moreover have "part_held (own (hold p hl c st)) q" if "q \<in> set (parts (stabs st))" for q
  proof -
    have "mp_StoragePath q \<noteq> p" using assms(3) that by blast
    then show ?thesis using assms(1) that by (auto simp: store_ok_def rows_ok_def part_held_def)
  qed
  ultimately show ?thesis
    using assms(1,4) by (auto simp: store_ok_def disk_ok_def rows_ok_def uploads_known_def)
qed

lemma only_adds_ok:
  assumes "store_ok env e st" and "only_adds env (sdisk st) d"
  shows "store_ok env e (set_disk d st)"
  using assms only_adds_blob by (intro store_ok_disk) (auto simp: only_adds_def)

lemma unnamed_path:
  assumes "store_ok env e st" and "own st p = None \<or> (\<exists>c. own st p = Some (Fresh, c)) \<or> (\<exists>i c. own st p = Some (FreshPart i, c))"
  shows "p \<notin> o_StoragePath ` set (objects (stabs st))" and "p \<notin> mp_StoragePath ` set (parts (stabs st))"
proof -
  show "p \<notin> o_StoragePath ` set (objects (stabs st))"
  proof
    assume "p \<in> o_StoragePath ` set (objects (stabs st))"
    then obtain x where "x \<in> set (objects (stabs st))" "p = o_StoragePath x" by blast
    with store_okD(2) [OF assms(1), of x] assms(2) show False by (auto simp: row_held_def)
  qed
  show "p \<notin> mp_StoragePath ` set (parts (stabs st))"
  proof
    assume "p \<in> mp_StoragePath ` set (parts (stabs st))"
    then obtain x where "x \<in> set (parts (stabs st))" "p = mp_StoragePath x" by blast
    with store_okD(3) [OF assms(1), of x] assms(2) show False by (auto simp: part_held_def)
  qed
qed

lemma new_file_ok:
  assumes ok: "store_ok env e st" and adds: "only_adds env (sdisk st) d" and e: "engine_wf e"
    and sh: "shape hl p" and carry: "carries env (next_uuid (sdisk st)) (last (split_on CHR ''/'' p))"
    and b: "blob env e d p = Some c"
  shows "store_ok env e (hold p hl c (set_disk d st))"
proof (rule store_ok_hold)
  show ok': "store_ok env e (set_disk d st)" by (rule only_adds_ok [OF ok adds])
  have "own st p = None"
  proof (rule ccontr)
    assume "own st p \<noteq> None"
    then obtain v where "own st p = Some v" by blast
    with store_okD(1) [OF ok] have "path_used env (sdisk st) p" by (auto simp: holds_def)
    with carry show False by (auto simp: path_used_def)
  qed
  then have none: "own (set_disk d st) p = None" by simp
  show "p \<notin> o_StoragePath ` set (objects (stabs (set_disk d st)))" "p \<notin> mp_StoragePath ` set (parts (stabs (set_disk d st)))"
    using unnamed_path [OF ok'] none by blast+
  have can: "canonical p" using sh by (rule shape_canonical)
  have f: "file_at d (path_comps (dataDir e) @ split_on CHR ''/'' p) \<noteq> None"
    using b by (simp add: blob_canonical [OF e can])
  have "ids_fresh env d" using adds by (simp add: only_adds_def)
  then have "path_used env d p"
    using f unfolding ids_fresh_def path_used_def by (metis last_appendR split_on_ne)
  with sh b show "holds env e (sdisk (set_disk d st)) (dead (set_disk d st)) p (hl, c)"
    by (simp add: holds_def)
qed

lemma removes_ok:
  assumes ok: "store_ok env e st" and "only_removes (sdisk st) d"
    and "\<And>p v. own st p = Some v \<Longrightarrow> alive (dead st) (fst v) \<Longrightarrow> shape (fst v) p \<Longrightarrow> blob env e d p = blob env e (sdisk st) p"
  shows "store_ok env e (set_disk d st)"
  using assms only_removes_fresh [of "sdisk st" d env]
  by (intro store_ok_disk) (auto simp: only_removes_def store_ok_def disk_ok_def)

text \<open>The steps on the disk.\<close>

lemma object_file_shape:
  assumes "engine_wf e" and "uuid_wf env" and "good_elem b" and "n < uuid_count env"
  shows "object_shape (filepath_Join [b, uuid_str env n])"
    and "carries env n (last (split_on CHR ''/'' (filepath_Join [b, uuid_str env n])))"
proof -
  have es: "\<forall>x\<in>set [b, uuid_str env n]. good_elem x" using assms(3) uuid_good(1) [OF assms(2)] by simp
  have sp: "split_on CHR ''/'' (filepath_Join [b, uuid_str env n]) = [b, uuid_str env n]"
    and can: "canonical (filepath_Join [b, uuid_str env n])"
    using full_comps(3,4) [OF assms(1) es] by simp_all
  have "length (uuid_str env n) = 36" using assms(2) by (simp add: uuid_wf_def)
  then have "uuid_str env n \<noteq> ''multipart''" by auto
  with sp can show "object_shape (filepath_Join [b, uuid_str env n])"
    by (simp add: object_shape_def object_path_def)
  show "carries env n (last (split_on CHR ''/'' (filepath_Join [b, uuid_str env n])))"
    using carries_self(1) [OF assms(2,4), of "[]"] sp by simp
qed

lemma write_ok:
  assumes wf: "engine_wf e" "uuid_wf env" and ok: "store_ok env e st" and b: "good_elem b"
    and more: "next_uuid (sdisk st) + 2 \<le> uuid_count env" and run: "Write env e b k r (sdisk st) = (res, d)"
  shows "store_ok env e (set_disk d st)"
    and "res = Inr (sp, n) \<Longrightarrow> store_ok env e (hold sp Fresh (reader_bytes r) (set_disk d st)) \<and> n = int (length (reader_bytes r))"
proof -
  note law = Write_law [OF wf store_okD(4) [OF ok] more b run]
  show "store_ok env e (set_disk d st)" by (rule only_adds_ok [OF ok law(1)])
  assume "res = Inr (sp, n)"
  from law(2) [OF this] have sp: "sp = filepath_Join [b, uuid_str env (next_uuid (sdisk st))]"
    and bl: "blob env e d sp = Some (reader_bytes r)" and n: "n = int (length (reader_bytes r))" by blast+
  have lt: "next_uuid (sdisk st) < uuid_count env" using more by simp
  show "store_ok env e (hold sp Fresh (reader_bytes r) (set_disk d st)) \<and> n = int (length (reader_bytes r))"
    using new_file_ok [OF ok law(1) wf(1) _ _ bl, of Fresh] object_file_shape [OF wf b lt] n
    unfolding sp by simp
qed

lemma assemble_ok:
  assumes wf: "engine_wf e" "uuid_wf env" and ok: "store_ok env e st" and b: "good_elem b"
    and more: "next_uuid (sdisk st) + 2 \<le> uuid_count env"
    and run: "AssembleParts env e b k ps (sdisk st) = (res, d)" and ps: "\<And>p. p \<in> set ps \<Longrightarrow> \<exists>i. part_path i p"
  shows "store_ok env e (set_disk d st)"
    and "res = Inr (sp, n) \<Longrightarrow> store_ok env e (hold sp Fresh (parts_bytes env e ps (sdisk st)) (set_disk d st))
           \<and> n = int (length (parts_bytes env e ps (sdisk st)))"
proof -
  note law = AssembleParts_law [OF wf store_okD(4) [OF ok] more b run]
  show "store_ok env e (set_disk d st)" by (rule only_adds_ok [OF ok law(1)])
  assume res: "res = Inr (sp, n)"
  have "\<forall>p\<in>set ps. blob env e (sdisk st) p \<noteq> None"
    by (rule AssembleParts_present [OF wf run [unfolded res] ps])
  from law(2) [OF res this] have sp: "sp = filepath_Join [b, uuid_str env (next_uuid (sdisk st))]"
    and bl: "blob env e d sp = Some (parts_bytes env e ps (sdisk st))"
    and n: "n = int (length (parts_bytes env e ps (sdisk st)))" by blast+
  have lt: "next_uuid (sdisk st) < uuid_count env" using more by simp
  show "store_ok env e (hold sp Fresh (parts_bytes env e ps (sdisk st)) (set_disk d st))
      \<and> n = int (length (parts_bytes env e ps (sdisk st)))"
    using new_file_ok [OF ok law(1) wf(1) _ _ bl, of Fresh] object_file_shape [OF wf b lt] n
    unfolding sp by simp
qed

lemma write_part_ok:
  assumes wf: "engine_wf e" "uuid_wf env" and ok: "store_ok env e st"
    and i: "i \<in> dead st \<union> upload_ids (stabs st)"
    and more: "next_uuid (sdisk st) < uuid_count env" and run: "WritePart env e i k r (sdisk st) = (res, d)"
  shows "store_ok env e (set_disk d st)"
    and "res = Inr (sp, n) \<Longrightarrow> store_ok env e (hold sp (FreshPart i) (reader_bytes r) (set_disk d st)) \<and> n = int (length (reader_bytes r))"
proof -
  have "used_id env (sdisk st) i" using store_okD(5) [OF ok] i by blast
  then have gi: "good_elem i" by (rule used_id_good [OF wf(2)])
  note law = WritePart_law [OF wf store_okD(4) [OF ok] more gi run]
  show "store_ok env e (set_disk d st)" by (rule only_adds_ok [OF ok law(1)])
  assume "res = Inr (sp, n)"
  let ?name = "Itoa k @ ''.tmp-'' @ uuid_str env (next_uuid (sdisk st))"
  from law(2) [OF \<open>res = Inr (sp, n)\<close>] have sp: "sp = filepath_Join [''.tmp'', ''multipart'', i, ?name]"
    and can: "canonical sp"
    and bl: "blob env e d sp = Some (reader_bytes r)" and n: "n = int (length (reader_bytes r))" by blast+
  have no: "CHR ''/'' \<notin> set (uuid_str env (next_uuid (sdisk st)))" using wf(2) by (auto simp: uuid_wf_def)
  then have "good_elem ?name"
    using Itoa_no_slash by (auto simp: good_elem_def append_eq_Cons_conv)
  then have es: "\<forall>x\<in>set [''.tmp'', ''multipart'', i, ?name]. good_elem x" using gi by (simp add: good_elem_def)
  have split: "split_on CHR ''/'' sp = [''.tmp'', ''multipart'', i, ?name]"
    unfolding sp using full_comps(4) [OF wf(1) es] by simp
  have c: "carries env (next_uuid (sdisk st)) (last (split_on CHR ''/'' sp))"
    using carries_self(1) [OF wf(2) more, of "Itoa k @ ''.tmp-''"] split by simp
  have sh: "shape (FreshPart i) sp" using can split by (simp add: part_path_def)
  show "store_ok env e (hold sp (FreshPart i) (reader_bytes r) (set_disk d st)) \<and> n = int (length (reader_bytes r))"
    using new_file_ok [OF ok law(1) wf(1) sh c bl] n by blast
qed

lemma shapes_apart:
  assumes "shape hl p" and "shape hl' p'" and "p \<noteq> p'"
  shows "\<not> prefix (split_on CHR ''/'' p) (split_on CHR ''/'' p')"
proof -
  have sh: "object_shape q \<or> (\<exists>i. part_path i q)" if "shape l q" for l q using that by (cases l) auto
  have lens: "object_shape q \<Longrightarrow> length (split_on CHR ''/'' q) = 2" "part_path i q \<Longrightarrow> length (split_on CHR ''/'' q) = 4" for q i
    by (auto simp: object_shape_def object_path_def part_path_def)
  have ne: "split_on CHR ''/'' p \<noteq> split_on CHR ''/'' p'" using assms(3) split_on_inj by metis
  consider "object_shape p" "object_shape p'" | i j where "part_path i p" "part_path j p'"
    | i where "part_path i p" "object_shape p'" | j where "object_shape p" "part_path j p'"
    using sh [OF assms(1)] sh [OF assms(2)] by blast
  moreover have same: "\<not> prefix (split_on CHR ''/'' p) (split_on CHR ''/'' p')"
    if "length (split_on CHR ''/'' p) = length (split_on CHR ''/'' p')"
    using that ne by (auto simp: prefix_def)
  ultimately show ?thesis
  proof cases
    case 1
    then show ?thesis using lens by (intro same) simp
  next
    case (2 i j)
    then show ?thesis using lens by (intro same) simp
  next
    case (4 j)
    then obtain b u name where "split_on CHR ''/'' p = [b, u]" "u \<noteq> ''multipart''"
        "split_on CHR ''/'' p' = [''.tmp'', ''multipart'', j, name]"
      by (auto simp: object_shape_def object_path_def part_path_def length_Suc_conv numeral_2_eq_2)
    then show ?thesis by simp
  next
    case 3
    then show ?thesis using lens by (metis prefix_length_le numeral_le_iff semiring_norm(69) semiring_norm(71))
  qed
qed

lemma delete_file_ok:
  assumes wf: "engine_wf e" and ok: "store_ok env e st" and run: "Delete env e p (sdisk st) = (r, d)"
    and doomed: "own st p = Some (Doomed, c)"
  shows "store_ok env e (set_disk d st)"
proof (rule removes_ok [OF ok])
  have sh: "shape Doomed p" using store_okD(1) [OF ok doomed] by (simp add: holds_def)
  note law = Delete_law [OF wf shape_canonical [OF sh] run]
  show "only_removes (sdisk st) d" by (rule law(1))
  fix p' v
  assume v: "own st p' = Some v" "alive (dead st) (fst v)" "shape (fst v) p'"
  then have "p' \<noteq> p" using doomed by auto
  from law(3) [OF shape_canonical [OF v(3)] shapes_apart [OF v(3) sh this]]
  show "blob env e d p' = blob env e (sdisk st) p'" .
qed

lemma remove_parts_ok:
  assumes wf: "engine_wf e" "uuid_wf env" and ok: "store_ok env e st"
    and run: "DeleteUploadParts env e i (sdisk st) = (r, d)" and i: "i \<in> dead st"
  shows "store_ok env e (set_disk d st)"
proof (rule removes_ok [OF ok])
  have "used_id env (sdisk st) i" using store_okD(5) [OF ok] i by blast
  then have gi: "good_elem i" by (rule used_id_good [OF wf(2)])
  note law = DeleteUploadParts_law [OF wf(1) gi run]
  show "only_removes (sdisk st) d" by (rule law(1))
  fix p v
  assume v: "own st p = Some v" "alive (dead st) (fst v)" "shape (fst v) p"
  have "\<not> prefix [''.tmp'', ''multipart'', i] (split_on CHR ''/'' p)"
    using v(2,3) i
    by (cases "fst v") (auto simp: object_shape_def object_path_def part_path_def length_Suc_conv numeral_2_eq_2)
  with law(2) [OF shape_canonical [OF v(3)]] show "blob env e d p = blob env e (sdisk st) p" by blast
qed

text \<open>The steps on the tables.\<close>

lemma publish_rows:
  assumes ok: "store_ok env e st" and own: "own st (o_StoragePath x) = Some (Fresh, c)" and sz: "o_Size x = int (length c)"
    and y: "obj_key y = obj_key x" "o_StoragePath y = o_StoragePath x" "o_Size y = o_Size x"
    and xs: "set xs \<subseteq> insert y {z \<in> set (objects (stabs st)). obj_key z \<noteq> obj_key x}" and z: "z \<in> set xs"
  shows "row_held ((own st)(o_StoragePath x \<mapsto> (RowOf (obj_key x), c))) z"
proof (cases "z = y")
  case True
  then show ?thesis using y sz by (simp add: row_held_def)
next
  case False
  then have "z \<in> set (objects (stabs st))" using xs z by blast
  with store_okD(2) [OF ok] have "row_held (own st) z" by blast
  then show ?thesis using own by (auto simp: row_held_def)
qed

lemma part_held_keep:
  assumes "part_held f q" and "f p = Some (hl, c)" and "\<And>k. hl \<noteq> PartOf k"
  shows "part_held (f(p \<mapsto> v)) q"
  using assms(1,2) assms(3) [of "part_key q"] by (auto simp: part_held_def)

lemma fresh_object_path:
  assumes "store_ok env e st" and "own st p = Some (Fresh, c)"
  shows "holds env e (sdisk st) (dead st) p (RowOf k, c)"
  using store_okD(1) [OF assms] by (simp add: holds_def)

lemma publish_ok:
  assumes ok: "store_ok env e st" and run: "Replace denv x im inm (w_db (sw st)) = (Inr old, s)"
    and own: "own st (o_StoragePath x) = Some (Fresh, c)" and sz: "o_Size x = int (length c)"
  shows "store_ok env e (hold (o_StoragePath x) (RowOf (obj_key x)) c (set_db s st))"
  using run
proof (rule Replace_effect)
  fix y xs
  assume y: "obj_key y = obj_key x" "o_StoragePath y = o_StoragePath x" "o_Size y = o_Size x"
    "set xs \<subseteq> insert y {z \<in> set (objects (stabs st)). obj_key z \<noteq> obj_key x}"
    and t: "tabs s = (stabs st)\<lparr>objects := xs\<rparr>"
  let ?f = "(own st)(o_StoragePath x \<mapsto> (RowOf (obj_key x), c))"
  have "row_held ?f z" if "z \<in> set xs" for z by (rule publish_rows [OF ok own sz y that])
  moreover have "part_held ?f q" if "q \<in> set (parts (stabs st))" for q
    by (rule part_held_keep [OF store_okD(3) [OF ok that] own]) simp
  moreover have "holds env e (sdisk st) (dead st) p v" if "?f p = Some v" for p v
    using that fresh_object_path [OF ok own, of "obj_key x"] store_okD(1) [OF ok, of p v] by (auto split: if_splits)
  ultimately show ?thesis
    using ok by (auto simp: store_ok_def disk_ok_def rows_ok_def uploads_known_def t upload_ids_def)
qed

lemma holds_dead: "holds env e d D p v \<Longrightarrow> D \<subseteq> D' \<Longrightarrow> holds env e d D' p v"
  by (cases "fst v") (auto simp: holds_def)

lemma delete_upload_ids: "upload_ids (delete_upload i t) = upload_ids t - {i}"
  by (auto simp: upload_ids_def delete_upload_def)

lemma complete_ok:
  assumes ok: "store_ok env e st" and run: "CompleteUpload denv x i im inm (w_db (sw st)) = (Inr old, s)"
    and own: "own st (o_StoragePath x) = Some (Fresh, c)" and sz: "o_Size x = int (length c)"
  shows "store_ok env e ((hold (o_StoragePath x) (RowOf (obj_key x)) c (set_db s st))\<lparr>dead := insert i (dead st)\<rparr>)"
  using run
proof (rule CompleteUpload_effect)
  fix y xs
  assume y: "obj_key y = obj_key x" "o_StoragePath y = o_StoragePath x" "o_Size y = o_Size x"
    "set xs \<subseteq> insert y {z \<in> set (objects (stabs st)). obj_key z \<noteq> obj_key x}"
    and t: "tabs s = delete_upload i ((stabs st)\<lparr>objects := xs\<rparr>)" and i: "i \<in> upload_ids (stabs st)"
  let ?f = "(own st)(o_StoragePath x \<mapsto> (RowOf (obj_key x), c))"
  have ids: "upload_ids (tabs s) = upload_ids (stabs st) - {i}"
    by (simp add: t delete_upload_ids) (simp add: upload_ids_def)
  have rows: "objects (tabs s) = xs" "parts (tabs s) = filter (\<lambda>q. mp_UploadID q \<noteq> i) (parts (stabs st))"
    "buckets (tabs s) = buckets (stabs st)" by (simp_all add: t delete_upload_def)
  have 1: "row_held ?f z" if "z \<in> set xs" for z by (rule publish_rows [OF ok own sz y that])
  have 2: "part_held ?f q \<and> mp_UploadID q \<in> upload_ids (tabs s)" if "q \<in> set (parts (tabs s))" for q
    using that part_held_keep [OF store_okD(3) [OF ok] own, of q] store_okD(7) [OF ok, of q] by (auto simp: rows ids)
  have 3: "holds env e (sdisk st) (insert i (dead st)) p v" if "?f p = Some v" for p v
    using that holds_dead [OF fresh_object_path [OF ok own], of "insert i (dead st)" "obj_key x"]
      holds_dead [OF store_okD(1) [OF ok, of p v], of "insert i (dead st)"] by (auto split: if_splits)
  show ?thesis
    using ok 1 2 3 i by (auto simp: store_ok_def disk_ok_def rows_ok_def uploads_known_def rows ids)
qed

lemma add_part_ok:
  assumes ok: "store_ok env e st" and run: "AddPart denv q (w_db (sw st)) = (Inr old, s)"
    and own: "own st (mp_StoragePath q) = Some (FreshPart (mp_UploadID q), c)" and sz: "mp_Size q = int (length c)"
  shows "store_ok env e (hold (mp_StoragePath q) (PartOf (part_key q)) c (set_db s st))"
  using run
proof (rule AddPart_effect)
  fix y qs
  assume y: "part_key y = part_key q" "mp_StoragePath y = mp_StoragePath q" "mp_Size y = mp_Size q"
    and qs: "set qs \<subseteq> insert y {z \<in> set (parts (stabs st)). part_key z \<noteq> part_key q}"
    and t: "tabs s = (stabs st)\<lparr>parts := qs\<rparr>" and i: "mp_UploadID q \<in> upload_ids (stabs st)"
  let ?f = "(own st)(mp_StoragePath q \<mapsto> (PartOf (part_key q), c))"
  have ids: "upload_ids (tabs s) = upload_ids (stabs st)" by (simp add: t upload_ids_def)
  have 1: "row_held ?f x" if "x \<in> set (objects (stabs st))" for x
    using store_okD(2) [OF ok that] own by (auto simp: row_held_def)
  have 2: "part_held ?f z \<and> mp_UploadID z \<in> upload_ids (stabs st)" if "z \<in> set qs" for z
  proof (cases "z = y")
    case True
    then show ?thesis using y sz i by (simp add: part_held_def part_key_def)
  next
    case False
    then have "z \<in> set (parts (stabs st))" using qs that by blast
    then show ?thesis using store_okD(3,7) [OF ok] part_held_keep [OF store_okD(3) [OF ok] own] by blast
  qed
  have k: "fst (part_key q) = mp_UploadID q" by (simp add: part_key_def)
  have 3: "holds env e (sdisk st) (dead st) p v" if "?f p = Some v" for p v
    using that store_okD(1) [OF ok, of p v] store_okD(1) [OF ok own] k by (auto simp: holds_def split: if_splits)
  show ?thesis
    using ok 1 2 3 by (auto simp: store_ok_def disk_ok_def rows_ok_def uploads_known_def ids t upload_ids_def)
qed

lemma statement_ok:
  assumes ok: "store_ok env e st" and sh: "shrinks_tables (stabs st) (tabs s)"
  shows "store_ok env e ((set_db s st)\<lparr>dead := dead st \<union> (upload_ids (stabs st) - upload_ids (tabs s))\<rparr>)"
proof -
  let ?D = "dead st \<union> (upload_ids (stabs st) - upload_ids (tabs s))"
  have "holds env e (sdisk st) ?D p v" if "own st p = Some v" for p v
    by (rule holds_dead [OF store_okD(1) [OF ok that]]) blast
  moreover have "used_id env (sdisk st) i" if "i \<in> idents st \<union> ?D \<union> upload_ids (tabs s)" for i
    using store_okD(5) [OF ok] sh that by (auto simp: shrinks_tables_def)
  moreover have "good_elem (b_Name b)" if "b \<in> set (buckets (tabs s))" for b
    using store_okD(6) [OF ok] sh that by (auto simp: shrinks_tables_def)
  ultimately show ?thesis
    using ok sh
    by (auto simp: store_ok_def disk_ok_def rows_ok_def uploads_known_def shrinks_tables_def)
qed

lemma upload_Create_effect:
  assumes "upload_Create env u s = (r, s')"
  shows "tabs s' = tabs s \<or> (\<exists>v. mu_ID v = mu_ID u \<and> tabs s' = (tabs s)\<lparr>uploads := uploads (tabs s) @ [v]\<rparr>)"
proof (cases r)
  case (Inl err)
  with assms upload_Create.error_keeps show ?thesis by metis
next
  case (Inr x)
  let ?v = "upload_defaults (Now env s) u"
  from assms Inr have "sql env (insert_upload ?v) s = (Inr x, s')"
    by (auto simp: upload_Create_def Let_def split: if_splits)
  from sql_Inr [OF this] have "tabs s' = (tabs s)\<lparr>uploads := uploads (tabs s) @ [?v]\<rparr>"
    by (auto simp: insert_upload_def split: if_splits)
  moreover have "mu_ID ?v = mu_ID u" by (simp add: upload_defaults_def Let_def)
  ultimately show ?thesis by blast
qed

lemma create_upload_ok:
  assumes ok: "store_ok env e st" and run: "upload_Create denv u (w_db (sw st)) = (r, s)" and i: "mu_ID u \<in> idents st"
  shows "store_ok env e ((set_db s st)\<lparr>idents := idents st - {mu_ID u}\<rparr>)"
proof -
  have rows: "objects (tabs s) = objects (stabs st)" "parts (tabs s) = parts (stabs st)" "buckets (tabs s) = buckets (stabs st)"
    and ids: "upload_ids (stabs st) \<subseteq> upload_ids (tabs s)" "upload_ids (tabs s) \<subseteq> insert (mu_ID u) (upload_ids (stabs st))"
    using upload_Create_effect [OF run] by (auto simp: upload_ids_def)
  from i have not: "mu_ID u \<notin> dead st" using ok by (auto simp: store_ok_def uploads_known_def)
  have "used_id env (sdisk st) j" if "j \<in> (idents st - {mu_ID u}) \<union> dead st \<union> upload_ids (tabs s)" for j
    using store_okD(5) [OF ok] ids(2) i that by blast
  with ok rows ids not show ?thesis
    by (auto simp: store_ok_def disk_ok_def rows_ok_def uploads_known_def)
qed

lemma draw_ok:
  assumes wf: "uuid_wf env" and ok: "store_ok env e st" and run: "new_uuid env (sdisk st) = (i, d)"
    and more: "next_uuid (sdisk st) < uuid_count env"
  shows "store_ok env e ((set_disk d st)\<lparr>idents := insert i (idents st)\<rparr>)"
proof -
  let ?n = "next_uuid (sdisk st)"
  have i: "i = uuid_str env ?n" and n: "next_uuid d = Suc ?n" and f: "\<And>q. file_at d q = file_at (sdisk st) q"
    using new_uuid_eq [OF run] by auto
  have "ids_fresh env d" using store_okD(4) [OF ok] f n by (auto simp: ids_fresh_def)
  moreover have bl: "blob env e d p = blob env e (sdisk st) p" for p by (rule blob_cong) (rule f)
  ultimately have ok': "store_ok env e (set_disk d st)" using n by (intro store_ok_disk [OF ok]) simp_all
  have new: "used_id env d i" using n more i by (auto simp: used_id_def)
  have "j \<noteq> i" if "j \<in> dead st \<union> upload_ids (stabs st)" for j
  proof
    assume "j = i"
    from store_okD(5) [OF ok, of j] that obtain m where m: "m < ?n" "m < uuid_count env" "j = uuid_str env m"
      by (auto simp: used_id_def)
    with \<open>j = i\<close> i have "uuid_str env m = uuid_str env ?n" by simp
    with m(1,2) more wf show False by (auto simp: uuid_wf_def dest: inj_onD)
  qed
  with ok' new show ?thesis
    by (auto simp: store_ok_def disk_ok_def rows_ok_def uploads_known_def)
qed

lemma doom_ok:
  assumes "store_ok env e st" and "own st p = Some (hl, c)" and "p \<notin> o_StoragePath ` set (objects (stabs st))"
    and "p \<notin> mp_StoragePath ` set (parts (stabs st))"
  shows "store_ok env e (hold p Doomed c st)"
proof (rule store_ok_hold [OF assms(1,3,4)])
  show "holds env e (sdisk st) (dead st) p (Doomed, c)"
    using store_okD(1) [OF assms(1,2)] by (cases hl) (auto simp: holds_def)
qed

lemma look_ok:
  assumes "store_ok env e st" and "files d = files (sdisk st)" and "next_uuid d = next_uuid (sdisk st)"
  shows "store_ok env e (set_disk d st)"
proof (rule store_ok_disk [OF assms(1)])
  have f: "file_at d q = file_at (sdisk st) q" for q by (rule file_at_cong [OF assms(2)])
  show "ids_fresh env d" using store_okD(4) [OF assms(1)] f assms(3) by (auto simp: ids_fresh_def)
  show "blob env e d p = Some (snd v)" if "blob env e (sdisk st) p = Some (snd v)" for p and v :: "holder \<times> bytes"
    using that blob_cong [OF f] by simp
qed (simp add: assms(3))

lemmas step_oks = publish_ok complete_ok add_part_ok statement_ok doom_ok create_upload_ok look_ok

lemma store_step_ok:
  assumes wf: "engine_wf e" "uuid_wf env" and step: "store_step env e denv st st'" and ok: "store_ok env e st"
  shows "store_ok env e st'"
  using step
proof (cases rule: store_step.cases)
  case (write_file b k r sp n d)
  then show ?thesis using write_ok(2) [OF wf ok write_file(3,4,2) refl] by simp
next
  case (write_fails b k r err d)
  then show ?thesis using write_ok(1) [OF wf ok write_fails(3,4,2)] by simp
next
  case (assemble b k ps sp n d)
  then show ?thesis using assemble_ok(2) [OF wf ok assemble(3,4,2,5) refl] by simp
next
  case (assemble_fails b k ps err d)
  have "only_adds env (sdisk st) d"
    by (rule AssembleParts_law(1) [OF wf store_okD(4) [OF ok] assemble_fails(4,3,2)])
  with assemble_fails(1) only_adds_ok [OF ok] show ?thesis by simp
next
  case (write_part i n r sp m d)
  then show ?thesis using write_part_ok(2) [OF wf ok write_part(3,4,2) refl] by simp
next
  case (write_part_fails i n r err d)
  then show ?thesis using write_part_ok(1) [OF wf ok write_part_fails(3,4,2)] by simp
next
  case (delete_file p r d c)
  then show ?thesis using delete_file_ok [OF wf(1) ok] by simp
next
  case (draw i d)
  then show ?thesis using draw_ok [OF wf(2) ok] by simp
next
  case (remove_parts i r d)
  then show ?thesis using remove_parts_ok [OF wf ok] by simp
qed (use step_oks [OF ok] in simp_all)

lemma store_steps_ok:
  assumes "engine_wf e" and "uuid_wf env" and "(store_step env e denv)\<^sup>*\<^sup>* st st'" and "store_ok env e st"
  shows "store_ok env e st'"
  using assms(3,4) by (induction rule: rtranclp_induct) (auto dest: store_step_ok [OF assms(1,2)])

lemma row_file:
  assumes "store_ok env e st" and "x \<in> set (objects (stabs st))"
  obtains c where "blob env e (sdisk st) (o_StoragePath x) = Some c" and "o_Size x = int (length c)"
    and "own st (o_StoragePath x) = Some (RowOf (obj_key x), c)"
proof -
  from store_okD(2) [OF assms] obtain c where c: "own st (o_StoragePath x) = Some (RowOf (obj_key x), c)" "o_Size x = int (length c)"
    by (auto simp: row_held_def)
  with store_okD(1) [OF assms(1) c(1)] that show ?thesis by (auto simp: holds_def)
qed

lemma part_file:
  assumes ok: "store_ok env e st" and q: "q \<in> set (parts (stabs st))"
  obtains c where "blob env e (sdisk st) (mp_StoragePath q) = Some c" and "mp_Size q = int (length c)"
    and "own st (mp_StoragePath q) = Some (PartOf (part_key q), c)" and "part_path (mp_UploadID q) (mp_StoragePath q)"
proof -
  from store_okD(3) [OF assms] obtain c where c: "own st (mp_StoragePath q) = Some (PartOf (part_key q), c)" "mp_Size q = int (length c)"
    by (auto simp: part_held_def)
  have "mp_UploadID q \<notin> dead st"
    using store_okD(7) [OF ok q] ok by (auto simp: store_ok_def uploads_known_def)
  with store_okD(1) [OF ok c(1)] c that show ?thesis by (auto simp: holds_def part_key_def)
qed

definition initial_store :: "disk \<Rightarrow> db \<Rightarrow> store" where
  "initial_store d s = \<lparr>sw = \<lparr>w_disk = d, w_db = s\<rparr>, own = (\<lambda>p. None), idents = {}, dead = {}\<rparr>"

lemma initial_store_ok:
  assumes "ids_fresh env d" and "objects (tabs s) = []" and "parts (tabs s) = []" and "uploads (tabs s) = []"
    and "\<forall>b\<in>set (buckets (tabs s)). good_elem (b_Name b)"
  shows "store_ok env e (initial_store d s)"
  using assms by (simp add: store_ok_def disk_ok_def rows_ok_def uploads_known_def initial_store_def upload_ids_def)

end
