(* ===== verification/StoreHandlers.thy ===== *)
theory StoreHandlers
  imports StoreProtocol S3Laws
begin

text \<open>
  Every S3 handler is a run of the store protocol.  The assertions of this theory say what a request
  knows about the bookkeeping while it runs (which paths it holds, which paths no row names, which
  uploads are gone) and how many identifiers may still be drawn; a triple says that an action is a
  sequence of protocol steps which takes one assertion to another.  The rules for the operations of
  the repositories and of the disk engine are proved once, and each handler follows by composing
  them along its code.
\<close>

section \<open>Assertions and triples\<close>

datatype atom = Wrote string int | WrotePart string string int | Seen string "string \<times> string" | Gone string
  | Known string | Dead string | Ident string

fun atom_ok :: "store \<Rightarrow> atom \<Rightarrow> bool" where
  "atom_ok st (Wrote p n) = (\<exists>c. own st p = Some (Fresh, c) \<and> n = int (length c))"
| "atom_ok st (WrotePart p i n) = (\<exists>c. own st p = Some (FreshPart i, c) \<and> n = int (length c))"
| "atom_ok st (Seen p k) = (\<exists>c. own st p = Some (RowOf k, c) \<or> own st p = Some (Doomed, c))"
| "atom_ok st (Gone p) = (\<exists>c. own st p = Some (Doomed, c))"
| "atom_ok st (Known i) = (i \<in> dead st \<union> upload_ids (stabs st))"
| "atom_ok st (Dead i) = (i \<in> dead st)"
| "atom_ok st (Ident i) = (i \<in> idents st)"

definition A :: "ObjectHandlers \<Rightarrow> nat \<Rightarrow> atom set \<Rightarrow> store \<Rightarrow> bool" where
  "A h n X st \<longleftrightarrow> next_uuid (sdisk st) + n \<le> uuid_count (h_os h) \<and> (\<forall>a\<in>X. atom_ok st a)"

definition steps :: "ObjectHandlers \<Rightarrow> store \<Rightarrow> store \<Rightarrow> bool" where
  "steps h = (store_step (h_os h) (h_Storage h) (h_dbenv h))\<^sup>*\<^sup>*"

definition consistent :: "ObjectHandlers \<Rightarrow> store \<Rightarrow> bool" where
  "consistent h st \<longleftrightarrow> store_ok (h_os h) (h_Storage h) st"

definition handlers_wf :: "ObjectHandlers \<Rightarrow> bool" where
  "handlers_wf h \<longleftrightarrow> engine_wf (h_Storage h) \<and> uuid_wf (h_os h)"

definition triple ::
  "ObjectHandlers \<Rightarrow> (store \<Rightarrow> bool) \<Rightarrow> (world \<Rightarrow> ('r + 'a) \<times> world) \<Rightarrow> ('a \<Rightarrow> store \<Rightarrow> bool) \<Rightarrow> bool" where
  "triple h P m Q \<longleftrightarrow> (\<forall>st res w. consistent h st \<longrightarrow> P st \<longrightarrow> m (sw st) = (res, w) \<longrightarrow>
     (\<exists>st'. steps h st st' \<and> sw st' = w \<and> (\<forall>x. res = Inr x \<longrightarrow> Q x st')))"

lemma steps_ok: "handlers_wf h \<Longrightarrow> steps h st st' \<Longrightarrow> consistent h st \<Longrightarrow> consistent h st'"
  unfolding handlers_wf_def steps_def consistent_def using store_steps_ok by blast

lemma steps_refl [simp]: "steps h st st"
  by (simp add: steps_def)

lemma steps_trans: "steps h st st' \<Longrightarrow> steps h st' st'' \<Longrightarrow> steps h st st''"
  unfolding steps_def by (rule rtranclp_trans)

lemma steps_one: "store_step (h_os h) (h_Storage h) (h_dbenv h) st st' \<Longrightarrow> steps h st st'"
  by (simp add: steps_def)

lemma tripleI:
  assumes "\<And>st res w. consistent h st \<Longrightarrow> P st \<Longrightarrow> m (sw st) = (res, w) \<Longrightarrow>
    \<exists>st'. steps h st st' \<and> sw st' = w \<and> (\<forall>x. res = Inr x \<longrightarrow> Q x st')"
  shows "triple h P m Q"
  unfolding triple_def by (intro allI impI) (rule assms)

lemma tripleD:
  assumes "triple h P m Q" and "consistent h st" and "P st" and "m (sw st) = (res, w)"
  obtains st' where "steps h st st'" and "sw st' = w" and "\<And>x. res = Inr x \<Longrightarrow> Q x st'"
  using assms(1) [unfolded triple_def, rule_format, OF assms(2-4)] that by auto

lemma triple_ret: "(\<And>st. P st \<Longrightarrow> Q x st) \<Longrightarrow> triple h P (ret x) Q"
proof (rule tripleI)
  fix st :: store and res w
  assume "\<And>st. P st \<Longrightarrow> Q x st" "P st" "ret x (sw st) = (res, w)"
  then show "\<exists>st'. steps h st st' \<and> sw st' = w \<and> (\<forall>y. res = Inr y \<longrightarrow> Q y st')"
    by (intro exI [where x = st]) auto
qed

lemma triple_fail:
  fixes r :: 'r and Q :: "'a \<Rightarrow> store \<Rightarrow> bool"
  shows "triple h P (fail r) Q"
proof (rule tripleI)
  fix st :: store and res :: "'r + 'a" and w
  assume "fail r (sw st) = (res, w)"
  then show "\<exists>st'. steps h st st' \<and> sw st' = w \<and> (\<forall>y. res = Inr y \<longrightarrow> Q y st')"
    by (intro exI [where x = st]) auto
qed

lemma triple_bind:
  assumes wf: "handlers_wf h" and m: "triple h P m R" and f: "\<And>x. triple h (R x) (f x) Q"
  shows "triple h P (andThen m f) Q"
proof (rule tripleI)
  fix st :: store and res w
  assume ok: "consistent h st" and P: "P st" and run: "andThen m f (sw st) = (res, w)"
  obtain r1 w1 where m1: "m (sw st) = (r1, w1)" by fastforce
  obtain st1 where s1: "steps h st st1" "sw st1 = w1" and R: "\<And>x. r1 = Inr x \<Longrightarrow> R x st1"
    using m ok P m1 by (rule tripleD) blast
  show "\<exists>st'. steps h st st' \<and> sw st' = w \<and> (\<forall>x. res = Inr x \<longrightarrow> Q x st')"
  proof (cases r1)
    case (Inl e)
    then show ?thesis using run m1 s1 by (intro exI [where x = st1]) (auto simp: andThen_def)
  next
    case (Inr x)
    then have fx: "f x (sw st1) = (res, w)" using run m1 s1 by (simp add: andThen_def)
    obtain st2 where s2: "steps h st1 st2" "sw st2 = w" and Q: "\<And>y. res = Inr y \<Longrightarrow> Q y st2"
      using f steps_ok [OF wf s1(1) ok] R [OF Inr] fx by (rule tripleD) blast
    show ?thesis
      using steps_trans [OF s1(1) s2(1)] s2(2) Q by (intro exI [where x = st2]) simp
  qed
qed

lemma triple_conseq:
  assumes "triple h P m Q" and "\<And>st. P' st \<Longrightarrow> P st" and "\<And>x st. Q x st \<Longrightarrow> Q' x st"
  shows "triple h P' m Q'"
proof (rule tripleI)
  fix st :: store and res w
  assume "consistent h st" "P' st" "m (sw st) = (res, w)"
  with assms(1) assms(2) [of st] obtain st' where "steps h st st'" "sw st' = w" "\<And>x. res = Inr x \<Longrightarrow> Q x st'"
    by (elim tripleD) auto
  with assms(3) show "\<exists>st'. steps h st st' \<and> sw st' = w \<and> (\<forall>y. res = Inr y \<longrightarrow> Q' y st')"
    by (intro exI [where x = st']) simp
qed

lemma triple_fact:
  assumes "\<And>st. consistent h st \<Longrightarrow> P st \<Longrightarrow> F" and "F \<Longrightarrow> triple h P m Q"
  shows "triple h P m Q"
proof (rule tripleI)
  fix st :: store and res w
  assume *: "consistent h st" "P st" "m (sw st) = (res, w)"
  from assms(2) [OF assms(1) [OF *(1,2)]] * obtain st' where "steps h st st'" "sw st' = w" "\<And>x. res = Inr x \<Longrightarrow> Q x st'"
    by (elim tripleD) auto
  then show "\<exists>st'. steps h st st' \<and> sw st' = w \<and> (\<forall>y. res = Inr y \<longrightarrow> Q y st')"
    by (intro exI [where x = st']) simp
qed

lemma A_mono: "A h n X st \<Longrightarrow> m \<le> n \<Longrightarrow> Y \<subseteq> X \<Longrightarrow> A h m Y st"
  by (auto simp: A_def)

section \<open>The database\<close>

lemma triple_db:
  assumes "\<And>st r s. consistent h st \<Longrightarrow> P st \<Longrightarrow> m (w_db (sw st)) = (r, s) \<Longrightarrow>
     \<exists>st'. steps h st st' \<and> sw st' = (sw st)\<lparr>w_db := s\<rparr> \<and> Q r st'"
  shows "triple h P (on_db m) Q"
proof (rule tripleI)
  fix st :: store and res w
  assume *: "consistent h st" "P st" "on_db m (sw st) = (res, w)"
  obtain r s where m: "m (w_db (sw st)) = (r, s)" by fastforce
  from assms [OF *(1,2) m] obtain st' where "steps h st st'" "sw st' = (sw st)\<lparr>w_db := s\<rparr>" "Q r st'" by (elim exE conjE)
  with *(3) m show "\<exists>st'. steps h st st' \<and> sw st' = w \<and> (\<forall>x. res = Inr x \<longrightarrow> Q x st')"
    by (intro exI [where x = st']) (auto simp: on_db_def)
qed

lemma triple_disk:
  assumes "\<And>st r d. consistent h st \<Longrightarrow> P st \<Longrightarrow> m (sdisk st) = (r, d) \<Longrightarrow>
     \<exists>st'. steps h st st' \<and> sw st' = (sw st)\<lparr>w_disk := d\<rparr> \<and> Q r st'"
  shows "triple h P (on_disk m) Q"
proof (rule tripleI)
  fix st :: store and res w
  assume *: "consistent h st" "P st" "on_disk m (sw st) = (res, w)"
  obtain r s where m: "m (w_disk (sw st)) = (r, s)" by fastforce
  from assms [OF *(1,2) m] obtain st' where "steps h st st'" "sw st' = (sw st)\<lparr>w_disk := s\<rparr>" "Q r st'" by (elim exE conjE)
  with *(3) m show "\<exists>st'. steps h st st' \<and> sw st' = w \<and> (\<forall>x. res = Inr x \<longrightarrow> Q x st')"
    by (intro exI [where x = st']) (auto simp: on_disk_def)
qed

text \<open>Any statement that adds no object, part or upload.\<close>

definition after_statement :: "db \<Rightarrow> store \<Rightarrow> store" where
  "after_statement s st = (set_db s st)\<lparr>dead := dead st \<union> (upload_ids (stabs st) - upload_ids (tabs s))\<rparr>"

lemma after_statement_simps [simp]:
  "sw (after_statement s st) = (sw st)\<lparr>w_db := s\<rparr>" "own (after_statement s st) = own st" "idents (after_statement s st) = idents st"
  "dead (after_statement s st) = dead st \<union> (upload_ids (stabs st) - upload_ids (tabs s))"
  by (simp_all add: after_statement_def)

lemma A_after_statement: "A h n X st \<Longrightarrow> A h n X (after_statement s st)"
  unfolding A_def
proof (elim conjE, intro conjI ballI)
  fix a
  assume "\<forall>a\<in>X. atom_ok st a" "a \<in> X"
  then have "atom_ok st a" by blast
  then show "atom_ok (after_statement s st) a" by (cases a) auto
qed simp

lemma steps_statement:
  "shrinks_tables (stabs st) (tabs s) \<Longrightarrow> steps h st (after_statement s st)"
  unfolding after_statement_def by (intro steps_one store_step.statement)

lemma shrinks_same:
  assumes "consistent h st" and "tabs s = stabs st"
  shows "shrinks_tables (stabs st) (tabs s)"
  using store_okD(6,7) [OF assms(1) [unfolded consistent_def]] assms(2) by (auto simp: shrinks_tables_def)

lemma triple_statement:
  assumes "\<And>st r s. consistent h st \<Longrightarrow> m (w_db (sw st)) = (r, s) \<Longrightarrow> shrinks_tables (stabs st) (tabs s)"
  shows "triple h (A h n X) (on_db m) (\<lambda>r. A h n X)"
proof (rule triple_db)
  fix st :: store and r s
  assume "consistent h st" "A h n X st" "m (w_db (sw st)) = (r, s)"
  with assms show "\<exists>st'. steps h st st' \<and> sw st' = (sw st)\<lparr>w_db := s\<rparr> \<and> A h n X st'"
    by (intro exI [where x = "after_statement s st"]) (auto intro: steps_statement A_after_statement)
qed

lemma triple_query:
  assumes "\<And>s r s'. m s = (r, s') \<Longrightarrow> tabs s' = tabs s"
    and "\<And>st r s. consistent h st \<Longrightarrow> A h n X st \<Longrightarrow> m (w_db (sw st)) = (r, s) \<Longrightarrow> Q r (after_statement s st)"
  shows "triple h (A h n X) (on_db m) Q"
proof (rule triple_db)
  fix st :: store and r s
  assume *: "consistent h st" "A h n X st" "m (w_db (sw st)) = (r, s)"
  from assms(1) [OF *(3)] shrinks_same [OF *(1)] have "steps h st (after_statement s st)" by (auto intro: steps_statement)
  with assms(2) [OF *] show "\<exists>st'. steps h st st' \<and> sw st' = (sw st)\<lparr>w_db := s\<rparr> \<and> Q r st'"
    by (intro exI [where x = "after_statement s st"]) simp
qed

text \<open>Operations that only read.\<close>

named_theorems reads \<open>operations that leave the tables as they are\<close>

lemma andThen_reads:
  assumes "\<And>s r s'. m s = (r, s') \<Longrightarrow> tabs s' = tabs s" and "\<And>x s r s'. f x s = (r, s') \<Longrightarrow> tabs s' = tabs s"
    and "andThen m f s = (r, s')"
  shows "tabs s' = tabs s"
  using assms(3) assms(1) [of s] assms(2)
  by (auto simp: andThen_def split: prod.splits sum.splits)

lemma ret_reads: "ret x s = (r, s') \<Longrightarrow> tabs s' = tabs s"
  by simp

lemma query_reads [reads]:
  "GetByName env b s = (r1, s') \<Longrightarrow> tabs s' = tabs s"
  "GetByKey env b k s = (r2, s') \<Longrightarrow> tabs s' = tabs s"
  "upload_GetByID env i s = (r3, s') \<Longrightarrow> tabs s' = tabs s"
  "ListParts env i s = (r4, s') \<Longrightarrow> tabs s' = tabs s"
  "ListActiveForGranteeBucket env u b s = (r5, s') \<Longrightarrow> tabs s' = tabs s"
  "ListStale env c s = (r6, s') \<Longrightarrow> tabs s' = tabs s"
  "GetByCode env k s = (r7, s') \<Longrightarrow> tabs s' = tabs s"
  "bucket_List env s = (r8, s') \<Longrightarrow> tabs s' = tabs s"
  "ListByOwner env u s = (r9, s') \<Longrightarrow> tabs s' = tabs s"
  "ListBucketNamesWithActiveGrants env u s = (r10, s') \<Longrightarrow> tabs s' = tabs s"
  unfolding GetByName_def GetByKey_def upload_GetByID_def ListParts_def ListActiveForGranteeBucket_def ListStale_def
    GetByCode_def bucket_List_def ListByOwner_def ListBucketNamesWithActiveGrants_def
  by (rule query_tabs, assumption)+

lemma user_GetByID_reads [reads]: "user_GetByID env i s = (r, s') \<Longrightarrow> tabs s' = tabs s"
  unfolding user_GetByID_def by (rule andThen_reads [OF query_tabs ret_reads])

lemma ListByNames_reads [reads]: "ListByNames env ns s = (r, s') \<Longrightarrow> tabs s' = tabs s"
  by (auto simp: ListByNames_def split: if_splits dest: query_tabs)

lemma upload_ListByBucket_reads [reads]: "upload_ListByBucket env b p k u n s = (r, s') \<Longrightarrow> tabs s' = tabs s"
  by (auto simp: upload_ListByBucket_def Let_def andThen_def split: prod.splits sum.splits if_splits dest!: query_tabs)

lemma object_List_reads [reads]: "object_List env b p a n s = (r, s') \<Longrightarrow> tabs s' = tabs s"
  by (rule object_List_keeps)

lemma ListDelimited_reads [reads]: "ListDelimited env b p a d n s = (r, s') \<Longrightarrow> tabs s' = tabs s"
  by (auto simp: ListDelimited_def split: if_splits dest: query_tabs)

lemma Allow_reads [reads]: "Allow (Some (authz_lister env)) req s = (r, s') \<Longrightarrow> tabs s' = tabs s"
  by (auto simp: Allow_def authz_lister_def Let_def andThen_def split: if_splits prod.splits sum.splits
      dest!: query_reads(5))

lemma listObjectsV2Entries_reads [reads]: "listObjectsV2Entries h b ps s = (r, s') \<Longrightarrow> tabs s' = tabs s"
  by (auto simp: listObjectsV2Entries_def Let_def andThen_def split: if_splits prod.splits sum.splits
      dest!: object_List_reads ListDelimited_reads)

lemma listBucketsForPrincipal_reads [reads]: "listBucketsForPrincipal h p s = (r, s') \<Longrightarrow> tabs s' = tabs s"
  by (auto simp: listBucketsForPrincipal_def andThen_def split: if_splits prod.splits sum.splits
      dest!: query_reads ListByNames_reads)

lemma creatorCanRead_reads [reads]: "creatorCanRead h l s = (r, s') \<Longrightarrow> tabs s' = tabs s"
  by (auto simp: creatorCanRead_def split: if_splits prod.splits sum.splits
      dest!: query_reads(1) user_GetByID_reads Allow_reads)

lemma triple_read:
  assumes "\<And>s r s'. m s = (r, s') \<Longrightarrow> tabs s' = tabs s"
  shows "triple h (A h n X) (on_db m) (\<lambda>r. A h n X)"
  by (rule triple_query [OF assms]) (auto intro: A_after_statement)

lemma triple_GetByName: "triple h (A h n X) (on_db (GetByName (h_dbenv h) b)) (\<lambda>r st. A h n X st \<and> (\<forall>x. r = Inr x \<longrightarrow> good_elem b))"
proof (rule triple_query [OF query_reads(1)], assumption, intro conjI allI impI)
  fix st :: store and r s x
  assume *: "consistent h st" "A h n X st" "GetByName (h_dbenv h) b (w_db (sw st)) = (r, s)"
  then show "A h n X (after_statement s st)" by (intro A_after_statement)
  assume "r = Inr x"
  with *(3) have "find (\<lambda>y. b_Name y = b) (buckets (stabs st)) = Some x"
    by (auto simp: GetByName_def dest!: query_Inr split: option.splits)
  from find_SomeD [OF this] store_okD(6) [OF *(1) [unfolded consistent_def]] show "good_elem b" by auto
qed

lemma triple_GetByKey:
  "triple h (A h n X) (on_db (GetByKey (h_dbenv h) b k))
     (\<lambda>r. A h n (X \<union> (case r of Inl e \<Rightarrow> {} | Inr x \<Rightarrow> {Seen (o_StoragePath x) (b, k)})))"
proof (rule triple_query [OF query_reads(2)], assumption)
  fix st :: store and r s
  assume *: "consistent h st" "A h n X st" "GetByKey (h_dbenv h) b k (w_db (sw st)) = (r, s)"
  let ?Y = "case r of Inl e \<Rightarrow> {} | Inr x \<Rightarrow> {Seen (o_StoragePath x) (b, k)}"
  have "atom_ok st a" if mem: "a \<in> ?Y" for a
  proof -
    from mem obtain x where x: "r = Inr x" "a = Seen (o_StoragePath x) (b, k)" by (auto split: sum.splits)
    with *(3) have "find_object b k (stabs st) = Some x"
      by (auto simp: GetByKey_def dest!: query_Inr split: option.splits)
    then have "x \<in> set (objects (stabs st))" "obj_key x = (b, k)"
      by (auto simp: find_object_def obj_key_def dest!: find_SomeD)
    with store_okD(2) [OF *(1) [unfolded consistent_def]] x(2) show ?thesis by (fastforce simp: row_held_def)
  qed
  then have "A h n (X \<union> ?Y) st" using *(2) by (auto simp: A_def)
  then show "A h n (X \<union> ?Y) (after_statement s st)" by (rule A_after_statement)
qed

lemma triple_upload_GetByID:
  "triple h (A h n X) (on_db (upload_GetByID (h_dbenv h) i))
     (\<lambda>r. A h n (X \<union> (case r of Inl e \<Rightarrow> {} | Inr u \<Rightarrow> {Known i})))"
proof (rule triple_query [OF query_reads(3)], assumption)
  fix st :: store and r s
  assume *: "consistent h st" "A h n X st" "upload_GetByID (h_dbenv h) i (w_db (sw st)) = (r, s)"
  let ?Y = "case r of Inl e \<Rightarrow> {} | Inr u \<Rightarrow> {Known i}"
  have "atom_ok st a" if mem: "a \<in> ?Y" for a
  proof -
    from mem obtain u where u: "r = Inr u" "a = Known i" by (auto split: sum.splits)
    with *(3) have "find_upload i (stabs st) = Some u"
      by (auto simp: upload_GetByID_def dest!: query_Inr split: option.splits)
    then have "upload_exists (stabs st) i" using find_upload_exists [of i "stabs st"] by simp
    with u(2) show ?thesis by (simp add: upload_ids_def upload_exists_def)
  qed
  then have "A h n (X \<union> ?Y) st" using *(2) by (auto simp: A_def)
  then show "A h n (X \<union> ?Y) (after_statement s st)" by (rule A_after_statement)
qed

lemma triple_ListParts:
  "triple h (A h n X) (on_db (ListParts (h_dbenv h) i))
     (\<lambda>r st. A h n X st \<and> (\<forall>ps q. r = Inr ps \<longrightarrow> q \<in> set ps \<longrightarrow> (\<exists>j. part_path j (mp_StoragePath q))))"
proof (rule triple_query [OF query_reads(4)], assumption, intro conjI allI impI)
  fix st :: store and r s ps q
  assume *: "consistent h st" "A h n X st" "ListParts (h_dbenv h) i (w_db (sw st)) = (r, s)"
  then show "A h n X (after_statement s st)" by (intro A_after_statement)
  assume "r = Inr ps" "q \<in> set ps"
  with *(3) have "q \<in> set (parts (stabs st))" by (auto simp: ListParts_def dest!: query_Inr)
  from part_file [OF *(1) [unfolded consistent_def] this] show "\<exists>j. part_path j (mp_StoragePath q)" by blast
qed

text \<open>Statements that add no object, part or upload.\<close>

lemma shrinks_untouched:
  assumes "consistent h st" and "objects t = objects (stabs st)" and "parts t = parts (stabs st)"
    and "upload_ids t = upload_ids (stabs st)" and "\<And>b. b \<in> set (buckets t) \<Longrightarrow> b \<in> set (buckets (stabs st)) \<or> good_elem (b_Name b)"
  shows "shrinks_tables (stabs st) t"
  using store_okD(7) [OF assms(1) [unfolded consistent_def]] assms(2-5) by (auto simp: shrinks_tables_def)

lemma triple_atomic:
  assumes "\<And>s e s'. m s = (Inl e, s') \<Longrightarrow> tabs s' = tabs s"
    and "\<And>st x s. consistent h st \<Longrightarrow> m (w_db (sw st)) = (Inr x, s) \<Longrightarrow> shrinks_tables (stabs st) (tabs s)"
  shows "triple h (A h n X) (on_db m) (\<lambda>r. A h n X)"
proof (rule triple_statement)
  fix st :: store and r s
  assume *: "consistent h st" "m (w_db (sw st)) = (r, s)"
  show "shrinks_tables (stabs st) (tabs s)"
  proof (cases r)
    case (Inl e)
    with * assms(1) show ?thesis by (intro shrinks_same) auto
  next
    case (Inr x)
    with * assms(2) show ?thesis by blast
  qed
qed

lemma set_status_ids: "upload_ids (set_status i st now t) = upload_ids t"
proof -
  have "map mu_ID (uploads (set_status i st now t)) = map mu_ID (uploads t)" by (simp add: set_status_def)
  then show ?thesis unfolding upload_ids_def by (metis list.set_map)
qed

lemma sql_run: "sql env stmt s = (Inr x, s') \<Longrightarrow> (Inr x, tabs s') = stmt (tabs s)"
  by (simp add: sql_Inr)

lemma set_status_same [simp]: "objects (set_status i st now t) = objects t" "parts (set_status i st now t) = parts t"
  "buckets (set_status i st now t) = buckets t"
  by (simp_all add: set_status_def)

lemma triple_RecordActivity: "triple h (A h n X) (on_db (RecordActivity env r a)) (\<lambda>x. A h n X)"
  unfolding RecordActivity_def
proof (rule triple_atomic [OF activity_Create.error_keeps], assumption)
  fix st :: store and x s
  assume *: "consistent h st"
    "activity_Create env (case r_Principal r of None \<Rightarrow> a | Some p \<Rightarrow> a\<lparr>oa_ActorUserID := p_UserID p\<rparr>) (w_db (sw st)) = (Inr x, s)"
  from sql_run [OF *(2) [unfolded activity_Create_def Let_def]] show "shrinks_tables (stabs st) (tabs s)"
    by (intro shrinks_untouched [OF *(1)]) (auto simp: upload_ids_def split: if_splits)
qed

lemma triple_ClaimUpload: "triple h (A h n X) (on_db (ClaimUpload env i s)) (\<lambda>x. A h n X)"
proof (rule triple_atomic [OF ClaimUpload.error_keeps], assumption)
  fix st :: store and x s'
  assume *: "consistent h st" "ClaimUpload env i s (w_db (sw st)) = (Inr x, s')"
  then have "in_tx env (claim_body env i s) (w_db (sw st)) = (Inr x, s')"
    by (auto simp: ClaimUpload_def split: if_splits)
  then obtain s1 s2 where t: "tabs s1 = stabs st" "claim_body env i s s1 = (Inr x, s2)" "tabs s' = tabs s2" by (rule in_tx_Inr)
  from claim_body_Inr [OF t(2)] t show "shrinks_tables (stabs st) (tabs s')"
    by (intro shrinks_untouched [OF *(1)]) (auto simp: set_status_ids)
qed

lemma SetUploadStatus_shrinks:
  assumes "consistent h st" and "SetUploadStatus env i s (w_db (sw st)) = (r, s')"
  shows "shrinks_tables (stabs st) (tabs s')"
proof (cases r)
  case (Inl e)
  with assms SetUploadStatus.error_keeps show ?thesis by (intro shrinks_same) auto
next
  case (Inr x)
  with assms(2) show ?thesis
    by (intro shrinks_untouched [OF assms(1)])
      (auto simp: SetUploadStatus_def set_status_ids split: if_splits dest!: sql_run)
qed

lemma triple_SetUploadStatus: "triple h (A h n X) (on_db (SetUploadStatus env i s)) (\<lambda>x. A h n X)"
  by (rule triple_statement) (rule SetUploadStatus_shrinks)

lemma triple_user_Create: "triple h (A h n X) (on_db (user_Create env u)) (\<lambda>x. A h n X)"
proof (rule triple_atomic [OF user_Create.error_keeps], assumption)
  fix st :: store and x s
  assume *: "consistent h st" "user_Create env u (w_db (sw st)) = (Inr x, s)"
  from sql_run [OF *(2) [unfolded user_Create_def insertUser_def]] show "shrinks_tables (stabs st) (tabs s)"
    by (intro shrinks_untouched [OF *(1)]) (auto simp: insert_user_def upload_ids_def split: if_splits)
qed

lemma triple_bucket_Create:
  assumes "good_elem (b_Name b)"
  shows "triple h (A h n X) (on_db (bucket_Create env b)) (\<lambda>x. A h n X)"
proof (rule triple_atomic [OF bucket_Create.error_keeps], assumption)
  fix st :: store and x s
  assume *: "consistent h st" "bucket_Create env b (w_db (sw st)) = (Inr x, s)"
  from sql_run [OF *(2) [unfolded bucket_Create_def]] assms show "shrinks_tables (stabs st) (tabs s)"
    by (intro shrinks_untouched [OF *(1)]) (auto simp: insert_bucket_def upload_ids_def split: if_splits)
qed

lemma triple_bucket_Delete: "triple h (A h n X) (on_db (bucket_Delete env b)) (\<lambda>x. A h n X)"
proof (rule triple_atomic [OF bucket_Delete.error_keeps], assumption)
  fix st :: store and x s
  assume *: "consistent h st" "bucket_Delete env b (w_db (sw st)) = (Inr x, s)"
  from sql_run [OF *(2) [unfolded bucket_Delete_def]] show "shrinks_tables (stabs st) (tabs s)"
    by (intro shrinks_untouched [OF *(1)]) (auto simp: delete_bucket_def upload_ids_def split: if_splits)
qed

lemma triple_upload_Delete:
  "triple h (A h n X) (on_db (upload_Delete env i)) (\<lambda>r. A h n (X \<union> (case r of Inl e \<Rightarrow> {} | Inr u \<Rightarrow> {Dead i})))"
proof (rule triple_db)
  fix st :: store and r s
  assume *: "consistent h st" "A h n X st" "upload_Delete env i (w_db (sw st)) = (r, s)"
  show "\<exists>st'. steps h st st' \<and> sw st' = (sw st)\<lparr>w_db := s\<rparr> \<and> A h n (X \<union> (case r of Inl e \<Rightarrow> {} | Inr u \<Rightarrow> {Dead i})) st'"
  proof (intro exI [where x = "after_statement s st"] conjI)
    show "steps h st (after_statement s st)"
    proof (rule steps_statement, cases r)
      case (Inl e)
      with * upload_Delete.error_keeps show "shrinks_tables (stabs st) (tabs s)" by (intro shrinks_same) auto
    next
      case (Inr u)
      with *(3) have "tabs s = delete_upload i (stabs st)"
        by (auto simp: upload_Delete_def split: if_splits dest!: sql_run)
      with store_okD(7) [OF *(1) [unfolded consistent_def]] show "shrinks_tables (stabs st) (tabs s)"
        by (auto simp: shrinks_tables_def delete_upload_ids) (auto simp: delete_upload_def)
    qed
    show "A h n (X \<union> (case r of Inl e \<Rightarrow> {} | Inr u \<Rightarrow> {Dead i})) (after_statement s st)"
    proof (cases r)
      case (Inl e)
      with A_after_statement [OF *(2)] show ?thesis by simp
    next
      case (Inr u)
      with *(3) have "upload_exists (stabs st) i" "tabs s = delete_upload i (stabs st)"
        by (auto simp: upload_Delete_def split: if_splits dest!: sql_run)
      then have "atom_ok (after_statement s st) (Dead i)"
        by (auto simp: delete_upload_ids) (auto simp: upload_exists_def upload_ids_def)
      with A_after_statement [OF *(2), of s] Inr show ?thesis by (simp add: A_def)
    qed
  qed simp
qed

section \<open>Ownership of files\<close>

text \<open>What stays true whoever holds which file.\<close>

definition stable :: "atom set \<Rightarrow> bool" where
  "stable X \<longleftrightarrow> (\<forall>a\<in>X. case a of Known i \<Rightarrow> True | Dead i \<Rightarrow> True | Ident i \<Rightarrow> True | _ \<Rightarrow> False)"

lemma stable_simps [simp]: "stable {}" "stable (insert (Known i) X) = stable X" "stable (insert (Dead i) X) = stable X"
  "stable (X \<union> Y) = (stable X \<and> stable Y)"
  by (auto simp: stable_def)

lemma A_stable:
  assumes "A h n X st" and "stable X" and "next_uuid (sdisk st') + m \<le> next_uuid (sdisk st) + n" and "idents st \<subseteq> idents st'"
    and "dead st \<subseteq> dead st'" and "dead st \<union> upload_ids (stabs st) \<subseteq> dead st' \<union> upload_ids (stabs st')"
  shows "A h m X st'"
  unfolding A_def
proof (intro conjI ballI)
  show "next_uuid (sdisk st') + m \<le> uuid_count (h_os h)" using assms(1,3) by (simp add: A_def)
  fix a
  assume "a \<in> X"
  with assms(1,2) have "atom_ok st a" "case a of Known i \<Rightarrow> True | Dead i \<Rightarrow> True | Ident i \<Rightarrow> True | _ \<Rightarrow> False"
    unfolding A_def stable_def by blast+
  with assms(4-6) show "atom_ok st' a" by (cases a) auto
qed

lemma A_insert: "A h n (insert a X) st \<longleftrightarrow> A h n X st \<and> atom_ok st a"
  by (auto simp: A_def)

lemma A_set_disk:
  assumes "A h n X st" and "next_uuid d + m \<le> next_uuid (sdisk st) + n"
  shows "A h m X (set_disk d st)"
proof -
  have "atom_ok (set_disk d st) a = atom_ok st a" for a by (cases a) auto
  with assms show ?thesis by (simp add: A_def)
qed

lemma no_row_names:
  assumes ok: "store_ok env e st" and t: "set (objects (tabs s)) \<subseteq> set (objects (stabs st)) - {x. obj_key x = k}"
    "set (parts (tabs s)) \<subseteq> set (parts (stabs st))"
    and own: "own st p = Some (RowOf k, c) \<or> own st p = Some (Doomed, c)"
  shows "p \<notin> o_StoragePath ` set (objects (tabs s))" and "p \<notin> mp_StoragePath ` set (parts (tabs s))"
proof -
  show "p \<notin> o_StoragePath ` set (objects (tabs s))"
  proof
    assume "p \<in> o_StoragePath ` set (objects (tabs s))"
    then obtain x where "x \<in> set (objects (stabs st))" "obj_key x \<noteq> k" "p = o_StoragePath x" using t(1) by blast
    with store_okD(2) [OF ok, of x] own show False by (auto simp: row_held_def)
  qed
  show "p \<notin> mp_StoragePath ` set (parts (tabs s))"
  proof
    assume "p \<in> mp_StoragePath ` set (parts (tabs s))"
    then obtain x where "x \<in> set (parts (stabs st))" "p = mp_StoragePath x" using t(2) by blast
    with store_okD(3) [OF ok, of x] own show False by (auto simp: part_held_def)
  qed
qed

lemma triple_object_Delete:
  assumes X: "stable X"
  shows "triple h (A h n (insert (Seen p (b, k)) X)) (on_db (object_Delete env b k))
     (\<lambda>r. A h n (X \<union> (case r of Inl e \<Rightarrow> {} | Inr u \<Rightarrow> {Gone p})))"
proof (rule triple_db)
  fix st :: store and r s
  assume *: "consistent h st" "A h n (insert (Seen p (b, k)) X) st" "object_Delete env b k (w_db (sw st)) = (r, s)"
  note ok = *(1) [unfolded consistent_def]
  from *(2) obtain c where c: "own st p = Some (RowOf (b, k), c) \<or> own st p = Some (Doomed, c)" and AX: "A h n X st"
    by (auto simp: A_insert)
  show "\<exists>st'. steps h st st' \<and> sw st' = (sw st)\<lparr>w_db := s\<rparr> \<and> A h n (X \<union> (case r of Inl e \<Rightarrow> {} | Inr u \<Rightarrow> {Gone p})) st'"
  proof (cases r)
    case (Inl e)
    with *(1,3) object_Delete.error_keeps have "steps h st (after_statement s st)"
      by (intro steps_statement shrinks_same) auto
    with A_after_statement [OF AX] Inl show ?thesis by (intro exI [where x = "after_statement s st"]) simp
  next
    case (Inr u)
    with *(3) have t: "tabs s = (stabs st)\<lparr>objects := filter (\<lambda>x. \<not> (o_BucketName x = b \<and> o_Key x = k)) (objects (stabs st))\<rparr>"
      by (auto simp: object_Delete_def split: if_splits dest!: sql_run)
    have 1: "steps h st (after_statement s st)"
      using store_okD(7) [OF ok] by (intro steps_statement) (auto simp: shrinks_tables_def t upload_ids_def)
    have sub: "set (objects (tabs s)) \<subseteq> set (objects (stabs st)) - {x. obj_key x = (b, k)}" "set (parts (tabs s)) \<subseteq> set (parts (stabs st))"
      by (auto simp: t obj_key_def)
    from c obtain hl where "own (after_statement s st) p = Some (hl, c)" by auto
    then have 2: "steps h (after_statement s st) (hold p Doomed c (after_statement s st))"
      by (intro steps_one store_step.doom) (use no_row_names [OF ok sub c] in auto)
    have "A h n X (hold p Doomed c (after_statement s st))"
      using A_after_statement [OF AX] X by (rule A_stable) auto
    with steps_trans [OF 1 2] Inr show ?thesis
      by (intro exI [where x = "hold p Doomed c (after_statement s st)"]) (simp add: A_insert)
  qed
qed

text \<open>Publishing a file: the path of the row it replaces is nobody's any more.\<close>

lemma steps_doom_replaced:
  assumes ok: "store_ok (h_os h) (h_Storage h) st" and s1: "steps h st st1"
    and own1: "\<And>p. p \<noteq> q \<Longrightarrow> own st1 p = own st p" and fresh: "own st q = Some (Fresh, c0)" and row1: "own st1 q = Some (RowOf k, c0)"
    and objs: "set (objects (stabs st1)) \<subseteq> insert y {z \<in> set (objects (stabs st)). obj_key z \<noteq> k}"
    and y: "o_StoragePath y = q" and ps: "set (parts (stabs st1)) \<subseteq> set (parts (stabs st))"
    and z: "z \<in> set (objects (stabs st))" "obj_key z = k"
  shows "\<exists>c. steps h st (hold (o_StoragePath z) Doomed c st1)"
proof -
  from store_okD(2) [OF ok z(1)] z(2) obtain c where c: "own st (o_StoragePath z) = Some (RowOf k, c)" by (auto simp: row_held_def)
  with fresh have ne: "o_StoragePath z \<noteq> q" by auto
  have "o_StoragePath z \<noteq> o_StoragePath x" if "x \<in> set (objects (stabs st1))" for x
  proof (cases "x = y")
    case False
    then have x: "x \<in> set (objects (stabs st))" "obj_key x \<noteq> k" using objs that by blast+
    with store_okD(2) [OF ok x(1)] c show ?thesis by (auto simp: row_held_def)
  qed (use y ne in simp)
  moreover have "o_StoragePath z \<noteq> mp_StoragePath x" if "x \<in> set (parts (stabs st1))" for x
    using store_okD(3) [OF ok, of x] ps that c by (auto simp: part_held_def)
  ultimately have "steps h st1 (hold (o_StoragePath z) Doomed c st1)"
    using own1 [OF ne] c by (intro steps_one store_step.doom) auto
  with s1 show ?thesis by (blast intro: steps_trans)
qed

definition replaced :: "string \<Rightarrow> atom set" where
  "replaced p = (if p = [] then {} else {Gone p})"

lemma find_objectD: "find_object b k t = Some z \<Longrightarrow> z \<in> set (objects t) \<and> obj_key z = (b, k)"
  by (auto simp: find_object_def obj_key_def dest!: find_SomeD)

lemma publish_doomed:
  assumes ok: "store_ok (h_os h) (h_Storage h) st" and s1: "steps h st st1"
    and own1: "\<And>p. p \<noteq> q \<Longrightarrow> own st1 p = own st p" and fresh: "own st q = Some (Fresh, c0)" and row1: "own st1 q = Some (RowOf (b, k), c0)"
    and objs: "set (objects (stabs st1)) \<subseteq> insert y {z \<in> set (objects (stabs st)). obj_key z \<noteq> (b, k)}"
    and y: "o_StoragePath y = q" and ps: "set (parts (stabs st1)) \<subseteq> set (parts (stabs st))"
    and old: "old = (case find_object b k (stabs st) of None \<Rightarrow> [] | Some z \<Rightarrow> o_StoragePath z)"
    and A1: "A h n X st1" and X: "stable X"
  shows "\<exists>st'. steps h st st' \<and> sw st' = sw st1 \<and> A h n (X \<union> replaced old) st'"
proof (cases "find_object b k (stabs st)")
  case None
  with s1 A1 old show ?thesis by (intro exI [where x = st1]) (simp add: replaced_def)
next
  case (Some z)
  with steps_doom_replaced [OF ok s1 own1 fresh row1 objs y ps] find_objectD
  obtain c where st: "steps h st (hold (o_StoragePath z) Doomed c st1)" by blast
  have "A h n X (hold (o_StoragePath z) Doomed c st1)" using A1 X by (rule A_stable) auto
  with st old Some show ?thesis
    by (intro exI [where x = "hold (o_StoragePath z) Doomed c st1"]) (auto simp: replaced_def A_insert)
qed

lemma triple_Replace:
  assumes X: "stable X"
  shows "triple h (A h n (insert (Wrote (o_StoragePath x) (o_Size x)) X)) (on_db (Replace (h_dbenv h) x im inm))
     (\<lambda>r. A h n (X \<union> (case r of Inl e \<Rightarrow> {Wrote (o_StoragePath x) (o_Size x)} | Inr old \<Rightarrow> replaced old)))"
proof (rule triple_db)
  fix st :: store and r s
  let ?w = "Wrote (o_StoragePath x) (o_Size x)"
  assume *: "consistent h st" "A h n (insert ?w X) st" "Replace (h_dbenv h) x im inm (w_db (sw st)) = (r, s)"
  note ok = *(1) [unfolded consistent_def]
  show "\<exists>st'. steps h st st' \<and> sw st' = (sw st)\<lparr>w_db := s\<rparr> \<and> A h n (X \<union> (case r of Inl e \<Rightarrow> {?w} | Inr old \<Rightarrow> replaced old)) st'"
  proof (cases r)
    case (Inl e)
    with *(1,3) Replace.error_keeps have "steps h st (after_statement s st)"
      by (intro steps_statement shrinks_same) auto
    with A_after_statement [OF *(2)] Inl show ?thesis by (intro exI [where x = "after_statement s st"]) simp
  next
    case (Inr old)
    from *(2) obtain c where c: "own st (o_StoragePath x) = Some (Fresh, c)" "o_Size x = int (length c)" and AX: "A h n X st"
      by (auto simp: A_insert)
    let ?st1 = "hold (o_StoragePath x) (RowOf (obj_key x)) c (set_db s st)"
    from *(3) Inr have run: "Replace (h_dbenv h) x im inm (w_db (sw st)) = (Inr old, s)" by simp
    then have 1: "steps h st ?st1" using c by (intro steps_one store_step.publish)
    from run show ?thesis
    proof (rule Replace_effect)
      fix y xs
      assume y: "obj_key y = obj_key x" "o_StoragePath y = o_StoragePath x"
        and xs: "set xs \<subseteq> insert y {z \<in> set (objects (stabs st)). obj_key z \<noteq> obj_key x}"
        and t: "tabs s = (stabs st)\<lparr>objects := xs\<rparr>"
        and old: "old = (case find_object (o_BucketName x) (o_Key x) (stabs st) of None \<Rightarrow> [] | Some z \<Rightarrow> o_StoragePath z)"
      have A1: "A h n X ?st1" using AX X by (rule A_stable) (auto simp: t upload_ids_def)
      have "\<exists>st'. steps h st st' \<and> sw st' = sw ?st1 \<and> A h n (X \<union> replaced old) st'"
        by (rule publish_doomed [OF ok 1 _ c(1) _ _ y(2) _ old A1 X]) (use xs in \<open>auto simp: t obj_key_def\<close>)
      with Inr show ?thesis by simp
    qed
  qed
qed

lemma triple_CompleteUpload:
  assumes X: "stable X"
  shows "triple h (A h n (insert (Wrote (o_StoragePath x) (o_Size x)) X)) (on_db (CompleteUpload (h_dbenv h) x i im inm))
     (\<lambda>r. A h n (X \<union> (case r of Inl e \<Rightarrow> {Wrote (o_StoragePath x) (o_Size x)} | Inr old \<Rightarrow> insert (Dead i) (replaced old))))"
proof (rule triple_db)
  fix st :: store and r s
  let ?w = "Wrote (o_StoragePath x) (o_Size x)"
  assume *: "consistent h st" "A h n (insert ?w X) st" "CompleteUpload (h_dbenv h) x i im inm (w_db (sw st)) = (r, s)"
  note ok = *(1) [unfolded consistent_def]
  show "\<exists>st'. steps h st st' \<and> sw st' = (sw st)\<lparr>w_db := s\<rparr>
      \<and> A h n (X \<union> (case r of Inl e \<Rightarrow> {?w} | Inr old \<Rightarrow> insert (Dead i) (replaced old))) st'"
  proof (cases r)
    case (Inl e)
    with *(1,3) CompleteUpload.error_keeps have "steps h st (after_statement s st)"
      by (intro steps_statement shrinks_same) auto
    with A_after_statement [OF *(2)] Inl show ?thesis by (intro exI [where x = "after_statement s st"]) simp
  next
    case (Inr old)
    from *(2) obtain c where c: "own st (o_StoragePath x) = Some (Fresh, c)" "o_Size x = int (length c)" and AX: "A h n X st"
      by (auto simp: A_insert)
    let ?st1 = "(hold (o_StoragePath x) (RowOf (obj_key x)) c (set_db s st))\<lparr>dead := insert i (dead st)\<rparr>"
    from *(3) Inr have run: "CompleteUpload (h_dbenv h) x i im inm (w_db (sw st)) = (Inr old, s)" by simp
    then have 1: "steps h st ?st1" using c by (intro steps_one store_step.complete)
    from run show ?thesis
    proof (rule CompleteUpload_effect)
      fix y xs
      assume y: "obj_key y = obj_key x" "o_StoragePath y = o_StoragePath x"
        and xs: "set xs \<subseteq> insert y {z \<in> set (objects (stabs st)). obj_key z \<noteq> obj_key x}"
        and t: "tabs s = delete_upload i ((stabs st)\<lparr>objects := xs\<rparr>)"
        and old: "old = (case find_object (o_BucketName x) (o_Key x) (stabs st) of None \<Rightarrow> [] | Some z \<Rightarrow> o_StoragePath z)"
      have ids: "upload_ids (tabs s) = upload_ids (stabs st) - {i}" by (simp add: t delete_upload_ids) (simp add: upload_ids_def)
      have "A h n X ?st1" using AX X by (rule A_stable) (auto simp: ids)
      then have A1: "A h n (insert (Dead i) X) ?st1" by (simp add: A_insert)
      have "\<exists>st'. steps h st st' \<and> sw st' = sw ?st1 \<and> A h n (insert (Dead i) X \<union> replaced old) st'"
        by (rule publish_doomed [OF ok 1 _ c(1) _ _ y(2) _ old A1]) (use xs X in \<open>auto simp: t obj_key_def delete_upload_def\<close>)
      with Inr show ?thesis by simp
    qed
  qed
qed

lemma find_partD: "find_part i n t = Some z \<Longrightarrow> z \<in> set (parts t) \<and> part_key z = (i, n)"
  by (auto simp: find_part_def part_key_def dest!: find_SomeD)

lemma triple_AddPart:
  assumes X: "stable X"
  shows "triple h (A h n (insert (WrotePart (mp_StoragePath q) (mp_UploadID q) (mp_Size q)) X)) (on_db (AddPart (h_dbenv h) q))
     (\<lambda>r. A h n (X \<union> (case r of Inl e \<Rightarrow> {WrotePart (mp_StoragePath q) (mp_UploadID q) (mp_Size q)} | Inr old \<Rightarrow> replaced old)))"
proof (rule triple_db)
  fix st :: store and r s
  let ?w = "WrotePart (mp_StoragePath q) (mp_UploadID q) (mp_Size q)"
  assume *: "consistent h st" "A h n (insert ?w X) st" "AddPart (h_dbenv h) q (w_db (sw st)) = (r, s)"
  note ok = *(1) [unfolded consistent_def]
  show "\<exists>st'. steps h st st' \<and> sw st' = (sw st)\<lparr>w_db := s\<rparr> \<and> A h n (X \<union> (case r of Inl e \<Rightarrow> {?w} | Inr old \<Rightarrow> replaced old)) st'"
  proof (cases r)
    case (Inl e)
    with *(1,3) AddPart.error_keeps have "steps h st (after_statement s st)"
      by (intro steps_statement shrinks_same) auto
    with A_after_statement [OF *(2)] Inl show ?thesis by (intro exI [where x = "after_statement s st"]) simp
  next
    case (Inr old)
    from *(2) obtain c where c: "own st (mp_StoragePath q) = Some (FreshPart (mp_UploadID q), c)" "mp_Size q = int (length c)"
      and AX: "A h n X st" by (auto simp: A_insert)
    let ?st1 = "hold (mp_StoragePath q) (PartOf (part_key q)) c (set_db s st)"
    from *(3) Inr have run: "AddPart (h_dbenv h) q (w_db (sw st)) = (Inr old, s)" by simp
    then have 1: "steps h st ?st1" using c by (intro steps_one store_step.add_part)
    from run show ?thesis
    proof (rule AddPart_effect)
      fix y qs
      assume y: "part_key y = part_key q" "mp_StoragePath y = mp_StoragePath q"
        and qs: "set qs \<subseteq> insert y {z \<in> set (parts (stabs st)). part_key z \<noteq> part_key q}"
        and t: "tabs s = (stabs st)\<lparr>parts := qs\<rparr>"
        and old: "old = (case find_part (mp_UploadID q) (mp_PartNumber q) (stabs st) of None \<Rightarrow> [] | Some z \<Rightarrow> mp_StoragePath z)"
      have A1: "A h n X ?st1" using AX X by (rule A_stable) (auto simp: t upload_ids_def)
      show ?thesis
      proof (cases "find_part (mp_UploadID q) (mp_PartNumber q) (stabs st)")
        case None
        with 1 A1 old Inr show ?thesis by (intro exI [where x = ?st1]) (simp add: replaced_def)
      next
        case (Some z)
        from find_partD [OF this] have z: "z \<in> set (parts (stabs st))" "part_key z = part_key q" by (auto simp: part_key_def)
        from store_okD(3) [OF ok z(1)] z(2) obtain c' where c': "own st (mp_StoragePath z) = Some (PartOf (part_key q), c')"
          by (auto simp: part_held_def)
        with c have ne: "mp_StoragePath z \<noteq> mp_StoragePath q" by auto
        have "mp_StoragePath z \<noteq> mp_StoragePath x" if "x \<in> set qs" for x
        proof (cases "x = y")
          case False
          then have x: "x \<in> set (parts (stabs st))" "part_key x \<noteq> part_key q" using qs that by blast+
          with store_okD(3) [OF ok x(1)] c' show ?thesis by (auto simp: part_held_def)
        qed (use y ne in simp)
        moreover have "mp_StoragePath z \<noteq> o_StoragePath x" if "x \<in> set (objects (stabs st))" for x
          using store_okD(2) [OF ok that] c' by (auto simp: row_held_def)
        ultimately have 2: "steps h ?st1 (hold (mp_StoragePath z) Doomed c' ?st1)"
          using ne c' by (intro steps_one store_step.doom) (auto simp: t)
        have "A h n X (hold (mp_StoragePath z) Doomed c' ?st1)" using A1 X by (rule A_stable) auto
        with steps_trans [OF 1 2] old Some Inr show ?thesis
          by (intro exI [where x = "hold (mp_StoragePath z) Doomed c' ?st1"]) (auto simp: replaced_def A_insert)
      qed
    qed
  qed
qed

lemma triple_upload_Create:
  assumes i: "i = mu_ID u"
  shows "triple h (A h n {Ident i}) (on_db (upload_Create (h_dbenv h) u)) (\<lambda>r. A h n {})"
proof (rule triple_db)
  fix st :: store and r s
  assume *: "consistent h st" "A h n {Ident i} st" "upload_Create (h_dbenv h) u (w_db (sw st)) = (r, s)"
  let ?st = "(set_db s st)\<lparr>idents := idents st - {mu_ID u}\<rparr>"
  from * have "steps h st ?st" by (intro steps_one store_step.create_upload) (auto simp: A_def i)
  with *(2) show "\<exists>st'. steps h st st' \<and> sw st' = (sw st)\<lparr>w_db := s\<rparr> \<and> A h n {} st'"
    by (intro exI [where x = ?st]) (simp add: A_def)
qed

section \<open>The disk\<close>

lemma triple_Write:
  assumes wf: "handlers_wf h" and b: "good_elem b" and X: "stable X"
  shows "triple h (A h (Suc (Suc n)) X) (on_disk (Write (h_os h) (h_Storage h) b k r))
     (\<lambda>res. A h n (X \<union> (case res of Inl e \<Rightarrow> {} | Inr (sp, w) \<Rightarrow> {Wrote sp w})))"
proof (rule triple_disk)
  fix st :: store and res d
  assume *: "consistent h st" "A h (Suc (Suc n)) X st" "Write (h_os h) (h_Storage h) b k r (sdisk st) = (res, d)"
  have more: "next_uuid (sdisk st) + 2 \<le> uuid_count (h_os h)" using *(2) by (simp add: A_def)
  have AX: "A h n X (set_disk d st)"
    using *(2) by (rule A_set_disk) (use Write_uuid [OF *(3)] in simp)
  show "\<exists>st'. steps h st st' \<and> sw st' = (sw st)\<lparr>w_disk := d\<rparr> \<and> A h n (X \<union> (case res of Inl e \<Rightarrow> {} | Inr (sp, w) \<Rightarrow> {Wrote sp w})) st'"
  proof (cases res)
    case (Inl e)
    have "steps h st (set_disk d st)" by (rule steps_one [OF store_step.write_fails [OF *(3) [unfolded Inl] b more]])
    with AX Inl show ?thesis by (intro exI [where x = "set_disk d st"]) simp
  next
    case (Inr x)
    obtain sp w where x: "x = (sp, w)" by fastforce
    let ?st = "hold sp Fresh (reader_bytes r) (set_disk d st)"
    have s: "steps h st ?st" by (rule steps_one [OF store_step.write_file [OF *(3) [unfolded Inr x] b more]])
    have w: "w = int (length (reader_bytes r))"
      using write_ok(2) [OF _ _ *(1) [unfolded consistent_def] b more *(3)] wf Inr x by (auto simp: handlers_wf_def)
    have "A h n X ?st" using AX X by (rule A_stable) auto
    with s w Inr x show ?thesis by (intro exI [where x = ?st]) (simp add: A_insert)
  qed
qed

lemma triple_AssembleParts:
  assumes wf: "handlers_wf h" and b: "good_elem b" and X: "stable X" and ps: "\<And>p. p \<in> set ps \<Longrightarrow> \<exists>i. part_path i p"
  shows "triple h (A h (Suc (Suc n)) X) (on_disk (AssembleParts (h_os h) (h_Storage h) b k ps))
     (\<lambda>res. A h n (X \<union> (case res of Inl e \<Rightarrow> {} | Inr (sp, w) \<Rightarrow> {Wrote sp w})))"
proof (rule triple_disk)
  fix st :: store and res d
  assume *: "consistent h st" "A h (Suc (Suc n)) X st" "AssembleParts (h_os h) (h_Storage h) b k ps (sdisk st) = (res, d)"
  have more: "next_uuid (sdisk st) + 2 \<le> uuid_count (h_os h)" using *(2) by (simp add: A_def)
  have AX: "A h n X (set_disk d st)"
    using *(2) by (rule A_set_disk) (use AssembleParts_uuid [OF *(3)] in simp)
  show "\<exists>st'. steps h st st' \<and> sw st' = (sw st)\<lparr>w_disk := d\<rparr> \<and> A h n (X \<union> (case res of Inl e \<Rightarrow> {} | Inr (sp, w) \<Rightarrow> {Wrote sp w})) st'"
  proof (cases res)
    case (Inl e)
    have "steps h st (set_disk d st)" by (rule steps_one [OF store_step.assemble_fails [OF *(3) [unfolded Inl] b more]])
    with AX Inl show ?thesis by (intro exI [where x = "set_disk d st"]) simp
  next
    case (Inr x)
    obtain sp w where x: "x = (sp, w)" by fastforce
    let ?st = "hold sp Fresh (parts_bytes (h_os h) (h_Storage h) ps (sdisk st)) (set_disk d st)"
    have s: "steps h st ?st" using * b more Inr x ps by (intro steps_one store_step.assemble) auto
    have w: "w = int (length (parts_bytes (h_os h) (h_Storage h) ps (sdisk st)))"
      using assemble_ok(2) [OF _ _ *(1) [unfolded consistent_def] b more *(3)] ps wf Inr x by (auto simp: handlers_wf_def)
    have "A h n X ?st" using AX X by (rule A_stable) auto
    with s w Inr x show ?thesis by (intro exI [where x = ?st]) (simp add: A_insert)
  qed
qed

lemma triple_WritePart:
  assumes wf: "handlers_wf h" and X: "stable X" and i: "Known i \<in> X"
  shows "triple h (A h (Suc n) X) (on_disk (WritePart (h_os h) (h_Storage h) i m r))
     (\<lambda>res. A h n (X \<union> (case res of Inl e \<Rightarrow> {} | Inr (sp, w) \<Rightarrow> {WrotePart sp i w})))"
proof (rule triple_disk)
  fix st :: store and res d
  assume *: "consistent h st" "A h (Suc n) X st" "WritePart (h_os h) (h_Storage h) i m r (sdisk st) = (res, d)"
  have more: "next_uuid (sdisk st) < uuid_count (h_os h)" using *(2) by (simp add: A_def)
  have k: "i \<in> dead st \<union> upload_ids (stabs st)" using *(2) i by (auto simp: A_def)
  have AX: "A h n X (set_disk d st)"
    using *(2) by (rule A_set_disk) (use WritePart_uuid [OF *(3)] in simp)
  show "\<exists>st'. steps h st st' \<and> sw st' = (sw st)\<lparr>w_disk := d\<rparr> \<and> A h n (X \<union> (case res of Inl e \<Rightarrow> {} | Inr (sp, w) \<Rightarrow> {WrotePart sp i w})) st'"
  proof (cases res)
    case (Inl e)
    with * k more AX show ?thesis
      by (intro exI [where x = "set_disk d st"]) (auto intro: steps_one store_step.write_part_fails)
  next
    case (Inr x)
    obtain sp w where x: "x = (sp, w)" by fastforce
    let ?st = "hold sp (FreshPart i) (reader_bytes r) (set_disk d st)"
    have s: "steps h st ?st" using * k more Inr x by (intro steps_one store_step.write_part) auto
    have w: "w = int (length (reader_bytes r))"
      using write_part_ok(2) [OF _ _ *(1) [unfolded consistent_def] k more *(3)] wf Inr x by (auto simp: handlers_wf_def)
    have "A h n X ?st" using AX X by (rule A_stable) auto
    with s w Inr x show ?thesis by (intro exI [where x = ?st]) (simp add: A_insert)
  qed
qed

lemma Delete_uuid:
  assumes "engine_wf e" and "canonical p" and "Delete env e p d = (r, d')"
  shows "next_uuid d' = next_uuid d"
  using Delete_law(1) [OF assms] by (simp add: only_removes_def)

text \<open>A file may go when its path is nobody's, or when only this request knows it.\<close>

fun disposable :: "string \<Rightarrow> atom \<Rightarrow> bool" where
  "disposable p (Gone q) = (q = p)"
| "disposable p (Wrote q n) = (q = p)"
| "disposable p (WrotePart q i n) = (q = p)"
| "disposable p a = False"

lemma steps_dispose:
  assumes ok: "consistent h st" and a: "atom_ok st a" "disposable p a"
  obtains c where "steps h st (hold p Doomed c st)"
proof (cases "\<exists>c. own st p = Some (Doomed, c)")
  case True
  then obtain c where "own st p = Some (Doomed, c)" by blast
  then have "hold p Doomed c st = st" by (simp add: hold_def fun_upd_idem)
  with that [of c] show ?thesis by simp
next
  case False
  with a obtain hl c where c: "own st p = Some (hl, c)" "hl = Fresh \<or> (\<exists>i. hl = FreshPart i)" by (cases a) auto
  then have "steps h st (hold p Doomed c st)"
    using unnamed_path [OF ok [unfolded consistent_def], of p] by (intro steps_one store_step.doom) auto
  with that show ?thesis .
qed

lemma triple_Delete:
  assumes wf: "handlers_wf h" and X: "stable X" and a: "disposable p a"
  shows "triple h (A h n (insert a X)) (on_disk (Delete (h_os h) (h_Storage h) p)) (\<lambda>r. A h n X)"
proof (rule triple_disk)
  fix st :: store and r d
  assume *: "consistent h st" "A h n (insert a X) st" "Delete (h_os h) (h_Storage h) p (sdisk st) = (r, d)"
  from *(2) have AX: "A h n X st" and ok: "atom_ok st a" by (simp_all add: A_insert)
  obtain c where 1: "steps h st (hold p Doomed c st)" using *(1) ok a by (rule steps_dispose)
  let ?st1 = "hold p Doomed c st"
  have own: "own ?st1 p = Some (Doomed, c)" by simp
  have 2: "steps h ?st1 (set_disk d ?st1)" by (rule steps_one [OF store_step.delete_file [OF _ own]]) (use *(3) in simp)
  have "shape Doomed p"
    using store_okD(1) [OF steps_ok [OF wf 1 *(1), unfolded consistent_def] own] by (simp add: holds_def del: shape.simps)
  then have "canonical p" by (rule shape_canonical)
  from Delete_uuid [OF _ this *(3)] wf have "next_uuid d = next_uuid (sdisk st)" by (simp add: handlers_wf_def)
  then have "A h n X (set_disk d ?st1)" using AX X by (intro A_stable [OF AX X]) auto
  with steps_trans [OF 1 2] show "\<exists>st'. steps h st st' \<and> sw st' = (sw st)\<lparr>w_disk := d\<rparr> \<and> A h n X st'"
    by (intro exI [where x = "set_disk d ?st1"]) simp
qed

lemma triple_DeleteUploadParts:
  assumes wf: "handlers_wf h" and i: "Dead i \<in> X"
  shows "triple h (A h n X) (on_disk (DeleteUploadParts (h_os h) (h_Storage h) i)) (\<lambda>r. A h n X)"
proof (rule triple_disk)
  fix st :: store and r d
  assume *: "consistent h st" "A h n X st" "DeleteUploadParts (h_os h) (h_Storage h) i (sdisk st) = (r, d)"
  have dead: "i \<in> dead st" using *(2) i by (auto simp: A_def)
  then have s: "steps h st (set_disk d st)" using *(3) by (intro steps_one store_step.remove_parts)
  have "good_elem i"
    using store_okD(5) [OF *(1) [unfolded consistent_def], of i] dead wf used_id_good by (auto simp: handlers_wf_def)
  from DeleteUploadParts_law(1) [OF _ this *(3)] wf have "next_uuid d = next_uuid (sdisk st)"
    by (auto simp: handlers_wf_def only_removes_def)
  then have "A h n X (set_disk d st)" by (intro A_set_disk [OF *(2)]) simp
  with s show "\<exists>st'. steps h st st' \<and> sw st' = (sw st)\<lparr>w_disk := d\<rparr> \<and> A h n X st'"
    by (intro exI [where x = "set_disk d st"]) simp
qed

lemma triple_look:
  assumes "\<And>d r d'. m d = (r, d') \<Longrightarrow> files d' = files d \<and> next_uuid d' = next_uuid d"
  shows "triple h (A h n X) (on_disk m) (\<lambda>r. A h n X)"
proof (rule triple_disk)
  fix st :: store and r d
  assume *: "consistent h st" "A h n X st" "m (sdisk st) = (r, d)"
  from assms [OF *(3)] have "steps h st (set_disk d st)" by (intro steps_one store_step.look) simp_all
  moreover have "A h n X (set_disk d st)" using assms [OF *(3)] by (intro A_set_disk [OF *(2)]) simp
  ultimately show "\<exists>st'. steps h st st' \<and> sw st' = (sw st)\<lparr>w_disk := d\<rparr> \<and> A h n X st'"
    by (intro exI [where x = "set_disk d st"]) simp
qed

lemma triple_newID: "triple h (A h (Suc n) X) (newID h) (\<lambda>i. A h n (insert (Ident i) X))"
  unfolding newID_def
proof (rule triple_disk)
  fix st :: store and i d
  assume *: "consistent h st" "A h (Suc n) X st" "new_uuid (h_os h) (sdisk st) = (i, d)"
  have more: "next_uuid (sdisk st) < uuid_count (h_os h)" and n: "next_uuid d = Suc (next_uuid (sdisk st))"
    using *(2) new_uuid_eq [OF *(3)] by (auto simp: A_def)
  let ?st = "(set_disk d st)\<lparr>idents := insert i (idents st)\<rparr>"
  have s: "steps h st ?st" using *(3) more by (intro steps_one store_step.draw)
  have "atom_ok ?st a" if "atom_ok st a" for a using that by (cases a) auto
  with *(2) n have "A h n (insert (Ident i) X) ?st" by (auto simp: A_def)
  with s show "\<exists>st'. steps h st st' \<and> sw st' = (sw st)\<lparr>w_disk := d\<rparr> \<and> A h n (insert (Ident i) X) st'"
    by (intro exI [where x = ?st]) simp
qed

lemma triple_now: "triple h P (h_now h) (\<lambda>t. P)"
proof (rule tripleI)
  fix st :: store and res w
  assume "P st" "h_now h (sw st) = (res, w)"
  then show "\<exists>st'. steps h st st' \<and> sw st' = w \<and> (\<forall>x. res = Inr x \<longrightarrow> P st')"
    by (intro exI [where x = st]) (auto simp: h_now_def)
qed

lemma os_call_look: "os_call env e d = (r, d') \<Longrightarrow> files d' = files d \<and> next_uuid d' = next_uuid d"
  by (auto simp: os_call_def)

lemma Open_look: "Open env e p d = (r, d') \<Longrightarrow> files d' = files d \<and> next_uuid d' = next_uuid d"
  by (auto simp: Open_def Read_def Let_def ctx_err_def split: prod.splits option.splits sum.splits if_splits
      dest!: os_Open_files os_call_look)

section \<open>Shared steps of the handlers\<close>

lemma triple_pure: "(F \<Longrightarrow> triple h P m Q) \<Longrightarrow> triple h (\<lambda>st. P st \<and> F) m Q"
  unfolding triple_def by blast

lemma triple_weaken: "triple h (A h n Y) m Q \<Longrightarrow> Y \<subseteq> X \<Longrightarrow> n \<le> n' \<Longrightarrow> triple h (A h n' X) m Q"
  by (erule triple_conseq) (blast intro: A_mono)+

lemma triple_skip: "triple h P (f x) Q \<Longrightarrow> triple h P (andThen (ret x) f) Q"
  by (simp add: triple_def andThen_def ret_def)

lemma triple_stop: "triple h P (andThen (fail e) f) Q"
  using triple_fail [of h P e Q] by (simp add: triple_def andThen_def fail_def)

lemma triple_newID_drop: "triple h (A h (Suc n) X) (newID h) (\<lambda>i. A h n X)"
  by (rule triple_conseq [OF triple_newID]) (auto simp: A_insert)

lemma triple_Seen_drop: "triple h (A h n X) (on_db (GetByKey env b k)) (\<lambda>r. A h n X)"
  by (rule triple_read) (rule query_reads)

lemma triple_Open: "triple h (A h n X) (on_disk (Open env e p)) (\<lambda>r. A h n X)"
  by (rule triple_look) (rule Open_look)

lemma triple_authorize:
  assumes wf: "handlers_wf h"
  shows "triple h (A h n X) (authorize h r act b k l bk) (\<lambda>u. A h n X)"
  unfolding authorize_def
  by (auto split: option.split sum.split intro!: triple_fail triple_bind [OF wf triple_read [OF Allow_reads]] triple_ret)

lemma triple_authorizeQuiet: "triple h (A h n X) (authorizeQuiet h r act b k bk) (\<lambda>u. A h n X)"
  unfolding authorizeQuiet_def
  by (auto split: option.split intro!: triple_ret triple_read [OF Allow_reads])

lemma triple_authorizeBucketRelationship:
  assumes wf: "handlers_wf h"
  shows "triple h (A h n X) (authorizeBucketRelationship h r b) (\<lambda>u. A h n X)"
  unfolding authorizeBucketRelationship_def
  by (auto split: option.split sum.split intro!: triple_fail triple_ret triple_bind [OF wf triple_read [OF query_reads(5)]])

lemma triple_loadBucket:
  assumes wf: "handlers_wf h"
  shows "triple h (A h n X) (loadBucket h r b) (\<lambda>u st. A h n X st \<and> good_elem b)"
proof (cases "TrimSpace b = []")
  case False
  then show ?thesis unfolding loadBucket_def
  proof (simp, intro triple_bind [OF wf triple_GetByName])
    fix res :: "Bucket result"
    show "triple h (\<lambda>st. A h n X st \<and> (\<forall>x. res = Inr x \<longrightarrow> good_elem b))
      (case res of Inl err \<Rightarrow> if err = ErrBucketNotFound then reject r 404 NoSuchBucket else reject r 500 InternalError | Inr b \<Rightarrow> ret b)
      (\<lambda>u st. A h n X st \<and> good_elem b)"
      by (cases res) (auto intro: triple_fail triple_ret)
  qed
qed (simp add: loadBucket_def triple_fail)

lemma triple_ensure:
  assumes wf: "handlers_wf h"
  shows "triple h (A h n X) (ensureBucketAction h r b act k l) (\<lambda>u st. A h n X st \<and> good_elem b)"
  unfolding ensureBucketAction_def loadBucketForAction_def
proof (rule triple_bind [OF wf], rule triple_bind [OF wf triple_loadBucket [OF wf]], rule triple_pure)
  fix x assume "good_elem b"
  then show "triple h (A h n X) (andThen (authorize h r act b k l (Some x)) (\<lambda>u. ret x)) (\<lambda>u st. A h n X st \<and> good_elem b)"
    by (intro triple_bind [OF wf triple_authorize [OF wf]] triple_ret) simp
qed (rule triple_ret)

lemma triple_recordActivity:
  assumes wf: "handlers_wf h"
  shows "triple h (A h (Suc n) X) (recordActivity h r act b k sz et) (\<lambda>u. A h n X)"
  unfolding recordActivity_def
  by (auto intro!: triple_ret triple_bind [OF wf triple_newID_drop] triple_bind [OF wf triple_now]
      triple_bind [OF wf triple_RecordActivity])

lemma triple_deleteStoredFile:
  assumes wf: "handlers_wf h" and X: "stable X" and a: "disposable p a"
  shows "triple h (A h n (insert a X)) (deleteStoredFile h p) (\<lambda>u. A h n X)"
  unfolding deleteStoredFile_def by (rule triple_bind [OF wf triple_Delete [OF wf X a]]) (auto intro: triple_ret)

lemma triple_errors:
  "triple h P (writeStorageMutationError r err) Q" "triple h P (writeObjectReplaceError r err) Q"
  "triple h P (checksumPipelineError r err) Q" "triple h P (deleteObjectsError r err) Q"
  "triple h P (writeCompletedPartsError r err) Q" "triple h P (params_error r err) Q"
  "triple h P (writeCreateBucketConflict r bk u) Q"
  by (auto simp: writeStorageMutationError_def writeObjectReplaceError_def checksumPipelineError_def deleteObjectsError_def
      writeCompletedPartsError_def params_error_def writeCreateBucketConflict_def intro: triple_fail)

lemma triple_NotImplemented: "triple h P (NotImplemented_handler r) Q"
  unfolding NotImplemented_handler_def by (rule triple_fail)

lemma triple_drop_replaced:
  assumes wf: "handlers_wf h" and X: "stable X"
  shows "triple h (A h n (X \<union> replaced old)) (if old \<noteq> [] \<and> old \<noteq> p then deleteStoredFile h old else ret ()) (\<lambda>u. A h n X)"
  using triple_deleteStoredFile [OF wf X, of old "Gone old" n]
  by (auto simp: replaced_def A_insert intro: triple_ret)

lemma triple_publish_object:
  assumes wf: "handlers_wf h" and X: "stable X" and [simp]: "p = o_StoragePath x" "w = o_Size x"
  shows "triple h (A h (Suc n) (insert (Wrote p w) X)) (publish_object h r act x) (\<lambda>u. A h n X)"
  unfolding publish_object_def assms(3,4)
proof (rule triple_bind [OF wf triple_Replace [OF X]])
  fix res
  show "triple h (A h (Suc n) (X \<union> (case res of Inl e \<Rightarrow> {Wrote (o_StoragePath x) (o_Size x)} | Inr old \<Rightarrow> replaced old)))
    (case res of Inl err \<Rightarrow> andThen (deleteStoredFile h (o_StoragePath x)) (\<lambda>u. writeObjectReplaceError r err)
     | Inr old \<Rightarrow> andThen (recordActivity h r act (o_BucketName x) (o_Key x) (o_Size x) (o_ETag x)) (\<lambda>u.
         if old \<noteq> [] \<and> old \<noteq> o_StoragePath x then deleteStoredFile h old else ret ())) (\<lambda>u. A h n X)"
  proof (cases res)
    case (Inl e)
    then show ?thesis
      by simp (rule triple_bind [OF wf triple_deleteStoredFile [OF wf X]], simp, rule triple_errors)
  next
    case (Inr old)
    then show ?thesis
      by (simp only: sum.case) (rule triple_bind [OF wf triple_recordActivity [OF wf] triple_drop_replaced [OF wf X]])
  qed
qed

section \<open>The object handlers\<close>

lemma triple_loadObjectForRead:
  assumes wf: "handlers_wf h"
  shows "triple h (A h n X) (loadObjectForRead h r b k) (\<lambda>x. A h n X)"
  unfolding loadObjectForRead_def
  by (auto split: sum.split intro!: triple_fail triple_ret triple_bind [OF wf triple_ensure [OF wf]] triple_pure
      triple_bind [OF wf triple_Seen_drop])

lemma triple_checks:
  "triple h P (handlePartNumber r obj) (\<lambda>u. P)" "triple h P (requireSignedHeader r hdr) (\<lambda>u. P)"
  by (auto simp: handlePartNumber_def requireSignedHeader_def Let_def split: option.split intro: triple_fail triple_ret)

lemma triple_disposition: "triple h P (requestedResponseContentDisposition ok r) (\<lambda>d. P)"
  by (auto simp: requestedResponseContentDisposition_def split: option.split intro: triple_fail triple_ret)

lemma triple_serveObject:
  assumes wf: "handlers_wf h"
  shows "triple h (A h n X) (serveObject h obj cc disp f) (\<lambda>x. A h n X)"
  unfolding serveObject_def
  by (auto split: sum.split node.split option.split intro!: triple_fail triple_ret triple_bind [OF wf triple_Open]
      triple_bind [OF wf triple_look [OF os_call_look]])

lemma triple_objectops_DeleteObject:
  assumes wf: "handlers_wf h"
  shows "triple h (A h n {}) (objectops_DeleteObject h b k) (\<lambda>x. A h n {})"
  unfolding objectops_DeleteObject_def
  by (auto split: sum.split option.split intro!: triple_ret triple_bind [OF wf triple_GetByKey]
      triple_bind [OF wf triple_object_Delete] triple_bind [OF wf triple_Delete [OF wf]])

lemma triple_ret_drop: "triple h (A h n X) (ret x) (\<lambda>y. A h n {})"
  by (rule triple_ret) (simp add: A_def)

lemmas object_rules = triple_fail triple_ret triple_skip triple_stop triple_errors triple_NotImplemented triple_pure

lemma triple_object_reads:
  assumes wf: "handlers_wf h"
  shows "triple h (A h n X) (GetObject ok h r) (\<lambda>x. A h n X)" "triple h (A h n X) (HeadObject ok h r) (\<lambda>x. A h n X)"
    "triple h (A h n X) (GetObjectAttributes h r) (\<lambda>x. A h n X)"
  unfolding GetObject_def HeadObject_def GetObjectAttributes_def Let_def
  by (auto split: prod.split sum.split intro!: object_rules triple_bind [OF wf triple_loadObjectForRead [OF wf]]
      triple_bind [OF wf triple_checks(1)] triple_bind [OF wf triple_disposition] triple_serveObject [OF wf])

lemma triple_PutObject:
  assumes wf: "handlers_wf h"
  shows "triple h (A h (Suc (Suc (Suc (Suc 0)))) {}) (PutObject h r) (\<lambda>resp. A h 0 {})"
  unfolding PutObject_def Let_def
  by (auto split: prod.split sum.split option.split
      intro!: object_rules triple_bind [OF wf triple_ensure [OF wf]]
        triple_bind [OF wf triple_Write [OF wf]] triple_bind [OF wf triple_newID_drop] triple_bind [OF wf triple_now]
        triple_bind [OF wf triple_Delete [OF wf]] triple_bind [OF wf triple_publish_object [OF wf]])

lemma triple_CopyObject:
  assumes wf: "handlers_wf h"
  shows "triple h (A h (Suc (Suc (Suc (Suc 0)))) {}) (CopyObject pq h r) (\<lambda>resp. A h 0 {})"
  unfolding CopyObject_def Let_def
  by (auto split: prod.split sum.split option.split
      intro!: object_rules triple_bind [OF wf triple_checks(2)] triple_bind [OF wf triple_ensure [OF wf]]
        triple_bind [OF wf triple_Seen_drop] triple_bind [OF wf triple_Open]
        triple_bind [OF wf triple_Write [OF wf]] triple_bind [OF wf triple_newID_drop] triple_bind [OF wf triple_now]
        triple_bind [OF wf triple_publish_object [OF wf]])

lemma triple_DeleteObject:
  assumes wf: "handlers_wf h"
  shows "triple h (A h (Suc 0) {}) (DeleteObject h r) (\<lambda>resp. A h 0 {})"
  unfolding DeleteObject_def
  by (auto split: prod.split sum.split option.split bool.split
      intro!: object_rules triple_bind [OF wf triple_ensure [OF wf]]
        triple_bind [OF wf triple_objectops_DeleteObject [OF wf]] triple_bind [OF wf triple_recordActivity [OF wf]]
        A_mono [where n = "Suc 0" and m = 0])

lemma triple_delete_loop:
  assumes wf: "handlers_wf h"
  shows "triple h (A h (n + length ks) {}) (delete_loop h r b bk quiet ks acc) (\<lambda>res. A h n {})"
proof (induction ks arbitrary: acc quiet)
  case (Cons k ks)
  note IH = triple_weaken [OF Cons.IH, where n' = "Suc (n + length ks)" and X = "{}"]
  show ?case
    by (auto split: prod.split sum.split option.split bool.split
        intro!: object_rules triple_bind [OF wf triple_authorizeQuiet] IH
          triple_bind [OF wf triple_objectops_DeleteObject [OF wf]] triple_bind [OF wf triple_recordActivity [OF wf] Cons.IH])
qed (auto intro: triple_ret)

lemma triple_DeleteObjects:
  assumes wf: "handlers_wf h"
  shows "triple h (A h (Suc maxDeleteObjects) {}) (DeleteObjects dec h r) (\<lambda>resp. A h 0 {})"
proof -
  have run: "triple h (A h (Suc maxDeleteObjects) {}) (delete_loop h r b bk q (dq_Objects req) acc) (\<lambda>res. A h (Suc 0) {})"
    if "parseDeleteObjectsRequest dec (h_hashes h) r = Inr req" for b bk q req acc
  proof (rule triple_weaken [OF triple_delete_loop [OF wf, where n = "Suc 0"]])
    show "Suc 0 + length (dq_Objects req) \<le> Suc maxDeleteObjects"
      using that by (auto simp: parseDeleteObjectsRequest_def bindr_def Let_def split: sum.splits if_splits option.splits)
  qed simp
  show ?thesis unfolding DeleteObjects_def Let_def
    by (auto split: sum.split intro!: object_rules triple_bind [OF wf triple_loadBucket [OF wf]]
        triple_bind [OF wf triple_authorizeBucketRelationship [OF wf]] triple_bind [OF wf run]
        triple_bind [OF wf triple_recordActivity [OF wf]])
qed

section \<open>The multipart handlers\<close>

lemma triple_unsettled: "triple h P m Q \<Longrightarrow> triple h P (unsettled m) Q"
  unfolding triple_def unsettled_def by (fastforce split: prod.splits sum.splits)

lemma triple_settled: "triple h P m Q \<Longrightarrow> triple h P (settled m) Q"
  unfolding triple_def settled_def by (fastforce split: prod.splits sum.splits)

lemma release_steps:
  assumes "consistent h st"
  shows "\<exists>st'. steps h st st' \<and> sw st' = claim_release h i (sw st)"
proof -
  obtain r s where run: "SetUploadStatus (h_dbenv h) i StatusActive (w_db (sw st)) = (r, s)" by fastforce
  from steps_statement [OF SetUploadStatus_shrinks [OF assms run]] run show ?thesis
    by (intro exI [where x = "after_statement s st"]) (simp add: claim_release_def on_db_def)
qed

lemma triple_with_claim:
  assumes wf: "handlers_wf h" and m: "triple h P m Q"
  shows "triple h P (with_claim h i m) Q"
proof (rule tripleI)
  fix st :: store and res w
  assume *: "consistent h st" "P st" "with_claim h i m (sw st) = (res, w)"
  obtain r1 w1 where m1: "m (sw st) = (r1, w1)" by fastforce
  obtain st1 where s1: "steps h st st1" "sw st1 = w1" and Q: "\<And>x. r1 = Inr x \<Longrightarrow> Q x st1"
    using m *(1,2) m1 by (rule tripleD) blast
  obtain st2 where s2: "steps h st1 st2" "sw st2 = claim_release h i w1"
    using release_steps [OF steps_ok [OF wf s1(1) *(1)], of i] s1(2) by blast
  show "\<exists>st'. steps h st st' \<and> sw st' = w \<and> (\<forall>x. res = Inr x \<longrightarrow> Q x st')"
  proof (cases "w = w1")
    case True
    then show ?thesis using s1 Q *(3) m1 by (intro exI [where x = st1]) (auto simp: with_claim_def split: sum.splits)
  next
    case False
    then have "w = claim_release h i w1" "\<And>x. res \<noteq> Inr x"
      using *(3) m1 by (auto simp: with_claim_def split: sum.splits if_splits)
    with steps_trans [OF s1(1) s2(1)] s2(2) show ?thesis by (intro exI [where x = st2]) simp
  qed
qed

lemma triple_multipartTarget:
  assumes wf: "handlers_wf h"
  shows "triple h (A h n X) (multipartTarget h r act) (\<lambda>(b, k, i) st. A h n X st \<and> good_elem b)"
  unfolding multipartTarget_def Let_def
  by (auto split: prod.split intro!: object_rules triple_bind [OF wf triple_ensure [OF wf]])

lemma triple_parsers:
  "triple h P (parsePartNumber r) (\<lambda>x. P)" "triple h P (parseListLimit r v) (\<lambda>x. P)"
  "triple h P (parse_part_marker r) (\<lambda>x. P)" "triple h P (versions_max_keys r) (\<lambda>x. P)"
  by (auto simp: parsePartNumber_def parseListLimit_def parse_part_marker_def versions_max_keys_def Let_def
      split: option.split intro: triple_fail triple_ret)

lemma triple_precondition: "triple h P (checkPreconditionFailed r obj) (\<lambda>x. P)"
  by (auto simp: checkPreconditionFailed_def Let_def split: option.split intro: triple_fail triple_ret)

lemma triple_copy_source:
  assumes wf: "handlers_wf h"
  shows "triple h P (parsePartCopySource pq r) (\<lambda>x. P)"
  unfolding parsePartCopySource_def Let_def
  by (auto split: option.split intro!: object_rules triple_bind [OF wf triple_checks(2)])

lemma triple_loadUpload:
  assumes wf: "handlers_wf h"
  shows "triple h (A h n X) (loadUpload h r i b k) (\<lambda>u st. A h n (insert (Known i) X) st \<and> mu_BucketName u = b)"
  unfolding loadUpload_def
  by (auto split: sum.split intro!: object_rules triple_bind [OF wf triple_upload_GetByID])

lemma triple_storePart:
  assumes wf: "handlers_wf h" and X: "stable X" and "p = mp_StoragePath q" "i = mp_UploadID q" "w = mp_Size q"
  shows "triple h (A h n (insert (WrotePart p i w) X)) (storePart h r q) (\<lambda>u. A h n X)"
  unfolding storePart_def assms(3-5)
proof (rule triple_bind [OF wf triple_AddPart [OF X]])
  fix res
  show "triple h (A h n (X \<union> (case res of Inl e \<Rightarrow> {WrotePart (mp_StoragePath q) (mp_UploadID q) (mp_Size q)} | Inr old \<Rightarrow> replaced old)))
    (case res of Inl err \<Rightarrow> andThen (deleteStoredFile h (mp_StoragePath q)) (\<lambda>u.
        if err = ErrUploadAlreadyClaimed \<or> err = ErrMultipartUploadNotFound then reject r 404 NoSuchUpload else reject r 500 InternalError)
     | Inr old \<Rightarrow> if old \<noteq> [] \<and> old \<noteq> mp_StoragePath q then deleteStoredFile h old else ret ()) (\<lambda>u. A h n X)"
  proof (cases res)
    case (Inl e)
    then show ?thesis
      by (auto intro!: triple_bind [OF wf triple_deleteStoredFile [OF wf X]] triple_fail)
  next
    case (Inr old)
    then show ?thesis by (simp only: sum.case) (rule triple_drop_replaced [OF wf X])
  qed
qed

lemma triple_WritePart_drop:
  assumes wf: "handlers_wf h"
  shows "triple h (A h (Suc n) {Known i}) (on_disk (WritePart (h_os h) (h_Storage h) i m r))
     (\<lambda>res. A h n (case res of Inl e \<Rightarrow> {} | Inr (sp, w) \<Rightarrow> {WrotePart sp i w}))"
  by (rule triple_conseq [OF triple_WritePart [OF wf]]) (auto elim: A_mono)

lemma triple_UploadPart:
  assumes wf: "handlers_wf h"
  shows "triple h (A h (Suc 0) {}) (UploadPart h r) (\<lambda>resp. A h 0 {})"
  unfolding UploadPart_def Let_def lockUpload_def
  by (auto split: prod.split sum.split option.split
      intro!: object_rules triple_bind [OF wf triple_multipartTarget [OF wf]] triple_bind [OF wf triple_parsers(1)]
        triple_bind [OF wf triple_loadUpload [OF wf]] triple_bind [OF wf triple_Seen_drop] triple_bind [OF wf triple_precondition]
        triple_bind [OF wf triple_WritePart_drop [OF wf]] triple_bind [OF wf triple_now]
        triple_bind [OF wf triple_deleteStoredFile [OF wf]] triple_bind [OF wf triple_storePart [OF wf]])

lemma triple_openCopySource:
  assumes wf: "handlers_wf h"
  shows "triple h (A h n X) (openCopySource h r src) (\<lambda>x. A h n X)"
  unfolding openCopySource_def Let_def
  by (auto split: prod.split sum.split
      intro!: object_rules triple_bind [OF wf triple_Seen_drop] triple_bind [OF wf triple_Open]
        triple_bind [OF wf triple_look [OF os_call_look]])

lemma triple_UploadPartCopy:
  assumes wf: "handlers_wf h"
  shows "triple h (A h (Suc 0) {}) (UploadPartCopy pq h r) (\<lambda>resp. A h 0 {})"
  unfolding UploadPartCopy_def Let_def lockUpload_def
  by (auto split: prod.split sum.split option.split
      intro!: object_rules triple_bind [OF wf triple_multipartTarget [OF wf]] triple_bind [OF wf triple_parsers(1)]
        triple_bind [OF wf triple_loadUpload [OF wf]] triple_bind [OF wf triple_copy_source [OF wf]]
        triple_bind [OF wf triple_ensure [OF wf]] triple_bind [OF wf triple_openCopySource [OF wf]]
        triple_bind [OF wf triple_WritePart_drop [OF wf]] triple_bind [OF wf triple_now]
        triple_bind [OF wf triple_storePart [OF wf]])

lemma triple_CreateMultipartUpload:
  assumes wf: "handlers_wf h"
  shows "triple h (A h (Suc 0) {}) (CreateMultipartUpload h r) (\<lambda>resp. A h 0 {})"
  unfolding CreateMultipartUpload_def Let_def
  by (auto split: prod.split sum.split intro!: object_rules triple_bind [OF wf triple_ensure [OF wf]]
      triple_bind [OF wf triple_newID] triple_bind [OF wf triple_now] triple_bind [OF wf triple_upload_Create])

lemma triple_assembleUpload:
  assumes wf: "handlers_wf h" and X: "stable X" and b: "good_elem (mu_BucketName u)"
    and ps: "\<And>q. q \<in> set ps \<Longrightarrow> \<exists>j. part_path j (mp_StoragePath q)"
  shows "triple h (A h (Suc (Suc (Suc n))) X) (assembleUpload h r u ps)
    (\<lambda>x. A h n (insert (Wrote (o_StoragePath x) (o_Size x)) X))"
  unfolding assembleUpload_def
  by (auto split: prod.split sum.split intro!: object_rules triple_bind [OF wf triple_AssembleParts [OF wf b X]]
      triple_bind [OF wf triple_deleteStoredFile [OF wf X]] triple_bind [OF wf triple_newID_drop] triple_bind [OF wf triple_now]
      simp: ps)

lemma triple_claimed_errors: "triple h P (writeCompleteUploadError r err) Q"
  by (auto simp: writeCompleteUploadError_def intro: triple_settled triple_unsettled triple_fail)

lemma triple_finish_upload:
  assumes wf: "handlers_wf h"
  shows "triple h (A h (Suc 0) {Wrote (o_StoragePath x) (o_Size x)})
    (andThen (unsettled (on_db (CompleteUpload (h_dbenv h) x i im inm))) (\<lambda>res.
       case res of
         Inl err \<Rightarrow> andThen (unsettled (deleteStoredFile h (o_StoragePath x))) (\<lambda>u. writeCompleteUploadError r err)
       | Inr old \<Rightarrow> andThen (settled (recordActivity h r act (o_BucketName x) (o_Key x) (o_Size x) (o_ETag x))) (\<lambda>u.
           andThen (settled (if old \<noteq> [] \<and> old \<noteq> o_StoragePath x then deleteStoredFile h old else ret ())) (\<lambda>u. ret x))))
    (\<lambda>x. A h 0 {Dead i})"
proof (rule triple_bind [OF wf triple_unsettled [OF triple_CompleteUpload [OF stable_simps(1)]]])
  fix res
  let ?tail = "\<lambda>old. andThen (settled (recordActivity h r act (o_BucketName x) (o_Key x) (o_Size x) (o_ETag x))) (\<lambda>u.
           andThen (settled (if old \<noteq> [] \<and> old \<noteq> o_StoragePath x then deleteStoredFile h old else ret ())) (\<lambda>u. ret x))"
  have X: "stable {Dead i}" by simp
  have "triple h (A h (Suc 0) ({Dead i} \<union> replaced old)) (?tail old) (\<lambda>x. A h 0 {Dead i})" for old
    by (intro triple_bind [OF wf triple_settled [OF triple_recordActivity [OF wf]]]
        triple_bind [OF wf triple_settled [OF triple_drop_replaced [OF wf X]]] triple_ret)
  moreover have "triple h (A h (Suc 0) {Wrote (o_StoragePath x) (o_Size x)})
      (andThen (unsettled (deleteStoredFile h (o_StoragePath x))) (\<lambda>u. writeCompleteUploadError r err)) (\<lambda>x. A h 0 {Dead i})" for err
    by (rule triple_bind [OF wf triple_unsettled [OF triple_deleteStoredFile [OF wf stable_simps(1)]] triple_claimed_errors]) simp
  ultimately show "triple h (A h (Suc 0) ({} \<union> (case res of Inl e \<Rightarrow> {Wrote (o_StoragePath x) (o_Size x)} | Inr old \<Rightarrow> insert (Dead i) (replaced old))))
    (case res of Inl err \<Rightarrow> andThen (unsettled (deleteStoredFile h (o_StoragePath x))) (\<lambda>u. writeCompleteUploadError r err)
     | Inr old \<Rightarrow> ?tail old) (\<lambda>x. A h 0 {Dead i})"
    by (cases res) simp_all
qed

lemma triple_complete_claimed:
  assumes wf: "handlers_wf h" and b: "good_elem (mu_BucketName u)"
  shows "triple h (A h (Suc (Suc (Suc (Suc 0)))) {}) (complete_claimed h r u i req) (\<lambda>x. A h 0 {Dead i})"
  unfolding complete_claimed_def
proof (rule triple_bind [OF wf triple_unsettled [OF triple_ListParts]], goal_cases)
  case (1 res)
  show ?case
  proof (cases res)
    case (Inl e)
    then show ?thesis by (auto intro: triple_unsettled triple_fail)
  next
    case (Inr stored_parts)
    show ?thesis
    proof (cases "matchStoredParts req stored_parts (minPartSize h)")
      case (Inl e)
      with Inr show ?thesis by (auto intro: triple_unsettled triple_errors)
    next
      case match: (Inr ps)
      have "set ps \<subseteq> set stored_parts"
        by (rule matchStoredParts_subset [OF match])
      with Inr match show ?thesis
        apply simp
        apply (rule triple_pure)
        apply (rule triple_bind [OF wf triple_unsettled [OF triple_assembleUpload [OF wf stable_simps(1) b]]])
         apply blast
        apply (rule triple_finish_upload [OF wf])
        done
    qed
  qed
qed

lemma triple_claimUpload:
  assumes wf: "handlers_wf h"
  shows "triple h (A h n X) (claimUpload h r i st) (\<lambda>u. A h n X)"
  unfolding claimUpload_def
  by (auto split: sum.split intro!: object_rules triple_bind [OF wf triple_ClaimUpload])

lemma triple_deleteUploadParts:
  assumes wf: "handlers_wf h"
  shows "triple h (A h n {Dead i}) (deleteUploadParts h i) (\<lambda>u. A h n {})"
  unfolding deleteUploadParts_def
  by (auto intro!: triple_bind [OF wf triple_DeleteUploadParts [OF wf]] triple_ret elim: A_mono)

lemma triple_CompleteMultipartUpload:
  assumes wf: "handlers_wf h"
  shows "triple h (A h (Suc (Suc (Suc (Suc 0)))) {}) (CompleteMultipartUpload dec h r) (\<lambda>resp. A h 0 {})"
  unfolding CompleteMultipartUpload_def lockUpload_def
proof (rule triple_bind [OF wf triple_multipartTarget [OF wf]], clarify, goal_cases)
  case (1 b k i)
  have claimed: "triple h (A h (Suc (Suc (Suc (Suc 0)))) {Known i}) (with_claim h i (complete_claimed h r u i req)) (\<lambda>x. A h 0 {Dead i})"
    if "good_elem b" "mu_BucketName u = b" for u req
    by (rule triple_weaken [OF triple_with_claim [OF wf triple_complete_claimed [OF wf]]]) (use that in simp_all)
  show ?case
    by (auto split: sum.split option.split intro!: object_rules triple_bind [OF wf triple_loadUpload [OF wf]]
        triple_bind [OF wf triple_claimUpload [OF wf]] triple_bind [OF wf claimed] triple_bind [OF wf triple_deleteUploadParts [OF wf]])
qed

lemma triple_upload_Delete_drop:
  assumes wf: "handlers_wf h"
  shows "triple h (A h n X) (on_db (upload_Delete env i)) (\<lambda>r. A h n (case r of Inl e \<Rightarrow> {} | Inr u \<Rightarrow> {Dead i}))"
  by (rule triple_conseq [OF triple_upload_Delete]) (auto elim: A_mono)

lemma triple_abort_claimed:
  assumes wf: "handlers_wf h"
  shows "triple h (A h n X) (with_claim h i (andThen (unsettled (on_db (upload_Delete (h_dbenv h) i)))
      (case_sum (\<lambda>err. unsettled (reject r 500 InternalError)) ret))) (\<lambda>u. A h n {Dead i})"
  by (rule triple_with_claim [OF wf], rule triple_bind [OF wf triple_unsettled [OF triple_upload_Delete_drop [OF wf]]])
    (auto split: sum.split intro: triple_unsettled triple_fail triple_ret)

lemma triple_AbortMultipartUpload:
  assumes wf: "handlers_wf h"
  shows "triple h (A h n {}) (AbortMultipartUpload h r) (\<lambda>resp. A h n {})"
  unfolding AbortMultipartUpload_def lockUpload_def
  by (auto split: prod.split intro!: object_rules triple_bind [OF wf triple_multipartTarget [OF wf]] triple_bind [OF wf triple_loadUpload [OF wf]]
      triple_bind [OF wf triple_claimUpload [OF wf]] triple_bind [OF wf triple_abort_claimed [OF wf]]
      triple_bind [OF wf triple_deleteUploadParts [OF wf]])

lemma triple_removeStaleUpload:
  assumes wf: "handlers_wf h"
  shows "triple h (A h n {}) (removeStaleUpload h u) (\<lambda>x. A h n {})"
  unfolding removeStaleUpload_def Let_def
  by (auto split: sum.split intro!: object_rules triple_bind [OF wf triple_ClaimUpload] triple_bind [OF wf triple_SetUploadStatus]
      triple_bind [OF wf triple_upload_Delete_drop [OF wf]] triple_deleteUploadParts [OF wf])

lemma triple_stale_loop:
  assumes wf: "handlers_wf h"
  shows "triple h (A h n {}) (stale_loop h ttl us) (\<lambda>x. A h n {})"
  by (induction us) (auto intro!: triple_ret triple_bind [OF wf triple_now] triple_bind [OF wf triple_removeStaleUpload [OF wf]])

lemma triple_removeStaleUploads:
  assumes wf: "handlers_wf h"
  shows "triple h (A h n {}) (removeStaleUploads h ttl) (\<lambda>x. A h n {})"
  unfolding removeStaleUploads_def
  by (auto split: sum.split intro!: triple_ret triple_bind [OF wf triple_now] triple_bind [OF wf triple_read [OF query_reads(6)]]
      triple_stale_loop [OF wf])

lemma triple_ListMultipartUploads:
  assumes wf: "handlers_wf h"
  shows "triple h (A h n {}) (ListMultipartUploads h r) (\<lambda>x. A h n {})"
  unfolding ListMultipartUploads_def Let_def
  by (auto split: sum.split intro!: object_rules triple_bind [OF wf triple_ensure [OF wf]]
      triple_bind [OF wf triple_parsers(2)] triple_bind [OF wf triple_read [OF upload_ListByBucket_reads]])

lemma triple_s3_ListParts:
  assumes wf: "handlers_wf h"
  shows "triple h (A h n {}) (s3_ListParts h r) (\<lambda>x. A h n {})"
  unfolding s3_ListParts_def
  by (auto split: prod.split sum.split intro!: triple_fail triple_stop triple_pure triple_ret_drop
      triple_bind [OF wf triple_parsers(2)] triple_bind [OF wf triple_parsers(3)]
      triple_bind [OF wf triple_multipartTarget [OF wf]] triple_bind [OF wf triple_loadUpload [OF wf]]
      triple_bind [OF wf triple_read [OF query_reads(4)]])

section \<open>The bucket handlers and the listings\<close>

lemma triple_bucketOwnerID:
  assumes wf: "handlers_wf h"
  shows "triple h (A h n X) (bucketOwnerID h r p) (\<lambda>x. A h n X)"
  unfolding bucketOwnerID_def
  by (auto split: sum.split intro!: object_rules triple_bind [OF wf triple_read [OF user_GetByID_reads]] triple_bind [OF wf triple_now]
      triple_bind [OF wf triple_user_Create])

lemma triple_GetByName_drop: "triple h (A h n X) (on_db (GetByName env b)) (\<lambda>r. A h n X)"
  by (rule triple_read) (rule query_reads)

lemma triple_CreateBucket:
  assumes wf: "handlers_wf h"
  shows "triple h (A h (Suc 0) {}) (CreateBucket C h r) (\<lambda>resp. A h 0 {})"
  unfolding CreateBucket_def Let_def
  by (auto split: sum.split option.split intro!: object_rules triple_bind [OF wf triple_bucketOwnerID [OF wf]] triple_bind [OF wf triple_now]
      triple_bind [OF wf triple_GetByName_drop] triple_bind [OF wf triple_bucket_Create] triple_bind [OF wf triple_recordActivity [OF wf]]
      simp: validateBucketName_good(1))

lemma triple_abort_uploads:
  assumes wf: "handlers_wf h"
  shows "triple h (A h n {}) (abort_uploads h r us) (\<lambda>x. A h n {})"
  by (induction us) (auto split: sum.split intro!: object_rules triple_bind [OF wf triple_upload_Delete_drop [OF wf]]
      triple_bind [OF wf triple_deleteUploadParts [OF wf]])

lemma triple_abort_pending:
  assumes wf: "handlers_wf h"
  shows "triple h (A h n {}) (abort_pending m h r b) (\<lambda>x. A h n {})"
  by (induction m) (auto split: sum.split intro!: object_rules triple_bind [OF wf triple_read [OF upload_ListByBucket_reads]]
      triple_bind [OF wf triple_abort_uploads [OF wf]])

lemma triple_DeleteBucket:
  assumes wf: "handlers_wf h"
  shows "triple h (A h (Suc 0) {}) (DeleteBucket h r) (\<lambda>resp. A h 0 {})"
  unfolding DeleteBucket_def Let_def
  by (auto split: sum.split prod.split intro!: object_rules triple_bind [OF wf triple_ensure [OF wf]]
      triple_bind [OF wf triple_read [OF object_List_reads]] triple_bind [OF wf triple_abort_pending [OF wf]]
      triple_bind [OF wf triple_bucket_Delete] triple_bind [OF wf triple_recordActivity [OF wf]])

lemma triple_with_header: "triple h P m Q \<Longrightarrow> triple h P (with_header hdr m) Q"
  unfolding triple_def with_header_def by (fastforce split: prod.splits sum.splits)

lemma listObjectsV1Entries_reads [reads]: "listObjectsV1Entries h b ps s = (r, s') \<Longrightarrow> tabs s' = tabs s"
  unfolding listObjectsV1Entries_def by (rule listObjectsV2Entries_reads)

lemma triple_bucket_reads:
  assumes wf: "handlers_wf h"
  shows "triple h (A h n X) (HeadBucket h r) (\<lambda>x. A h n X)" "triple h (A h n X) (GetBucketLocation h r) (\<lambda>x. A h n X)"
    "triple h (A h n X) (ListBuckets h r) (\<lambda>x. A h n X)" "triple h (A h n X) (ListObjectsV2 h r) (\<lambda>x. A h n X)"
    "triple h (A h n X) (ListObjectsV1 h r) (\<lambda>x. A h n X)" "triple h (A h n X) (ListObjectVersions h r) (\<lambda>x. A h n X)"
  unfolding HeadBucket_def GetBucketLocation_def ListBuckets_def ListObjectsV2_def ListObjectsV1_def ListObjectVersions_def Let_def
  by (auto split: sum.split prod.split option.split intro!: object_rules triple_bind [OF wf triple_ensure [OF wf]]
      triple_bind [OF wf triple_with_header [OF triple_ensure [OF wf]]] triple_bind [OF wf triple_parsers(4)]
      triple_bind [OF wf triple_read] dest: reads)

section \<open>Every request\<close>

lemma triple_publicSignature:
  assumes wf: "handlers_wf h"
  shows "triple h P (validatePublicReadSignature C h r) (\<lambda>d. P)"
  unfolding validatePublicReadSignature_def Let_def
  by (auto split: option.split intro!: object_rules triple_bind [OF wf triple_now])

lemma triple_GetByCode: "triple h (A h n X) (on_db (GetByCode env c)) (\<lambda>r. A h n X)"
  by (rule triple_read) (rule query_reads)

lemma triple_creatorCanRead: "triple h (A h n X) (on_db (creatorCanRead h l)) (\<lambda>r. A h n X)"
  by (rule triple_read) (rule creatorCanRead_reads)

lemma triple_loadActiveShareLink:
  assumes wf: "handlers_wf h"
  shows "triple h (A h n X) (loadActiveShareLink h c) (\<lambda>d. A h n X)"
  unfolding loadActiveShareLink_def
  by (auto split: sum.split intro!: object_rules triple_bind [OF wf triple_now]
      triple_bind [OF wf triple_GetByCode] triple_bind [OF wf triple_creatorCanRead])

lemma triple_public_reads:
  assumes wf: "handlers_wf h"
  shows "triple h (A h n X) (PublicReadObject C h r) (\<lambda>x. A h n X)" "triple h (A h n X) (ShareLinkReadObject h r) (\<lambda>x. A h n X)"
  unfolding PublicReadObject_def ShareLinkReadObject_def
  by (auto split: sum.split prod.split intro!: object_rules triple_bind [OF wf triple_publicSignature [OF wf]]
      triple_bind [OF wf triple_Seen_drop] triple_bind [OF wf triple_now] triple_bind [OF wf triple_loadActiveShareLink [OF wf]]
      triple_serveObject [OF wf])

text \<open>The identifiers one request may draw: a multi-object delete draws one for each record it writes.\<close>

definition request_ids :: nat where "request_ids = Suc maxDeleteObjects"

definition safe :: "ObjectHandlers \<Rightarrow> 'a act \<Rightarrow> bool" where
  "safe h m \<longleftrightarrow> triple h (A h request_ids {}) m (\<lambda>x st. True)"

lemma safeI: "triple h (A h n {}) m Q \<Longrightarrow> n \<le> request_ids \<Longrightarrow> safe h m"
  unfolding safe_def by (erule triple_conseq) (auto elim: A_mono)

lemma safe_errors: "safe h (reject r st c)" "safe h (NotImplemented_handler r)"
  by (rule safeI [OF triple_fail le_refl], rule safeI [OF triple_NotImplemented le_refl])

lemma safe_handlers:
  assumes wf: "handlers_wf h"
  shows "safe h (PutObject h r)" "safe h (CopyObject pq h r)" "safe h (DeleteObject h r)" "safe h (DeleteObjects dec h r)"
    "safe h (GetObject ok h r)" "safe h (HeadObject ok h r)" "safe h (GetObjectAttributes h r)"
    "safe h (UploadPart h r)" "safe h (UploadPartCopy pq h r)" "safe h (CreateMultipartUpload h r)"
    "safe h (CompleteMultipartUpload dec' h r)" "safe h (AbortMultipartUpload h r)" "safe h (ListMultipartUploads h r)"
    "safe h (s3_ListParts h r)" "safe h (CreateBucket C h r)" "safe h (DeleteBucket h r)" "safe h (HeadBucket h r)"
    "safe h (GetBucketLocation h r)" "safe h (ListBuckets h r)" "safe h (ListObjectsV2 h r)" "safe h (ListObjectsV1 h r)"
    "safe h (ListObjectVersions h r)" "safe h (PublicReadObject C h r)" "safe h (ShareLinkReadObject h r)"
  by (rule safeI, rule triple_PutObject [OF wf] triple_CopyObject [OF wf] triple_DeleteObject [OF wf] triple_DeleteObjects [OF wf]
      triple_object_reads [OF wf, where n = 0] triple_UploadPart [OF wf] triple_UploadPartCopy [OF wf] triple_CreateMultipartUpload [OF wf]
      triple_CompleteMultipartUpload [OF wf] triple_AbortMultipartUpload [OF wf, where n = 0] triple_ListMultipartUploads [OF wf, where n = 0]
      triple_s3_ListParts [OF wf, where n = 0] triple_CreateBucket [OF wf] triple_DeleteBucket [OF wf] triple_bucket_reads [OF wf, where n = 0]
      triple_public_reads [OF wf, where n = 0], simp add: request_ids_def maxDeleteObjects_def)+

lemma safe_if: "safe h a \<Longrightarrow> safe h b \<Longrightarrow> safe h (if c then a else b)"
  by simp

lemma safe_dispatch:
  assumes wf: "handlers_wf h"
  shows "safe h (DispatchBucketPost C h r)" "safe h (DispatchBucketPut C h r)" "safe h (DispatchBucketGet h r)"
    "safe h (DispatchBucketDelete C h r)" "safe h (DispatchObjectGet C h r)" "safe h (DispatchObjectPut C h r)"
    "safe h (DispatchPost C h r)" "safe h (DispatchObjectDelete h r)"
  unfolding DispatchBucketPost_def DispatchBucketPut_def DispatchBucketGet_def DispatchBucketDelete_def DispatchObjectGet_def
    DispatchObjectPut_def DispatchPut_def DispatchPost_def DispatchObjectDelete_def DispatchDelete_def Let_def
  by (intro safe_if safe_errors safe_handlers [OF wf])+

lemma safe_routes:
  assumes wf: "handlers_wf h" and m: "RegisterBucketRoutes C h r p = Some m \<or> RegisterObjectRoutes C h r p = Some m
    \<or> RegisterPublicRoutes C h r p = Some m"
  shows "safe h m"
  using m safe_dispatch [OF wf] safe_handlers(6,17,19,23,24) [OF wf]
  by (auto simp: RegisterBucketRoutes_def RegisterObjectRoutes_def RegisterPublicRoutes_def split: if_splits)

lemma safe_run:
  assumes wf: "handlers_wf h" and safe: "safe h m" and ok: "consistent h st" 
    and ids: "next_uuid (sdisk st) + request_ids \<le> uuid_count (h_os h)" and run: "m (sw st) = (res, w)"
  obtains st' where "consistent h st'" and "sw st' = w"
proof -
  have "A h request_ids {} st" using ids by (simp add: A_def)
  with safe ok run obtain st' where "steps h st st'" "sw st' = w" unfolding safe_def by (elim tripleD) blast
  with steps_ok [OF wf _ ok] that show ?thesis by blast
qed

end
