(* ===== verification/StoreRequests.thy ===== *)
theory StoreRequests
  imports StoreHandlers
begin

text \<open>
  What clients observe of the composed system: runs of requests and of the stale-upload worker over the
  shared state, the bytes a key holds after a write, what the next read answers, and which bytes of a source a part copy takes.
\<close>

section \<open>Serving requests\<close>

definition routed :: "codecs \<Rightarrow> ObjectHandlers \<Rightarrow> request \<Rightarrow> pattern \<Rightarrow> response act \<Rightarrow> bool" where
  "routed C h r p m \<longleftrightarrow> RegisterBucketRoutes C h r p = Some m \<or> RegisterObjectRoutes C h r p = Some m
     \<or> RegisterPublicRoutes C h r p = Some m"

definition enough_ids :: "ObjectHandlers \<Rightarrow> world \<Rightarrow> bool" where
  "enough_ids h w \<longleftrightarrow> next_uuid (w_disk w) + request_ids \<le> uuid_count (h_os h)"

inductive serve :: "codecs \<Rightarrow> ObjectHandlers \<Rightarrow> world \<Rightarrow> world \<Rightarrow> bool" for C h where
  idle: "serve C h w w"
| request: "serve C h w w1 \<Longrightarrow> routed C h r p m \<Longrightarrow> enough_ids h w1 \<Longrightarrow> m w1 = (res, w2) \<Longrightarrow> serve C h w w2"
| cleanup: "serve C h w w1 \<Longrightarrow> enough_ids h w1 \<Longrightarrow> removeStaleUploads h ttl w1 = (res, w2) \<Longrightarrow> serve C h w w2"

definition fresh_world :: "ObjectHandlers \<Rightarrow> world \<Rightarrow> bool" where
  "fresh_world h w \<longleftrightarrow> ids_fresh (h_os h) (w_disk w) \<and> objects (tabs (w_db w)) = [] \<and> parts (tabs (w_db w)) = []
     \<and> uploads (tabs (w_db w)) = [] \<and> (\<forall>b\<in>set (buckets (tabs (w_db w))). good_elem (b_Name b))"

lemma serve_consistent:
  assumes wf: "handlers_wf h" and w0: "fresh_world h w0" and run: "serve C h w0 w"
  shows "\<exists>st. consistent h st \<and> sw st = w"
  using run w0
proof (induction rule: serve.induct)
  case (idle w)
  then have "store_ok (h_os h) (h_Storage h) (initial_store (w_disk w) (w_db w))"
    by (intro initial_store_ok) (simp_all add: fresh_world_def)
  then show ?case
    by (intro exI [where x = "initial_store (w_disk w) (w_db w)"]) (simp add: consistent_def initial_store_def)
next
  case (request w w1 r p m res w2)
  then obtain st where st: "consistent h st" "sw st = w1" by blast
  have "safe h m" using safe_routes [OF wf] request.hyps(2) unfolding routed_def by blast
  from safe_run [OF wf this st(1), of res w2] st(2) request.hyps(3,4) show ?case by (auto simp: enough_ids_def)
next
  case (cleanup w w1 ttl res w2)
  then obtain st where st: "consistent h st" "sw st = w1" by blast
  have "safe h (removeStaleUploads h ttl)" by (rule safeI [OF triple_removeStaleUploads [OF wf]]) (rule le_refl)
  from safe_run [OF wf this st(1), of res w2] st(2) cleanup.hyps(2,3) show ?case by (auto simp: enough_ids_def)
qed

section \<open>The bytes of a key\<close>

abbreviation wtabs :: "world \<Rightarrow> tables" where "wtabs w \<equiv> tabs (w_db w)"

abbreviation wblob :: "ObjectHandlers \<Rightarrow> world \<Rightarrow> string \<Rightarrow> bytes option" where
  "wblob h w p \<equiv> blob (h_os h) (h_Storage h) (w_disk w) p"

definition holds_bytes :: "ObjectHandlers \<Rightarrow> string \<Rightarrow> string \<Rightarrow> bytes \<Rightarrow> world \<Rightarrow> bool" where
  "holds_bytes h b k c w \<longleftrightarrow> (\<exists>x. find_object b k (wtabs w) = Some x \<and> wblob h w (o_StoragePath x) = Some c)"

lemma act_Inr:
  assumes "andThen m f w = (Inr y, w')"
  obtains x w1 where "m w = (Inr x, w1)" and "f x w1 = (Inr y, w')"
  using assms that by (auto simp: andThen_def split: prod.splits sum.splits)

lemma on_db_Inr: "on_db m w = (Inr x, w') \<longleftrightarrow> (\<exists>s. m (w_db w) = (x, s) \<and> w' = w\<lparr>w_db := s\<rparr>)"
  by (auto simp: on_db_def split: prod.splits)

lemma on_disk_Inr: "on_disk m w = (Inr x, w') \<longleftrightarrow> (\<exists>d. m (w_disk w) = (x, d) \<and> w' = w\<lparr>w_disk := d\<rparr>)"
  by (auto simp: on_disk_def split: prod.splits)

lemma recordActivity_frame:
  assumes "recordActivity h r act b k sz et w = (res, w')"
  shows "objects (wtabs w') = objects (wtabs w)" and "file_at (w_disk w') q = file_at (w_disk w) q"
proof -
  obtain i d where u: "new_uuid (h_os h) (w_disk w) = (i, d)" by fastforce
  obtain a r s where a: "w' = w\<lparr>w_disk := d, w_db := s\<rparr>" and c: "activity_Create (h_dbenv h) a (w_db w) = (r, s)"
    using assms u
    by (auto simp: recordActivity_def newID_def h_now_def on_db_def on_disk_def andThen_def ret_def RecordActivity_def split: prod.splits)
  have "objects (tabs s) = objects (wtabs w)"
  proof (cases r)
    case (Inl e)
    with c activity_Create.error_keeps show ?thesis by metis
  next
    case (Inr x)
    with c show ?thesis by (auto simp: activity_Create_def Let_def split: if_splits dest!: sql_run)
  qed
  then show "objects (wtabs w') = objects (wtabs w)" using a c by simp
  show "file_at (w_disk w') q = file_at (w_disk w) q" using new_uuid_eq [OF u] a by auto
qed

lemma holds_bytes_cong:
  assumes "holds_bytes h b k c w" and "objects (wtabs w') = objects (wtabs w)" and "\<And>q. file_at (w_disk w') q = file_at (w_disk w) q"
  shows "holds_bytes h b k c w'"
  using assms(1,2) blob_cong [OF assms(3)] by (auto simp: holds_bytes_def find_object_def)

lemma holds_bytes_record:
  assumes "holds_bytes h b k c w" and "recordActivity h r act b' k' sz et w = (res, w')"
  shows "holds_bytes h b k c w'"
  by (rule holds_bytes_cong [OF assms(1) recordActivity_frame [OF assms(2)]])

lemma holds_bytes_delete:
  assumes wf: "handlers_wf h" and ok: "consistent h st" and hb: "holds_bytes h b k c (sw st)"
    and gone: "own st p = Some (Doomed, c')" and del: "deleteStoredFile h p (sw st) = (res, w')"
  shows "holds_bytes h b k c w'"
proof -
  from hb obtain x where x: "find_object b k (stabs st) = Some x" "blob (h_os h) (h_Storage h) (sdisk st) (o_StoragePath x) = Some c"
    by (auto simp: holds_bytes_def)
  note sok = ok [unfolded consistent_def]
  obtain cx where own: "own st (o_StoragePath x) = Some (RowOf (obj_key x), cx)"
    using store_okD(2) [OF sok, of x] find_objectD [OF x(1)] by (auto simp: row_held_def)
  have sh: "shape Doomed p" "shape (RowOf (obj_key x)) (o_StoragePath x)"
    using store_okD(1) [OF sok gone] store_okD(1) [OF sok own] by (simp_all add: holds_def del: shape.simps)
  have ne: "o_StoragePath x \<noteq> p" using own gone by auto
  obtain e d where d: "Delete (h_os h) (h_Storage h) p (sdisk st) = (e, d)" by fastforce
  have "blob (h_os h) (h_Storage h) d (o_StoragePath x) = blob (h_os h) (h_Storage h) (sdisk st) (o_StoragePath x)"
    using Delete_law(3) [OF _ shape_canonical [OF sh(1)] d shape_canonical [OF sh(2)] shapes_apart [OF sh(2,1) ne]] wf
    by (simp add: handlers_wf_def)
  moreover have "w' = (sw st)\<lparr>w_disk := d\<rparr>"
    using del d by (auto simp: deleteStoredFile_def on_disk_def andThen_def ret_def)
  ultimately show ?thesis using x by (auto simp: holds_bytes_def)
qed

lemma holds_bytes_drop:
  assumes wf: "handlers_wf h" and ok: "consistent h st" and hb: "holds_bytes h b k c (sw st)"
    and gone: "A h n (replaced old) st"
    and del: "(if old \<noteq> [] \<and> old \<noteq> p then deleteStoredFile h old else ret ()) (sw st) = (res, w')"
  shows "holds_bytes h b k c w'"
proof (cases "old \<noteq> [] \<and> old \<noteq> p")
  case True
  then obtain c' where "own st old = Some (Doomed, c')" using gone by (auto simp: replaced_def A_def)
  with del True holds_bytes_delete [OF wf ok hb] show ?thesis by (simp split: if_splits)
next
  case False
  then have "ret () (sw st) = (res, w')" using del by (simp split: if_splits)
  with hb show ?thesis by simp
qed

lemma published_bytes:
  assumes wf: "handlers_wf h" and ok: "consistent h st" and own: "own st (o_StoragePath x) = Some (Fresh, c)"
    and y: "obj_key y = obj_key x" "o_StoragePath y = o_StoragePath x" and ys: "y \<in> set (objects (tabs s))"
      "set (objects (tabs s)) \<subseteq> insert y {z \<in> set (objects (stabs st)). obj_key z \<noteq> obj_key x}"
  shows "holds_bytes h (o_BucketName x) (o_Key x) c ((sw st)\<lparr>w_db := s\<rparr>)"
proof -
  let ?P = "\<lambda>z. o_BucketName z = o_BucketName x \<and> o_Key z = o_Key x"
  have "?P y" using y(1) by (simp add: obj_key_def)
  then obtain z where z: "find_object (o_BucketName x) (o_Key x) (tabs s) = Some z"
    using ys(1) find_None_iff [of ?P "objects (tabs s)"] by (cases "find ?P (objects (tabs s))") (auto simp: find_object_def)
  with find_objectD [OF this] ys(2) have "z = y" by (auto simp: obj_key_def)
  moreover have "blob (h_os h) (h_Storage h) (sdisk st) (o_StoragePath x) = Some c"
    using store_okD(1) [OF ok [unfolded consistent_def] own] by (simp add: holds_def)
  ultimately show ?thesis using z y(2) by (simp add: holds_bytes_def)
qed

lemma publish_object_bytes:
  assumes wf: "handlers_wf h" and ok: "consistent h st" and own: "own st (o_StoragePath x) = Some (Fresh, c)"
    and sz: "o_Size x = int (length c)" and more: "next_uuid (sdisk st) < uuid_count (h_os h)"
    and run: "publish_object h r act x (sw st) = (Inr u, w')"
  shows "holds_bytes h (o_BucketName x) (o_Key x) c w'"
proof -
  let ?im = "header_Get r ''If-Match''" and ?inm = "header_Get r ''If-None-Match''"
  obtain res w1 where rep: "on_db (Replace (h_dbenv h) x ?im ?inm) (sw st) = (Inr res :: response + _, w1)"
    and k1: "(case res of Inl err \<Rightarrow> andThen (deleteStoredFile h (o_StoragePath x)) (\<lambda>u. writeObjectReplaceError r err)
       | Inr old \<Rightarrow> andThen (recordActivity h r act (o_BucketName x) (o_Key x) (o_Size x) (o_ETag x)) (\<lambda>u.
           if old \<noteq> [] \<and> old \<noteq> o_StoragePath x then deleteStoredFile h old else ret ())) w1 = (Inr u, w')"
    using run unfolding publish_object_def by (rule act_Inr)
  obtain old where old: "res = Inr old"
    using k1 by (cases res) (auto simp: writeObjectReplaceError_def andThen_def split: prod.splits sum.splits if_splits)
  obtain v w2 where act: "recordActivity h r act (o_BucketName x) (o_Key x) (o_Size x) (o_ETag x) w1 = (Inr v, w2)"
    and k2: "(if old \<noteq> [] \<and> old \<noteq> o_StoragePath x then deleteStoredFile h old else ret ()) w2 = (Inr u, w')"
    using k1 [unfolded old sum.case] by (rule act_Inr)
  have "A h (Suc 0) (insert (Wrote (o_StoragePath x) (o_Size x)) {}) st" using own sz more by (simp add: A_def)
  from triple_Replace [THEN tripleD, OF stable_simps(1) ok this rep] old
  obtain st1 where s1: "steps h st st1" "sw st1 = w1" "A h (Suc 0) (replaced old) st1" by auto
  from triple_recordActivity [OF wf, THEN tripleD, OF steps_ok [OF wf s1(1) ok] s1(3)] act s1(2)
  obtain st2 where s2: "steps h st1 st2" "sw st2 = w2" "A h 0 (replaced old) st2" by blast
  obtain s where run1: "Replace (h_dbenv h) x ?im ?inm (w_db (sw st)) = (Inr old, s)" and w1: "w1 = (sw st)\<lparr>w_db := s\<rparr>"
    using rep old by (auto simp: on_db_Inr)
  from run1 have "holds_bytes h (o_BucketName x) (o_Key x) c w1"
    unfolding w1 by (rule Replace_effect) (rule published_bytes [OF wf ok own], auto)
  from holds_bytes_record [OF this act] have "holds_bytes h (o_BucketName x) (o_Key x) c (sw st2)" using s2(2) by simp
  from holds_bytes_drop [OF wf steps_ok [OF wf s2(1) steps_ok [OF wf s1(1) ok]] this s2(3)] k2 s2(2) show ?thesis by simp
qed

lemmas error_defs = writeStorageMutationError_def writeObjectReplaceError_def checksumPipelineError_def
  writeCompletedPartsError_def deleteObjectsError_def

lemma PutObject_Inr:
  assumes run: "PutObject h r w = (Inr resp, w')" and rt: "objectRouteParams r = (b, k)"
  obtains u w1 sp n d i w3 x where "ensureBucketAction h r b ActionPutObject k [] w = (Inr u, w1)"
    and "Write (h_os h) (h_Storage h) b k (r_Body r) (w_disk w1) = (Inr (sp, n), d)"
    and "newID h (w1\<lparr>w_disk := d\<rparr>) = (Inr i, w3)" and "publish_object h r ActivityPutObject x w3 = (Inr (), w')"
    and "o_BucketName x = b" and "o_Key x = k" and "o_StoragePath x = sp" and "o_Size x = n"
  using run rt
  by (auto simp: PutObject_def Let_def on_disk_Inr h_now_def error_defs elim!: act_Inr
      split: sum.splits option.splits if_splits prod.splits)

lemma triple_run:
  assumes wf: "handlers_wf h" and t: "triple h P m Q" and ok: "consistent h st" and P: "P st" and run: "m (sw st) = (Inr x, w)"
  obtains st' where "consistent h st'" and "sw st' = w" and "Q x st'"
  using t ok P run by (rule tripleD) (use that steps_ok [OF wf _ ok] in blast)

lemma PutObject_bytes:
  assumes wf: "handlers_wf h" and ok: "consistent h st" and ids: "enough_ids h (sw st)"
    and rt: "objectRouteParams r = (b, k)" and run: "PutObject h r (sw st) = (Inr resp, w')"
  shows "holds_bytes h b k (reader_bytes (r_Body r)) w'"
  using run rt
proof (rule PutObject_Inr)
  fix u w1 sp n d i w3 x
  assume ens: "ensureBucketAction h r b ActionPutObject k [] (sw st) = (Inr u, w1)"
    and wr: "Write (h_os h) (h_Storage h) b k (r_Body r) (w_disk w1) = (Inr (sp, n), d)"
    and new: "newID h (w1\<lparr>w_disk := d\<rparr>) = (Inr i, w3)" and pub: "publish_object h r ActivityPutObject x w3 = (Inr (), w')"
    and x: "o_BucketName x = b" "o_Key x = k" "o_StoragePath x = sp" "o_Size x = n"
  have "A h (Suc (Suc (Suc (Suc 0)))) {} st" using ids by (simp add: A_def enough_ids_def request_ids_def maxDeleteObjects_def)
  from triple_run [OF wf triple_ensure [OF wf] ok this ens]
  obtain st1 where s1: "consistent h st1" "sw st1 = w1" "A h (Suc (Suc (Suc (Suc 0)))) {} st1" "good_elem b" by blast
  have more: "next_uuid (sdisk st1) + 4 \<le> uuid_count (h_os h)" using s1(3) by (simp add: A_def)
  let ?st2 = "hold sp Fresh (reader_bytes (r_Body r)) (set_disk d st1)"
  have wr1: "Write (h_os h) (h_Storage h) b k (r_Body r) (sdisk st1) = (Inr (sp, n), d)" using wr s1(2) by simp
  have w2: "consistent h ?st2" and n: "n = int (length (reader_bytes (r_Body r)))"
    using write_ok(2) [OF _ _ s1(1) [unfolded consistent_def] s1(4) _ wr1 refl] wf more by (auto simp: handlers_wf_def consistent_def)
  have uu: "next_uuid d \<le> next_uuid (sdisk st1) + 2" using Write_uuid [OF wr1] by simp
  obtain d3 where d3: "new_uuid (h_os h) d = (i, d3)" "w3 = w1\<lparr>w_disk := d3\<rparr>"
    using new by (auto simp: newID_def on_disk_Inr)
  let ?st3 = "(set_disk d3 ?st2)\<lparr>idents := insert i (idents ?st2)\<rparr>"
  have "store_step (h_os h) (h_Storage h) (h_dbenv h) ?st2 ?st3"
    by (rule store_step.draw) (use d3(1) uu more in simp_all)
  then have ok3: "consistent h ?st3" using steps_ok [OF wf steps_one w2] by blast
  have "holds_bytes h (o_BucketName x) (o_Key x) (reader_bytes (r_Body r)) w'"
    by (rule publish_object_bytes [OF wf ok3])
       (use x n d3 s1(2) new_uuid_eq [OF d3(1)] uu more pub in simp_all)
  then show ?thesis using x by simp
qed

section \<open>Reading back\<close>

text \<open>An error response of a read that is not a report of a missing key.\<close>

lemma ensure_tabs:
  assumes "ensureBucketAction h r b act k l w = (res, w')"
  shows "wtabs w' = wtabs w" and "w_disk w' = w_disk w"
  using assms
  by (auto simp: ensureBucketAction_def loadBucketForAction_def loadBucket_def authorize_def andThen_def on_db_def
      split: prod.splits sum.splits option.splits if_splits dest!: query_reads(1) Allow_reads)

lemma ensure_Inl:
  assumes "ensureBucketAction h r b act k l w = (Inl resp, w')"
  shows "resp \<in> {WriteS3Error r 400 InvalidRequest, WriteS3Error r 404 NoSuchBucket, WriteS3Error r 500 InternalError, WriteS3Error r 403 AccessDenied}"
  using assms
  by (auto simp: ensureBucketAction_def loadBucketForAction_def loadBucket_def authorize_def andThen_def on_db_def
      split: prod.splits sum.splits option.splits if_splits)

lemma Open_blob:
  assumes wf: "engine_wf e" and b: "blob env e d p = Some c" and p: "canonical p" "split_on CHR ''/'' p \<noteq> []"
    and run: "Open env e p d = (res, d')"
  shows "res \<in> {Inr (File c), Inl ErrContext, Inl ErrIO}"
proof -
  from b obtain full where full: "resolveStoragePath env e p = Inr full" and f: "file_at d (path_comps full) = Some c"
    by (auto simp: blob_def split: sum.splits)
  have ne: "path_comps full \<noteq> []"
    by (rule canonical_comps [OF wf p(1), of env]) (use full p(2) in auto)
  have m: "map_of (files d) (path_comps full) = Some (File c)" using f by (simp add: file_at_Some)
  show ?thesis
    using ne m full run
    by (auto simp: Open_def Read_def ctx_err_def os_call_def os_Open_def Let_def is_dir_def
        split: prod.splits option.splits sum.splits if_splits)
qed

lemma missing_key_apart:
  assumes "r_Method r = ''GET''"
  shows "WriteS3Error r st c = WriteS3Error r 404 NoSuchKey \<longleftrightarrow> st = 404 \<and> c = NoSuchKey"
  using assms by (cases c) (auto simp: WriteS3Error_def WriteS3Error_msg_def)

lemma load_row:
  assumes x: "find_object b k (wtabs w) = Some x" and get: "r_Method r = ''GET''" and run: "loadObjectForRead h r b k w = (res, w')"
  shows "w_disk w' = w_disk w" and "case res of Inr y \<Rightarrow> y = x | Inl resp \<Rightarrow> resp \<noteq> WriteS3Error r 404 NoSuchKey"
proof -
  obtain e w1 where ens: "ensureBucketAction h r b ActionGetObject k [] w = (e, w1)" by fastforce
  obtain g s where q: "GetByKey (h_dbenv h) b k (w_db w1) = (g, s)" by fastforce
  have found: "g = Inr x \<or> g = Inl ErrDriver"
    using q x ensure_tabs(1) [OF ens] by (auto simp: GetByKey_def query_def sql_def split: if_splits)
  show "w_disk w' = w_disk w"
    using run ens q ensure_tabs(2) [OF ens]
    by (cases e) (auto simp: loadObjectForRead_def andThen_def on_db_def split: if_splits sum.splits)
  show "case res of Inr y \<Rightarrow> y = x | Inl resp \<Rightarrow> resp \<noteq> WriteS3Error r 404 NoSuchKey"
  proof (cases e)
    case (Inl resp)
    then have "res = Inl resp \<or> res = Inl (WriteS3Error r 400 InvalidRequest)"
      using run ens by (auto simp: loadObjectForRead_def andThen_def split: if_splits)
    with ensure_Inl [of h r b ActionGetObject k "[]" w resp w1] ens Inl show ?thesis by (auto simp: missing_key_apart [OF get])
  next
    case (Inr u)
    with run ens q found show ?thesis
      by (auto simp: loadObjectForRead_def andThen_def on_db_def missing_key_apart [OF get] split: if_splits)
  qed
qed

lemma handlePartNumber_frame:
  assumes "handlePartNumber r x w = (res, w')" and "r_Method r = ''GET''"
  shows "w' = w" and "res = Inl resp \<Longrightarrow> resp \<noteq> WriteS3Error r 404 NoSuchKey"
  using assms
  by (auto simp: handlePartNumber_def Let_def missing_key_apart WriteS3Error_def WriteS3Error_msg_def split: if_splits option.splits)

lemma disposition_frame:
  assumes "requestedResponseContentDisposition mok r w = (res, w')" and "r_Method r = ''GET''"
  shows "w' = w" and "res = Inl resp \<Longrightarrow> resp \<noteq> WriteS3Error r 404 NoSuchKey"
  using assms by (auto simp: requestedResponseContentDisposition_def missing_key_apart split: if_splits option.splits)

lemma GetObject_bytes:
  assumes wf: "handlers_wf h" and ok: "consistent h st" and hb: "holds_bytes h b k c (sw st)"
    and rt: "objectRouteParams r = (b, k)" and get: "r_Method r = ''GET''" and run: "GetObject mok h r (sw st) = (res, w')"
  shows "case res of Inr resp \<Rightarrow> status resp = 200 \<and> (\<exists>t. content resp = ServeContent k t c)
       | Inl resp \<Rightarrow> resp \<noteq> WriteS3Error r 404 NoSuchKey"
proof -
  from hb obtain x where x: "find_object b k (stabs st) = Some x" "blob (h_os h) (h_Storage h) (sdisk st) (o_StoragePath x) = Some c"
    by (auto simp: holds_bytes_def)
  note sok = ok [unfolded consistent_def]
  obtain cx where own: "own st (o_StoragePath x) = Some (RowOf (obj_key x), cx)"
    using store_okD(2) [OF sok, of x] find_objectD [OF x(1)] by (auto simp: row_held_def)
  have sh: "shape (RowOf (obj_key x)) (o_StoragePath x)"
    using store_okD(1) [OF sok own] by (simp add: holds_def del: shape.simps)
  have key: "o_Key x = k" using find_objectD [OF x(1)] by (simp add: obj_key_def)
  obtain l w1 where l: "loadObjectForRead h r b k (sw st) = (l, w1)" by fastforce
  note load = load_row [OF x(1) get l]
  show ?thesis
  proof (cases l)
    case (Inl resp)
    with load(2) run rt l show ?thesis by (auto simp: GetObject_def andThen_def)
  next
    case (Inr y)
    with load have y: "y = x" by simp
    obtain pn w2 where pn: "handlePartNumber r x w1 = (pn, w2)" by fastforce
    obtain dp w3 where dp: "requestedResponseContentDisposition mok r w2 = (dp, w3)" by fastforce
    have w: "w2 = w1" "w3 = w2" using handlePartNumber_frame(1) [OF pn get] disposition_frame(1) [OF dp get] by blast+
    obtain o1 d where op: "Open (h_os h) (h_Storage h) (o_StoragePath x) (w_disk w1) = (o1, d)" by fastforce
    have ne: "split_on CHR ''/'' (o_StoragePath x) \<noteq> []" by simp
    have "o1 \<in> {Inr (File c), Inl ErrContext, Inl ErrIO}"
      by (rule Open_blob [OF _ _ shape_canonical [OF sh] ne op]) (use wf x(2) load(1) in \<open>simp_all add: handlers_wf_def\<close>)
    with run rt l Inr y pn dp w op handlePartNumber_frame(2) [OF pn get] disposition_frame(2) [OF dp get] key show ?thesis
      by (auto simp: GetObject_def andThen_def serveObject_def on_disk_def os_call_def respond_def
          mapAuthenticatedStorageReadError_def missing_key_apart [OF get] split: sum.splits if_splits)
  qed
qed

section \<open>Ranges of a copied part\<close>

lemma row_opens:
  assumes wf: "handlers_wf h" and ok: "consistent h st" and x: "find_object b k (stabs st) = Some x"
  obtains c where "blob (h_os h) (h_Storage h) (sdisk st) (o_StoragePath x) = Some c" and "o_Size x = int (length c)"
    and "\<And>res d'. Open (h_os h) (h_Storage h) (o_StoragePath x) (sdisk st) = (res, d')
      \<Longrightarrow> res \<in> {Inr (File c), Inl ErrContext, Inl ErrIO}"
proof -
  note sok = ok [unfolded consistent_def] and D = find_objectD [OF x]
  from row_file [OF sok] D
  obtain c where c: "blob (h_os h) (h_Storage h) (sdisk st) (o_StoragePath x) = Some c" "o_Size x = int (length c)"
    and own: "own st (o_StoragePath x) = Some (RowOf (obj_key x), c)" by blast
  have sh: "shape (RowOf (obj_key x)) (o_StoragePath x)"
    using store_okD(1) [OF sok own] by (simp add: holds_def del: shape.simps)
  have ne: "split_on CHR ''/'' (o_StoragePath x) \<noteq> []" and e: "engine_wf (h_Storage h)"
    using wf by (simp_all add: handlers_wf_def)
  show ?thesis by (rule that [OF c]) (rule Open_blob [OF e c(1) shape_canonical [OF sh] ne])
qed

lemma limit_node_bytes:
  assumes "0 \<le> a" and "a \<le> b" and "b < int (length c)"
  shows "limit_node a (b - a + 1) (File c) = [(map (\<lambda>i. c ! nat i) [a..b], None)]"
proof -
  have "take (nat (b - a + 1)) (drop (nat a) c) = map (\<lambda>i. c ! nat i) [a..b]"
    using assms by (intro nth_equalityI) (auto simp: nat_add_distrib)
  then show ?thesis by (simp add: limit_node_def)
qed

lemma GetByKey_found: "find_object b k (tabs s) = Some x \<Longrightarrow> GetByKey env b k s = (res, s') \<Longrightarrow> res = Inr x \<or> res = Inl ErrDriver"
  by (auto simp: GetByKey_def query_def sql_def split: if_splits)

section \<open>Completed uploads\<close>

lemma holds_bytes_remove_parts:
  assumes wf: "handlers_wf h" and ok: "consistent h st" and hb: "holds_bytes h b k c (sw st)"
    and dead: "i \<in> dead st" and del: "deleteUploadParts h i (sw st) = (res, w')"
  shows "holds_bytes h b k c w'"
proof -
  from hb obtain x where x: "find_object b k (stabs st) = Some x" "blob (h_os h) (h_Storage h) (sdisk st) (o_StoragePath x) = Some c"
    by (auto simp: holds_bytes_def)
  note sok = ok [unfolded consistent_def]
  obtain cx where own: "own st (o_StoragePath x) = Some (RowOf (obj_key x), cx)"
    using store_okD(2) [OF sok, of x] find_objectD [OF x(1)] by (auto simp: row_held_def)
  have sh: "object_shape (o_StoragePath x)" using store_okD(1) [OF sok own] by (simp add: holds_def)
  have gi: "good_elem i"
    using store_okD(5) [OF sok, of i] dead wf used_id_good by (auto simp: handlers_wf_def)
  have apart: "\<not> prefix [''.tmp'', ''multipart'', i] (split_on CHR ''/'' (o_StoragePath x))"
    using sh by (auto simp: object_shape_def object_path_def length_Suc_conv numeral_2_eq_2)
  obtain e d where d: "DeleteUploadParts (h_os h) (h_Storage h) i (sdisk st) = (e, d)" by fastforce
  have "canonical (o_StoragePath x)" using sh by (simp add: object_shape_def object_path_def)
  then have "blob (h_os h) (h_Storage h) d (o_StoragePath x) = blob (h_os h) (h_Storage h) (sdisk st) (o_StoragePath x)"
    using DeleteUploadParts_law(2) [OF _ gi d] apart wf by (auto simp: handlers_wf_def)
  moreover have "w' = (sw st)\<lparr>w_disk := d\<rparr>"
    using del d by (auto simp: deleteUploadParts_def on_disk_def andThen_def ret_def)
  ultimately show ?thesis using x by (auto simp: holds_bytes_def)
qed

lemma unsettled_Inr [simp]: "unsettled m w = (Inr x, w') \<longleftrightarrow> m w = (Inr x, w')"
  by (auto simp: unsettled_def split: prod.splits sum.splits)

lemma settled_Inr [simp]: "settled m w = (Inr x, w') \<longleftrightarrow> m w = (Inr x, w')"
  by (auto simp: settled_def split: prod.splits sum.splits)

lemma with_claim_Inr [simp]: "with_claim h i m w = (Inr x, w') \<longleftrightarrow> m w = (Inr x, w')"
  by (auto simp: with_claim_def split: prod.splits sum.splits)

lemma assembleUpload_Inr:
  assumes "assembleUpload h r u ps w = (Inr x, w')"
  obtains d i where "AssembleParts (h_os h) (h_Storage h) (mu_BucketName u) (mu_Key u) (map mp_StoragePath ps) (w_disk w)
      = (Inr (o_StoragePath x, o_Size x), d)" and "newID h (w\<lparr>w_disk := d\<rparr>) = (Inr i, w')"
    and "o_BucketName x = mu_BucketName u" and "o_Key x = mu_Key u"
  using assms
  by (auto simp: assembleUpload_def on_disk_Inr h_now_def error_defs elim!: act_Inr split: sum.splits if_splits)

lemma complete_claimed_Inr:
  assumes "complete_claimed h r u i req w = (Inr x, w')"
  obtains qs s1 ps w2 old s3 w4 where "ListParts (h_dbenv h) i (w_db w) = (Inr qs, s1)"
    and "matchStoredParts req qs (minPartSize h) = Inr ps" and "assembleUpload h r u ps (w\<lparr>w_db := s1\<rparr>) = (Inr x, w2)"
    and "CompleteUpload (h_dbenv h) x i (header_Get r ''If-Match'') (header_Get r ''If-None-Match'') (w_db w2) = (Inr old, s3)"
    and "recordActivity h r ActivityCompleteMultipartUpload (o_BucketName x) (o_Key x) (o_Size x) (o_ETag x) (w2\<lparr>w_db := s3\<rparr>) = (Inr (), w4)"
    and "(if old \<noteq> [] \<and> old \<noteq> o_StoragePath x then deleteStoredFile h old else ret ()) w4 = (Inr (), w')"
  using assms
  by (auto simp: complete_claimed_def on_db_Inr writeCompleteUploadError_def writeCompletedPartsError_def elim!: act_Inr
      split: sum.splits if_splits)

lemma target_frame:
  assumes "multipartTarget h r act w = (Inr (b, k, i), w')"
  shows "wtabs w' = wtabs w" and "w_disk w' = w_disk w" and "objectRouteParams r = (b, k)" and "i = query_Get r ''uploadId''"
  using assms
  by (auto simp: multipartTarget_def Let_def elim!: act_Inr split: prod.splits if_splits dest: ensure_tabs)

lemma loadUpload_frame:
  assumes "loadUpload h r i b k w = (Inr u, w')"
  shows "wtabs w' = wtabs w" and "w_disk w' = w_disk w" and "mu_BucketName u = b" and "mu_Key u = k"
  using assms
  by (auto simp: loadUpload_def on_db_Inr elim!: act_Inr split: sum.splits if_splits dest: query_reads(3))

lemma claimUpload_frame:
  assumes "claimUpload h r i st w = (Inr u, w')"
  shows "w_disk w' = w_disk w" and "parts (wtabs w') = parts (wtabs w)"
proof -
  from assms obtain s where c: "ClaimUpload (h_dbenv h) i st (w_db w) = (Inr (), s)" and w': "w' = w\<lparr>w_db := s\<rparr>"
    by (auto simp: claimUpload_def on_db_Inr elim!: act_Inr split: sum.splits if_splits)
  from c have "in_tx (h_dbenv h) (claim_body (h_dbenv h) i st) (w_db w) = (Inr (), s)"
    by (auto simp: ClaimUpload_def split: if_splits)
  then obtain s1 s2 where t: "tabs s1 = wtabs w" "claim_body (h_dbenv h) i st s1 = (Inr (), s2)" "tabs s = tabs s2" by (rule in_tx_Inr)
  from claim_body_Inr [OF t(2)] t w' show "w_disk w' = w_disk w" "parts (wtabs w') = parts (wtabs w)" by auto
qed

lemma finish_upload_bytes:
  assumes wf: "handlers_wf h" and ok: "consistent h st" and own: "own st (o_StoragePath x) = Some (Fresh, c)"
    and sz: "o_Size x = int (length c)" and more: "next_uuid (sdisk st) < uuid_count (h_os h)"
    and co: "CompleteUpload (h_dbenv h) x i im inm (w_db (sw st)) = (Inr old, s)"
    and ra: "recordActivity h r act (o_BucketName x) (o_Key x) (o_Size x) (o_ETag x) ((sw st)\<lparr>w_db := s\<rparr>) = (Inr v, w4)"
    and dr: "(if old \<noteq> [] \<and> old \<noteq> o_StoragePath x then deleteStoredFile h old else ret ()) w4 = (Inr u, w')"
  shows "\<exists>st'. sw st' = w' \<and> consistent h st' \<and> i \<in> dead st' \<and> holds_bytes h (o_BucketName x) (o_Key x) c w'"
proof -
  have a: "A h (Suc 0) (insert (Wrote (o_StoragePath x) (o_Size x)) {}) st" using own sz more by (simp add: A_def)
  have "on_db (CompleteUpload (h_dbenv h) x i im inm) (sw st) = (Inr (Inr old), (sw st)\<lparr>w_db := s\<rparr>)" using co by (simp add: on_db_def)
  then obtain st1 where st1: "consistent h st1" "sw st1 = (sw st)\<lparr>w_db := s\<rparr>" "A h (Suc 0) ({Dead i} \<union> replaced old) st1"
    by (rule triple_run [OF wf triple_CompleteUpload [OF stable_simps(1)] ok a]) simp
  from ra [folded st1(2)] obtain st2 where st2: "consistent h st2" "sw st2 = w4" "A h 0 ({Dead i} \<union> replaced old) st2"
    by (rule triple_run [OF wf triple_recordActivity [OF wf] st1(1,3)])
  have X: "stable {Dead i}" by simp
  from dr [folded st2(2)] obtain st3 where st3: "consistent h st3" "sw st3 = w'" "A h 0 {Dead i} st3"
    by (rule triple_run [OF wf triple_drop_replaced [OF wf X] st2(1,3)])
  from co have "holds_bytes h (o_BucketName x) (o_Key x) c ((sw st)\<lparr>w_db := s\<rparr>)"
    by (rule CompleteUpload_effect) (rule published_bytes [OF wf ok own], auto simp: delete_upload_def)
  from holds_bytes_record [OF this ra] have hb: "holds_bytes h (o_BucketName x) (o_Key x) c (sw st2)" by (simp add: st2(2))
  have "A h 0 (replaced old) st2" using st2(3) by (rule A_mono) auto
  from holds_bytes_drop [OF wf st2(1) hb this dr [folded st2(2)]] st3 show ?thesis
    by (intro exI [where x = st3]) (simp add: A_def)
qed

lemma complete_claimed_bytes:
  assumes wf: "handlers_wf h" and ok: "consistent h st" and a: "A h (Suc (Suc (Suc (Suc 0)))) {} st" and b: "good_elem (mu_BucketName u)"
    and run: "complete_claimed h r u i req (sw st) = (Inr x, w')"
  shows "\<exists>ps st'. matchStoredParts req (sort_key mp_PartNumber (filter (\<lambda>q. mp_UploadID q = i) (parts (stabs st)))) (minPartSize h) = Inr ps
      \<and> sw st' = w' \<and> consistent h st' \<and> i \<in> dead st'
      \<and> holds_bytes h (mu_BucketName u) (mu_Key u) (concat (map (\<lambda>q. the (wblob h (sw st) (mp_StoragePath q))) ps)) w'"
  using run
proof (rule complete_claimed_Inr)
  fix qs s1 ps w2 old s3 w4
  assume lp: "ListParts (h_dbenv h) i (w_db (sw st)) = (Inr qs, s1)"
    and ma: "matchStoredParts req qs (minPartSize h) = Inr ps" and as: "assembleUpload h r u ps ((sw st)\<lparr>w_db := s1\<rparr>) = (Inr x, w2)"
    and co: "CompleteUpload (h_dbenv h) x i (header_Get r ''If-Match'') (header_Get r ''If-None-Match'') (w_db w2) = (Inr old, s3)"
    and ra: "recordActivity h r ActivityCompleteMultipartUpload (o_BucketName x) (o_Key x) (o_Size x) (o_ETag x) (w2\<lparr>w_db := s3\<rparr>) = (Inr (), w4)"
    and dr: "(if old \<noteq> [] \<and> old \<noteq> o_StoragePath x then deleteStoredFile h old else ret ()) w4 = (Inr (), w')"
  have "on_db (ListParts (h_dbenv h) i) (sw st) = (Inr (Inr qs), (sw st)\<lparr>w_db := s1\<rparr>)" using lp by (simp add: on_db_def)
  then obtain st1 where st1: "consistent h st1" "sw st1 = (sw st)\<lparr>w_db := s1\<rparr>" "A h (Suc (Suc (Suc (Suc 0)))) {} st1"
    and pp: "\<forall>ps q. Inr qs = (Inr ps :: MultipartPart list result) \<longrightarrow> q \<in> set ps \<longrightarrow> (\<exists>j. part_path j (mp_StoragePath q))"
    by (rule triple_run [OF wf triple_ListParts ok a]) (elim conjE)
  have sub: "set ps \<subseteq> set qs" by (rule matchStoredParts_subset [OF ma])
  have paths: "\<exists>j. part_path j p" if "p \<in> set (map mp_StoragePath ps)" for p using pp sub that by auto
  from as obtain d j where am: "AssembleParts (h_os h) (h_Storage h) (mu_BucketName u) (mu_Key u) (map mp_StoragePath ps) (sdisk st1)
      = (Inr (o_StoragePath x, o_Size x), d)" and nw: "newID h ((sw st1)\<lparr>w_disk := d\<rparr>) = (Inr j, w2)"
    and x: "o_BucketName x = mu_BucketName u" "o_Key x = mu_Key u"
    unfolding st1(2) [symmetric] by (rule assembleUpload_Inr)
  let ?c = "parts_bytes (h_os h) (h_Storage h) (map mp_StoragePath ps) (sdisk st1)"
  let ?st2 = "hold (o_StoragePath x) Fresh ?c (set_disk d st1)"
  have more: "next_uuid (sdisk st1) + 4 \<le> uuid_count (h_os h)" using st1(3) by (simp add: A_def)
  then have more2: "next_uuid (sdisk st1) + 2 \<le> uuid_count (h_os h)" by simp
  have ok2: "consistent h ?st2" and sz: "o_Size x = int (length ?c)"
    using assemble_ok(2) [OF _ _ st1(1) [unfolded consistent_def] b more2 am paths refl] wf by (auto simp: handlers_wf_def consistent_def)
  obtain d3 where d3: "new_uuid (h_os h) d = (j, d3)" "w2 = (sw st1)\<lparr>w_disk := d3\<rparr>" using nw by (auto simp: newID_def on_disk_Inr)
  let ?st3 = "(set_disk d3 ?st2)\<lparr>idents := insert j (idents ?st2)\<rparr>"
  have n3: "next_uuid d3 = Suc (next_uuid d)" "next_uuid d \<le> next_uuid (sdisk st1) + 2"
    using new_uuid_eq [OF d3(1)] AssembleParts_uuid [OF am] by auto
  have "store_step (h_os h) (h_Storage h) (h_dbenv h) ?st2 ?st3"
    by (rule store_step.draw) (use d3(1) n3 more in simp_all)
  then have ok3: "consistent h ?st3" using steps_ok [OF wf steps_one ok2] by blast
  have lt: "next_uuid (sdisk ?st3) < uuid_count (h_os h)" using n3 more by simp
  have own3: "own ?st3 (o_StoragePath x) = Some (Fresh, ?c)" and sw3: "sw ?st3 = w2" by (simp_all add: d3(2))
  have "\<exists>st'. sw st' = w' \<and> consistent h st' \<and> i \<in> dead st' \<and> holds_bytes h (o_BucketName x) (o_Key x) ?c w'"
    by (rule finish_upload_bytes [OF wf ok3 own3 sz lt _ ra [folded sw3] dr]) (use co sw3 in simp)
  moreover have "qs = sort_key mp_PartNumber (filter (\<lambda>q. mp_UploadID q = i) (parts (stabs st)))"
    using query_Inr [OF lp [unfolded ListParts_def]] by simp
  moreover have "?c = concat (map (\<lambda>q. the (wblob h (sw st) (mp_StoragePath q))) ps)"
  proof -
    have "\<forall>p\<in>set (map mp_StoragePath ps). blob (h_os h) (h_Storage h) (sdisk st1) p \<noteq> None"
      by (rule AssembleParts_present [OF _ _ am paths]) (use wf in \<open>simp_all add: handlers_wf_def\<close>)
    then have "(case blob (h_os h) (h_Storage h) (sdisk st1) (mp_StoragePath q) of Some c \<Rightarrow> c | None \<Rightarrow> [])
        = the (wblob h (sw st) (mp_StoragePath q))" if "q \<in> set ps" for q
      using that by (cases "blob (h_os h) (h_Storage h) (sdisk st1) (mp_StoragePath q)") (auto simp: st1(2))
    then show ?thesis by (simp add: parts_bytes_def comp_def cong: map_cong)
  qed
  ultimately show ?thesis using ma x by auto
qed

lemma CompleteMultipartUpload_Inr:
  assumes "CompleteMultipartUpload dec h r w = (Inr resp, w')"
  obtains b k i w1 u0 w2 u w3 payload want req w4 x w5 where "multipartTarget h r ActionPutObject w = (Inr (b, k, i), w1)"
    and "loadUpload h r i b k w1 = (Inr u0, w2)" and "loadUpload h r i b k w2 = (Inr u, w3)"
    and "ReadBody (h_hashes h) (2 * 1024 * 1024) r = Inr payload" and "dec payload = Some want"
    and "normalizeCompletedParts want = Inr req" and "claimUpload h r i StatusCompleting w3 = (Inr (), w4)"
    and "complete_claimed h r u i req w4 = (Inr x, w5)" and "deleteUploadParts h i w5 = (Inr (), w')"
  using assms
  by (auto simp: CompleteMultipartUpload_def lockUpload_def writeCompletedPartsError_def elim!: act_Inr
      split: sum.splits option.splits if_splits)

lemma CompleteMultipartUpload_bytes:
  assumes wf: "handlers_wf h" and ok: "consistent h st" and ids: "enough_ids h (sw st)"
    and rt: "objectRouteParams r = (b, k)" and run: "CompleteMultipartUpload dec h r (sw st) = (Inr resp, w')"
  shows "\<exists>payload want req ps. ReadBody (h_hashes h) (2 * 1024 * 1024) r = Inr payload \<and> dec payload = Some want
    \<and> normalizeCompletedParts want = Inr req
    \<and> matchStoredParts req (sort_key mp_PartNumber (filter (\<lambda>q. mp_UploadID q = query_Get r ''uploadId'') (parts (stabs st))))
        (minPartSize h) = Inr ps
    \<and> holds_bytes h b k (concat (map (\<lambda>q. the (wblob h (sw st) (mp_StoragePath q))) ps)) w'"
  using run
proof (rule CompleteMultipartUpload_Inr)
  fix b' k' i w1 u0 w2 u w3 payload want req w4 x w5
  assume mt: "multipartTarget h r ActionPutObject (sw st) = (Inr (b', k', i), w1)"
    and l1: "loadUpload h r i b' k' w1 = (Inr u0, w2)" and l2: "loadUpload h r i b' k' w2 = (Inr u, w3)"
    and rb: "ReadBody (h_hashes h) (2 * 1024 * 1024) r = Inr payload" "dec payload = Some want" "normalizeCompletedParts want = Inr req"
    and cl: "claimUpload h r i StatusCompleting w3 = (Inr (), w4)" and cc: "complete_claimed h r u i req w4 = (Inr x, w5)"
    and dp: "deleteUploadParts h i w5 = (Inr (), w')"
  let ?n = "Suc (Suc (Suc (Suc 0)))"
  have bk: "b' = b" "k' = k" using target_frame(3) [OF mt] rt by auto
  have a: "A h ?n {} st" using ids by (simp add: A_def enough_ids_def request_ids_def maxDeleteObjects_def)
  from mt obtain st1 where st1: "consistent h st1" "sw st1 = w1" "A h ?n {} st1" and b: "good_elem b'"
    by (rule triple_run [OF wf triple_multipartTarget [OF wf] ok a]) simp
  from l1 [folded st1(2)] obtain st2 where st2: "consistent h st2" "sw st2 = w2" "A h ?n {Known i} st2"
    by (rule triple_run [OF wf triple_loadUpload [OF wf] st1(1,3)]) simp
  from l2 [folded st2(2)] obtain st3 where st3: "consistent h st3" "sw st3 = w3" "A h ?n {Known i} st3"
    by (rule triple_run [OF wf triple_loadUpload [OF wf] st2(1,3)]) simp
  from cl [folded st3(2)] obtain st4 where st4: "consistent h st4" "sw st4 = w4" "A h ?n {Known i} st4"
    by (rule triple_run [OF wf triple_claimUpload [OF wf] st3(1,3)])
  have a4: "A h ?n {} st4" using st4(3) by (rule A_mono) auto
  have u: "mu_BucketName u = b" "mu_Key u = k" using loadUpload_frame(3,4) [OF l2] bk by simp_all
  have fr: "parts (wtabs w4) = parts (stabs st)" "w_disk w4 = sdisk st" "i = query_Get r ''uploadId''"
    using target_frame(1,2,4) [OF mt] loadUpload_frame(1,2) [OF l1] loadUpload_frame(1,2) [OF l2] claimUpload_frame [OF cl] by simp_all
  have "good_elem (mu_BucketName u)" using b bk u by simp
  from complete_claimed_bytes [OF wf st4(1) a4 this cc [folded st4(2)]] obtain ps st5 where
    ps: "matchStoredParts req (sort_key mp_PartNumber (filter (\<lambda>q. mp_UploadID q = i) (parts (stabs st4)))) (minPartSize h) = Inr ps"
    and st5: "sw st5 = w5" "consistent h st5" "i \<in> dead st5"
    and hb: "holds_bytes h b k (concat (map (\<lambda>q. the (wblob h (sw st4) (mp_StoragePath q))) ps)) w5"
    unfolding u by blast
  from holds_bytes_remove_parts [OF wf st5(2) hb [folded st5(1)] st5(3) dp [folded st5(1)]] ps rb fr st4(2)
  show ?thesis by auto
qed

section \<open>A sample server\<close>

fun increment :: "string \<Rightarrow> string" where
  "increment [] = []"
| "increment (c # cs) = (if c = CHR ''0'' then CHR ''1'' # cs else CHR ''0'' # increment cs)"

primrec wide_uuid :: "nat \<Rightarrow> string" where
  "wide_uuid 0 = ''000000000000000000000000000000000000''"
| "wide_uuid (Suc n) = increment (wide_uuid n)"

definition wide_env :: os_env where
  "wide_env = sample_env\<lparr>uuid_str := wide_uuid, uuid_count := 10000\<rparr>"

definition sample_server :: ObjectHandlers where
  "sample_server = \<lparr>h_os = wide_env, h_dbenv = sample_denv, h_Storage = sample_engine,
     h_hashes = \<lparr>h_md5 = take 16 \<circ> sample_hash, h_sha1 = take 20 \<circ> sample_hash, h_sha256 = sample_hash, h_crc32 = take 4 \<circ> sample_hash,
       h_crc32c = take 4 \<circ> sample_hash, h_crc64nvme = take 8 \<circ> sample_hash\<rparr>,
     h_S3CacheControl = [], h_MinPartSize = 1, h_PublicReadSigner = None\<rparr>"

definition empty_world :: world where
  "empty_world = \<lparr>w_disk = sample_disk, w_db = sample_db\<lparr>tabs := sample_tables\<lparr>objects := [], uploads := [], parts := []\<rparr>\<rparr>\<rparr>"

definition owner_principal :: Principal where
  "owner_principal = \<lparr>p_UserID = ''m'', p_DisplayName = ''m'', p_AccessKeyID = ''Km'', p_Role = RoleMember,
     p_DevMode = False, p_SignedHeaders = [], p_SignedPayloadHash = []\<rparr>"

definition object_request :: "string \<Rightarrow> string \<Rightarrow> url_values \<Rightarrow> string \<Rightarrow> request" where
  "object_request meth key q body = \<lparr>r_Method = meth, r_bucket = ''b'', r_rest = key, r_code = [], r_Query = q, r_Header = [],
     r_Body = [(body, None)], r_Principal = Some owner_principal, r_EscapedPath = [], r_Host = []\<rparr>"

definition sample_codecs :: codecs where
  "sample_codecs = \<lparr>media_type_ok = (\<lambda>s. True), ParseQuery = (\<lambda>s. Some []), decode_delete = (\<lambda>s. None),
     decode_complete = (\<lambda>s. Some [\<lparr>cp_PartNumber = 1, cp_ETag = s\<rparr>]), decode_bucket_config = (\<lambda>s. None)\<rparr>"

fun binary :: "string \<Rightarrow> nat" where
  "binary [] = 0"
| "binary (c # cs) = (if c = CHR ''1'' then 1 else 0) + 2 * binary cs"

lemma increment_shape: "length (increment s) = length s" "set (increment s) \<subseteq> insert CHR ''0'' (insert CHR ''1'' (set s))"
  by (induction s) auto

lemma increment_value:
  assumes "set s \<subseteq> {CHR ''0'', CHR ''1''}" and "Suc (binary s) < 2 ^ length s"
  shows "binary (increment s) = Suc (binary s)"
  using assms by (induction s) auto

lemma wide_uuid_shape: "length (wide_uuid n) = 36 \<and> set (wide_uuid n) \<subseteq> {CHR ''0'', CHR ''1''}"
proof (induction n)
  case (Suc n)
  with increment_shape [of "wide_uuid n"] show ?case by auto
qed simp

lemma wide_uuid_value: "n < 2 ^ 36 \<Longrightarrow> binary (wide_uuid n) = n"
proof (induction n)
  case (Suc n)
  then have n: "binary (wide_uuid n) = n" by simp
  have "binary (increment (wide_uuid n)) = Suc (binary (wide_uuid n))"
    by (rule increment_value) (use wide_uuid_shape [of n] Suc.prems n in simp_all)
  with n show ?case by simp
qed simp

lemma sample_server_wf: "handlers_wf sample_server"
proof -
  have lt: "n < 2 ^ 36" if "n < 10000" for n :: nat using that by (rule less_le_trans) simp
  have "inj_on wide_uuid {..<10000}"
    by (rule inj_on_inverseI [of _ binary]) (use wide_uuid_value lt in simp)
  moreover have "{CHR ''0'', CHR ''1''} \<subseteq> set ''0123456789abcdef-''" by simp
  then have "length (wide_uuid n) = 36 \<and> set (wide_uuid n) \<subseteq> set ''0123456789abcdef-''" for n
    using wide_uuid_shape [of n] by (meson subset_trans)
  ultimately have "uuid_wf wide_env" by (simp add: uuid_wf_def wide_env_def sample_env_def)
  then show ?thesis using sample_engine_wf by (simp add: handlers_wf_def sample_server_def)
qed

lemma empty_world_fresh: "fresh_world sample_server empty_world"
proof -
  have "ids_fresh wide_env sample_disk" by (auto simp: ids_fresh_def sample_disk_def file_at_def split: if_splits)
  moreover have "\<forall>b\<in>set (buckets sample_tables). good_elem (b_Name b)" by code_simp
  ultimately show ?thesis by (simp add: fresh_world_def empty_world_def sample_server_def sample_db_def)
qed

abbreviation put_abc :: request where "put_abc \<equiv> object_request ''PUT'' ''k'' [] ''abc''"
abbreviation get_k :: request where "get_k \<equiv> object_request ''GET'' ''k'' [] []"

abbreviation copy_bc :: request where
  "copy_bc \<equiv> (object_request ''PUT'' ''k'' [] [])\<lparr>r_Header := [(''x-amz-copy-source-range'', [''bytes=1-2''])]\<rparr>"

lemma sample_put_ok: "\<exists>resp w. PutObject sample_server put_abc empty_world = (Inr resp, w)"
proof -
  have "isl (fst (PutObject sample_server put_abc empty_world)) = False" by code_simp
  then show ?thesis by (cases "PutObject sample_server put_abc empty_world"; cases "fst (PutObject sample_server put_abc empty_world)") auto
qed

lemma sample_put_routed: "routed sample_codecs sample_server put_abc ObjectPattern (PutObject sample_server put_abc)"
  by (simp add: routed_def RegisterObjectRoutes_def DispatchObjectPut_def object_request_def has_def values_Has_def header_Get_def
      values_Get_def)

lemma sample_routes: "objectRouteParams put_abc = (''b'', ''k'')" "objectRouteParams get_k = (''b'', ''k'')" "r_Method get_k = ''GET''"
  by code_simp+

lemma empty_world_ids: "enough_ids sample_server empty_world"
  by (simp add: enough_ids_def sample_server_def empty_world_def sample_disk_def wide_env_def request_ids_def maxDeleteObjects_def)

section \<open>Properties of the running system\<close>

text \<open>
  The S3 side alone: whatever requests it has answered and whatever failed while it did, every
  object row and every part row of the database has its file on disk, of the recorded size.
\<close>

theorem rows_have_files:
  assumes "handlers_wf h" and "fresh_world h w0" and "serve C h w0 w"
  shows "(\<forall>x\<in>set (objects (tabs (w_db w))). \<exists>c. blob (h_os h) (h_Storage h) (w_disk w) (o_StoragePath x) = Some c
            \<and> o_Size x = int (length c))
    \<and> (\<forall>q\<in>set (parts (tabs (w_db w))). \<exists>c. blob (h_os h) (h_Storage h) (w_disk w) (mp_StoragePath q) = Some c
            \<and> mp_Size q = int (length c))"
proof -
  obtain st where st: "store_ok (h_os h) (h_Storage h) st" "sw st = w"
    using serve_consistent [OF assms] by (auto simp: consistent_def)
  show ?thesis unfolding st(2) [symmetric]
    by (intro conjI ballI; (rule row_file [OF st(1)] part_file [OF st(1)]), assumption) blast+
qed

theorem rows_have_files_witness:
  "\<exists>w. serve sample_codecs sample_server empty_world w \<and> objects (tabs (w_db w)) \<noteq> []
     \<and> (\<forall>x\<in>set (objects (tabs (w_db w))). \<exists>c. blob wide_env sample_engine (w_disk w) (o_StoragePath x) = Some c \<and> o_Size x = int (length c))"
proof -
  obtain resp w where w: "PutObject sample_server put_abc empty_world = (Inr resp, w)" using sample_put_ok by blast
  have run: "serve sample_codecs sample_server empty_world w"
    by (rule serve.request [OF serve.idle sample_put_routed empty_world_ids w])
  obtain st where st: "consistent sample_server st" "sw st = empty_world"
    using serve_consistent [OF sample_server_wf empty_world_fresh serve.idle] by blast
  have "holds_bytes sample_server ''b'' ''k'' (reader_bytes (r_Body put_abc)) w"
    by (rule PutObject_bytes [OF sample_server_wf st(1) _ _ w [folded st(2)]])
      (use st empty_world_ids sample_routes in simp_all)
  then have "objects (tabs (w_db w)) \<noteq> []" by (auto simp: holds_bytes_def find_object_def)
  with rows_have_files [OF sample_server_wf empty_world_fresh run] run show ?thesis
    by (auto simp: sample_server_def)
qed

text \<open>
  C2: read after write.  After a successful \<open>PutObject\<close>, a \<open>GetObject\<close> of the same key either
  serves exactly the bytes that were sent or fails for another reason; it never reports the key missing
  and never serves other bytes.
\<close>

theorem put_then_get:
  assumes "handlers_wf h" and "fresh_world h w0" and "serve C h w0 w" and "enough_ids h w"
    and "objectRouteParams put = (b, k)" and "objectRouteParams get = (b, k)" and "r_Method get = ''GET''"
    and "PutObject h put w = (Inr resp, w1)" and "GetObject mok h get w1 = (res, w2)"
  shows "case res of
           Inr answer \<Rightarrow> status answer = 200 \<and> (\<exists>t. content answer = ServeContent k t (reader_bytes (r_Body put)))
         | Inl answer \<Rightarrow> answer \<noteq> WriteS3Error get 404 NoSuchKey"
proof -
  obtain st where st: "consistent h st" "sw st = w" using serve_consistent [OF assms(1-3)] by blast
  have hb: "holds_bytes h b k (reader_bytes (r_Body put)) w1"
    by (rule PutObject_bytes [OF assms(1) st(1) _ assms(5)]) (use assms(4,8) st in simp_all)
  obtain st1 where st1: "consistent h st1" "sw st1 = w1"
    by (rule safe_run [OF assms(1) safe_handlers(1) [OF assms(1)] st(1)]) (use assms(4,8) st in \<open>simp_all add: enough_ids_def\<close>)
  show ?thesis
    by (rule GetObject_bytes [OF assms(1) st1(1) _ assms(6,7)]) (use hb assms(9) st1 in simp_all)
qed

theorem put_then_get_witness:
  "\<exists>resp w1. PutObject sample_server put_abc empty_world = (Inr resp, w1)
     \<and> (case fst (GetObject (\<lambda>s. True) sample_server get_k w1) of
           Inr answer \<Rightarrow> status answer = 200 \<and> (\<exists>t. content answer = ServeContent ''k'' t ''abc'')
         | Inl answer \<Rightarrow> answer \<noteq> WriteS3Error get_k 404 NoSuchKey)"
proof -
  obtain resp w1 where w: "PutObject sample_server put_abc empty_world = (Inr resp, w1)" using sample_put_ok by blast
  obtain res w2 where g: "GetObject (\<lambda>s. True) sample_server get_k w1 = (res, w2)" by fastforce
  have body: "reader_bytes (r_Body put_abc) = ''abc''" by (simp add: object_request_def)
  from put_then_get [OF sample_server_wf empty_world_fresh serve.idle empty_world_ids sample_routes w g] w g show ?thesis
    unfolding body by simp
qed

text \<open>
  C24: a part copy with a range takes exactly the bytes its header names.  For a stored source of \<open>c\<close>
  bytes and a header that names the bytes \<open>a\<close> to \<open>b\<close>, the reader \<open>openCopySource\<close> returns delivers the bytes at the
  positions \<open>a, a + 1, \<dots>, b\<close>, and it returns one only if these lie inside the source.  A header without two such
  numbers, with \<open>a > b\<close> or with \<open>a\<close> behind the end is answered with status 400, a range that runs over the end with
  416, and nothing but a failing query or disk with 500.
\<close>

theorem copy_range_exact:
  assumes "handlers_wf h" and "fresh_world h w0" and "serve C h w0 w"
    and "find_object (cs_bucketName source) (cs_key source) (tabs (w_db w)) = Some x"
    and "header_Get r ''x-amz-copy-source-range'' = hdr" and "hdr \<noteq> []" and "openCopySource h r source w = (res, w')"
  shows "\<exists>c. blob (h_os h) (h_Storage h) (w_disk w) (o_StoragePath x) = Some c \<and>
    (case res of
       Inr rd \<Rightarrow> \<exists>a b. range_text hdr a b \<and> 0 \<le> a \<and> a \<le> b \<and> b < int (length c) \<and> rd = [(map (\<lambda>i. c ! nat i) [a..b], None)]
     | Inl resp \<Rightarrow> status resp = 500
         \<or> status resp = 416 \<and> (\<exists>a b. range_text hdr a b \<and> 0 \<le> a \<and> a < int (length c) \<and> int (length c) \<le> b)
         \<or> status resp = 400 \<and> (\<nexists>a b. range_text hdr a b \<and> 0 \<le> a \<and> a \<le> b \<and> a < int (length c)))"
proof -
  obtain st where st: "consistent h st" "sw st = w" using serve_consistent [OF assms(1-3)] by blast
  obtain c where c: "blob (h_os h) (h_Storage h) (w_disk w) (o_StoragePath x) = Some c" "o_Size x = int (length c)"
    and op: "\<And>o1 d'. Open (h_os h) (h_Storage h) (o_StoragePath x) (w_disk w) = (o1, d')
      \<Longrightarrow> o1 \<in> {Inr (File c), Inl ErrContext, Inl ErrIO}"
    using row_opens [OF assms(1) st(1), of "cs_bucketName source" "cs_key source" x] assms(4) unfolding st(2) by blast
  obtain g s where g: "GetByKey (h_dbenv h) (cs_bucketName source) (cs_key source) (w_db w) = (g, s)" by fastforce
  obtain o1 d where o1: "Open (h_os h) (h_Storage h) (o_StoragePath x) (w_disk w) = (o1, d)" by fastforce
  note gs = GetByKey_found [OF assms(4) g] and os = op [OF o1]
  note spec = parseByteRange_spec [of hdr "int (length c)"]
  have err: "status (WriteS3Error r n code) = n" for n code
    by (simp add: WriteS3Error_def WriteS3Error_msg_def Let_def)
  note run = assms(7) [unfolded openCopySource_def andThen_def on_db_def on_disk_def g, simplified]
  show ?thesis
  proof (cases "g = Inr x \<and> o1 = Inr (File c)")
    case False
    then have "\<exists>code. res = Inl (WriteS3Error r 500 code)"
      using run o1 gs os by (auto split: if_splits)
    with c(1) err show ?thesis by auto
  next
    case True
    with run o1 assms(5,6) c(2) spec err limit_node_bytes [of _ _ c] show ?thesis
      unfolding c(1) by (auto simp: Let_def os_call_def split: sum.splits prod.splits if_splits)
  qed
qed

theorem copy_range_exact_witness:
  "\<exists>resp w w'. PutObject sample_server put_abc empty_world = (Inr resp, w)
     \<and> openCopySource sample_server copy_bc \<lparr>cs_bucketName = ''b'', cs_key = ''k'', cs_versionID = []\<rparr> w = (Inr [(''bc'', None)], w')"
proof -
  let ?src = "\<lparr>cs_bucketName = ''b'', cs_key = ''k'', cs_versionID = []\<rparr>"
  obtain resp w where w: "PutObject sample_server put_abc empty_world = (Inr resp, w)" using sample_put_ok by blast
  have run: "serve sample_codecs sample_server empty_world w"
    by (rule serve.request [OF serve.idle sample_put_routed empty_world_ids w])
  have "case PutObject sample_server put_abc empty_world of (u, w) \<Rightarrow> \<not> isl (fst (openCopySource sample_server copy_bc ?src w))"
    by code_simp
  then obtain rd w' where cp: "openCopySource sample_server copy_bc ?src w = (Inr rd, w')"
    unfolding w by (cases "openCopySource sample_server copy_bc ?src w"; cases "fst (openCopySource sample_server copy_bc ?src w)") auto
  have hdr: "header_Get copy_bc ''x-amz-copy-source-range'' = ''bytes=1-2''" by code_simp
  obtain st where st: "consistent sample_server st" "sw st = empty_world"
    using serve_consistent [OF sample_server_wf empty_world_fresh serve.idle] by blast
  have "holds_bytes sample_server ''b'' ''k'' (reader_bytes (r_Body put_abc)) w"
    by (rule PutObject_bytes [OF sample_server_wf st(1) _ sample_routes(1)]) (use empty_world_ids w st in simp_all)
  then obtain x where x: "find_object ''b'' ''k'' (tabs (w_db w)) = Some x" "wblob sample_server w (o_StoragePath x) = Some ''abc''"
    by (auto simp: holds_bytes_def object_request_def)
  have "''bytes='' @ Itoa 1 @ ''-'' @ Itoa 2 = ''bytes=1-2''" by code_simp
  then have t: "range_text ''bytes=1-2'' 1 2" using range_text_Itoa [of 1 2] by simp
  from copy_range_exact [OF sample_server_wf empty_world_fresh run _ hdr _ cp, of x] x
  obtain a b where ab: "range_text ''bytes=1-2'' a b" "rd = [(map (\<lambda>i. ''abc'' ! nat i) [a..b], None)]" by auto
  have "rd = [(map (\<lambda>i. ''abc'' ! nat i) [1..2], None)]" using range_text_unique [OF t ab(1)] ab(2) by simp
  also have "map (\<lambda>i. ''abc'' ! nat i) [1..2] = ''bc''" by code_simp
  finally show ?thesis using w cp by blast
qed

text \<open>
  C3: a completed upload is the concatenation of its parts.  After a successful
  \<open>CompleteMultipartUpload\<close> the key holds the bytes of stored parts of that upload, one for each part number the
  request names, in increasing part number order, each with the entity tag the request gives last for that number.
\<close>

theorem completed_upload_bytes:
  assumes "handlers_wf h" and "consistent h st" and "enough_ids h (sw st)"
    and "objectRouteParams r = (b, k)" and "CompleteMultipartUpload dec h r (sw st) = (Inr resp, w')"
  shows "\<exists>payload want ps. ReadBody (h_hashes h) (2 * 1024 * 1024) r = Inr payload \<and> dec payload = Some want \<and> ps \<noteq> []
    \<and> sorted_wrt (<) (map mp_PartNumber ps) \<and> set (map mp_PartNumber ps) = set (map cp_PartNumber want)
    \<and> (\<forall>q\<in>set ps. q \<in> set (parts (tabs (w_db (sw st)))) \<and> mp_UploadID q = query_Get r ''uploadId''
         \<and> (\<exists>e. last_entry want (mp_PartNumber q) = Some e \<and> etagMatches (cp_ETag e) (mp_ETag q)))
    \<and> holds_bytes h b k (concat (map (\<lambda>q. the (blob (h_os h) (h_Storage h) (w_disk (sw st)) (mp_StoragePath q))) ps)) w'"
proof -
  from CompleteMultipartUpload_bytes [OF assms] obtain payload want req ps where
    rb: "ReadBody (h_hashes h) (2 * 1024 * 1024) r = Inr payload" "dec payload = Some want"
    and n: "normalizeCompletedParts want = Inr req"
    and m: "matchStoredParts req (sort_key mp_PartNumber (filter (\<lambda>q. mp_UploadID q = query_Get r ''uploadId'') (parts (stabs st)))) (minPartSize h) = Inr ps"
    and hb: "holds_bytes h b k (concat (map (\<lambda>q. the (wblob h (sw st) (mp_StoragePath q))) ps)) w'" by blast
  note ns = normalize_spec [OF n] and ms = matchStoredParts_spec(1) [OF m]
  have len: "length ps = length req" using list_all2_lengthD [OF ms] by simp
  have nums: "map mp_PartNumber ps = map cp_PartNumber req"
    using ms len by (intro nth_equalityI) (auto simp: list_all2_conv_all_nth)
  have "q \<in> set (parts (stabs st)) \<and> mp_UploadID q = query_Get r ''uploadId''
      \<and> (\<exists>e. last_entry want (mp_PartNumber q) = Some e \<and> etagMatches (cp_ETag e) (mp_ETag q))" if "q \<in> set ps" for q
  proof -
    from that obtain l where l: "l < length ps" "q = ps ! l" by (auto simp: in_set_conv_nth)
    with ms len have "q \<in> set (parts (stabs st))" "mp_UploadID q = query_Get r ''uploadId''" "mp_PartNumber q = cp_PartNumber (req ! l)"
        "etagMatches (cp_ETag (req ! l)) (mp_ETag q)" by (auto simp: list_all2_conv_all_nth)
    with ns(4) l len show ?thesis by (metis nth_mem)
  qed
  moreover have "ps \<noteq> []" using ns(1) len by auto
  ultimately show ?thesis using rb hb ns(2,3) nums
    by (intro exI [of _ payload] exI [of _ want] exI [of _ ps] conjI) simp_all
qed

definition part_row :: MultipartPart where
  "part_row = \<lparr>mp_UploadID = wide_uuid 0, mp_PartNumber = 1, mp_Size = 3, mp_ETag = hex_Encode (take 16 (sample_hash ''abc'')),
     mp_StoragePath = ''.tmp/multipart/'' @ wide_uuid 0 @ ''/1.tmp-'' @ wide_uuid 1, mp_CreatedAt = 1, mp_Checksums = no_checksums\<rparr>"

definition upload_store :: store where
  "upload_store = \<lparr>sw = \<lparr>w_disk = \<lparr>files = files sample_disk @ [([''srv'', ''data'', ''.tmp'', ''multipart''], Dir),
         ([''srv'', ''data'', ''.tmp'', ''multipart'', wide_uuid 0], Dir),
         ([''srv'', ''data'', ''.tmp'', ''multipart'', wide_uuid 0, ''1.tmp-'' @ wide_uuid 1], File ''abc'')], io_tick = 0, next_uuid = 2\<rparr>,
       w_db = sample_db\<lparr>tabs := sample_tables\<lparr>objects := [], uploads := [sample_upload (wide_uuid 0)], parts := [part_row]\<rparr>\<rparr>\<rparr>,
     own = [mp_StoragePath part_row \<mapsto> (PartOf (part_key part_row), ''abc'')], idents = {}, dead = {}\<rparr>"

abbreviation complete_k :: request where
  "complete_k \<equiv> object_request ''POST'' ''k'' [(''uploadId'', [wide_uuid 0])] (hex_Encode (take 16 (sample_hash ''abc'')))"

lemma complete_body: "ReadBody (h_hashes sample_server) (2 * 1024 * 1024) complete_k = Inr (hex_Encode (take 16 (sample_hash ''abc'')))"
proof -
  have "length (hex_Encode (take 16 (sample_hash ''abc''))) = 32" by code_simp
  then show ?thesis
    by (simp add: ReadBody_def bindr_def object_request_def signedPayloadHash_def owner_principal_def Let_def)
qed

lemma sample_complete_ok: "isl (fst (CompleteMultipartUpload (decode_complete sample_codecs) sample_server complete_k (sw upload_store))) = False"
  unfolding CompleteMultipartUpload_def complete_body sum.case by code_simp

lemma part_row_path: "part_path (wide_uuid 0) (mp_StoragePath part_row)"
proof -
  have "split_on CHR ''/'' (mp_StoragePath part_row) = [''.tmp'', ''multipart'', wide_uuid 0, ''1.tmp-'' @ wide_uuid 1]" by code_simp
  moreover have "canonical (mp_StoragePath part_row)" by code_simp
  ultimately show ?thesis by (simp add: part_path_def)
qed

lemma part_row_blob: "blob wide_env sample_engine (w_disk (sw upload_store)) (mp_StoragePath part_row) = Some ''abc''"
  by code_simp

lemma suffix_same_length: "suffix u (p @ v) \<Longrightarrow> length u = length v \<Longrightarrow> u = v"
  by (auto simp: suffix_def dest: append_eq_append_conv [THEN iffD1, rotated])

lemma wide_not_carried:
  assumes "2 \<le> n" shows "\<not> carries wide_env n (''1.tmp-'' @ wide_uuid 1)"
proof
  assume "carries wide_env n (''1.tmp-'' @ wide_uuid 1)"
  then have n: "n < 10000" and suf: "suffix (wide_uuid n) (TrimSuffix (''1.tmp-'' @ wide_uuid 1) ''.tmp'')"
    by (simp_all add: carries_def wide_env_def)
  have "TrimSuffix (''1.tmp-'' @ wide_uuid 1) ''.tmp'' = ''1.tmp-'' @ wide_uuid 1" by code_simp
  with suf have "suffix (wide_uuid n) (''1.tmp-'' @ wide_uuid 1)" by (simp only:)
  then have "wide_uuid n = wide_uuid 1"
    by (rule suffix_same_length) (use wide_uuid_shape [of n] wide_uuid_shape [of 1] in linarith)
  then have "binary (wide_uuid n) = binary (wide_uuid 1)" by simp
  moreover have "n < 2 ^ 36" using n by (rule less_le_trans) simp
  ultimately have "n = 1" using wide_uuid_value [of n] wide_uuid_value [of 1] by simp
  with assms show False by simp
qed

lemma upload_store_consistent: "consistent sample_server upload_store"
proof -
  let ?p = "mp_StoragePath part_row" and ?d = "w_disk (sw upload_store)"
  have d: "next_uuid ?d = 2" "own upload_store = [?p \<mapsto> (PartOf (part_key part_row), ''abc'')]"
      "idents upload_store = {}" "dead upload_store = {}"
    and t: "objects (stabs upload_store) = []" "parts (stabs upload_store) = [part_row]" "upload_ids (stabs upload_store) = {wide_uuid 0}"
      "buckets (stabs upload_store) = buckets sample_tables"
    by (simp_all add: upload_store_def upload_ids_def sample_upload_def)
  have k: "part_key part_row = (wide_uuid 0, 1)" "mp_UploadID part_row = wide_uuid 0" "mp_Size part_row = 3"
    by (simp_all add: part_key_def part_row_def)
  have "file_at ?d q = None \<or> last q = ''1.tmp-'' @ wide_uuid 1" for q
    by (auto simp: upload_store_def sample_disk_def file_at_def simp del: wide_uuid.simps split: if_splits)
  then have fresh: "ids_fresh wide_env ?d" unfolding ids_fresh_def d(1) using wide_not_carried by metis
  have "last (split_on CHR ''/'' ?p) = ''1.tmp-'' @ wide_uuid 1" by code_simp
  then have "path_used wide_env ?d ?p" unfolding path_used_def d(1) using wide_not_carried by simp
  with part_row_path part_row_blob have "holds wide_env sample_engine ?d {} ?p (PartOf (part_key part_row), ''abc'')"
    by (simp add: holds_def k(1))
  with fresh have 1: "disk_ok wide_env sample_engine upload_store" unfolding disk_ok_def d by (auto split: if_splits)
  have "\<forall>b\<in>set (buckets sample_tables). good_elem (b_Name b)" by code_simp
  then have 2: "rows_ok upload_store" unfolding rows_ok_def t d by (simp add: part_held_def k)
  have "used_id wide_env ?d (wide_uuid 0)"
    unfolding used_id_def d(1) by (intro exI [of _ 0]) (simp add: wide_env_def del: wide_uuid.simps)
  then have 3: "uploads_known wide_env upload_store" unfolding uploads_known_def t d by simp
  show ?thesis using 1 2 3 by (simp add: consistent_def store_ok_def sample_server_def)
qed

theorem completed_upload_bytes_witness:
  "\<exists>resp w'. CompleteMultipartUpload (decode_complete sample_codecs) sample_server complete_k (sw upload_store) = (Inr resp, w')
     \<and> (\<exists>x. find_object ''b'' ''k'' (tabs (w_db w')) = Some x \<and> blob wide_env sample_engine (w_disk w') (o_StoragePath x) = Some ''abc'')"
proof -
  obtain resp w' where run: "CompleteMultipartUpload (decode_complete sample_codecs) sample_server complete_k (sw upload_store) = (Inr resp, w')"
    using sample_complete_ok by (cases "CompleteMultipartUpload (decode_complete sample_codecs) sample_server complete_k (sw upload_store)";
      cases "fst (CompleteMultipartUpload (decode_complete sample_codecs) sample_server complete_k (sw upload_store))") auto
  have ids: "enough_ids sample_server (sw upload_store)"
    by (simp add: enough_ids_def sample_server_def upload_store_def wide_env_def request_ids_def maxDeleteObjects_def)
  have rt: "objectRouteParams complete_k = (''b'', ''k'')" by code_simp
  from completed_upload_bytes [OF sample_server_wf upload_store_consistent ids rt run]
  obtain ps where ps: "ps \<noteq> []" "sorted_wrt (<) (map mp_PartNumber ps)" "\<forall>q\<in>set ps. q \<in> set (parts (stabs upload_store))"
    and hb: "holds_bytes sample_server ''b'' ''k'' (concat (map (\<lambda>q. the (blob (h_os sample_server) (h_Storage sample_server)
      (w_disk (sw upload_store)) (mp_StoragePath q))) ps)) w'" by blast
  have "set ps \<subseteq> {part_row}" using ps(3) by (auto simp: upload_store_def)
  moreover have "distinct ps" using ps(2) by (simp add: strict_sorted_iff distinct_map)
  ultimately have "ps = [part_row]" using ps(1) by (cases ps rule: list.exhaust; cases "tl ps") auto
  with hb part_row_blob run show ?thesis by (auto simp: holds_bytes_def sample_server_def)
qed

end
