(* ===== verification/ManagementTypes.thy ===== *)
theory ManagementTypes
  imports Config S3Buckets
begin

text \<open>
  What the management and setup handlers share: JSON bodies (\<open>internal/http/request_body.go\<close>,
  \<open>internal/management/request_fields.go\<close>), the documents they answer with (\<open>dto.go\<close> of both packages) and the
  writers of responses (\<open>responses.go\<close>).  The JSON text of a value is not modelled: the decoder that reads the next
  value of a text is the parameter \<open>next\<close>, and a response carries the value that is encoded.
\<close>

section \<open>JSON values and \<open>encoding/json\<close>\<close>

datatype json =
    JNull | JBool bool | JNumber string | JString string | JArray "json list" | JObject "(string \<times> json) list"

text \<open>What \<open>Decoder.Decode\<close> finds next: the end of the text, a syntax error, or a value and the text after it.\<close>

datatype json_read = JEOF | JSyntaxError | JValue json bytes

text \<open>
  Decoding into a struct.  A member is matched with the field of its name, or else with a field whose name folds to
  the same; \<open>null\<close> leaves a string unchanged; a later member of the same name overwrites.  A field is its name and how a
  value is stored in it, None the error of a value of the wrong type.
\<close>

fun json_fold :: "string \<Rightarrow> string" where
  "json_fold [] = []"
| "json_fold (c # cs) =
     (if c = CHR 0xE2 \<and> prefix [CHR 0x84, CHR 0xAA] cs then CHR ''K'' # json_fold (drop 2 cs)
      else if c = CHR 0xC5 \<and> prefix [CHR 0xBF] cs then CHR ''S'' # json_fold (drop 1 cs)
      else upper_char c # json_fold cs)"

type_synonym 's field = "string \<times> (json \<Rightarrow> 's \<Rightarrow> 's option)"

definition field_for :: "'s field list \<Rightarrow> string \<Rightarrow> (json \<Rightarrow> 's \<Rightarrow> 's option) option" where
  "field_for fs name =
     (case find (\<lambda>f. fst f = name) fs of
        Some f \<Rightarrow> Some (snd f)
      | None \<Rightarrow> map_option snd (find (\<lambda>f. json_fold (fst f) = json_fold name) fs))"

fun decode_members :: "'s field list \<Rightarrow> bool \<Rightarrow> (string \<times> json) list \<Rightarrow> 's \<Rightarrow> 's option" where
  "decode_members fs rejectUnknown [] s = Some s"
| "decode_members fs rejectUnknown ((name, v) # ms) s =
     (case field_for fs name of
        None \<Rightarrow> if rejectUnknown then None else decode_members fs rejectUnknown ms s
      | Some store \<Rightarrow> (case store v s of None \<Rightarrow> None | Some s1 \<Rightarrow> decode_members fs rejectUnknown ms s1))"

definition decode_struct :: "'s field list \<Rightarrow> bool \<Rightarrow> 's \<Rightarrow> json \<Rightarrow> 's option" where
  "decode_struct fs rejectUnknown s v =
     (case v of JNull \<Rightarrow> Some s | JObject ms \<Rightarrow> decode_members fs rejectUnknown ms s | _ \<Rightarrow> None)"

definition string_field :: "(string \<Rightarrow> 's \<Rightarrow> 's) \<Rightarrow> json \<Rightarrow> 's \<Rightarrow> 's option" where
  "string_field put v s = (case v of JString x \<Rightarrow> Some (put x s) | JNull \<Rightarrow> Some s | _ \<Rightarrow> None)"

definition int64_ptr_field :: "(int option \<Rightarrow> 's \<Rightarrow> 's) \<Rightarrow> json \<Rightarrow> 's \<Rightarrow> 's option" where
  "int64_ptr_field put v s =
     (case v of
        JNumber x \<Rightarrow> map_option (\<lambda>n. put (Some n) s) (ParseInt x)
      | JNull \<Rightarrow> Some (put None s)
      | _ \<Rightarrow> None)"

definition strings_field :: "(string list \<Rightarrow> 's \<Rightarrow> 's) \<Rightarrow> json \<Rightarrow> 's \<Rightarrow> 's option" where
  "strings_field put v s =
     (case v of
        JArray xs \<Rightarrow>
          if list_all (\<lambda>x. case x of JString t \<Rightarrow> True | JNull \<Rightarrow> True | _ \<Rightarrow> False) xs
          then Some (put (map (\<lambda>x. case x of JString t \<Rightarrow> t | _ \<Rightarrow> []) xs) s) else None
      | JNull \<Rightarrow> Some (put [] s)
      | _ \<Rightarrow> None)"

text \<open>
  Decoding into \<open>map[string]json.RawMessage\<close>: the members, the last of a name first, so that \<^const>\<open>map_of\<close> finds it.
\<close>

definition raw_fields :: "json \<Rightarrow> (string \<times> json) list option" where
  "raw_fields v = (case v of JNull \<Rightarrow> Some [] | JObject ms \<Rightarrow> Some (rev ms) | _ \<Rightarrow> None)"

section \<open>\<open>request_body.go\<close>\<close>

definition MaxJSONBodyBytes :: nat where "MaxJSONBodyBytes = 2 ^ 20"

definition DecodeJSONBody ::
  "(bytes \<Rightarrow> json_read) \<Rightarrow> hashes \<Rightarrow> (json \<Rightarrow> 'a option) \<Rightarrow> 'a option \<Rightarrow> request \<Rightarrow> 'a result" where
  "DecodeJSONBody next H unmarshal allowEmpty r =
     bindr (ReadBody H MaxJSONBodyBytes r) (\<lambda>payload.
       case next payload of
         JEOF \<Rightarrow> (case allowEmpty of Some zero \<Rightarrow> Inr zero | None \<Rightarrow> Inl ErrMalformed)
       | JSyntaxError \<Rightarrow> Inl ErrMalformed
       | JValue v rest \<Rightarrow>
           (case unmarshal v of
              None \<Rightarrow> Inl ErrMalformed
            | Some x \<Rightarrow> (case next rest of JEOF \<Rightarrow> Inr x | _ \<Rightarrow> Inl ErrMalformed)))"

section \<open>Documents\<close>

record bucketSummaryResponse =
  bs_Name :: string
  bs_OwnerID :: string
  bs_CreatedAt :: string
  bs_ObjectCount :: int
  bs_TotalObjectBytes :: int

record objectSummaryResponse =
  os_Key :: string
  os_Size :: int
  os_ETag :: string
  os_ContentType :: string
  os_CreatedAt :: string
  os_UpdatedAt :: string

record listObjectsResponse =
  lo_Bucket :: string
  lo_Prefix :: string
  lo_Delimiter :: string
  lo_Limit :: int
  lo_IsTruncated :: bool
  lo_NextCursor :: string
  lo_Objects :: "objectSummaryResponse list"
  lo_CommonPrefixes :: "string list"

record objectDetail =
  od_Key :: string
  od_Bucket :: string
  od_Size :: int
  od_ETag :: string
  od_ContentType :: string
  od_CreatedAt :: string
  od_UpdatedAt :: string

record publicObjectURLResponse =
  pu_URL :: string
  pu_ExpiresAt :: string
  pu_CacheControl :: string

record keyResponse =
  kr_ID :: string
  kr_DisplayName :: string
  kr_AccessKeyID :: string
  kr_SigV4AccessKeyID :: string
  kr_Role :: Role
  kr_IsActive :: bool
  kr_CreatedAt :: string
  kr_UpdatedAt :: string

record createKeyResponse =
  ck_Key :: keyResponse
  ck_BearerToken :: string
  ck_SigV4 :: SigV4Credentials

record activityItemResponse =
  ai_ID :: string
  ai_Action :: string
  ai_Bucket :: string
  ai_Key :: string
  ai_Size :: int
  ai_ETag :: string
  ai_ActorUserID :: string
  ai_CreatedAt :: string

record configResponse =
  cr_Region :: string
  cr_DevMode :: bool
  cr_PublicBaseURL :: string
  cr_S3MaxKeys :: int
  cr_S3DeleteObjects :: int
  cr_ManagementObjectListLimit :: int
  cr_ManagementActivityLimit :: int

record grantResponse =
  ge_ID :: string
  ge_Bucket :: string
  ge_GranteeUserID :: string
  ge_Action :: Action
  ge_KeyPrefix :: string
  ge_IsActive :: bool
  ge_CreatedBy :: string
  ge_Note :: string
  ge_CreatedAt :: string
  ge_UpdatedAt :: string

record shareLinkResponse =
  lr_Code :: string
  lr_URL :: string
  lr_Bucket :: string
  lr_Key :: string
  lr_ResponseContentDisposition :: string
  lr_CreatedBy :: string
  lr_ExpiresAt :: "string option"
  lr_CreatedAt :: string

record endpointURLs =
  managementURL :: string
  s3URL :: string

text \<open>The payload of a response; the last three are those of the setup and health endpoints.\<close>

datatype payload =
    NoPayload
  | ErrorEnvelope string string
  | MetricsPayload ManagementMetrics
  | BucketsPayload "bucketSummaryResponse list"
  | BucketPayload bucketSummaryResponse
  | ObjectsPayload listObjectsResponse
  | ObjectPayload objectDetail
  | PublicURLPayload publicObjectURLResponse
  | KeysPayload "keyResponse list"
  | KeyPayload keyResponse
  | CreatedKeyPayload createKeyResponse
  | ActivityPayload "activityItemResponse list"
  | ConfigPayload configResponse
  | GrantsPayload "grantResponse list"
  | GrantPayload grantResponse
  | TransferPayload bucketSummaryResponse string
  | ShareLinkPayload shareLinkResponse
  | ShareLinksPayload "shareLinkResponse list"
  | SetupStatusPayload bool string endpointURLs
  | BootstrapPayload createKeyResponse string endpointURLs
  | StatusPayload string

record mresponse =
  ms_status :: int
  ms_headers :: "(string \<times> string) list"
  ms_payload :: payload

section \<open>Writers\<close>

definition WithNoStore :: "(string \<times> string) list" where
  "WithNoStore = [(''Cache-Control'', ''no-store''), (''Pragma'', ''no-cache'')]"

definition WriteJSON :: "int \<Rightarrow> payload \<Rightarrow> (string \<times> string) list \<Rightarrow> mresponse" where
  "WriteJSON st p options =
     \<lparr>ms_status = st, ms_headers = (''Content-Type'', ''application/json; charset=utf-8'') # options, ms_payload = p\<rparr>"

definition writeJSON :: "int \<Rightarrow> payload \<Rightarrow> mresponse" where
  "writeJSON st p = WriteJSON st p WithNoStore"

definition writeError :: "int \<Rightarrow> string \<Rightarrow> string \<Rightarrow> mresponse" where
  "writeError st code msg = writeJSON st (ErrorEnvelope code msg)"

definition errorCodeInvalidRequest :: string where "errorCodeInvalidRequest = ''invalid_request''"
definition errorCodeNotFound :: string where "errorCodeNotFound = ''not_found''"
definition errorCodeUnauthorized :: string where "errorCodeUnauthorized = ''unauthorized''"
definition errorCodeForbidden :: string where "errorCodeForbidden = ''forbidden''"
definition errorCodeInternal :: string where "errorCodeInternal = ''internal_error''"
definition errorCodeConflict :: string where "errorCodeConflict = ''conflict''"

definition internalError :: "string \<Rightarrow> mresponse" where
  "internalError msg = writeError 500 errorCodeInternal msg"

definition badRequest :: "string \<Rightarrow> mresponse" where
  "badRequest msg = writeError 400 errorCodeInvalidRequest msg"

definition notFound :: "string \<Rightarrow> mresponse" where
  "notFound msg = writeError 404 errorCodeNotFound msg"

text \<open>\<open>setNoStoreHeaders\<close> and status 204.\<close>

definition noContent :: mresponse where
  "noContent = \<lparr>ms_status = 204, ms_headers = WithNoStore, ms_payload = NoPayload\<rparr>"

definition WriteAuthError :: "request \<Rightarrow> auth_error \<Rightarrow> mresponse" where
  "WriteAuthError r err =
     (if err = ErrMissingAuth then
        (let resp = writeError 401 errorCodeUnauthorized ''authentication required'' in
         resp\<lparr>ms_headers := (''WWW-Authenticate'', ''Bearer realm='' @ [CHR 0x22] @ ''fbs'' @ [CHR 0x22]) # ms_headers resp\<rparr>)
      else if err = ErrInactiveUser \<or> err = ErrForbidden then writeError 403 errorCodeForbidden ''admin role required''
      else if err = ErrInternal then writeError 500 errorCodeInternal ''authentication failed''
      else writeError 401 errorCodeUnauthorized ''invalid credentials'')"

text \<open>\<open>time.RFC3339\<close> in UTC.\<close>

definition formatTime :: "time \<Rightarrow> string" where
  "formatTime t =
     (let secs = local_seconds (UTC t); sod = secs mod 86400 in
      case civil (secs div 86400) of
        (y, m, d) \<Rightarrow> appendInt 4 y @ ''-'' @ appendInt 2 m @ ''-'' @ appendInt 2 d @ ''T'' @ appendInt 2 (sod div 3600)
           @ '':'' @ appendInt 2 (sod mod 3600 div 60) @ '':'' @ appendInt 2 (sod mod 60) @ ''Z'')"

section \<open>Documents of rows\<close>

definition bucketSummaryDTO :: "BucketSummary \<Rightarrow> bucketSummaryResponse" where
  "bucketSummaryDTO s =
     \<lparr>bs_Name = s_Name s, bs_OwnerID = s_OwnerID s, bs_CreatedAt = formatTime (s_CreatedAt s),
      bs_ObjectCount = s_ObjectCount s, bs_TotalObjectBytes = s_TotalObjectBytes s\<rparr>"

definition objectSummaryDTO :: "Object \<Rightarrow> objectSummaryResponse" where
  "objectSummaryDTO obj =
     \<lparr>os_Key = o_Key obj, os_Size = o_Size obj, os_ETag = o_ETag obj, os_ContentType = o_ContentType obj,
      os_CreatedAt = formatTime (o_CreatedAt obj), os_UpdatedAt = formatTime (o_UpdatedAt obj)\<rparr>"

definition objectDetailDTO :: "Object \<Rightarrow> objectDetail" where
  "objectDetailDTO obj =
     \<lparr>od_Key = o_Key obj, od_Bucket = o_BucketName obj, od_Size = o_Size obj, od_ETag = o_ETag obj,
      od_ContentType = o_ContentType obj, od_CreatedAt = formatTime (o_CreatedAt obj),
      od_UpdatedAt = formatTime (o_UpdatedAt obj)\<rparr>"

definition keyDTO :: "User \<Rightarrow> keyResponse" where
  "keyDTO u =
     \<lparr>kr_ID = u_ID u, kr_DisplayName = u_DisplayName u, kr_AccessKeyID = u_AccessKeyID u,
      kr_SigV4AccessKeyID = u_SigV4AccessKeyID u, kr_Role = u_Role u, kr_IsActive = u_IsActive u,
      kr_CreatedAt = formatTime (u_CreatedAt u), kr_UpdatedAt = formatTime (u_UpdatedAt u)\<rparr>"

definition activityDTO :: "ObjectActivity \<Rightarrow> activityItemResponse" where
  "activityDTO a =
     \<lparr>ai_ID = oa_ID a, ai_Action = oa_Action a, ai_Bucket = oa_BucketName a, ai_Key = oa_ObjectKey a, ai_Size = oa_Size a,
      ai_ETag = oa_ETag a, ai_ActorUserID = oa_ActorUserID a, ai_CreatedAt = formatTime (oa_CreatedAt a)\<rparr>"

definition grantDTO :: "Grant \<Rightarrow> grantResponse" where
  "grantDTO g =
     \<lparr>ge_ID = gr_ID g, ge_Bucket = gr_BucketName g, ge_GranteeUserID = gr_GranteeUserID g, ge_Action = gr_Action g,
      ge_KeyPrefix = gr_KeyPrefix g, ge_IsActive = gr_IsActive g, ge_CreatedBy = gr_CreatedBy g, ge_Note = gr_Note g,
      ge_CreatedAt = formatTime (gr_CreatedAt g), ge_UpdatedAt = formatTime (gr_UpdatedAt g)\<rparr>"

section \<open>Handlers and requests\<close>

text \<open>
  The management handlers as the server wires them, with the environment they run in: the random draws of a new key and
  of the \<open>i\<close>-th generated share code, and the two parsers of the Go library.  A request adds the remaining URL
  parameters, the connection and the peer.
\<close>

record Handlers =
  m_os :: os_env
  m_dbenv :: db_env
  m_Activity :: bool
  m_Storage :: "engine option"
  m_Config :: Config
  m_PublicReadSigner :: "Signer option"
  m_hashes :: hashes
  m_json :: "bytes \<Rightarrow> json_read"
  m_media_type_ok :: "string \<Rightarrow> bool"
  m_entropy :: entropy
  m_codes :: "nat \<Rightarrow> nat \<Rightarrow> nat option"

record mrequest =
  mq :: request
  mq_id :: string
  mq_grantID :: string
  mq_userID :: string
  mq_TLS :: bool
  mq_RemoteAddr :: string

type_synonym 'a mact = "world \<Rightarrow> (mresponse + 'a) \<times> world"

definition m_now :: "Handlers \<Rightarrow> time mact" where
  "m_now h w = (Inr (Now (m_dbenv h) (w_db w)), w)"

definition m_uuid :: "Handlers \<Rightarrow> string mact" where
  "m_uuid h = on_disk (new_uuid (m_os h))"

definition of_db :: "Handlers \<Rightarrow> (db_env \<Rightarrow> db \<Rightarrow> 'a \<times> db) \<Rightarrow> 'a mact" where
  "of_db h m = on_db (m (m_dbenv h))"

definition m_body :: "Handlers \<Rightarrow> (json \<Rightarrow> 'a option) \<Rightarrow> 'a option \<Rightarrow> mrequest \<Rightarrow> 'a result" where
  "m_body h unmarshal allowEmpty q = DecodeJSONBody (m_json h) (m_hashes h) unmarshal allowEmpty (mq q)"

section \<open>\<open>request_fields.go\<close>\<close>

definition decodeStringField :: "(string \<times> json) list \<Rightarrow> string \<Rightarrow> mresponse + string" where
  "decodeStringField rawFields field =
     (case map_of rawFields field of
        None \<Rightarrow> Inr []
      | Some (JString v) \<Rightarrow> Inr v
      | Some v \<Rightarrow> Inl (badRequest (field @ '' must be a string'')))"

definition decodeBoolField :: "(string \<times> json) list \<Rightarrow> string \<Rightarrow> mresponse + bool" where
  "decodeBoolField rawFields field =
     (case map_of rawFields field of
        None \<Rightarrow> Inr False
      | Some (JBool b) \<Rightarrow> Inr b
      | Some v \<Rightarrow> Inl (badRequest (field @ '' must be a boolean'')))"

text \<open>A decoder used as a step of a handler.\<close>

definition lift_sum :: "'e + 'a \<Rightarrow> 's \<Rightarrow> ('e + 'a) \<times> 's" where
  "lift_sum x s = (x, s)"

end
