(* ===== verification/Management.thy ===== *)
theory Management
  imports ManagementTypes
begin

text \<open>
  The handlers of \<open>internal/management\<close>: metrics and settings (\<open>handlers.go\<close>), activity (\<open>activity.go\<close>), buckets
  (\<open>buckets.go\<close>), objects (\<open>object_listing.go\<close>, \<open>public_urls.go\<close>), keys (\<open>keys.go\<close>), grants and ownership
  (\<open>grants.go\<close>) and share links (\<open>share_links.go\<close>).  A handler is a step on the database and the disk; it ends with a
  response, on the left when it returned early.  \<open>uuid.New\<close> is drawn from the same supply as the names of temporary files.
\<close>

section \<open>\<open>handlers.go\<close>\<close>

definition maxObjectListLimit :: int where "maxObjectListLimit = 1000"
definition defaultObjectListLimit :: int where "defaultObjectListLimit = 100"
definition maxActivityLimit :: int where "maxActivityLimit = 500"
definition defaultActivityLimit :: int where "defaultActivityLimit = 100"

definition h_Metrics :: "Handlers \<Rightarrow> mrequest \<Rightarrow> mresponse mact" where
  "h_Metrics h q =
     andThen (of_db h Metrics) (\<lambda>res.
       case res of
         Inl err \<Rightarrow> fail (internalError ''failed to load metrics'')
       | Inr metrics \<Rightarrow> ret (writeJSON 200 (MetricsPayload metrics)))"

definition ConfigInfo :: "Handlers \<Rightarrow> mrequest \<Rightarrow> mresponse mact" where
  "ConfigInfo h q =
     ret (writeJSON 200 (ConfigPayload
       \<lparr>cr_Region = Region, cr_DevMode = DevMode (m_Config h), cr_PublicBaseURL = PublicBaseURL (m_Config h),
        cr_S3MaxKeys = 1000, cr_S3DeleteObjects = 1000, cr_ManagementObjectListLimit = maxObjectListLimit,
        cr_ManagementActivityLimit = maxActivityLimit\<rparr>))"

section \<open>\<open>activity.go\<close>\<close>

definition ActivityForceDeleteBucket :: string where "ActivityForceDeleteBucket = ''force_delete_bucket''"
definition ActivityEmptyBucket :: string where "ActivityEmptyBucket = ''empty_bucket''"
definition ActivityTransferBucketOwnership :: string where "ActivityTransferBucketOwnership = ''transfer_bucket_ownership''"
definition ActivityCreateGrant :: string where "ActivityCreateGrant = ''create_grant''"
definition ActivityUpdateGrant :: string where "ActivityUpdateGrant = ''update_grant''"
definition ActivityDeleteGrant :: string where "ActivityDeleteGrant = ''delete_grant''"

record activityParams =
  ap_limit :: int
  ap_bucket :: string
  ap_action :: string

definition parseLimit :: "int \<Rightarrow> int \<Rightarrow> request \<Rightarrow> string + int" where
  "parseLimit dflt maxLimit r =
     (let rawLimit = TrimSpace (query_Get r ''limit'') in
      if rawLimit = [] then Inr (min dflt maxLimit)
      else case Atoi rawLimit of
        None \<Rightarrow> Inl ''limit must be a positive integer''
      | Some n \<Rightarrow> if n \<le> 0 then Inl ''limit must be a positive integer'' else Inr (if n > maxLimit then maxLimit else n))"

definition parseActivityParams :: "request \<Rightarrow> string + activityParams" where
  "parseActivityParams r =
     bind_sum (parseLimit defaultActivityLimit maxActivityLimit r) (\<lambda>limit.
       Inr \<lparr>ap_limit = limit, ap_bucket = TrimSpace (query_Get r ''bucket''), ap_action = TrimSpace (query_Get r ''action'')\<rparr>)"

definition ListActivity :: "Handlers \<Rightarrow> mrequest \<Rightarrow> mresponse mact" where
  "ListActivity h q =
     (if \<not> m_Activity h then ret (writeJSON 200 (ActivityPayload []))
      else case parseActivityParams (mq q) of
        Inl err \<Rightarrow> fail (badRequest err)
      | Inr ps \<Rightarrow>
          andThen (of_db h (\<lambda>env. activity_List env (ap_bucket ps) (ap_action ps) (ap_limit ps))) (\<lambda>res.
            case res of
              Inl err \<Rightarrow> fail (internalError ''failed to list activity'')
            | Inr activities \<Rightarrow> ret (writeJSON 200 (ActivityPayload (map activityDTO activities)))))"

definition m_recordActivity ::
  "Handlers \<Rightarrow> mrequest \<Rightarrow> string \<Rightarrow> string \<Rightarrow> string \<Rightarrow> int \<Rightarrow> string \<Rightarrow> unit mact" where
  "m_recordActivity h q action bucketName key sz et =
     andThen (m_uuid h) (\<lambda>i.
     andThen (m_now h) (\<lambda>now.
       if \<not> m_Activity h then ret ()
       else andThen (of_db h (\<lambda>env. RecordActivity env (mq q)
              \<lparr>oa_ID = i, oa_Action = action, oa_BucketName = bucketName, oa_ObjectKey = key, oa_Size = sz,
               oa_ETag = et, oa_ActorUserID = [], oa_CreatedAt = now\<rparr>)) (\<lambda>ignored. ret ())))"

section \<open>\<open>buckets.go\<close>\<close>

definition m_ListBuckets :: "Handlers \<Rightarrow> mrequest \<Rightarrow> mresponse mact" where
  "m_ListBuckets h q =
     andThen (of_db h ListBucketSummaries) (\<lambda>res.
       case res of
         Inl err \<Rightarrow> fail (internalError ''failed to list buckets'')
       | Inr summaries \<Rightarrow> ret (writeJSON 200 (BucketsPayload (map bucketSummaryDTO summaries))))"

definition GetBucket :: "Handlers \<Rightarrow> mrequest \<Rightarrow> mresponse mact" where
  "GetBucket h q =
     (let bucketName = chiBucketParam (mq q) in
      if bucketName = [] then fail (notFound ''bucket not found'')
      else andThen (of_db h (\<lambda>env. GetBucketSummary env bucketName)) (\<lambda>res.
        case res of
          Inl err \<Rightarrow>
            (if err = ErrBucketNotFound then fail (notFound ''bucket not found'')
             else fail (internalError ''failed to load bucket''))
        | Inr summary \<Rightarrow> ret (writeJSON 200 (BucketPayload (bucketSummaryDTO summary)))))"

definition ensureBucket :: "Handlers \<Rightarrow> string \<Rightarrow> Bucket mact" where
  "ensureBucket h bucketName =
     (if bucketName = [] then fail (notFound ''bucket not found'')
      else andThen (of_db h (\<lambda>env. GetByName env bucketName)) (\<lambda>res.
        case res of
          Inl err \<Rightarrow>
            (if err = ErrBucketNotFound then fail (notFound ''bucket not found'')
             else fail (internalError ''failed to load bucket''))
        | Inr bucket \<Rightarrow> ret bucket))"

text \<open>\<open>deleteBucketFiles\<close>: every file is tried; the result tells whether one failed.\<close>

fun delete_files :: "os_env \<Rightarrow> engine \<Rightarrow> Object list \<Rightarrow> disk \<Rightarrow> nat \<times> disk" where
  "delete_files env e [] d = (0, d)"
| "delete_files env e (obj # objs) d =
     (case Delete env e (o_StoragePath obj) d of
        (err, d1) \<Rightarrow>
          (case delete_files env e objs d1 of
             (failed, d2) \<Rightarrow> (if err = None then failed else Suc failed, d2)))"

definition deleteBucketFiles :: "Handlers \<Rightarrow> Object list \<Rightarrow> bool mact" where
  "deleteBucketFiles h objs =
     (case m_Storage h of
        None \<Rightarrow> ret True
      | Some e \<Rightarrow> andThen (on_disk (delete_files (m_os h) e objs)) (\<lambda>failed. ret (failed = 0)))"

fun record_deletions :: "Handlers \<Rightarrow> mrequest \<Rightarrow> string \<Rightarrow> Object list \<Rightarrow> unit mact" where
  "record_deletions h q bucketName [] = ret ()"
| "record_deletions h q bucketName (obj # objs) =
     andThen (m_recordActivity h q ActivityDeleteObject bucketName (o_Key obj) (o_Size obj) (o_ETag obj)) (\<lambda>u.
       record_deletions h q bucketName objs)"

definition m_DeleteBucket :: "Handlers \<Rightarrow> mrequest \<Rightarrow> mresponse mact" where
  "m_DeleteBucket h q =
     (let bucketName = chiBucketParam (mq q) in
      andThen (ensureBucket h bucketName) (\<lambda>bucket.
      andThen (of_db h (\<lambda>env. DeleteWithObjects env bucketName)) (\<lambda>res.
        case res of
          Inl err \<Rightarrow>
            (if err = ErrBucketHasMultipartUploads then
               fail (writeError 409 ''bucket_has_multipart_uploads''
                 ''bucket has multipart uploads; complete or abort them before deleting the bucket'')
             else if err = ErrBucketNotFound then fail (notFound ''bucket not found'')
             else fail (internalError ''failed to delete bucket''))
        | Inr objs \<Rightarrow>
            andThen (deleteBucketFiles h objs) (\<lambda>clean.
            andThen (record_deletions h q bucketName objs) (\<lambda>u.
            andThen (m_recordActivity h q ActivityForceDeleteBucket bucketName [] (int (length objs)) []) (\<lambda>u.
              if \<not> clean then fail (internalError ''failed to delete bucket object files'') else ret noContent))))))"

text \<open>
  \<open>objectops.EmptyBucket\<close>: the rows of the bucket are read and deleted, then their files, up to the first failure.  The
  value is None when the loop that reads the pages does not return.
\<close>

fun delete_until :: "os_env \<Rightarrow> engine \<Rightarrow> Object list \<Rightarrow> disk \<Rightarrow> go_error option \<times> disk" where
  "delete_until env e [] d = (None, d)"
| "delete_until env e (obj # objs) d =
     (case Delete env e (o_StoragePath obj) d of
        (Some err, d1) \<Rightarrow> (Some err, d1)
      | (None, d1) \<Rightarrow> delete_until env e objs d1)"

definition objectops_EmptyBucket :: "Handlers \<Rightarrow> string \<Rightarrow> world \<Rightarrow> (Object list result \<times> world) option" where
  "objectops_EmptyBucket h bucketName w =
     (case ListAllObjects (m_dbenv h) bucketName (w_db w) of
        None \<Rightarrow> None
      | Some (Inl err, s1) \<Rightarrow> Some (Inl err, w\<lparr>w_db := s1\<rparr>)
      | Some (Inr objs, s1) \<Rightarrow>
          (case DeleteAllInBucket (m_dbenv h) bucketName s1 of
             (Inl err, s2) \<Rightarrow> Some (Inl err, w\<lparr>w_db := s2\<rparr>)
           | (Inr u, s2) \<Rightarrow>
               (case m_Storage h of
                  None \<Rightarrow> Some (Inr objs, w\<lparr>w_db := s2\<rparr>)
                | Some e \<Rightarrow>
                    (case delete_until (m_os h) e objs (w_disk w) of
                       (Some err, d) \<Rightarrow> Some (Inl err, w\<lparr>w_db := s2, w_disk := d\<rparr>)
                     | (None, d) \<Rightarrow> Some (Inr objs, w\<lparr>w_db := s2, w_disk := d\<rparr>)))))"

definition EmptyBucket :: "Handlers \<Rightarrow> mrequest \<Rightarrow> world \<Rightarrow> ((mresponse + mresponse) \<times> world) option" where
  "EmptyBucket h q w =
     (let bucketName = chiBucketParam (mq q) in
      case ensureBucket h bucketName w of
        (Inl resp, w1) \<Rightarrow> Some (Inl resp, w1)
      | (Inr bucket, w1) \<Rightarrow>
          (case objectops_EmptyBucket h bucketName w1 of
             None \<Rightarrow> None
           | Some (Inl err, w2) \<Rightarrow> Some (Inl (internalError ''failed to empty bucket''), w2)
           | Some (Inr objs, w2) \<Rightarrow> Some
               (andThen (record_deletions h q bucketName objs) (\<lambda>u.
                andThen (m_recordActivity h q ActivityEmptyBucket bucketName [] (int (length objs)) []) (\<lambda>u.
                  ret noContent)) w2)))"

section \<open>\<open>object_listing.go\<close>\<close>

record objectListParams =
  lp_prefix :: string
  lp_delimiter :: string
  lp_cursor :: string
  lp_limit :: int

definition parseObjectListParams :: "request \<Rightarrow> string + objectListParams" where
  "parseObjectListParams r =
     bind_sum (parseLimit defaultObjectListLimit maxObjectListLimit r) (\<lambda>limit.
       Inr \<lparr>lp_prefix = query_Get r ''prefix'', lp_delimiter = query_Get r ''delimiter'', lp_cursor = query_Get r ''cursor'',
            lp_limit = limit\<rparr>)"

fun split_entries :: "DelimitedListEntry list \<Rightarrow> objectSummaryResponse list \<times> string list" where
  "split_entries [] = ([], [])"
| "split_entries (e # es) =
     (case split_entries es of
        (objs, cps) \<Rightarrow>
          if IsPrefix e then (objs, VirtualKey e # cps)
          else case e_Object e of
            None \<Rightarrow> (objs, cps)
          | Some obj \<Rightarrow> (objectSummaryDTO obj # objs, cps))"

definition m_listObjects ::
  "db_env \<Rightarrow> string \<Rightarrow> objectListParams \<Rightarrow> db
     \<Rightarrow> (objectSummaryResponse list \<times> string list \<times> bool \<times> string) result \<times> db" where
  "m_listObjects env bucketName ps =
     (if lp_delimiter ps = [] then
        andThen (object_List env bucketName (lp_prefix ps) (lp_cursor ps) (lp_limit ps)) (\<lambda>page.
          case page of (objs, isTruncated) \<Rightarrow>
            ret (map objectSummaryDTO objs, [], isTruncated,
                 if isTruncated \<and> objs \<noteq> [] then o_Key (last objs) else []))
      else
        andThen (ListDelimited env bucketName (lp_prefix ps) (lp_cursor ps) (lp_delimiter ps) (lp_limit ps)) (\<lambda>entries.
          let isTruncated = int (length entries) > lp_limit ps;
              page = (if isTruncated then take (nat (lp_limit ps)) entries else entries);
              nextCursor = (if isTruncated \<and> page \<noteq> [] then CursorKey (last page) else [])
          in case split_entries page of
               (objs, commonPrefixes) \<Rightarrow> ret (objs, commonPrefixes, isTruncated, nextCursor)))"

definition m_ListObjects :: "Handlers \<Rightarrow> mrequest \<Rightarrow> mresponse mact" where
  "m_ListObjects h q =
     (let bucketName = chiBucketParam (mq q) in
      andThen (ensureBucket h bucketName) (\<lambda>bucket.
        case parseObjectListParams (mq q) of
          Inl err \<Rightarrow> fail (badRequest err)
        | Inr ps \<Rightarrow>
            andThen (of_db h (\<lambda>env. m_listObjects env bucketName ps)) (\<lambda>res.
              case res of
                Inl err \<Rightarrow> fail (internalError ''failed to list objects'')
              | Inr (objs, commonPrefixes, isTruncated, nextCursor) \<Rightarrow>
                  ret (writeJSON 200 (ObjectsPayload
                    \<lparr>lo_Bucket = bucketName, lo_Prefix = lp_prefix ps, lo_Delimiter = lp_delimiter ps, lo_Limit = lp_limit ps,
                     lo_IsTruncated = isTruncated, lo_NextCursor = nextCursor, lo_Objects = objs,
                     lo_CommonPrefixes = commonPrefixes\<rparr>)))))"

definition m_GetObject :: "Handlers \<Rightarrow> mrequest \<Rightarrow> mresponse mact" where
  "m_GetObject h q =
     (let bucketName = chiBucketParam (mq q); key = TrimPrefix (r_rest (mq q)) ''/'' in
      andThen (ensureBucket h bucketName) (\<lambda>bucket.
        if key = [] then fail (notFound ''object not found'')
        else andThen (of_db h (\<lambda>env. GetByKey env bucketName key)) (\<lambda>res.
          case res of
            Inl err \<Rightarrow>
              (if err = ErrObjectNotFound then fail (notFound ''object not found'')
               else fail (internalError ''failed to load object''))
          | Inr obj \<Rightarrow> ret (writeJSON 200 (ObjectPayload (objectDetailDTO obj))))))"

end
