(* ===== verification/ManagementKeys.thy ===== *)
theory ManagementKeys
  imports Management
begin

text \<open>
  Keys (\<open>keys.go\<close>), signed public URLs (\<open>public_urls.go\<close>) and share links (\<open>share_links.go\<close>) of the management API.
\<close>

section \<open>\<open>keys.go\<close>\<close>

definition ListKeys :: "Handlers \<Rightarrow> mrequest \<Rightarrow> mresponse mact" where
  "ListKeys h q =
     andThen (of_db h user_List) (\<lambda>res.
       case res of
         Inl err \<Rightarrow> fail (internalError ''failed to list keys'')
       | Inr us \<Rightarrow> ret (writeJSON 200 (KeysPayload (map keyDTO us))))"

record createKeyInput =
  ci_displayName :: string
  ci_role :: Role

definition invalidJSON :: mresponse where
  "invalidJSON = badRequest ''invalid JSON request body''"

definition decodeCreateKeyRequest :: "Handlers \<Rightarrow> mrequest \<Rightarrow> mresponse + createKeyInput" where
  "decodeCreateKeyRequest h q =
     (case m_body h raw_fields None q of
        Inl err \<Rightarrow> Inl invalidJSON
      | Inr rawFields \<Rightarrow>
          if \<not> fst ` set rawFields \<subseteq> {''display_name'', ''role''} then Inl invalidJSON
          else bind_sum (decodeStringField rawFields ''display_name'') (\<lambda>raw.
            let displayName = TrimSpace raw in
            if displayName = [] then Inl (badRequest ''display_name is required'')
            else if map_of rawFields ''role'' = None then Inr \<lparr>ci_displayName = displayName, ci_role = RoleMember\<rparr>
            else bind_sum (decodeStringField rawFields ''role'') (\<lambda>decodedRole.
              case ParseRole (TrimSpace decodedRole) of
                Inl err \<Rightarrow> Inl (badRequest ''role must be admin or member'')
              | Inr parsedRole \<Rightarrow> Inr \<lparr>ci_displayName = displayName, ci_role = parsedRole\<rparr>)))"

definition CreateKey :: "Handlers \<Rightarrow> mrequest \<Rightarrow> mresponse mact" where
  "CreateKey h q =
     andThen (lift_sum (decodeCreateKeyRequest h q)) (\<lambda>req.
     andThen (m_uuid h) (\<lambda>i.
     andThen (of_db h (\<lambda>env. CreateBearerToken (h_sha256 (m_hashes h)) (m_entropy h) i env (ci_displayName req) (ci_role req))) (\<lambda>res.
       case res of
         Inl err \<Rightarrow> fail (internalError ''failed to create key'')
       | Inr (issued, sigv4Creds, user) \<Rightarrow>
           ret (writeJSON 201 (CreatedKeyPayload
             \<lparr>ck_Key = keyDTO user, ck_BearerToken = it_RawToken issued, ck_SigV4 = sigv4Creds\<rparr>)))))"

definition DeleteKey :: "Handlers \<Rightarrow> mrequest \<Rightarrow> mresponse mact" where
  "DeleteKey h q =
     (let i = TrimSpace (mq_id q) in
      if i = [] then fail (notFound ''key not found'')
      else andThen (of_db h (\<lambda>env. user_Delete env i)) (\<lambda>res.
        case res of
          Inl err \<Rightarrow>
            (if err = ErrUserNotFound then fail (notFound ''key not found'')
             else fail (internalError ''failed to delete key''))
        | Inr u \<Rightarrow> ret noContent))"

record patchKeyInput =
  pk_displayName :: "string option"
  pk_isActive :: "bool option"

definition decodePatchKeyRequest :: "Handlers \<Rightarrow> mrequest \<Rightarrow> mresponse + patchKeyInput" where
  "decodePatchKeyRequest h q =
     (case m_body h raw_fields None q of
        Inl err \<Rightarrow> Inl invalidJSON
      | Inr rawFields \<Rightarrow>
          if \<not> fst ` set rawFields \<subseteq> {''display_name'', ''is_active''} then Inl invalidJSON
          else if rawFields = [] then Inl (badRequest ''at least one field is required'')
          else bind_sum
            (if map_of rawFields ''display_name'' = None then Inr None
             else bind_sum (decodeStringField rawFields ''display_name'') (\<lambda>raw.
               if TrimSpace raw = [] then Inl (badRequest ''display_name must not be empty'')
               else Inr (Some (TrimSpace raw)))) (\<lambda>displayName.
          bind_sum
            (if map_of rawFields ''is_active'' = None then Inr None
             else bind_sum (decodeBoolField rawFields ''is_active'') (\<lambda>b. Inr (Some b))) (\<lambda>isActive.
            Inr \<lparr>pk_displayName = displayName, pk_isActive = isActive\<rparr>)))"

definition patch_user :: "patchKeyInput \<Rightarrow> User \<Rightarrow> User" where
  "patch_user req user =
     (let user1 = (case pk_displayName req of None \<Rightarrow> user | Some n \<Rightarrow> user\<lparr>u_DisplayName := n\<rparr>)
      in case pk_isActive req of None \<Rightarrow> user1 | Some b \<Rightarrow> user1\<lparr>u_IsActive := b\<rparr>)"

definition PatchKey :: "Handlers \<Rightarrow> mrequest \<Rightarrow> mresponse mact" where
  "PatchKey h q =
     (let i = TrimSpace (mq_id q) in
      if i = [] then fail (notFound ''key not found'')
      else andThen (lift_sum (decodePatchKeyRequest h q)) (\<lambda>req.
        andThen (of_db h (\<lambda>env. user_GetByID env i)) (\<lambda>res.
          case res of
            Inl err \<Rightarrow>
              (if err = ErrUserNotFound then fail (notFound ''key not found'')
               else fail (internalError ''failed to load key''))
          | Inr user \<Rightarrow>
              andThen (of_db h (\<lambda>env. user_Update env (patch_user req user))) (\<lambda>res.
                case res of
                  Inl err \<Rightarrow>
                    (if err = ErrUserNotFound then fail (notFound ''key not found'')
                     else fail (internalError ''failed to update key''))
                | Inr u \<Rightarrow>
                    andThen (of_db h (\<lambda>env. user_GetByID env i)) (\<lambda>res.
                      case res of
                        Inl err \<Rightarrow> fail (internalError ''failed to load updated key'')
                      | Inr updated \<Rightarrow> ret (writeJSON 200 (KeyPayload (keyDTO updated))))))))"

section \<open>\<open>public_urls.go\<close>\<close>

record publicObjectURLRequest =
  pr_ExpiresInSeconds :: "int option"
  pr_ResponseContentDisposition :: string

definition unmarshal_publicURL :: "json \<Rightarrow> publicObjectURLRequest option" where
  "unmarshal_publicURL =
     decode_struct
       [(''expires_in_seconds'', int64_ptr_field (\<lambda>x s. s\<lparr>pr_ExpiresInSeconds := x\<rparr>)),
        (''response_content_disposition'', string_field (\<lambda>x s. s\<lparr>pr_ResponseContentDisposition := x\<rparr>))]
       False \<lparr>pr_ExpiresInSeconds = None, pr_ResponseContentDisposition = []\<rparr>"

definition publicURLObjectKey :: "request \<Rightarrow> string option" where
  "publicURLObjectKey r =
     (let rawPath = TrimPrefix (r_rest r) ''/'' in
      if HasSuffix rawPath ''/public-url'' \<and> TrimSuffix rawPath ''/public-url'' \<noteq> []
      then Some (TrimSuffix rawPath ''/public-url'') else None)"

text \<open>Products of durations are those of \<open>int64\<close>.\<close>

definition publicReadOptions :: "Handlers \<Rightarrow> mrequest \<Rightarrow> mresponse + publicObjectURLRequest \<times> int" where
  "publicReadOptions h q =
     (case m_body h unmarshal_publicURL (Some \<lparr>pr_ExpiresInSeconds = None, pr_ResponseContentDisposition = []\<rparr>) q of
        Inl err \<Rightarrow> Inl (badRequest ''invalid JSON body'')
      | Inr req \<Rightarrow>
          if pr_ResponseContentDisposition req \<noteq> [] \<and> \<not> m_media_type_ok h (pr_ResponseContentDisposition req)
          then Inl (badRequest ''response_content_disposition is invalid'')
          else bind_sum
            (case pr_ExpiresInSeconds req of
               None \<Rightarrow> Inr (PublicReadDefaultTTL (m_Config h))
             | Some n \<Rightarrow>
                 if n \<le> 0 then Inl (badRequest ''expires_in_seconds must be positive'')
                 else if n > PublicReadMaxTTL (m_Config h) div second
                 then Inl (badRequest ''expires_in_seconds exceeds maximum TTL'')
                 else Inr (wrap64 (n * second))) (\<lambda>ttl.
            if ttl \<le> 0 \<or> ttl > PublicReadMaxTTL (m_Config h)
            then Inl (badRequest ''expires_in_seconds exceeds maximum TTL'')
            else Inr (req, ttl)))"

definition TrimRight_slash :: "string \<Rightarrow> string" where
  "TrimRight_slash s = rev (dropWhile (\<lambda>c. c = CHR ''/'') (rev s))"

definition publicBaseURL :: "Handlers \<Rightarrow> mrequest \<Rightarrow> string" where
  "publicBaseURL h q =
     (if PublicBaseURL (m_Config h) \<noteq> [] then PublicBaseURL (m_Config h)
      else let scheme = TrimSpace (header_Get (mq q) ''X-Forwarded-Proto'') in
        (if scheme \<noteq> [] then scheme else if mq_TLS q then ''https'' else ''http'') @ ''://'' @ r_Host (mq q))"

text \<open>\<open>Values.Encode\<close> of the three parameters, whose names are in the order of the keys.\<close>

definition public_query :: "string \<Rightarrow> string \<Rightarrow> string \<Rightarrow> string" where
  "public_query expires disposition sig =
     ''expires='' @ QueryEscape expires
     @ (if disposition = [] then [] else ''&response-content-disposition='' @ QueryEscape disposition)
     @ ''&signature='' @ QueryEscape sig"

definition CreatePublicObjectURL :: "Handlers \<Rightarrow> mrequest \<Rightarrow> mresponse mact" where
  "CreatePublicObjectURL h q =
     (let bucketName = chiBucketParam (mq q) in
      andThen (ensureBucket h bucketName) (\<lambda>bucket.
        case publicURLObjectKey (mq q) of
          None \<Rightarrow> fail (notFound ''object not found'')
        | Some key \<Rightarrow>
            (case m_PublicReadSigner h of
               None \<Rightarrow> fail (writeError 503 errorCodeInternal ''public read signing is not configured'')
             | Some signer \<Rightarrow>
                 andThen (lift_sum (publicReadOptions h q)) (\<lambda>(req, ttl).
                 andThen (of_db h (\<lambda>env. GetByKey env bucketName key)) (\<lambda>res.
                   case res of
                     Inl err \<Rightarrow>
                       (if err = ErrObjectNotFound then fail (notFound ''object not found'')
                        else fail (internalError ''failed to load object''))
                   | Inr obj \<Rightarrow>
                       andThen (m_now h) (\<lambda>now.
                         let expiresAt = now + ttl;
                             path = ObjectPath bucketName key;
                             disposition = pr_ResponseContentDisposition req;
                             sig = SignPath (h_sha256 (m_hashes h)) signer path expiresAt disposition
                         in ret (writeJSON 200 (PublicURLPayload
                           \<lparr>pu_URL = TrimRight_slash (publicBaseURL h q) @ path @ ''?''
                                      @ public_query (Itoa (unix_of expiresAt)) disposition sig,
                            pu_ExpiresAt = formatTime expiresAt,
                            pu_CacheControl = ''public, max-age='' @ Itoa (ttl div second) @ '', must-revalidate''\<rparr>))))))))"

section \<open>\<open>share_links.go\<close>\<close>

definition maxShareLinkTTL_seconds :: int where "maxShareLinkTTL_seconds = 100 * 365 * 24 * 3600"

definition generatedCodeAttempts :: nat where "generatedCodeAttempts = 3"

record createShareLinkRequest =
  sr_Bucket :: string
  sr_Key :: string
  sr_Alias :: string
  sr_ExpiresInSeconds :: "int option"
  sr_ResponseContentDisposition :: string

definition unmarshal_shareLink :: "json \<Rightarrow> createShareLinkRequest option" where
  "unmarshal_shareLink =
     decode_struct
       [(''bucket'', string_field (\<lambda>x s. s\<lparr>sr_Bucket := x\<rparr>)), (''key'', string_field (\<lambda>x s. s\<lparr>sr_Key := x\<rparr>)),
        (''alias'', string_field (\<lambda>x s. s\<lparr>sr_Alias := x\<rparr>)),
        (''expires_in_seconds'', int64_ptr_field (\<lambda>x s. s\<lparr>sr_ExpiresInSeconds := x\<rparr>)),
        (''response_content_disposition'', string_field (\<lambda>x s. s\<lparr>sr_ResponseContentDisposition := x\<rparr>))]
       False \<lparr>sr_Bucket = [], sr_Key = [], sr_Alias = [], sr_ExpiresInSeconds = None, sr_ResponseContentDisposition = []\<rparr>"

definition decodeCreateShareLinkRequest :: "Handlers \<Rightarrow> mrequest \<Rightarrow> mresponse + createShareLinkRequest \<times> int" where
  "decodeCreateShareLinkRequest h q =
     (case m_body h unmarshal_shareLink None q of
        Inl err \<Rightarrow> Inl (badRequest ''invalid JSON body'')
      | Inr raw \<Rightarrow>
          let req = raw\<lparr>sr_Bucket := TrimSpace (sr_Bucket raw), sr_Key := TrimPrefix (sr_Key raw) ''/''\<rparr> in
          if sr_Bucket req = [] \<or> sr_Key req = [] then Inl (badRequest ''bucket and key are required'')
          else if sr_Alias req \<noteq> [] \<and> \<not> ValidateAlias (sr_Alias req)
          then Inl (badRequest (''alias must be 3-64 characters of letters, digits, '' @ [CHR 0x27, CHR ''-'', CHR 0x27] @
                 '' or '' @ [CHR 0x27, CHR ''_'', CHR 0x27] @ '', starting with a letter or digit''))
          else if sr_ResponseContentDisposition req \<noteq> [] \<and> \<not> m_media_type_ok h (sr_ResponseContentDisposition req)
          then Inl (badRequest ''response_content_disposition is invalid'')
          else case sr_ExpiresInSeconds req of
            None \<Rightarrow> Inr (req, 0)
          | Some n \<Rightarrow>
              if n \<le> 0 \<or> n > maxShareLinkTTL_seconds
              then Inl (badRequest ''expires_in_seconds must be positive and at most 100 years'')
              else Inr (req, wrap64 (n * second)))"

definition shareLinkCreatorID :: "Handlers \<Rightarrow> mrequest \<Rightarrow> string mact" where
  "shareLinkCreatorID h q =
     (case r_Principal (mq q) of
        None \<Rightarrow> fail (writeError 401 errorCodeUnauthorized ''authentication required'')
      | Some p \<Rightarrow>
          andThen (of_db h (\<lambda>env. user_GetByID env (p_UserID p))) (\<lambda>res.
            case res of
              Inl err \<Rightarrow>
                (if err = ErrUserNotFound
                 then fail (writeError 403 errorCodeForbidden ''share links require a stored user account'')
                 else fail (internalError ''failed to load user''))
            | Inr u \<Rightarrow> ret (p_UserID p)))"

text \<open>
  \<open>insertShareLink\<close> with the attempts left; the result holds the error, or the link under its code.  The \<open>i\<close>-th draw of
  \<open>m_codes\<close> feeds the \<open>i\<close>-th attempt.
\<close>

fun insert_generated :: "Handlers \<Rightarrow> nat \<Rightarrow> nat \<Rightarrow> ShareLink \<Rightarrow> go_error \<Rightarrow> db \<Rightarrow> ShareLink result \<times> db" where
  "insert_generated h i 0 link err s = (Inl err, s)"
| "insert_generated h i (Suc n) link err s =
     (case GenerateCode (m_codes h i) of
        None \<Rightarrow> (Inl ErrIO, s)
      | Some code \<Rightarrow>
          (case share_Create (m_dbenv h) (link\<lparr>sl_Code := code\<rparr>) s of
             (Inr u, s1) \<Rightarrow> (Inr (link\<lparr>sl_Code := code\<rparr>), s1)
           | (Inl e, s1) \<Rightarrow>
               if e \<noteq> ErrShareLinkCodeTaken then (Inl e, s1) else insert_generated h (Suc i) n link e s1))"

definition insertShareLink :: "Handlers \<Rightarrow> ShareLink \<Rightarrow> string \<Rightarrow> db \<Rightarrow> ShareLink result \<times> db" where
  "insertShareLink h link alias =
     (if alias \<noteq> [] then
        andThen (share_Create (m_dbenv h) (link\<lparr>sl_Code := alias\<rparr>)) (\<lambda>u. ret (link\<lparr>sl_Code := alias\<rparr>))
      else insert_generated h 0 generatedCodeAttempts link ErrShareLinkCodeTaken)"

definition shareLinkDTO :: "Handlers \<Rightarrow> mrequest \<Rightarrow> ShareLink \<Rightarrow> shareLinkResponse" where
  "shareLinkDTO h q link =
     \<lparr>lr_Code = sl_Code link,
      lr_URL = TrimRight_slash (publicBaseURL h q) @ share_Path (sl_Code link),
      lr_Bucket = sl_BucketName link, lr_Key = sl_ObjectKey link,
      lr_ResponseContentDisposition = sl_ResponseContentDisposition link, lr_CreatedBy = sl_CreatedBy link,
      lr_ExpiresAt = map_option formatTime (sl_ExpiresAt link), lr_CreatedAt = formatTime (sl_CreatedAt link)\<rparr>"

definition CreateShareLink :: "Handlers \<Rightarrow> mrequest \<Rightarrow> mresponse mact" where
  "CreateShareLink h q =
     andThen (lift_sum (decodeCreateShareLinkRequest h q)) (\<lambda>(req, ttl).
     andThen (ensureBucket h (sr_Bucket req)) (\<lambda>bucket.
     andThen (of_db h (\<lambda>env. GetByKey env (sr_Bucket req) (sr_Key req))) (\<lambda>res.
       case res of
         Inl err \<Rightarrow>
           (if err = ErrObjectNotFound then fail (notFound ''object not found'')
            else fail (internalError ''failed to load object''))
       | Inr obj \<Rightarrow>
           andThen (shareLinkCreatorID h q) (\<lambda>creatorID.
           andThen (m_now h) (\<lambda>now.
             let link = \<lparr>sl_Code = [], sl_BucketName = sr_Bucket req, sl_ObjectKey = sr_Key req,
                   sl_ResponseContentDisposition = sr_ResponseContentDisposition req, sl_CreatedBy = creatorID,
                   sl_ExpiresAt = (if ttl > 0 then Some (now + ttl) else None), sl_CreatedAt = now\<rparr>
             in andThen (on_db (insertShareLink h link (sr_Alias req))) (\<lambda>res.
                  case res of
                    Inl err \<Rightarrow>
                      (if err = ErrShareLinkCodeTaken then fail (writeError 409 errorCodeConflict ''alias is already in use'')
                       else fail (internalError ''failed to create share link''))
                  | Inr stored_link \<Rightarrow> ret (writeJSON 201 (ShareLinkPayload (shareLinkDTO h q stored_link)))))))))"

definition ListShareLinks :: "Handlers \<Rightarrow> mrequest \<Rightarrow> mresponse mact" where
  "ListShareLinks h q =
     andThen (of_db h (\<lambda>env. share_List env (TrimSpace (query_Get (mq q) ''bucket'')))) (\<lambda>res.
       case res of
         Inl err \<Rightarrow> fail (internalError ''failed to list share links'')
       | Inr links \<Rightarrow> ret (writeJSON 200 (ShareLinksPayload (map (shareLinkDTO h q) links))))"

definition DeleteShareLink :: "Handlers \<Rightarrow> mrequest \<Rightarrow> mresponse mact" where
  "DeleteShareLink h q =
     andThen (of_db h (\<lambda>env. share_Delete env (r_code (mq q)))) (\<lambda>res.
       case res of
         Inl err \<Rightarrow>
           (if err = ErrShareLinkNotFound then fail (notFound ''share link not found'')
            else fail (internalError ''failed to delete share link''))
       | Inr u \<Rightarrow> ret noContent)"

end
