(* ===== verification/ManagementGrants.thy ===== *)
theory ManagementGrants
  imports ManagementKeys
begin

text \<open>
  Grants and ownership of the management API (\<open>grants.go\<close>).
\<close>

section \<open>Loading\<close>

definition loadBucketForGrantAdmin :: "Handlers \<Rightarrow> mrequest \<Rightarrow> Bucket mact" where
  "loadBucketForGrantAdmin h q =
     (let bucketName = chiBucketParam (mq q) in
      if bucketName = [] then fail (notFound ''bucket not found'')
      else andThen (of_db h (\<lambda>env. GetByName env bucketName)) (\<lambda>res.
        case res of
          Inl err \<Rightarrow>
            (if err = ErrBucketNotFound then fail (notFound ''bucket not found'')
             else fail (internalError ''failed to load bucket''))
        | Inr bucket \<Rightarrow>
            (case r_Principal (mq q) of
               None \<Rightarrow> fail (writeError 401 errorCodeUnauthorized ''authentication required'')
             | Some p \<Rightarrow>
                 if p_Role p \<noteq> RoleAdmin \<and> b_OwnerID bucket \<noteq> p_UserID p
                 then fail (writeError 403 errorCodeForbidden ''admin or bucket owner required'')
                 else ret bucket)))"

definition loadGrantOnBucket :: "Handlers \<Rightarrow> string \<Rightarrow> string \<Rightarrow> Grant mact" where
  "loadGrantOnBucket h grantID bucketName =
     (if grantID = [] then fail (notFound ''grant not found'')
      else andThen (of_db h (\<lambda>env. grant_GetByID env grantID)) (\<lambda>res.
        case res of
          Inl err \<Rightarrow>
            (if err = ErrGrantNotFound then fail (notFound ''grant not found'')
             else fail (internalError ''failed to load grant''))
        | Inr g \<Rightarrow> if gr_BucketName g \<noteq> bucketName then fail (notFound ''grant not found'') else ret g))"

definition resolveGrantee :: "Handlers \<Rightarrow> string \<Rightarrow> string \<Rightarrow> User mact" where
  "resolveGrantee h rawUserID rawAccessKeyID =
     (let userID = TrimSpace rawUserID; accessKeyID = TrimSpace rawAccessKeyID in
      if userID \<noteq> [] \<and> accessKeyID \<noteq> []
      then fail (badRequest ''provide grantee_user_id or grantee_access_key_id, not both'')
      else if userID \<noteq> [] then
        andThen (of_db h (\<lambda>env. user_GetByID env userID)) (\<lambda>res.
          case res of
            Inl err \<Rightarrow>
              (if err = ErrUserNotFound then fail (badRequest ''grantee user not found'')
               else fail (internalError ''failed to load grantee''))
          | Inr user \<Rightarrow> ret user)
      else if accessKeyID \<noteq> [] then
        andThen (of_db h (\<lambda>env. GetByAccessKeyID env accessKeyID)) (\<lambda>res.
          case res of
            Inl err \<Rightarrow>
              (if err = ErrUserNotFound then fail (badRequest ''grantee access key not found'')
               else fail (internalError ''failed to load grantee''))
          | Inr user \<Rightarrow> ret user)
      else fail (badRequest ''grantee_user_id or grantee_access_key_id is required''))"

section \<open>Decoding\<close>

record createGrantInput =
  cg_granteeUserID :: string
  cg_granteeAccessKeyID :: string
  cg_actions :: "string list"
  cg_keyPrefix :: string
  cg_note :: string

definition unmarshal_createGrant :: "json \<Rightarrow> createGrantInput option" where
  "unmarshal_createGrant =
     decode_struct
       [(''grantee_user_id'', string_field (\<lambda>x s. s\<lparr>cg_granteeUserID := x\<rparr>)),
        (''grantee_access_key_id'', string_field (\<lambda>x s. s\<lparr>cg_granteeAccessKeyID := x\<rparr>)),
        (''actions'', strings_field (\<lambda>x s. s\<lparr>cg_actions := x\<rparr>)),
        (''key_prefix'', string_field (\<lambda>x s. s\<lparr>cg_keyPrefix := x\<rparr>)),
        (''note'', string_field (\<lambda>x s. s\<lparr>cg_note := x\<rparr>))]
       False \<lparr>cg_granteeUserID = [], cg_granteeAccessKeyID = [], cg_actions = [], cg_keyPrefix = [], cg_note = []\<rparr>"

text \<open>The loop over the requested actions: empty ones are skipped, repeated ones kept once.\<close>

fun parse_actions :: "string list \<Rightarrow> Action list \<Rightarrow> mresponse + Action list" where
  "parse_actions [] actions = Inr actions"
| "parse_actions (raw # rest) actions =
     (let v = TrimSpace raw in
      if v = [] then parse_actions rest actions
      else case ParseGrantableAction v of
        Inl err \<Rightarrow> Inl (badRequest (''invalid or non-grantable action: '' @ v))
      | Inr action \<Rightarrow> parse_actions rest (if action \<in> set actions then actions else actions @ [action]))"

definition decodeCreateGrantRequest :: "Handlers \<Rightarrow> mrequest \<Rightarrow> mresponse + createGrantInput" where
  "decodeCreateGrantRequest h q =
     (case m_body h unmarshal_createGrant None q of
        Inl err \<Rightarrow> Inl invalidJSON
      | Inr raw \<Rightarrow>
          bind_sum (parse_actions (cg_actions raw) []) (\<lambda>actions.
            if actions = [] then Inl (badRequest ''at least one action is required'')
            else Inr \<lparr>cg_granteeUserID = TrimSpace (cg_granteeUserID raw),
              cg_granteeAccessKeyID = TrimSpace (cg_granteeAccessKeyID raw), cg_actions = actions,
              cg_keyPrefix = cg_keyPrefix raw, cg_note = TrimSpace (cg_note raw)\<rparr>))"

record patchGrantInput =
  pg_keyPrefix :: "string option"
  pg_isActive :: "bool option"
  pg_note :: "string option"

definition decode_optional_string :: "(string \<times> json) list \<Rightarrow> string \<Rightarrow> mresponse + string option" where
  "decode_optional_string rawFields field =
     (if map_of rawFields field = None then Inr None
      else bind_sum (decodeStringField rawFields field) (\<lambda>v. Inr (Some v)))"

definition decodePatchGrantRequest :: "Handlers \<Rightarrow> mrequest \<Rightarrow> mresponse + patchGrantInput" where
  "decodePatchGrantRequest h q =
     (case m_body h raw_fields None q of
        Inl err \<Rightarrow> Inl invalidJSON
      | Inr rawFields \<Rightarrow>
          if \<not> fst ` set rawFields \<subseteq> {''key_prefix'', ''is_active'', ''note''} then Inl invalidJSON
          else if rawFields = [] then Inl (badRequest ''at least one field is required'')
          else bind_sum (decode_optional_string rawFields ''key_prefix'') (\<lambda>keyPrefix.
          bind_sum
            (if map_of rawFields ''is_active'' = None then Inr None
             else bind_sum (decodeBoolField rawFields ''is_active'') (\<lambda>b. Inr (Some b))) (\<lambda>isActive.
          bind_sum (decode_optional_string rawFields ''note'') (\<lambda>note.
            Inr \<lparr>pg_keyPrefix = keyPrefix, pg_isActive = isActive, pg_note = map_option TrimSpace note\<rparr>))))"

definition validateGrantPrefix :: "string \<Rightarrow> bool" where
  "validateGrantPrefix p =
     (if p = [] then True
      else if contains_char p (CHR 0x00) \<or> contains_char p (CHR 0x0A) \<or> contains_char p (CHR 0x0D) then False
      else if HasPrefix p ''/'' then False
      else let toCheck = TrimSuffix p ''/'' in toCheck \<noteq> [] \<and> ValidateKey toCheck = None)"

section \<open>Handlers\<close>

definition ListBucketGrants :: "Handlers \<Rightarrow> mrequest \<Rightarrow> mresponse mact" where
  "ListBucketGrants h q =
     andThen (loadBucketForGrantAdmin h q) (\<lambda>bucket.
     andThen (of_db h (\<lambda>env. grant_ListByBucket env (b_Name bucket))) (\<lambda>res.
       case res of
         Inl err \<Rightarrow> fail (internalError ''failed to list grants'')
       | Inr gs \<Rightarrow> ret (writeJSON 200 (GrantsPayload (map grantDTO gs)))))"

fun new_grants :: "Handlers \<Rightarrow> Grant \<Rightarrow> Action list \<Rightarrow> Grant list mact" where
  "new_grants h g [] = ret []"
| "new_grants h g (action # actions) =
     andThen (m_uuid h) (\<lambda>i.
     andThen (new_grants h g actions) (\<lambda>gs. ret (g\<lparr>gr_ID := i, gr_Action := action\<rparr> # gs)))"

fun record_created :: "Handlers \<Rightarrow> mrequest \<Rightarrow> string \<Rightarrow> GrantCreateResult list \<Rightarrow> unit mact" where
  "record_created h q bucketName [] = ret ()"
| "record_created h q bucketName (res # results) =
     andThen (if gc_Existed res then ret ()
              else m_recordActivity h q ActivityCreateGrant bucketName (gr_Action (gc_Grant res)) 0 (gr_ID (gc_Grant res)))
       (\<lambda>u. record_created h q bucketName results)"

definition CreateBucketGrants :: "Handlers \<Rightarrow> mrequest \<Rightarrow> mresponse mact" where
  "CreateBucketGrants h q =
     andThen (loadBucketForGrantAdmin h q) (\<lambda>bucket.
     andThen (lift_sum (decodeCreateGrantRequest h q)) (\<lambda>input.
     andThen (resolveGrantee h (cg_granteeUserID input) (cg_granteeAccessKeyID input)) (\<lambda>grantee.
       if \<not> u_IsActive grantee then fail (badRequest ''grantee user is inactive'')
       else if \<not> validateGrantPrefix (cg_keyPrefix input) then fail (badRequest ''invalid key_prefix'')
       else andThen (m_now h) (\<lambda>now.
         andThen (new_grants h
           \<lparr>gr_ID = [], gr_BucketName = b_Name bucket, gr_GranteeUserID = u_ID grantee, gr_Action = [],
            gr_KeyPrefix = cg_keyPrefix input, gr_IsActive = True,
            gr_CreatedBy = (case r_Principal (mq q) of None \<Rightarrow> [] | Some p \<Rightarrow> p_UserID p), gr_Note = cg_note input,
            gr_CreatedAt = now, gr_UpdatedAt = now\<rparr> (cg_actions input)) (\<lambda>gs.
         andThen (of_db h (\<lambda>env. CreateIdempotentBatch env gs)) (\<lambda>res.
           case res of
             Inl err \<Rightarrow> fail (internalError ''failed to create grant'')
           | Inr results \<Rightarrow>
               andThen (record_created h q (b_Name bucket) results) (\<lambda>u.
                 ret (writeJSON 201 (GrantsPayload (map (\<lambda>x. grantDTO (gc_Grant x)) results))))))))))"

definition patch_grant :: "patchGrantInput \<Rightarrow> Grant \<Rightarrow> Grant" where
  "patch_grant input g =
     (let g1 = (case pg_keyPrefix input of None \<Rightarrow> g | Some p \<Rightarrow> g\<lparr>gr_KeyPrefix := p\<rparr>);
          g2 = (case pg_isActive input of None \<Rightarrow> g1 | Some b \<Rightarrow> g1\<lparr>gr_IsActive := b\<rparr>)
      in case pg_note input of None \<Rightarrow> g2 | Some n \<Rightarrow> g2\<lparr>gr_Note := n\<rparr>)"

definition PatchBucketGrant :: "Handlers \<Rightarrow> mrequest \<Rightarrow> mresponse mact" where
  "PatchBucketGrant h q =
     andThen (loadBucketForGrantAdmin h q) (\<lambda>bucket.
     andThen (loadGrantOnBucket h (TrimSpace (mq_grantID q)) (b_Name bucket)) (\<lambda>g.
     andThen (lift_sum (decodePatchGrantRequest h q)) (\<lambda>input.
       if (case pg_keyPrefix input of None \<Rightarrow> False | Some p \<Rightarrow> \<not> validateGrantPrefix p)
       then fail (badRequest ''invalid key_prefix'')
       else andThen (of_db h (\<lambda>env. grant_Update env (patch_grant input g))) (\<lambda>res.
         case res of
           Inl err \<Rightarrow>
             (if err = ErrGrantNotFound then fail (notFound ''grant not found'')
              else if err = ErrInvalidGrantAction then fail (badRequest ''invalid or non-grantable action'')
              else if err = ErrDuplicateGrant
              then fail (writeError 409 errorCodeInvalidRequest
                ''an active grant already exists for this bucket, grantee, action, and prefix'')
              else fail (internalError ''failed to update grant''))
         | Inr u \<Rightarrow>
             andThen (of_db h (\<lambda>env. grant_GetByID env (gr_ID g))) (\<lambda>res.
               case res of
                 Inl err \<Rightarrow> fail (internalError ''failed to load updated grant'')
               | Inr updated \<Rightarrow>
                   andThen (m_recordActivity h q ActivityUpdateGrant (b_Name bucket) (gr_Action updated) 0 (gr_ID updated)) (\<lambda>u.
                     ret (writeJSON 200 (GrantPayload (grantDTO updated)))))))))"

definition DeleteBucketGrant :: "Handlers \<Rightarrow> mrequest \<Rightarrow> mresponse mact" where
  "DeleteBucketGrant h q =
     andThen (loadBucketForGrantAdmin h q) (\<lambda>bucket.
     andThen (loadGrantOnBucket h (TrimSpace (mq_grantID q)) (b_Name bucket)) (\<lambda>g.
     andThen (of_db h (\<lambda>env. grant_Delete env (gr_ID g))) (\<lambda>res.
       case res of
         Inl err \<Rightarrow>
           (if err = ErrGrantNotFound then fail (notFound ''grant not found'')
            else fail (internalError ''failed to delete grant''))
       | Inr u \<Rightarrow>
           andThen (m_recordActivity h q ActivityDeleteGrant (b_Name bucket) (gr_Action g) 0 (gr_ID g)) (\<lambda>u.
             ret noContent))))"

definition list_grants_of :: "Handlers \<Rightarrow> string \<Rightarrow> mresponse mact" where
  "list_grants_of h userID =
     andThen (of_db h (\<lambda>env. ListByGrantee env userID)) (\<lambda>res.
       case res of
         Inl err \<Rightarrow> fail (internalError ''failed to list grants'')
       | Inr gs \<Rightarrow> ret (writeJSON 200 (GrantsPayload (map grantDTO gs))))"

definition ListMyGrants :: "Handlers \<Rightarrow> mrequest \<Rightarrow> mresponse mact" where
  "ListMyGrants h q =
     (case r_Principal (mq q) of
        None \<Rightarrow> fail (writeError 401 errorCodeUnauthorized ''authentication required'')
      | Some p \<Rightarrow>
          if TrimSpace (p_UserID p) = []
          then fail (writeError 401 errorCodeUnauthorized ''authentication required'')
          else list_grants_of h (p_UserID p))"

definition ListUserGrants :: "Handlers \<Rightarrow> mrequest \<Rightarrow> mresponse mact" where
  "ListUserGrants h q =
     (let userID = TrimSpace (mq_userID q) in
      if userID = [] then fail (notFound ''user not found'')
      else andThen (of_db h (\<lambda>env. user_GetByID env userID)) (\<lambda>res.
        case res of
          Inl err \<Rightarrow>
            (if err = ErrUserNotFound then fail (notFound ''user not found'')
             else fail (internalError ''failed to load user''))
        | Inr u \<Rightarrow> list_grants_of h userID))"

definition unmarshal_transfer :: "json \<Rightarrow> string option" where
  "unmarshal_transfer = decode_struct [(''new_owner_user_id'', string_field (\<lambda>x s. x))] False []"

definition TransferBucketOwnership :: "Handlers \<Rightarrow> mrequest \<Rightarrow> mresponse mact" where
  "TransferBucketOwnership h q =
     andThen (loadBucketForGrantAdmin h q) (\<lambda>bucket.
       case m_body h unmarshal_transfer (Some []) q of
         Inl err \<Rightarrow> fail invalidJSON
       | Inr raw \<Rightarrow>
           let newOwnerID = TrimSpace raw in
           if newOwnerID = [] then fail (badRequest ''new_owner_user_id is required'')
           else andThen (of_db h (\<lambda>env. user_GetByID env newOwnerID)) (\<lambda>res.
             case res of
               Inl err \<Rightarrow>
                 (if err = ErrUserNotFound then fail (badRequest ''new owner user not found'')
                  else fail (internalError ''failed to load new owner''))
             | Inr newOwner \<Rightarrow>
                 if \<not> u_IsActive newOwner then fail (badRequest ''new owner user is inactive'')
                 else andThen (of_db h (\<lambda>env. UpdateOwner env (b_Name bucket) (u_ID newOwner) (b_OwnerID bucket))) (\<lambda>res.
                   case res of
                     Inl err \<Rightarrow>
                       (if err = ErrBucketNotFound then fail (notFound ''bucket not found'')
                        else fail (internalError ''failed to transfer ownership''))
                   | Inr u \<Rightarrow>
                       andThen (m_recordActivity h q ActivityTransferBucketOwnership (b_Name bucket) (u_ID newOwner) 0 []) (\<lambda>u.
                       andThen (of_db h (\<lambda>env. GetBucketSummary env (b_Name bucket))) (\<lambda>res.
                         case res of
                           Inl err \<Rightarrow> ret (writeJSON 200 (TransferPayload
                             \<lparr>bs_Name = b_Name bucket, bs_OwnerID = u_ID newOwner, bs_CreatedAt = formatTime (b_CreatedAt bucket),
                              bs_ObjectCount = 0, bs_TotalObjectBytes = 0\<rparr> (u_ID newOwner)))
                         | Inr summary \<Rightarrow> ret (writeJSON 200 (TransferPayload (bucketSummaryDTO summary) (u_ID newOwner))))))))"

end
