(* ===== verification/Setup.thy ===== *)
theory Setup
  imports ManagementGrants
begin

text \<open>
  \<open>internal/setup\<close>: the endpoints that create the first administrator, open to the loopback peer only, and
  \<open>net.ParseIP\<close> on which that test rests.
\<close>

section \<open>\<open>net.ParseIP\<close> and \<open>IP.IsLoopback\<close>\<close>

definition ipv4_bytes :: "string \<Rightarrow> int list option" where
  "ipv4_bytes s =
     (let fs = split_on CHR ''.'' s in
      if length fs = 4 \<and> list_all ipv4_field fs then Some (map digits_val fs) else None)"

definition hex_group :: "string \<Rightarrow> int" where
  "hex_group ds = foldl (\<lambda>acc c. 16 * acc + int (the (hex_val c))) 0 ds"

text \<open>
  The loop of \<open>parseIPv6\<close> with the number of 16-bit groups that still fit, the text, the bytes so far and the position
  of the ellipsis.
\<close>

fun ipv6_groups :: "nat \<Rightarrow> string \<Rightarrow> int list \<Rightarrow> nat option \<Rightarrow> (int list \<times> nat option) option" where
  "ipv6_groups 0 s ip ellipsis = (if s = [] then Some (ip, ellipsis) else None)"
| "ipv6_groups (Suc n) s ip ellipsis =
     (let ds = takeWhile (\<lambda>c. hex_val c \<noteq> None) s; rest = drop (length ds) s in
      if ds = [] \<or> length ds > 4 then None
      else if rest \<noteq> [] \<and> hd rest = CHR ''.'' then
        (if ellipsis = None \<and> length ip \<noteq> 12 then None
         else if length ip + 4 > 16 then None
         else map_option (\<lambda>b. (ip @ b, ellipsis)) (ipv4_bytes s))
      else let ip1 = ip @ [hex_group ds div 256, hex_group ds mod 256] in
        if rest = [] then Some (ip1, ellipsis)
        else if hd rest \<noteq> CHR '':'' \<or> length rest = 1 then None
        else if hd (tl rest) = CHR '':'' then
          (if ellipsis \<noteq> None then None
           else if tl (tl rest) = [] then Some (ip1, Some (length ip1))
           else ipv6_groups n (tl (tl rest)) ip1 (Some (length ip1)))
        else ipv6_groups n (tl rest) ip1 ellipsis)"

definition ipv6_bytes :: "string \<Rightarrow> int list option" where
  "ipv6_bytes s =
     (if s = ''::'' then Some (replicate 16 0)
      else case (if HasPrefix s ''::'' then ipv6_groups 8 (drop 2 s) [] (Some 0) else ipv6_groups 8 s [] None) of
        None \<Rightarrow> None
      | Some (ip, ellipsis) \<Rightarrow>
          if length ip < 16 then
            (case ellipsis of
               None \<Rightarrow> None
             | Some k \<Rightarrow> Some (take k ip @ replicate (16 - length ip) 0 @ drop k ip))
          else if ellipsis \<noteq> None then None
          else Some ip)"

text \<open>The first of \<open>.\<close>, \<open>:\<close> and \<open>%\<close> decides the kind of address; an address with a zone is refused.\<close>

definition net_ParseIP :: "string \<Rightarrow> int list option" where
  "net_ParseIP s =
     (case find (\<lambda>c. c \<in> set ''.:%'') s of
        None \<Rightarrow> None
      | Some c \<Rightarrow>
          if c = CHR ''.'' then map_option (\<lambda>b. replicate 10 0 @ [255, 255] @ b) (ipv4_bytes s)
          else if c = CHR '':'' \<and> CHR ''%'' \<notin> set s then ipv6_bytes s
          else None)"

definition IsLoopback :: "int list \<Rightarrow> bool" where
  "IsLoopback ip \<longleftrightarrow>
     (if take 12 ip = replicate 10 0 @ [255, 255] then ip ! 12 = 127 else ip = replicate 15 0 @ [1])"

section \<open>\<open>handlers.go\<close>\<close>

definition isLoopbackRequest :: "mrequest \<Rightarrow> bool" where
  "isLoopbackRequest q =
     (let peer = TrimSpace (mq_RemoteAddr q);
          host = (case SplitHostPort peer of Some (splitHost, port) \<Rightarrow> splitHost | None \<Rightarrow> peer)
      in case net_ParseIP host of None \<Rightarrow> False | Some ip \<Rightarrow> IsLoopback ip)"

definition requestBaseURL :: "mrequest \<Rightarrow> string" where
  "requestBaseURL q = (if mq_TLS q then ''https'' else ''http'') @ ''://'' @ r_Host (mq q)"

definition endpoints :: "Handlers \<Rightarrow> mrequest \<Rightarrow> endpointURLs" where
  "endpoints h q =
     (let configured = TrimRight_slash (TrimSpace (PublicBaseURL (m_Config h)));
          baseURL = (if configured = [] then requestBaseURL q else configured)
      in \<lparr>managementURL = baseURL @ ''/api/management'', s3URL = baseURL\<rparr>)"

definition bootstrapRequired :: "Handlers \<Rightarrow> bool mact" where
  "bootstrapRequired h =
     andThen (of_db h UserCount) (\<lambda>res.
       case res of
         Inl err \<Rightarrow> fail (internalError ''failed to inspect setup state'')
       | Inr count \<Rightarrow> ret (count = 0))"

definition notLoopback :: mresponse where
  "notLoopback = writeError 403 errorCodeForbidden ''setup is only available from loopback''"

definition Status :: "Handlers \<Rightarrow> mrequest \<Rightarrow> mresponse mact" where
  "Status h q =
     (if \<not> isLoopbackRequest q then fail notLoopback
      else andThen (bootstrapRequired h) (\<lambda>required.
        ret (writeJSON 200 (SetupStatusPayload required Region (endpoints h q)))))"

definition unmarshal_bootstrap :: "json \<Rightarrow> string option" where
  "unmarshal_bootstrap = decode_struct [(''display_name'', string_field (\<lambda>x s. x))] True []"

definition decodeBootstrapRequest :: "Handlers \<Rightarrow> mrequest \<Rightarrow> mresponse + string" where
  "decodeBootstrapRequest h q =
     (case m_body h unmarshal_bootstrap (Some []) q of
        Inl err \<Rightarrow> Inl (badRequest ''invalid JSON body'')
      | Inr displayName \<Rightarrow> Inr displayName)"

definition defaultAdminDisplayName :: string where "defaultAdminDisplayName = ''Initial Admin''"

definition BootstrapFirstAdmin :: "Handlers \<Rightarrow> mrequest \<Rightarrow> mresponse mact" where
  "BootstrapFirstAdmin h q =
     (if \<not> isLoopbackRequest q then fail notLoopback
      else andThen (lift_sum (decodeBootstrapRequest h q)) (\<lambda>raw.
        let displayName = (if TrimSpace raw = [] then defaultAdminDisplayName else TrimSpace raw) in
        andThen (m_uuid h) (\<lambda>i.
        andThen (of_db h (\<lambda>env. CreateFirstAdmin (h_sha256 (m_hashes h)) (m_entropy h) i env displayName)) (\<lambda>res.
          case res of
            Inl err \<Rightarrow>
              (if err = ErrUsersAlreadyExist then fail (writeError 409 errorCodeConflict ''users already exist'')
               else fail (internalError ''failed to create initial admin''))
          | Inr (issued, sigv4Creds, user) \<Rightarrow>
              ret (writeJSON 201 (BootstrapPayload
                \<lparr>ck_Key = keyDTO user, ck_BearerToken = it_RawToken issued, ck_SigV4 = sigv4Creds\<rparr>
                Region (endpoints h q)))))))"

section \<open>Peers\<close>

text \<open>The addresses of the package's own table of peers.\<close>

definition peer_request :: "string \<Rightarrow> mrequest" where
  "peer_request addr =
     \<lparr>mq = \<lparr>r_Method = ''POST'', r_bucket = [], r_rest = [], r_code = [], r_Query = [], r_Header = [], r_Body = [],
            r_Principal = None, r_EscapedPath = ''/api/setup/bootstrap'', r_Host = ''localhost''\<rparr>,
      mq_id = [], mq_grantID = [], mq_userID = [], mq_TLS = False, mq_RemoteAddr = addr\<rparr>"

lemma loopback_peers:
  "list_all (\<lambda>a. isLoopbackRequest (peer_request a))
     [''127.0.0.1:12345'', ''127.12.34.56:12345'', ''[::1]:12345'', ''[::ffff:127.0.0.1]:12345'', ''127.0.0.1'', ''::1'']"
  by code_simp

lemma remote_peers:
  "list_all (\<lambda>a. \<not> isLoopbackRequest (peer_request a))
     [''203.0.113.10:12345'', ''[2001:db8::1]:12345'', ''[::ffff:203.0.113.10]:12345'', ''0.0.0.0:12345'', ''[::]:12345'',
      ''localhost:12345'', [], ''[::1'', ''127.0.0.1:123:456'', ''127.0.0.1.example.test:12345'']"
  by code_simp

end
