(* ===== verification/Server.thy ===== *)
theory Server
  imports Setup Reconcile
begin

text \<open>
  The program that puts the parts together (\<open>cmd/server\<close>): the handlers and the chain of authenticators \<open>newApp\<close>
  builds from the settings (\<open>app.go\<close>), the management and setup routes with their middlewares (\<open>router.go\<close>,
  \<open>internal/management/routes.go\<close>), the reconciliation of storage and metadata at the start, and the steps of
  \<open>run\<close> up to serving (\<open>main.go\<close>).  Matching a path with a pattern is the router library; a route is named by its
  method and pattern.
\<close>

section \<open>Management routes\<close>

type_synonym m_handler = "Handlers \<Rightarrow> mrequest \<Rightarrow> world \<Rightarrow> ((mresponse + mresponse) \<times> world) option"

type_synonym m_route = "string \<times> string \<times> m_handler"

definition returning :: "(Handlers \<Rightarrow> mrequest \<Rightarrow> mresponse mact) \<Rightarrow> m_handler" where
  "returning f h q w = Some (f h q w)"

definition RegisterAdminRoutes :: "m_route list" where
  "RegisterAdminRoutes =
     [(''GET'', ''/metrics'', returning h_Metrics),
      (''GET'', ''/config'', returning ConfigInfo),
      (''GET'', ''/activity'', returning ListActivity),
      (''GET'', ''/buckets'', returning m_ListBuckets),
      (''GET'', ''/buckets/{bucket}'', returning GetBucket),
      (''DELETE'', ''/buckets/{bucket}'', returning m_DeleteBucket),
      (''POST'', ''/buckets/{bucket}/empty'', EmptyBucket),
      (''GET'', ''/buckets/{bucket}/objects'', returning m_ListObjects),
      (''GET'', ''/buckets/{bucket}/objects/*'', returning m_GetObject),
      (''POST'', ''/buckets/{bucket}/objects/*'', returning CreatePublicObjectURL),
      (''GET'', ''/keys'', returning ListKeys),
      (''POST'', ''/keys'', returning CreateKey),
      (''PATCH'', ''/keys/{id}'', returning PatchKey),
      (''DELETE'', ''/keys/{id}'', returning DeleteKey),
      (''GET'', ''/users/{userID}/grants'', returning ListUserGrants),
      (''GET'', ''/share-links'', returning ListShareLinks),
      (''POST'', ''/share-links'', returning CreateShareLink),
      (''DELETE'', ''/share-links/{code}'', returning DeleteShareLink)]"

definition RegisterGrantRoutes :: "m_route list" where
  "RegisterGrantRoutes =
     [(''GET'', ''/grants/me'', returning ListMyGrants),
      (''GET'', ''/buckets/{bucket}/grants'', returning ListBucketGrants),
      (''POST'', ''/buckets/{bucket}/grants'', returning CreateBucketGrants),
      (''PATCH'', ''/buckets/{bucket}/grants/{grantID}'', returning PatchBucketGrant),
      (''DELETE'', ''/buckets/{bucket}/grants/{grantID}'', returning DeleteBucketGrant),
      (''POST'', ''/buckets/{bucket}/transfer-ownership'', returning TransferBucketOwnership)]"

text \<open>
  \<open>newRouter\<close>, the group under \<open>/api/management\<close>: every route behind \<open>RequireAuthentication\<close>, the administrative ones
  also behind \<open>RequireRole\<close>.  A middleware either answers or passes the request on.
\<close>

definition management_gate :: "authenticator \<Rightarrow> bool \<Rightarrow> request \<Rightarrow> request mact" where
  "management_gate authenticate adminOnly =
     RequireAuthentication authenticate WriteAuthError
       (if adminOnly then RequireRole RoleAdmin WriteAuthError ret else ret)"

definition serve_management ::
  "authenticator \<Rightarrow> bool \<Rightarrow> m_handler \<Rightarrow> Handlers \<Rightarrow> mrequest \<Rightarrow> world \<Rightarrow> (mresponse \<times> world) option" where
  "serve_management authenticate adminOnly handler h q w =
     (case management_gate authenticate adminOnly (mq q) w of
        (Inl resp, w1) \<Rightarrow> Some (resp, w1)
      | (Inr r, w1) \<Rightarrow>
          (case handler h (q\<lparr>mq := r\<rparr>) w1 of
             None \<Rightarrow> None
           | Some (Inl resp, w2) \<Rightarrow> Some (resp, w2)
           | Some (Inr resp, w2) \<Rightarrow> Some (resp, w2)))"

definition management_routes :: "(bool \<times> m_route) list" where
  "management_routes = map (Pair False) RegisterGrantRoutes @ map (Pair True) RegisterAdminRoutes"

text \<open>\<open>setup.RegisterRoutes\<close> and the health endpoints of \<open>internal/http/router.go\<close>, which need no authentication.\<close>

definition setup_RegisterRoutes :: "m_route list" where
  "setup_RegisterRoutes =
     [(''GET'', ''/api/setup/status'', returning Status),
      (''POST'', ''/api/setup/bootstrap'', returning BootstrapFirstAdmin)]"

definition serveStatus :: "string \<Rightarrow> mresponse" where
  "serveStatus st = WriteJSON 200 (StatusPayload st) []"

section \<open>\<open>app.go\<close>\<close>

text \<open>The world outside the program: the parameters of the handlers and authenticators.\<close>

record surroundings =
  e_os :: os_env
  e_dbenv :: db_env
  e_hashes :: hashes
  e_json :: "bytes \<Rightarrow> json_read"
  e_media_type_ok :: "string \<Rightarrow> bool"
  e_entropy :: entropy
  e_codes :: "nat \<Rightarrow> nat \<Rightarrow> nat option"
  e_Now :: "nat \<Rightarrow> time"
  e_parseRFC1123 :: "string \<Rightarrow> gotime option"
  e_parsers :: parsers
  e_environ :: environ
  e_argv :: "string list"

record app =
  a_objects :: ObjectHandlers
  a_management :: Handlers
  a_authChain :: "authenticator list"

definition newApp :: "surroundings \<Rightarrow> Config \<Rightarrow> engine \<Rightarrow> app result" where
  "newApp E cfg store =
     (let signer = (if TrimSpace (PublicReadSigningSecret cfg) \<noteq> []
                    then (case NewSigner (PublicReadSigningSecret cfg) of Inl err \<Rightarrow> Inl err | Inr s \<Rightarrow> Inr (Some s))
                    else Inr None)
      in case signer of
           Inl err \<Rightarrow> Inl err
         | Inr publicReadSigner \<Rightarrow> Inr \<lparr>
             a_objects = \<lparr>h_os = e_os E, h_dbenv = e_dbenv E, h_Storage = store, h_hashes = e_hashes E,
               h_S3CacheControl = S3CacheControl cfg, h_MinPartSize = 0, h_PublicReadSigner = publicReadSigner\<rparr>,
             a_management = \<lparr>m_os = e_os E, m_dbenv = e_dbenv E, m_Activity = True, m_Storage = Some store,
               m_Config = cfg, m_PublicReadSigner = publicReadSigner, m_hashes = e_hashes E, m_json = e_json E,
               m_media_type_ok = e_media_type_ok E, m_entropy = e_entropy E, m_codes = e_codes E\<rparr>,
             a_authChain = newAuthChain (DevMode cfg)
               \<lparr>sa_env = e_dbenv E, sa_H = h_sha256 (e_hashes E), sa_Now = e_Now E, sa_parseRFC1123 = e_parseRFC1123 E\<rparr>\<rparr>)"

text \<open>
  The callbacks of \<open>reconcileStorage\<close>.  The listing of a bucket is None only if its loop does not return, which
  does not happen on a database whose constraints hold.
\<close>

definition known_objects :: "db_env \<Rightarrow> db \<Rightarrow> string \<Rightarrow> string list result" where
  "known_objects env s bucketName =
     (case ListAllObjects env bucketName s of
        Some (Inr objs, s1) \<Rightarrow> Inr (map o_StoragePath objs)
      | Some (Inl err, s1) \<Rightarrow> Inl err
      | None \<Rightarrow> Inl ErrContext)"

definition reconcileStorage :: "os_env \<Rightarrow> db_env \<Rightarrow> engine \<Rightarrow> world \<Rightarrow> go_error option \<times> world" where
  "reconcileStorage os env store w =
     (case Reconcile os store (known_objects env (w_db w)) (w_disk w) of
        (Some err, d1) \<Rightarrow> (Some err, w\<lparr>w_disk := d1\<rparr>)
      | (None, d1) \<Rightarrow>
          (case ListAllUploadIDs env (w_db w) of
             (ids, s1) \<Rightarrow>
               (case ReconcileMultipartTmp os store ids d1 of
                  (err, d2) \<Rightarrow> (err, w\<lparr>w_disk := d2, w_db := s1\<rparr>))))"

definition startupSetupURL :: "Config \<Rightarrow> string" where
  "startupSetupURL cfg =
     (let configured = TrimRight_slash (TrimSpace (PublicBaseURL cfg));
          addr = TrimSpace (HTTPAddr cfg);
          baseURL = (if configured \<noteq> [] then configured
                     else ''http://'' @ (if HasPrefix addr '':'' then ''127.0.0.1'' @ addr else addr))
      in baseURL @ ''/api/setup/status'')"

text \<open>\<open>logFirstStartSetup\<close>: the address it logs, if any.\<close>

definition logFirstStartSetup :: "db_env \<Rightarrow> Config \<Rightarrow> db \<Rightarrow> string option result \<times> db" where
  "logFirstStartSetup env cfg =
     andThen (UserCount env) (\<lambda>userCount. ret (if userCount = 0 then Some (startupSetupURL cfg) else None))"

section \<open>\<open>main.go\<close>\<close>

datatype start_error = LoadConfig config_error | InitStorage go_error | ReconcileFailed go_error | InitApp go_error | SetupState go_error

text \<open>\<open>run\<close> on an open database, up to the start of the server.\<close>

definition run :: "surroundings \<Rightarrow> world \<Rightarrow> (start_error + Config \<times> app) \<times> world" where
  "run E w =
     (case Load (e_parsers E) (e_environ E) (e_argv E) of
        Inl err \<Rightarrow> (Inl (LoadConfig err), w)
      | Inr cfg \<Rightarrow>
          (case New (e_os E) (DataDir cfg) (w_disk w) of
             (Inl err, d1) \<Rightarrow> (Inl (InitStorage err), w\<lparr>w_disk := d1\<rparr>)
           | (Inr store, d1) \<Rightarrow>
               (case reconcileStorage (e_os E) (e_dbenv E) store (w\<lparr>w_disk := d1\<rparr>) of
                  (Some err, w1) \<Rightarrow> (Inl (ReconcileFailed err), w1)
                | (None, w1) \<Rightarrow>
                    (case newApp E cfg store of
                       Inl err \<Rightarrow> (Inl (InitApp err), w1)
                     | Inr app \<Rightarrow>
                         (case logFirstStartSetup (e_dbenv E) cfg (w_db w1) of
                            (Inl err, s1) \<Rightarrow> (Inl (SetupState err), w1\<lparr>w_db := s1\<rparr>)
                          | (Inr url, s1) \<Rightarrow> (Inr (cfg, app), w1\<lparr>w_db := s1\<rparr>))))))"

end
