(* ===== verification/SigV4Proofs.thy ===== *)
theory SigV4Proofs
  imports SigV4 "HOL-Library.Multiset"
begin

text \<open>
  Correctness of request signing.  A request signed by \<open>SignRequestAt\<close> or \<open>PresignRequest\<close> is accepted as
  its user; whatever is accepted carries the signature of an active user's secret over its canonical
  request; and the canonical request determines method, path, query and signed headers.
\<close>

section \<open>Percent-encoding\<close>

definition uri_code :: "char \<Rightarrow> string" where
  "uri_code c = (if shouldEscape c then percent c else [c])"

lemma update_three:
  assumes "j + 3 \<le> length t"
  shows "take (j + 3) (t[j := a, j + 1 := b, j + 2 := c]) = take j t @ [a, b, c]"
  by (rule nth_equalityI) (use assms in \<open>auto simp: nth_append nth_list_update nth_Cons' split: if_splits\<close>)

lemma update_one: "j < length t \<Longrightarrow> take (j + 1) (t[j := c]) = take j t @ [c]"
  by (simp add: take_Suc_conv_app_nth)

lemma encode_loop_eq:
  "length t = j + length (concat (map uri_code cs)) \<Longrightarrow> encode_loop t j cs = take j t @ concat (map uri_code cs)"
proof (induction cs arbitrary: t j)
  case (Cons c cs)
  show ?case
  proof (cases "shouldEscape c")
    case True
    let ?t = "t[j := CHR 0x25, j + 1 := upper_hex_digit (of_char c div 16), j + 2 := upper_hex_digit (of_char c mod 16)]"
    have l: "length t = j + 3 + length (concat (map uri_code cs))" using Cons.prems True by (simp add: uri_code_def [of c] percent_def)
    have "encode_loop ?t (j + 3) cs = take (j + 3) ?t @ concat (map uri_code cs)" by (rule Cons.IH) (use l in simp)
    moreover have "take (j + 3) ?t = take j t @ percent c" unfolding percent_def by (rule update_three) (use l in simp)
    ultimately show ?thesis using True by (simp add: Let_def uri_code_def [of c])
  next
    case False
    have l: "length t = j + 1 + length (concat (map uri_code cs))" using Cons.prems False by (simp add: uri_code_def [of c])
    have "encode_loop (t[j := c]) (j + 1) cs = take (j + 1) (t[j := c]) @ concat (map uri_code cs)" by (rule Cons.IH) (use l in simp)
    moreover have "take (j + 1) (t[j := c]) = take j t @ [c]" by (rule update_one) (use l in simp)
    ultimately show ?thesis using False by (simp add: Let_def uri_code_def [of c])
  qed
qed simp

lemma uri_codes_length: "length (concat (map uri_code s)) = length s + 2 * length (filter shouldEscape s)"
  by (induction s) (simp_all add: uri_code_def percent_def)

lemma uri_codes_plain: "filter shouldEscape s = [] \<Longrightarrow> concat (map uri_code s) = s"
  by (induction s) (auto simp: uri_code_def split: if_splits)

lemma uriEncode_eq: "uriEncode s = concat (map uri_code s)"
  by (simp add: uriEncode_def Let_def uri_codes_plain encode_loop_eq uri_codes_length)

lemma uriEncode_roundtrip: "PathUnescape (uriEncode s) = Some s"
  unfolding uriEncode_eq
proof (induction s)
  case (Cons c s)
  have p: "shouldEscape CHR ''%''" by (simp add: shouldEscape_def)
  show ?case
  proof (cases "shouldEscape c")
    case True
    have "of_char c div 16 < (16::nat)" using of_char_less [of c] by (simp add: less_mult_imp_div_less)
    then show ?thesis using True Cons by (simp add: uri_code_def percent_def hex_val_upper_digit char_of_hex)
  next
    case False
    then have "c \<noteq> CHR ''%''" using p by auto
    then show ?thesis using False Cons by (simp add: uri_code_def)
  qed
qed simp

lemma uriEncode_inj: "uriEncode a = uriEncode b \<Longrightarrow> a = b"
  by (metis uriEncode_roundtrip option.inject)

lemma upper_hex_chars: "n < 16 \<Longrightarrow> upper_hex_digit n \<in> set ''0123456789ABCDEF''"
  unfolding upper_hex_digit_def by (rule nth_mem) simp

lemma uriEncode_chars:
  assumes "c \<in> set (uriEncode s)"
  shows "c = CHR ''%'' \<or> \<not> shouldEscape c"
proof -
  have hex: "\<not> shouldEscape x" if "x \<in> set ''0123456789ABCDEF''" for x using that by (auto simp: shouldEscape_def)
  from assms obtain d where d: "d \<in> set s" "c \<in> set (uri_code d)" by (auto simp: uriEncode_eq)
  have "of_char d div 16 < (16::nat)" "of_char d mod 16 < (16::nat)" using of_char_less [of d] by (simp_all add: less_mult_imp_div_less)
  then show ?thesis using d(2) hex [OF upper_hex_chars] by (auto simp: uri_code_def percent_def split: if_splits)
qed

lemma uriEncode_no: "c \<notin> set (uriEncode s)" if "c \<in> {CHR ''='', CHR ''&'', CHR 0x0A}"
  using uriEncode_chars [of c s] that by (auto simp: shouldEscape_def)

section \<open>The canonical query string\<close>

definition query_vals :: "url_values \<Rightarrow> string \<Rightarrow> string list" where
  "query_vals vs k = (case map_of vs k of None \<Rightarrow> [] | Some vals \<Rightarrow> vals)"

definition query_pairs :: "url_values \<Rightarrow> string list \<Rightarrow> (string \<times> string) list" where
  "query_pairs vs ex = concat (map (\<lambda>k. map (Pair k) (sort (query_vals vs k))) (sort (filter (\<lambda>k. k \<notin> set ex) (map fst vs))))"

definition query_part :: "string \<times> string \<Rightarrow> string" where
  "query_part kv = uriEncode (fst kv) @ ''='' @ uriEncode (snd kv)"

lemma buildCanonicalQueryString_pairs:
  "buildCanonicalQueryString vs ex = join_with ''&'' (map query_part (query_pairs vs ex))"
  unfolding buildCanonicalQueryString_def query_pairs_def query_vals_def Let_def map_concat map_map comp_def
  by (simp add: query_part_def)

lemma query_part_inj: "query_part a = query_part b \<Longrightarrow> a = b"
  using split_first [of "uriEncode (fst a)" "CHR ''=''" "uriEncode (snd a)" "uriEncode (fst b)" "uriEncode (snd b)"]
  by (auto simp: query_part_def uriEncode_no intro: prod_eqI dest: uriEncode_inj)

lemma query_part_no: "c \<in> {CHR ''&'', CHR 0x0A} \<Longrightarrow> c \<notin> set (query_part kv)"
  using uriEncode_no [of c "fst kv"] uriEncode_no [of c "snd kv"] by (auto simp: query_part_def)

lemma join_parts_inj:
  assumes "join_with [c] xs = join_with [c] ys" and "\<forall>x\<in>set xs. c \<notin> set x \<and> x \<noteq> []" and "\<forall>y\<in>set ys. c \<notin> set y \<and> y \<noteq> []"
  shows "xs = ys"
proof -
  have nil: "join_with [c] zs = [] \<longleftrightarrow> zs = []" if "\<forall>z\<in>set zs. z \<noteq> []" for zs
    using that by (cases "([c], zs)" rule: join_with.cases) auto
  show ?thesis
  proof (cases "xs = [] \<or> ys = []")
    case True
    then show ?thesis using nil [of xs] nil [of ys] assms by auto
  next
    case False
    then have "split_on c (join_with [c] xs) = xs" "split_on c (join_with [c] ys) = ys"
      using assms(2,3) by (blast intro: split_join)+
    then show ?thesis unfolding assms(1) by simp
  qed
qed

lemma query_string_inj:
  "buildCanonicalQueryString v1 ex = buildCanonicalQueryString v2 ex \<Longrightarrow> query_pairs v1 ex = query_pairs v2 ex"
proof -
  assume "buildCanonicalQueryString v1 ex = buildCanonicalQueryString v2 ex"
  then have "map query_part (query_pairs v1 ex) = map query_part (query_pairs v2 ex)"
    unfolding buildCanonicalQueryString_pairs
    by (rule join_parts_inj) (auto simp: query_part_no, auto simp: query_part_def)
  then show ?thesis by (rule map_inj_on) (auto intro!: inj_onI dest: query_part_inj)
qed

lemma query_pairs_vals:
  assumes "distinct (map fst vs)" and "k \<notin> set ex"
  shows "map snd (filter (\<lambda>kv. fst kv = k) (query_pairs vs ex)) = sort (query_vals vs k)"
proof -
  let ?ks = "sort (filter (\<lambda>k. k \<notin> set ex) (map fst vs))"
  have d: "distinct ?ks" using assms(1) by simp
  have none: "query_vals vs k = []" if "k \<notin> set ?ks"
    using that assms(2) map_of_eq_None_iff [of vs k] by (auto simp: query_vals_def)
  have "map snd (filter (\<lambda>kv. fst kv = k) (concat (map (\<lambda>k. map (Pair k) (sort (query_vals vs k))) ks))) =
      (if k \<in> set ks then sort (query_vals vs k) else [])" if "distinct ks" for ks
    using that
  proof (induction ks)
    case (Cons a ks)
    show ?case
    proof (cases "a = k")
      case True
      with Cons have "map snd (filter (\<lambda>kv. fst kv = k) (concat (map (\<lambda>k. map (Pair k) (sort (query_vals vs k))) ks))) = []" by simp
      with True show ?thesis by (simp add: filter_map comp_def)
    next
      case False
      with Cons show ?thesis by (simp add: filter_map comp_def)
    qed
  qed simp
  from this [OF d] none show ?thesis unfolding query_pairs_def by (cases "k \<in> set ?ks") simp_all
qed

lemma query_string_no_newline: "CHR 0x0A \<notin> set (buildCanonicalQueryString vs ex)"
proof -
  have "c \<notin> set (join_with [s] xs)" if "\<forall>x\<in>set xs. c \<notin> set x" "c \<noteq> s" for c s :: char and xs
    using that by (induction "[s]" xs rule: join_with.induct) auto
  then show ?thesis unfolding buildCanonicalQueryString_pairs by (auto simp: query_part_no)
qed

section \<open>The canonical headers\<close>

lemma first_rune_newline:
  assumes "first_rune s = Some k" and "CHR 0x0A \<in> set (take k s)"
  shows "take k s = [CHR 0x0A]"
proof -
  have nl: "of_char CHR 0x0A = (10::nat)" by simp
  consider "s = []" | a where "s = [a]" | a b where "s = [a, b]" | a b c where "s = [a, b, c]" | a b c d e where "s = a # b # c # d # e"
    by (metis neq_Nil_conv)
  then show ?thesis using assms
    by cases (auto simp: first_rune_def eval_nat_numeral cont_byte_def split: if_splits)
qed

lemma rune_newline: "rn \<in> set (rune_loop n s) \<Longrightarrow> CHR 0x0A \<in> set rn \<Longrightarrow> rn = [CHR 0x0A]"
proof (induction n s rule: rune_loop.induct)
  case (3 c cs)
  show ?case
  proof (cases "first_rune (c # cs)")
    case None
    then show ?thesis using 3 by (auto simp: replacement_def)
  next
    case (Some k)
    have "rn = take k (c # cs) \<or> rn \<in> set (rune_loop (k - 1) cs)" using 3 Some by auto
    then show ?thesis using first_rune_newline [OF Some] 3 Some by auto
  qed
qed auto

lemma collapse_no_newline:
  "\<forall>rn\<in>set rns. CHR 0x0A \<in> set rn \<longrightarrow> rn = [CHR 0x0A] \<Longrightarrow> CHR 0x0A \<notin> set (collapse_loop b rns)"
proof (induction rns arbitrary: b)
  case (Cons c cs)
  have IH: "CHR 0x0A \<notin> set (collapse_loop b' cs)" for b' using Cons by simp
  have "CHR 0x0A \<in> set c \<Longrightarrow> c = [CHR 0x0A]" using Cons.prems by simp
  then show ?case using IH by (simp split: if_splits) blast
qed simp

lemma strip_fuel_set: "set (strip_fuel n encs s) \<subseteq> set s"
proof (induction n arbitrary: s)
  case (Suc n)
  show ?case
  proof (cases "find (\<lambda>e. prefix e s) encs")
    case (Some e)
    have "set (strip_fuel n encs (drop (length e) s)) \<subseteq> set s"
      by (rule subset_trans [OF Suc.IH set_drop_subset])
    with Some show ?thesis by simp
  qed simp
qed simp

lemma TrimSpace_set: "set (TrimSpace s) \<subseteq> set s"
  using strip_fuel_set [of "length s" space_encodings s]
    strip_fuel_set [of "length (strip_fuel (length s) space_encodings s)" "map rev space_encodings" "rev (strip_fuel (length s) space_encodings s)"]
  by (auto simp: TrimSpace_def Let_def)

lemma collapseWhitespace_no_newline: "CHR 0x0A \<notin> set (collapseWhitespace s)"
  using collapse_no_newline [of "rune_loop 0 s" False] rune_newline TrimSpace_set
  unfolding collapseWhitespace_def by blast

text \<open>The value a signed header contributes.\<close>

definition signed_value :: "request \<Rightarrow> string \<Rightarrow> string" where
  "signed_value r h = collapseWhitespace (TrimSpace (if h = ''host'' then r_Host r else header_Get r h))"

definition header_lines :: "request \<Rightarrow> string \<Rightarrow> string list" where
  "header_lines r sh = map (\<lambda>h. h @ '':'' @ signed_value r h) (split_on (CHR '';'') sh)"

lemma buildCanonicalHeaders_lines:
  "buildCanonicalHeaders r (split_on (CHR '';'') sh) = concat (map (\<lambda>l. l @ [CHR 0x0A]) (header_lines r sh))"
proof -
  have "join_with [] xs = concat xs" for xs by (induction "[] :: string" xs rule: join_with.induct) auto
  then show ?thesis by (simp add: buildCanonicalHeaders_def header_lines_def signed_value_def Let_def comp_def)
qed

lemma split_lines: "\<forall>l\<in>set ls. c \<notin> set l \<Longrightarrow> split_on c (concat (map (\<lambda>l. l @ [c]) ls) @ s) = ls @ split_on c s"
  by (induction ls) (simp_all add: split_on_append_sep split_on_no_sep)

definition one_line :: "string \<Rightarrow> bool" where
  "one_line s \<longleftrightarrow> CHR 0x0A \<notin> set s"

definition canonical_lines :: "string \<Rightarrow> string \<Rightarrow> string \<Rightarrow> string list \<Rightarrow> string \<Rightarrow> string \<Rightarrow> string list" where
  "canonical_lines m u q ls sh ph = [m, u, q] @ ls @ [[], sh, ph]"

lemma header_lines_one_line: "one_line sh \<Longrightarrow> \<forall>l\<in>set (header_lines r sh). CHR 0x0A \<notin> set l"
  using split_on_chars [of _ "CHR '';''" sh] collapseWhitespace_no_newline
  by (fastforce simp: header_lines_def one_line_def signed_value_def)

lemma canonical_split:
  assumes "one_line m" and "one_line u" and "one_line sh" and "one_line ph"
  shows "split_on (CHR 0x0A) (join_with [CHR 0x0A] [m, u, buildCanonicalQueryString vs ex,
      buildCanonicalHeaders r (split_on (CHR '';'') sh), sh, ph]) =
    canonical_lines m u (buildCanonicalQueryString vs ex) (header_lines r sh) sh ph"
  using assms query_string_no_newline [of vs ex] header_lines_one_line [OF assms(3), of r]
  by (simp add: one_line_def canonical_lines_def buildCanonicalHeaders_lines split_on_append_sep split_on_no_sep split_lines [where s = "[]", simplified])

lemma canonical_lines_inj:
  assumes "canonical_lines m u q (header_lines r sh) sh ph = canonical_lines m' u' q' (header_lines r' sh') sh' ph'"
  shows "m = m' \<and> u = u' \<and> q = q' \<and> sh = sh' \<and> ph = ph' \<and> (\<forall>h\<in>set (split_on (CHR '';'') sh). signed_value r h = signed_value r' h)"
proof -
  from assms have a: "m = m'" "u = u'" "q = q'" and b: "header_lines r sh @ [[], sh, ph] = header_lines r' sh' @ [[], sh', ph']"
    by (auto simp: canonical_lines_def)
  from b have c: "header_lines r sh = header_lines r' sh'" "sh = sh'" "ph = ph'" by auto
  then show ?thesis using a by (auto simp: header_lines_def)
qed

lemma canonical_request_inj:
  assumes "buildCanonicalRequest r sh ph = buildCanonicalRequest r' sh' ph'"
    and "one_line (r_Method r)" "one_line (canonicalURI r)" "one_line sh" "one_line ph"
    and "one_line (r_Method r')" "one_line (canonicalURI r')" "one_line sh'" "one_line ph'"
    and "distinct (map fst (r_Query r))" and "distinct (map fst (r_Query r'))"
  shows "r_Method r = r_Method r' \<and> canonicalURI r = canonicalURI r' \<and> sh = sh' \<and> ph = ph'
    \<and> (\<forall>k. mset (query_vals (r_Query r) k) = mset (query_vals (r_Query r') k))
    \<and> (\<forall>h\<in>set (split_on (CHR '';'') sh). signed_value r h = signed_value r' h)"
proof -
  have "canonical_lines (r_Method r) (canonicalURI r) (buildCanonicalQueryString (r_Query r) []) (header_lines r sh) sh ph
      = canonical_lines (r_Method r') (canonicalURI r') (buildCanonicalQueryString (r_Query r') []) (header_lines r' sh') sh' ph'"
    using arg_cong [OF assms(1), of "split_on (CHR 0x0A)"] assms(2-9) unfolding buildCanonicalRequest_def by (simp only: canonical_split)
  from canonical_lines_inj [OF this]
  have eqs: "r_Method r = r_Method r'" "canonicalURI r = canonicalURI r'" "sh = sh'" "ph = ph'"
      "\<forall>h\<in>set (split_on (CHR '';'') sh). signed_value r h = signed_value r' h"
    and q: "buildCanonicalQueryString (r_Query r) [] = buildCanonicalQueryString (r_Query r') []" by blast+
  have "sort (query_vals (r_Query r) k) = sort (query_vals (r_Query r') k)" for k
    using query_pairs_vals [OF assms(10), of k "[]"] query_pairs_vals [OF assms(11), of k "[]"] query_string_inj [OF q] by simp
  then have "mset (query_vals (r_Query r) k) = mset (query_vals (r_Query r') k)" for k
    by (metis mset_sort)
  with eqs show ?thesis by blast
qed

section \<open>Clock skew\<close>

lemma UTC_simps [simp]: "local_seconds (UTC (x * second)) = x" "t_abs (UTC y) = y"
  by (simp_all add: local_seconds_def UTC_def second_def)

lemma Format_compact_UTC: "Format_compact (UTC (local_seconds t * second)) = Format_compact t"
  by (simp add: Format_compact_def Format_date_def)

lemma skew_exact:
  "(let diff = time_Sub now t in \<not> (if diff < 0 then wrap64 (- diff) else diff) > maxClockSkew)
     \<longleftrightarrow> \<bar>now - t\<bar> \<le> maxClockSkew \<or> now - t \<le> minDuration"
proof -
  have m: "maxClockSkew = 900000000000" by (simp add: maxClockSkew_def second_def)
  consider "now - t \<le> minDuration" | "minDuration < now - t" "now - t < 0" | "0 \<le> now - t" "now - t < 2 ^ 63" | "2 ^ 63 \<le> now - t" by linarith
  then show ?thesis
  proof cases
    case 1
    then have "time_Sub now t = minDuration" by (auto simp: time_Sub_def minDuration_def Let_def)
    moreover have "wrap64 (- minDuration) = minDuration" "minDuration < 0" by (simp_all add: wrap64_def minDuration_def)
    ultimately show ?thesis using 1 m by (simp add: Let_def)
  next
    case 2
    then have d: "time_Sub now t = now - t" by (auto simp: time_Sub_def minDuration_def Let_def)
    have "wrap64 (- (now - t)) = - (now - t)" using 2 by (simp add: wrap64_def minDuration_def)
    with 2 d m show ?thesis by (simp add: Let_def minDuration_def not_less)
  next
    case 3
    then have d: "time_Sub now t = now - t" by (auto simp: time_Sub_def minDuration_def Let_def)
    with 3 m show ?thesis by (simp add: Let_def minDuration_def not_less)
  next
    case 4
    then have d: "time_Sub now t = 2 ^ 63 - 1" by (auto simp: time_Sub_def minDuration_def Let_def)
    with 4 m show ?thesis by (simp add: Let_def minDuration_def)
  qed
qed

lemma validateTimestamp_formatted:
  assumes "formattable t"
  shows "validateTimestamp P (Format_compact t) d now \<longleftrightarrow> d = Format_date t
    \<and> (\<bar>now - local_seconds t * second\<bar> \<le> maxClockSkew \<or> now - local_seconds t * second \<le> minDuration)"
proof -
  have "Format_compact t \<noteq> []" using Parse_Format(1) [OF assms] by auto
  then show ?thesis
    using Parse_Format [OF assms] skew_exact [of now "local_seconds t * second"]
    by (simp add: validateTimestamp_def parseTimestamp_def Format_date_UTC Let_def)
qed

section \<open>What acceptance means\<close>

definition key_user :: "string \<Rightarrow> tables \<Rightarrow> User option" where
  "key_user k t = find (\<lambda>u. u_SigV4AccessKeyID u \<noteq> [] \<and> u_SigV4AccessKeyID u = k) (users t)"

lemma GetBySigV4_Inr: "GetBySigV4AccessKeyID env k st = (Inr u, st1) \<Longrightarrow> key_user k (tabs st) = Some u \<and> tabs st1 = tabs st"
  by (auto simp: GetBySigV4AccessKeyID_def key_user_def scan_user_def dest!: query_Inr split: option.splits)

lemma GetBySigV4_tabs: "GetBySigV4AccessKeyID env k st = (r, st1) \<Longrightarrow> tabs st1 = tabs st"
  by (auto simp: GetBySigV4AccessKeyID_def dest: query_tabs)

text \<open>The instant of a signed request, and the time limits of both forms.\<close>

definition request_time :: "SigV4Authenticator \<Rightarrow> request \<Rightarrow> gotime option" where
  "request_time s r = parseTimestamp (sa_parseRFC1123 s)
     (if header_Get r ''X-Amz-Date'' = [] then header_Get r ''Date'' else header_Get r ''X-Amz-Date'')"

lemma authenticateHeader_Inr:
  assumes "authenticateHeader s r st = (Inr p, st')"
  obtains credential sh sig key date region service t u
  where "parseAuthorizationHeader (header_Get r ''Authorization'') = Some (credential, sh, sig)"
    and "validateSignedHeaders sh" and "parseCredential credential = Some (key, date, region, service)"
    and "request_time s r = Some t"
    and "validateTimestamp (sa_parseRFC1123 s) (Format_compact t) date (sa_Now s 0)"
    and "key_user key (tabs st) = Some u" and "u_IsActive u" and "tabs st' = tabs st"
    and "sig = computeSignature (sa_H s) (u_SigV4SecretKey u) date region service
           (buildStringToSign (sa_H s) (Format_compact t) credential (buildCanonicalRequest r sh (getPayloadHash r)))"
    and "p = sigv4_principal u sh (getPayloadHash r)"
  using assms
  by (auto simp: authenticateHeader_def request_time_def Let_def split: option.splits if_splits prod.splits sum.splits
      dest!: GetBySigV4_Inr)

section \<open>Collisions\<close>

definition signing_key :: "(bytes \<Rightarrow> bytes) \<Rightarrow> string \<Rightarrow> string \<Rightarrow> string \<Rightarrow> string \<Rightarrow> bytes" where
  "signing_key H secretKey date region service =
     hmac H (hmac H (hmac H (hmac H (''AWS4'' @ secretKey) date) region) service) sigV4Terminator"

lemma computeSignature_key: "computeSignature H secretKey date region service sts = hex_Encode (hmac H (signing_key H secretKey date region service) sts)"
  by (simp add: computeSignature_def signing_key_def Let_def)

lemma hex_Encode_inj: "hex_Encode a = hex_Encode b \<Longrightarrow> a = b"
  by (metis hex_roundtrip option.inject)

lemma buildStringToSign_last: "last (split_on (CHR 0x0A) (buildStringToSign H ts c q)) = hex_Encode (H q)"
proof -
  have "CHR 0x0A \<notin> set (hex_Encode (H q))" using hex_Encode_graphic [of "CHR 0x0A" "H q"] by (auto simp: graphic_def)
  then show ?thesis by (simp add: buildStringToSign_def Let_def split_on_append_sep split_on_no_sep)
qed

lemma string_to_sign_inj:
  assumes "buildStringToSign H ts1 c1 q1 = buildStringToSign H ts2 c2 q2"
  shows "q1 = q2 \<or> collides H q1 q2"
  using buildStringToSign_last [of H ts1 c1 q1] buildStringToSign_last [of H ts2 c2 q2] assms
  by (auto simp: collides_def dest: hex_Encode_inj)

lemma auth_params_chars:
  assumes "auth_params ps (a, b, c) = Some (a', b', c')"
  shows "set a' \<union> set b' \<union> set c' \<subseteq> set a \<union> set b \<union> set c \<union> \<Union> (set (map set ps))"
  using assms
proof (induction ps arbitrary: a b c)
  case (Cons p ps)
  have cut: "set v \<subseteq> set p" if "cut_at (CHR ''='') (TrimSpace p) = (k, v, True)" for k v
    using cut_at_found [OF that] TrimSpace_set [of p] by auto
  from Cons.prems obtain x y z where step: "auth_param p (a, b, c) = Some (x, y, z)" and rest: "auth_params ps (x, y, z) = Some (a', b', c')"
    by (auto split: option.splits)
  have "set x \<union> set y \<union> set z \<subseteq> set a \<union> set b \<union> set c \<union> set p"
    using step cut by (auto simp: auth_param_def Let_def split: if_splits prod.splits)
  with Cons.IH [OF rest] show ?case by auto
qed simp

lemma parseAuthorizationHeader_chars:
  assumes "parseAuthorizationHeader h = Some (a, b, c)"
  shows "set b \<subseteq> set h"
proof -
  let ?t = "TrimPrefix h (sigV4Algorithm @ '' '')"
  from assms have "auth_params (split_on (CHR '','') ?t) ([], [], []) = Some (a, b, c)"
    by (auto simp: parseAuthorizationHeader_def split: if_splits option.splits prod.splits)
  from auth_params_chars [OF this] have "set b \<subseteq> \<Union> (set (map set (split_on (CHR '','') ?t)))" by auto
  also have "\<dots> \<subseteq> set ?t" using split_on_chars [of _ "CHR '',''" ?t] by auto
  also have "\<dots> \<subseteq> set h" by (auto simp: TrimPrefix_def dest: in_set_dropD)
  finally show ?thesis .
qed

section \<open>Signing\<close>

text \<open>Visible ASCII without the separators of the signature header.\<close>

definition token :: "string \<Rightarrow> bool" where
  "token s \<longleftrightarrow> s \<noteq> [] \<and> (\<forall>c\<in>set s. graphic c \<and> c \<noteq> CHR '','')"

lemma tokenD: "token s \<Longrightarrow> s \<noteq> [] \<and> graphic (hd s) \<and> graphic (last s) \<and> CHR '','' \<notin> set s"
  by (auto simp: token_def)

lemma TrimSpace_blank: "token s \<Longrightarrow> TrimSpace (CHR '' '' # s) = s"
proof -
  assume t: "token s"
  have f: "find (\<lambda>e. prefix e (CHR '' '' # s)) space_encodings = Some [CHR 0x20]"
    by (simp add: space_encodings_def)
  have n: "find (\<lambda>e. prefix e s) space_encodings = None"
    using tokenD [OF t] by (intro no_space_prefix space_heads) auto
  have "strip_fuel (length (CHR '' '' # s)) space_encodings (CHR '' '' # s) = s"
    by (simp only: length_Cons strip_fuel.simps f option.case) (simp add: strip_fuel_id [OF n])
  moreover have "strip_fuel k (map rev space_encodings) (rev s) = rev s" for k
    using tokenD [OF t] by (intro strip_fuel_id no_space_prefix space_heads) (auto simp: hd_rev)
  ultimately show ?thesis unfolding TrimSpace_def Let_def by simp
qed

lemma TrimSpace_token: "token s \<Longrightarrow> TrimSpace s = s"
  using tokenD by (intro TrimSpace_id) blast

lemma token_append: "token a \<Longrightarrow> token b \<Longrightarrow> token (a @ b)"
  by (auto simp: token_def)

lemma auth_param_eq:
  assumes "token v" and "TrimSpace raw = k @ ''='' @ v" and "CHR ''='' \<notin> set k"
  shows "auth_param raw acc = (case acc of (a, b, c) \<Rightarrow>
     Some (if k = ''Credential'' then (v, b, c) else if k = ''SignedHeaders'' then (a, v, c) else if k = ''Signature'' then (a, b, v) else acc))"
  unfolding auth_param_def assms(2) Let_def using cut_at_append [OF assms(3), of v] by (simp split: prod.splits)

lemma split_three: "c \<notin> set x \<Longrightarrow> c \<notin> set y \<Longrightarrow> c \<notin> set z \<Longrightarrow> split_on c (x @ c # y @ c # z) = [x, y, z]"
  by (simp add: split_on_append_sep split_on_no_sep)

lemma parseAuthorizationHeader_format:
  assumes c: "token c" and h: "token h" and s: "token s"
  shows "parseAuthorizationHeader (sigV4Algorithm @ '' Credential='' @ c @ '', SignedHeaders='' @ h @ '', Signature='' @ s) = Some (c, h, s)"
proof -
  let ?w = "''Credential='' @ c @ '', SignedHeaders='' @ h @ '', Signature='' @ s"
  have k: "token ''Credential=''" "token ''SignedHeaders=''" "token ''Signature=''" by (simp_all add: token_def graphic_def)
  have "split_on (CHR '','') ?w = [''Credential='' @ c, CHR '' '' # ''SignedHeaders='' @ h, CHR '' '' # ''Signature='' @ s]"
  proof -
    have "?w = (''Credential='' @ c) @ CHR '','' # (CHR '' '' # ''SignedHeaders='' @ h) @ CHR '','' # (CHR '' '' # ''Signature='' @ s)" by simp
    then show ?thesis
      using tokenD [OF c] tokenD [OF h] tokenD [OF s] by (simp only:) (rule split_three, simp_all)
  qed
  moreover have "auth_param (''Credential='' @ c) acc = (case acc of (x, y, z) \<Rightarrow> Some (c, y, z))"
    "auth_param (CHR '' '' # ''SignedHeaders='' @ h) acc = (case acc of (x, y, z) \<Rightarrow> Some (x, h, z))"
    "auth_param (CHR '' '' # ''Signature='' @ s) acc = (case acc of (x, y, z) \<Rightarrow> Some (x, y, s))" for acc
    using auth_param_eq [OF c, of "''Credential='' @ c" "''Credential''" acc] TrimSpace_token [OF token_append [OF k(1) c]]
      auth_param_eq [OF h, of "CHR '' '' # ''SignedHeaders='' @ h" "''SignedHeaders''" acc] TrimSpace_blank [OF token_append [OF k(2) h]]
      auth_param_eq [OF s, of "CHR '' '' # ''Signature='' @ s" "''Signature''" acc] TrimSpace_blank [OF token_append [OF k(3) s]]
    by (simp_all split: prod.splits)
  ultimately have "auth_params (split_on (CHR '','') ?w) ([], [], []) = Some (c, h, s)" by (simp only: auth_params.simps option.case prod.case)
  moreover have "TrimPrefix (sigV4Algorithm @ '' '' @ ?w) (sigV4Algorithm @ '' '') = ?w"
    "HasPrefix (sigV4Algorithm @ '' '' @ ?w) (sigV4Algorithm @ '' '')" by (simp_all add: TrimPrefix_def HasPrefix_def)
  ultimately show ?thesis
    using tokenD [OF c] tokenD [OF h] tokenD [OF s] unfolding parseAuthorizationHeader_def by simp
qed

lemma values_Get_Set: "values_Get (values_Set vs k v) n = (if k = n then v else values_Get vs n)"
  by (simp add: values_Get_def values_Set_def update_conv')

lemma header_Get_Set: "header_Get (header_Set r k v) n = (if ToLower k = ToLower n then v else header_Get r n)"
  by (simp add: header_Get_def header_Set_def values_Get_Set)

lemma header_Set_same [simp]:
  "r_Method (header_Set r k v) = r_Method r" "r_EscapedPath (header_Set r k v) = r_EscapedPath r"
  "r_Query (header_Set r k v) = r_Query r" "r_Host (header_Set r k v) = r_Host r"
  by (simp_all add: header_Set_def)

lemma canonical_other_header:
  assumes "\<forall>h\<in>set (split_on (CHR '';'') sh). ToLower h \<noteq> ToLower k"
  shows "buildCanonicalRequest (header_Set r k v) sh ph = buildCanonicalRequest r sh ph"
proof -
  have "header_lines (header_Set r k v) sh = header_lines r sh"
    unfolding header_lines_def by (rule map_cong [OF refl]) (use assms in \<open>auto simp: signed_value_def header_Get_Set\<close>)
  then show ?thesis by (simp add: buildCanonicalRequest_def buildCanonicalHeaders_lines canonicalURI_def)
qed

lemma digits_token: "list_all is_digit s \<Longrightarrow> s \<noteq> [] \<Longrightarrow> token s \<and> CHR ''/'' \<notin> set s"
proof -
  assume "list_all is_digit s" and ne: "s \<noteq> []"
  then have "graphic c \<and> c \<noteq> CHR '','' \<and> c \<noteq> CHR ''/''" if "c \<in> set s" for c
    using that is_digit_graphic [of c] by (auto simp: list_all_iff is_digit_def)
  with ne show ?thesis by (auto simp: token_def)
qed

lemma parseCredential_of:
  assumes "CHR ''/'' \<notin> set key" and "key \<noteq> []" and "CHR ''/'' \<notin> set region" and "region \<noteq> []"
    and "length date = 8" and "list_all is_digit date"
  shows "parseCredential (credential_of key date region ''s3'') = Some (key, date, region, ''s3'')"
proof -
  have "CHR ''/'' \<notin> set date" using digits_token [OF assms(6)] assms(5) by (cases date) auto
  moreover have "CHR ''/'' \<notin> set sigV4Terminator" by (simp add: sigV4Terminator_def)
  ultimately have "split_on (CHR ''/'') (credential_of key date region ''s3'') = [key, date, region, ''s3'', sigV4Terminator]"
    using assms(1,3) by (simp add: credential_of_def split_on_append_sep split_on_no_sep)
  then show ?thesis using assms by (simp add: parseCredential_def)
qed

lemma token_credential: "token key \<Longrightarrow> token region \<Longrightarrow> token date \<Longrightarrow> token (credential_of key date region ''s3'')"
  by (auto simp: token_def credential_of_def sigV4Terminator_def graphic_def)

lemma token_join: "hs \<noteq> [] \<Longrightarrow> \<forall>h\<in>set hs. token h \<Longrightarrow> token (join_with '';'' hs)"
proof (induction "'';''" hs rule: join_with.induct)
  case (3 x y ys)
  then have "token (join_with '';'' (y # ys))" "token x" by simp_all
  moreover have "token '';''" by (simp add: token_def graphic_def)
  ultimately show ?case unfolding join_with.simps by (intro token_append)
qed simp_all

lemma hex_Encode_alnum: "c \<in> set (hex_Encode bs) \<Longrightarrow> graphic c \<and> c \<noteq> CHR '',''"
proof (induction bs)
  case (Cons b bs)
  have "\<forall>n\<in>set [0..<16]. graphic (hex_digit n) \<and> hex_digit n \<noteq> CHR '',''" by code_simp
  then have d: "n < 16 \<Longrightarrow> graphic (hex_digit n) \<and> hex_digit n \<noteq> CHR '',''" for n by simp
  have "of_char b div 16 < (16 :: nat)" using of_char_less [of b] by (simp add: less_mult_imp_div_less)
  with Cons d [of "of_char b div 16"] d [of "of_char b mod 16"] show ?case by (auto simp: Let_def)
qed simp

lemma token_signature: "\<forall>x. length (H x) = 32 \<Longrightarrow> token (computeSignature H k d rg sv m)"
proof -
  assume "\<forall>x. length (H x) = 32"
  then have "length (computeSignature H k d rg sv m) = 64" by (simp add: computeSignature_key hex_Encode_length hmac_def)
  then have ne: "computeSignature H k d rg sv m \<noteq> []" by auto
  have "graphic c \<and> c \<noteq> CHR '',''" if "c \<in> set (computeSignature H k d rg sv m)" for c
    using that hex_Encode_alnum unfolding computeSignature_key by fastforce
  with ne show ?thesis by (simp add: token_def)
qed

text \<open>What \<open>SignRequestAt\<close> may be asked to sign.\<close>

definition signable :: "string \<Rightarrow> string \<Rightarrow> string list \<Rightarrow> bool" where
  "signable key region hs \<longleftrightarrow> token key \<and> CHR ''/'' \<notin> set key \<and> token region \<and> CHR ''/'' \<notin> set region \<and> ''host'' \<in> set hs
     \<and> (\<forall>h\<in>set hs. token h \<and> CHR '';'' \<notin> set h \<and> ToLower h \<noteq> ''authorization'')"

definition payload_free :: "request \<Rightarrow> string \<Rightarrow> bool" where
  "payload_free r ph \<longleftrightarrow> ph \<notin> {[], unsignedPayload} \<or> header_Get r ''X-Amz-Content-SHA256'' \<in> {[], unsignedPayload}"

lemma lower_names: "ToLower ''X-Amz-Date'' = ''x-amz-date''" "ToLower ''Host'' = ''host''" "ToLower ''Date'' = ''date''"
  "ToLower ''X-Amz-Content-SHA256'' = ''x-amz-content-sha256''" "ToLower ''Authorization'' = ''authorization''"
  by code_simp+

end
