(* ===== verification/SigV4Laws.thy ===== *)
theory SigV4Laws
  imports SigV4Proofs
begin

text \<open>
  The properties of request signing: what is signed is accepted, what is accepted was signed, a signature is
  good for one request, and for how long it is.
\<close>

section \<open>Signing and verifying\<close>

lemma signed_headers:
  assumes "signable key region hs"
  shows "split_on (CHR '';'') (join_with '';'' hs) = hs" and "validateSignedHeaders (join_with '';'' hs)" and "token (join_with '';'' hs)"
proof -
  have hs: "hs \<noteq> []" "''host'' \<in> set hs" "\<forall>h\<in>set hs. CHR '';'' \<notin> set h" "\<forall>h\<in>set hs. token h"
    using assms by (auto simp: signable_def)
  show s: "split_on (CHR '';'') (join_with '';'' hs) = hs" using hs(1,3) by (rule split_join)
  show "validateSignedHeaders (join_with '';'' hs)" unfolding validateSignedHeaders_def s using hs(2) by (auto simp: list_ex_iff)
  show "token (join_with '';'' hs)" using hs(1,4) by (rule token_join)
qed

lemma token_one_line: "token s \<Longrightarrow> one_line s"
proof -
  have "\<not> graphic CHR 0x0A" by (simp add: graphic_def)
  then show "token s \<Longrightarrow> one_line s" unfolding token_def one_line_def by blast
qed

lemma SignRequestAt_same:
  "r_Method (SignRequestAt H r0 key secret region service hs ph now) = r_Method r0"
  "r_Query (SignRequestAt H r0 key secret region service hs ph now) = r_Query r0"
  "canonicalURI (SignRequestAt H r0 key secret region service hs ph now) = canonicalURI r0"
  by (simp_all add: SignRequestAt_def Let_def canonicalURI_def)

lemma SignRequestAt_shape:
  fixes now :: gotime
  defines "ph' \<equiv> \<lambda>ph. if ph = [] then unsignedPayload else ph"
  obtains r3 where "SignRequestAt H r0 key secret region service hs ph now =
      header_Set r3 ''Authorization'' (sigV4Algorithm @ '' Credential='' @ credential_of key (Format_date now) region service @
        '', SignedHeaders='' @ join_with '';'' hs @ '', Signature='' @ computeSignature H secret (Format_date now) region service
          (buildStringToSign H (Format_compact now) (credential_of key (Format_date now) region service)
            (buildCanonicalRequest r3 (join_with '';'' hs) (ph' ph))))"
    and "header_Get r3 ''X-Amz-Date'' = Format_compact now"
    and "payload_free r0 ph \<Longrightarrow> getPayloadHash r3 = ph' ph"
proof -
  let ?ph = "ph' ph"
  define r1 where "r1 = header_Set r0 ''X-Amz-Date'' (Format_compact now)"
  define r2 where "r2 = (if header_Get r1 ''Host'' = [] \<and> r_Host r1 \<noteq> [] then header_Set r1 ''Host'' (r_Host r1) else r1)"
  define r3 where "r3 = (if ?ph \<noteq> unsignedPayload then header_Set r2 ''X-Amz-Content-SHA256'' ?ph else r2)"
  show ?thesis
  proof (rule that [of r3])
    show "SignRequestAt H r0 key secret region service hs ph now =
      header_Set r3 ''Authorization'' (sigV4Algorithm @ '' Credential='' @ credential_of key (Format_date now) region service @
        '', SignedHeaders='' @ join_with '';'' hs @ '', Signature='' @ computeSignature H secret (Format_date now) region service
          (buildStringToSign H (Format_compact now) (credential_of key (Format_date now) region service)
            (buildCanonicalRequest r3 (join_with '';'' hs) (ph' ph))))"
      unfolding SignRequestAt_def Let_def r3_def r2_def r1_def ph'_def ..
    show "header_Get r3 ''X-Amz-Date'' = Format_compact now"
      by (simp add: r3_def r2_def r1_def header_Get_Set lower_names)
    show "getPayloadHash r3 = ph' ph" if "payload_free r0 ph"
      using that by (auto simp: payload_free_def getPayloadHash_def Let_def ph'_def r3_def r2_def r1_def header_Get_Set lower_names unsignedPayload_def)
  qed
qed

lemma authenticateHeader_signed:
  assumes sha: "\<forall>x. length (sa_H s x) = 32" and sign: "signable key region hs" and free: "payload_free r0 ph"
    and fmt: "formattable now"
    and user: "GetBySigV4AccessKeyID (sa_env s) key st = (Inr u, st1)" "u_IsActive u"
  shows "authenticateHeader s (SignRequestAt (sa_H s) r0 key (u_SigV4SecretKey u) region ''s3'' hs ph now) st =
    (let skew = sa_Now s 0 - local_seconds now * second in
     if \<bar>skew\<bar> \<le> maxClockSkew \<or> skew \<le> - (2 ^ 63)
     then (Inr (sigv4_principal u (join_with '';'' hs) (if ph = [] then unsignedPayload else ph)), st1)
     else (Inl ErrInvalidCredentials, st))"
    and "\<exists>sig. parseAuthorizationHeader (header_Get (SignRequestAt (sa_H s) r0 key (u_SigV4SecretKey u) region ''s3'' hs ph now) ''Authorization'')
      = Some (credential_of key (Format_date now) region ''s3'', join_with '';'' hs, sig)"
    and "HasPrefix (header_Get (SignRequestAt (sa_H s) r0 key (u_SigV4SecretKey u) region ''s3'' hs ph now) ''Authorization'') sigV4Algorithm"
    and "header_Get (SignRequestAt (sa_H s) r0 key (u_SigV4SecretKey u) region ''s3'' hs ph now) ''Authorization'' \<noteq> []"
    and "parseCredential (credential_of key (Format_date now) region ''s3'') = Some (key, Format_date now, region, ''s3'')"
    and "one_line (header_Get (SignRequestAt (sa_H s) r0 key (u_SigV4SecretKey u) region ''s3'' hs ph now) ''Authorization'')"
proof -
  let ?H = "sa_H s" and ?sh = "join_with '';'' hs" and ?ph = "if ph = [] then unsignedPayload else ph"
  let ?R = "SignRequestAt ?H r0 key (u_SigV4SecretKey u) region ''s3'' hs ph now"
  let ?c = "credential_of key (Format_date now) region ''s3''" and ?P = "sa_parseRFC1123 s"
  obtain r3 where r: "SignRequestAt ?H r0 key (u_SigV4SecretKey u) region ''s3'' hs ph now =
      header_Set r3 ''Authorization'' (sigV4Algorithm @ '' Credential='' @ ?c @ '', SignedHeaders='' @ ?sh @ '', Signature='' @
        computeSignature ?H (u_SigV4SecretKey u) (Format_date now) region ''s3''
          (buildStringToSign ?H (Format_compact now) ?c (buildCanonicalRequest r3 ?sh ?ph)))"
    and date: "header_Get r3 ''X-Amz-Date'' = Format_compact now" and hash: "getPayloadHash r3 = ?ph"
    using SignRequestAt_shape [of ?H r0 key "u_SigV4SecretKey u" region "''s3''" hs ph now] free by blast
  let ?sig = "computeSignature ?H (u_SigV4SecretKey u) (Format_date now) region ''s3''
          (buildStringToSign ?H (Format_compact now) ?c (buildCanonicalRequest r3 ?sh ?ph))"
  let ?A = "sigV4Algorithm @ '' Credential='' @ ?c @ '', SignedHeaders='' @ ?sh @ '', Signature='' @ ?sig"
  let ?r = "header_Set r3 ''Authorization'' ?A"
  note fd = Format_date_digits [OF fmt] and sh = signed_headers [OF sign]
  have sg: "token key" "CHR ''/'' \<notin> set key" "token region" "CHR ''/'' \<notin> set region" "\<forall>h\<in>set hs. ToLower h \<noteq> ''authorization''"
    using sign by (auto simp: signable_def)
  have "Format_date now \<noteq> []" using fd by auto
  then have "token (Format_date now)" using digits_token [of "Format_date now"] fd by blast
  then have tk: "token ?c" "token ?sh" "token ?sig"
    using token_credential [OF sg(1,3)] sh(3) token_signature [OF sha] by blast+
  then have A: "header_Get ?r ''Authorization'' = ?A" "parseAuthorizationHeader ?A = Some (?c, ?sh, ?sig)"
    using parseAuthorizationHeader_format by (simp_all add: header_Get_Set)
  have cred: "parseCredential ?c = Some (key, Format_date now, region, ''s3'')"
    using fd sg tokenD [OF sg(1)] tokenD [OF sg(3)] by (intro parseCredential_of) auto
  have d: "header_Get ?r ''X-Amz-Date'' = Format_compact now" "getPayloadHash ?r = ?ph"
    using date hash by (simp_all add: header_Get_Set lower_names getPayloadHash_def)
  have ne: "Format_compact now \<noteq> []" and ts: "parseTimestamp ?P (Format_compact now) = Some (UTC (local_seconds now * second))"
    using Parse_Format [OF fmt] by (auto simp: parseTimestamp_def)
  let ?w = "\<bar>sa_Now s 0 - local_seconds now * second\<bar> \<le> maxClockSkew \<or> sa_Now s 0 - local_seconds now * second \<le> - (2 ^ 63)"
  have valid: "validateTimestamp ?P (Format_compact now) (Format_date now) (sa_Now s 0) \<longleftrightarrow> ?w"
    using validateTimestamp_formatted [OF fmt] by (simp only: minDuration_def simp_thms)
  have canon: "buildCanonicalRequest ?r ?sh ?ph = buildCanonicalRequest r3 ?sh ?ph"
    using sg(5) sh(1) by (intro canonical_other_header) (simp add: lower_names)
  have "authenticateHeader s ?r st = (if ?w then (Inr (sigv4_principal u ?sh ?ph), st1) else (Inl ErrInvalidCredentials, st))"
    unfolding authenticateHeader_def A option.case prod.case cred Let_def d valid [symmetric]
    using ne sh(2) ts user canon by (simp add: Format_compact_UTC)
  then show "authenticateHeader s ?R st = (let skew = sa_Now s 0 - local_seconds now * second in
     if \<bar>skew\<bar> \<le> maxClockSkew \<or> skew \<le> - (2 ^ 63)
     then (Inr (sigv4_principal u (join_with '';'' hs) (if ph = [] then unsignedPayload else ph)), st1)
     else (Inl ErrInvalidCredentials, st))" unfolding r Let_def .
  show "\<exists>sig. parseAuthorizationHeader (header_Get ?R ''Authorization'') = Some (?c, ?sh, sig)" unfolding r A(1) using A(2) by blast
  show "HasPrefix (header_Get ?R ''Authorization'') sigV4Algorithm" "header_Get ?R ''Authorization'' \<noteq> []"
    unfolding r A(1) by (simp_all add: HasPrefix_def sigV4Algorithm_def)
  show "parseCredential ?c = Some (key, Format_date now, region, ''s3'')" by (rule cred)
  show "one_line (header_Get ?R ''Authorization'')"
    unfolding r A(1) using tk [THEN token_one_line] by (simp add: one_line_def sigV4Algorithm_def)
qed

section \<open>What the query form accepts\<close>

lemma parseCredential_service: "parseCredential c = Some (key, date, region, service) \<Longrightarrow> service = ''s3''"
  by (auto simp: parseCredential_def split: list.splits if_splits)

lemma guard_InrE: "(if b then (Inl e, st) else x) = (Inr p, st') \<Longrightarrow> (\<not> b \<Longrightarrow> x = (Inr p, st') \<Longrightarrow> P) \<Longrightarrow> P"
  by (auto split: if_splits)

lemma option_InrE: "(case m of None \<Rightarrow> (Inl e, st) | Some y \<Rightarrow> f y) = (Inr p, st') \<Longrightarrow> (\<And>y. m = Some y \<Longrightarrow> f y = (Inr p, st') \<Longrightarrow> P) \<Longrightarrow> P"
  by (auto split: option.splits)

lemma quad_InrE: "(case y of (a, b, c, d) \<Rightarrow> f a b c d) = z \<Longrightarrow> (\<And>a b c d. y = (a, b, c, d) \<Longrightarrow> f a b c d = z \<Longrightarrow> P) \<Longrightarrow> P"
  by (cases y) auto

lemma lookup_InrE:
  "(case m of (Inl e, s1) \<Rightarrow> (Inl (g e), s1) | (Inr u, s1) \<Rightarrow> f u s1) = (Inr p, st')
     \<Longrightarrow> (\<And>u s1. m = (Inr u, s1) \<Longrightarrow> f u s1 = (Inr p, st') \<Longrightarrow> P) \<Longrightarrow> P"
  by (auto split: prod.splits sum.splits)

lemma authenticateQuery_Inr:
  assumes "authenticateQuery s r st = (Inr p, st')"
  obtains key date region service sh ph t n u
  where "parseCredential (query_Get r ''X-Amz-Credential'') = Some (key, date, region, service)" and "validateSignedHeaders sh"
    and "parseTimestamp (sa_parseRFC1123 s) (query_Get r ''X-Amz-Date'') = Some t" and "date = Format_date t"
    and "t_abs t \<le> sa_Now s 1 + maxClockSkew" and "Atoi (query_Get r ''X-Amz-Expires'') = Some n" and "0 < n" and "n \<le> 604800"
    and "sa_Now s 2 \<le> t_abs t + n * second" and "key_user key (tabs st) = Some u" and "u_IsActive u"
    and "query_Get r ''X-Amz-Signature'' = computeSignature (sa_H s) (u_SigV4SecretKey u) date region service
        (buildStringToSign (sa_H s) (query_Get r ''X-Amz-Date'') (query_Get r ''X-Amz-Credential'') (buildCanonicalRequestForQuery r sh ph))"
    and "p = sigv4_principal u sh ph"
  using assms unfolding authenticateQuery_def Let_def
proof (elim guard_InrE option_InrE quad_InrE lookup_InrE, goal_cases)
  case (1 y key date region service t n u st1)
  let ?ph = "if query_Get r ''X-Amz-Content-SHA256'' = [] then unsignedPayload else query_Get r ''X-Amz-Content-SHA256''"
  have "key_user key (tabs st) = Some u" by (rule conjunct1 [OF GetBySigV4_Inr]) (use 1 in blast)
  then show ?case
    by (intro that [of key date region service "query_Get r ''X-Amz-SignedHeaders''" t n u ?ph]) (use 1 in \<open>simp_all only: not_not not_less not_le de_Morgan_disj prod.inject sum.inject\<close>)
qed

section \<open>Properties\<close>

text \<open>
  C28: a request signed with a user's secret is authenticated as that user, whatever the
  request, the headers signed and the payload hash, exactly in the time window of the verifier: within
  fifteen minutes of its clock, or, because the 64-bit clock difference saturates and its negation overflows,
  at any instant at least \<open>2 ^ 63\<close> nanoseconds (292 years) ahead.  Outside the window it is rejected.
\<close>

theorem signed_request_accepted:
  assumes sha: "\<forall>x. length (sa_H s x) = 32" and sign: "signable key region hs" and free: "payload_free r0 ph"
    and fmt: "formattable now"
    and user: "GetBySigV4AccessKeyID (sa_env s) key st = (Inr u, st1)" "u_IsActive u"
  shows "SigV4_Authenticate s (SignRequestAt (sa_H s) r0 key (u_SigV4SecretKey u) region ''s3'' hs ph now) st =
    (let skew = sa_Now s 0 - local_seconds now * second in
     if \<bar>skew\<bar> \<le> maxClockSkew \<or> skew \<le> - (2 ^ 63)
     then (Inr (sigv4_principal u (join_with '';'' hs) (if ph = [] then unsignedPayload else ph)), st1)
     else (Inl ErrInvalidCredentials, st))"
  using authenticateHeader_signed(1,3,4) [OF assms] by (simp add: SigV4_Authenticate_def Let_def)

text \<open>
  C30: a signature is good for one request only.  When the same \<open>Authorization\<close> header
  is accepted on two requests, both have the same method, path, query parameters, signed headers and payload
  hash, unless SHA-256 collides on one of three pairs of inputs the verification itself computes: the two
  canonical requests, or the two inputs of one of the two hash calls inside the final HMAC.
\<close>

theorem signature_binds_request:
  assumes "authenticateHeader s r1 st = (Inr p1, st1)" and "authenticateHeader s r2 st' = (Inr p2, st2)"
    and "tabs st' = tabs st" and same: "header_Get r2 ''Authorization'' = header_Get r1 ''Authorization''"
    and "parseAuthorizationHeader (header_Get r1 ''Authorization'') = Some (credential, sh, sig)"
    and "parseCredential credential = Some (key, date, region, service)" and "key_user key (tabs st) = Some u"
    and "one_line (r_Method r1)" "one_line (canonicalURI r1)" "one_line (getPayloadHash r1)"
    and "one_line (r_Method r2)" "one_line (canonicalURI r2)" "one_line (getPayloadHash r2)"
    and "one_line (header_Get r1 ''Authorization'')"
    and "distinct (map fst (r_Query r1))" and "distinct (map fst (r_Query r2))"
  shows "(r_Method r1 = r_Method r2 \<and> canonicalURI r1 = canonicalURI r2
      \<and> (\<forall>k. mset (query_vals (r_Query r1) k) = mset (query_vals (r_Query r2) k))
      \<and> (\<forall>h\<in>set (split_on (CHR '';'') sh). signed_value r1 h = signed_value r2 h)
      \<and> getPayloadHash r1 = getPayloadHash r2)
    \<or> (let H = sa_H s;
           c1 = buildCanonicalRequest r1 sh (getPayloadHash r1); c2 = buildCanonicalRequest r2 sh (getPayloadHash r2);
           m = (\<lambda>r c. buildStringToSign H (case request_time s r of Some t \<Rightarrow> Format_compact t | None \<Rightarrow> []) credential c)
       in collides H c1 c2 \<or> hmac_collides H (signing_key H (u_SigV4SecretKey u) date region service) (m r1 c1) (m r2 c2))"
proof -
  let ?c1 = "buildCanonicalRequest r1 sh (getPayloadHash r1)" and ?c2 = "buildCanonicalRequest r2 sh (getPayloadHash r2)"
  let ?k = "signing_key (sa_H s) (u_SigV4SecretKey u) date region service"
  from assms(1) obtain t1 where 1: "request_time s r1 = Some t1"
    "sig = computeSignature (sa_H s) (u_SigV4SecretKey u) date region service (buildStringToSign (sa_H s) (Format_compact t1) credential ?c1)"
    by (rule authenticateHeader_Inr) (use assms in auto)
  from assms(2) obtain t2 where 2: "request_time s r2 = Some t2"
    "sig = computeSignature (sa_H s) (u_SigV4SecretKey u) date region service (buildStringToSign (sa_H s) (Format_compact t2) credential ?c2)"
    by (rule authenticateHeader_Inr) (use assms in auto)
  have "hmac (sa_H s) ?k (buildStringToSign (sa_H s) (Format_compact t1) credential ?c1)
      = hmac (sa_H s) ?k (buildStringToSign (sa_H s) (Format_compact t2) credential ?c2)"
    using 1(2) 2(2) unfolding computeSignature_key by (auto dest: hex_Encode_inj)
  from hmac_collision [OF this] string_to_sign_inj
  have "?c1 = ?c2 \<or> collides (sa_H s) ?c1 ?c2 \<or> hmac_collides (sa_H s) ?k
      (buildStringToSign (sa_H s) (Format_compact t1) credential ?c1) (buildStringToSign (sa_H s) (Format_compact t2) credential ?c2)" by blast
  moreover have "one_line sh"
    using parseAuthorizationHeader_chars [OF assms(5)] assms(14) by (auto simp: one_line_def)
  note inj = canonical_request_inj [OF _ assms(8,9) this assms(10) assms(11,12) this assms(13) assms(15,16)]
  ultimately show ?thesis unfolding Let_def 1(1) 2(1) option.case using inj by blast
qed

text \<open>
  C29: whatever SigV4 authentication accepts carries the signature that an active user's stored
  secret gives over this very request, with the host among the signed headers, and is fresh.  A presigned URL
  is at most fifteen minutes early and no older than its expiry, which is at most a week.  A signed header is
  within fifteen minutes of the clock, or dated at least \<open>2 ^ 63\<close> nanoseconds ahead of it, where the 64-bit
  difference saturates and its negation overflows.
\<close>

theorem accepted_was_signed:
  assumes "SigV4_Authenticate s r st = (Inr p, st')"
  shows "\<exists>u credential date region sh ph t. key_user (u_SigV4AccessKeyID u) (tabs st) = Some u \<and> u_IsActive u
    \<and> p = sigv4_principal u sh ph \<and> ''host'' \<in> set (split_on (CHR '';'') sh)
    \<and> parseCredential credential = Some (u_SigV4AccessKeyID u, date, region, ''s3'')
    \<and> (let sign = (\<lambda>when canonical. computeSignature (sa_H s) (u_SigV4SecretKey u) date region ''s3''
                      (buildStringToSign (sa_H s) when credential canonical)) in
       parseAuthorizationHeader (header_Get r ''Authorization'') = Some (credential, sh, sign (Format_compact t) (buildCanonicalRequest r sh ph))
         \<and> ph = getPayloadHash r \<and> request_time s r = Some t
         \<and> (formattable t \<longrightarrow> date = Format_date t
              \<and> (\<bar>sa_Now s 0 - local_seconds t * second\<bar> \<le> maxClockSkew \<or> sa_Now s 0 - local_seconds t * second \<le> - (2 ^ 63)))
     \<or> query_Get r ''X-Amz-Signature'' = sign (query_Get r ''X-Amz-Date'') (buildCanonicalRequestForQuery r sh ph)
         \<and> parseTimestamp (sa_parseRFC1123 s) (query_Get r ''X-Amz-Date'') = Some t \<and> date = Format_date t
         \<and> t_abs t \<le> sa_Now s 1 + maxClockSkew
         \<and> (\<exists>n. Atoi (query_Get r ''X-Amz-Expires'') = Some n \<and> 0 < n \<and> n \<le> 604800 \<and> sa_Now s 2 \<le> t_abs t + n * second))"
proof (cases "header_Get r ''Authorization'' = []")
  case False
  then have "authenticateHeader s r st = (Inr p, st')" using assms by (auto simp: SigV4_Authenticate_def Let_def split: if_splits)
  then show ?thesis
  proof (rule authenticateHeader_Inr)
    fix credential sh sig key date region service t u
    assume *: "parseAuthorizationHeader (header_Get r ''Authorization'') = Some (credential, sh, sig)" "validateSignedHeaders sh"
      "parseCredential credential = Some (key, date, region, service)" "request_time s r = Some t"
      "validateTimestamp (sa_parseRFC1123 s) (Format_compact t) date (sa_Now s 0)" "key_user key (tabs st) = Some u" "u_IsActive u"
      "sig = computeSignature (sa_H s) (u_SigV4SecretKey u) date region service
        (buildStringToSign (sa_H s) (Format_compact t) credential (buildCanonicalRequest r sh (getPayloadHash r)))"
      "p = sigv4_principal u sh (getPayloadHash r)"
    have s3: "service = ''s3''" using *(3) by (rule parseCredential_service)
    have k: "key = u_SigV4AccessKeyID u" using *(6) by (auto simp: key_user_def dest: find_SomeD)
    have h: "''host'' \<in> set (split_on (CHR '';'') sh)" using *(2) by (auto simp: validateSignedHeaders_def list_ex_iff)
    have w: "formattable t \<longrightarrow> date = Format_date t
        \<and> (\<bar>sa_Now s 0 - local_seconds t * second\<bar> \<le> maxClockSkew \<or> sa_Now s 0 - local_seconds t * second \<le> - (2 ^ 63))"
      using *(5) validateTimestamp_formatted [of t "sa_parseRFC1123 s" date "sa_Now s 0"] unfolding minDuration_def by blast
    show ?thesis unfolding Let_def
      by (intro exI [of _ u] exI [of _ credential] exI [of _ date] exI [of _ region] exI [of _ sh] exI [of _ "getPayloadHash r"] exI [of _ t]
          conjI [OF *(6) [unfolded k] conjI [OF *(7) conjI [OF *(9) conjI [OF h conjI [OF *(3) [unfolded k s3] disjI1]]]]]
          conjI [OF *(1) [unfolded *(8) s3] conjI [OF refl conjI [OF *(4) w]]])
  qed
next
  case True
  then have "authenticateQuery s r st = (Inr p, st')" using assms by (auto simp: SigV4_Authenticate_def Let_def split: if_splits)
  then show ?thesis
  proof (rule authenticateQuery_Inr)
    fix key date region service sh ph t n u
    assume *: "parseCredential (query_Get r ''X-Amz-Credential'') = Some (key, date, region, service)" "validateSignedHeaders sh"
      "parseTimestamp (sa_parseRFC1123 s) (query_Get r ''X-Amz-Date'') = Some t" "date = Format_date t"
      "t_abs t \<le> sa_Now s 1 + maxClockSkew" "Atoi (query_Get r ''X-Amz-Expires'') = Some n" "0 < n" "n \<le> 604800"
      "sa_Now s 2 \<le> t_abs t + n * second" "key_user key (tabs st) = Some u" "u_IsActive u"
      "query_Get r ''X-Amz-Signature'' = computeSignature (sa_H s) (u_SigV4SecretKey u) date region service
        (buildStringToSign (sa_H s) (query_Get r ''X-Amz-Date'') (query_Get r ''X-Amz-Credential'') (buildCanonicalRequestForQuery r sh ph))"
      "p = sigv4_principal u sh ph"
    have s3: "service = ''s3''" using *(1) by (rule parseCredential_service)
    have k: "key = u_SigV4AccessKeyID u" using *(10) by (auto simp: key_user_def dest: find_SomeD)
    have h: "''host'' \<in> set (split_on (CHR '';'') sh)" using *(2) by (auto simp: validateSignedHeaders_def list_ex_iff)
    show ?thesis unfolding Let_def
      by (intro exI [of _ u] exI [of _ "query_Get r ''X-Amz-Credential''"] exI [of _ date] exI [of _ region] exI [of _ sh] exI [of _ ph] exI [of _ t]
          conjI [OF *(10) [unfolded k] conjI [OF *(11) conjI [OF *(13) conjI [OF h conjI [OF *(1) [unfolded k s3] disjI2]]]]]
          conjI [OF *(12) [unfolded s3] conjI [OF *(3) conjI [OF *(4) conjI [OF *(5)]]]] exI [of _ n]
          conjI [OF *(6) conjI [OF *(7) conjI [OF *(8,9)]]])
  qed
qed

section \<open>Witnesses\<close>

definition sample_verifier :: SigV4Authenticator where
  "sample_verifier = \<lparr>sa_env = sample_denv, sa_H = sample_hash, sa_Now = (\<lambda>n. 0), sa_parseRFC1123 = (\<lambda>s. None)\<rparr>"

definition plain_request :: request where
  "plain_request = \<lparr>r_Method = ''GET'', r_bucket = ''b'', r_rest = ''k'', r_code = [], r_Query = [(''list-type'', [''2''])], r_Header = [],
     r_Body = [], r_Principal = None, r_EscapedPath = ''/b/k'', r_Host = ''localhost''\<rparr>"

lemma second_pos: "0 \<le> second" "9300000000 * second = 9300000000000000000"
  by (simp_all add: second_def)

lemma sample_verifier_simps: "sa_env sample_verifier = sample_denv" "sa_H sample_verifier = sample_hash" "sa_Now sample_verifier n = 0"
  by (simp_all add: sample_verifier_def)

lemma sample_hash_32: "\<forall>x. length (sa_H sample_verifier x) = 32"
  by (simp add: sample_verifier_simps sample_hash_def min_def)

lemma sample_signable: "signable ''Vm'' ''us-east-1'' [''host'']"
  by (simp add: signable_def token_def graphic_def ToLower_def lower_char_def)

lemma sample_lookup: "GetBySigV4AccessKeyID sample_denv ''Vm'' sample_db = (Inr (sample_user ''m'' RoleMember), db_step sample_db)"
  by code_simp

lemma sample_times:
  "formattable (UTC 0)" "formattable (UTC (9300000000 * second))"
  by (simp_all add: formattable_def local_seconds_def UTC_def second_def civil_def year_of_days_def days_before_year_def Let_def)

lemma signed_request_accepted_witness:
  "(let sign = SignRequestAt sample_hash plain_request ''Vm'' ''enc'' ''us-east-1'' ''s3'' [''host''] [] in
    fst (SigV4_Authenticate sample_verifier (sign (UTC 0)) sample_db)
      = Inr (sigv4_principal (sample_user ''m'' RoleMember) ''host'' unsignedPayload)
  \<and> fst (SigV4_Authenticate sample_verifier (sign (UTC (9300000000 * second))) sample_db)
      = Inr (sigv4_principal (sample_user ''m'' RoleMember) ''host'' unsignedPayload))"
proof -
  have p: "payload_free plain_request []" by (simp add: payload_free_def plain_request_def header_Get_def values_Get_def)
  have u: "u_IsActive (sample_user ''m'' RoleMember)" "u_SigV4SecretKey (sample_user ''m'' RoleMember) = ''enc''" by (simp_all add: sample_user_def)
  note acc = signed_request_accepted [OF sample_hash_32 sample_signable p _ sample_lookup [folded sample_verifier_simps(1)] u(1), unfolded u sample_verifier_simps Let_def]
  have "local_seconds (UTC 0) = 0" "local_seconds (UTC (9300000000 * second)) = 9300000000" by (simp_all add: local_seconds_def UTC_def second_def)
  then show ?thesis using acc [OF sample_times(1)] acc [OF sample_times(2)]
    by (simp only: Let_def) (simp add: second_pos maxClockSkew_def)
qed

abbreviation signed_sample :: request where
  "signed_sample \<equiv> SignRequestAt sample_hash plain_request ''Vm'' ''enc'' ''us-east-1'' ''s3'' [''host''] [] (UTC 0)"

lemma sample_signed:
  "authenticateHeader sample_verifier signed_sample sample_db = (Inr (sigv4_principal (sample_user ''m'' RoleMember) ''host'' unsignedPayload), db_step sample_db)"
  "\<exists>sig. parseAuthorizationHeader (header_Get signed_sample ''Authorization'') = Some (credential_of ''Vm'' (Format_date (UTC 0)) ''us-east-1'' ''s3'', ''host'', sig)"
  "HasPrefix (header_Get signed_sample ''Authorization'') sigV4Algorithm" "header_Get signed_sample ''Authorization'' \<noteq> []"
  "parseCredential (credential_of ''Vm'' (Format_date (UTC 0)) ''us-east-1'' ''s3'') = Some (''Vm'', Format_date (UTC 0), ''us-east-1'', ''s3'')"
  "one_line (header_Get signed_sample ''Authorization'')"
proof -
  have p: "payload_free plain_request []" by (simp add: payload_free_def plain_request_def header_Get_def values_Get_def)
  have u: "u_IsActive (sample_user ''m'' RoleMember)" "u_SigV4SecretKey (sample_user ''m'' RoleMember) = ''enc''" by (simp_all add: sample_user_def)
  note acc = authenticateHeader_signed [OF sample_hash_32 sample_signable p sample_times(1) sample_lookup [folded sample_verifier_simps(1)] u(1),
      unfolded u sample_verifier_simps Let_def]
  have "local_seconds (UTC 0) = 0" by (simp add: local_seconds_def UTC_def)
  then show "authenticateHeader sample_verifier signed_sample sample_db = (Inr (sigv4_principal (sample_user ''m'' RoleMember) ''host'' unsignedPayload), db_step sample_db)"
    using acc(1) by (simp add: maxClockSkew_def second_pos)
  show "\<exists>sig. parseAuthorizationHeader (header_Get signed_sample ''Authorization'') = Some (credential_of ''Vm'' (Format_date (UTC 0)) ''us-east-1'' ''s3'', ''host'', sig)"
    using acc(2) by simp
  show "HasPrefix (header_Get signed_sample ''Authorization'') sigV4Algorithm" "header_Get signed_sample ''Authorization'' \<noteq> []"
    "parseCredential (credential_of ''Vm'' (Format_date (UTC 0)) ''us-east-1'' ''s3'') = Some (''Vm'', Format_date (UTC 0), ''us-east-1'', ''s3'')"
    "one_line (header_Get signed_sample ''Authorization'')"
    by (rule acc)+
qed

lemma accepted_was_signed_witness:
  "\<exists>u. u_IsActive u \<and> key_user (u_SigV4AccessKeyID u) (tabs sample_db) = Some u"
proof -
  have "SigV4_Authenticate sample_verifier signed_sample sample_db
      = (Inr (sigv4_principal (sample_user ''m'' RoleMember) ''host'' unsignedPayload), db_step sample_db)"
    using sample_signed by (simp add: SigV4_Authenticate_def Let_def)
  from accepted_was_signed [OF this] show ?thesis by blast
qed

lemma signature_binds_request_witness:
  "\<exists>sig. parseAuthorizationHeader (header_Get signed_sample ''Authorization'') = Some (credential_of ''Vm'' (Format_date (UTC 0)) ''us-east-1'' ''s3'', ''host'', sig)
    \<and> ((r_Method signed_sample = r_Method signed_sample \<and> canonicalURI signed_sample = canonicalURI signed_sample
      \<and> (\<forall>k. mset (query_vals (r_Query signed_sample) k) = mset (query_vals (r_Query signed_sample) k))
      \<and> (\<forall>h\<in>set (split_on (CHR '';'') ''host''). signed_value signed_sample h = signed_value signed_sample h)
      \<and> getPayloadHash signed_sample = getPayloadHash signed_sample)
    \<or> (let H = sa_H sample_verifier;
           c = buildCanonicalRequest signed_sample ''host'' (getPayloadHash signed_sample);
           m = (\<lambda>r c. buildStringToSign H (case request_time sample_verifier r of Some t \<Rightarrow> Format_compact t | None \<Rightarrow> [])
             (credential_of ''Vm'' (Format_date (UTC 0)) ''us-east-1'' ''s3'') c)
       in collides H c c \<or> hmac_collides H (signing_key H (u_SigV4SecretKey (sample_user ''m'' RoleMember)) (Format_date (UTC 0)) ''us-east-1'' ''s3'')
            (m signed_sample c) (m signed_sample c)))"
proof -
  from sample_signed(2) obtain sig where sig: "parseAuthorizationHeader (header_Get signed_sample ''Authorization'')
      = Some (credential_of ''Vm'' (Format_date (UTC 0)) ''us-east-1'' ''s3'', ''host'', sig)" by blast
  have "header_Get plain_request n = []" for n by (simp add: plain_request_def header_Get_def values_Get_def)
  then have ph: "getPayloadHash signed_sample = unsignedPayload"
    by (simp add: SignRequestAt_def Let_def getPayloadHash_def header_Get_Set lower_names)
  have l: "one_line (r_Method signed_sample)" "one_line (canonicalURI signed_sample)" "one_line (getPayloadHash signed_sample)"
    "distinct (map fst (r_Query signed_sample))"
    unfolding ph SignRequestAt_same by (simp_all add: one_line_def plain_request_def canonicalURI_def unsignedPayload_def)
  have u: "key_user ''Vm'' (tabs sample_db) = Some (sample_user ''m'' RoleMember)" by code_simp
  from sig signature_binds_request [OF sample_signed(1) sample_signed(1) refl refl sig sample_signed(5) u l(1,2,3) l(1,2,3) sample_signed(6) l(4) l(4)]
  show ?thesis unfolding Let_def by blast
qed

end
