(* ===== verification/AuthLaws.thy ===== *)
theory AuthLaws
  imports Auth SigV4Laws
begin

text \<open>
  Properties of authentication as a whole: what the chain accepts, that a rejected request changes nothing,
  and that the token and the signing key \<open>CreateBearerToken\<close> issues are accepted as their user.
\<close>

section \<open>Authenticators only read\<close>

lemma GetByAccessKeyID_tabs: "GetByAccessKeyID env k st = (r, st1) \<Longrightarrow> tabs st1 = tabs st"
  by (auto simp: GetByAccessKeyID_def andThen_def split: prod.splits sum.splits dest: query_tabs)

lemma GetByAccessKeyID_Inr:
  assumes "GetByAccessKeyID env k st = (Inr u, st1)"
  shows "\<exists>v\<in>set (users (tabs st)). u_AccessKeyID v = k \<and> u = v\<lparr>u_SigV4SecretKey := []\<rparr>"
  using assms by (auto simp: GetByAccessKeyID_def andThen_Inr scan_user_def dest!: query_Inr find_SomeD split: option.splits)

text \<open>What an authenticator of the chain promises: it leaves the tables alone and vouches only for active users.\<close>

locale sound_authenticator =
  fixes authenticate :: authenticator
  assumes reads_only: "authenticate r st = (res, st') \<Longrightarrow> tabs st' = tabs st"
    and vouches: "authenticate r st = (Inr p, st') \<Longrightarrow>
      \<exists>u\<in>set (users (tabs st)). u_IsActive u \<and> p_UserID p = u_ID u \<and> p_Role p = u_Role u \<and> \<not> p_DevMode p"

interpretation bearer: sound_authenticator "Bearer_Authenticate H env" for H env
proof unfold_locales
  fix r st res st'
  assume "Bearer_Authenticate H env r st = (res, st')"
  then show "tabs st' = tabs st"
    by (auto simp: Bearer_Authenticate_def Let_def split: if_splits prod.splits sum.splits dest!: GetByAccessKeyID_tabs)
next
  fix r st p st'
  assume "Bearer_Authenticate H env r st = (Inr p, st')"
  then obtain k u s1 where "GetByAccessKeyID env k st = (Inr u, s1)" "u_IsActive u" "p = bearer_principal u"
    by (auto simp: Bearer_Authenticate_def Let_def split: if_splits prod.splits sum.splits)
  with GetByAccessKeyID_Inr [OF this(1)]
  show "\<exists>u\<in>set (users (tabs st)). u_IsActive u \<and> p_UserID p = u_ID u \<and> p_Role p = u_Role u \<and> \<not> p_DevMode p"
    by (auto simp: bearer_principal_def)
qed

definition same_tabs :: "db \<Rightarrow> 'a \<times> db \<Rightarrow> bool" where
  "same_tabs st x \<longleftrightarrow> tabs (snd x) = tabs st"

lemma same_tabs_rules:
  "tabs s1 = tabs st \<Longrightarrow> same_tabs st (a, s1)"
  "(b \<Longrightarrow> same_tabs st x) \<Longrightarrow> (\<not> b \<Longrightarrow> same_tabs st y) \<Longrightarrow> same_tabs st (if b then x else y)"
  "same_tabs st n \<Longrightarrow> (\<And>y. same_tabs st (f y)) \<Longrightarrow> same_tabs st (case m of None \<Rightarrow> n | Some y \<Rightarrow> f y)"
  "(\<And>a b. same_tabs st (g a b)) \<Longrightarrow> same_tabs st (case z of (a, b) \<Rightarrow> g a b)"
  by (auto simp: same_tabs_def split: option.splits prod.splits)

lemma same_tabs_lookup:
  "(\<And>u s1. tabs s1 = tabs st \<Longrightarrow> same_tabs st (f u s1))
     \<Longrightarrow> same_tabs st (case GetBySigV4AccessKeyID env k st of (Inl e, s1) \<Rightarrow> (Inl (h e), s1) | (Inr u, s1) \<Rightarrow> f u s1)"
proof -
  assume f: "\<And>u s1. tabs s1 = tabs st \<Longrightarrow> same_tabs st (f u s1)"
  obtain r s1 where run: "GetBySigV4AccessKeyID env k st = (r, s1)" by fastforce
  show ?thesis unfolding run using f [OF GetBySigV4_tabs [OF run]] GetBySigV4_tabs [OF run] by (cases r) (simp_all add: same_tabs_def)
qed

lemma authenticateHeader_tabs: "same_tabs st (authenticateHeader s r st)"
  unfolding authenticateHeader_def Let_def by (rule same_tabs_lookup same_tabs_rules refl | assumption)+

lemma authenticateQuery_tabs: "same_tabs st (authenticateQuery s r st)"
  unfolding authenticateQuery_def Let_def by (rule same_tabs_lookup same_tabs_rules refl | assumption)+

interpretation sigv4: sound_authenticator "SigV4_Authenticate s" for s
proof unfold_locales
  fix r st res st'
  assume "SigV4_Authenticate s r st = (res, st')"
  then show "tabs st' = tabs st"
    using authenticateHeader_tabs [of st s r] authenticateQuery_tabs [of st s r]
    by (auto simp: SigV4_Authenticate_def Let_def same_tabs_def split: if_splits)
next
  fix r st p st'
  assume "SigV4_Authenticate s r st = (Inr p, st')"
  then consider "authenticateHeader s r st = (Inr p, st')" | "authenticateQuery s r st = (Inr p, st')"
    by (auto simp: SigV4_Authenticate_def Let_def split: if_splits)
  then obtain k u sh ph where "key_user k (tabs st) = Some u" "u_IsActive u" "p = sigv4_principal u sh ph"
    by cases (erule authenticateHeader_Inr, blast, erule authenticateQuery_Inr, blast)
  then show "\<exists>u\<in>set (users (tabs st)). u_IsActive u \<and> p_UserID p = u_ID u \<and> p_Role p = u_Role u \<and> \<not> p_DevMode p"
    by (auto simp: key_user_def sigv4_principal_def dest!: find_SomeD)
qed

lemma chain_sound:
  assumes "\<forall>a\<in>set as. sound_authenticator a" and "chain_loop as err r st = (res, st')"
  shows "tabs st' = tabs st \<and> (\<forall>p. res = Inr p \<longrightarrow>
    (\<exists>u\<in>set (users (tabs st)). u_IsActive u \<and> p_UserID p = u_ID u \<and> p_Role p = u_Role u \<and> \<not> p_DevMode p))"
  using assms
proof (induction as arbitrary: err st)
  case (Cons a as)
  have a: "sound_authenticator a" using Cons.prems by auto
  obtain r1 s1 where run: "a r st = (r1, s1)" by fastforce
  have t: "tabs s1 = tabs st" by (rule sound_authenticator.reads_only [OF a run])
  show ?case
  proof (cases r1)
    case (Inl e)
    with Cons.prems(2) run obtain err' where "chain_loop as err' r s1 = (res, st')" by auto
    from Cons.IH [OF _ this] Cons.prems(1) t show ?thesis by simp
  next
    case (Inr q)
    with Cons.prems(2) run have "res = Inr q" "st' = s1" by auto
    with t sound_authenticator.vouches [OF a, of r st q s1] run Inr show ?thesis by simp
  qed
qed auto

lemma newAuthChain_sound: "\<forall>a\<in>set (newAuthChain False s). sound_authenticator a"
  using bearer.sound_authenticator_axioms sigv4.sound_authenticator_axioms by (simp add: newAuthChain_def)

section \<open>Bearer tokens\<close>

lemma no_space_head: "graphic c \<Longrightarrow> find (\<lambda>e. prefix e (c # cs)) space_encodings = None"
  by (intro no_space_prefix space_heads) simp

lemma fields_word: "\<forall>c\<in>set w. graphic c \<Longrightarrow> fields_loop 0 cur (w @ rest) = fields_loop 0 (rev w @ cur) rest"
  by (induction w arbitrary: cur) (simp_all add: no_space_head)

lemma Fields_first:
  assumes "\<forall>c\<in>set a. graphic c" "a \<noteq> []"
  shows "Fields (a @ CHR '' '' # b) = a # fields_loop 0 [] b"
proof -
  have sp: "find (\<lambda>e. prefix e (CHR '' '' # b)) space_encodings = Some [CHR 0x20]" by (simp add: space_encodings_def)
  have "Fields (a @ CHR '' '' # b) = fields_loop 0 (rev a) (CHR '' '' # b)" using fields_word [OF assms(1), of "[]"] by (simp add: Fields_def)
  also have "\<dots> = [a] @ fields_loop 0 [] b" using assms(2) by (simp only: fields_loop.simps sp option.case) simp
  finally show ?thesis by simp
qed

lemma Fields_two:
  assumes "\<forall>c\<in>set a. graphic c" "a \<noteq> []" and "\<forall>c\<in>set b. graphic c" "b \<noteq> []"
  shows "Fields (a @ CHR '' '' # b) = [a, b]"
  using Fields_first [OF assms(1,2), of b] fields_word [OF assms(3), of "[]" "[]"] assms(4) by simp

lemma bearer_ignores_sigv4:
  assumes "parseAuthorizationHeader (header_Get r ''Authorization'') = Some x"
  shows "Bearer_Authenticate H env r st = (Inl ErrNotApplicable, st)"
proof -
  from assms obtain b where b: "header_Get r ''Authorization'' = sigV4Algorithm @ CHR '' '' # b"
    by (auto simp: parseAuthorizationHeader_def HasPrefix_def prefix_def split: if_splits)
  have "\<forall>c\<in>set sigV4Algorithm. graphic c" "sigV4Algorithm \<noteq> []" by (simp_all add: sigV4Algorithm_def graphic_def)
  note f = Fields_first [OF this, of b]
  have e: "\<not> EqualFold sigV4Algorithm ''Bearer''" by code_simp
  show ?thesis unfolding Bearer_Authenticate_def b Let_def f using e by simp
qed

lemma bearer_accepts:
  assumes "header_Get r ''Authorization'' = ''Bearer '' @ key @ ''.'' @ secret"
    and "key \<noteq> []" "CHR ''.'' \<notin> set key" "\<forall>c\<in>set key. graphic c" and "secret \<noteq> []" "\<forall>c\<in>set secret. graphic c"
    and "GetByAccessKeyID env key st = (Inr u, st1)" and "u_SecretHash u = hashSecret H secret" and "u_IsActive u"
  shows "Bearer_Authenticate H env r st = (Inr (bearer_principal u), st1)"
proof -
  have f: "Fields (''Bearer '' @ key @ ''.'' @ secret) = [''Bearer'', key @ ''.'' @ secret]"
  proof -
    have "\<forall>c\<in>set ''Bearer''. graphic c" "graphic CHR ''.''" by (simp_all add: graphic_def)
    with Fields_two [of "''Bearer''" "key @ ''.'' @ secret"] assms(4,6) show ?thesis by (simp add: ball_Un)
  qed
  have e: "EqualFold ''Bearer'' ''Bearer''" by (simp add: EqualFold_def)
  have c: "cut_at (CHR ''.'') (key @ ''.'' @ secret) = (key, secret, True)" using cut_at_append [OF assms(3), of secret] by simp
  have v: "verifySecret H secret (u_SecretHash u)" by (simp add: verifySecret_def assms(8) hashSecret_def hex_roundtrip)
  have ne: "''Bearer '' @ key @ ''.'' @ secret \<noteq> []" by simp
  show ?thesis
    unfolding Bearer_Authenticate_def assms(1) Let_def f if_not_P [OF ne]
    by (simp only: list.sel nth_Cons_0 nth_Cons_Suc One_nat_def length_Cons list.size c prod.case) (simp add: e assms(2,5,7,9) v)
qed

lemma generated_id:
  assumes "generateID draw i p = Inr k" and "\<forall>c\<in>set p. graphic c \<and> c \<notin> {CHR ''.'', CHR ''/'', CHR '',''}" and "p \<noteq> []"
  shows "k \<noteq> [] \<and> (\<forall>c\<in>set k. graphic c \<and> c \<notin> {CHR ''.'', CHR ''/'', CHR '',''})"
proof -
  have "\<forall>n\<in>set [0..<16]. hex_digit n \<notin> {CHR ''.'', CHR ''/'', CHR '',''}" by code_simp
  then have d: "n < 16 \<Longrightarrow> hex_digit n \<notin> {CHR ''.'', CHR ''/'', CHR '',''}" for n by simp
  have "c \<notin> {CHR ''.'', CHR ''/'', CHR '',''}" if "c \<in> set (hex_Encode bs)" for c bs
    using that
  proof (induction bs)
    case (Cons b bs)
    have "of_char b div 16 < (16 :: nat)" using of_char_less [of b] by (simp add: less_mult_imp_div_less)
    with Cons d [of "of_char b div 16"] d [of "of_char b mod 16"] show ?case by (auto simp: Let_def)
  qed simp
  moreover obtain bs where "k = p @ hex_Encode bs" using assms(1) by (auto simp: generateID_def split: option.splits)
  ultimately show ?thesis using assms(2,3) hex_Encode_graphic by auto
qed

lemma url_alphabet_graphic: "n < 64 \<Longrightarrow> graphic (url_alphabet ! n)"
proof -
  assume "n < 64"
  then have "url_alphabet ! n \<in> set url_alphabet" using alphabets(2) by (intro nth_mem) (simp add: good_alphabet_def)
  moreover have "list_all graphic url_alphabet" by code_simp
  ultimately show ?thesis by (simp add: list_all_iff)
qed

lemma base64url_graphic: "\<forall>c\<in>set (b64_Encode url_alphabet False bs). graphic c"
proof (induction url_alphabet False bs rule: b64_Encode.induct)
  case (2 a)
  show ?case using sextets [OF of_char_less [of a] of_char_less [of a] of_char_less [of a]] by (simp add: Let_def url_alphabet_graphic)
next
  case (3 a b)
  show ?case using sextets [OF of_char_less [of a] of_char_less [of b] of_char_less [of b]] by (simp add: Let_def url_alphabet_graphic)
next
  case (4 a b c r)
  then show ?case using sextets [OF of_char_less [of a] of_char_less [of b] of_char_less [of c]] by (simp add: Let_def url_alphabet_graphic)
qed simp

lemma generated_secret:
  assumes "generateSecret draw i = Inr s" and "\<forall>i n b. draw i n = Some b \<longrightarrow> length b = n"
  shows "s \<noteq> [] \<and> (\<forall>c\<in>set s. graphic c)"
proof -
  from assms obtain b where b: "s = RawURLEncoding_Encode b" "length b = 32" by (auto simp: generateSecret_def split: option.splits)
  have "b64_Encode url_alphabet False b \<noteq> []" using b(2) by (cases "(url_alphabet, False, b)" rule: b64_Encode.cases) (auto simp: Let_def)
  with base64url_graphic [of b] b(1) show ?thesis by (simp add: RawURLEncoding_Encode_def)
qed

lemma insert_user_found:
  assumes "insertUser env u st = (Inr (), st1)"
  shows "users (tabs st1) = users (tabs st) @ [u]" and "u_AccessKeyID u \<notin> u_AccessKeyID ` set (users (tabs st))"
    and "u_SigV4AccessKeyID u \<noteq> [] \<Longrightarrow> u_SigV4AccessKeyID u \<notin> u_SigV4AccessKeyID ` set (users (tabs st))"
  using assms by (auto simp: insertUser_def insert_user_def dest!: sql_Inr [THEN sym] split: if_splits)

lemma query_ok: "\<not> db_fails env (db_tick st) \<Longrightarrow> query env f st = (f (tabs st), db_step st)"
  by (auto simp: query_def sql_def db_step_def split: sum.splits)

lemma lookup_inserted:
  assumes "users (tabs st) = us @ [u]" and "\<not> db_fails env (db_tick st)"
  shows "u_AccessKeyID u \<notin> u_AccessKeyID ` set us \<Longrightarrow> GetByAccessKeyID env (u_AccessKeyID u) st = (Inr (u\<lparr>u_SigV4SecretKey := []\<rparr>), db_step st)"
    and "u_SigV4AccessKeyID u \<noteq> [] \<Longrightarrow> u_SigV4AccessKeyID u \<notin> u_SigV4AccessKeyID ` set us
      \<Longrightarrow> GetBySigV4AccessKeyID env (u_SigV4AccessKeyID u) st = (Inr u, db_step st)"
proof -
  have found: "find P (us @ [u]) = Some u" if "P u" "\<forall>v\<in>set us. \<not> P v" for P
    using that by (induction us) auto
  show "GetByAccessKeyID env (u_AccessKeyID u) st = (Inr (u\<lparr>u_SigV4SecretKey := []\<rparr>), db_step st)"
    if "u_AccessKeyID u \<notin> u_AccessKeyID ` set us"
  proof -
    have "find (\<lambda>v. u_AccessKeyID v = u_AccessKeyID u) (us @ [u]) = Some u" 
      by (rule found) (use that in \<open>auto simp: image_iff dest: sym\<close>)
    then show ?thesis by (simp add: GetByAccessKeyID_def andThen_def query_ok [OF assms(2)] assms(1) scan_user_def ret_def)
  qed
  show "GetBySigV4AccessKeyID env (u_SigV4AccessKeyID u) st = (Inr u, db_step st)"
    if "u_SigV4AccessKeyID u \<noteq> []" "u_SigV4AccessKeyID u \<notin> u_SigV4AccessKeyID ` set us"
  proof -
    have "find (\<lambda>v. u_SigV4AccessKeyID v \<noteq> [] \<and> u_SigV4AccessKeyID v = u_SigV4AccessKeyID u) (us @ [u]) = Some u"
      by (rule found) (use that in \<open>auto simp: image_iff dest: sym\<close>)
    then show ?thesis by (simp add: GetBySigV4AccessKeyID_def query_ok [OF assms(2)] assms(1) scan_user_def)
  qed
qed

section \<open>Properties\<close>

text \<open>
  Accepted principals: without development mode the chain the server builds returns a principal only for a
  user that is stored and active at that moment, with that user's identity and role, and never one
  marked as a development principal.
\<close>

theorem chain_accepts_active_users:
  assumes "Chain_Authenticate (newAuthChain False s) r st = (Inr p, st')"
  shows "\<exists>u\<in>set (users (tabs st)). u_IsActive u \<and> p_UserID p = u_ID u \<and> p_Role p = u_Role u \<and> \<not> p_DevMode p"
  using chain_sound [OF newAuthChain_sound assms [unfolded Chain_Authenticate_def]] by blast

text \<open>
  C31: behind \<open>RequireAuthentication\<close> every request the chain rejects is answered
  by the error responder with status 401, 403 or 500 and neither reaches the handler nor changes a
  table or the disk; a request with neither an \<open>Authorization\<close> header nor SigV4
  parameters is always among them.
\<close>

theorem rejected_requests_change_nothing:
  "case Chain_Authenticate (newAuthChain False s) r (w_db w) of
      (Inl e, st) \<Rightarrow> (\<exists>w'. RequireAuthentication (Chain_Authenticate (newAuthChain False s)) writeS3AuthError h r w = (Inl (writeS3AuthError r e), w')
          \<and> status (writeS3AuthError r e) \<in> {401, 403, 500} \<and> w_disk w' = w_disk w \<and> tabs (w_db w') = tabs (w_db w))
    | (Inr p, st) \<Rightarrow> \<not> (header_Get r ''Authorization'' = [] \<and> query_Get r ''X-Amz-Algorithm'' = [])"
proof (cases "Chain_Authenticate (newAuthChain False s) r (w_db w)")
  case (Pair res st)
  have t: "tabs st = tabs (w_db w)"
    using chain_sound [OF newAuthChain_sound Pair [unfolded Chain_Authenticate_def]] by blast
  show ?thesis
  proof (cases res)
    case (Inl e)
    have "status (writeS3AuthError r e) \<in> {401, 403, 500}"
      by (simp add: writeS3AuthError_def WriteS3Error_def WriteS3Error_msg_def Let_def)
    then show ?thesis using Pair Inl t by (simp add: RequireAuthentication_def)
  next
    case (Inr p)
    have "\<not> (header_Get r ''Authorization'' = [] \<and> query_Get r ''X-Amz-Algorithm'' = [])"
    proof
      assume "header_Get r ''Authorization'' = [] \<and> query_Get r ''X-Amz-Algorithm'' = []"
      then have "Chain_Authenticate (newAuthChain False s) r (w_db w) = (Inl ErrMissingAuth, w_db w)"
        by (simp add: Chain_Authenticate_def newAuthChain_def Bearer_Authenticate_def SigV4_Authenticate_def)
      with Pair Inr show False by simp
    qed
    then show ?thesis using Pair Inr by simp
  qed
qed

lemma chain_signed:
  assumes "parseAuthorizationHeader (header_Get r ''Authorization'') = Some x" and "SigV4_Authenticate s r st = (Inr p, st1)"
  shows "Chain_Authenticate (newAuthChain False s) r st = (Inr p, st1)"
  using bearer_ignores_sigv4 [OF assms(1)] assms(2) by (simp add: Chain_Authenticate_def newAuthChain_def)

text \<open>
  C32: the credentials \<open>CreateBearerToken\<close> returns work at once.  The server's chain of
  authenticators accepts both the request that presents the issued token and any request signed with the issued SigV4
  key and secret within fifteen minutes of the server's clock, each with the new user's identity, name and
  role; the returned user carries no secret.
\<close>

theorem issued_token_accepted:
  assumes rand: "\<forall>i n b. draw i n = Some b \<longrightarrow> length b = n" and sha: "\<forall>x. length (sa_H s x) = 32"
    and run: "CreateBearerToken (sa_H s) draw uuid (sa_env s) name role st = (Inr (issued, creds, user), st1)"
    and ok: "\<not> db_fails (sa_env s) (db_tick st1)"
    and hdr: "header_Get r ''Authorization'' = ''Bearer '' @ it_RawToken issued"
    and region: "token region" "CHR ''/'' \<notin> set region"
    and hs: "''host'' \<in> set hs" "\<forall>h\<in>set hs. token h \<and> CHR '';'' \<notin> set h \<and> ToLower h \<noteq> ''authorization''"
    and free: "payload_free r0 ph" and fmt: "formattable now"
    and time: "\<bar>sa_Now s 0 - local_seconds now * second\<bar> \<le> maxClockSkew"
  shows "Chain_Authenticate (newAuthChain False s) r st1 =
      (Inr \<lparr>p_UserID = uuid, p_DisplayName = name, p_AccessKeyID = it_AccessKeyID issued, p_Role = role, p_DevMode = False,
            p_SignedHeaders = [], p_SignedPayloadHash = []\<rparr>, db_step st1)
    \<and> Chain_Authenticate (newAuthChain False s)
        (SignRequestAt (sa_H s) r0 (sc_AccessKeyID creds) (sc_SecretKey creds) region ''s3'' hs ph now) st1 =
      (Inr \<lparr>p_UserID = uuid, p_DisplayName = name, p_AccessKeyID = sc_AccessKeyID creds, p_Role = role, p_DevMode = False,
            p_SignedHeaders = join_with '';'' hs, p_SignedPayloadHash = (if ph = [] then unsignedPayload else ph)\<rparr>, db_step st1)
    \<and> u_SecretHash user = [] \<and> u_SigV4SecretKey user = []"
proof -
  let ?H = "sa_H s" and ?env = "sa_env s"
  from run obtain key secret u where gen: "generateID draw 0 tokenPrefix = Inr key" "generateSecret draw 1 = Inr secret"
      "generateID draw 2 sigV4Prefix = Inr (sc_AccessKeyID creds)"
    and issued: "issued = \<lparr>it_AccessKeyID = key, it_RawToken = key @ ''.'' @ secret, it_SecretHash = hashSecret ?H secret\<rparr>"
    and u: "u = \<lparr>u_ID = uuid, u_DisplayName = name, u_AccessKeyID = key, u_SecretHash = hashSecret ?H secret,
        u_SigV4AccessKeyID = sc_AccessKeyID creds, u_SigV4SecretKey = sc_SecretKey creds, u_Role = role, u_IsActive = True,
        u_CreatedAt = Now ?env st, u_UpdatedAt = Now ?env st\<rparr>" "insertUser ?env u st = (Inr (), st1)"
    and user: "user = u\<lparr>u_SecretHash := [], u_SigV4SecretKey := []\<rparr>"
    by (auto simp: CreateBearerToken_def createUserCredentials_def IssueBearerToken_def IssueSigV4Credentials_def generateAccessKeyID_def
        user_Create_def Let_def split: sum.splits prod.splits)
  have p: "\<forall>c\<in>set tokenPrefix. graphic c \<and> c \<notin> {CHR ''.'', CHR ''/'', CHR '',''}"
    "\<forall>c\<in>set sigV4Prefix. graphic c \<and> c \<notin> {CHR ''.'', CHR ''/'', CHR '',''}" "tokenPrefix \<noteq> []" "sigV4Prefix \<noteq> []"
    by (simp_all add: tokenPrefix_def sigV4Prefix_def graphic_def)
  note k = generated_id [OF gen(1) p(1,3)] and v = generated_id [OF gen(3) p(2,4)] and sec = generated_secret [OF gen(2) rand]
  note ins = insert_user_found [OF u(2)]
  have kk: "key \<noteq> []" "CHR ''.'' \<notin> set key" "\<forall>c\<in>set key. graphic c" using k by blast+
  have key: "u_AccessKeyID u = key" "u_SigV4AccessKeyID u = sc_AccessKeyID creds" "u_SigV4SecretKey u = sc_SecretKey creds" "u_IsActive u"
    by (simp_all add: u(1))
  have get: "GetByAccessKeyID ?env key st1 = (Inr (u\<lparr>u_SigV4SecretKey := []\<rparr>), db_step st1)"
    "GetBySigV4AccessKeyID ?env (sc_AccessKeyID creds) st1 = (Inr u, db_step st1)"
    using lookup_inserted [OF ins(1) ok] ins(2,3) v unfolding key by blast+
  have "Bearer_Authenticate ?H ?env r st1 = (Inr (bearer_principal (u\<lparr>u_SigV4SecretKey := []\<rparr>)), db_step st1)"
    using hdr kk sec get(1) by (intro bearer_accepts [where key = key and secret = secret]) (simp_all add: issued u(1))
  then have bearer: "Chain_Authenticate (newAuthChain False s) r st1 = (Inr (bearer_principal (u\<lparr>u_SigV4SecretKey := []\<rparr>)), db_step st1)"
    by (simp add: Chain_Authenticate_def newAuthChain_def)
  have "token (sc_AccessKeyID creds)" "CHR ''/'' \<notin> set (sc_AccessKeyID creds)" using v unfolding token_def by blast+
  with region hs have "signable (sc_AccessKeyID creds) region hs" unfolding signable_def by blast
  note acc = authenticateHeader_signed [OF sha this free fmt get(2) key(4), unfolded key]
  have "SigV4_Authenticate s (SignRequestAt ?H r0 (sc_AccessKeyID creds) (sc_SecretKey creds) region ''s3'' hs ph now) st1 =
      (Inr (sigv4_principal u (join_with '';'' hs) (if ph = [] then unsignedPayload else ph)), db_step st1)"
    using acc(1,3,4) time by (simp add: SigV4_Authenticate_def Let_def)
  with acc(2) chain_signed
  have "Chain_Authenticate (newAuthChain False s)
      (SignRequestAt ?H r0 (sc_AccessKeyID creds) (sc_SecretKey creds) region ''s3'' hs ph now) st1 =
      (Inr (sigv4_principal u (join_with '';'' hs) (if ph = [] then unsignedPayload else ph)), db_step st1)" by blast
  with bearer show ?thesis by (simp add: bearer_principal_def sigv4_principal_def issued u(1) user)
qed

section \<open>Witnesses\<close>

definition sample_draw :: entropy where
  "sample_draw i n = Some (replicate n (char_of (48 + i)))"

definition sample_issue :: "(IssuedToken \<times> SigV4Credentials \<times> User) result \<times> db" where
  "sample_issue = CreateBearerToken sample_hash sample_draw ''new'' sample_denv ''New User'' RoleMember sample_db"

definition token_request :: "string \<Rightarrow> request" where
  "token_request tok = plain_request\<lparr>r_Header := [(''authorization'', [''Bearer '' @ tok])]\<rparr>"

lemma token_request_header: "header_Get (token_request tok) ''Authorization'' = ''Bearer '' @ tok"
  by (simp add: token_request_def header_Get_def values_Get_def lower_names)

lemma sample_issue_ok: "\<exists>issued creds user st1. sample_issue = (Inr (issued, creds, user), st1)"
proof -
  have "is_ok (fst sample_issue)" by code_simp
  then show ?thesis unfolding is_ok_iff by (metis prod.collapse)
qed

lemma issued_token_accepted_witness:
  "\<exists>issued creds user st1 p q st2. sample_issue = (Inr (issued, creds, user), st1)
    \<and> Chain_Authenticate (newAuthChain False sample_verifier) (token_request (it_RawToken issued)) st1 = (Inr p, st2) \<and> p_UserID p = ''new''
    \<and> Chain_Authenticate (newAuthChain False sample_verifier)
        (SignRequestAt sample_hash plain_request (sc_AccessKeyID creds) (sc_SecretKey creds) ''us-east-1'' ''s3'' [''host''] [] (UTC 0)) st1 = (Inr q, st2)
    \<and> p_UserID q = ''new''"
proof -
  from sample_issue_ok obtain issued creds user st1 where run: "sample_issue = (Inr (issued, creds, user), st1)" by blast
  have r: "\<forall>i n b. sample_draw i n = Some b \<longrightarrow> length b = n" by (simp add: sample_draw_def)
  have f: "\<not> db_fails (sa_env sample_verifier) (db_tick st1)" by (simp add: sample_verifier_simps sample_denv_def)
  have sc: "token ''us-east-1''" "CHR ''/'' \<notin> set ''us-east-1''" "''host'' \<in> set [''host'']"
    "\<forall>h\<in>set [''host'']. token h \<and> CHR '';'' \<notin> set h \<and> ToLower h \<noteq> ''authorization''"
    using sample_signable unfolding signable_def by blast+
  have p: "payload_free plain_request []" by (simp add: payload_free_def plain_request_def header_Get_def values_Get_def)
  have t: "\<bar>sa_Now sample_verifier 0 - local_seconds (UTC 0) * second\<bar> \<le> maxClockSkew"
    by (simp add: sample_verifier_simps local_seconds_def UTC_def maxClockSkew_def second_pos)
  have run': "CreateBearerToken (sa_H sample_verifier) sample_draw ''new'' (sa_env sample_verifier) ''New User'' RoleMember sample_db
      = (Inr (issued, creds, user), st1)" using run unfolding sample_issue_def sample_verifier_simps .
  note acc = issued_token_accepted [OF r sample_hash_32 run' f token_request_header sc p sample_times(1) t]
  show ?thesis
    using run acc unfolding sample_verifier_simps by (intro exI [of _ issued] exI [of _ creds] exI [of _ user] exI [of _ st1]) auto
qed

lemma chain_accepts_active_users_witness:
  "\<exists>u\<in>set (users (tabs sample_db)). u_IsActive u \<and> u_ID u = ''m'' \<and> u_Role u = RoleMember"
proof -
  let ?r = "signed_sample"
  have "Bearer_Authenticate sample_hash sample_denv ?r sample_db = (Inl ErrNotApplicable, sample_db)"
    using sample_signed(2) by (auto intro: bearer_ignores_sigv4)
  then have "Chain_Authenticate (newAuthChain False sample_verifier) ?r sample_db =
      (Inr (sigv4_principal (sample_user ''m'' RoleMember) ''host'' unsignedPayload), db_step sample_db)"
    using sample_signed by (simp add: Chain_Authenticate_def newAuthChain_def sample_verifier_simps SigV4_Authenticate_def Let_def)
  from chain_accepts_active_users [OF this] show ?thesis by (auto simp: sigv4_principal_def sample_user_def)
qed

end
