(* ===== verification/ManagementLaws.thy ===== *)
theory ManagementLaws
  imports Server AuthLaws AccountsProofs
begin

text \<open>
  What the management and setup endpoints can change, and for whom.  The handlers are analysed with a small calculus of
  steps: a step is confined to a bucket when all it may change is that bucket's owner, its grants and the activity log.
\<close>

section \<open>Confined steps\<close>

definition spares :: "string \<Rightarrow> tables \<Rightarrow> tables \<Rightarrow> bool" where
  "spares n t t' \<longleftrightarrow>
     users t' = users t \<and> objects t' = objects t \<and> uploads t' = uploads t \<and> parts t' = parts t
     \<and> share_links t' = share_links t \<and> map b_Name (buckets t') = map b_Name (buckets t)
     \<and> filter (\<lambda>b. b_Name b \<noteq> n) (buckets t') = filter (\<lambda>b. b_Name b \<noteq> n) (buckets t)
     \<and> filter (\<lambda>g. gr_BucketName g \<noteq> n) (grants t') = filter (\<lambda>g. gr_BucketName g \<noteq> n) (grants t)"

definition confined :: "string \<Rightarrow> world \<Rightarrow> world \<Rightarrow> bool" where
  "confined n w w' \<longleftrightarrow> files (w_disk w') = files (w_disk w) \<and> spares n (tabs (w_db w)) (tabs (w_db w'))"

lemma confined_refl [simp]: "confined n w w"
  by (simp add: confined_def spares_def)

lemma confined_trans: "confined n w w1 \<Longrightarrow> confined n w1 w2 \<Longrightarrow> confined n w w2"
  by (simp add: confined_def spares_def)

text \<open>
  \<open>step n P m Q\<close>: from tables that satisfy \<open>P\<close>, \<open>m\<close> is confined to \<open>n\<close>, and if it goes on with a value, \<open>Q\<close> holds of the
  value and the tables.
\<close>

definition step :: "string \<Rightarrow> (tables \<Rightarrow> bool) \<Rightarrow> 'a mact \<Rightarrow> ('a \<Rightarrow> tables \<Rightarrow> bool) \<Rightarrow> bool" where
  "step n P m Q \<longleftrightarrow>
     (\<forall>w r w'. P (tabs (w_db w)) \<longrightarrow> m w = (r, w') \<longrightarrow>
        confined n w w' \<and> (\<forall>x. r = Inr x \<longrightarrow> Q x (tabs (w_db w'))))"

lemma stepI:
  "(\<And>w r w'. P (tabs (w_db w)) \<Longrightarrow> m w = (r, w') \<Longrightarrow> confined n w w' \<and> (\<forall>x. r = Inr x \<longrightarrow> Q x (tabs (w_db w'))))
   \<Longrightarrow> step n P m Q"
  by (simp add: step_def)

lemma stepD:
  "step n P m Q \<Longrightarrow> P (tabs (w_db w)) \<Longrightarrow> m w = (r, w') \<Longrightarrow> confined n w w' \<and> (\<forall>x. r = Inr x \<longrightarrow> Q x (tabs (w_db w')))"
  by (simp add: step_def)

lemma step_andThen:
  assumes m: "step n P m Q" and f: "\<And>x. step n (Q x) (f x) R"
  shows "step n P (andThen m f) R"
proof (rule stepI)
  fix w r w'
  assume P: "P (tabs (w_db w))" and run: "andThen m f w = (r, w')"
  obtain y w1 where y: "m w = (y, w1)" by fastforce
  note c = stepD [OF m P y]
  show "confined n w w' \<and> (\<forall>x. r = Inr x \<longrightarrow> R x (tabs (w_db w')))"
  proof (cases y)
    case (Inl e)
    with run y c show ?thesis by (auto simp: andThen_def)
  next
    case (Inr x)
    then have "Q x (tabs (w_db w1))" and fx: "f x w1 = (r, w')" using c run y by (auto simp: andThen_def)
    from stepD [OF f this] c show ?thesis by (auto intro: confined_trans)
  qed
qed

lemma step_fail: "step n P (fail e) Q"
  by (auto simp: step_def fail_def)

lemma step_ret: "(\<And>t. P t \<Longrightarrow> Q x t) \<Longrightarrow> step n P (ret x) Q"
  by (auto simp: step_def ret_def)

lemma step_lift: "(\<And>x t. P t \<Longrightarrow> v = Inr x \<Longrightarrow> Q x t) \<Longrightarrow> step n P (lift_sum v) Q"
  by (auto simp: step_def lift_sum_def)

lemma step_weaken: "step n P' m Q' \<Longrightarrow> (\<And>t. P t \<Longrightarrow> P' t) \<Longrightarrow> (\<And>x t. Q' x t \<Longrightarrow> Q x t) \<Longrightarrow> step n P m Q"
  by (fastforce simp: step_def)

lemma step_of_db:
  assumes "\<And>s res s'. P (tabs s) \<Longrightarrow> m (m_dbenv h) s = (res, s') \<Longrightarrow> spares n (tabs s) (tabs s') \<and> Q res (tabs s')"
  shows "step n P (of_db h m) Q"
proof (rule stepI)
  fix w r w'
  assume P: "P (tabs (w_db w))" and run: "of_db h m w = (r, w')"
  obtain res s' where m: "m (m_dbenv h) (w_db w) = (res, s')" by fastforce
  with run have "r = Inr res" "w' = w\<lparr>w_db := s'\<rparr>" by (auto simp: of_db_def on_db_def)
  with assms [OF P m] show "confined n w w' \<and> (\<forall>x. r = Inr x \<longrightarrow> Q x (tabs (w_db w')))"
    by (simp add: confined_def)
qed

text \<open>Reads: the tables stay, and the result is a function of them unless the query failed.\<close>

lemma query_result: "query env f s = (res, s') \<Longrightarrow> tabs s' = tabs s \<and> (\<forall>x. res = Inr x \<longrightarrow> f (tabs s) = Inr x)"
  by (auto simp: query_def sql_def split: if_splits sum.splits)

lemma step_read:
  assumes "\<And>s res s'. m (m_dbenv h) s = (res, s') \<Longrightarrow> tabs s' = tabs s \<and> F res (tabs s)"
  shows "step n P (of_db h m) (\<lambda>res t. P t \<and> F res t)"
  by (rule step_of_db) (auto simp: spares_def dest: assms)

lemma step_uuid: "step n P (m_uuid h) (\<lambda>i. P)"
  by (rule stepI) (auto simp: m_uuid_def on_disk_def new_uuid_def confined_def spares_def)

lemma step_now: "step n P (m_now h) (\<lambda>i. P)"
  by (rule stepI) (auto simp: m_now_def)

lemma activity_Create_result:
  "activity_Create env a s = (res, s') \<Longrightarrow> \<exists>acts. tabs s' = (tabs s)\<lparr>activity := acts\<rparr>"
  by (auto simp: activity_Create_def sql_def Let_def split: if_splits intro: exI [of _ "activity (tabs s)"])

lemma step_activity: "step n (\<lambda>t. True) (m_recordActivity h q action b key sz et) (\<lambda>u t. True)"
proof -
  have "step n (\<lambda>t. True) (of_db h (\<lambda>env. RecordActivity env r a)) (\<lambda>res t. True)" for r a
    by (rule step_of_db) (auto simp: RecordActivity_def spares_def dest!: activity_Create_result)
  then have "step n (\<lambda>t. True) (andThen (of_db h (\<lambda>env. RecordActivity env r a)) (\<lambda>res. ret ())) (\<lambda>u t. True)" for r a
    by (rule step_andThen) (simp add: step_ret)
  then show ?thesis
    unfolding m_recordActivity_def
    by (intro step_andThen [OF step_uuid] step_andThen [OF step_now]) (simp add: step_ret)
qed

lemma step_cases:
  assumes "\<And>e. step n (Q (Inl e)) (f e) R" and "\<And>x. step n (Q (Inr x)) (g x) R"
  shows "step n (Q res) (case res of Inl e \<Rightarrow> f e | Inr x \<Rightarrow> g x) R"
  using assms by (cases res) simp_all

lemma step_if:
  assumes "b \<Longrightarrow> step n P f R" and "\<not> b \<Longrightarrow> step n P g R"
  shows "step n P (if b then f else g) R"
  using assms by simp

lemmas step_rules = step_andThen [OF step_uuid] step_andThen [OF step_now] step_fail step_if

section \<open>The grant handlers\<close>

lemma grant_GetByID_read:
  "grant_GetByID env i s = (res, s') \<Longrightarrow> tabs s' = tabs s \<and> (\<forall>g. res = Inr g \<longrightarrow> g \<in> set (grants (tabs s)) \<and> gr_ID g = i)"
  by (auto simp: grant_GetByID_def dest!: query_result find_SomeD split: option.splits)

lemma user_GetByID_read: "user_GetByID env i s = (res, s') \<Longrightarrow> tabs s' = tabs s"
  by (auto simp: user_GetByID_def andThen_def ret_def dest!: query_result split: prod.splits sum.splits)

lemma step_user_GetByID: "step n P (of_db h (\<lambda>env. user_GetByID env i)) (\<lambda>res. P)"
  by (rule step_weaken [OF step_read [where F = "\<lambda>res t. True"]]) (auto dest: user_GetByID_read)

lemma step_GetByAccessKeyID: "step n P (of_db h (\<lambda>env. GetByAccessKeyID env i)) (\<lambda>res. P)"
  by (rule step_weaken [OF step_read [where F = "\<lambda>res t. True"]]) (auto dest: GetByAccessKeyID_tabs)

lemma step_query: "step n P (of_db h (\<lambda>env. query env f)) (\<lambda>res. P)"
  by (rule step_weaken [OF step_read [where F = "\<lambda>res t. True"]]) (auto dest: query_result)

lemma step_resolveGrantee: "step n P (resolveGrantee h u k) (\<lambda>g. P)"
  unfolding resolveGrantee_def Let_def
  by (intro step_if step_fail step_andThen [OF step_user_GetByID] step_andThen [OF step_GetByAccessKeyID])
    (rule step_cases; auto intro!: step_fail step_ret step_if)+

lemma step_loadGrant:
  "step n P (loadGrantOnBucket h i n) (\<lambda>g t. P t \<and> g \<in> set (grants t) \<and> gr_BucketName g = n)"
proof -
  have read: "step n P (of_db h (\<lambda>env. grant_GetByID env i))
      (\<lambda>res t. P t \<and> (\<forall>g. res = Inr g \<longrightarrow> g \<in> set (grants t) \<and> gr_ID g = i))"
    by (rule step_read) (rule grant_GetByID_read)
  show ?thesis
    unfolding loadGrantOnBucket_def
    by (intro step_if step_fail step_andThen [OF read]) (rule step_cases; auto intro!: step_fail step_ret step_if)
qed

lemma step_new_grants: "step n P (new_grants h g as) (\<lambda>gs t. P t \<and> (\<forall>x\<in>set gs. gr_BucketName x = gr_BucketName g))"
proof (induction as)
  case (Cons a as)
  then show ?case
    by (simp only: new_grants.simps, intro step_andThen [OF step_uuid], elim step_andThen) (rule step_ret, simp)
qed (simp add: step_ret)

lemma batch_loop_tables:
  "batch_loop env gs rs s = (Inr rs', s') \<Longrightarrow>
   \<exists>new. tabs s' = (tabs s)\<lparr>grants := grants (tabs s) @ new\<rparr> \<and> set new \<subseteq> set gs"
proof (induction gs arbitrary: rs s)
  case (Cons g gs)
  from Cons.prems obtain k s1 where ins: "sql env (insertGrantUnlessActiveDuplicate g) s = (Inr k, s1)"
    and rest: "\<exists>rs1 s2. tabs s2 = tabs s1 \<and> batch_loop env gs rs1 s2 = (Inr rs', s')"
    by (auto simp: andThen_Inr findActiveDuplicate_def split: if_splits option.splits dest!: query_result) blast
  have t1: "\<exists>new. tabs s1 = (tabs s)\<lparr>grants := grants (tabs s) @ new\<rparr> \<and> set new \<subseteq> {g}"
    using sql_Inr [OF ins]
    by (auto simp: insertGrantUnlessActiveDuplicate_def split: if_splits intro: exI [of _ "[]"] exI [of _ "[g]"])
  from rest obtain rs1 s2 where "tabs s2 = tabs s1" "batch_loop env gs rs1 s2 = (Inr rs', s')" by blast
  with Cons.IH [OF this(2)] t1 obtain new1 new2 where "tabs s1 = (tabs s)\<lparr>grants := grants (tabs s) @ new1\<rparr>" "set new1 \<subseteq> {g}"
    "tabs s' = (tabs s1)\<lparr>grants := grants (tabs s1) @ new2\<rparr>" "set new2 \<subseteq> set gs" by auto
  then show ?case by (intro exI [of _ "new1 @ new2"]) auto
qed (auto simp: ret_def intro: exI [of _ "[]"])

lemma CreateIdempotentBatch_tables:
  assumes "CreateIdempotentBatch env gs s = (res, s')"
  shows "\<exists>new. tabs s' = (tabs s)\<lparr>grants := grants (tabs s) @ new\<rparr> \<and> set new \<subseteq> set gs"
proof (cases res)
  case (Inl e)
  with assms CreateIdempotentBatch.error_keeps [of env gs s e s'] show ?thesis by (auto intro: exI [of _ "[]"])
next
  case (Inr rs)
  with assms have "in_tx env (batch_loop env gs []) s = (Inr rs, s')"
    by (auto simp: CreateIdempotentBatch_def fail_def split: option.splits)
  then obtain s1 s2 where "tabs s1 = tabs s" "batch_loop env gs [] s1 = (Inr rs, s2)" "tabs s' = tabs s2" by (rule in_tx_Inr)
  with batch_loop_tables [OF this(2)] show ?thesis by auto
qed

lemma step_batch:
  "step n (\<lambda>t. P t \<and> (\<forall>g\<in>set gs. gr_BucketName g = n)) (of_db h (\<lambda>env. CreateIdempotentBatch env gs)) (\<lambda>res t. True)"
  by (rule step_of_db) (auto simp: spares_def filter_empty_conv subset_eq dest!: CreateIdempotentBatch_tables)

lemma step_record_created: "step n (\<lambda>t. True) (record_created h q b results) (\<lambda>u t. True)"
proof (induction results)
  case (Cons x results)
  have "step n (\<lambda>t. True) (if gc_Existed x then ret () else m_recordActivity h q ActivityCreateGrant b (gr_Action (gc_Grant x)) 0 (gr_ID (gc_Grant x))) (\<lambda>u t. True)"
    by (intro step_if step_activity step_ret) auto
  from step_andThen [OF this Cons.IH] show ?case by simp
qed (simp add: step_ret)

lemma filter_map_other:
  assumes "\<And>x. x \<in> set xs \<Longrightarrow> (p (f x) \<longleftrightarrow> p x) \<and> (p x \<longrightarrow> f x = x)"
  shows "filter p (map f xs) = filter p xs"
  using assms by (induction xs) auto

lemma same_grant: "db_wf t \<Longrightarrow> g \<in> set (grants t) \<Longrightarrow> x \<in> set (grants t) \<Longrightarrow> gr_ID x = gr_ID g \<Longrightarrow> x = g"
  by (auto simp: db_wf_def grants_ok_def distinct_map inj_on_def)

lemma patch_grant_ID: "gr_ID (patch_grant input g) = gr_ID g"
  by (simp add: patch_grant_def Let_def split: option.splits)

lemma update_grant_spares:
  assumes "db_wf t" and "g \<in> set (grants t)" and "gr_BucketName g = n" and "gr_ID g' = gr_ID g"
    and "update_grant now g' t = (res, t')"
  shows "spares n t t'"
proof -
  have "filter (\<lambda>g. gr_BucketName g \<noteq> n) (map (\<lambda>y. if gr_ID y = gr_ID g' then u y else y) (grants t))
      = filter (\<lambda>g. gr_BucketName g \<noteq> n) (grants t)" if "\<And>y. gr_BucketName (u y) = gr_BucketName y" for u
    using same_grant [OF assms(1,2)] assms(3,4) that by (intro filter_map_other) auto
  with assms(5) show ?thesis
    by (auto simp: update_grant_def spares_def Let_def split: option.splits if_splits)
qed

lemma sql_tables: "sql env f s = (res, s') \<Longrightarrow> tabs s' = tabs s \<or> (\<exists>x. (Inr x, tabs s') = f (tabs s))"
  by (auto simp: sql_def split: if_splits prod.splits sum.splits)

lemma step_grant_Update:
  "step n (\<lambda>t. db_wf t \<and> g \<in> set (grants t) \<and> gr_BucketName g = n)
     (of_db h (\<lambda>env. grant_Update env (patch_grant input g))) (\<lambda>res t. True)"
proof (rule step_of_db, elim conjE)
  fix s res s'
  assume *: "grant_Update (m_dbenv h) (patch_grant input g) s = (res, s')" "db_wf (tabs s)" "g \<in> set (grants (tabs s))" "gr_BucketName g = n"
  then have "tabs s' = tabs s \<or> (\<exists>x. (Inr x, tabs s') = update_grant (Now (m_dbenv h) s) (patch_grant input g) (tabs s))"
    by (auto simp: grant_Update_def split: if_splits dest!: sql_tables)
  then show "spares n (tabs s) (tabs s') \<and> True"
    using update_grant_spares [OF *(2-4) patch_grant_ID sym] by (auto simp: spares_def)
qed

lemma step_grant_Delete:
  "step n (\<lambda>t. db_wf t \<and> g \<in> set (grants t) \<and> gr_BucketName g = n) (of_db h (\<lambda>env. grant_Delete env (gr_ID g))) (\<lambda>res t. True)"
proof (rule step_of_db, elim conjE)
  fix s res s'
  assume *: "grant_Delete (m_dbenv h) (gr_ID g) s = (res, s')" "db_wf (tabs s)" "g \<in> set (grants (tabs s))" "gr_BucketName g = n"
  have "filter (\<lambda>x. gr_BucketName x \<noteq> n) (filter (\<lambda>x. gr_ID x \<noteq> gr_ID g) (grants (tabs s)))
      = filter (\<lambda>x. gr_BucketName x \<noteq> n) (grants (tabs s))"
    using same_grant [OF *(2,3)] *(4) by (auto intro!: filter_cong)
  with *(1) show "spares n (tabs s) (tabs s') \<and> True"
    by (auto simp: grant_Delete_def spares_def split: if_splits dest!: sql_tables)
qed

lemma update_owner_spares: "update_owner n o1 o2 t = (res, t') \<Longrightarrow> spares n t t'"
  by (auto simp: update_owner_def spares_def split: if_splits intro!: filter_map_other)

lemma step_UpdateOwner: "step n P (of_db h (\<lambda>env. UpdateOwner env n o1 o2)) (\<lambda>res t. True)"
  by (rule step_of_db) (auto simp: UpdateOwner_def spares_def dest!: sql_tables dest: update_owner_spares [OF sym])

lemma step_ignoring: "step n (\<lambda>t. True) m (\<lambda>x t. True) \<Longrightarrow> step n P (andThen m (\<lambda>u. ret x)) (\<lambda>x t. True)"
  by (rule step_andThen [OF step_weaken]) (auto intro: step_ret)

lemmas plain_rules = step_fail step_ret [of _ "\<lambda>x t. True"] step_if

section \<open>Handlers bound to the owner\<close>

text \<open>
  A request changes nothing, or its principal is an administrator, or owns the bucket it names and the change
  is confined to that bucket.
\<close>

definition owner_bound :: "mrequest \<Rightarrow> 'a mact \<Rightarrow> bool" where
  "owner_bound q m \<longleftrightarrow>
     (\<forall>w r w'. db_wf (tabs (w_db w)) \<longrightarrow> m w = (r, w') \<longrightarrow>
        tabs (w_db w') = tabs (w_db w) \<and> files (w_disk w') = files (w_disk w)
        \<or> (\<exists>p. r_Principal (mq q) = Some p \<and>
             (p_Role p = RoleAdmin
              \<or> (\<exists>b\<in>set (buckets (tabs (w_db w))). b_Name b = chiBucketParam (mq q) \<and> b_OwnerID b = p_UserID p)
                \<and> confined (chiBucketParam (mq q)) w w')))"

lemma loadBucketForGrantAdmin_result:
  assumes "loadBucketForGrantAdmin h q w = (r, w')"
  shows "tabs (w_db w') = tabs (w_db w) \<and> w_disk w' = w_disk w"
    and "r = Inr b \<Longrightarrow> b \<in> set (buckets (tabs (w_db w))) \<and> b_Name b = chiBucketParam (mq q)
           \<and> (\<exists>p. r_Principal (mq q) = Some p \<and> (p_Role p = RoleAdmin \<or> b_OwnerID b = p_UserID p))"
proof -
  obtain res s1 where g: "GetByName (m_dbenv h) (chiBucketParam (mq q)) (w_db w) = (res, s1)" by fastforce
  have same: "tabs s1 = tabs (w_db w)" using query_result [OF g [unfolded GetByName_def]] by simp
  have found: "b \<in> set (buckets (tabs (w_db w))) \<and> b_Name b = chiBucketParam (mq q)" if "res = Inr b" for b
    using query_result [OF g [unfolded GetByName_def]] that by (auto split: option.splits dest: find_SomeD)
  show "tabs (w_db w') = tabs (w_db w) \<and> w_disk w' = w_disk w"
    using assms g same
    by (auto simp: loadBucketForGrantAdmin_def Let_def of_db_def on_db_def andThen_def fail_def ret_def
        split: if_splits sum.splits option.splits)
  show "b \<in> set (buckets (tabs (w_db w))) \<and> b_Name b = chiBucketParam (mq q)
      \<and> (\<exists>p. r_Principal (mq q) = Some p \<and> (p_Role p = RoleAdmin \<or> b_OwnerID b = p_UserID p))" if "r = Inr b"
    using assms g found that
    by (auto simp: loadBucketForGrantAdmin_def Let_def of_db_def on_db_def andThen_def fail_def ret_def
        split: if_splits sum.splits option.splits)
qed

lemma load_then:
  assumes k: "\<And>b. b_Name b = chiBucketParam (mq q) \<Longrightarrow> step (chiBucketParam (mq q)) db_wf (k b) (\<lambda>x t. True)"
  shows "owner_bound q (andThen (loadBucketForGrantAdmin h q) k)"
  unfolding owner_bound_def
proof (intro allI impI)
  fix w r w'
  assume wf: "db_wf (tabs (w_db w))" and run: "andThen (loadBucketForGrantAdmin h q) k w = (r, w')"
  obtain y w1 where y: "loadBucketForGrantAdmin h q w = (y, w1)" by fastforce
  note l = loadBucketForGrantAdmin_result [OF y]
  show "tabs (w_db w') = tabs (w_db w) \<and> files (w_disk w') = files (w_disk w)
        \<or> (\<exists>p. r_Principal (mq q) = Some p \<and>
             (p_Role p = RoleAdmin
              \<or> (\<exists>b\<in>set (buckets (tabs (w_db w))). b_Name b = chiBucketParam (mq q) \<and> b_OwnerID b = p_UserID p)
                \<and> confined (chiBucketParam (mq q)) w w'))"
  proof (cases y)
    case (Inl e)
    with run y l(1) show ?thesis by (auto simp: andThen_def)
  next
    case (Inr b)
    note b = l(2) [OF Inr]
    have "k b w1 = (r, w')" using run y Inr by (simp add: andThen_def)
    then have "confined (chiBucketParam (mq q)) w1 w'" using stepD [OF k] b wf l(1) by auto
    moreover have "confined (chiBucketParam (mq q)) w w1" using l(1) by (simp add: confined_def spares_def)
    ultimately have "confined (chiBucketParam (mq q)) w w'" by (rule confined_trans [rotated])
    with b show ?thesis by blast
  qed
qed

lemma step_lift_any: "step n P (lift_sum v) (\<lambda>x. P)"
  by (rule step_lift)

lemma ListBucketGrants_bound: "owner_bound q (ListBucketGrants h q)"
  unfolding ListBucketGrants_def grant_ListByBucket_def
  by (rule load_then, rule step_andThen [OF step_query], rule step_cases; simp add: plain_rules)

lemma CreateBucketGrants_bound: "owner_bound q (CreateBucketGrants h q)"
  unfolding CreateBucketGrants_def
proof (rule load_then)
  fix bucket :: Bucket
  let ?n = "chiBucketParam (mq q)"
  assume b: "b_Name bucket = ?n"
  have batch: "step ?n (\<lambda>t. P t \<and> (\<forall>g\<in>set gs. gr_BucketName g = gr_BucketName g0))
      (of_db h (\<lambda>env. CreateIdempotentBatch env gs)) (\<lambda>res t. True)" if "gr_BucketName g0 = ?n" for P gs and g0 :: Grant
    using step_batch [of ?n P gs h] that by simp
  show "step ?n db_wf (andThen (lift_sum (decodeCreateGrantRequest h q)) (\<lambda>input.
     andThen (resolveGrantee h (cg_granteeUserID input) (cg_granteeAccessKeyID input)) (\<lambda>grantee.
       if \<not> u_IsActive grantee then fail (badRequest ''grantee user is inactive'')
       else if \<not> validateGrantPrefix (cg_keyPrefix input) then fail (badRequest ''invalid key_prefix'')
       else andThen (m_now h) (\<lambda>now.
         andThen (new_grants h
           \<lparr>gr_ID = [], gr_BucketName = b_Name bucket, gr_GranteeUserID = u_ID grantee, gr_Action = [],
            gr_KeyPrefix = cg_keyPrefix input, gr_IsActive = True,
            gr_CreatedBy = (case r_Principal (mq q) of None \<Rightarrow> [] | Some p \<Rightarrow> p_UserID p), gr_Note = cg_note input,
            gr_CreatedAt = now, gr_UpdatedAt = now\<rparr> (cg_actions input)) (\<lambda>gs.
         andThen (of_db h (\<lambda>env. CreateIdempotentBatch env gs)) (\<lambda>res.
           case res of
             Inl err \<Rightarrow> fail (internalError ''failed to create grant'')
           | Inr results \<Rightarrow>
               andThen (record_created h q (b_Name bucket) results) (\<lambda>u.
                 ret (writeJSON 201 (GrantsPayload (map (\<lambda>x. grantDTO (gc_Grant x)) results))))))))))
     (\<lambda>x t. True)"
    by (rule step_andThen [OF step_lift_any], rule step_andThen [OF step_resolveGrantee],
        intro step_if step_fail step_andThen [OF step_now], rule step_andThen [OF step_new_grants],
        rule step_andThen [OF batch], simp add: b, rule step_cases; intro step_fail step_ignoring step_record_created)
qed

lemma PatchBucketGrant_bound: "owner_bound q (PatchBucketGrant h q)"
  unfolding PatchBucketGrant_def grant_GetByID_def
  by (rule load_then, simp only:, rule step_andThen [OF step_loadGrant], rule step_andThen [OF step_lift_any],
      intro step_if step_fail, rule step_andThen [OF step_grant_Update], rule step_cases, simp add: plain_rules,
      rule step_andThen [OF step_query], rule step_cases; intro step_fail step_ignoring step_activity)

lemma DeleteBucketGrant_bound: "owner_bound q (DeleteBucketGrant h q)"
  unfolding DeleteBucketGrant_def
  by (rule load_then, simp only:, rule step_andThen [OF step_loadGrant], rule step_andThen [OF step_grant_Delete],
      rule step_cases, simp add: plain_rules, intro step_ignoring step_activity)

lemma step_transferred:
  "step n P (andThen (m_recordActivity h q a b k sz e) (\<lambda>u.
       andThen (of_db h (\<lambda>env. GetBucketSummary env b)) (\<lambda>res. case res of Inl err \<Rightarrow> ret x | Inr y \<Rightarrow> ret (f y))))
     (\<lambda>x t. True)"
  unfolding GetBucketSummary_def
  by (rule step_andThen [OF step_weaken [OF step_activity]], simp, assumption, rule step_andThen [OF step_query],
      rule step_cases; rule step_ret, simp)

lemma TransferBucketOwnership_bound: "owner_bound q (TransferBucketOwnership h q)"
  unfolding TransferBucketOwnership_def
  apply (rule load_then)
  apply (simp only: Let_def)
  apply (rule step_cases [where Q = "\<lambda>res. db_wf"])
   apply (rule step_fail)
  apply (rule step_if)
   apply (rule step_fail)
  apply (rule step_andThen [OF step_user_GetByID])
  apply (rule step_cases [where Q = "\<lambda>res. db_wf"])
   apply (rule step_if; rule step_fail)
  apply (rule step_if)
   apply (rule step_fail)
  apply (rule step_andThen [OF step_UpdateOwner])
  apply (rule step_cases [where Q = "\<lambda>res t. True"])
   apply (rule step_if; rule step_fail)
  apply (rule step_transferred)
  done

lemma list_grants_of_same: "list_grants_of h u w = (r, w') \<Longrightarrow> tabs (w_db w') = tabs (w_db w) \<and> w_disk w' = w_disk w"
proof -
  assume run: "list_grants_of h u w = (r, w')"
  obtain res s' where g: "ListByGrantee (m_dbenv h) u (w_db w) = (res, s')" by fastforce
  then have "tabs s' = tabs (w_db w)" unfolding ListByGrantee_def by (blast dest: query_result)
  with run g show ?thesis
    by (cases res) (auto simp: list_grants_of_def of_db_def on_db_def andThen_def fail_def ret_def)
qed

lemma ListMyGrants_bound: "owner_bound q (ListMyGrants h q)"
  unfolding owner_bound_def ListMyGrants_def
  by (auto simp: fail_def split: option.splits if_splits dest: list_grants_of_same)

lemmas grant_handlers_bound = ListMyGrants_bound ListBucketGrants_bound CreateBucketGrants_bound PatchBucketGrant_bound
  DeleteBucketGrant_bound TransferBucketOwnership_bound

section \<open>Behind the middlewares\<close>

lemma chain_keeps:
  assumes "Chain_Authenticate (newAuthChain devMode s) r st = (res, st')"
  shows "tabs st' = tabs st \<and> (\<forall>p. res = Inr p \<longrightarrow> devMode
     \<or> (\<exists>u\<in>set (users (tabs st)). u_IsActive u \<and> p_UserID p = u_ID u \<and> p_Role p = u_Role u))"
proof (cases devMode)
  case True
  with assms show ?thesis by (auto simp: Chain_Authenticate_def newAuthChain_def Dev_Authenticate_def)
next
  case False
  with chain_sound [OF newAuthChain_sound, where s1 = s and st = st and r = r and err = None] assms show ?thesis
    by (auto simp: Chain_Authenticate_def)
qed

lemma management_gate_result:
  assumes "management_gate authenticate adminOnly r w = (res, w1)"
  shows "\<exists>a st. authenticate r (w_db w) = (a, st) \<and> w1 = w\<lparr>w_db := st\<rparr>
     \<and> (\<forall>r'. res = Inr r' \<longrightarrow> (\<exists>p. a = Inr p \<and> r' = r\<lparr>r_Principal := Some p\<rparr> \<and> (adminOnly \<longrightarrow> p_Role p = RoleAdmin)))"
  using assms
  by (auto simp: management_gate_def RequireAuthentication_def RequireRole_def ret_def split: prod.splits sum.splits if_splits)

lemma grant_route_bound:
  "(meth, pat, f) \<in> set RegisterGrantRoutes \<Longrightarrow> \<exists>m. owner_bound q m \<and> (\<forall>w. f h q w = Some (m w))"
  unfolding RegisterGrantRoutes_def
  by (simp only: list.set insert_iff empty_iff prod.inject) (elim disjE conjE FalseE; simp only: returning_def, blast intro: grant_handlers_bound)

text \<open>
  C34: what a request to the management routes can change.  Either it changes no table
  and no file, or the chain of authenticators accepted its credentials for a principal \<open>p\<close> (outside development
  mode an active user with the stored role) who is an administrator, or who owns the bucket the path names; in the last case
  users, objects, uploads, parts, share links, the files, the other buckets and the grants on other buckets are all as before.
\<close>

theorem management_authority:
  assumes route: "(adminOnly, meth, pat, handler) \<in> set management_routes" and wf: "db_wf (tabs (w_db w))"
    and run: "serve_management (Chain_Authenticate (newAuthChain devMode s)) adminOnly handler h q w = Some (resp, w')"
  shows "tabs (w_db w') = tabs (w_db w) \<and> files (w_disk w') = files (w_disk w)
    \<or> (\<exists>p st. Chain_Authenticate (newAuthChain devMode s) (mq q) (w_db w) = (Inr p, st)
        \<and> (devMode \<or> (\<exists>u\<in>set (users (tabs (w_db w))). u_IsActive u \<and> p_UserID p = u_ID u \<and> p_Role p = u_Role u))
        \<and> (p_Role p = RoleAdmin
           \<or> (\<exists>b\<in>set (buckets (tabs (w_db w))). b_Name b = chiBucketParam (mq q) \<and> b_OwnerID b = p_UserID p)
             \<and> confined (chiBucketParam (mq q)) w w'))"
proof -
  obtain res w1 where gate: "management_gate (Chain_Authenticate (newAuthChain devMode s)) adminOnly (mq q) w = (res, w1)" by fastforce
  from management_gate_result [OF this] obtain a st where
    chain: "Chain_Authenticate (newAuthChain devMode s) (mq q) (w_db w) = (a, st)" and w1: "w1 = w\<lparr>w_db := st\<rparr>"
    and pass: "\<And>r'. res = Inr r' \<Longrightarrow> \<exists>p. a = Inr p \<and> r' = (mq q)\<lparr>r_Principal := Some p\<rparr> \<and> (adminOnly \<longrightarrow> p_Role p = RoleAdmin)"
    by blast
  have st: "tabs st = tabs (w_db w)" using chain_keeps [OF chain] by blast
  show ?thesis
  proof (cases res)
    case (Inl e)
    with run gate have "w' = w1" by (simp add: serve_management_def)
    with w1 st show ?thesis by simp
  next
    case (Inr r')
    from pass [OF this] obtain p where p: "a = Inr p" "r' = (mq q)\<lparr>r_Principal := Some p\<rparr>" "adminOnly \<longrightarrow> p_Role p = RoleAdmin" by blast
    note live = conjunct2 [OF chain_keeps [OF chain], rule_format, OF p(1)]
    show ?thesis
    proof (cases adminOnly)
      case True
      with chain p live show ?thesis by blast
    next
      case False
      let ?q = "q\<lparr>mq := r'\<rparr>"
      from False route have "(meth, pat, handler) \<in> set RegisterGrantRoutes" by (auto simp: management_routes_def)
      from grant_route_bound [OF this, of ?q h] obtain m where m: "owner_bound ?q m" "\<And>v. handler h ?q v = Some (m v)" by blast
      obtain y w2 where y: "m w1 = (y, w2)" by fastforce
      then have "w' = w2" using run gate Inr m(2) by (cases y) (simp_all add: serve_management_def)
      moreover have "chiBucketParam r' = chiBucketParam (mq q)" by (simp add: p(2) chiBucketParam_def)
      moreover have "confined n w w2" if "confined n w1 w2" for n
        using that by (simp add: w1 confined_def st)
      ultimately show ?thesis
        using m(1) [unfolded owner_bound_def, rule_format, OF _ y] wf chain p live by (auto simp: w1 st)
    qed
  qed
qed

section \<open>Revoked keys\<close>

lemma sql_done: "sql env f s = (Inr x, s') \<Longrightarrow> (Inr x, tabs s') = f (tabs s)"
  by (auto dest!: sql_Inr)

lemma user_Delete_result:
  "user_Delete env i s = (Inr u, s') \<Longrightarrow> users (tabs s') = filter (\<lambda>u. u_ID u \<noteq> i) (users (tabs s))"
  by (auto simp: user_Delete_def delete_user_def dest!: sql_done split: if_splits)

lemma user_Update_result:
  assumes "user_Update env u s = (Inr x, s')"
  shows "(\<forall>v\<in>set (users (tabs s')). u_ID v = u_ID u \<longrightarrow> u_IsActive v = u_IsActive u)"
    and "filter (\<lambda>v. u_ID v \<noteq> u_ID u) (users (tabs s')) = filter (\<lambda>v. u_ID v \<noteq> u_ID u) (users (tabs s))"
  using assms
  by (auto simp: user_Update_def update_user_def dest!: sql_done split: if_splits intro!: filter_map_other)

lemma user_GetByID_ID: "user_GetByID env i s = (Inr u, s') \<Longrightarrow> u_ID u = i"
  by (auto simp: user_GetByID_def andThen_Inr ret_def scan_user_def split: option.splits dest!: query_result find_SomeD)

lemma of_db_run: "of_db h m w = (Inr (fst (m (m_dbenv h) (w_db w))), w\<lparr>w_db := snd (m (m_dbenv h) (w_db w))\<rparr>)"
  by (simp add: of_db_def on_db_eq)

lemma patch_user_ID: "u_ID (patch_user req u) = u_ID u"
  by (simp add: patch_user_def Let_def split: option.splits)

lemma DeleteKey_result:
  "DeleteKey h q w = (Inr resp, w1) \<Longrightarrow>
   users (tabs (w_db w1)) = filter (\<lambda>u. u_ID u \<noteq> TrimSpace (mq_id q)) (users (tabs (w_db w)))"
  by (cases "user_Delete (m_dbenv h) (TrimSpace (mq_id q)) (w_db w)")
    (auto simp: DeleteKey_def Let_def fail_def ret_def andThen_def of_db_run split: if_splits sum.splits dest: user_Delete_result)

lemma PatchKey_result:
  assumes "PatchKey h q w = (Inr resp, w1)" and "decodePatchKeyRequest h q = Inr req" and "pk_isActive req = Some b"
  shows "(\<forall>v\<in>set (users (tabs (w_db w1))). u_ID v = TrimSpace (mq_id q) \<longrightarrow> u_IsActive v = b)
    \<and> filter (\<lambda>v. u_ID v \<noteq> TrimSpace (mq_id q)) (users (tabs (w_db w1)))
      = filter (\<lambda>v. u_ID v \<noteq> TrimSpace (mq_id q)) (users (tabs (w_db w)))"
proof -
  let ?i = "TrimSpace (mq_id q)" and ?e = "m_dbenv h"
  obtain r1 s1 where g: "user_GetByID ?e ?i (w_db w) = (r1, s1)" by fastforce
  from assms(1,2) g obtain u where u: "r1 = Inr u"
    by (cases r1) (auto simp: PatchKey_def Let_def fail_def lift_sum_def andThen_def of_db_run split: if_splits)
  obtain r2 s2 where p: "user_Update ?e (patch_user req u) s1 = (r2, s2)" by fastforce
  from assms(1,2) g u p obtain x where x: "r2 = Inr x"
    by (cases r2) (auto simp: PatchKey_def Let_def fail_def lift_sum_def andThen_def of_db_run split: if_splits)
  obtain r3 s3 where g3: "user_GetByID ?e ?i s2 = (r3, s3)" by fastforce
  have "w_db w1 = s3" using assms(1,2) g u p x g3
    by (cases r3) (auto simp: PatchKey_def Let_def fail_def ret_def lift_sum_def andThen_def of_db_run split: if_splits)
  moreover have "tabs s3 = tabs s2" "tabs s1 = tabs (w_db w)" using user_GetByID_read g g3 by blast+
  moreover have "u_IsActive (patch_user req u) = b" by (simp add: patch_user_def assms(3))
  moreover have "u_ID (patch_user req u) = ?i" using user_GetByID_ID g u by (simp add: patch_user_ID)
  ultimately show ?thesis using user_Update_result [OF p [unfolded x]] by simp
qed

text \<open>
  C35: once a key was deleted, or patched with \<open>is_active\<close> false, no request is authenticated as
  its user any more, whatever bearer token, signature or presigned query it carries; the rows of all other users are
  untouched, and looking the credentials up changes nothing.
\<close>

theorem revoked_key_refused:
  assumes "DeleteKey h q w = (Inr resp, w1)
    \<or> PatchKey h q w = (Inr resp, w1) \<and> (\<exists>req. decodePatchKeyRequest h q = Inr req \<and> pk_isActive req = Some False)"
  shows "(case Chain_Authenticate (newAuthChain False s) r (w_db w1) of
      (Inl e, st) \<Rightarrow> tabs st = tabs (w_db w1)
    | (Inr p, st) \<Rightarrow> tabs st = tabs (w_db w1) \<and> p_UserID p \<noteq> TrimSpace (mq_id q))
    \<and> filter (\<lambda>v. u_ID v \<noteq> TrimSpace (mq_id q)) (users (tabs (w_db w1)))
      = filter (\<lambda>v. u_ID v \<noteq> TrimSpace (mq_id q)) (users (tabs (w_db w)))"
proof -
  let ?i = "TrimSpace (mq_id q)"
  have inactive: "(\<forall>v\<in>set (users (tabs (w_db w1))). u_ID v = ?i \<longrightarrow> \<not> u_IsActive v)
    \<and> filter (\<lambda>v. u_ID v \<noteq> ?i) (users (tabs (w_db w1))) = filter (\<lambda>v. u_ID v \<noteq> ?i) (users (tabs (w_db w)))"
    using assms
  proof (elim disjE conjE exE)
    assume "DeleteKey h q w = (Inr resp, w1)"
    from DeleteKey_result [OF this] show ?thesis by simp
  next
    fix req
    assume "PatchKey h q w = (Inr resp, w1)" "decodePatchKeyRequest h q = Inr req" "pk_isActive req = Some False"
    from PatchKey_result [OF this] show ?thesis by simp
  qed
  obtain a st where c: "Chain_Authenticate (newAuthChain False s) r (w_db w1) = (a, st)" by fastforce
  from chain_keeps [OF c] inactive show ?thesis by (cases a) (auto simp: c)
qed

section \<open>The first administrator\<close>

lemma CreateFirstAdmin_result:
  assumes "CreateFirstAdmin H draw i env n st = (res, st')"
  shows "case res of
      Inl e \<Rightarrow> tabs st' = tabs st
    | Inr (issued, creds, user) \<Rightarrow> \<exists>u. u_Role u = RoleAdmin \<and> u_IsActive u \<and> users (tabs st) = []
        \<and> tabs st' = (tabs st)\<lparr>users := [u]\<rparr> \<and> user = u\<lparr>u_SecretHash := [], u_SigV4SecretKey := []\<rparr>"
proof (cases "IssueBearerToken H draw")
  case (Inl e)
  with assms show ?thesis by (auto simp: CreateFirstAdmin_def createUserCredentials_def)
next
  case issued: (Inr issued)
  show ?thesis
  proof (cases "IssueSigV4Credentials draw")
    case (Inl e)
    with assms issued show ?thesis by (auto simp: CreateFirstAdmin_def createUserCredentials_def)
  next
    case (Inr creds)
    define u where "u = \<lparr>u_ID = i, u_DisplayName = (if n = [] then ''Initial Admin'' else n), u_AccessKeyID = it_AccessKeyID issued,
      u_SecretHash = it_SecretHash issued, u_SigV4AccessKeyID = sc_AccessKeyID creds, u_SigV4SecretKey = sc_SecretKey creds,
      u_Role = RoleAdmin, u_IsActive = True, u_CreatedAt = Now env st, u_UpdatedAt = Now env st\<rparr>"
    have roles: "u_Role u = RoleAdmin" "u_IsActive u" by (simp_all add: u_def)
    obtain r s1 where c: "CreateFirstUser env u st = (r, s1)" by fastforce
    then have "(case r of Inl e \<Rightarrow> (Inl e, s1) | Inr x \<Rightarrow> (Inr (issued, creds, u\<lparr>u_SecretHash := [], u_SigV4SecretKey := []\<rparr>), s1)) = (res, st')"
      using assms unfolding CreateFirstAdmin_def createUserCredentials_def issued Inr sum.case Let_def u_def by simp
    with first_user_once [where env = env and u = u and s = st] c roles show ?thesis by (cases r) auto
  qed
qed

text \<open>
  C36: \<open>POST /api/setup/bootstrap\<close> changes a table only for a peer on a loopback address and only
  while there is no user at all; then it adds exactly one active administrator, the one whose key the response
  describes, and nothing else.  Every other request is answered without touching a table, and the files never change.
\<close>

theorem bootstrap_once:
  "case BootstrapFirstAdmin h q w of
      (Inl resp, w') \<Rightarrow> tabs (w_db w') = tabs (w_db w) \<and> files (w_disk w') = files (w_disk w) \<and> ms_status resp \<in> {400, 403, 409, 500}
    | (Inr resp, w') \<Rightarrow> isLoopbackRequest q \<and> users (tabs (w_db w)) = [] \<and> files (w_disk w') = files (w_disk w)
        \<and> (\<exists>u issued creds. u_Role u = RoleAdmin \<and> u_IsActive u \<and> tabs (w_db w') = (tabs (w_db w))\<lparr>users := [u]\<rparr>
            \<and> resp = writeJSON 201 (BootstrapPayload \<lparr>ck_Key = keyDTO (u\<lparr>u_SecretHash := [], u_SigV4SecretKey := []\<rparr>),
                ck_BearerToken = issued, ck_SigV4 = creds\<rparr> Region (endpoints h q)))"
proof (cases "isLoopbackRequest q")
  case False
  then show ?thesis by (simp add: BootstrapFirstAdmin_def notLoopback_def writeError_def WriteJSON_def writeJSON_def fail_def)
next
  case loop: True
  show ?thesis
  proof (cases "decodeBootstrapRequest h q")
    case (Inl e)
    with loop show ?thesis
      by (auto simp: BootstrapFirstAdmin_def decodeBootstrapRequest_def lift_sum_def andThen_def badRequest_def writeError_def WriteJSON_def
          writeJSON_def split: sum.splits)
  next
    case (Inr raw)
    let ?n = "if TrimSpace raw = [] then defaultAdminDisplayName else TrimSpace raw"
    obtain i d where i: "new_uuid (m_os h) (w_disk w) = (i, d)" by fastforce
    have d: "files d = files (w_disk w)" using i by (auto simp: new_uuid_def)
    obtain res s' where c: "CreateFirstAdmin (h_sha256 (m_hashes h)) (m_entropy h) i (m_dbenv h) ?n (w_db w) = (res, s')" by fastforce
    note run = loop Inr i d c
    show ?thesis
    proof (cases res)
      case (Inl e)
      with CreateFirstAdmin_result [OF c] run show ?thesis
        by (simp add: BootstrapFirstAdmin_def lift_sum_def andThen_def m_uuid_def on_disk_eq of_db_run Let_def fail_def internalError_def
            writeError_def WriteJSON_def writeJSON_def)
    next
      case (Inr x)
      obtain issued creds user where x: "x = (issued, creds, user)" by (cases x)
      from CreateFirstAdmin_result [OF c] Inr x obtain u where u: "u_Role u = RoleAdmin" "u_IsActive u" "users (tabs (w_db w)) = []"
        "tabs s' = (tabs (w_db w))\<lparr>users := [u]\<rparr>" "user = u\<lparr>u_SecretHash := [], u_SigV4SecretKey := []\<rparr>" by auto
      have "BootstrapFirstAdmin h q w = (Inr (writeJSON 201 (BootstrapPayload \<lparr>ck_Key = keyDTO user, ck_BearerToken = it_RawToken issued,
          ck_SigV4 = creds\<rparr> Region (endpoints h q))), w\<lparr>w_disk := d, w_db := s'\<rparr>)"
        using run Inr x by (simp add: BootstrapFirstAdmin_def lift_sum_def andThen_def m_uuid_def on_disk_eq of_db_run Let_def ret_def)
      with loop d u show ?thesis by auto
    qed
  qed
qed

section \<open>Witnesses\<close>

text \<open>
  A server whose members \<open>m\<close> and \<open>r\<close> hold the tokens \<open>Km.s\<close> and \<open>Kr.s\<close>; \<open>m\<close> owns the bucket \<open>b\<close>.  The requests delete the
  grant \<open>g1\<close> on it, and the key of \<open>r\<close>.
\<close>

definition sample_management :: Handlers where
  "sample_management = \<lparr>m_os = sample_env, m_dbenv = sample_denv, m_Activity = True, m_Storage = Some sample_engine,
     m_Config = Default, m_PublicReadSigner = None,
     m_hashes = \<lparr>h_md5 = take 16 \<circ> sample_hash, h_sha1 = take 20 \<circ> sample_hash, h_sha256 = sample_hash, h_crc32 = take 4 \<circ> sample_hash,
       h_crc32c = take 4 \<circ> sample_hash, h_crc64nvme = take 8 \<circ> sample_hash\<rparr>,
     m_json = (\<lambda>b. JEOF),
     m_media_type_ok = (\<lambda>s. True), m_entropy = sample_draw, m_codes = (\<lambda>i n. None)\<rparr>"

definition token_world :: world where
  "token_world = \<lparr>w_disk = sample_disk,
     w_db = \<lparr>tabs = sample_tables\<lparr>users := [sample_user ''a'' RoleAdmin,
         (sample_user ''m'' RoleMember)\<lparr>u_SecretHash := hashSecret sample_hash ''s''\<rparr>,
         (sample_user ''r'' RoleMember)\<lparr>u_SecretHash := hashSecret sample_hash ''s''\<rparr>]\<rparr>, db_tick = 0\<rparr>\<rparr>"

definition token_mrequest :: "string \<Rightarrow> string \<Rightarrow> mrequest" where
  "token_mrequest tok i = \<lparr>mq = token_request tok, mq_id = i, mq_grantID = ''g1'', mq_userID = [], mq_TLS = False,
     mq_RemoteAddr = ''203.0.113.10:12345''\<rparr>"

lemma management_authority_witness:
  "case serve_management (Chain_Authenticate (newAuthChain False sample_verifier)) False (returning DeleteBucketGrant) sample_management
      (token_mrequest ''Km.s'' []) token_world of
     None \<Rightarrow> False
   | Some (resp, w') \<Rightarrow> ms_status resp = 204 \<and> grants (tabs (w_db w')) = [] \<and> confined ''b'' token_world w'"
proof -
  let ?run = "serve_management (Chain_Authenticate (newAuthChain False sample_verifier)) False (returning DeleteBucketGrant) sample_management
      (token_mrequest ''Km.s'' []) token_world"
  have ok: "map_option (\<lambda>(resp, w'). (ms_status resp, grants (tabs (w_db w')))) ?run = Some (204, [])" by code_simp
  then obtain resp w' where run: "?run = Some (resp, w')" "ms_status resp = 204" "grants (tabs (w_db w')) = []" by auto
  have wf: "db_wf (tabs (w_db token_world))" by code_simp
  have "(False, ''DELETE'', ''/buckets/{bucket}/grants/{grantID}'', returning DeleteBucketGrant) \<in> set management_routes"
    by (simp add: management_routes_def RegisterGrantRoutes_def)
  note m = management_authority [OF this wf run(1)]
  have p: "map_sum (\<lambda>e. ()) p_Role (fst (Chain_Authenticate (newAuthChain False sample_verifier) (mq (token_mrequest ''Km.s'' [])) (w_db token_world)))
      = Inr RoleMember" by code_simp
  have c: "chiBucketParam (mq (token_mrequest ''Km.s'' [])) = ''b''" by code_simp
  have g: "grants (tabs (w_db token_world)) \<noteq> []" by code_simp
  have r: "RoleMember \<noteq> RoleAdmin" by code_simp
  from m p g r run show ?thesis by (auto simp: c)
qed

lemma revoked_key_refused_witness:
  "\<exists>resp w1. DeleteKey sample_management (token_mrequest ''Kr.s'' ''r'') token_world = (Inr resp, w1)
     \<and> map_sum (\<lambda>e. ()) p_UserID (fst (Chain_Authenticate (newAuthChain False sample_verifier) (token_request ''Kr.s'') (w_db token_world))) = Inr ''r''
     \<and> (case Chain_Authenticate (newAuthChain False sample_verifier) (token_request ''Kr.s'') (w_db w1) of
          (Inl e, st) \<Rightarrow> True | (Inr p, st) \<Rightarrow> p_UserID p \<noteq> ''r'')"
proof -
  let ?run = "DeleteKey sample_management (token_mrequest ''Kr.s'' ''r'') token_world"
  have "map_sum (\<lambda>e. ()) (\<lambda>x. ()) (fst ?run) = Inr ()" by code_simp
  then obtain resp w1 where run: "?run = (Inr resp, w1)" by (cases ?run, cases "fst ?run") auto
  have i: "TrimSpace (mq_id (token_mrequest ''Kr.s'' ''r'')) = ''r''" by code_simp
  have "map_sum (\<lambda>e. ()) p_UserID (fst (Chain_Authenticate (newAuthChain False sample_verifier) (token_request ''Kr.s'') (w_db token_world))) = Inr ''r''"
    by code_simp
  moreover have "case Chain_Authenticate (newAuthChain False sample_verifier) (token_request ''Kr.s'') (w_db w1) of
          (Inl e, st) \<Rightarrow> True | (Inr p, st) \<Rightarrow> p_UserID p \<noteq> ''r''"
    using conjunct1 [OF revoked_key_refused [OF disjI1 [OF run], where s = sample_verifier and r = "token_request ''Kr.s''"]]
    unfolding i by (simp split: prod.splits sum.splits)
  ultimately show ?thesis using run by (intro exI conjI)
qed

end
