(* ===== verification/StoreManagement.thy ===== *)
theory StoreManagement
  imports StoreRequests ManagementLaws
begin

text \<open>
  The whole server over one state: S3 requests, the stale-upload worker, management requests and the first-run
  setup.  The management handlers join the store protocol: whatever they change, a consistent store stays
  consistent as long as the identifiers they draw are among the distinct ones.
\<close>

section \<open>Tended stores\<close>

definition in_step :: "ObjectHandlers \<Rightarrow> world \<Rightarrow> bool" where
  "in_step h w \<longleftrightarrow> (\<exists>st. consistent h st \<and> sw st = w)"

definition tended :: "ObjectHandlers \<Rightarrow> world \<Rightarrow> world \<Rightarrow> bool" where
  "tended h w w' \<longleftrightarrow> next_uuid (w_disk w) \<le> next_uuid (w_disk w')
     \<and> (next_uuid (w_disk w') \<le> uuid_count (h_os h) \<longrightarrow> in_step h w \<longrightarrow> in_step h w')"

definition tends :: "ObjectHandlers \<Rightarrow> (world \<Rightarrow> ('e + 'a) \<times> world) \<Rightarrow> bool" where
  "tends h m \<longleftrightarrow> (\<forall>w r w'. m w = (r, w') \<longrightarrow> tended h w w')"

lemma tended_refl [simp]: "tended h w w"
  by (simp add: tended_def)

lemma tended_trans: "tended h w w1 \<Longrightarrow> tended h w1 w2 \<Longrightarrow> tended h w w2"
  by (auto simp: tended_def)

lemma tendedI:
  assumes "next_uuid (w_disk w) \<le> next_uuid (w_disk w')"
    and "\<And>st. next_uuid (w_disk w') \<le> uuid_count (h_os h) \<Longrightarrow> consistent h st \<Longrightarrow> sw st = w \<Longrightarrow> \<exists>st'. consistent h st' \<and> sw st' = w'"
  shows "tended h w w'"
  using assms by (auto simp: tended_def in_step_def)

lemma tendsD: "tends h m \<Longrightarrow> m w = (r, w') \<Longrightarrow> tended h w w'"
  by (simp add: tends_def)

lemma tends_andThen:
  assumes "tends h m" and "\<And>x. tends h (f x)"
  shows "tends h (andThen m f)"
  unfolding tends_def
proof (intro allI impI)
  fix w r w'
  assume run: "andThen m f w = (r, w')"
  obtain y w1 where y: "m w = (y, w1)" by fastforce
  show "tended h w w'"
  proof (cases y)
    case (Inl e)
    with run y tendsD [OF assms(1) y] show ?thesis by (simp add: andThen_def)
  next
    case (Inr x)
    with run y have "f x w1 = (r, w')" by (simp add: andThen_def)
    with tendsD [OF assms(1) y] tendsD [OF assms(2)] show ?thesis by (blast intro: tended_trans)
  qed
qed

lemma tends_plain: "tends h (ret x)" "tends h (fail e)" "tends h (lift_sum v)" "tends h (m_now hm)"
  by (auto simp: tends_def ret_def fail_def lift_sum_def m_now_def)

lemma tends_if: "tends h a \<Longrightarrow> tends h b \<Longrightarrow> tends h (if c then a else b)"
  by simp

lemma tends_cases:
  "(\<And>e. tends h (f e)) \<Longrightarrow> (\<And>x. tends h (g x)) \<Longrightarrow> tends h (case res of Inl e \<Rightarrow> f e | Inr x \<Rightarrow> g x)"
  "tends h a \<Longrightarrow> (\<And>x. tends h (k x)) \<Longrightarrow> tends h (case opt of None \<Rightarrow> a | Some x \<Rightarrow> k x)"
  "(\<And>x y. tends h (p x y)) \<Longrightarrow> tends h (case pair of (x, y) \<Rightarrow> p x y)"
  by (auto split: sum.splits option.splits prod.splits)

text \<open>A statement that leaves the objects, parts, uploads and the names of the buckets as they are.\<close>

definition benign :: "tables \<Rightarrow> tables \<Rightarrow> bool" where
  "benign t t' \<longleftrightarrow> objects t' = objects t \<and> parts t' = parts t \<and> uploads t' = uploads t
     \<and> b_Name ` set (buckets t') \<subseteq> b_Name ` set (buckets t)"

lemma benign_refl [simp]: "benign t t"
  by (simp add: benign_def)

lemma benign_trans: "benign t u \<Longrightarrow> benign u v \<Longrightarrow> benign t v"
  unfolding benign_def by (metis subset_trans)

lemma benign_shrinks:
  assumes "consistent h st" and "benign (stabs st) t"
  shows "shrinks_tables (stabs st) t"
proof -
  note ok = store_okD(6,7) [OF assms(1) [unfolded consistent_def]]
  have "good_elem (b_Name b)" if "b \<in> set (buckets t)" for b
  proof -
    from that assms(2) have "b_Name b \<in> b_Name ` set (buckets (stabs st))" by (auto simp: benign_def)
    then show ?thesis using ok(1) by auto
  qed
  with assms(2) ok(2) show ?thesis by (auto simp: benign_def shrinks_tables_def upload_ids_def)
qed

lemma consistent_statement:
  assumes "handlers_wf h" and "consistent h st" and "shrinks_tables (stabs st) (tabs s)"
  shows "consistent h (after_statement s st)"
  using steps_ok [OF assms(1) steps_statement [OF assms(3)] assms(2)] .

lemma tended_statement:
  assumes wf: "handlers_wf h" and b: "benign (tabs (w_db w)) (tabs s)"
  shows "tended h w (w\<lparr>w_db := s\<rparr>)"
proof (rule tendedI)
  fix st
  assume st: "consistent h st" "sw st = w"
  then have "consistent h (after_statement s st)"
    using b by (intro consistent_statement [OF wf] benign_shrinks [OF st(1)]) simp_all
  then show "\<exists>st'. consistent h st' \<and> sw st' = w\<lparr>w_db := s\<rparr>" using st(2) by (intro exI [of _ "after_statement s st"]) simp
qed simp

lemma tends_db:
  assumes wf: "handlers_wf h" and m: "\<And>s r s'. m (m_dbenv hm) s = (r, s') \<Longrightarrow> benign (tabs s) (tabs s')"
  shows "tends h (of_db hm m)"
  unfolding tends_def of_db_run using tended_statement [OF wf m [OF surjective_pairing]] by auto

lemma tends_uuid:
  assumes wf: "handlers_wf h" and os: "m_os hm = h_os h"
  shows "tends h (m_uuid hm)"
  unfolding tends_def
proof (intro allI impI)
  fix w r w'
  assume run: "m_uuid hm w = (r, w')"
  obtain i d where n: "new_uuid (h_os h) (w_disk w) = (i, d)" by fastforce
  with run os have w': "w' = w\<lparr>w_disk := d\<rparr>" by (simp add: m_uuid_def on_disk_eq)
  have k: "next_uuid d = Suc (next_uuid (w_disk w))" by (rule uuid_steps(2) [OF n])
  show "tended h w w'"
    unfolding w'
  proof (rule tendedI)
    fix st
    assume "next_uuid (w_disk (w\<lparr>w_disk := d\<rparr>)) \<le> uuid_count (h_os h)" and st: "consistent h st" "sw st = w"
    then have "steps h st ((set_disk d st)\<lparr>idents := insert i (idents st)\<rparr>)"
      using n k by (intro steps_one store_step.draw) auto
    with steps_ok [OF wf _ st(1)] show "\<exists>st'. consistent h st' \<and> sw st' = w\<lparr>w_disk := d\<rparr>"
      using st(2) by (intro exI [of _ "(set_disk d st)\<lparr>idents := insert i (idents st)\<rparr>"]) simp
  qed (simp add: k)
qed

section \<open>The statements of the management handlers\<close>

named_theorems benign_ops

lemma benign_read: "tabs s' = tabs s \<Longrightarrow> benign (tabs s) (tabs s')"
  by simp

lemma benign_queries [benign_ops]:
  "GetByName env b s = (r1, s') \<Longrightarrow> benign (tabs s) (tabs s')"
  "GetByKey env b k s = (r2, s') \<Longrightarrow> benign (tabs s) (tabs s')"
  "Metrics env s = (r3, s') \<Longrightarrow> benign (tabs s) (tabs s')"
  "ListBucketSummaries env s = (r4, s') \<Longrightarrow> benign (tabs s) (tabs s')"
  "GetBucketSummary env b s = (r5, s') \<Longrightarrow> benign (tabs s) (tabs s')"
  "share_List env b s = (r6, s') \<Longrightarrow> benign (tabs s) (tabs s')"
  "grant_ListByBucket env b s = (r7, s') \<Longrightarrow> benign (tabs s) (tabs s')"
  "grant_GetByID env i s = (r8, s') \<Longrightarrow> benign (tabs s) (tabs s')"
  "ListByGrantee env u s = (r9, s') \<Longrightarrow> benign (tabs s) (tabs s')"
  "UserCount env s = (r10, s') \<Longrightarrow> benign (tabs s) (tabs s')"
  unfolding GetByName_def GetByKey_def Metrics_def ListBucketSummaries_def GetBucketSummary_def share_List_def grant_ListByBucket_def
    grant_GetByID_def ListByGrantee_def UserCount_def
  by (rule benign_read, rule query_tabs, assumption)+

lemma benign_user_reads [benign_ops]:
  "user_GetByID env i s = (r1, s') \<Longrightarrow> benign (tabs s) (tabs s')"
  "GetByAccessKeyID env k s = (r2, s') \<Longrightarrow> benign (tabs s) (tabs s')"
  "user_List env s = (r3, s') \<Longrightarrow> benign (tabs s) (tabs s')"
  by (auto dest: user_GetByID_reads GetByAccessKeyID_tabs) (auto simp: user_List_def andThen_def ret_def dest!: query_tabs split: prod.splits sum.splits)

lemma benign_activity [benign_ops]:
  "activity_List env b a n s = (r1, s') \<Longrightarrow> benign (tabs s) (tabs s')"
  "RecordActivity env q ev s = (r2, s') \<Longrightarrow> benign (tabs s) (tabs s')"
  by (auto simp: activity_List_def RecordActivity_def benign_def dest!: query_tabs activity_Create_result split: if_splits)

lemma benign_users [benign_ops]:
  "user_Delete env i s = (r1, s') \<Longrightarrow> benign (tabs s) (tabs s')"
  "user_Update env u s = (r2, s') \<Longrightarrow> benign (tabs s) (tabs s')"
  "user_Create env u s = (r3, s') \<Longrightarrow> benign (tabs s) (tabs s')"
  by (auto simp: user_Delete_def user_Update_def user_Create_def insertUser_def benign_def delete_user_def update_user_def insert_user_def
      split: if_splits dest!: sql_tables)

lemma benign_first_user [benign_ops]: "CreateFirstUser env u s = (r, s') \<Longrightarrow> benign (tabs s) (tabs s')"
  using first_user_once [where env = env and u = u and s = s] by (cases r) (auto simp: benign_def)

lemma benign_credentials:
  assumes "\<And>u s r s'. create u s = (r, s') \<Longrightarrow> benign (tabs s) (tabs s')" and "createUserCredentials H draw i env create n role s = (r, s')"
  shows "benign (tabs s) (tabs s')"
  using assms(2) unfolding createUserCredentials_def Let_def by (auto split: sum.splits prod.splits dest!: assms(1))

lemma benign_keys [benign_ops]:
  "CreateBearerToken H draw i env n role s = (r1, s') \<Longrightarrow> benign (tabs s) (tabs s')"
  "CreateFirstAdmin H draw i env n s = (r2, s') \<Longrightarrow> benign (tabs s) (tabs s')"
  unfolding CreateBearerToken_def CreateFirstAdmin_def
  by (erule benign_credentials [rotated], erule benign_users benign_first_user)+

lemma benign_links [benign_ops]:
  "share_Create env l s = (r1, s') \<Longrightarrow> benign (tabs s) (tabs s')"
  "share_Delete env c s = (r2, s') \<Longrightarrow> benign (tabs s) (tabs s')"
  unfolding share_Create_def share_Delete_def
  by (auto simp: benign_def Let_def split: if_splits prod.splits sum.splits dest!: sql_tables)

lemma benign_grants [benign_ops]:
  "CreateIdempotentBatch env gs s = (r1, s') \<Longrightarrow> benign (tabs s) (tabs s')"
  "grant_Update env g s = (r2, s') \<Longrightarrow> benign (tabs s) (tabs s')"
  "grant_Delete env i s = (r3, s') \<Longrightarrow> benign (tabs s) (tabs s')"
  "UpdateOwner env b u v s = (r4, s') \<Longrightarrow> benign (tabs s) (tabs s')"
     apply (auto simp: benign_def dest!: CreateIdempotentBatch_tables)[1]
    apply (auto simp: grant_Update_def update_grant_def benign_def split: if_splits option.splits dest!: sql_tables)[1]
   apply (auto simp: grant_Delete_def benign_def split: if_splits dest!: sql_tables)[1]
  apply (auto simp: UpdateOwner_def update_owner_def benign_def split: if_splits dest!: sql_tables)[1]
  done

section \<open>The handlers\<close>

lemmas tend_rules = tends_andThen tends_plain tends_if tends_cases

definition shares :: "ObjectHandlers \<Rightarrow> Handlers \<Rightarrow> bool" where
  "shares h hm \<longleftrightarrow> m_os hm = h_os h \<and> m_dbenv hm = h_dbenv h \<and> m_Storage hm = Some (h_Storage h)"

lemma newApp_shares: "newApp E cfg store = Inr a \<Longrightarrow> shares (a_objects a) (a_management a)"
  by (auto simp: newApp_def Let_def shares_def split: sum.splits)

lemma newApp_objects: "newApp E cfg store = Inr a \<Longrightarrow> h_os (a_objects a) = e_os E \<and> h_Storage (a_objects a) = store"
  by (auto simp: newApp_def Let_def split: sum.splits)

lemma m_listObjects_benign [benign_ops]: "m_listObjects env b ps s = (r, s') \<Longrightarrow> benign (tabs s) (tabs s')"
  by (auto simp: m_listObjects_def Let_def andThen_def split: if_splits prod.splits sum.splits dest!: object_List_keeps ListDelimited_reads)

lemma insert_generated_benign: "insert_generated h i n link err s = (r, s') \<Longrightarrow> benign (tabs s) (tabs s')"
proof (induction n arbitrary: i err s)
  case (Suc n)
  show ?case
  proof (cases "GenerateCode (m_codes h i)")
    case None
    with Suc.prems show ?thesis by simp
  next
    case (Some code)
    obtain x s1 where c: "share_Create (m_dbenv h) (link\<lparr>sl_Code := code\<rparr>) s = (x, s1)" by fastforce
    note b = benign_links(1) [OF c]
    from Suc.prems Some c have "s' = s1 \<or> (\<exists>e. insert_generated h (Suc i) n link e s1 = (r, s'))"
      by (auto split: sum.splits if_splits)
    with b Suc.IH show ?thesis by (blast intro: benign_trans)
  qed
qed simp

lemma insertShareLink_benign: "insertShareLink h link a s = (r, s') \<Longrightarrow> benign (tabs s) (tabs s')"
  by (auto simp: insertShareLink_def andThen_def split: if_splits prod.splits sum.splits dest: insert_generated_benign benign_links(1))

lemma tends_insertShareLink:
  assumes "handlers_wf h"
  shows "tends h (on_db (insertShareLink hm link a) :: ShareLink result mact)"
  using tends_db [OF assms, of "\<lambda>env. insertShareLink hm link a" hm] insertShareLink_benign by (simp add: of_db_def)

lemma tends_recordActivity:
  assumes "handlers_wf h" and "shares h hm"
  shows "tends h (m_recordActivity hm q action b k sz et)"
  unfolding m_recordActivity_def
  by (intro tend_rules tends_uuid [OF assms(1)] tends_db [OF assms(1)]) (use assms(2) in \<open>auto simp: shares_def elim: benign_ops\<close>)

lemma tends_record_deletions:
  assumes "handlers_wf h" and "shares h hm"
  shows "tends h (record_deletions hm q b objs)"
  by (induction objs) (auto intro!: tend_rules tends_recordActivity [OF assms])

lemma tends_reads:
  assumes wf: "handlers_wf h"
  shows "tends h (h_Metrics hm q)" "tends h (ConfigInfo hm q)" "tends h (ListActivity hm q)" "tends h (m_ListBuckets hm q)"
    "tends h (GetBucket hm q)" "tends h (ensureBucket hm b)" "tends h (ListKeys hm q)" "tends h (ListShareLinks hm q)"
    "tends h (list_grants_of hm u)" "tends h (shareLinkCreatorID hm q)" "tends h (resolveGrantee hm u v)"
    "tends h (loadBucketForGrantAdmin hm q)" "tends h (loadGrantOnBucket hm i b)" "tends h (bootstrapRequired hm)"
  unfolding h_Metrics_def ConfigInfo_def ListActivity_def m_ListBuckets_def GetBucket_def ensureBucket_def ListKeys_def ListShareLinks_def
    list_grants_of_def shareLinkCreatorID_def resolveGrantee_def loadBucketForGrantAdmin_def loadGrantOnBucket_def bootstrapRequired_def Let_def
  by (intro tend_rules tends_db [OF wf]; erule benign_ops)+

lemma tends_new_grants:
  assumes "handlers_wf h" and "shares h hm"
  shows "tends h (new_grants hm g as)"
  by (induction as) (use assms(2) in \<open>auto simp: shares_def intro!: tend_rules tends_uuid [OF assms(1)]\<close>)

lemma tends_record_created:
  assumes "handlers_wf h" and "shares h hm"
  shows "tends h (record_created hm q b rs)"
  by (induction rs) (auto intro!: tend_rules tends_recordActivity [OF assms])

lemma tends_listings:
  assumes wf: "handlers_wf h"
  shows "tends h (m_ListObjects hm q)" "tends h (m_GetObject hm q)" "tends h (CreatePublicObjectURL hm q)" "tends h (ListMyGrants hm q)"
    "tends h (ListUserGrants hm q)" "tends h (ListBucketGrants hm q)" "tends h (Status hm q)"
  unfolding m_ListObjects_def m_GetObject_def CreatePublicObjectURL_def ListMyGrants_def ListUserGrants_def ListBucketGrants_def Status_def Let_def
  by (intro tend_rules tends_reads [OF wf] tends_db [OF wf]; erule benign_ops)+

lemma tends_keys:
  assumes wf: "handlers_wf h" and sh: "shares h hm"
  shows "tends h (CreateKey hm q)" "tends h (PatchKey hm q)" "tends h (DeleteKey hm q)" "tends h (CreateShareLink hm q)"
    "tends h (DeleteShareLink hm q)" "tends h (BootstrapFirstAdmin hm q)"
proof -
  note uuid = tends_uuid [OF wf conjunct1 [OF sh [unfolded shares_def]]]
  show "tends h (CreateKey hm q)" "tends h (PatchKey hm q)" "tends h (DeleteKey hm q)" "tends h (CreateShareLink hm q)"
    "tends h (DeleteShareLink hm q)" "tends h (BootstrapFirstAdmin hm q)"
    unfolding CreateKey_def PatchKey_def DeleteKey_def CreateShareLink_def DeleteShareLink_def BootstrapFirstAdmin_def Let_def
    by (intro tend_rules uuid tends_reads [OF wf] tends_insertShareLink [OF wf] tends_db [OF wf]; erule benign_ops)+
qed

lemma tends_grants:
  assumes wf: "handlers_wf h" and sh: "shares h hm"
  shows "tends h (CreateBucketGrants hm q)" "tends h (PatchBucketGrant hm q)" "tends h (DeleteBucketGrant hm q)"
    "tends h (TransferBucketOwnership hm q)"
  unfolding CreateBucketGrants_def PatchBucketGrant_def DeleteBucketGrant_def TransferBucketOwnership_def Let_def
  by (intro tend_rules tends_reads [OF wf] tends_new_grants [OF wf sh] tends_record_created [OF wf sh] tends_recordActivity [OF wf sh]
      tends_db [OF wf]; erule benign_ops)+

section \<open>Deleting and emptying buckets\<close>

definition doomed :: "store \<Rightarrow> string \<Rightarrow> bool" where
  "doomed st p \<longleftrightarrow> (\<exists>c. own st p = Some (Doomed, c))"

lemma doom_paths:
  assumes wf: "handlers_wf h" and ok: "consistent h st"
    and ps: "\<And>p. p \<in> set ps \<Longrightarrow> own st p \<noteq> None \<and> p \<notin> o_StoragePath ` set (objects (stabs st)) \<and> p \<notin> mp_StoragePath ` set (parts (stabs st))"
  shows "\<exists>st'. consistent h st' \<and> sw st' = sw st \<and> (\<forall>p\<in>set ps. doomed st' p) \<and> (\<forall>p. doomed st p \<longrightarrow> doomed st' p)"
  using ok ps
proof (induction ps arbitrary: st)
  case (Cons p ps)
  from Cons.prems(2) [of p] obtain hl c where c: "own st p = Some (hl, c)" by auto
  let ?st1 = "hold p Doomed c st"
  have ok1: "consistent h ?st1"
    using Cons.prems(2) [of p] c by (intro steps_ok [OF wf steps_one Cons.prems(1)] store_step.doom) auto
  have "\<exists>st'. consistent h st' \<and> sw st' = sw ?st1 \<and> (\<forall>p\<in>set ps. doomed st' p) \<and> (\<forall>p. doomed ?st1 p \<longrightarrow> doomed st' p)"
    using Cons.prems(2) by (intro Cons.IH [OF ok1]) auto
  moreover have "doomed ?st1 p" "doomed st q \<Longrightarrow> doomed ?st1 q" for q by (auto simp: doomed_def)
  ultimately show ?case by fastforce
qed auto

lemma doom_rows:
  assumes wf: "handlers_wf h" and ok: "consistent h st" and sh: "shrinks_tables (stabs st) (tabs s)"
    and objs: "set objs \<subseteq> set (objects (stabs st))" "\<And>x y. x \<in> set objs \<Longrightarrow> y \<in> set (objects (tabs s)) \<Longrightarrow> obj_key y \<noteq> obj_key x"
  shows "\<exists>st'. consistent h st' \<and> sw st' = (sw st)\<lparr>w_db := s\<rparr> \<and> (\<forall>x\<in>set objs. doomed st' (o_StoragePath x))"
proof -
  let ?st1 = "after_statement s st"
  have ok1: "consistent h ?st1" by (rule consistent_statement [OF wf ok sh])
  have "own ?st1 p \<noteq> None \<and> p \<notin> o_StoragePath ` set (objects (stabs ?st1)) \<and> p \<notin> mp_StoragePath ` set (parts (stabs ?st1))"
    if p: "p \<in> set (map o_StoragePath objs)" for p
  proof -
    from p obtain x where x: "x \<in> set objs" "p = o_StoragePath x" by auto
    obtain c where c: "own st p = Some (RowOf (obj_key x), c)"
      using store_okD(2) [OF ok [unfolded consistent_def]] objs(1) x by (auto simp: row_held_def)
    have sub: "set (objects (tabs s)) \<subseteq> set (objects (stabs st)) - {y. obj_key y = obj_key x}" "set (parts (tabs s)) \<subseteq> set (parts (stabs st))"
      using sh objs(2) [OF x(1)] by (auto simp: shrinks_tables_def)
    from no_row_names [OF ok [unfolded consistent_def] sub, of p c] c show ?thesis by simp
  qed
  with doom_paths [OF wf ok1, of "map o_StoragePath objs"] show ?thesis by auto
qed

lemma Delete_doomed:
  assumes wf: "handlers_wf h" and ok: "consistent h st" and p: "doomed st p"
    and run: "Delete (h_os h) (h_Storage h) p (sdisk st) = (r, d)"
  shows "consistent h (set_disk d st) \<and> next_uuid d = next_uuid (sdisk st)"
proof -
  from p obtain c where c: "own st p = Some (Doomed, c)" by (auto simp: doomed_def)
  have "shape Doomed p" using store_okD(1) [OF ok [unfolded consistent_def] c] by (simp add: holds_def del: shape.simps)
  then have "canonical p" by (rule shape_canonical)
  with run wf have "next_uuid d = next_uuid (sdisk st)" by (auto simp: handlers_wf_def intro: Delete_uuid)
  moreover have "consistent h (set_disk d st)"
    using run c by (intro steps_ok [OF wf steps_one ok] store_step.delete_file) auto
  ultimately show ?thesis by simp
qed

lemma delete_files_doomed:
  assumes "handlers_wf h" and "consistent h st" and "\<forall>x\<in>set objs. doomed st (o_StoragePath x)"
    and "delete_files (h_os h) (h_Storage h) objs (sdisk st) = (n, d)"
  shows "consistent h (set_disk d st) \<and> next_uuid d = next_uuid (sdisk st)"
  using assms(2-)
proof (induction objs arbitrary: st n d)
  case (Cons x objs)
  obtain r d1 where d1: "Delete (h_os h) (h_Storage h) (o_StoragePath x) (sdisk st) = (r, d1)" by fastforce
  obtain m d2 where d2: "delete_files (h_os h) (h_Storage h) objs d1 = (m, d2)" by fastforce
  have 1: "consistent h (set_disk d1 st) \<and> next_uuid d1 = next_uuid (sdisk st)"
    by (rule Delete_doomed [OF assms(1) Cons.prems(1) _ d1]) (use Cons.prems(2) in simp)
  have "consistent h (set_disk d2 (set_disk d1 st)) \<and> next_uuid d2 = next_uuid (sdisk (set_disk d1 st))"
    using 1 Cons.prems(2) d2 by (intro Cons.IH) (auto simp: doomed_def)
  with 1 d1 d2 Cons.prems(3) show ?case by (simp add: set_disk_def)
qed (auto simp: set_disk_def)

lemma delete_until_doomed:
  assumes "handlers_wf h" and "consistent h st" and "\<forall>x\<in>set objs. doomed st (o_StoragePath x)"
    and "delete_until (h_os h) (h_Storage h) objs (sdisk st) = (e, d)"
  shows "consistent h (set_disk d st) \<and> next_uuid d = next_uuid (sdisk st)"
  using assms(2-)
proof (induction objs arbitrary: st d)
  case (Cons x objs)
  obtain r d1 where d1: "Delete (h_os h) (h_Storage h) (o_StoragePath x) (sdisk st) = (r, d1)" by fastforce
  have 1: "consistent h (set_disk d1 st) \<and> next_uuid d1 = next_uuid (sdisk st)"
    by (rule Delete_doomed [OF assms(1) Cons.prems(1) _ d1]) (use Cons.prems(2) in simp)
  show ?case
  proof (cases r)
    case None
    have "consistent h (set_disk d (set_disk d1 st)) \<and> next_uuid d = next_uuid (sdisk (set_disk d1 st))"
      using 1 Cons.prems(2,3) d1 None by (intro Cons.IH) (auto simp: doomed_def)
    with 1 show ?thesis by (simp add: set_disk_def)
  qed (use 1 d1 Cons.prems(3) in simp)
qed (auto simp: set_disk_def)

text \<open>What \<open>ListAllObjects\<close> returns are rows of the bucket, whether or not the keys are unique.\<close>

lemma read_all_rows:
  assumes run: "read_all page key_of acc a s = Some (r, s')"
    and keeps: "\<And>a s x s'. page a s = (x, s') \<Longrightarrow> tabs s' = tabs s"
    and rows: "\<And>a s xs tr s'. page a s = (Inr (xs, tr), s') \<Longrightarrow> set xs \<subseteq> R (tabs s)"
    and acc: "set acc \<subseteq> R (tabs s)"
  shows "tabs s' = tabs s \<and> (\<forall>xs. r = Inr xs \<longrightarrow> set xs \<subseteq> R (tabs s))"
proof -
  let ?P = "\<lambda>pg key acc a s y. pg = page \<longrightarrow> set acc \<subseteq> R (tabs s) \<longrightarrow> tabs (snd y) = tabs s \<and> (\<forall>xs. fst y = Inr xs \<longrightarrow> set xs \<subseteq> R (tabs s))"
  have "?P page key_of acc a s (r, s')"
    using run
  proof (rule read_all.raw_induct [where P = ?P, rotated])
    fix read pg key acc a s y
    assume IH: "\<And>pg key acc a s y. read pg key acc a s = Some y \<Longrightarrow> ?P pg key acc a s y"
      and body: "(case pg a s of (Inl e, s1) \<Rightarrow> Some (Inl e, s1)
        | (Inr (objs, isTruncated), s1) \<Rightarrow> if \<not> isTruncated \<or> objs = [] then Some (Inr (acc @ objs), s1) else read pg key (acc @ objs) (key (last objs)) s1) = Some y"
    show "?P pg key acc a s y"
    proof (intro impI)
      assume "pg = page" and sub: "set acc \<subseteq> R (tabs s)"
      obtain x s1 where x: "page a s = (x, s1)" by fastforce
      note t = keeps [OF x]
      show "tabs (snd y) = tabs s \<and> (\<forall>xs. fst y = Inr xs \<longrightarrow> set xs \<subseteq> R (tabs s))"
      proof (cases x)
        case (Inl e)
        with body x t \<open>pg = page\<close> show ?thesis by auto
      next
        case (Inr p)
        obtain objs tr where p: "p = (objs, tr)" by fastforce
        have more: "set (acc @ objs) \<subseteq> R (tabs s1)" using rows x Inr p sub t by auto
        show ?thesis
        proof (cases "\<not> tr \<or> objs = []")
          case True
          with body x Inr p \<open>pg = page\<close> have "y = (Inr (acc @ objs), s1)" by auto
          with more t show ?thesis by simp
        next
          case False
          with body x Inr p \<open>pg = page\<close> have "read page key (acc @ objs) (key (last objs)) s1 = Some y" by simp
          from IH [OF this, rule_format, OF refl more] t show ?thesis by simp
        qed
      qed
    qed
  qed
  with acc show ?thesis by simp
qed

lemma ListAllObjects_rows:
  assumes "ListAllObjects env b s = Some (r, s')"
  shows "tabs s' = tabs s \<and> (\<forall>objs. r = Inr objs \<longrightarrow> set objs \<subseteq> {x \<in> set (objects (tabs s)). o_BucketName x = b})"
  using assms unfolding ListAllObjects_def
proof (rule read_all_rows)
  show "set xs \<subseteq> {x \<in> set (objects (tabs s)). o_BucketName x = b}" if "object_List env b [] a pageLimit s = (Inr (xs, tr), s')" for a s xs tr s'
    using object_List_Inr(1) [OF that] by (auto simp: pageLimit_def bucket_rows_def dest: in_set_takeD)
qed (auto dest: object_List_keeps)

lemma DeleteWithObjects_result:
  assumes "DeleteWithObjects env n s = (r, s')"
  shows "case r of
      Inl e \<Rightarrow> tabs s' = tabs s
    | Inr objs \<Rightarrow> set objs \<subseteq> set (objects (tabs s)) \<and> (\<forall>x\<in>set objs. o_BucketName x = n)
        \<and> set (objects (tabs s')) = {x \<in> set (objects (tabs s)). o_BucketName x \<noteq> n} \<and> parts (tabs s') = parts (tabs s)
        \<and> uploads (tabs s') = uploads (tabs s) \<and> set (buckets (tabs s')) \<subseteq> set (buckets (tabs s))"
proof (cases r)
  case (Inl e)
  with assms DeleteWithObjects.error_keeps show ?thesis by auto
next
  case (Inr objs)
  from assms [unfolded Inr DeleteWithObjects_def] obtain s1 s2 where b: "tabs s1 = tabs s" "tabs s' = tabs s2"
    and body: "andThen (query env (\<lambda>t. Inr (n \<in> mu_BucketName ` set (uploads t)))) (\<lambda>hasUploads.
        if hasUploads then fail ErrBucketHasMultipartUploads
        else andThen (deleteBucketObjects env n) (\<lambda>objs.
               andThen (sql env (delete_bucket n)) (\<lambda>u. ret objs))) s1 = (Inr objs, s2)"
    by (rule in_tx_Inr) blast
  from DeleteWithObjects_body(2) [OF body] DeleteWithObjects_body(3) [OF body, symmetric] b Inr show ?thesis
    by (auto simp: delete_bucket_def split: if_splits)
qed

lemma rows_gone_shrinks:
  assumes "consistent h st" and "set (objects t) \<subseteq> set (objects (stabs st))" and "parts t = parts (stabs st)"
    and "uploads t = uploads (stabs st)" and "set (buckets t) \<subseteq> set (buckets (stabs st))"
  shows "shrinks_tables (stabs st) t"
  using assms(2-) store_okD(7) [OF assms(1) [unfolded consistent_def]] by (auto simp: shrinks_tables_def upload_ids_def)

lemma tended_rows_then_files:
  assumes wf: "handlers_wf h" and rows: "set objs \<subseteq> set (objects (tabs (w_db w)))"
    and gone: "\<And>x y. x \<in> set objs \<Longrightarrow> y \<in> set (objects (tabs s)) \<Longrightarrow> obj_key y \<noteq> obj_key x"
    and t: "set (objects (tabs s)) \<subseteq> set (objects (tabs (w_db w)))" "parts (tabs s) = parts (tabs (w_db w))"
      "uploads (tabs s) = uploads (tabs (w_db w))" "set (buckets (tabs s)) \<subseteq> set (buckets (tabs (w_db w)))"
    and fin: "\<And>st. consistent h st \<Longrightarrow> sdisk st = w_disk w \<Longrightarrow> \<forall>x\<in>set objs. doomed st (o_StoragePath x) \<Longrightarrow>
      consistent h (set_disk d st)" and ids: "next_uuid (w_disk w) \<le> next_uuid d"
  shows "tended h w (w\<lparr>w_db := s, w_disk := d\<rparr>)"
proof (rule tendedI)
  fix st
  assume st: "consistent h st" "sw st = w"
  have "shrinks_tables (stabs st) (tabs s)" using t st(2) by (intro rows_gone_shrinks [OF st(1)]) simp_all
  with doom_rows [OF wf st(1) this, of objs] rows gone st(2) obtain st' where st': "consistent h st'" "sw st' = w\<lparr>w_db := s\<rparr>"
    "\<forall>x\<in>set objs. doomed st' (o_StoragePath x)" by auto
  with fin [OF st'(1)] show "\<exists>st'. consistent h st' \<and> sw st' = w\<lparr>w_db := s, w_disk := d\<rparr>"
    by (intro exI [of _ "set_disk d st'"]) (simp add: set_disk_def)
qed (use ids in simp)

lemma bucket_rows_apart: "o_BucketName x = b \<Longrightarrow> o_BucketName y \<noteq> b \<Longrightarrow> obj_key y \<noteq> obj_key x"
  by (auto simp: obj_key_def)

lemma prune_loop_uuid: "next_uuid (prune_loop env e root n cur d) = next_uuid d"
  by (induction n arbitrary: cur d) (auto split: prod.splits option.splits dest: os_Remove_uuid)

lemma any_Delete_uuid: "Delete env e p d = (r, d') \<Longrightarrow> next_uuid d' = next_uuid d"
  by (auto simp: Delete_def pruneEmptyParents_def Let_def prune_loop_uuid simp del: prune_loop.simps
      split: prod.splits option.splits sum.splits if_splits dest!: uuid_steps(1) os_Remove_uuid)

lemma delete_files_uuid: "delete_files env e objs d = (n, d') \<Longrightarrow> next_uuid d' = next_uuid d"
  by (induction objs arbitrary: d n) (auto split: prod.splits dest!: any_Delete_uuid)

lemma delete_until_uuid: "delete_until env e objs d = (x, d') \<Longrightarrow> next_uuid d' = next_uuid d"
  by (induction objs arbitrary: d) (auto split: prod.splits option.splits dest!: any_Delete_uuid)

lemma delete_files_tended:
  assumes wf: "handlers_wf h" and run: "DeleteWithObjects env b (w_db w) = (Inr objs, s)"
    and del: "delete_files (h_os h) (h_Storage h) objs (w_disk w) = (n, d)"
  shows "tended h w (w\<lparr>w_db := s, w_disk := d\<rparr>)"
proof -
  note r = DeleteWithObjects_result [OF run, simplified]
  show ?thesis
  proof (rule tended_rows_then_files [OF wf, where objs = objs])
    show "consistent h (set_disk d st)"
      if "consistent h st" "sdisk st = w_disk w" "\<forall>x\<in>set objs. doomed st (o_StoragePath x)" for st
      using delete_files_doomed [OF wf that(1,3)] del that(2) by simp
    show "obj_key y \<noteq> obj_key x" if "x \<in> set objs" "y \<in> set (objects (tabs s))" for x y
      using r that by (intro bucket_rows_apart [of x b]) auto
  qed (use r delete_files_uuid [OF del] in auto)
qed

lemma tends_delete_rows:
  assumes wf: "handlers_wf h" and sh: "shares h hm" and F: "\<And>e. tends h (F e)" and K: "\<And>objs c. tends h (K objs c)"
  shows "tends h (andThen (of_db hm (\<lambda>env. DeleteWithObjects env b)) (\<lambda>res.
     case res of Inl e \<Rightarrow> F e | Inr objs \<Rightarrow> andThen (deleteBucketFiles hm objs) (K objs)))"
  unfolding tends_def
proof (intro allI impI)
  fix w r w'
  assume run: "andThen (of_db hm (\<lambda>env. DeleteWithObjects env b)) (\<lambda>res.
     case res of Inl e \<Rightarrow> F e | Inr objs \<Rightarrow> andThen (deleteBucketFiles hm objs) (K objs)) w = (r, w')"
  obtain x s where x: "DeleteWithObjects (m_dbenv hm) b (w_db w) = (x, s)" by fastforce
  show "tended h w w'"
  proof (cases x)
    case (Inl e)
    have "F e (w\<lparr>w_db := s\<rparr>) = (r, w')" using run x Inl by (simp add: andThen_def of_db_run)
    moreover have "tended h w (w\<lparr>w_db := s\<rparr>)"
      using DeleteWithObjects_result [OF x] Inl by (intro tended_statement [OF wf]) simp
    ultimately show ?thesis using tendsD [OF F] by (blast intro: tended_trans)
  next
    case (Inr objs)
    obtain n d where d: "delete_files (h_os h) (h_Storage h) objs (w_disk w) = (n, d)" by fastforce
    have "K objs (n = 0) (w\<lparr>w_db := s, w_disk := d\<rparr>) = (r, w')"
      using run x Inr d sh by (simp add: andThen_def of_db_run deleteBucketFiles_def shares_def on_disk_eq ret_def)
    with delete_files_tended [OF wf x [unfolded Inr] d] tendsD [OF K] show ?thesis by (blast intro: tended_trans)
  qed
qed

lemma tends_DeleteBucket:
  assumes wf: "handlers_wf h" and sh: "shares h hm"
  shows "tends h (m_DeleteBucket hm q)"
  unfolding m_DeleteBucket_def Let_def
  by (intro tends_delete_rows [OF wf sh] tend_rules tends_reads [OF wf] tends_record_deletions [OF wf sh] tends_recordActivity [OF wf sh])

lemma objectops_EmptyBucket_tended:
  assumes wf: "handlers_wf h" and sh: "shares h hm" and run: "objectops_EmptyBucket hm b w = Some (r, w')"
  shows "tended h w w'"
proof -
  from run obtain x s1 where l: "ListAllObjects (m_dbenv hm) b (w_db w) = Some (x, s1)"
    by (auto simp: objectops_EmptyBucket_def split: option.splits)
  note rows = ListAllObjects_rows [OF l]
  have 1: "tended h w (w\<lparr>w_db := s1\<rparr>)" using rows by (intro tended_statement [OF wf]) simp
  show ?thesis
  proof (cases x)
    case (Inl e)
    with run l 1 show ?thesis by (simp add: objectops_EmptyBucket_def)
  next
    case (Inr objs)
    obtain y s2 where y: "DeleteAllInBucket (m_dbenv hm) b s1 = (y, s2)" by fastforce
    have t: "tabs s2 = tabs s1 \<or> tabs s2 = (tabs s1)\<lparr>objects := filter (\<lambda>x. o_BucketName x \<noteq> b) (objects (tabs s1))\<rparr>"
      using y by (auto simp: DeleteAllInBucket_def dest!: sql_tables)
    show ?thesis
    proof (cases y)
      case (Inl e)
      with y have "tabs s2 = tabs s1" by (auto simp: DeleteAllInBucket_def sql_def split: if_splits prod.splits sum.splits)
      then have "tended h (w\<lparr>w_db := s1\<rparr>) (w\<lparr>w_db := s1\<rparr>\<lparr>w_db := s2\<rparr>)" by (intro tended_statement [OF wf]) simp
      with run l Inr y Inl 1 show ?thesis by (auto simp: objectops_EmptyBucket_def intro: tended_trans)
    next
      case yes: (Inr u)
      obtain e d where d: "delete_until (h_os h) (h_Storage h) objs (w_disk w) = (e, d)" by fastforce
      have w': "w' = w\<lparr>w_db := s2, w_disk := d\<rparr>"
        using run l Inr y yes d sh by (auto simp: objectops_EmptyBucket_def shares_def split: option.splits)
      have t2: "tabs s2 = (tabs s1)\<lparr>objects := filter (\<lambda>x. o_BucketName x \<noteq> b) (objects (tabs s1))\<rparr>"
        using y yes by (auto simp: DeleteAllInBucket_def dest!: sql_done)
      have sub: "set objs \<subseteq> {x \<in> set (objects (tabs (w_db w))). o_BucketName x = b}" using rows Inr by blast
      show ?thesis
        unfolding w'
      proof (rule tended_rows_then_files [OF wf, where objs = objs])
        show "consistent h (set_disk d st)"
          if "consistent h st" "sdisk st = w_disk w" "\<forall>x\<in>set objs. doomed st (o_StoragePath x)" for st
          using delete_until_doomed [OF wf that(1,3)] d that(2) by simp
        show "obj_key z \<noteq> obj_key x" if "x \<in> set objs" "z \<in> set (objects (tabs s2))" for x z
          using sub t2 that by (intro bucket_rows_apart [of x b]) auto
      qed (use rows sub t2 delete_until_uuid [OF d] in auto)
    qed
  qed
qed

lemma EmptyBucket_tended:
  assumes wf: "handlers_wf h" and sh: "shares h hm" and run: "EmptyBucket hm q w = Some (r, w')"
  shows "tended h w w'"
proof -
  let ?b = "chiBucketParam (mq q)"
  obtain x w1 where x: "ensureBucket hm ?b w = (x, w1)" by fastforce
  note 1 = tendsD [OF tends_reads(6) [OF wf] x]
  show ?thesis
  proof (cases x)
    case (Inl e)
    with run x 1 show ?thesis by (simp add: EmptyBucket_def)
  next
    case (Inr bk)
    with run x obtain y w2 where y: "objectops_EmptyBucket hm ?b w1 = Some (y, w2)" by (auto simp: EmptyBucket_def Let_def split: option.splits)
    note 2 = objectops_EmptyBucket_tended [OF wf sh y]
    show ?thesis
    proof (cases y)
      case (Inl e)
      with run x Inr y 1 2 show ?thesis by (auto simp: EmptyBucket_def intro: tended_trans)
    next
      case yes: (Inr objs)
      have "tends h (andThen (record_deletions hm q ?b objs) (\<lambda>u.
          andThen (m_recordActivity hm q ActivityEmptyBucket ?b [] (int (length objs)) []) (\<lambda>u. ret noContent)))"
        by (intro tend_rules tends_record_deletions [OF wf sh] tends_recordActivity [OF wf sh])
      from tendsD [OF this, of w2 r w'] run x Inr y yes 1 2 show ?thesis
        by (auto simp: EmptyBucket_def Let_def intro: tended_trans)
    qed
  qed
qed

section \<open>The server\<close>

definition tidy :: "ObjectHandlers \<Rightarrow> Handlers \<Rightarrow> mrequest \<Rightarrow> m_handler \<Rightarrow> bool" where
  "tidy h hm q f \<longleftrightarrow> (\<forall>w r w'. f hm q w = Some (r, w') \<longrightarrow> tended h w w')"

lemma tidy_returning: "tends h (g hm q) \<Longrightarrow> tidy h hm q (returning g)"
  by (auto simp: tidy_def returning_def dest: tendsD)

lemma management_routes_tidy:
  assumes wf: "handlers_wf h" and sh: "shares h hm"
  shows "list_all (tidy h hm q) (map (\<lambda>(adminOnly, meth, pat, f). f) management_routes)"
proof -
  have e: "tidy h hm q EmptyBucket" using EmptyBucket_tended [OF wf sh] by (simp add: tidy_def)
  show ?thesis
    unfolding management_routes_def RegisterGrantRoutes_def RegisterAdminRoutes_def
    by (simp only: list.map append.simps prod.case list.pred_inject list_all_append map_append simp_thms)
      (intro conjI e tidy_returning tends_reads [OF wf] tends_listings [OF wf] tends_keys [OF wf sh] tends_grants [OF wf sh]
        tends_DeleteBucket [OF wf sh])
qed

lemma management_route_tended:
  assumes "handlers_wf h" and "shares h hm" and "(adminOnly, meth, pat, f) \<in> set management_routes" and "f hm q w = Some (r, w')"
  shows "tended h w w'"
  using management_routes_tidy [OF assms(1,2), of q] assms(3,4) by (fastforce simp: list_all_iff tidy_def)

lemma setup_route_tended:
  assumes wf: "handlers_wf h" and sh: "shares h hm" and route: "(meth, pat, f) \<in> set setup_RegisterRoutes"
    and run: "f hm q w = Some (r, w')"
  shows "tended h w w'"
proof -
  have "f = returning Status \<or> f = returning BootstrapFirstAdmin"
    using route unfolding setup_RegisterRoutes_def
    by (simp only: list.set insert_iff empty_iff prod.inject) (elim disjE conjE FalseE; blast)
  then show ?thesis
    using run tendsD [OF tends_listings(7) [OF wf]] tendsD [OF tends_keys(6) [OF wf sh]] by (auto simp: returning_def)
qed

lemma serve_management_tended:
  assumes wf: "handlers_wf h" and sh: "shares h hm" and route: "(adminOnly, meth, pat, f) \<in> set management_routes"
    and run: "serve_management (Chain_Authenticate (newAuthChain devMode s)) adminOnly f hm q w = Some (resp, w')"
  shows "tended h w w'"
proof -
  obtain res w1 where gate: "management_gate (Chain_Authenticate (newAuthChain devMode s)) adminOnly (mq q) w = (res, w1)" by fastforce
  from management_gate_result [OF this] obtain x st where "Chain_Authenticate (newAuthChain devMode s) (mq q) (w_db w) = (x, st)"
    and w1: "w1 = w\<lparr>w_db := st\<rparr>" by blast
  with chain_keeps have "tabs st = tabs (w_db w)" by blast
  then have 1: "tended h w w1" unfolding w1 by (intro tended_statement [OF wf]) simp
  show ?thesis
  proof (cases res)
    case (Inl e)
    with run gate 1 show ?thesis by (simp add: serve_management_def)
  next
    case (Inr r')
    with run gate obtain y where "f hm (q\<lparr>mq := r'\<rparr>) w1 = Some (y, w')"
      by (auto simp: serve_management_def split: option.splits sum.splits)
    from tended_trans [OF 1 management_route_tended [OF wf sh route this]] show ?thesis .
  qed
qed

text \<open>
  A run of the server that \<open>newApp\<close> built: S3 requests, the stale-upload worker, management and setup requests, in
  any order.  A management request may draw an identifier for each record of a bulk deletion; the ones it drew have to be among the
  distinct ones.
\<close>

inductive server :: "codecs \<Rightarrow> app \<Rightarrow> world \<Rightarrow> world \<Rightarrow> bool" for C a where
  idle: "server C a w w"
| s3: "server C a w w1 \<Longrightarrow> routed C (a_objects a) r p m \<Longrightarrow> enough_ids (a_objects a) w1 \<Longrightarrow> m w1 = (res, w2) \<Longrightarrow> server C a w w2"
| stale: "server C a w w1 \<Longrightarrow> enough_ids (a_objects a) w1 \<Longrightarrow> removeStaleUploads (a_objects a) ttl w1 = (res, w2) \<Longrightarrow> server C a w w2"
| management: "server C a w w1 \<Longrightarrow> (adminOnly, meth, pat, f) \<in> set management_routes \<Longrightarrow>
    serve_management (Chain_Authenticate (a_authChain a)) adminOnly f (a_management a) q w1 = Some (resp, w2) \<Longrightarrow>
    next_uuid (w_disk w2) \<le> uuid_count (h_os (a_objects a)) \<Longrightarrow> server C a w w2"
| first_run: "server C a w w1 \<Longrightarrow> (meth, pat, f) \<in> set setup_RegisterRoutes \<Longrightarrow> f (a_management a) q w1 = Some (out, w2) \<Longrightarrow>
    next_uuid (w_disk w2) \<le> uuid_count (h_os (a_objects a)) \<Longrightarrow> server C a w w2"

lemma in_step_safe:
  assumes "handlers_wf h" and "safe h m" and "in_step h w" and "enough_ids h w" and "m w = (res, w')"
  shows "in_step h w'"
  using assms by (auto simp: in_step_def enough_ids_def elim: safe_run)

lemma server_in_step:
  assumes app: "newApp E cfg store = Inr a" and wf: "handlers_wf (a_objects a)" and w0: "fresh_world (a_objects a) w0"
    and run: "server C a w0 w"
  shows "in_step (a_objects a) w"
  using run w0
proof (induction rule: server.induct)
  case (idle w)
  with serve_consistent [OF wf _ serve.idle] show ?case by (auto simp: in_step_def)
next
  case (s3 w w1 r p m res w2)
  have "safe (a_objects a) m" using safe_routes [OF wf] s3.hyps(2) unfolding routed_def by blast
  then show ?case using s3 by (blast intro: in_step_safe [OF wf])
next
  case (stale w w1 ttl res w2)
  have "safe (a_objects a) (removeStaleUploads (a_objects a) ttl)" by (rule safeI [OF triple_removeStaleUploads [OF wf]]) (rule le_refl)
  then show ?case using stale by (blast intro: in_step_safe [OF wf])
next
  case (management w w1 adminOnly meth pat f q resp w2)
  obtain s where "a_authChain a = newAuthChain (DevMode cfg) s" using app by (auto simp: newApp_def Let_def split: sum.splits)
  with management serve_management_tended [OF wf newApp_shares [OF app]] show ?case by (auto simp: tended_def)
next
  case (first_run w w1 meth pat f q out w2)
  with setup_route_tended [OF wf newApp_shares [OF app]] show ?case by (auto simp: tended_def)
qed

text \<open>
  C1: the whole server keeps its promise.  Starting with an empty store, after any sequence of S3 requests,
  stale-upload clean-ups, management requests (bucket deletion and emptying included, under any credentials) and
  setup requests, whatever failed while they ran, every object row and every part row has its file on disk, of the recorded size.
\<close>

theorem server_keeps_files:
  assumes "newApp E cfg store = Inr a" and "engine_wf store" and "uuid_wf (e_os E)" and "fresh_world (a_objects a) w0"
    and "server C a w0 w"
  shows "(\<forall>x\<in>set (objects (tabs (w_db w))). \<exists>c. blob (e_os E) store (w_disk w) (o_StoragePath x) = Some c
            \<and> o_Size x = int (length c))
    \<and> (\<forall>q\<in>set (parts (tabs (w_db w))). \<exists>c. blob (e_os E) store (w_disk w) (mp_StoragePath q) = Some c
            \<and> mp_Size q = int (length c))"
proof -
  have h: "h_os (a_objects a) = e_os E" "h_Storage (a_objects a) = store"
    using newApp_objects [OF assms(1)] by simp_all
  have "handlers_wf (a_objects a)" using assms(2,3) by (simp add: handlers_wf_def h)
  from server_in_step [OF assms(1) this assms(4,5)] obtain st where st: "store_ok (e_os E) store st" "sw st = w"
    by (auto simp: in_step_def consistent_def h)
  show ?thesis unfolding st(2) [symmetric]
    by (intro conjI ballI; (rule row_file [OF st(1)] part_file [OF st(1)]), assumption) blast+
qed

text \<open>A server in development mode: an administrator deletes the key of \<open>r\<close>, then an object is stored.\<close>

definition sample_surroundings :: surroundings where
  "sample_surroundings = \<lparr>e_os = wide_env, e_dbenv = sample_denv, e_hashes = h_hashes sample_server, e_json = (\<lambda>b. JEOF),
     e_media_type_ok = (\<lambda>s. True), e_entropy = sample_draw, e_codes = (\<lambda>i n. None), e_Now = (\<lambda>n. 0),
     e_parseRFC1123 = (\<lambda>s. None), e_parsers = \<lparr>ParseDuration = (\<lambda>s. None), ParseRequestURI = (\<lambda>s. True)\<rparr>,
     e_environ = (\<lambda>s. None), e_argv = []\<rparr>"

definition sample_app :: app where
  "sample_app = (case newApp sample_surroundings (Default\<lparr>DevMode := True\<rparr>) sample_engine of Inr a \<Rightarrow> a | Inl e \<Rightarrow>
     \<lparr>a_objects = sample_server, a_management = sample_management, a_authChain = []\<rparr>)"

definition after_delete :: world where
  "after_delete = \<lparr>w_disk = sample_disk, w_db = \<lparr>tabs = sample_tables\<lparr>users := [sample_user ''a'' RoleAdmin, sample_user ''m'' RoleMember],
     objects := [], uploads := [], parts := [], grants := []\<rparr>, db_tick = 1\<rparr>\<rparr>"

lemma sample_app_ok: "newApp sample_surroundings (Default\<lparr>DevMode := True\<rparr>) sample_engine = Inr sample_app"
proof -
  have "is_ok (newApp sample_surroundings (Default\<lparr>DevMode := True\<rparr>) sample_engine)" by code_simp
  then show ?thesis by (auto simp: is_ok_iff sample_app_def)
qed

lemma sample_app_objects: "h_os (a_objects sample_app) = wide_env" "h_Storage (a_objects sample_app) = sample_engine"
  using newApp_objects [OF sample_app_ok] by (simp_all add: sample_surroundings_def)

lemma sample_app_server: "a_objects sample_app = sample_server\<lparr>h_MinPartSize := 0, h_S3CacheControl := S3CacheControl Default\<rparr>"
proof -
  have "TrimSpace (PublicReadSigningSecret (Default\<lparr>DevMode := True\<rparr>)) = []" by code_simp
  then show ?thesis
    using sample_app_ok [symmetric, THEN arg_cong, of "\<lambda>r. a_objects (projr r)"]
    by (simp add: newApp_def sample_surroundings_def sample_server_def)
qed

lemma sample_app_wf: "handlers_wf (a_objects sample_app)"
  using sample_server_wf by (simp add: handlers_wf_def sample_app_objects sample_server_def)

lemma after_delete_run: "server sample_codecs sample_app empty_world after_delete"
proof -
  let ?run = "serve_management (Chain_Authenticate (a_authChain sample_app)) True (returning DeleteKey) (a_management sample_app)
     (token_mrequest [] ''r'') empty_world"
  have "map_option snd ?run = Some after_delete" by code_simp
  then obtain resp where run: "?run = Some (resp, after_delete)" by auto
  have route: "(True, ''DELETE'', ''/keys/{id}'', returning DeleteKey) \<in> set management_routes"
    by (simp add: management_routes_def RegisterAdminRoutes_def)
  have "next_uuid (w_disk after_delete) = 0" by code_simp
  then show ?thesis by (intro server.management [OF server.idle route run]) simp
qed

theorem server_keeps_files_witness:
  "\<exists>w. server sample_codecs sample_app empty_world w \<and> objects (tabs (w_db w)) \<noteq> []
     \<and> (\<forall>x\<in>set (objects (tabs (w_db w))). \<exists>c. blob wide_env sample_engine (w_disk w) (o_StoragePath x) = Some c \<and> o_Size x = int (length c))"
proof -
  let ?h = "a_objects sample_app" and ?put = "PutObject (a_objects sample_app) put_abc after_delete"
  have "isl (fst (PutObject (sample_server\<lparr>h_MinPartSize := 0, h_S3CacheControl := S3CacheControl Default\<rparr>) put_abc after_delete)) = False"
    by code_simp
  then have "isl (fst ?put) = False" by (simp only: sample_app_server)
  then obtain resp w where w: "?put = (Inr resp, w)" by (cases ?put; cases "fst ?put") auto
  have "next_uuid (w_disk after_delete) = 0" by code_simp
  then have ids: "enough_ids ?h after_delete" by (simp add: enough_ids_def sample_app_objects wide_env_def request_ids_def maxDeleteObjects_def)
  have routed: "routed sample_codecs ?h put_abc ObjectPattern (PutObject ?h put_abc)"
    by (simp add: routed_def RegisterObjectRoutes_def DispatchObjectPut_def object_request_def has_def values_Has_def header_Get_def values_Get_def)
  have run: "server sample_codecs sample_app empty_world w" by (rule server.s3 [OF after_delete_run routed ids w])
  have fresh: "fresh_world ?h empty_world" using empty_world_fresh by (simp add: fresh_world_def sample_app_objects sample_server_def)
  obtain st where st: "consistent ?h st" "sw st = after_delete"
    using server_in_step [OF sample_app_ok sample_app_wf fresh after_delete_run] by (auto simp: in_step_def)
  have "holds_bytes ?h ''b'' ''k'' (reader_bytes (r_Body put_abc)) w"
    by (rule PutObject_bytes [OF sample_app_wf st(1) _ _ w [folded st(2)]]) (use st ids sample_routes in simp_all)
  then have "objects (tabs (w_db w)) \<noteq> []" by (auto simp: holds_bytes_def find_object_def)
  moreover have "engine_wf sample_engine" "uuid_wf (e_os sample_surroundings)" "e_os sample_surroundings = wide_env"
    using sample_app_wf by (simp_all add: handlers_wf_def sample_app_objects sample_surroundings_def)
  ultimately show ?thesis
    using server_keeps_files [OF sample_app_ok _ _ fresh run] run by auto
qed

end
