(* ===== verification/UploadLock.thy ===== *)
theory UploadLock
  imports Prelude
begin

text \<open>
  The per-upload mutex of the multipart handlers (\<open>acquireUploadLock\<close> in \<open>internal/s3/object_handlers.go\<close>): a map from
  upload identifiers to reference-counted locks, shared by the goroutines of all requests.  The map and the counters
  are only touched while \<open>uploadLocksMu\<close> is held, so each of the two sections under it is one step; taking and releasing
  the lock of an upload are steps of their own, and steps of different goroutines interleave freely.  Locks live at
  addresses, since the code compares pointers when it removes an entry.
\<close>

section \<open>State and operations\<close>

record uploadLock =
  lk_mu :: bool
  lk_refs :: int

text \<open>Where a goroutine is: outside, after registering, holding the lock, or after unlocking and before the clean-up.\<close>

datatype goroutine = Idle | Waiting string nat | Holding string nat | Releasing string nat

record lock_state =
  uploadLocks :: "string \<Rightarrow> nat option"
  lock_at :: "nat \<Rightarrow> uploadLock"
  next_lock :: nat
  go :: "nat \<Rightarrow> goroutine"

definition initial_locks :: lock_state where
  "initial_locks =
     \<lparr>uploadLocks = (\<lambda>i. None), lock_at = (\<lambda>a. \<lparr>lk_mu = False, lk_refs = 0\<rparr>), next_lock = 0, go = (\<lambda>t. Idle)\<rparr>"

text \<open>The first section under \<open>uploadLocksMu\<close>: find or create the lock and count the reference.\<close>

definition lookup_lock :: "string \<Rightarrow> lock_state \<Rightarrow> nat \<times> lock_state" where
  "lookup_lock uploadID s =
     (case uploadLocks s uploadID of
        Some a \<Rightarrow> (a, s)
      | None \<Rightarrow>
          (next_lock s,
           s\<lparr>uploadLocks := (uploadLocks s)(uploadID \<mapsto> next_lock s),
             lock_at := (lock_at s)(next_lock s := \<lparr>lk_mu = False, lk_refs = 0\<rparr>),
             next_lock := Suc (next_lock s)\<rparr>))"

definition add_refs :: "nat \<Rightarrow> int \<Rightarrow> lock_state \<Rightarrow> lock_state" where
  "add_refs a n s = s\<lparr>lock_at := (lock_at s)(a := (lock_at s a)\<lparr>lk_refs := lk_refs (lock_at s a) + n\<rparr>)\<rparr>"

definition set_mu :: "nat \<Rightarrow> bool \<Rightarrow> lock_state \<Rightarrow> lock_state" where
  "set_mu a b s = s\<lparr>lock_at := (lock_at s)(a := (lock_at s a)\<lparr>lk_mu := b\<rparr>)\<rparr>"

definition goto :: "nat \<Rightarrow> goroutine \<Rightarrow> lock_state \<Rightarrow> lock_state" where
  "goto t g s = s\<lparr>go := (go s)(t := g)\<rparr>"

definition acquireUploadLock_register :: "nat \<Rightarrow> string \<Rightarrow> lock_state \<Rightarrow> lock_state" where
  "acquireUploadLock_register t uploadID s =
     (case lookup_lock uploadID s of (a, s1) \<Rightarrow> goto t (Waiting uploadID a) (add_refs a 1 s1))"

text \<open>The second section: drop the reference and remove the entry when nobody is left and it is still this lock.\<close>

definition acquireUploadLock_cleanup :: "nat \<Rightarrow> string \<Rightarrow> nat \<Rightarrow> lock_state \<Rightarrow> lock_state" where
  "acquireUploadLock_cleanup t uploadID a s =
     (let s1 = add_refs a (- 1) s in
      goto t Idle
        (if lk_refs (lock_at s1 a) = 0 \<and> uploadLocks s1 uploadID = Some a
         then s1\<lparr>uploadLocks := (uploadLocks s1)(uploadID := None)\<rparr> else s1))"

inductive lock_step :: "lock_state \<Rightarrow> lock_state \<Rightarrow> bool" where
  register: "go s t = Idle \<Longrightarrow> lock_step s (acquireUploadLock_register t uploadID s)"
| lock: "go s t = Waiting uploadID a \<Longrightarrow> \<not> lk_mu (lock_at s a) \<Longrightarrow>
    lock_step s (goto t (Holding uploadID a) (set_mu a True s))"
| unlock: "go s t = Holding uploadID a \<Longrightarrow> lock_step s (goto t (Releasing uploadID a) (set_mu a False s))"
| cleanup: "go s t = Releasing uploadID a \<Longrightarrow> lock_step s (acquireUploadLock_cleanup t uploadID a s)"

inductive_cases lock_stepE: "lock_step s s'"

inductive locks_reachable :: "lock_state \<Rightarrow> bool" where
  start: "locks_reachable initial_locks"
| step: "locks_reachable s \<Longrightarrow> lock_step s s' \<Longrightarrow> locks_reachable s'"

section \<open>The invariant\<close>

fun engaged :: "goroutine \<Rightarrow> (string \<times> nat) option" where
  "engaged Idle = None"
| "engaged (Waiting i a) = Some (i, a)"
| "engaged (Holding i a) = Some (i, a)"
| "engaged (Releasing i a) = Some (i, a)"

fun holds :: "nat \<Rightarrow> goroutine \<Rightarrow> bool" where
  "holds a (Holding i b) = (a = b)"
| "holds a g = False"

definition users_of :: "lock_state \<Rightarrow> nat \<Rightarrow> nat set" where
  "users_of s a = {t. \<exists>i. engaged (go s t) = Some (i, a)}"

text \<open>
  An engaged goroutine uses the lock the map has for its upload; the map is injective and its locks are in use; the counter
  of such a lock is the number of its goroutines; a locked mutex has exactly one holder.
\<close>

definition locks_inv :: "lock_state \<Rightarrow> bool" where
  "locks_inv s \<longleftrightarrow>
     (\<forall>t i a. engaged (go s t) = Some (i, a) \<longrightarrow> uploadLocks s i = Some a)
     \<and> (\<forall>i j a. uploadLocks s i = Some a \<longrightarrow> uploadLocks s j = Some a \<longrightarrow> i = j)
     \<and> (\<forall>i a. uploadLocks s i = Some a \<longrightarrow>
          a < next_lock s \<and> finite (users_of s a) \<and> users_of s a \<noteq> {} \<and> lk_refs (lock_at s a) = int (card (users_of s a)))
     \<and> (\<forall>t a. holds a (go s t) \<longrightarrow> lk_mu (lock_at s a))
     \<and> (\<forall>t t' a. holds a (go s t) \<longrightarrow> holds a (go s t') \<longrightarrow> t = t')
     \<and> (\<forall>i a. uploadLocks s i = Some a \<longrightarrow> lk_mu (lock_at s a) \<longrightarrow> (\<exists>t. holds a (go s t)))"

lemma holds_engaged: "holds a g \<Longrightarrow> \<exists>i. engaged g = Some (i, a)"
  by (cases g) auto

lemma goto_sel [simp]:
  "go (goto t g s) = (go s)(t := g)" "uploadLocks (goto t g s) = uploadLocks s" "lock_at (goto t g s) = lock_at s"
  "next_lock (goto t g s) = next_lock s"
  by (simp_all add: goto_def)

lemma set_mu_sel [simp]:
  "go (set_mu a b s) = go s" "uploadLocks (set_mu a b s) = uploadLocks s" "next_lock (set_mu a b s) = next_lock s"
  "lk_refs (lock_at (set_mu a b s) c) = lk_refs (lock_at s c)"
  "lk_mu (lock_at (set_mu a b s) c) = (if c = a then b else lk_mu (lock_at s c))"
  by (simp_all add: set_mu_def)

lemma add_refs_sel [simp]:
  "go (add_refs a n s) = go s" "uploadLocks (add_refs a n s) = uploadLocks s" "next_lock (add_refs a n s) = next_lock s"
  "lk_refs (lock_at (add_refs a n s) c) = lk_refs (lock_at s c) + (if c = a then n else 0)"
  "lk_mu (lock_at (add_refs a n s) c) = lk_mu (lock_at s c)"
  by (simp_all add: add_refs_def)

lemma users_of_goto:
  "users_of (goto t g s) a = (if \<exists>i. engaged g = Some (i, a) then insert t (users_of s a) else users_of s a - {t})"
  by (auto simp: users_of_def goto_def)

lemma users_of_keep [simp]:
  "users_of (set_mu a b s) = users_of s" "users_of (add_refs a n s) = users_of s"
  "users_of (s\<lparr>uploadLocks := m\<rparr>) = users_of s"
  "users_of (s\<lparr>uploadLocks := m, lock_at := l, next_lock := k\<rparr>) = users_of s"
  by (simp_all add: users_of_def set_mu_def add_refs_def fun_eq_iff)

section \<open>Preservation\<close>

lemma locks_invD:
  assumes "locks_inv s"
  shows "engaged (go s t) = Some (i, a) \<Longrightarrow> uploadLocks s i = Some a"
    and "uploadLocks s i = Some a \<Longrightarrow> uploadLocks s j = Some a \<Longrightarrow> i = j"
    and "uploadLocks s i = Some a \<Longrightarrow> a < next_lock s"
    and "uploadLocks s i = Some a \<Longrightarrow> finite (users_of s a)"
    and "uploadLocks s i = Some a \<Longrightarrow> users_of s a \<noteq> {}"
    and "uploadLocks s i = Some a \<Longrightarrow> lk_refs (lock_at s a) = int (card (users_of s a))"
    and "holds a (go s t) \<Longrightarrow> lk_mu (lock_at s a)"
    and "holds a (go s t) \<Longrightarrow> holds a (go s t') \<Longrightarrow> t = t'"
    and "uploadLocks s i = Some a \<Longrightarrow> lk_mu (lock_at s a) \<Longrightarrow> \<exists>t. holds a (go s t)"
  using assms unfolding locks_inv_def by blast+

lemma locks_invI:
  assumes "\<And>t i a. engaged (go s t) = Some (i, a) \<Longrightarrow> uploadLocks s i = Some a"
    and "\<And>i j a. uploadLocks s i = Some a \<Longrightarrow> uploadLocks s j = Some a \<Longrightarrow> i = j"
    and "\<And>i a. uploadLocks s i = Some a \<Longrightarrow> a < next_lock s \<and> finite (users_of s a) \<and> users_of s a \<noteq> {}
           \<and> lk_refs (lock_at s a) = int (card (users_of s a))"
    and "\<And>t a. holds a (go s t) \<Longrightarrow> lk_mu (lock_at s a)"
    and "\<And>t t' a. holds a (go s t) \<Longrightarrow> holds a (go s t') \<Longrightarrow> t = t'"
    and "\<And>i a. uploadLocks s i = Some a \<Longrightarrow> lk_mu (lock_at s a) \<Longrightarrow> \<exists>t. holds a (go s t)"
  shows "locks_inv s"
  unfolding locks_inv_def using assms by blast

lemma holder_kept: "\<exists>u. holds c (go s u) \<Longrightarrow> \<not> holds c (go s t) \<Longrightarrow> \<exists>u. holds c (((go s)(t := g)) u)"
  by (metis fun_upd_other)

text \<open>Steps that leave the map and the counters alone.\<close>

lemma locks_inv_lock:
  assumes I: "locks_inv s" and g: "go s t = Waiting i a" and free: "\<not> lk_mu (lock_at s a)"
  shows "locks_inv (goto t (Holding i a) (set_mu a True s))"
proof -
  have nobody: "\<not> holds a (go s u)" for u using locks_invD(7) [OF I] free by blast
  have e: "engaged (go s t) = Some (i, a)" "\<And>c. \<not> holds c (go s t)" using g by simp_all
  have up: "uploadLocks s i = Some a" by (rule locks_invD(1) [OF I e(1)])
  have users: "users_of (goto t (Holding i a) (set_mu a True s)) = users_of s"
    using e by (auto simp: users_of_goto fun_eq_iff) (auto simp: users_of_def)
  show ?thesis
  proof (rule locks_invI, goal_cases)
    case (6 j c)
    then show ?case
      using locks_invD(9) [OF I, of j c] holder_kept [of c s t "Holding i a"] e by (cases "c = a") auto
  qed (use locks_invD [OF I] up nobody in \<open>auto simp: users split: if_splits\<close>)
qed

lemma locks_inv_unlock:
  assumes I: "locks_inv s" and g: "go s t = Holding i a"
  shows "locks_inv (goto t (Releasing i a) (set_mu a False s))"
proof -
  have e: "engaged (go s t) = Some (i, a)" and h: "holds c (go s t) \<longleftrightarrow> c = a" for c using g by simp_all
  have up: "uploadLocks s i = Some a" by (rule locks_invD(1) [OF I e])
  have users: "users_of (goto t (Releasing i a) (set_mu a False s)) = users_of s"
    using e by (auto simp: users_of_goto fun_eq_iff) (auto simp: users_of_def)
  show ?thesis
  proof (rule locks_invI, goal_cases)
    case (6 j c)
    then show ?case
      using locks_invD(9) [OF I, of j c] holder_kept [of c s t "Releasing i a"] h by (auto split: if_splits)
  qed (use locks_invD [OF I] up h in \<open>auto simp: users split: if_splits\<close>)
qed

text \<open>Registering: a known lock gains a goroutine, or a new lock at a fresh address has its first.\<close>

lemma locks_inv_register_known:
  assumes I: "locks_inv s" and g: "go s t = Idle" and up: "uploadLocks s i = Some a"
  shows "locks_inv (goto t (Waiting i a) (add_refs a 1 s))"
proof -
  have t: "t \<notin> users_of s c" "\<not> holds c (go s t)" for c using g by (auto simp: users_of_def)
  have users: "users_of (goto t (Waiting i a) (add_refs a 1 s)) c = (if c = a then insert t (users_of s a) else users_of s c)" for c
    using t by (auto simp: users_of_goto)
  show ?thesis
  proof (rule locks_invI, goal_cases)
    case (3 j c)
    then show ?case using locks_invD(3-6) [OF I, of j c] t by (auto simp: users)
  next
    case (6 j c)
    then show ?case using locks_invD(9) [OF I, of j c] holder_kept [of c s t "Waiting i a"] t by auto
  qed (use locks_invD [OF I] up t in \<open>auto split: if_splits\<close>)
qed

lemma locks_inv_fresh:
  assumes I: "locks_inv s" and g: "go s t = Idle" and new: "uploadLocks s i = None"
  shows "locks_inv (acquireUploadLock_register t i s)"
proof -
  let ?a = "next_lock s"
  have unused: "\<And>u j. engaged (go s u) \<noteq> Some (j, ?a)" "\<And>j. uploadLocks s j \<noteq> Some ?a"
    using locks_invD(1,3) [OF I] by fastforce+
  then have none: "\<not> holds ?a (go s u)" "users_of s ?a = {}" for u
    by (auto simp: users_of_def dest: holds_engaged)
  have t: "t \<notin> users_of s c" "\<not> holds c (go s t)" for c using g by (auto simp: users_of_def)
  define s' where "s' = acquireUploadLock_register t i s"
  have sel: "uploadLocks s' = (uploadLocks s)(i \<mapsto> ?a)" "next_lock s' = Suc ?a" "go s' = (go s)(t := Waiting i ?a)"
    "lk_refs (lock_at s' c) = (if c = ?a then 1 else lk_refs (lock_at s c))"
    "lk_mu (lock_at s' c) = (c \<noteq> ?a \<and> lk_mu (lock_at s c))"
    "users_of s' c = (if c = ?a then {t} else users_of s c)" for c
    using new t none by (auto simp: s'_def acquireUploadLock_register_def lookup_lock_def users_of_goto)
  have "locks_inv s'"
  proof (rule locks_invI, goal_cases)
    case (3 j c)
    then show ?case using locks_invD(3-6) [OF I, of j c] unused by (auto simp: sel split: if_splits)
  next
    case (6 j c)
    then show ?case
      using locks_invD(9) [OF I, of j c] holder_kept [of c s t "Waiting i ?a"] t by (auto simp: sel split: if_splits)
  qed (use locks_invD(1,2,7,8) [OF I] unused none t new in \<open>auto simp: sel split: if_splits\<close>)
  then show ?thesis by (simp add: s'_def)
qed

lemma locks_inv_register:
  assumes "locks_inv s" and "go s t = Idle"
  shows "locks_inv (acquireUploadLock_register t i s)"
proof (cases "uploadLocks s i")
  case None
  with assms show ?thesis by (rule locks_inv_fresh)
next
  case (Some a)
  with locks_inv_register_known [OF assms Some] show ?thesis
    by (simp add: acquireUploadLock_register_def lookup_lock_def)
qed

lemma locks_inv_cleanup:
  assumes I: "locks_inv s" and g: "go s t = Releasing i a"
  shows "locks_inv (acquireUploadLock_cleanup t i a s)"
proof -
  have e: "engaged (go s t) = Some (i, a)" and h: "\<not> holds c (go s t)" for c using g by simp_all
  have up: "uploadLocks s i = Some a" by (rule locks_invD(1) [OF I e])
  have t: "t \<in> users_of s a" "c \<noteq> a \<Longrightarrow> t \<notin> users_of s c" for c using g by (auto simp: users_of_def)
  have n: "finite (users_of s a)" "lk_refs (lock_at s a) = int (card (users_of s a))" using locks_invD(4,6) [OF I up] .
  have card: "card (users_of s a - {t}) = card (users_of s a) - 1" "0 < card (users_of s a)"
    using n t by (auto simp: card_gt_0_iff)
  define s' where "s' = acquireUploadLock_cleanup t i a s"
  define last where "last \<longleftrightarrow> users_of s a = {t}"
  have zero: "lk_refs (lock_at s a) - 1 = 0 \<longleftrightarrow> last"
    using n card t by (auto simp: last_def card_1_singleton_iff)
  have sel: "uploadLocks s' = (if last then (uploadLocks s)(i := None) else uploadLocks s)" "next_lock s' = next_lock s"
    "go s' = (go s)(t := Idle)" "lk_refs (lock_at s' c) = lk_refs (lock_at s c) - (if c = a then 1 else 0)"
    "lk_mu (lock_at s' c) = lk_mu (lock_at s c)" "users_of s' c = (if c = a then users_of s a - {t} else users_of s c)" for c
    using zero up t by (auto simp: s'_def acquireUploadLock_cleanup_def users_of_goto)
  have only: "u = t" if "last" "engaged (go s u) = Some (j, a)" for u j
    using that by (auto simp: last_def users_of_def)
  have "locks_inv s'"
  proof (rule locks_invI, goal_cases)
    case (1 u j c)
    then show ?case using locks_invD(1,2) [OF I] only up by (fastforce simp: sel split: if_splits)
  next
    case (3 j c)
    then have j: "uploadLocks s j = Some c" "c = a \<Longrightarrow> \<not> last"
      using locks_invD(2) [OF I up] by (auto simp: sel split: if_splits)
    then show ?case using locks_invD(3-6) [OF I j(1)] card n t by (auto simp: sel last_def)
  next
    case (6 j c)
    then have "uploadLocks s j = Some c" by (auto simp: sel split: if_splits)
    with 6 show ?case using locks_invD(9) [OF I, of j c] holder_kept [of c s t Idle] h by (auto simp: sel)
  qed (use locks_invD(2,7,8) [OF I] h in \<open>auto simp: sel split: if_splits\<close>)
  then show ?thesis by (simp add: s'_def)
qed

lemma reachable_inv: "locks_reachable s \<Longrightarrow> locks_inv s"
proof (induction rule: locks_reachable.induct)
  case start
  then show ?case by (rule locks_invI) (auto simp: initial_locks_def)
next
  case (step s s')
  from step.hyps(2) step.IH show ?case
    by (cases rule: lock_stepE) (auto intro: locks_inv_register locks_inv_lock locks_inv_unlock locks_inv_cleanup)
qed

section \<open>Properties\<close>

text \<open>Some goroutine using the lock can always move.\<close>

lemma lock_progress:
  assumes I: "locks_inv s" and w: "engaged (go s t) = Some (i, a)"
  shows "\<exists>u s'. engaged (go s u) = Some (i, a) \<and> lock_step s s' \<and> go s' u \<noteq> go s u"
proof (cases "\<exists>u. holds a (go s u)")
  case True
  then obtain u j where u: "go s u = Holding j a" by (metis holds.elims(2))
  then have "uploadLocks s j = Some a" using locks_invD(1) [OF I, of u j a] by simp
  then have "j = i" using locks_invD(1) [OF I w] locks_invD(2) [OF I] by blast
  with u lock_step.unlock [OF u] show ?thesis by (metis engaged.simps(3) fun_upd_same goroutine.distinct(11) goto_sel(1))
next
  case False
  then have free: "\<not> lk_mu (lock_at s a)" using locks_invD(9) [OF I locks_invD(1) [OF I w]] by blast
  show ?thesis
  proof (cases "go s t")
    case (Waiting j b)
    with w free lock_step.lock [of s t j b] show ?thesis
      by (intro exI [of _ t] exI [of _ "goto t (Holding j b) (set_mu b True s)"]) auto
  next
    case (Releasing j b)
    with w lock_step.cleanup [of s t j b] show ?thesis
      by (intro exI [of _ t] exI [of _ "acquireUploadLock_cleanup t j b s"]) (auto simp: acquireUploadLock_cleanup_def Let_def)
  next
    case (Holding j b)
    with w False show ?thesis by (metis engaged.simps(3) holds.simps(1) option.inject prod.inject)
  qed (use w in simp)
qed

text \<open>
  C37: in every interleaving, two goroutines never hold the lock of the same upload at once,
  although entries of the map are removed and created anew; as long as a goroutine waits for or holds the lock of an
  upload, one that uses it can take a step; and the map holds an entry for an upload exactly as long as some goroutine
  uses it, so it never grows beyond the requests in flight.
\<close>

theorem upload_lock_exclusive:
  assumes "locks_reachable s"
  shows "(\<forall>t t' i a b. go s t = Holding i a \<longrightarrow> go s t' = Holding i b \<longrightarrow> t = t')
    \<and> (\<forall>t i a. engaged (go s t) = Some (i, a) \<longrightarrow>
         (\<exists>u s'. engaged (go s u) = Some (i, a) \<and> lock_step s s' \<and> go s' u \<noteq> go s u))
    \<and> (\<forall>i. uploadLocks s i \<noteq> None \<longleftrightarrow> (\<exists>t a. engaged (go s t) = Some (i, a)))"
proof (intro conjI allI impI)
  note I = reachable_inv [OF assms]
  show "t = t'" if "go s t = Holding i a" "go s t' = Holding i b" for t t' i a b
  proof -
    have "uploadLocks s i = Some a" "uploadLocks s i = Some b"
      using locks_invD(1) [OF I, of t i a] locks_invD(1) [OF I, of t' i b] that by simp_all
    with that locks_invD(8) [OF I, of a t t'] show ?thesis by simp
  qed
  show "\<exists>u s'. engaged (go s u) = Some (i, a) \<and> lock_step s s' \<and> go s' u \<noteq> go s u"
    if "engaged (go s t) = Some (i, a)" for t i a
    using lock_progress [OF I that] .
  show "uploadLocks s i \<noteq> None \<longleftrightarrow> (\<exists>t a. engaged (go s t) = Some (i, a))" for i
  proof
    assume "uploadLocks s i \<noteq> None"
    then obtain a where a: "uploadLocks s i = Some a" by auto
    then obtain t j where "engaged (go s t) = Some (j, a)" using locks_invD(5) [OF I a] by (auto simp: users_of_def)
    with a locks_invD(1,2) [OF I] show "\<exists>t a. engaged (go s t) = Some (i, a)" by metis
  qed (use locks_invD(1) [OF I] in auto)
qed

text \<open>Two requests for the same upload: the first holds the lock, the second waits.\<close>

definition two_requests :: lock_state where
  "two_requests =
     (let s1 = acquireUploadLock_register 0 ''u'' initial_locks;
          s2 = goto 0 (Holding ''u'' 0) (set_mu 0 True s1)
      in acquireUploadLock_register 1 ''u'' s2)"

lemma two_requests_reachable: "locks_reachable two_requests"
  unfolding two_requests_def Let_def
  by (intro locks_reachable.step [OF _ lock_step.register] locks_reachable.step [OF _ lock_step.lock] locks_reachable.start)
    (simp_all add: initial_locks_def acquireUploadLock_register_def lookup_lock_def)

lemma upload_lock_exclusive_witness:
  "go two_requests 0 = Holding ''u'' 0 \<and> go two_requests 1 = Waiting ''u'' 0
   \<and> (\<exists>u s'. engaged (go two_requests u) = Some (''u'', 0) \<and> lock_step two_requests s' \<and> go s' u \<noteq> go two_requests u)
   \<and> uploadLocks two_requests ''u'' \<noteq> None"
proof -
  have g: "go two_requests 0 = Holding ''u'' 0" "go two_requests 1 = Waiting ''u'' 0"
    by (simp_all add: two_requests_def Let_def initial_locks_def acquireUploadLock_register_def lookup_lock_def)
  then have "engaged (go two_requests 1) = Some (''u'', 0)" by simp
  with g upload_lock_exclusive [OF two_requests_reachable] show ?thesis by blast
qed

end
