(* ===== verification/WriteTimeout.thy ===== *)
theory WriteTimeout
  imports Prelude
begin

text \<open>
  The connection wrapper of \<open>internal/http/write_timeout.go\<close>: an object download may take longer than the write timeout
  of the server as long as bytes keep flowing.  The connection below it is a parameter: \<open>ne_write\<close> gives for each call
  how many bytes the \<open>i\<close>-th \<open>Write\<close> takes and its error, \<open>ne_send\<close> how many the \<open>i\<close>-th \<open>ReadFrom\<close> sends, how many more it
  has read from the file by then, and its error.  Both keep the contracts of \<open>io.Writer\<close> and \<open>io.ReaderFrom\<close>: a short
  write has an error, and a transfer without one went to the end of its source.
\<close>

section \<open>The connection below\<close>

datatype net_error = NetTimeout | NetBroken | NetShortWrite

record net_env =
  ne_write :: "nat \<Rightarrow> nat \<times> net_error option"
  ne_send :: "nat \<Rightarrow> nat \<times> nat \<times> net_error option"
  ne_deadline :: "nat \<Rightarrow> net_error option"
  ne_seek :: "nat \<Rightarrow> net_error option"

record writeTimeoutConn =
  cn_sent :: bytes
  cn_tick :: nat
  idleTimeout :: int

definition conn_tick :: "writeTimeoutConn \<Rightarrow> writeTimeoutConn" where
  "conn_tick c = c\<lparr>cn_tick := Suc (cn_tick c)\<rparr>"

definition conn_Write :: "net_env \<Rightarrow> bytes \<Rightarrow> writeTimeoutConn \<Rightarrow> nat \<times> net_error option \<times> writeTimeoutConn" where
  "conn_Write env body c =
     (case ne_write env (cn_tick c) of
        (m, err) \<Rightarrow>
          let n = min m (length body)
          in (n, if n < length body \<and> err = None then Some NetBroken else err,
              (conn_tick c)\<lparr>cn_sent := cn_sent c @ take n body\<rparr>))"

definition conn_SetWriteDeadline :: "net_env \<Rightarrow> writeTimeoutConn \<Rightarrow> net_error option \<times> writeTimeoutConn" where
  "conn_SetWriteDeadline env c = (ne_deadline env (cn_tick c), conn_tick c)"

text \<open>A source: the bytes of a file, the offset, and the bytes an \<open>io.LimitedReader\<close> around it still lets through.\<close>

record source =
  src_file :: bytes
  src_offset :: nat
  src_N :: "nat option"

definition available :: "source \<Rightarrow> bytes" where
  "available s =
     (let rest = drop (src_offset s) (src_file s) in case src_N s of None \<Rightarrow> rest | Some n \<Rightarrow> take n rest)"

definition advance :: "nat \<Rightarrow> source \<Rightarrow> source" where
  "advance n s = s\<lparr>src_offset := src_offset s + n, src_N := map_option (\<lambda>k. k - n) (src_N s)\<rparr>"

definition conn_ReadFrom ::
  "net_env \<Rightarrow> source \<Rightarrow> writeTimeoutConn \<Rightarrow> nat \<times> net_error option \<times> source \<times> writeTimeoutConn" where
  "conn_ReadFrom env s c =
     (case ne_send env (cn_tick c) of
        (m, ahead, err) \<Rightarrow>
          let len = length (available s);
              n = (if err = None then len else min m len);
              taken = (if err = None then len else min (m + ahead) len)
          in (n, err, advance taken s, (conn_tick c)\<lparr>cn_sent := cn_sent c @ take n (available s)\<rparr>))"

section \<open>\<open>write_timeout.go\<close>\<close>

definition madeWriteProgress :: "nat \<Rightarrow> net_error option \<Rightarrow> bool" where
  "madeWriteProgress n err \<longleftrightarrow> n > 0 \<and> err = Some NetTimeout"

text \<open>\<open>wrapped\<close> tells whether the request came over a connection of \<open>writeTimeoutListener\<close>.\<close>

definition EnableWriteIdleTimeout :: "net_env \<Rightarrow> int \<Rightarrow> nat \<Rightarrow> bool \<Rightarrow> writeTimeoutConn \<Rightarrow> net_error option \<times> writeTimeoutConn" where
  "EnableWriteIdleTimeout env timeout protoMajor wrapped c =
     (if \<not> wrapped \<or> timeout \<le> 0 \<or> protoMajor \<noteq> 1 then (None, c)
      else case conn_SetWriteDeadline env c of
        (Some err, c1) \<Rightarrow> (Some err, c1)
      | (None, c1) \<Rightarrow> (None, c1\<lparr>idleTimeout := timeout\<rparr>))"

text \<open>The method the server calls between responses, which ends the policy of a download.\<close>

definition SetWriteDeadline :: "net_env \<Rightarrow> writeTimeoutConn \<Rightarrow> net_error option \<times> writeTimeoutConn" where
  "SetWriteDeadline env c = conn_SetWriteDeadline env (c\<lparr>idleTimeout := 0\<rparr>)"

function write_loop :: "net_env \<Rightarrow> bytes \<Rightarrow> nat \<Rightarrow> writeTimeoutConn \<Rightarrow> nat \<times> net_error option \<times> writeTimeoutConn" where
  "write_loop env body transferred c =
     (if body = [] then (transferred, None, c)
      else case conn_SetWriteDeadline env c of
        (Some err, c1) \<Rightarrow> (transferred, Some err, c1)
      | (None, c1) \<Rightarrow>
          (case conn_Write env body c1 of
             (n, err, c2) \<Rightarrow>
               if err \<noteq> None \<and> \<not> madeWriteProgress n err then (transferred + n, err, c2)
               else if n = 0 then (transferred + n, Some NetShortWrite, c2)
               else write_loop env (drop n body) (transferred + n) c2))"
  by pat_completeness auto

termination
  by (relation "measure (\<lambda>(env, body, k, c). length body)") auto

declare write_loop.simps [simp del]

definition conn_write :: "net_env \<Rightarrow> bytes \<Rightarrow> writeTimeoutConn \<Rightarrow> nat \<times> net_error option \<times> writeTimeoutConn" where
  "conn_write env body c = (if idleTimeout c \<le> 0 then conn_Write env body c else write_loop env body 0 c)"

text \<open>\<open>io.Copy\<close> onto the wrapper, from the chunks a reader yields.\<close>

fun copy_chunks :: "net_env \<Rightarrow> bytes list \<Rightarrow> nat \<Rightarrow> writeTimeoutConn \<Rightarrow> nat \<times> net_error option \<times> writeTimeoutConn" where
  "copy_chunks env [] transferred c = (transferred, None, c)"
| "copy_chunks env (chunk # chunks) transferred c =
     (case conn_write env chunk c of
        (n, Some err, c1) \<Rightarrow> (transferred + n, Some err, c1)
      | (n, None, c1) \<Rightarrow>
          if n \<noteq> length chunk then (transferred + n, Some NetShortWrite, c1)
          else copy_chunks env chunks (transferred + n) c1)"

text \<open>The loop of \<open>ReadFrom\<close> on a file: after a timeout with progress it goes back to the first byte not sent.\<close>

function send_loop ::
  "net_env \<Rightarrow> source \<Rightarrow> nat \<Rightarrow> writeTimeoutConn \<Rightarrow> nat \<times> net_error option \<times> writeTimeoutConn" where
  "send_loop env s transferred c =
     (case ne_seek env (cn_tick c) of
        Some err \<Rightarrow> (transferred, Some err, conn_tick c)
      | None \<Rightarrow>
          (case conn_SetWriteDeadline env (conn_tick c) of
             (Some err, c1) \<Rightarrow> (transferred, Some err, c1)
           | (None, c1) \<Rightarrow>
               (case conn_ReadFrom env s c1 of
                  (n, err, s1, c2) \<Rightarrow>
                    if \<not> madeWriteProgress n err then (transferred + n, err, c2)
                    else case ne_seek env (cn_tick c2) of
                      Some err \<Rightarrow> (transferred + n, Some err, conn_tick c2)
                    | None \<Rightarrow>
                        send_loop env
                          (s1\<lparr>src_offset := src_offset s + n, src_N := map_option (\<lambda>k. k - n) (src_N s)\<rparr>)
                          (transferred + n) (conn_tick c2))))"
  by pat_completeness auto

text \<open>Going back is advancing by the bytes sent, whatever was read ahead.\<close>

lemma resume_source: "(advance k s)\<lparr>src_offset := src_offset s + n, src_N := map_option (\<lambda>k. k - n) (src_N s)\<rparr> = advance n s"
  by (simp add: advance_def)

lemma available_advance: "n \<le> length (available s) \<Longrightarrow> available (advance n s) = drop n (available s)"
  by (cases "src_N s") (auto simp: available_def advance_def Let_def drop_take add.commute)

lemma conn_ReadFrom_sent:
  assumes "conn_ReadFrom env s c = (n, err, s1, c1)"
  shows "n \<le> length (available s)" and "cn_sent c1 = cn_sent c @ take n (available s)"
    and "err = None \<Longrightarrow> n = length (available s)" and "\<exists>k. s1 = advance k s"
  using assms by (auto simp: conn_ReadFrom_def Let_def split: prod.splits if_splits)

termination send_loop
proof (relation "measure (\<lambda>(env, s, k, c). length (available s))", goal_cases)
  case (2 env s k c x c1 n x2 err x3 s1 c2)
  then have run: "conn_ReadFrom env s c1 = (n, err, s1, c2)" by simp
  from conn_ReadFrom_sent(4) [OF run] obtain m where "s1 = advance m s" ..
  with 2 conn_ReadFrom_sent(1) [OF run] show ?case
    by (auto simp: resume_source available_advance madeWriteProgress_def)
qed simp

declare send_loop.simps [simp del]

text \<open>
  \<open>ReadFrom\<close>: a file (limited or not) on a connection that can send files uses the loop, or the connection directly when
  no download policy is set; any other source goes through \<open>Write\<close>, in the buffers \<open>io.Copy\<close> fills.
\<close>

function buffers :: "bytes \<Rightarrow> bytes list" where
  "buffers bs = (if bs = [] then [] else take 32768 bs # buffers (drop 32768 bs))"
  by pat_completeness auto

termination buffers
  by (relation "measure length") auto

declare buffers.simps [simp del]

datatype transfer_source = FileSource source | ChunkSource "bytes list"

fun source_bytes :: "transfer_source \<Rightarrow> bytes" where
  "source_bytes (FileSource s) = available s"
| "source_bytes (ChunkSource chunks) = concat chunks"

fun conn_readFrom ::
  "net_env \<Rightarrow> bool \<Rightarrow> transfer_source \<Rightarrow> writeTimeoutConn \<Rightarrow> nat \<times> net_error option \<times> writeTimeoutConn" where
  "conn_readFrom env canSend (ChunkSource chunks) c = copy_chunks env chunks 0 c"
| "conn_readFrom env canSend (FileSource s) c =
     (if \<not> canSend then copy_chunks env (buffers (available s)) 0 c
      else if idleTimeout c \<le> 0 then
        (case conn_ReadFrom env s c of (n, err, s1, c1) \<Rightarrow> (n, err, c1))
      else send_loop env s 0 c)"

section \<open>What reaches the peer\<close>

text \<open>A transfer of \<open>bs\<close> that reports \<open>k\<close> bytes: those are the first \<open>k\<close>, and all of them when there is no error.\<close>

definition delivers :: "bytes \<Rightarrow> nat \<Rightarrow> writeTimeoutConn \<Rightarrow> nat \<times> net_error option \<times> writeTimeoutConn \<Rightarrow> bool" where
  "delivers bs k c res \<longleftrightarrow>
     (case res of (n, err, c') \<Rightarrow>
        k \<le> n \<and> n - k \<le> length bs \<and> cn_sent c' = cn_sent c @ take (n - k) bs \<and> (err = None \<longrightarrow> n - k = length bs)
        \<and> idleTimeout c' = idleTimeout c)"

lemma deliversI:
  assumes "n = k + m" and "m \<le> length bs" and "cn_sent c' = cn_sent c @ take m bs" and "err = None \<Longrightarrow> m = length bs"
    and "idleTimeout c' = idleTimeout c"
  shows "delivers bs k c (n, err, c')"
  using assms by (auto simp: delivers_def)

lemma delivers_more:
  assumes "delivers (drop m bs) (k + m) c1 res" and "m \<le> length bs" and "cn_sent c1 = cn_sent c @ take m bs"
    and "idleTimeout c1 = idleTimeout c"
  shows "delivers bs k c res"
proof -
  obtain n err c' where res: "res = (n, err, c')" by (cases res)
  with assms(1) have n: "k + m \<le> n" "n - (k + m) \<le> length bs - m" "cn_sent c' = cn_sent c1 @ take (n - (k + m)) (drop m bs)"
    "err = None \<longrightarrow> n - (k + m) = length bs - m" "idleTimeout c' = idleTimeout c1" by (auto simp: delivers_def)
  have "take (n - k) bs = take m bs @ take (n - (k + m)) (drop m bs)"
    using n(1) take_add [of m "n - (k + m)" bs] by (simp add: algebra_simps)
  with n assms(2-4) res show ?thesis by (auto simp: delivers_def)
qed

lemma conn_tick_sel [simp]: "cn_sent (conn_tick c) = cn_sent c" "idleTimeout (conn_tick c) = idleTimeout c"
  by (simp_all add: conn_tick_def)

lemma conn_SetWriteDeadline_sel:
  "conn_SetWriteDeadline env c = (err, c1) \<Longrightarrow> cn_sent c1 = cn_sent c \<and> idleTimeout c1 = idleTimeout c"
  by (auto simp: conn_SetWriteDeadline_def)

lemma conn_Write_sent:
  assumes "conn_Write env body c = (n, err, c1)"
  shows "n \<le> length body" and "cn_sent c1 = cn_sent c @ take n body" and "err = None \<Longrightarrow> n = length body"
    and "idleTimeout c1 = idleTimeout c"
  using assms by (auto simp: conn_Write_def Let_def split: prod.splits if_splits)

lemma conn_ReadFrom_idle: "conn_ReadFrom env s c = (n, err, s1, c1) \<Longrightarrow> idleTimeout c1 = idleTimeout c"
  by (auto simp: conn_ReadFrom_def Let_def split: prod.splits)

lemma write_loop_delivers: "delivers body k c (write_loop env body k c)"
proof (induction env body k c rule: write_loop.induct)
  case (1 env body k c)
  obtain e1 c1 where d: "conn_SetWriteDeadline env c = (e1, c1)" by fastforce
  obtain n err c2 where w: "conn_Write env body c1 = (n, err, c2)" by (metis prod_cases3)
  note c1 = conn_SetWriteDeadline_sel [OF d]
  note sent = conn_Write_sent [OF w]
  consider "body = []" | "body \<noteq> []" "e1 \<noteq> None" | "body \<noteq> []" "e1 = None" "err \<noteq> None \<and> \<not> madeWriteProgress n err"
    | "body \<noteq> []" "e1 = None" "\<not> (err \<noteq> None \<and> \<not> madeWriteProgress n err)" "n = 0"
    | "body \<noteq> []" "e1 = None" "\<not> (err \<noteq> None \<and> \<not> madeWriteProgress n err)" "n \<noteq> 0" by blast
  then show ?case
  proof cases
    case 5
    have "delivers (drop n body) (k + n) c2 (write_loop env (drop n body) (k + n) c2)"
      using "1.IH" [OF 5(1) d [symmetric] 5(2) w [symmetric] refl 5(3,4)] .
    moreover have "write_loop env body k c = write_loop env (drop n body) (k + n) c2"
      using 5 d w by (auto simp: write_loop.simps [of env body])
    ultimately show ?thesis using delivers_more sent c1 by simp
  qed (use d w c1 sent in \<open>auto simp: write_loop.simps [of env body] write_loop.simps [of env "[]"] delivers_def\<close>)
qed

lemma conn_write_delivers:
  assumes "conn_write env body c = (n, err, c1)"
  shows "delivers body 0 c (n, err, c1)"
proof (cases "idleTimeout c \<le> 0")
  case True
  with assms have "conn_Write env body c = (n, err, c1)" by (simp add: conn_write_def)
  note sent = conn_Write_sent [OF this]
  show ?thesis by (rule deliversI [OF _ sent]) simp
next
  case False
  with assms write_loop_delivers [of body 0 c env] show ?thesis by (simp add: conn_write_def)
qed

lemma copy_chunks_delivers: "delivers (concat chunks) k c (copy_chunks env chunks k c)"
proof (induction chunks arbitrary: k c)
  case (Cons chunk chunks)
  obtain n err c1 where w: "conn_write env chunk c = (n, err, c1)" by (metis prod_cases3)
  have d: "n \<le> length chunk" "cn_sent c1 = cn_sent c @ take n chunk" "err = None \<Longrightarrow> n = length chunk"
    "idleTimeout c1 = idleTimeout c"
    using conn_write_delivers [OF w] by (simp_all add: delivers_def)
  show ?case
  proof (cases err)
    case None
    with d have n: "n = length chunk" by simp
    have "delivers (drop n (chunk @ concat chunks)) (k + n) c1 (copy_chunks env chunks (k + n) c1)"
      using Cons.IH n by simp
    from delivers_more [OF this] d n None w show ?thesis by simp
  next
    case (Some e)
    with d w show ?thesis by (auto intro!: deliversI [of _ _ n])
  qed
qed (simp add: delivers_def)

lemma send_loop_delivers: "delivers (available s) k c (send_loop env s k c)"
proof (induction env s k c rule: send_loop.induct)
  case (1 env s k c)
  obtain e1 c1 where d: "conn_SetWriteDeadline env (conn_tick c) = (e1, c1)" by fastforce
  obtain n err s1 c2 where w: "conn_ReadFrom env s c1 = (n, err, s1, c2)" by (metis prod_cases4)
  have c1: "cn_sent c1 = cn_sent c" "idleTimeout c1 = idleTimeout c" using conn_SetWriteDeadline_sel [OF d] by simp_all
  note sent = conn_ReadFrom_sent [OF w]
  have idle: "idleTimeout c2 = idleTimeout c" using conn_ReadFrom_idle [OF w] c1 by simp
  from sent(4) obtain m where m: "s1 = advance m s" ..
  note eq = send_loop.simps [of env s k c] d w
  consider e where "ne_seek env (cn_tick c) = Some e" | e where "ne_seek env (cn_tick c) = None" "e1 = Some e"
    | "ne_seek env (cn_tick c) = None" "e1 = None" "\<not> madeWriteProgress n err"
    | e where "ne_seek env (cn_tick c) = None" "e1 = None" "madeWriteProgress n err" "ne_seek env (cn_tick c2) = Some e"
    | "ne_seek env (cn_tick c) = None" "e1 = None" "madeWriteProgress n err" "ne_seek env (cn_tick c2) = None"
    by (cases "ne_seek env (cn_tick c)"; cases e1; cases "ne_seek env (cn_tick c2)") auto
  then show ?case
  proof cases
    case 1
    then show ?thesis by (simp add: eq) (simp add: delivers_def)
  next
    case 2
    then show ?thesis by (simp add: eq) (simp add: delivers_def c1)
  next
    case 3
    with sent(1-3) c1 idle show ?thesis by (auto simp: eq intro!: deliversI [of _ _ n])
  next
    case 4
    with sent(1,2) c1 idle show ?thesis by (auto simp: eq intro!: deliversI [of _ _ n])
  next
    case 5
    have "delivers (available (advance n s)) (k + n) (conn_tick c2) (send_loop env (advance n s) (k + n) (conn_tick c2))"
      using "1.IH" [OF 5(1) d [symmetric] 5(2) w [symmetric] refl refl _ 5(4)] 5(3) by (simp add: m resume_source)
    moreover have "send_loop env s k c = send_loop env (advance n s) (k + n) (conn_tick c2)"
      using 5 by (simp add: eq m resume_source)
    ultimately show ?thesis using sent(1,2) c1 idle by (simp add: available_advance delivers_more)
  qed
qed

lemma concat_buffers: "concat (buffers bs) = bs"
  by (induction bs rule: buffers.induct) (simp add: buffers.simps)

lemma conn_readFrom_delivers: "delivers (source_bytes src) 0 c (conn_readFrom env canSend src c)"
proof (cases src)
  case (FileSource s)
  obtain n err s1 c1 where w: "conn_ReadFrom env s c = (n, err, s1, c1)" by (metis prod_cases4)
  from conn_ReadFrom_sent [OF w] conn_ReadFrom_idle [OF w]
  have "delivers (available s) 0 c (n, err, c1)" by (intro deliversI [of n 0 n]) simp_all
  with FileSource w show ?thesis
    using send_loop_delivers copy_chunks_delivers [of "buffers (available s)" 0 c env] by (simp add: concat_buffers)
qed (use copy_chunks_delivers in simp)

text \<open>A peer that is slow but keeps taking bytes.\<close>

definition slow_peer :: "net_env \<Rightarrow> bool" where
  "slow_peer env \<longleftrightarrow> (\<forall>i. ne_deadline env i = None \<and> 0 < fst (ne_write env i) \<and> snd (ne_write env i) = Some NetTimeout)"

lemma write_loop_slow: "slow_peer env \<Longrightarrow> fst (snd (write_loop env body k c)) = None"
proof (induction env body k c rule: write_loop.induct)
  case (1 env body k c)
  obtain c1 where d: "conn_SetWriteDeadline env c = (None, c1)"
    using 1(2) by (simp add: slow_peer_def conn_SetWriteDeadline_def)
  obtain n err c2 where w: "conn_Write env body c1 = (n, err, c2)" by (metis prod_cases3)
  obtain m where m: "ne_write env (cn_tick c1) = (m, Some NetTimeout)" "0 < m"
    using 1(2) unfolding slow_peer_def by (metis prod.collapse)
  from w have n: "body \<noteq> [] \<Longrightarrow> n \<noteq> 0" "err = Some NetTimeout" using m by (auto simp: conn_Write_def Let_def)
  then show ?case
    using "1.IH" [OF _ d [symmetric] refl w [symmetric] refl] 1(2) d w
    by (auto simp: write_loop.simps [of env body] madeWriteProgress_def)
qed

text \<open>
  C38: whatever the connection does, \<open>Write\<close> and \<open>ReadFrom\<close> put a prefix of the source on the wire, in order
  and without gaps or repeats although a timed-out transfer may have read ahead, report its exact length, and return
  without error only when all of it was sent; under the idle policy of a download, a peer that takes at
  least one byte before each deadline receives everything.  The policy itself survives until the next deadline is set.
\<close>

theorem transfer_exact:
  "delivers body 0 c (conn_write env body c)
   \<and> delivers (source_bytes src) 0 c (conn_readFrom env canSend src c)
   \<and> (slow_peer env \<longrightarrow> 0 < idleTimeout c \<longrightarrow> (\<exists>c'. conn_write env body c = (length body, None, c')
        \<and> cn_sent c' = cn_sent c @ body))
   \<and> idleTimeout (snd (SetWriteDeadline env c)) = 0"
proof (intro conjI impI)
  show w: "delivers body 0 c (conn_write env body c)" using conn_write_delivers by (metis prod_cases3)
  show "\<exists>c'. conn_write env body c = (length body, None, c') \<and> cn_sent c' = cn_sent c @ body"
    if slow: "slow_peer env" and idle: "0 < idleTimeout c"
  proof -
    obtain n err c' where res: "conn_write env body c = (n, err, c')" by (metis prod_cases3)
    with idle write_loop_slow [OF slow, of body 0 c] have "err = None" by (simp add: conn_write_def)
    with w res show ?thesis by (auto simp: delivers_def)
  qed
qed (simp_all add: conn_readFrom_delivers SetWriteDeadline_def conn_SetWriteDeadline_def conn_tick_def)

definition one_byte_peer :: net_env where
  "one_byte_peer =
     \<lparr>ne_write = (\<lambda>i. (1, Some NetTimeout)), ne_send = (\<lambda>i. (1, 2, Some NetTimeout)), ne_deadline = (\<lambda>i. None), ne_seek = (\<lambda>i. None)\<rparr>"

lemma transfer_exact_witness:
  "\<exists>c'. conn_write one_byte_peer ''abc'' \<lparr>cn_sent = ''x'', cn_tick = 0, idleTimeout = 5\<rparr> = (3, None, c')
     \<and> cn_sent c' = ''xabc''"
proof -
  let ?c = "\<lparr>cn_sent = ''x'', cn_tick = 0, idleTimeout = 5\<rparr>"
  have "slow_peer one_byte_peer" by (simp add: slow_peer_def one_byte_peer_def)
  moreover have "0 < idleTimeout ?c" by simp
  ultimately obtain c' where "conn_write one_byte_peer ''abc'' ?c = (length ''abc'', None, c')" "cn_sent c' = cn_sent ?c @ ''abc''"
    using transfer_exact [of "''abc''" ?c one_byte_peer "ChunkSource []" False] by blast
  then show ?thesis by simp
qed

end
