(* ===== verification/Migrations.thy ===== *)
theory Migrations
  imports Db
begin

text \<open>
  \<open>migrations/migration.go\<close>: the schema migrations and their runner.  A schema is the tables with their columns (name,
  type and default), the indexes and the triggers; the constraints of the final schema are those of the theory \<open>Db\<close>.
  A statement fails when the schema does not allow it, or when the oracle \<open>md_fails\<close> says so; a migration is a
  transaction, so a failure leaves the schema and the record of applied versions as they were.
\<close>

section \<open>Statements\<close>

type_synonym column = "string \<times> string \<times> string"

record schema =
  sc_tables :: "(string \<times> column list) list"
  sc_indexes :: "string list"
  sc_triggers :: "string list"

datatype ddl =
    CreateTable bool string "column list"
  | AlterAddColumn string column
  | CreateIndex bool string string "string list"
  | CreateTriggerIfNotExists string string
  | UpdateColumn string string

definition has_columns :: "schema \<Rightarrow> string \<Rightarrow> string list \<Rightarrow> bool" where
  "has_columns sc table cols \<longleftrightarrow>
     (case map_of (sc_tables sc) table of None \<Rightarrow> False | Some cs \<Rightarrow> set cols \<subseteq> fst ` set cs)"

fun exec_ddl :: "ddl \<Rightarrow> schema \<Rightarrow> schema option" where
  "exec_ddl (CreateTable ifNotExists table cols) sc =
     (if map_of (sc_tables sc) table \<noteq> None then (if ifNotExists then Some sc else None)
      else Some (sc\<lparr>sc_tables := sc_tables sc @ [(table, cols)]\<rparr>))"
| "exec_ddl (AlterAddColumn table col) sc =
     (case map_of (sc_tables sc) table of
        None \<Rightarrow> None
      | Some cs \<Rightarrow>
          if fst col \<in> fst ` set cs then None
          else Some (sc\<lparr>sc_tables := map (\<lambda>(t, cs). if t = table then (t, cs @ [col]) else (t, cs)) (sc_tables sc)\<rparr>))"
| "exec_ddl (CreateIndex ifNotExists name table cols) sc =
     (if name \<in> set (sc_indexes sc) then (if ifNotExists then Some sc else None)
      else if has_columns sc table cols then Some (sc\<lparr>sc_indexes := sc_indexes sc @ [name]\<rparr>) else None)"
| "exec_ddl (CreateTriggerIfNotExists name table) sc =
     (if name \<in> set (sc_triggers sc) then Some sc
      else if has_columns sc table [] then Some (sc\<lparr>sc_triggers := sc_triggers sc @ [name]\<rparr>) else None)"
| "exec_ddl (UpdateColumn table col) sc = (if has_columns sc table [col] then Some sc else None)"

text \<open>The expression \<open>^[a-zA-Z][a-zA-Z0-9_]*$\<close>.\<close>

definition is_letter :: "char \<Rightarrow> bool" where
  "is_letter c \<longleftrightarrow> (let n = of_char c :: nat in 65 \<le> n \<and> n \<le> 90 \<or> 97 \<le> n \<and> n \<le> 122)"

definition validSQLIdentifier :: "string \<Rightarrow> bool" where
  "validSQLIdentifier s \<longleftrightarrow>
     (case s of
        [] \<Rightarrow> False
      | c # cs \<Rightarrow> is_letter c \<and> list_all (\<lambda>x. is_letter x \<or> is_digit x \<or> x = CHR ''_'') cs)"

definition addColumnIfMissing :: "string \<Rightarrow> string \<Rightarrow> string \<Rightarrow> string \<Rightarrow> schema \<Rightarrow> schema option" where
  "addColumnIfMissing table name typ dflt sc =
     (if \<not> validSQLIdentifier table \<or> \<not> validSQLIdentifier name then None
      else if has_columns sc table [name] then Some sc
      else exec_ddl (AlterAddColumn table (name, typ, dflt)) sc)"

section \<open>The migrations\<close>

datatype action = Exec ddl | AddColumn string string string string

fun exec_action :: "action \<Rightarrow> schema \<Rightarrow> schema option" where
  "exec_action (Exec stmt) sc = exec_ddl stmt sc"
| "exec_action (AddColumn table name typ dflt) sc = addColumnIfMissing table name typ dflt sc"

record migration =
  mg_version :: int
  mg_name :: string
  mg_actions :: "action list"

definition quoted :: "string \<Rightarrow> string" where
  "quoted s = [CHR 0x27] @ s @ [CHR 0x27]"

definition current_timestamp :: string where "current_timestamp = ''CURRENT_TIMESTAMP''"

definition status_triggers :: "action list" where
  "status_triggers =
     [Exec (CreateTriggerIfNotExists ''validate_multipart_upload_status_insert'' ''multipart_uploads''),
      Exec (CreateTriggerIfNotExists ''validate_multipart_upload_status_update'' ''multipart_uploads'')]"

definition migration_1 :: migration where
  "migration_1 = \<lparr>mg_version = 1, mg_name = ''initial schema'', mg_actions =
     [Exec (CreateTable True ''users''
        [(''id'', ''TEXT'', []), (''display_name'', ''TEXT'', []), (''access_key_id'', ''TEXT'', []),
         (''secret_hash'', ''TEXT'', []), (''role'', ''TEXT'', quoted ''member''), (''is_active'', ''INTEGER'', ''1''),
         (''created_at'', ''TIMESTAMP'', current_timestamp), (''updated_at'', ''TIMESTAMP'', current_timestamp)]),
      Exec (CreateTable True ''buckets''
        [(''name'', ''TEXT'', []), (''owner_id'', ''TEXT'', []), (''created_at'', ''TIMESTAMP'', current_timestamp)]),
      Exec (CreateTable True ''objects''
        [(''id'', ''TEXT'', []), (''bucket_name'', ''TEXT'', []), (''key'', ''TEXT'', []), (''size'', ''INTEGER'', []),
         (''etag'', ''TEXT'', []), (''content_type'', ''TEXT'', quoted ''application/octet-stream''),
         (''storage_path'', ''TEXT'', []), (''created_at'', ''TIMESTAMP'', current_timestamp),
         (''updated_at'', ''TIMESTAMP'', current_timestamp)]),
      Exec (CreateIndex True ''idx_objects_bucket_prefix'' ''objects'' [''bucket_name'', ''key'']),
      Exec (CreateTable True ''multipart_uploads''
        [(''id'', ''TEXT'', []), (''bucket_name'', ''TEXT'', []), (''key'', ''TEXT'', []),
         (''content_type'', ''TEXT'', quoted ''application/octet-stream''), (''status'', ''TEXT'', quoted ''active''),
         (''created_at'', ''TIMESTAMP'', current_timestamp), (''status_updated_at'', ''TIMESTAMP'', current_timestamp)]),
      Exec (CreateTable True ''multipart_parts''
        [(''upload_id'', ''TEXT'', []), (''part_number'', ''INTEGER'', []), (''size'', ''INTEGER'', []), (''etag'', ''TEXT'', []),
         (''storage_path'', ''TEXT'', []), (''created_at'', ''TIMESTAMP'', current_timestamp)])]
     @ status_triggers\<rparr>"

definition migration_2 :: migration where
  "migration_2 = \<lparr>mg_version = 2, mg_name = ''add sigv4 credentials'', mg_actions =
     [Exec (AlterAddColumn ''users'' (''sigv4_access_key_id'', ''TEXT'', [])),
      Exec (AlterAddColumn ''users'' (''sigv4_secret_key'', ''TEXT'', [])),
      Exec (CreateIndex True ''idx_users_sigv4_access_key_id'' ''users'' [''sigv4_access_key_id''])]\<rparr>"

definition migration_3 :: migration where
  "migration_3 = \<lparr>mg_version = 3, mg_name = ''add object activity'', mg_actions =
     [Exec (CreateTable False ''object_activity''
        [(''id'', ''TEXT'', []), (''action'', ''TEXT'', []), (''bucket_name'', ''TEXT'', []), (''object_key'', ''TEXT'', []),
         (''size'', ''INTEGER'', []), (''etag'', ''TEXT'', []), (''actor_user_id'', ''TEXT'', []),
         (''created_at'', ''TIMESTAMP'', current_timestamp)]),
      Exec (CreateIndex False ''idx_object_activity_created_at'' ''object_activity'' [''created_at'', ''id'']),
      Exec (CreateIndex False ''idx_object_activity_bucket'' ''object_activity'' [''bucket_name'', ''created_at''])]\<rparr>"

definition migration_4 :: migration where
  "migration_4 = \<lparr>mg_version = 4, mg_name = ''add multipart content_type'', mg_actions =
     [AddColumn ''multipart_uploads'' ''content_type'' ''TEXT'' (quoted ''application/octet-stream'')]\<rparr>"

definition migration_5 :: migration where
  "migration_5 = \<lparr>mg_version = 5, mg_name = ''add multipart upload status'', mg_actions =
     [AddColumn ''multipart_uploads'' ''status'' ''TEXT'' (quoted ''active'')]\<rparr>"

definition migration_6 :: migration where
  "migration_6 = \<lparr>mg_version = 6, mg_name = ''add multipart status updated timestamp'', mg_actions =
     [AddColumn ''multipart_uploads'' ''status_updated_at'' ''TIMESTAMP'' [],
      Exec (UpdateColumn ''multipart_uploads'' ''status_updated_at'')]\<rparr>"

definition migration_7 :: migration where
  "migration_7 = \<lparr>mg_version = 7, mg_name = ''validate multipart upload status'', mg_actions = status_triggers\<rparr>"

definition migration_8 :: migration where
  "migration_8 = \<lparr>mg_version = 8, mg_name = ''add resource grants'', mg_actions =
     [Exec (CreateTable True ''grants''
        [(''id'', ''TEXT'', []), (''bucket_name'', ''TEXT'', []), (''grantee_user_id'', ''TEXT'', []), (''action'', ''TEXT'', []),
         (''key_prefix'', ''TEXT'', quoted []), (''is_active'', ''INTEGER'', ''1''), (''created_by'', ''TEXT'', []),
         (''note'', ''TEXT'', []), (''created_at'', ''TIMESTAMP'', current_timestamp),
         (''updated_at'', ''TIMESTAMP'', current_timestamp)]),
      Exec (CreateIndex True ''idx_grants_unique_active'' ''grants''
        [''bucket_name'', ''grantee_user_id'', ''action'', ''key_prefix'', ''is_active'']),
      Exec (CreateIndex True ''idx_grants_bucket_grantee'' ''grants'' [''bucket_name'', ''grantee_user_id'']),
      Exec (CreateIndex True ''idx_grants_grantee'' ''grants'' [''grantee_user_id'']),
      Exec (CreateIndex True ''idx_grants_bucket'' ''grants'' [''bucket_name''])]\<rparr>"

definition checksum_columns :: "string list" where
  "checksum_columns = [''checksum_crc32'', ''checksum_crc32c'', ''checksum_crc64nvme'', ''checksum_sha1'', ''checksum_sha256'']"

definition migration_9 :: migration where
  "migration_9 = \<lparr>mg_version = 9, mg_name = ''add multipart part checksums'', mg_actions =
     map (\<lambda>col. AddColumn ''multipart_parts'' col ''TEXT'' []) checksum_columns\<rparr>"

definition migration_10 :: migration where
  "migration_10 = \<lparr>mg_version = 10, mg_name = ''add object is_multipart and checksums'', mg_actions =
     AddColumn ''objects'' ''is_multipart'' ''INTEGER'' ''0''
     # map (\<lambda>col. AddColumn ''objects'' col ''TEXT'' []) checksum_columns\<rparr>"

definition migration_11 :: migration where
  "migration_11 = \<lparr>mg_version = 11, mg_name = ''add checksum_algorithm, parts_count, user_metadata'', mg_actions =
     [AddColumn ''multipart_uploads'' ''checksum_algorithm'' ''TEXT'' [], AddColumn ''multipart_uploads'' ''user_metadata'' ''TEXT'' [],
      AddColumn ''objects'' ''parts_count'' ''INTEGER'' ''0'', AddColumn ''objects'' ''user_metadata'' ''TEXT'' []]\<rparr>"

definition migration_12 :: migration where
  "migration_12 = \<lparr>mg_version = 12, mg_name = ''add share links'', mg_actions =
     [Exec (CreateTable True ''share_links''
        [(''code'', ''TEXT'', []), (''bucket_name'', ''TEXT'', []), (''object_key'', ''TEXT'', []),
         (''response_content_disposition'', ''TEXT'', quoted []), (''created_by'', ''TEXT'', []), (''expires_at'', ''TIMESTAMP'', []),
         (''created_at'', ''TIMESTAMP'', current_timestamp)]),
      Exec (CreateIndex True ''idx_share_links_bucket'' ''share_links'' [''bucket_name'', ''created_at''])]\<rparr>"

definition migrations :: "migration list" where
  "migrations = [migration_1, migration_2, migration_3, migration_4, migration_5, migration_6, migration_7, migration_8,
     migration_9, migration_10, migration_11, migration_12]"

section \<open>The runner\<close>

text \<open>The database as the runner sees it: the schema and the table \<open>schema_migrations\<close>, if it exists.\<close>

record mdb =
  md_schema :: schema
  md_applied :: "(int \<times> string) list option"
  md_tick :: nat

record md_env =
  md_fails :: "nat \<Rightarrow> bool"

definition md_step :: "mdb \<Rightarrow> mdb" where
  "md_step s = s\<lparr>md_tick := Suc (md_tick s)\<rparr>"

definition statement :: "md_env \<Rightarrow> (mdb \<Rightarrow> ('a \<times> mdb) option) \<Rightarrow> mdb \<Rightarrow> 'a result \<times> mdb" where
  "statement env f s =
     (if md_fails env (md_tick s) then (Inl ErrDriver, md_step s)
      else case f s of None \<Rightarrow> (Inl ErrDriver, md_step s) | Some (x, s1) \<Rightarrow> (Inr x, md_step s1))"

definition ensureMigrationsTable :: "md_env \<Rightarrow> mdb \<Rightarrow> unit result \<times> mdb" where
  "ensureMigrationsTable env = statement env (\<lambda>s.
     Some ((), case md_applied s of None \<Rightarrow> s\<lparr>md_applied := Some []\<rparr> | Some rows \<Rightarrow> s))"

definition getAppliedVersion :: "md_env \<Rightarrow> mdb \<Rightarrow> int result \<times> mdb" where
  "getAppliedVersion env = statement env (\<lambda>s.
     case md_applied s of
       None \<Rightarrow> None
     | Some rows \<Rightarrow> Some (if rows = [] then 0 else Max (fst ` set rows), s))"

definition insert_version :: "migration \<Rightarrow> mdb \<Rightarrow> (unit \<times> mdb) option" where
  "insert_version m s =
     (case md_applied s of
        None \<Rightarrow> None
      | Some rows \<Rightarrow>
          if mg_version m \<in> fst ` set rows then None
          else Some ((), s\<lparr>md_applied := Some (rows @ [(mg_version m, mg_name m)])\<rparr>))"

fun exec_actions :: "md_env \<Rightarrow> action list \<Rightarrow> mdb \<Rightarrow> unit result \<times> mdb" where
  "exec_actions env [] = ret ()"
| "exec_actions env (a # as) =
     andThen (statement env (\<lambda>s. map_option (\<lambda>sc. ((), s\<lparr>md_schema := sc\<rparr>)) (exec_action a (md_schema s))))
       (\<lambda>u. exec_actions env as)"

text \<open>\<open>runMigration\<close>: begin, the statements, the version row, commit; the deferred rollback undoes a failed one.\<close>

definition runMigration :: "md_env \<Rightarrow> migration \<Rightarrow> mdb \<Rightarrow> unit result \<times> mdb" where
  "runMigration env m s =
     (case andThen (statement env (\<lambda>s. Some ((), s))) (\<lambda>u.
           andThen (exec_actions env (mg_actions m)) (\<lambda>u.
           andThen (statement env (insert_version m)) (\<lambda>u.
             statement env (\<lambda>s. Some ((), s))))) s of
        (Inl e, s1) \<Rightarrow> (Inl e, s\<lparr>md_tick := md_tick s1\<rparr>)
      | (Inr u, s1) \<Rightarrow> (Inr u, s1))"

fun run_pending :: "md_env \<Rightarrow> int \<Rightarrow> migration list \<Rightarrow> mdb \<Rightarrow> unit result \<times> mdb" where
  "run_pending env appliedVersion [] = ret ()"
| "run_pending env appliedVersion (m # ms) =
     (if mg_version m \<le> appliedVersion then run_pending env appliedVersion ms
      else andThen (runMigration env m) (\<lambda>u. run_pending env appliedVersion ms))"

definition runMigrations :: "md_env \<Rightarrow> migration list \<Rightarrow> mdb \<Rightarrow> unit result \<times> mdb" where
  "runMigrations env migs =
     andThen (ensureMigrationsTable env) (\<lambda>u.
     andThen (getAppliedVersion env) (\<lambda>appliedVersion. run_pending env appliedVersion migs))"

definition Run :: "md_env \<Rightarrow> mdb \<Rightarrow> unit result \<times> mdb" where
  "Run env = runMigrations env migrations"

section \<open>The states between migrations\<close>

fun exec_all :: "action list \<Rightarrow> schema \<Rightarrow> schema option" where
  "exec_all [] sc = Some sc"
| "exec_all (a # as) sc = (case exec_action a sc of None \<Rightarrow> None | Some sc1 \<Rightarrow> exec_all as sc1)"

definition empty_schema :: schema where
  "empty_schema = \<lparr>sc_tables = [], sc_indexes = [], sc_triggers = []\<rparr>"

definition schema_at :: "nat \<Rightarrow> schema option" where
  "schema_at k = exec_all (concat (map mg_actions (take k migrations))) empty_schema"

definition version_rows :: "nat \<Rightarrow> (int \<times> string) list" where
  "version_rows k = map (\<lambda>m. (mg_version m, mg_name m)) (take k migrations)"

text \<open>The first \<open>k\<close> migrations have been applied to an empty database, and nothing else.\<close>

definition migrated :: "nat \<Rightarrow> mdb \<Rightarrow> bool" where
  "migrated k s \<longleftrightarrow> schema_at k = Some (md_schema s)
     \<and> (md_applied s = Some (version_rows k) \<or> k = 0 \<and> md_applied s = None)"

text \<open>The columns the statements of \<open>internal/metadata\<close> name.\<close>

definition repository_columns :: "(string \<times> string list) list" where
  "repository_columns =
     [(''users'', [''id'', ''display_name'', ''access_key_id'', ''secret_hash'', ''sigv4_access_key_id'', ''sigv4_secret_key'', ''role'',
        ''is_active'', ''created_at'', ''updated_at'']),
      (''buckets'', [''name'', ''owner_id'', ''created_at'']),
      (''objects'', [''id'', ''bucket_name'', ''key'', ''size'', ''etag'', ''content_type'', ''storage_path'', ''created_at'', ''updated_at'',
        ''is_multipart'', ''parts_count'', ''user_metadata''] @ checksum_columns),
      (''multipart_uploads'', [''id'', ''bucket_name'', ''key'', ''content_type'', ''checksum_algorithm'', ''status'', ''created_at'',
        ''status_updated_at'', ''user_metadata'']),
      (''multipart_parts'', [''upload_id'', ''part_number'', ''size'', ''etag'', ''storage_path'', ''created_at''] @ checksum_columns),
      (''grants'', [''id'', ''bucket_name'', ''grantee_user_id'', ''action'', ''key_prefix'', ''is_active'', ''created_by'', ''note'',
        ''created_at'', ''updated_at'']),
      (''share_links'', [''code'', ''bucket_name'', ''object_key'', ''response_content_disposition'', ''created_by'', ''expires_at'',
        ''created_at'']),
      (''object_activity'', [''id'', ''action'', ''bucket_name'', ''object_key'', ''size'', ''etag'', ''actor_user_id'', ''created_at''])]"

section \<open>Proofs\<close>

lemma exec_all_append: "exec_all (as @ bs) sc = Option.bind (exec_all as sc) (exec_all bs)"
  by (induction as arbitrary: sc) (auto split: option.splits)

lemma migration_count: "length migrations = 12"
  by (simp add: migrations_def)

lemma schema_at_12: "\<exists>sc. schema_at 12 = Some sc \<and> list_all (\<lambda>(t, cols). has_columns sc t cols) repository_columns"
proof -
  have "(case schema_at 12 of None \<Rightarrow> False | Some sc \<Rightarrow> list_all (\<lambda>(t, cols). has_columns sc t cols) repository_columns)"
    by code_simp
  then show ?thesis by (auto split: option.splits)
qed

lemma schema_at_Suc:
  assumes "k < 12" and "schema_at k = Some sc"
  shows "exec_all (mg_actions (migrations ! k)) sc = schema_at (Suc k)"
  using assms migration_count by (simp add: schema_at_def take_Suc_conv_app_nth exec_all_append)

lemma schema_at_defined: "k \<le> 12 \<Longrightarrow> schema_at k \<noteq> None"
proof (induction "12 - k" arbitrary: k)
  case 0
  then show ?case using schema_at_12 by auto
next
  case (Suc n)
  then have k: "k < 12" and "schema_at (Suc k) \<noteq> None" by auto
  with migration_count show ?case
    by (cases "exec_all (concat (map mg_actions (take k migrations))) empty_schema")
      (auto simp: schema_at_def take_Suc_conv_app_nth exec_all_append)
qed

lemma version_at: "k < 12 \<Longrightarrow> mg_version (migrations ! k) = int k + 1"
proof -
  have "\<forall>k\<in>set [0..<12]. mg_version (migrations ! k) = int k + 1" by code_simp
  then show "k < 12 \<Longrightarrow> mg_version (migrations ! k) = int k + 1" by simp
qed

lemma max_version: "k \<le> 12 \<Longrightarrow> (if version_rows k = [] then 0 else Max (fst ` set (version_rows k))) = int k"
proof -
  have "\<forall>k\<in>set [0..<13]. (if version_rows k = [] then 0 else Max (fst ` set (version_rows k))) = int k" by code_simp
  then show "k \<le> 12 \<Longrightarrow> (if version_rows k = [] then 0 else Max (fst ` set (version_rows k))) = int k" by auto
qed

lemma version_rows_Suc:
  "k < 12 \<Longrightarrow> version_rows (Suc k) = version_rows k @ [(mg_version (migrations ! k), mg_name (migrations ! k))]"
  using migration_count by (simp add: version_rows_def take_Suc_conv_app_nth)

lemma version_new: "k < 12 \<Longrightarrow> mg_version (migrations ! k) \<notin> fst ` set (version_rows k)"
proof
  assume k: "k < 12" and "mg_version (migrations ! k) \<in> fst ` set (version_rows k)"
  then obtain j where "j < k" "mg_version (migrations ! j) = mg_version (migrations ! k)"
    using migration_count by (auto simp: version_rows_def in_set_conv_nth)
  with k show False by (simp add: version_at)
qed

lemma md_step_sel [simp]: "md_schema (md_step s) = md_schema s" "md_applied (md_step s) = md_applied s"
  by (simp_all add: md_step_def)

lemma statement_Inr:
  assumes "statement env f s = (Inr x, s')"
  obtains s1 where "f s = Some (x, s1)" and "md_schema s' = md_schema s1" and "md_applied s' = md_applied s1"
  using assms by (auto simp: statement_def split: if_splits option.splits)

lemma statement_Inl: "statement env f s = (Inl e, s') \<Longrightarrow> s' = md_step s"
  by (auto simp: statement_def split: if_splits option.splits)

lemma statement_runs: "\<not> md_fails env (md_tick s) \<Longrightarrow> f s = Some (x, s1) \<Longrightarrow> statement env f s = (Inr x, md_step s1)"
  by (simp add: statement_def)

lemma exec_actions_Inr:
  "exec_actions env as s = (Inr u, s') \<Longrightarrow>
   exec_all as (md_schema s) = Some (md_schema s') \<and> md_applied s' = md_applied s"
proof (induction as arbitrary: s)
  case (Cons a as)
  let ?f = "\<lambda>s. map_option (\<lambda>sc. ((), s\<lparr>md_schema := sc\<rparr>)) (exec_action a (md_schema s))"
  from Cons.prems obtain s1 where st: "statement env ?f s = (Inr (), s1)" and rest: "exec_actions env as s1 = (Inr u, s')"
    by (auto simp: andThen_Inr)
  from st obtain s2 where s2: "?f s = Some ((), s2)" "md_schema s1 = md_schema s2" "md_applied s1 = md_applied s2"
    by (rule statement_Inr)
  then obtain sc where "exec_action a (md_schema s) = Some sc" "md_schema s1 = sc" "md_applied s1 = md_applied s"
    by (cases "exec_action a (md_schema s)") auto
  with Cons.IH [OF rest] show ?case by simp
qed (simp add: ret_def)

lemma exec_actions_runs:
  "(\<And>i. \<not> md_fails env i) \<Longrightarrow> exec_all as (md_schema s) = Some sc \<Longrightarrow> \<exists>s'. exec_actions env as s = (Inr (), s')"
proof (induction as arbitrary: s)
  case (Cons a as)
  from Cons.prems(2) obtain sc1 where a: "exec_action a (md_schema s) = Some sc1" "exec_all as sc1 = Some sc"
    by (auto split: option.splits)
  have "\<exists>s'. exec_actions env as (md_step (s\<lparr>md_schema := sc1\<rparr>)) = (Inr (), s')"
    by (rule Cons.IH [OF Cons.prems(1)]) (simp add: a)
  moreover have "statement env (\<lambda>s. map_option (\<lambda>sc. ((), s\<lparr>md_schema := sc\<rparr>)) (exec_action a (md_schema s))) s
      = (Inr (), md_step (s\<lparr>md_schema := sc1\<rparr>))"
    by (rule statement_runs [OF Cons.prems(1)]) (simp add: a)
  ultimately show ?case by (simp add: andThen_def)
qed (simp add: ret_def)

lemma runMigration_Inr:
  assumes "runMigration env m s = (Inr u, s')"
  obtains rows where "exec_all (mg_actions m) (md_schema s) = Some (md_schema s')" and "md_applied s = Some rows"
    and "md_applied s' = Some (rows @ [(mg_version m, mg_name m)])"
proof -
  let ?commit = "statement env (\<lambda>s. Some ((), s))"
  from assms have "andThen ?commit (\<lambda>u. andThen (exec_actions env (mg_actions m)) (\<lambda>u.
      andThen (statement env (insert_version m)) (\<lambda>u. ?commit))) s = (Inr u, s')"
    by (simp add: runMigration_def split: prod.splits sum.splits)
  then obtain s1 s2 s3 where b: "statement env (\<lambda>s. Some ((), s)) s = (Inr (), s1)"
    and e: "exec_actions env (mg_actions m) s1 = (Inr (), s2)" and i: "statement env (insert_version m) s2 = (Inr (), s3)"
    and c: "statement env (\<lambda>s. Some ((), s)) s3 = (Inr (), s')"
    by (auto simp: andThen_Inr)
  have nop: "md_schema t' = md_schema t \<and> md_applied t' = md_applied t" if "?commit t = (Inr (), t')" for t t'
    using that by (rule statement_Inr) simp
  from nop [OF b] exec_actions_Inr [OF e] nop [OF c]
  have x: "exec_all (mg_actions m) (md_schema s) = Some (md_schema s2)" "md_applied s2 = md_applied s"
    "md_schema s' = md_schema s3" "md_applied s' = md_applied s3" by auto
  from i obtain s4 where "insert_version m s2 = Some ((), s4)" "md_schema s3 = md_schema s4"
    "md_applied s3 = md_applied s4" by (rule statement_Inr)
  with x that show ?thesis by (auto simp: insert_version_def split: option.splits if_splits)
qed

lemma runMigration_Inl: "runMigration env m s = (Inl e, s') \<Longrightarrow> md_schema s' = md_schema s \<and> md_applied s' = md_applied s"
  by (auto simp: runMigration_def split: prod.splits sum.splits)

lemma migrated_step:
  assumes k: "k < 12" and mig: "schema_at k = Some (md_schema s)" "md_applied s = Some (version_rows k)"
    and run: "runMigration env (migrations ! k) s = (Inr u, s')"
  shows "schema_at (Suc k) = Some (md_schema s')" and "md_applied s' = Some (version_rows (Suc k))"
proof -
  from run obtain rows where "exec_all (mg_actions (migrations ! k)) (md_schema s) = Some (md_schema s')"
    "md_applied s = Some rows" "md_applied s' = Some (rows @ [(mg_version (migrations ! k), mg_name (migrations ! k))])"
    by (rule runMigration_Inr)
  with mig schema_at_Suc [OF k mig(1)] k
  show "schema_at (Suc k) = Some (md_schema s')" and "md_applied s' = Some (version_rows (Suc k))"
    by (simp_all add: version_rows_Suc)
qed

lemma runMigration_runs:
  assumes ok: "\<And>i. \<not> md_fails env i" and k: "k < 12"
    and mig: "schema_at k = Some (md_schema s)" "md_applied s = Some (version_rows k)"
  shows "\<exists>s'. runMigration env (migrations ! k) s = (Inr (), s')"
proof -
  obtain sc where "exec_all (mg_actions (migrations ! k)) (md_schema s) = Some sc"
    using schema_at_Suc [OF k mig(1)] schema_at_defined [of "Suc k"] k by auto
  then obtain s2 where e: "exec_actions env (mg_actions (migrations ! k)) (md_step s) = (Inr (), s2)"
    using exec_actions_runs [OF ok, of _ "md_step s"] by auto
  then have "md_applied s2 = Some (version_rows k)" using exec_actions_Inr [OF e] mig by simp
  then obtain s3 where "insert_version (migrations ! k) s2 = Some ((), s3)"
    using version_new [OF k] by (auto simp: insert_version_def)
  with e show ?thesis using ok by (simp add: runMigration_def andThen_def statement_def)
qed

lemma run_pending_skip:
  "(\<And>m. m \<in> set ms \<Longrightarrow> mg_version m \<le> v) \<Longrightarrow> run_pending env v (ms @ ns) = run_pending env v ns"
  by (induction ms) auto

lemma run_pending_from:
  assumes "k \<le> 12" and "schema_at k = Some (md_schema s)" and "md_applied s = Some (version_rows k)" and "v \<le> int k"
  shows "(case run_pending env v (drop k migrations) s of
            (Inl e, s') \<Rightarrow> \<exists>k'\<ge>k. k' \<le> 12 \<and> migrated k' s'
          | (Inr u, s') \<Rightarrow> migrated 12 s')
       \<and> ((\<forall>i. \<not> md_fails env i) \<longrightarrow> fst (run_pending env v (drop k migrations) s) = Inr ())"
  using assms
proof (induction "12 - k" arbitrary: k s)
  case 0
  then show ?case using migration_count by (simp add: ret_def migrated_def)
next
  case (Suc n)
  then have k: "k < 12" by simp
  then have d: "drop k migrations = migrations ! k # drop (Suc k) migrations" using migration_count by (simp add: Cons_nth_drop_Suc)
  have gt: "\<not> mg_version (migrations ! k) \<le> v" using version_at [OF k] Suc.prems(4) by simp
  obtain r s1 where run: "runMigration env (migrations ! k) s = (r, s1)" by fastforce
  show ?case
  proof (cases r)
    case (Inl e)
    then have "migrated k s1" using runMigration_Inl [of env "migrations ! k" s e s1] run Suc.prems by (simp add: migrated_def)
    moreover have "\<not> (\<forall>i. \<not> md_fails env i)"
      using runMigration_runs [OF _ k Suc.prems(2,3), of env] run Inl by auto
    ultimately show ?thesis using d gt run Inl k by (auto simp: andThen_def)
  next
    case (Inr u)
    from migrated_step [OF k Suc.prems(2,3) run [unfolded Inr]]
    have "schema_at (Suc k) = Some (md_schema s1)" "md_applied s1 = Some (version_rows (Suc k))" .
    from Suc.hyps(1) [OF _ _ this] Suc.hyps(2) Suc.prems(4) k
    have "(case run_pending env v (drop (Suc k) migrations) s1 of
            (Inl e, s') \<Rightarrow> \<exists>k'\<ge>Suc k. k' \<le> 12 \<and> migrated k' s' | (Inr u, s') \<Rightarrow> migrated 12 s')
       \<and> ((\<forall>i. \<not> md_fails env i) \<longrightarrow> fst (run_pending env v (drop (Suc k) migrations) s1) = Inr ())" by auto
    with d gt run Inr show ?thesis
      by (auto simp: andThen_def split: prod.splits sum.splits dest: Suc_leD)
  qed
qed

lemma Run_unfold:
  assumes mig: "migrated k s" and k: "k \<le> 12"
  shows "(\<exists>e s'. Run env s = (Inl e, s') \<and> migrated k s' \<and> (\<exists>i. md_fails env i))
    \<or> (\<exists>s1. Run env s = run_pending env (int k) (drop k migrations) s1
         \<and> schema_at k = Some (md_schema s1) \<and> md_applied s1 = Some (version_rows k))"
proof -
  obtain r1 s1 where e: "ensureMigrationsTable env s = (r1, s1)" by fastforce
  obtain r2 s2 where g: "getAppliedVersion env s1 = (r2, s2)" by fastforce
  have applied: "md_applied s1 = Some (version_rows k) \<and> md_schema s1 = md_schema s" if "r1 = Inr ()"
    using e mig that by (auto simp: ensureMigrationsTable_def statement_def migrated_def version_rows_def split: if_splits option.splits)
  have keep1: "migrated k s1 \<and> (\<exists>i. md_fails env i)" if "r1 = Inl err" for err
    using e mig that by (auto simp: ensureMigrationsTable_def statement_def migrated_def split: if_splits)
  have keep2: "migrated k s2 \<and> (\<exists>i. md_fails env i)" if "r1 = Inr ()" "r2 = Inl err" for err
    using g applied [OF that(1)] that mig by (auto simp: getAppliedVersion_def statement_def migrated_def split: if_splits)
  have ok: "r2 = Inr (int k) \<and> md_applied s2 = Some (version_rows k) \<and> md_schema s2 = md_schema s" if "r1 = Inr ()" "r2 = Inr x" for x
    using g applied [OF that(1)] that max_version [OF k] by (auto simp: getAppliedVersion_def statement_def split: if_splits)
  have "mg_version m \<le> int k" if "m \<in> set (take k migrations)" for m
    using that k by (auto simp: in_set_conv_nth migration_count version_at)
  then have skip: "run_pending env (int k) migrations = run_pending env (int k) (drop k migrations)"
    using run_pending_skip [of "take k migrations" "int k" env "drop k migrations"] by simp
  show ?thesis
  proof (cases r1)
    case (Inl err)
    then show ?thesis using e keep1 by (simp add: Run_def runMigrations_def andThen_def)
  next
    case (Inr u)
    show ?thesis
    proof (cases r2)
      case Inl2: (Inl err)
      then show ?thesis using e g Inr keep2 by (simp add: Run_def runMigrations_def andThen_def)
    next
      case Inr2: (Inr v)
      then show ?thesis using e g Inr ok skip mig by (auto simp: Run_def runMigrations_def andThen_def migrated_def)
    qed
  qed
qed

text \<open>
  C39: started on a database on which the first \<open>k\<close> migrations were applied, \<open>Run\<close> either applies all
  remaining ones, or fails and leaves the database after some migration no earlier than the \<open>k\<close>-th, never in the
  middle of one; so it can be run again, and a run without driver failures completes.  The final
  schema is always the same, has every column the repositories use, and running again leaves it as it is.
\<close>

theorem migrations_resume:
  assumes "migrated k s" and "k \<le> length migrations"
  shows "(case Run env s of
            (Inl e, s') \<Rightarrow> \<exists>k'\<ge>k. k' \<le> length migrations \<and> migrated k' s'
          | (Inr u, s') \<Rightarrow> migrated (length migrations) s' \<and> (k = length migrations \<longrightarrow> md_schema s' = md_schema s)
              \<and> list_all (\<lambda>(t, cols). has_columns (md_schema s') t cols) repository_columns)
       \<and> ((\<forall>i. \<not> md_fails env i) \<longrightarrow> fst (Run env s) = Inr ())"
proof -
  have k: "k \<le> 12" using assms(2) migration_count by simp
  have final: "list_all (\<lambda>(t, cols). has_columns (md_schema s') t cols) repository_columns" if "migrated 12 s'" for s'
    using that schema_at_12 by (auto simp: migrated_def)
  have same: "md_schema s' = md_schema s" if "migrated 12 s'" "k = 12" for s' using that assms(1) by (simp add: migrated_def)
  from Run_unfold [OF assms(1) k, of env] show ?thesis
  proof (elim disjE exE conjE)
    fix e s' i
    assume "Run env s = (Inl e, s')" "migrated k s'" "md_fails env i"
    then show ?thesis using k migration_count by auto
  next
    fix s1
    assume r: "Run env s = run_pending env (int k) (drop k migrations) s1" "schema_at k = Some (md_schema s1)"
      "md_applied s1 = Some (version_rows k)"
    note p = run_pending_from [OF k r(2,3) order_refl, of env]
    show ?thesis
      using p final same unfolding r(1) migration_count by (auto split: prod.splits sum.splits)
  qed
qed

definition flaky_env :: md_env where
  "flaky_env = \<lparr>md_fails = (\<lambda>i. i = 20)\<rparr>"

definition new_database :: mdb where
  "new_database = \<lparr>md_schema = empty_schema, md_applied = None, md_tick = 0\<rparr>"

lemma migrations_resume_witness:
  "fst (Run \<lparr>md_fails = (\<lambda>i. False)\<rparr> new_database) = Inr ()
   \<and> (case Run flaky_env new_database of
        (Inl e, s') \<Rightarrow> \<exists>k'\<ge>0. k' \<le> length migrations \<and> migrated k' s' | (Inr u, s') \<Rightarrow> migrated (length migrations) s')"
proof -
  have "migrated 0 new_database" by (simp add: migrated_def new_database_def schema_at_def)
  then show ?thesis
    using migrations_resume [of 0 new_database "\<lparr>md_fails = (\<lambda>i. False)\<rparr>"] migrations_resume [of 0 new_database flaky_env]
    by (auto split: prod.splits sum.splits)
qed

end
