(* ===== verification/RequestXml.thy ===== *)
theory RequestXml
  imports S3Buckets
begin

text \<open>
  Reading a request document (\<open>internal/s3/request_xml.go\<close>).  The tokens of a text outside its root element come from
  \<open>encoding/xml\<close>, which is a parameter: a list of tokens and how it ends.  The token of an element carries what
  \<open>DecodeElement\<close> makes of the whole element, if it accepts it.
\<close>

section \<open>The decoder\<close>

datatype 'a xml_token =
    StartElement "'a option" | EndElement | CharData bytes | XmlComment | ProcInst string | Directive

datatype xml_end = XmlEOF | XmlSyntaxError

type_synonym 'a xml_scan = "bytes \<Rightarrow> 'a xml_token list \<times> xml_end"

fun isXMLMisc :: "'a xml_token \<Rightarrow> bool \<Rightarrow> bool" where
  "isXMLMisc (CharData cs) prolog = (\<forall>c\<in>set cs. c \<in> {CHR '' '', CHR 0x09, CHR 0x0D, CHR 0x0A})"
| "isXMLMisc XmlComment prolog = True"
| "isXMLMisc (ProcInst target) prolog = (prolog \<or> \<not> EqualFold target ''xml'')"
| "isXMLMisc Directive prolog = prolog"
| "isXMLMisc (StartElement x) prolog = False"
| "isXMLMisc EndElement prolog = False"

fun finishXMLRequest :: "'a xml_token list \<Rightarrow> xml_end \<Rightarrow> bool" where
  "finishXMLRequest [] e = (e = XmlEOF)"
| "finishXMLRequest (t # ts) e = (isXMLMisc t False \<and> finishXMLRequest ts e)"

text \<open>An XML declaration is spelled \<open>xml\<close> and comes before everything else.\<close>

definition misplaced_declaration :: "bool \<Rightarrow> 'a xml_token \<Rightarrow> bool" where
  "misplaced_declaration first t =
     (case t of ProcInst target \<Rightarrow> EqualFold target ''xml'' \<and> (\<not> first \<or> target \<noteq> ''xml'') | _ \<Rightarrow> False)"

definition start_of :: "'a xml_token \<Rightarrow> 'a option option" where
  "start_of t = (case t of StartElement x \<Rightarrow> Some x | _ \<Rightarrow> None)"

primrec prolog_loop :: "bool \<Rightarrow> 'a xml_token list \<Rightarrow> xml_end \<Rightarrow> 'a option" where
  "prolog_loop first [] e = None"
| "prolog_loop first (t # ts) e =
     (case start_of t of
        Some None \<Rightarrow> None
      | Some (Some v) \<Rightarrow> if finishXMLRequest ts e then Some v else None
      | None \<Rightarrow> if \<not> isXMLMisc t True \<or> misplaced_declaration first t then None else prolog_loop False ts e)"

definition decodeXMLRequest :: "'a xml_scan \<Rightarrow> bytes \<Rightarrow> 'a option" where
  "decodeXMLRequest scan payload =
     (case scan (TrimPrefix payload [CHR 0xEF, CHR 0xBB, CHR 0xBF]) of (ts, e) \<Rightarrow> prolog_loop True ts e)"

text \<open>The decoders the handlers are given (\<open>codecs\<close>) are this one at the three documents.\<close>

definition xml_codecs ::
  "(string \<Rightarrow> bool) \<Rightarrow> (string \<Rightarrow> url_values option) \<Rightarrow> deleteObjectsRequest xml_scan \<Rightarrow> CompletePart list xml_scan
     \<Rightarrow> (string \<times> string) xml_scan \<Rightarrow> codecs" where
  "xml_codecs media query_of scan_delete scan_complete scan_config =
     \<lparr>media_type_ok = media, ParseQuery = query_of, decode_delete = decodeXMLRequest scan_delete,
      decode_complete = decodeXMLRequest scan_complete, decode_bucket_config = decodeXMLRequest scan_config\<rparr>"

section \<open>What is accepted\<close>

text \<open>
  The grammar of a document, declared on its own.  Miscellany is white space, a comment, or an instruction other
  than a declaration; before the root element there may also be directives, and one declaration, spelled \<open>xml\<close>,
  as the very first token; after it there is miscellany only, up to the end of the text.
\<close>

inductive xml_misc :: "'a xml_token \<Rightarrow> bool" where
  space: "set cs \<subseteq> {CHR 0x20, CHR 0x09, CHR 0x0A, CHR 0x0D} \<Longrightarrow> xml_misc (CharData cs)"
| comment: "xml_misc XmlComment"
| instruction: "\<not> EqualFold target ''xml'' \<Longrightarrow> xml_misc (ProcInst target)"

inductive xml_header :: "'a xml_token list \<Rightarrow> bool" where
  "xml_header []"
| "xml_misc t \<Longrightarrow> xml_header ts \<Longrightarrow> xml_header (t # ts)"
| "xml_header ts \<Longrightarrow> xml_header (Directive # ts)"

inductive xml_prolog :: "'a xml_token list \<Rightarrow> bool" where
  "xml_header ts \<Longrightarrow> xml_prolog ts"
| "xml_header ts \<Longrightarrow> xml_prolog (ProcInst ''xml'' # ts)"

inductive xml_document :: "'a \<Rightarrow> 'a xml_token list \<times> xml_end \<Rightarrow> bool" where
  "xml_prolog before \<Longrightarrow> \<forall>t\<in>set after. xml_misc t \<Longrightarrow> xml_document v (before @ [StartElement (Some v)] @ after, XmlEOF)"

inductive_simps xml_misc_simps [simp]:
  "xml_misc (CharData cs)" "xml_misc XmlComment" "xml_misc (ProcInst target)" "xml_misc Directive" "xml_misc (StartElement x)"
  "xml_misc EndElement"

inductive_simps xml_header_Cons: "xml_header (t # ts)"

lemma isXMLMisc_False: "isXMLMisc t False \<longleftrightarrow> xml_misc t"
  by (cases t) auto

lemma isXMLMisc_True: "isXMLMisc t True \<and> \<not> misplaced_declaration False t \<longleftrightarrow> xml_misc t \<or> t = Directive"
  by (cases t) (auto simp: misplaced_declaration_def)

lemma finishXMLRequest_iff: "finishXMLRequest ts e \<longleftrightarrow> e = XmlEOF \<and> (\<forall>t\<in>set ts. xml_misc t)"
  by (induction ts) (auto simp: isXMLMisc_False)

lemma xml_header_iff: "xml_header ts \<longleftrightarrow> (\<forall>t\<in>set ts. isXMLMisc t True \<and> \<not> misplaced_declaration False t)"
proof (induction ts)
  case (Cons t ts)
  then show ?case unfolding isXMLMisc_True by (auto simp: xml_header_Cons)
qed (simp add: xml_header.intros)

lemma xml_prolog_Cons:
  "xml_prolog (t # ts) \<longleftrightarrow> isXMLMisc t True \<and> \<not> misplaced_declaration True t \<and> xml_header ts"
proof -
  have "xml_prolog (t # ts) \<longleftrightarrow> xml_header ts \<and> (xml_misc t \<or> t = Directive \<or> t = ProcInst ''xml'')"
    by (auto simp: xml_prolog.simps xml_header_Cons)
  moreover have "xml_misc t \<or> t = Directive \<or> t = ProcInst ''xml'' \<longleftrightarrow> isXMLMisc t True \<and> \<not> misplaced_declaration True t"
    by (cases t) (auto simp: misplaced_declaration_def EqualFold_def)
  ultimately show ?thesis by blast
qed

lemma split_before_root:
  assumes "\<nexists>x. t = StartElement x"
  shows "(\<exists>before after. t # ts = before @ StartElement w # after \<and> P before after)
    \<longleftrightarrow> (\<exists>before after. t # ts = (t # before) @ StartElement w # after \<and> P (t # before) after)"
proof
  assume "\<exists>before after. t # ts = before @ StartElement w # after \<and> P before after"
  then obtain before after where "t # ts = before @ StartElement w # after" "P before after" by blast
  with assms show "\<exists>before after. t # ts = (t # before) @ StartElement w # after \<and> P (t # before) after"
    by (cases before) auto
qed blast

lemma prolog_loop_later:
  "prolog_loop False ts e = Some v \<longleftrightarrow>
     (\<exists>before after. ts = before @ StartElement (Some v) # after \<and> e = XmlEOF
        \<and> xml_header before \<and> (\<forall>t\<in>set after. xml_misc t))"
proof (induction ts)
  case (Cons t ts)
  show ?case
  proof (cases "\<exists>x. t = StartElement x")
    case True
    then show ?thesis
      by (auto simp: start_of_def finishXMLRequest_iff xml_header_iff Cons_eq_append_conv split: option.splits intro: exI [of _ "[]"])
  next
    case False
    then have "prolog_loop False (t # ts) e = Some v \<longleftrightarrow>
        isXMLMisc t True \<and> \<not> misplaced_declaration False t \<and> prolog_loop False ts e = Some v"
      by (cases t) (simp_all add: start_of_def)
    also have "\<dots> \<longleftrightarrow> (\<exists>before after. t # ts = (t # before) @ StartElement (Some v) # after \<and> e = XmlEOF
        \<and> xml_header (t # before) \<and> (\<forall>t\<in>set after. xml_misc t))"
      unfolding Cons.IH xml_header_iff by auto
    finally show ?thesis by (simp only: split_before_root [OF False])
  qed
qed simp

lemma prolog_loop_iff: "prolog_loop True ts e = Some v \<longleftrightarrow> xml_document v (ts, e)"
proof -
  have doc: "xml_document v (us, e) \<longleftrightarrow> (\<exists>before after. us = before @ StartElement (Some v) # after \<and> e = XmlEOF
      \<and> xml_prolog before \<and> (\<forall>t\<in>set after. xml_misc t))" for us
    by (auto simp: xml_document.simps)
  show ?thesis
  proof (cases ts)
    case (Cons t rest)
    show ?thesis
    proof (cases "\<exists>x. t = StartElement x")
      case True
      then show ?thesis unfolding doc Cons
        by (auto simp: start_of_def finishXMLRequest_iff xml_prolog_Cons Cons_eq_append_conv xml_header.intros xml_prolog.intros
            split: option.splits intro: exI [of _ "[]"])
    next
      case False
      then have "prolog_loop True (t # rest) e = Some v \<longleftrightarrow>
          isXMLMisc t True \<and> \<not> misplaced_declaration True t \<and> prolog_loop False rest e = Some v"
        by (cases t) (simp_all add: start_of_def)
      also have "\<dots> \<longleftrightarrow> (\<exists>before after. t # rest = (t # before) @ StartElement (Some v) # after \<and> e = XmlEOF
          \<and> xml_prolog (t # before) \<and> (\<forall>t\<in>set after. xml_misc t))"
        unfolding prolog_loop_later xml_prolog_Cons by auto
      finally show ?thesis unfolding doc Cons by (simp only: split_before_root [OF False])
    qed
  qed (simp add: doc)
qed

text \<open>
  C40: a request document is decoded to \<open>v\<close> exactly when, after an optional byte order mark, its text
  is one document of the declared grammar: a prolog of white space, comments, directives and instructions with the XML
  declaration nowhere but at its very start, one root element that decodes to \<open>v\<close>, and after it only white space,
  comments and other instructions up to a proper end.  A second element, trailing text, a directive or a
  declaration behind the root, and a malformed tail are never ignored.
\<close>

theorem one_document_accepted:
  "decodeXMLRequest scan payload = Some v
     \<longleftrightarrow> xml_document v (scan (if prefix [CHR 0xEF, CHR 0xBB, CHR 0xBF] payload then drop 3 payload else payload))"
proof -
  have trim: "TrimPrefix payload [CHR 0xEF, CHR 0xBB, CHR 0xBF] =
      (if prefix [CHR 0xEF, CHR 0xBB, CHR 0xBF] payload then drop 3 payload else payload)"
    by (simp add: TrimPrefix_def HasPrefix_def numeral_3_eq_3)
  obtain ts e where "scan (TrimPrefix payload [CHR 0xEF, CHR 0xBB, CHR 0xBF]) = (ts, e)" by fastforce
  then show ?thesis unfolding trim by (simp add: decodeXMLRequest_def trim prolog_loop_iff)
qed

end
