(* ===== verification/Middleware.thy ===== *)
theory Middleware
  imports Encoding
begin

text \<open>
  The middlewares around every handler (\<open>internal/http/middleware\<close>): the recorder behind the request log and the
  request identifiers of the S3 routes.  A handler is the sequence of calls it makes on the response writer;
  \<open>net/http\<close>'s own writer keeps the first status and sends 200 if a body starts without one.
\<close>

section \<open>Response writers\<close>

datatype writer_call = WriterHeader nat | WriterBody bytes | WriterCopy bytes | WriterFlush

record ResponseWriter =
  rw_status :: nat
  rw_sent :: bytes
  rw_tick :: nat

text \<open>The number of bytes a call on the connection gets through: a parameter, never more than it was given.\<close>

type_synonym peer = "nat \<Rightarrow> nat"

definition header_once :: "nat \<Rightarrow> ResponseWriter \<Rightarrow> ResponseWriter" where
  "header_once code w = (if rw_status w = 0 then w\<lparr>rw_status := code\<rparr> else w)"

definition send_body :: "peer \<Rightarrow> bytes \<Rightarrow> ResponseWriter \<Rightarrow> nat \<times> ResponseWriter" where
  "send_body env body w =
     (let w1 = header_once 200 w; n = min (env (rw_tick w)) (length body)
      in (n, w1\<lparr>rw_sent := rw_sent w1 @ take n body, rw_tick := Suc (rw_tick w)\<rparr>))"

section \<open>\<open>logging.go\<close>\<close>

record responseRecorder =
  rec_writer :: ResponseWriter
  rec_status :: nat
  rec_bytes :: nat

definition rec_start :: "ResponseWriter \<Rightarrow> responseRecorder" where
  "rec_start w = \<lparr>rec_writer = w, rec_status = 0, rec_bytes = 0\<rparr>"

definition rec_WriteHeader :: "nat \<Rightarrow> responseRecorder \<Rightarrow> responseRecorder" where
  "rec_WriteHeader code r = r\<lparr>rec_status := code, rec_writer := header_once code (rec_writer r)\<rparr>"

definition rec_default :: "responseRecorder \<Rightarrow> responseRecorder" where
  "rec_default r = (if rec_status r = 0 then r\<lparr>rec_status := 200\<rparr> else r)"

definition rec_Write :: "peer \<Rightarrow> bytes \<Rightarrow> responseRecorder \<Rightarrow> responseRecorder" where
  "rec_Write env body r =
     (let r1 = rec_default r in
      case send_body env body (rec_writer r1) of
        (n, w1) \<Rightarrow> r1\<lparr>rec_writer := w1, rec_bytes := rec_bytes r1 + n\<rparr>)"

text \<open>Both branches of \<open>ReadFrom\<close>, the copy by the writer itself and \<open>io.Copy\<close>, deliver a prefix of the source.\<close>

definition rec_ReadFrom :: "peer \<Rightarrow> bytes \<Rightarrow> responseRecorder \<Rightarrow> responseRecorder" where
  "rec_ReadFrom env src r =
     (let r1 = rec_default r in
      case send_body env src (rec_writer r1) of
        (n, w1) \<Rightarrow> r1\<lparr>rec_writer := w1, rec_bytes := rec_bytes r1 + n\<rparr>)"

definition rec_Flush :: "responseRecorder \<Rightarrow> responseRecorder" where
  "rec_Flush r = (let r1 = rec_default r in r1\<lparr>rec_writer := header_once 200 (rec_writer r1)\<rparr>)"

definition statusCode :: "responseRecorder \<Rightarrow> nat" where
  "statusCode r = (if rec_status r = 0 then 200 else rec_status r)"

primrec rec_call :: "peer \<Rightarrow> writer_call \<Rightarrow> responseRecorder \<Rightarrow> responseRecorder" where
  "rec_call env (WriterHeader code) r = rec_WriteHeader code r"
| "rec_call env (WriterBody body) r = rec_Write env body r"
| "rec_call env (WriterCopy src) r = rec_ReadFrom env src r"
| "rec_call env WriterFlush r = rec_Flush r"

text \<open>\<open>Logging\<close>: run the handler on a recorder and log its status and number of bytes.  The server finishes a response
  that has no status with 200.\<close>

definition Logging :: "peer \<Rightarrow> writer_call list \<Rightarrow> ResponseWriter \<Rightarrow> (nat \<times> nat) \<times> ResponseWriter" where
  "Logging env calls w =
     (let r = fold (rec_call env) calls (rec_start w)
      in ((statusCode r, rec_bytes r), header_once 200 (rec_writer r)))"

section \<open>\<open>requestid.go\<close>\<close>

text \<open>The eight random bytes are given.\<close>

definition newRequestID :: "bytes \<Rightarrow> string" where
  "newRequestID b = hex_Encode b"

definition S3Headers :: "bytes \<Rightarrow> (string \<times> string) list \<Rightarrow> (string \<times> string) list" where
  "S3Headers b hs = (let i = newRequestID b in [(''X-Amz-Request-Id'', i), (''X-Amz-Id-2'', i)] @ hs)"

section \<open>What is logged\<close>

definition header_first :: "writer_call list \<Rightarrow> bool" where
  "header_first calls \<longleftrightarrow> (\<forall>c\<in>set (tl calls). \<forall>code. c \<noteq> WriterHeader code) \<and> (\<forall>code. calls \<noteq> [] \<longrightarrow> hd calls = WriterHeader code \<longrightarrow> code \<noteq> 0)"

lemmas recorder_defs = rec_WriteHeader_def rec_default_def rec_Write_def rec_ReadFrom_def rec_Flush_def send_body_def header_once_def Let_def

lemma rec_call_bytes:
  "rec_bytes (rec_call env c r) + length (rw_sent (rec_writer r)) = rec_bytes r + length (rw_sent (rec_writer (rec_call env c r)))"
  by (cases c) (simp_all add: recorder_defs)

lemma rec_calls_bytes:
  "rec_bytes (fold (rec_call env) cs r) + length (rw_sent (rec_writer r))
     = rec_bytes r + length (rw_sent (rec_writer (fold (rec_call env) cs r)))"
proof (induction cs arbitrary: r)
  case (Cons c cs)
  from Cons.IH [of "rec_call env c r"] rec_call_bytes [of env c r] show ?case by simp
qed simp

lemma rec_call_status:
  "rec_status r = rw_status (rec_writer r) \<Longrightarrow> (\<forall>code. c \<noteq> WriterHeader code) \<Longrightarrow>
   rec_status (rec_call env c r) = rw_status (rec_writer (rec_call env c r))"
  by (cases c) (simp_all add: recorder_defs)

lemma rec_calls_status:
  "rec_status r = rw_status (rec_writer r) \<Longrightarrow> (\<forall>c\<in>set cs. \<forall>code. c \<noteq> WriterHeader code) \<Longrightarrow>
   rec_status (fold (rec_call env) cs r) = rw_status (rec_writer (fold (rec_call env) cs r))"
  by (induction cs arbitrary: r) (simp_all add: rec_call_status)

text \<open>
  The log tells the number of body bytes sent, and the status that was sent when the handler sets a status at most once
  and before the body.
\<close>

lemma logged_bytes:
  assumes "Logging env calls w = ((code, n), w')" and "rw_sent w = []"
  shows "length (rw_sent w') = n"
  using assms rec_calls_bytes [of env calls "rec_start w"]
  by (auto simp: Logging_def rec_start_def Let_def header_once_def)

lemma logged_status:
  assumes "Logging env calls w = ((code, n), w')" and "rw_status w = 0" and "header_first calls"
  shows "rw_status w' = code"
proof (cases calls)
  case Nil
  with assms show ?thesis by (auto simp: Logging_def rec_start_def statusCode_def header_once_def Let_def)
next
  case (Cons c cs)
  have "rec_status (rec_call env c (rec_start w)) = rw_status (rec_writer (rec_call env c (rec_start w)))"
    using assms(2,3) Cons by (cases c) (auto simp: header_first_def rec_start_def recorder_defs)
  from rec_calls_status [OF this, of cs env] assms Cons show ?thesis
    by (auto simp: Logging_def header_first_def statusCode_def header_once_def Let_def split: if_splits)
qed

lemma request_id_length: "length b = 8 \<Longrightarrow> length (newRequestID b) = 16"
  by (simp add: newRequestID_def hex_Encode_length)

end
