(* ===== verification/Spec2Isabelle.thy ===== *)
theory Spec2Isabelle
  imports CacheProofs Listing ConfigLaws StoreManagement UploadLock WriteTimeout Migrations RequestXml Middleware
begin

text \<open>
  Verification of FBS, an S3-compatible object store written in Go.

  \<^bold>\<open>The program.\<close>  A request passes the middlewares (\<open>internal/http\<close>), is authenticated by a bearer token or an AWS
  signature (\<open>internal/auth\<close>), is routed to an S3 handler (\<open>internal/s3\<close>), a management handler (\<open>internal/management\<close>) or the
  first-run setup (\<open>internal/setup\<close>), and is authorised from roles, bucket ownership and grants (\<open>internal/iam\<close>,
  \<open>internal/authz\<close>).  Handlers keep rows in SQLite (\<open>internal/metadata\<close>, with an LRU cache before it) and bytes in files
  (\<open>internal/storage\<close>).  Files and rows are kept in step by a protocol of the handlers: write a file, publish its path in one
  transaction, delete the file that was replaced.  At the start the schema is migrated (\<open>migrations\<close>) and the files no row
  names are removed.

  \<^bold>\<open>State and effects.\<close>  The disk (\<open>FileSystem\<close>) is a list of files and directories with a counter of system calls;
  the database (\<open>Db\<close>) is a record of tables with a counter of statements.  A call may fail whenever an oracle
  (\<open>io_fails\<close>, \<open>db_fails\<close>) says so for the value of its counter, so that a theorem without a premise on the oracles
  holds under every pattern of failures.  A handler is a function from the \<open>world\<close> of both to a response or a value
  and the new world; \<open>andThen\<close> composes the steps, and an early return is a failing step that carries the response.

  \<^bold>\<open>Theories and sources.\<close>
  \<^item> \<open>Prelude\<close>, \<open>GoPath\<close>, \<open>Encoding\<close>, \<open>Clock\<close>: what the code uses of Go's \<open>strings\<close>, \<open>strconv\<close>, \<open>path/filepath\<close>,
    \<open>encoding/hex\<close>, \<open>encoding/base64\<close>, \<open>net/url\<close> and \<open>time\<close>, with round trips.
  \<^item> \<open>FileSystem\<close>, \<open>Storage\<close>, \<open>StorageProofs\<close>, \<open>Reconcile\<close>: \<open>internal/storage\<close>.  Paths stay inside the data directory; a
    write is all or nothing; assembly concatenates; deletion removes its target only; reconciliation removes exactly
    the unreferenced files.
  \<^item> \<open>Iam\<close>, \<open>Db\<close>, \<open>Accounts\<close>, \<open>AccountsProofs\<close>, \<open>Catalog\<close>, \<open>CatalogProofs\<close>: \<open>internal/iam\<close>, \<open>internal/authz\<close> and the
    repositories of \<open>internal/metadata\<close>.  Every operation keeps the constraints of the schema and changes nothing when it
    fails (the locale \<open>atomic_op\<close>, interpreted on each of them); access decisions refine a declared rule; a claim on
    an upload is exclusive under interleaving; paged listing is complete.
  \<^item> \<open>Migrations\<close>: \<open>migrations/migration.go\<close>, every version; interrupted runs resume.
  \<^item> \<open>Cache\<close>, \<open>CacheProofs\<close>: \<open>cache.go\<close>, \<open>cache_publication.go\<close> and the cached repositories; coherence as an
    invariant of interleaved readers and writers; a cached read that other requests interrupt at every point returns, with
    a current row (the locale \<open>cached_lookup\<close>, interpreted on objects and buckets).
  \<^item> \<open>PublicRead\<close>: \<open>internal/publicread\<close>, \<open>internal/sharelink\<close>.  \<open>SigV4\<close>, \<open>SigV4Proofs\<close>, \<open>SigV4Laws\<close>, \<open>Auth\<close>, \<open>AuthLaws\<close>:
    \<open>internal/auth\<close>; what is signed is accepted, what is accepted was signed, and one signature fits one request.
  \<^item> \<open>S3Types\<close>, \<open>S3Access\<close>, \<open>S3Objects\<close>, \<open>S3Multipart\<close>, \<open>S3Buckets\<close>, \<open>S3Dispatch\<close>, \<open>RequestXml\<close>, \<open>S3Laws\<close>, \<open>Listing\<close>:
    \<open>internal/s3\<close>, every handler and the dispatch of requests, the reading of request documents against a
    declared grammar, tokens, bucket names against the documented rules, and completeness of listings across pages.
  \<^item> \<open>UploadLock\<close>: the per-upload mutexes of \<open>object_handlers.go\<close> as a step relation over goroutines.
  \<^item> \<open>StoreProtocol\<close>, \<open>StoreHandlers\<close>, \<open>StoreRequests\<close>, \<open>StoreManagement\<close>: the composition.  A store is the world with the bookkeeping of who
    holds which path; \<open>store_step\<close> are the steps the protocol allows, \<open>store_ok\<close> its invariant.  Every S3 handler is shown to be a
    sequence of such steps by a calculus of triples, every management handler by a simpler one, and the running server
    is an inductive relation over requests of all kinds and the stale-upload worker.  What clients observe follows: rows have
    their files, a read follows a write, completed uploads and copied ranges have exactly the bytes asked for.
  \<^item> \<open>Config\<close>, \<open>ConfigLaws\<close>: \<open>internal/config\<close>.  \<open>ManagementTypes\<close>, \<open>Management\<close>, \<open>ManagementKeys\<close>, \<open>ManagementGrants\<close>,
    \<open>Setup\<close>, \<open>Server\<close>: \<open>internal/management\<close>, \<open>internal/setup\<close> and \<open>cmd/server\<close>.  \<open>ManagementLaws\<close>: a change needs an
    administrator, or the owner and then only that bucket; a revoked key is refused; the first administrator is created once.
  \<^item> \<open>WriteTimeout\<close>, \<open>Middleware\<close>: the connection with an idle timeout (\<open>internal/http/write_timeout.go\<close>), the recorder of the request log
    and the request identifiers.

  \<^bold>\<open>Bounds and loops.\<close>  Loops over data are structural recursion, or carry a termination proof on the bytes left.  The
  loops that read pages until one is not truncated are \<open>partial_function\<close>s with None for a loop that does not return,
  and are proved to return; so is the retry loop of a cached read, whose every retry is paid by an eviction of another
  request: the protocol has fewer than \<open>2 ^ 64\<close> evictions, so that a revision number never comes round.  Identifiers come from a stream whose first \<open>uuid_count\<close> values are distinct; the composed theorems ask that
  the identifiers a request draws are among them.  Integers that may overflow (durations, byte sizes, ranges) are kept
  at 64 bits by \<open>wrap64\<close> or checked as the code does.

  \<^bold>\<open>Parameters.\<close>  SHA-256, MD5, SHA-1 and the CRCs (a collision is an explicit alternative of the theorems that
  need one), random bytes and identifiers, the clock, the syntax of JSON and XML texts, RFC 1123 dates, durations, media types
  and URLs, and the connection of the operating system.

  \<^bold>\<open>Not modelled.\<close>  The text of response documents (they are values), CORS, path matching of the router, log lines, panic
  recovery, signals and graceful shutdown, the SQLite driver with its locking and query plans, deadlines and cancellation of contexts other
  than as failing calls, and the test endpoint of special builds.  The S3 and management handlers use the SQLite repositories directly;
  the branch of \<open>newApp\<close> that puts the cache before them, and the eviction after a completed upload, are part of \<open>CacheProofs\<close>
  only, where cached reads are shown to be current.  Within a run of the server requests are
  sequential; interleaving is treated where the code arranges for it: in the store protocol, the claims on uploads,
  the cache and the upload locks.
\<close>

end
